(* ===== verification/Cls_Prelude.thy ===== *)
theory Cls_Prelude
  imports "HOL-Library.Word" "HOL-Library.Monad_Syntax"
begin

text \<open>
  The words, the outcome type and the small amount of C arithmetic that every theory of the
  development shares.

  A C function that can fault (read an unmapped address) or run into behaviour the C standard
  leaves undefined returns an \<open>option\<close>: \<open>None\<close> is the fault, \<open>Some\<close> the normal return. The
  boolean status that most of these functions return, and what they write through their pointer
  parameters, are inside the \<open>Some\<close>, because the code leaves both visible to its caller on
  failure as well.
\<close>

unbundle bit_operations_syntax

type_synonym u8 = "8 word"
type_synonym u16 = "16 word"
type_synonym u32 = "32 word"
type_synonym u64 = "64 word"

named_theorems cls_defs \<open>definitions unfolded when a handler is evaluated\<close>
named_theorems advance_intros \<open>a parser moves its cursor forward by a bounded amount\<close>

section \<open>C integer arithmetic\<close>

text \<open>
  A left shift of a non-negative \<open>int\<close>: defined by C only when the shift count is below 32 and
  the shifted value fits in 31 bits. The result is given as the \<open>uint64_t\<close> it converts to.
\<close>

definition c_shl_int :: "nat \<Rightarrow> nat \<Rightarrow> u64 option" where
  "c_shl_int v sh = (if sh < 32 \<and> v * 2 ^ sh < 2 ^ 31 then Some (of_nat (v * 2 ^ sh)) else None)"

text \<open>The conversion of the \<open>int\<close> value \<open>-(1 << sh)\<close> to \<open>uint64_t\<close>.\<close>

definition c_neg_shl_one :: "nat \<Rightarrow> u64 option" where
  "c_neg_shl_one sh = (if sh < 31 then Some (- (2 ^ sh)) else None)"

text \<open>Addition and multiplication on \<open>intptr_t\<close> are undefined when they overflow.\<close>

definition c_sadd :: "u64 \<Rightarrow> u64 \<Rightarrow> u64 option" where
  "c_sadd a b = (if - (2 ^ 63) \<le> sint a + sint b \<and> sint a + sint b < 2 ^ 63 then Some (a + b) else None)"

definition c_smul :: "u64 \<Rightarrow> u64 \<Rightarrow> u64 option" where
  "c_smul a b = (if - (2 ^ 63) \<le> sint a * sint b \<and> sint a * sint b < 2 ^ 63 then Some (a * b) else None)"

text \<open>\<open>__builtin_ctz\<close> on a 32-bit mask, and the macro \<open>GET_BITS_WITH_MASK\<close>.\<close>

definition ctz32 :: "u32 \<Rightarrow> nat" where
  "ctz32 m = length (takeWhile (\<lambda>i. \<not> bit m i) [0..<32])"

lemma c_shl_int_Some [simp]:
  "sh < 32 \<Longrightarrow> v * 2 ^ sh < 2 ^ 31 \<Longrightarrow> c_shl_int v sh = Some (of_nat (v * 2 ^ sh))"
  by (simp add: c_shl_int_def)

lemma c_sadd_sint: "c_sadd a b = Some c \<Longrightarrow> sint c = sint a + sint b"
  by (auto simp: c_sadd_def sint_word_ariths signed_take_bit_int_eq_self split: if_splits)

lemma c_sadd_zero [simp]: "c_sadd 0 b = Some b"
  using sint_range_size [of b] by (simp add: c_sadd_def word_size)

section \<open>Loops that need not end\<close>

text \<open>
  The outcome of a loop that runs on fuel: running out is a result of its own, apart from the fault.
\<close>

datatype 'a loop_result = Out_of_fuel | Faulted | Returned 'a

primrec bind_result :: "'a loop_result \<Rightarrow> ('a \<Rightarrow> 'b loop_result) \<Rightarrow> 'b loop_result" where
  "bind_result Out_of_fuel f = Out_of_fuel"
| "bind_result Faulted f = Faulted"
| "bind_result (Returned x) f = f x"

definition from_option :: "'a option \<Rightarrow> 'a loop_result" where
  "from_option r = (case r of None \<Rightarrow> Faulted | Some x \<Rightarrow> Returned x)"

lemma from_option_simps [simp]:
  "from_option None = Faulted"
  "from_option (Some x) = Returned x"
  by (simp_all add: from_option_def)

lemma bind_result_Returned:
  "bind_result r f = Returned y \<longleftrightarrow> (\<exists>x. r = Returned x \<and> f x = Returned y)"
  by (cases r) auto

lemma bind_result_Out_of_fuel:
  "bind_result r f = Out_of_fuel \<longleftrightarrow> r = Out_of_fuel \<or> (\<exists>x. r = Returned x \<and> f x = Out_of_fuel)"
  by (cases r) auto

lemma from_option_Returned [simp]: "from_option r = Returned x \<longleftrightarrow> r = Some x"
  by (cases r) auto

lemma from_option_fuel [simp]: "from_option r \<noteq> Out_of_fuel"
  by (cases r) auto

section \<open>Bytes in memory order\<close>

primrec le_nat :: "u8 list \<Rightarrow> nat" where
  "le_nat [] = 0"
| "le_nat (b # bs) = unat b + 256 * le_nat bs"

definition le_word :: "u8 list \<Rightarrow> 'a::len word" where
  "le_word bs = of_nat (le_nat bs)"

lemma le_nat_bound: "le_nat bs < 256 ^ length bs"
proof (induction bs)
  case (Cons b bs)
  have "unat b < 256" using unsigned_less [of b] by simp
  with Cons show ?case by simp
qed simp

primrec le_bytes :: "nat \<Rightarrow> nat \<Rightarrow> u8 list" where
  "le_bytes 0 v = []"
| "le_bytes (Suc n) v = of_nat (v mod 256) # le_bytes n (v div 256)"

lemma le_bytes_length [simp]: "length (le_bytes n v) = n"
  by (induction n arbitrary: v) simp_all

lemma le_bytes_4:
  "le_bytes 4 v = [of_nat (v mod 256), of_nat (v div 256 mod 256), of_nat (v div 65536 mod 256),
     of_nat (v div 16777216 mod 256)]"
proof -
  have four: "(4 :: nat) = Suc (Suc (Suc (Suc 0)))" by simp
  have divs: "v div 65536 = v div 256 div 256" "v div 16777216 = v div 256 div 256 div 256"
    by (simp_all flip: div_mult2_eq)
  show ?thesis by (simp only: four le_bytes.simps divs)
qed

lemma le_nat_le_bytes: "le_nat (le_bytes n v) = v mod 256 ^ n"
proof (induction n arbitrary: v)
  case (Suc n)
  have "v mod 256 ^ Suc n = 256 * (v div 256 mod 256 ^ n) + v mod 256"
    using mod_mult2_eq [of v 256 "256 ^ n"] by simp
  with Suc show ?case by (simp add: unat_of_nat)
qed simp

lemma le_word_le_bytes: "v < 256 ^ n \<Longrightarrow> le_word (le_bytes n v) = of_nat v"
  by (simp add: le_word_def le_nat_le_bytes)

lemma le_word_Nil [simp]: "le_word [] = 0"
  by (simp add: le_word_def)

lemma le_word_single: "le_word [b] = ucast b"
  by (simp add: le_word_def unsigned_def)

section \<open>Small facts on words and options\<close>

lemma unat_add_no_wrap:
  "unat (c :: u64) + k < 2 ^ 64 \<Longrightarrow> unat (c + of_nat k) = unat c + k"
  by (simp add: unat_word_ariths unat_of_nat)

lemma unat_of_nat_u64: "n < 2 ^ 64 \<Longrightarrow> unat (of_nat n :: u64) = n"
  by (simp add: unat_of_nat)

lemma case_option_eq_Some_conv:
  "((case m of None \<Rightarrow> None | Some x \<Rightarrow> f x) = Some r) \<longleftrightarrow> (\<exists>x. m = Some x \<and> f x = Some r)"
  by (cases m) auto

end
