(* ===== verification/Cls_Memory.thy ===== *)
theory Cls_Memory
  imports Cls_Prelude
begin

text \<open>
  The address space a crashed process is inspected in. \<open>mem\<close> is what a plain dereference reads:
  \<open>None\<close> at an unmapped address, where the code faults. \<open>vm_read\<close> is the kernel's
  \<open>vm_read_overwrite\<close>, which is not under src/: a parameter that either delivers the bytes or
  reports an error. \<open>FIRCLSIsValidPointer\<close> and \<open>FIRCLSReadMemory\<close> are from
  FIRCLSUtility.h and FIRCLSUtility.m.
\<close>

record cls_env =
  mem :: "u64 \<Rightarrow> u8 option"
  vm_read :: "u64 \<Rightarrow> nat \<Rightarrow> u8 list option"

primrec load :: "cls_env \<Rightarrow> u64 \<Rightarrow> nat \<Rightarrow> u8 list option" where
  "load env a 0 = Some []"
| "load env a (Suc n) = do { b \<leftarrow> mem env a; bs \<leftarrow> load env (a + 1) n; Some (b # bs) }"

definition FIRCLSIsValidPointer :: "u64 \<Rightarrow> bool" where
  "FIRCLSIsValidPointer x \<longleftrightarrow> 4096 \<le> x"

text \<open>\<open>None\<close> is the status \<open>false\<close>, with the destination left as it was.\<close>

definition FIRCLSReadMemory :: "cls_env \<Rightarrow> u64 \<Rightarrow> nat \<Rightarrow> u8 list option" where
  "FIRCLSReadMemory env src len = (if \<not> FIRCLSIsValidPointer src then None else vm_read env src len)"

definition FIRCLSReadWord :: "cls_env \<Rightarrow> u64 \<Rightarrow> u64 option" where
  "FIRCLSReadWord env src = map_option le_word (FIRCLSReadMemory env src 8)"

text \<open>The documented behaviour of \<open>vm_read_overwrite\<close>: it succeeds exactly on mapped ranges.\<close>

definition vm_read_ok :: "cls_env \<Rightarrow> bool" where
  "vm_read_ok env \<longleftrightarrow> (\<forall>a n. vm_read env a n = load env a n)"

section \<open>Loading ranges\<close>

lemma load_length: "load env a n = Some bs \<Longrightarrow> length bs = n"
  by (induction n arbitrary: a bs) (auto simp: bind_eq_Some_conv)

lemma load_unmapped: "mem env a = None \<Longrightarrow> 0 < n \<Longrightarrow> load env a n = None"
  by (cases n) simp_all

lemma load_cong:
  "(\<And>i. i < n \<Longrightarrow> mem e' (a + of_nat i) = mem e (a + of_nat i)) \<Longrightarrow> load e' a n = load e a n"
proof (induction n arbitrary: a)
  case (Suc n)
  have "mem e' a = mem e a" using Suc.prems [of 0] by simp
  moreover have "load e' (a + 1) n = load e (a + 1) n"
    using Suc.prems [of "Suc i" for i] by (intro Suc.IH) (simp add: add.assoc)
  ultimately show ?case by simp
qed simp

lemma load_append:
  "load env a (m + n) =
     do { bs \<leftarrow> load env a m; cs \<leftarrow> load env (a + of_nat m) n; Some (bs @ cs) }"
proof (induction m arbitrary: a)
  case (Suc m)
  have "a + 1 + of_nat m = a + of_nat (Suc m)" by simp
  with Suc.IH [of "a + 1"] show ?case
    by (simp del: of_nat_Suc split: option.splits Option.bind_splits)
qed simp

definition bytes_at :: "cls_env \<Rightarrow> u64 \<Rightarrow> u8 list \<Rightarrow> bool" where
  "bytes_at env a bs \<longleftrightarrow> load env a (length bs) = Some bs"

lemma bytes_at_Nil [simp]: "bytes_at env a []"
  by (simp add: bytes_at_def)

lemma bytes_at_Cons [simp]:
  "bytes_at env a (b # bs) \<longleftrightarrow> mem env a = Some b \<and> bytes_at env (a + 1) bs"
  by (auto simp: bytes_at_def bind_eq_Some_conv)

lemma bytes_at_append:
  "bytes_at env a (xs @ ys) \<longleftrightarrow> bytes_at env a xs \<and> bytes_at env (a + of_nat (length xs)) ys"
proof (induction xs arbitrary: a)
  case (Cons x xs)
  have "a + 1 + of_nat (length xs) = a + of_nat (length (x # xs))" by simp
  then show ?case using Cons.IH [of "a + 1"] by (simp add: add.assoc)
qed simp

lemma bytes_at_load: "bytes_at env a bs \<Longrightarrow> n = length bs \<Longrightarrow> load env a n = Some bs"
  by (simp add: bytes_at_def)

lemma ReadWord_vm_read_ok:
  "vm_read_ok env \<Longrightarrow> FIRCLSIsValidPointer a \<Longrightarrow> bytes_at env a bs \<Longrightarrow> length bs = 8 \<Longrightarrow>
     FIRCLSReadWord env a = Some (le_word bs)"
  by (simp add: FIRCLSReadWord_def FIRCLSReadMemory_def vm_read_ok_def bytes_at_load)

lemma ReadWord_invalid [simp]: "\<not> FIRCLSIsValidPointer a \<Longrightarrow> FIRCLSReadWord env a = None"
  by (simp add: FIRCLSReadWord_def FIRCLSReadMemory_def)

lemma not_valid_zero [simp]: "\<not> FIRCLSIsValidPointer 0"
  by (simp add: FIRCLSIsValidPointer_def)

section \<open>Concrete address spaces\<close>

text \<open>
  A memory given by its mapped regions, with the kernel read that belongs to it: the address
  spaces the witnesses evaluate on.
\<close>

fun mapped :: "(u64 \<times> u8 list) list \<Rightarrow> u64 \<Rightarrow> u8 option" where
  "mapped [] a = None"
| "mapped ((base, bs) # rs) a =
     (if unat (a - base) < length bs then Some (bs ! unat (a - base)) else mapped rs a)"

definition env_of :: "(u64 \<times> u8 list) list \<Rightarrow> cls_env" where
  "env_of rs = \<lparr>mem = mapped rs, vm_read = (\<lambda>a n. load \<lparr>mem = mapped rs, vm_read = (\<lambda>_ _. None)\<rparr> a n)\<rparr>"

lemma vm_read_ok_env_of: "vm_read_ok (env_of rs)"
  by (simp add: vm_read_ok_def) (metis cls_env.select_convs(1,2) env_of_def load_cong)

lemma load_mapped_here: "n = length bs \<Longrightarrow> length bs < 2 ^ 64 \<Longrightarrow> load (env_of ((a, bs) # rs)) a n = Some bs"
proof -
  assume n: "n = length bs" and small: "length bs < 2 ^ 64"
  have "load (env_of ((a, bs) # rs)) (a + of_nat k) n = Some (drop k bs)" if "k + n = length bs" for k n
    using that
  proof (induction n arbitrary: k)
    case (Suc n)
    have "unat (of_nat k :: u64) = k" using Suc.prems small by (simp add: unat_of_nat)
    then show ?case using Suc.IH [of "Suc k"] Suc.prems by (simp add: env_of_def add.assoc [symmetric] add.commute [of 1] Cons_nth_drop_Suc)
  qed simp
  from this [of 0 "length bs"] show ?thesis by (simp add: n)
qed

lemma load_mapped_skip:
  "length bs \<le> unat (a - b) \<Longrightarrow> unat (a - b) + n \<le> 2 ^ 64 \<Longrightarrow> load (env_of ((b, bs) # rs)) a n = load (env_of rs) a n"
proof (induction n arbitrary: a)
  case (Suc n)
  have "mem (env_of ((b, bs) # rs)) a = mem (env_of rs) a" using Suc.prems(1) by (simp add: env_of_def)
  moreover have "load (env_of ((b, bs) # rs)) (a + 1) n = load (env_of rs) (a + 1) n" if "n \<noteq> 0"
  proof -
    have "unat (a - b + 1) = unat (a - b) + 1" using Suc.prems(2) that by (simp add: unat_word_ariths)
    then show ?thesis using Suc.prems Suc.IH [of "a + 1"] by (simp add: algebra_simps)
  qed
  ultimately show ?case by (cases n) simp_all
qed simp

section \<open>Interface: a parser over a cursor\<close>

text \<open>
  Everything that reads a DWARF stream takes a cursor and returns a value with the advanced
  cursor. What its clients rely on: it advances by at least one and at most \<open>width\<close> bytes,
  and it reads no byte outside that window.
\<close>

locale cursor_parser =
  fixes parse :: "cls_env \<Rightarrow> u64 \<Rightarrow> ('a \<times> u64) option"
    and width :: nat
  assumes advance: "parse env c = Some (v, c') \<Longrightarrow> \<exists>k. 1 \<le> k \<and> k \<le> width \<and> c' = c + of_nat k"
    and window: "(\<And>i. i < width \<Longrightarrow> mem e' (c + of_nat i) = mem e (c + of_nat i)) \<Longrightarrow>
                   parse e' c = parse e c"
begin

lemma forward:
  assumes "parse env c = Some (v, c')" and "unat c + width < 2 ^ 64"
  shows "unat c < unat c' \<and> unat c' \<le> unat c + width"
proof -
  obtain k where k: "1 \<le> k" "k \<le> width" "c' = c + of_nat k"
    using advance [OF assms(1)] by blast
  then have "unat c' = unat c + k" using assms(2) by (simp add: unat_add_no_wrap)
  with k show ?thesis by simp
qed

lemma never_stuck: "parse env c = Some (v, c') \<Longrightarrow> width < 2 ^ 64 \<Longrightarrow> c' \<noteq> c"
proof -
  assume p: "parse env c = Some (v, c')" and w: "width < 2 ^ 64"
  then obtain k where k: "1 \<le> k" "k \<le> width" "c' = c + of_nat k" using advance by blast
  then have "unat (of_nat k :: u64) = k" using w by (simp add: unat_of_nat)
  then have "(of_nat k :: u64) \<noteq> 0" using k(1) by (metis not_one_le_zero unat_0)
  with k(3) show ?thesis by simp
qed

end

end
