(* ===== verification/Cls_Data_Parsing.thy ===== *)
theory Cls_Data_Parsing
  imports Cls_Memory
begin

text \<open>
  FIRCLSDataParsing.c: the primitive readers of a DWARF byte stream. A cursor is the address
  the code keeps in \<open>const void*\<close>; each reader returns its value with the advanced cursor, and
  \<open>None\<close> when it faults or shifts an \<open>int\<close> out of range. Signed results are the words the code
  returns, read with \<open>sint\<close>.
\<close>

section \<open>Fixed-width integers\<close>

definition parse_fixed :: "nat \<Rightarrow> cls_env \<Rightarrow> u64 \<Rightarrow> ('a::len word \<times> u64) option" where
  "parse_fixed n env cursor = do { bs \<leftarrow> load env cursor n; Some (le_word bs, cursor + of_nat n) }"

definition FIRCLSParseUint8AndAdvance :: "cls_env \<Rightarrow> u64 \<Rightarrow> (u8 \<times> u64) option" where
  "FIRCLSParseUint8AndAdvance = parse_fixed 1"

definition FIRCLSParseUint16AndAdvance :: "cls_env \<Rightarrow> u64 \<Rightarrow> (u16 \<times> u64) option" where
  "FIRCLSParseUint16AndAdvance = parse_fixed 2"

definition FIRCLSParseInt16AndAdvance :: "cls_env \<Rightarrow> u64 \<Rightarrow> (u16 \<times> u64) option" where
  "FIRCLSParseInt16AndAdvance = parse_fixed 2"

definition FIRCLSParseUint32AndAdvance :: "cls_env \<Rightarrow> u64 \<Rightarrow> (u32 \<times> u64) option" where
  "FIRCLSParseUint32AndAdvance = parse_fixed 4"

definition FIRCLSParseInt32AndAdvance :: "cls_env \<Rightarrow> u64 \<Rightarrow> (u32 \<times> u64) option" where
  "FIRCLSParseInt32AndAdvance = parse_fixed 4"

definition FIRCLSParseUint64AndAdvance :: "cls_env \<Rightarrow> u64 \<Rightarrow> (u64 \<times> u64) option" where
  "FIRCLSParseUint64AndAdvance = parse_fixed 8"

definition FIRCLSParseInt64AndAdvance :: "cls_env \<Rightarrow> u64 \<Rightarrow> (u64 \<times> u64) option" where
  "FIRCLSParseInt64AndAdvance = parse_fixed 8"

definition FIRCLSParsePointerAndAdvance :: "cls_env \<Rightarrow> u64 \<Rightarrow> (u64 \<times> u64) option" where
  "FIRCLSParsePointerAndAdvance = parse_fixed 8"

section \<open>LEB128\<close>

text \<open>
  The loops run over at most \<open>sizeof(uint64_t)\<close> bytes; the first argument is how many are left.
  The shift \<open>(0x7F & byte) << shift\<close> is done on \<open>int\<close>, before the widening to 64 bits.
\<close>

primrec uleb_loop :: "nat \<Rightarrow> cls_env \<Rightarrow> nat \<Rightarrow> u64 \<Rightarrow> u64 \<Rightarrow> (u64 \<times> u64) option" where
  "uleb_loop 0 env shift result cursor = Some (result, cursor)"
| "uleb_loop (Suc n) env shift result cursor = do {
     byte \<leftarrow> mem env cursor;
     part \<leftarrow> c_shl_int (unat (0x7F AND byte)) shift;
     (if 0x80 AND byte = 0 then Some (result OR part, cursor + 1)
      else uleb_loop n env (shift + 7) (result OR part) (cursor + 1)) }"

definition FIRCLSParseULEB128AndAdvance :: "cls_env \<Rightarrow> u64 \<Rightarrow> (u64 \<times> u64) option" where
  "FIRCLSParseULEB128AndAdvance env cursor = uleb_loop 8 env 0 0 cursor"

primrec leb_loop :: "nat \<Rightarrow> cls_env \<Rightarrow> nat \<Rightarrow> u64 \<Rightarrow> u8 \<Rightarrow> u64 \<Rightarrow> (u64 \<times> nat \<times> u8 \<times> u64) option" where
  "leb_loop 0 env shift result byte cursor = Some (result, shift, byte, cursor)"
| "leb_loop (Suc n) env shift result byte0 cursor = do {
     byte \<leftarrow> mem env cursor;
     part \<leftarrow> c_shl_int (unat (0x7F AND byte)) shift;
     (if 0x80 AND byte = 0 then Some (result OR part, shift + 7, byte, cursor + 1)
      else leb_loop n env (shift + 7) (result OR part) byte (cursor + 1)) }"

definition leb_finish :: "(u64 \<times> nat \<times> u8 \<times> u64) \<Rightarrow> (u64 \<times> u64) option" where
  "leb_finish = (\<lambda>(result, shift, byte, cursor).
     if shift < 64 \<and> 0x40 AND byte \<noteq> 0
     then do { ext \<leftarrow> c_neg_shl_one shift; Some (result OR ext, cursor) }
     else Some (result, cursor))"

definition FIRCLSParseLEB128AndAdvance :: "cls_env \<Rightarrow> u64 \<Rightarrow> (u64 \<times> u64) option" where
  "FIRCLSParseLEB128AndAdvance env cursor = do { r \<leftarrow> leb_loop 8 env 0 0 0 cursor; leb_finish r }"

section \<open>Strings, record lengths, encoded addresses\<close>

partial_function (option) strlen :: "cls_env \<Rightarrow> u64 \<Rightarrow> u64 option" where
  "strlen env a = (case mem env a of None \<Rightarrow> None
     | Some b \<Rightarrow> if b = 0 then Some 0 else do { n \<leftarrow> strlen env (a + 1); Some (n + 1) })"

definition FIRCLSParseStringAndAdvance :: "cls_env \<Rightarrow> u64 \<Rightarrow> (u64 \<times> u64) option" where
  "FIRCLSParseStringAndAdvance env cursor = do {
     n \<leftarrow> strlen env cursor;
     Some (cursor, cursor + (n + 1)) }"

definition DWARF_EXTENDED_LENGTH_FLAG :: u64 where
  "DWARF_EXTENDED_LENGTH_FLAG = 0xffffffff"

definition FIRCLSParseRecordLengthAndAdvance :: "cls_env \<Rightarrow> u64 \<Rightarrow> (u64 \<times> u64) option" where
  "FIRCLSParseRecordLengthAndAdvance env cursor = do {
     (len, cursor) \<leftarrow> FIRCLSParseUint32AndAdvance env cursor;
     (if (ucast len :: u64) = DWARF_EXTENDED_LENGTH_FLAG
      then FIRCLSParseUint64AndAdvance env cursor
      else Some (ucast len, cursor)) }"

definition CLS_INVALID_ADDRESS :: u64 where
  "CLS_INVALID_ADDRESS = 0xffffffffffffffff"

text \<open>The \<open>switch\<close> on \<open>encoding & DW_EH_PE_VALUE_MASK\<close>: \<open>Some None\<close> is the default branch.\<close>

definition parse_encoded_value :: "cls_env \<Rightarrow> u64 \<Rightarrow> u8 \<Rightarrow> (u64 \<times> u64) option option" where
  "parse_encoded_value env cursor encoding =
    (let form = encoding AND 0x0F in
     if form = 0x00 then map_option Some (FIRCLSParsePointerAndAdvance env cursor)
     else if form = 0x01 then map_option Some (FIRCLSParseULEB128AndAdvance env cursor)
     else if form = 0x02 then map_option (\<lambda>(v, c). Some (ucast v, c)) (FIRCLSParseUint16AndAdvance env cursor)
     else if form = 0x03 then map_option (\<lambda>(v, c). Some (ucast v, c)) (FIRCLSParseUint32AndAdvance env cursor)
     else if form = 0x04 then map_option Some (FIRCLSParseUint64AndAdvance env cursor)
     else if form = 0x09 then map_option Some (FIRCLSParseLEB128AndAdvance env cursor)
     else if form = 0x0A then map_option (\<lambda>(v, c). Some (scast v, c)) (FIRCLSParseInt16AndAdvance env cursor)
     else if form = 0x0B then map_option (\<lambda>(v, c). Some (scast v, c)) (FIRCLSParseInt32AndAdvance env cursor)
     else if form = 0x0C then map_option Some (FIRCLSParseInt64AndAdvance env cursor)
     else Some None)"

definition FIRCLSParseAddressWithEncodingAndAdvance ::
  "cls_env \<Rightarrow> u64 \<Rightarrow> u8 \<Rightarrow> (u64 \<times> u64) option" where
  "FIRCLSParseAddressWithEncodingAndAdvance env cursor encoding =
    (if encoding = 0xFF then Some (0, cursor)
     else if cursor = 0 then Some (CLS_INVALID_ADDRESS, cursor)
     else do {
       let inputAddr = cursor;
       parsed \<leftarrow> parse_encoded_value env cursor encoding;
       (case parsed of
          None \<Rightarrow> Some (CLS_INVALID_ADDRESS, cursor)
        | Some (addr, cursor) \<Rightarrow>
            let rel = encoding AND 0x70 in
            if rel \<noteq> 0x00 \<and> rel \<noteq> 0x10 then Some (CLS_INVALID_ADDRESS, cursor)
            else do {
              addr \<leftarrow> (if rel = 0x10 then c_sadd addr inputAddr else Some addr);
              (if encoding AND 0x80 \<noteq> 0 then
                 (if addr = 0 then Some (CLS_INVALID_ADDRESS, cursor)
                  else do { bs \<leftarrow> load env addr 8; Some (le_word bs, cursor) })
               else Some (addr, cursor)) }) })"

lemmas parse_fixed_defs =
  FIRCLSParseUint8AndAdvance_def FIRCLSParseUint16AndAdvance_def FIRCLSParseInt16AndAdvance_def
  FIRCLSParseUint32AndAdvance_def FIRCLSParseInt32AndAdvance_def FIRCLSParseUint64AndAdvance_def
  FIRCLSParseInt64AndAdvance_def FIRCLSParsePointerAndAdvance_def

section \<open>Every reader is a cursor parser\<close>

lemma parse_fixed_advance:
  "1 \<le> n \<Longrightarrow> parse_fixed n env c = Some (v, c') \<Longrightarrow> \<exists>k. 1 \<le> k \<and> k \<le> n \<and> c' = c + of_nat k"
  by (auto simp: parse_fixed_def bind_eq_Some_conv)

lemma parse_fixed_window:
  "(\<And>i. i < n \<Longrightarrow> mem e' (c + of_nat i) = mem e (c + of_nat i)) \<Longrightarrow>
     parse_fixed n e' c = parse_fixed n e c"
  using load_cong [of n e' c e] by (simp add: parse_fixed_def)

lemma parse_fixed_load:
  "load env c n = Some bs \<Longrightarrow> parse_fixed n env c = Some (le_word bs, c + of_nat n)"
  by (simp add: parse_fixed_def)

lemma ParseUint8_byte:
  "FIRCLSParseUint8AndAdvance env c = map_option (\<lambda>b. (b, c + 1)) (mem env c)"
  by (cases "mem env c") (simp_all add: FIRCLSParseUint8AndAdvance_def parse_fixed_def le_word_single)

lemma parse_loaded:
  "load env c 1 = Some bs \<Longrightarrow> FIRCLSParseUint8AndAdvance env c = Some (le_word bs, c + 1)"
  "load env c 2 = Some bs \<Longrightarrow> FIRCLSParseUint16AndAdvance env c = Some (le_word bs, c + 2)"
  "load env c 4 = Some bs \<Longrightarrow> FIRCLSParseUint32AndAdvance env c = Some (le_word bs, c + 4)"
  "load env c 8 = Some bs \<Longrightarrow> FIRCLSParseUint64AndAdvance env c = Some (le_word bs, c + 8)"
  by (simp_all only: parse_fixed_defs parse_fixed_load of_nat_numeral of_nat_1)

interpretation u8p: cursor_parser FIRCLSParseUint8AndAdvance 1
  by unfold_locales (unfold parse_fixed_defs, rule parse_fixed_advance parse_fixed_window; simp)+

interpretation u16p: cursor_parser FIRCLSParseUint16AndAdvance 2
  by unfold_locales (unfold parse_fixed_defs, rule parse_fixed_advance parse_fixed_window; simp)+

interpretation u32p: cursor_parser FIRCLSParseUint32AndAdvance 4
  by unfold_locales (unfold parse_fixed_defs, rule parse_fixed_advance parse_fixed_window; simp)+

interpretation u64p: cursor_parser FIRCLSParseUint64AndAdvance 8
  by unfold_locales (unfold parse_fixed_defs, rule parse_fixed_advance parse_fixed_window; simp)+

lemma uleb_loop_advance:
  "uleb_loop n env sh r c = Some (v, c') \<Longrightarrow> \<exists>k \<le> n. (n \<noteq> 0 \<longrightarrow> 1 \<le> k) \<and> c' = c + of_nat k"
proof (induction n arbitrary: sh r c)
  case (Suc n)
  show ?case
  proof (cases "c' = c + 1")
    case True
    then show ?thesis by (intro exI [of _ 1]) simp
  next
    case False
    with Suc.prems obtain r1 where "uleb_loop n env (sh + 7) r1 (c + 1) = Some (v, c')"
      by (auto simp: bind_eq_Some_conv split: if_splits)
    then obtain k where "k \<le> n" "c' = c + 1 + of_nat k" using Suc.IH by blast
    then show ?thesis by (intro exI [of _ "Suc k"]) (simp add: add.assoc)
  qed
qed simp

lemma uleb_loop_window:
  "(\<And>i. i < n \<Longrightarrow> mem e' (c + of_nat i) = mem e (c + of_nat i)) \<Longrightarrow>
     uleb_loop n e' sh r c = uleb_loop n e sh r c"
proof (induction n arbitrary: sh r c)
  case (Suc n)
  have "mem e' c = mem e c" using Suc.prems [of 0] by simp
  moreover have "uleb_loop n e' s q (c + 1) = uleb_loop n e s q (c + 1)" for s q
    using Suc.prems [of "Suc i" for i] by (intro Suc.IH) (simp add: add.assoc)
  ultimately show ?case by (simp cong: if_cong)
qed simp

interpretation uleb: cursor_parser FIRCLSParseULEB128AndAdvance 8
proof
  show "\<exists>k. 1 \<le> k \<and> k \<le> 8 \<and> c' = c + of_nat k"
    if "FIRCLSParseULEB128AndAdvance env c = Some (v, c')" for env c v c'
    using uleb_loop_advance [OF that [unfolded FIRCLSParseULEB128AndAdvance_def]] by auto
qed (unfold FIRCLSParseULEB128AndAdvance_def, rule uleb_loop_window)

lemma leb_loop_advance:
  "leb_loop n env sh r b c = Some (v, sh', b', c') \<Longrightarrow>
     \<exists>k \<le> n. (n \<noteq> 0 \<longrightarrow> 1 \<le> k) \<and> c' = c + of_nat k"
proof (induction n arbitrary: sh r b c)
  case (Suc n)
  show ?case
  proof (cases "c' = c + 1")
    case True
    then show ?thesis by (intro exI [of _ 1]) simp
  next
    case False
    with Suc.prems obtain r1 b1 where "leb_loop n env (sh + 7) r1 b1 (c + 1) = Some (v, sh', b', c')"
      by (auto simp: bind_eq_Some_conv split: if_splits)
    then obtain k where "k \<le> n" "c' = c + 1 + of_nat k" using Suc.IH by blast
    then show ?thesis by (intro exI [of _ "Suc k"]) (simp add: add.assoc)
  qed
qed simp

lemma leb_loop_window:
  "(\<And>i. i < n \<Longrightarrow> mem e' (c + of_nat i) = mem e (c + of_nat i)) \<Longrightarrow>
     leb_loop n e' sh r b c = leb_loop n e sh r b c"
proof (induction n arbitrary: sh r b c)
  case (Suc n)
  have "mem e' c = mem e c" using Suc.prems [of 0] by simp
  moreover have "leb_loop n e' s q x (c + 1) = leb_loop n e s q x (c + 1)" for s q x
    using Suc.prems [of "Suc i" for i] by (intro Suc.IH) (simp add: add.assoc)
  ultimately show ?case by (simp cong: if_cong)
qed simp

lemma leb_finish_cursor: "leb_finish (r, sh, b, c) = Some (v, c') \<Longrightarrow> c' = c"
  by (auto simp: leb_finish_def bind_eq_Some_conv split: if_splits)

interpretation leb: cursor_parser FIRCLSParseLEB128AndAdvance 8
proof
  show "\<exists>k. 1 \<le> k \<and> k \<le> 8 \<and> c' = c + of_nat k"
    if "FIRCLSParseLEB128AndAdvance env c = Some (v, c')" for env c v c'
  proof -
    from that obtain r sh b where "leb_loop 8 env 0 0 0 c = Some (r, sh, b, c')"
      by (auto simp: FIRCLSParseLEB128AndAdvance_def bind_eq_Some_conv dest: leb_finish_cursor)
    from leb_loop_advance [OF this] show ?thesis by auto
  qed
  show "FIRCLSParseLEB128AndAdvance e' c = FIRCLSParseLEB128AndAdvance e c"
    if "\<And>i. i < 8 \<Longrightarrow> mem e' (c + of_nat i) = mem e (c + of_nat i)" for e' e c
    using leb_loop_window [OF that] by (simp add: FIRCLSParseLEB128AndAdvance_def)
qed

interpretation reclen: cursor_parser FIRCLSParseRecordLengthAndAdvance 12
proof
  show "\<exists>k. 1 \<le> k \<and> k \<le> 12 \<and> c' = c + of_nat k"
    if "FIRCLSParseRecordLengthAndAdvance env c = Some (v, c')" for env c v c'
    using that
    by (auto simp: FIRCLSParseRecordLengthAndAdvance_def parse_fixed_defs parse_fixed_def
        bind_eq_Some_conv split: if_splits intro: exI [of _ 4] exI [of _ 12])
  show "FIRCLSParseRecordLengthAndAdvance e' c = FIRCLSParseRecordLengthAndAdvance e c"
    if w: "\<And>i. i < 12 \<Longrightarrow> mem e' (c + of_nat i) = mem e (c + of_nat i)" for e' e c
  proof -
    have 1: "load e' c 4 = load e c 4" by (rule load_cong) (simp add: w)
    have 2: "load e' (c + 4) 8 = load e (c + 4) 8"
      using w [of "4 + i" for i] by (intro load_cong) (simp add: add.assoc)
    show ?thesis
      by (simp add: FIRCLSParseRecordLengthAndAdvance_def parse_fixed_defs parse_fixed_def 1 2
          cong: if_cong)
  qed
qed

end
