(* ===== verification/Cls_Leb128.thy ===== *)
theory Cls_Leb128
  imports Cls_Data_Parsing
begin

text \<open>
  The LEB128 numbers of the DWARF standard as reference encoders, and what the two decoders of
  FIRCLSDataParsing.c make of them: exact up to the point where the \<open>int\<close> shift leaves the range
  C defines, and undefined behaviour beyond it.
\<close>

fun uleb128_encode :: "nat \<Rightarrow> u8 list" where
  "uleb128_encode n =
     (if n < 128 then [of_nat n] else of_nat (128 + n mod 128) # uleb128_encode (n div 128))"

function sleb128_encode :: "int \<Rightarrow> u8 list" where
  "sleb128_encode n =
     (if - 64 \<le> n \<and> n < 64 then [of_int (n mod 128)]
      else of_int (128 + n mod 128) # sleb128_encode (n div 128))"
  by pat_completeness auto
termination
  by (relation "measure (\<lambda>n. nat \<bar>n\<bar>)") auto

declare uleb128_encode.simps [simp del] sleb128_encode.simps [simp del]

section \<open>Bits of a LEB128 byte\<close>

lemma leb_byte_low: "v < 128 \<Longrightarrow> unat (0x7F AND (of_nat v :: u8)) = v"
  and leb_byte_low_cont: "v < 128 \<Longrightarrow> unat (0x7F AND (128 + of_nat v :: u8)) = v"
  and leb_byte_last: "v < 128 \<Longrightarrow> 0x80 AND (of_nat v :: u8) = 0"
  and leb_byte_cont: "v < 128 \<Longrightarrow> 0x80 AND (128 + of_nat v :: u8) \<noteq> 0"
proof -
  have all: "\<forall>v \<in> set [0..<128].
      unat (0x7F AND (of_nat v :: u8)) = v \<and> unat (0x7F AND (128 + of_nat v :: u8)) = v \<and>
      0x80 AND (of_nat v :: u8) = 0 \<and> 0x80 AND (128 + of_nat v :: u8) \<noteq> 0"
    by code_simp
  then show "v < 128 \<Longrightarrow> unat (0x7F AND (of_nat v :: u8)) = v"
    and "v < 128 \<Longrightarrow> unat (0x7F AND (128 + of_nat v :: u8)) = v"
    and "v < 128 \<Longrightarrow> 0x80 AND (of_nat v :: u8) = 0"
    and "v < 128 \<Longrightarrow> 0x80 AND (128 + of_nat v :: u8) \<noteq> 0"
    by (auto simp del: upt_conv_Cons)
qed

lemma or_shifted:
  fixes a v :: nat
  assumes "a < 2 ^ k"
  shows "(of_nat a :: 'a::len word) OR of_nat v * 2 ^ k = of_nat a + of_nat v * 2 ^ k"
proof -
  have low: "n < k" if "bit a n" for n
  proof (rule ccontr)
    assume "\<not> n < k"
    then have "(2::nat) ^ k \<le> 2 ^ n" by simp
    with assms have "a div 2 ^ n = 0" by (intro div_less) (rule less_le_trans)
    with that show False by (simp add: bit_iff_odd)
  qed
  have "a + push_bit k v = a OR push_bit k v"
    using low by (intro disjunctive_add) (fastforce simp: bit_push_bit_iff_nat)
  then have "(of_nat (a OR v * 2 ^ k) :: 'a word) = of_nat (a + v * 2 ^ k)"
    by (simp add: push_bit_eq_mult)
  then show ?thesis by (simp add: of_nat_or_eq)
qed

section \<open>Decoding what the standard encodes\<close>

lemma uleb_loop_encode:
  assumes "bytes_at env c (uleb128_encode n)" and "j \<le> 5" and "a < 2 ^ (7 * j)" and "n \<noteq> 0 \<or> j < 5"
  shows "uleb_loop (8 - j) env (7 * j) (of_nat a) c =
           (if n * 2 ^ (7 * j) < 2 ^ 31
            then Some (of_nat (a + n * 2 ^ (7 * j)), c + of_nat (length (uleb128_encode n)))
            else None)"
  using assms
proof (induction n arbitrary: j a c rule: uleb128_encode.induct)
  case (1 n)
  define v where "v = n mod 128"
  have steps: "8 - j = Suc (8 - Suc j)" using "1.prems"(2) by simp
  show ?case
  proof (cases "n < 128")
    case True
    then have enc: "uleb128_encode n = [of_nat n]" by (simp add: uleb128_encode.simps)
    have shl: "c_shl_int n (7 * j) =
        (if n * 2 ^ (7 * j) < 2 ^ 31 then Some (of_nat (n * 2 ^ (7 * j))) else None)"
    proof (cases "j < 5")
      case False
      with "1.prems" have "j = 5" "1 \<le> n" by auto
      then show ?thesis by (simp add: c_shl_int_def)
    qed (simp add: c_shl_int_def)
    from "1.prems"(1) enc True show ?thesis
      by (simp add: steps shl leb_byte_low leb_byte_last or_shifted [OF "1.prems"(3)])
  next
    case False
    then have enc: "uleb128_encode n = of_nat (128 + v) # uleb128_encode (n div 128)"
      by (simp add: uleb128_encode.simps [of n] v_def)
    have v: "v < 128" and n: "n = 128 * (n div 128) + v" and n1: "1 \<le> n div 128"
      using False by (auto simp: v_def)
    have b: "mem env c = Some (of_nat (128 + v))" and rest: "bytes_at env (c + 1) (uleb128_encode (n div 128))"
      using "1.prems"(1) by (simp_all add: enc)
    show ?thesis
    proof (cases "7 * j < 32 \<and> v * 2 ^ (7 * j) < 2 ^ 31")
      case True
      then have j: "j < 5" by auto
      have a': "a + v * 2 ^ (7 * j) < 2 ^ (7 * Suc j)"
      proof -
        have "v * 2 ^ (7 * j) \<le> 127 * 2 ^ (7 * j)" using v by simp
        then have "a + v * 2 ^ (7 * j) < 128 * 2 ^ (7 * j)" using "1.prems"(3) by linarith
        then show ?thesis by (simp add: power_add)
      qed
      have eq: "a + v * 2 ^ (7 * j) + n div 128 * 2 ^ (7 * Suc j) = a + n * 2 ^ (7 * j)"
        by (subst n) (simp add: power_add algebra_simps)
      have bound: "n div 128 * 2 ^ (7 * Suc j) < 2 ^ 31 \<longleftrightarrow> n * 2 ^ (7 * j) < 2 ^ 31"
      proof -
        consider "j = 0" | "j = 1" | "j = 2" | "j = 3" | "j = 4" using j by linarith
        then show ?thesis using True n1 False by cases auto
      qed
      have IH: "uleb_loop (8 - Suc j) env (7 * Suc j) (of_nat (a + v * 2 ^ (7 * j))) (c + 1) =
          (if n * 2 ^ (7 * j) < 2 ^ 31
           then Some (of_nat (a + n * 2 ^ (7 * j)), c + 1 + of_nat (length (uleb128_encode (n div 128))))
           else None)"
        using "1.IH" [OF False rest _ a'] j n1 by (simp only: eq bound) simp
      have "uleb_loop (8 - j) env (7 * j) (of_nat a) c =
          uleb_loop (8 - Suc j) env (7 * Suc j) (of_nat (a + v * 2 ^ (7 * j))) (c + 1)"
        using True v b by (simp add: steps leb_byte_low_cont leb_byte_cont or_shifted [OF "1.prems"(3)]
            add.commute [of 7])
      then show ?thesis unfolding IH by (simp add: enc add.assoc)
    next
      case f: False
      have "2 ^ 31 \<le> n * 2 ^ (7 * j)"
      proof (cases "7 * j < 32")
        case True
        with f have "2 ^ 31 \<le> v * 2 ^ (7 * j)" by simp
        also have "\<dots> \<le> n * 2 ^ (7 * j)" by (simp add: v_def)
        finally show ?thesis .
      next
        case False
        then have "j = 5" using "1.prems"(2) by simp
        with n1 show ?thesis by simp
      qed
      moreover have "c_shl_int v (7 * j) = None" using f by (simp add: c_shl_int_def)
      ultimately show ?thesis using b v
        by (simp add: steps leb_byte_low_cont leb_byte_cont)
    qed
  qed
qed

lemma ParseULEB128_encode:
  assumes "bytes_at env c (uleb128_encode n)"
  shows "FIRCLSParseULEB128AndAdvance env c =
           (if n < 2 ^ 31 then Some (of_nat n, c + of_nat (length (uleb128_encode n))) else None)"
  using uleb_loop_encode [of env c n 0 0] assms by (simp add: FIRCLSParseULEB128AndAdvance_def)

lemma sleb_last_byte:
  assumes "v < 128"
  shows "(0x40 AND (of_nat v :: u8) \<noteq> 0) \<longleftrightarrow> 64 \<le> v"
proof -
  have "\<forall>v \<in> set [0..<128]. (0x40 AND (of_nat v :: u8) \<noteq> 0) \<longleftrightarrow> 64 \<le> v" by code_simp
  with assms show ?thesis by (auto simp del: upt_conv_Cons)
qed

lemma or_sign_extension:
  assumes "a < 2 ^ k" and "k < 64"
  shows "(of_nat a :: u64) OR - (2 ^ k) = of_nat a - 2 ^ k"
proof -
  have low: "\<not> bit (of_nat a :: u64) n" if "k \<le> n" for n
  proof
    assume "bit (of_nat a :: u64) n"
    then have "bit a n" by (simp add: bit_simps)
    moreover have "(2::nat) ^ k \<le> 2 ^ n" using that by simp
    then have "a div 2 ^ n = 0" using assms(1) by (intro div_less) (rule less_le_trans)
    ultimately show False by (simp add: bit_iff_odd)
  qed
  have high: "\<not> bit (- (2 ^ k) :: u64) n" if "n < k" for n
    using that by (simp add: minus_exp_eq_not_mask bit_simps)
  have "of_nat a + - (2 ^ k) = (of_nat a :: u64) OR - (2 ^ k)"
    using low high by (intro disjunctive_add) (meson not_le)
  then show ?thesis by simp
qed

lemma sleb_cont_bounds:
  fixes n :: int
  assumes "j < 5" and "n mod 128 * 2 ^ (7 * j) < 2 ^ 31" and "\<not> (- 64 \<le> n \<and> n < 64)"
  shows "(- (2 ^ 27) \<le> n div 128 * 2 ^ (7 * Suc j) \<and> n div 128 * 2 ^ (7 * Suc j) < 2 ^ 31) \<longleftrightarrow>
         (- (2 ^ 27) \<le> n * 2 ^ (7 * j) \<and> n * 2 ^ (7 * j) < 2 ^ 31)"
proof -
  have gen: "(- (2 ^ 27) \<le> q * 2 ^ (7 * Suc j) \<and> q * 2 ^ (7 * Suc j) < 2 ^ 31) \<longleftrightarrow>
      (- (2 ^ 27) \<le> m * 2 ^ (7 * j) \<and> m * 2 ^ (7 * j) < 2 ^ 31)"
    if r: "m = 128 * q + r" "0 \<le> r" "r < 128" "r * 2 ^ (7 * j) < 2 ^ 31" "m < - 64 \<or> 64 \<le> m"
    for m q r :: int
  proof -
    consider "j = 0" | "j = 1" | "j = 2" | "j = 3" | "j = 4" using assms(1) by linarith
    then show ?thesis
    proof cases
      case j: 1 show ?thesis unfolding j using r(1-3) by (simp, intro conj_cong iffI; linarith)
    next
      case j: 2 show ?thesis unfolding j using r(1-3) by (simp, intro conj_cong iffI; linarith)
    next
      case j: 3 show ?thesis unfolding j using r(1-3) by (simp, intro conj_cong iffI; linarith)
    next
      case j: 4 show ?thesis unfolding j using r(1-3,5) by (simp, intro iffI conjI; linarith)
    next
      case j: 5 
      have "r < 8" using r(4) by (simp add: j)
      then show ?thesis unfolding j using r(1-3,5) by (simp, intro iffI conjI; linarith)
    qed
  qed
  show ?thesis
    by (rule gen [where r = "n mod 128"]) (use assms(2,3) in auto)
qed

lemma sleb_last_range:
  fixes i n :: int
  assumes "0 \<le> i" and "i < 128" and "n = i \<and> i < 64 \<or> n = i - 128 \<and> 64 \<le> i"
    and "j \<le> 5" and "n \<noteq> 0 \<or> j < 5"
  shows "j < 5 \<and> i * 2 ^ (7 * j) < 2 ^ 31 \<longleftrightarrow> - (2 ^ 27) \<le> n * 2 ^ (7 * j) \<and> n * 2 ^ (7 * j) < 2 ^ 31"
proof -
  consider "j = 0" | "j = 1" | "j = 2" | "j = 3" | "j = 4" | "j = 5" using assms(4) by linarith
  then show ?thesis
  proof cases
    case j: 1 show ?thesis unfolding j using assms(1-3) by (simp, linarith?)
  next
    case j: 2 show ?thesis unfolding j using assms(1-3) by auto
  next
    case j: 3 show ?thesis unfolding j using assms(1-3) by auto
  next
    case j: 4 show ?thesis unfolding j using assms(1-3) by auto
  next
    case j: 5 show ?thesis unfolding j using assms(1-3) by auto
  next
    case j: 6 show ?thesis unfolding j using assms(1-3,5) by (auto simp: j)
  qed
qed

lemma sleb_single:
  fixes n :: int
  assumes "- 64 \<le> n" and "n < 64"
  shows "n = (if n mod 128 < 64 then n mod 128 else n mod 128 - 128)"
proof (cases "n < 0")
  case True
  then have "n mod 128 = n + 128" using assms by (subst mod_add_self2 [symmetric], intro mod_pos_pos_trivial) auto
  with True assms show ?thesis by auto
next
  case False
  then have "n mod 128 = n" using assms by (intro mod_pos_pos_trivial) auto
  with False assms show ?thesis by auto
qed
lemma sleb_stop_value:
  assumes "v < 128" and "a < 2 ^ (7 * j)" and "j < 5" and "int v * 2 ^ (7 * j) < 2 ^ 31"
    and "n = (if v < 64 then int v else int v - 128)"
  shows "leb_finish (of_nat a + of_nat v * 2 ^ (7 * j), 7 * j + 7, of_nat v, c) =
           Some (of_int (int a + n * 2 ^ (7 * j)), c)"
proof (cases "v < 64")
  case True
  then show ?thesis using assms(5) by (simp add: leb_finish_def sleb_last_byte)
next
  case False
  have "j < 4" using assms(3,4) False by (cases "j = 4") auto
  then have neg: "c_neg_shl_one (7 * j + 7) = Some (- (2 ^ (7 * j + 7)))"
    by (simp add: c_neg_shl_one_def)
  have lt: "a + v * 2 ^ (7 * j) < 2 ^ (7 * j + 7)"
  proof -
    have "v * 2 ^ (7 * j) \<le> 127 * 2 ^ (7 * j)" using assms(1) by simp
    then have "a + v * 2 ^ (7 * j) < 128 * 2 ^ (7 * j)" using assms(2) by linarith
    then show ?thesis by (simp add: power_add)
  qed
  have val: "(of_nat a + of_nat v * 2 ^ (7 * j)) OR - (2 ^ (7 * j + 7)) =
      of_nat a + of_nat v * 2 ^ (7 * j) - (2 ^ (7 * j + 7) :: u64)"
    using or_sign_extension [OF lt] \<open>j < 4\<close> by simp
  have "of_int (int a + n * 2 ^ (7 * j)) =
      of_nat a + of_nat v * 2 ^ (7 * j) - (2 ^ (7 * j + 7) :: u64)"
    using False assms(5) by (simp add: power_add left_diff_distrib)
  with False val neg \<open>j < 4\<close> assms(1) show ?thesis by (simp add: leb_finish_def sleb_last_byte)
qed

lemma leb_loop_encode:
  assumes "bytes_at env c (sleb128_encode n)" and "j \<le> 5" and "a < 2 ^ (7 * j)" and "n \<noteq> 0 \<or> j < 5"
  shows "Option.bind (leb_loop (8 - j) env (7 * j) (of_nat a) b0 c) leb_finish =
           (if - (2 ^ 27) \<le> n * 2 ^ (7 * j) \<and> n * 2 ^ (7 * j) < 2 ^ 31
            then Some (of_int (int a + n * 2 ^ (7 * j)), c + of_nat (length (sleb128_encode n)))
            else None)"
  using assms
proof (induction n arbitrary: j a c b0 rule: sleb128_encode.induct)
  case (1 n)
  define v where "v = nat (n mod 128)"
  have v: "v < 128" "int v = n mod 128" by (auto simp: v_def nat_less_iff)
  have word_v: "(of_int (n mod 128) :: u8) = of_nat v" by (metis of_int_of_nat_eq v(2))
  have steps: "8 - j = Suc (8 - Suc j)" using "1.prems"(2) by simp
  have shl: "c_shl_int v (7 * j) =
      (if j < 5 \<and> int v * 2 ^ (7 * j) < 2 ^ 31 then Some (of_nat v * 2 ^ (7 * j)) else None)"
  proof -
    have "v * 2 ^ (7 * j) < 2 ^ 31 \<longleftrightarrow> int v * 2 ^ (7 * j) < 2 ^ 31"
      by (simp only: of_nat_less_iff [symmetric, where 'a = int] of_nat_mult of_nat_power
          of_nat_numeral)
    then show ?thesis by (auto simp: c_shl_int_def)
  qed
  show ?case
  proof (cases "- 64 \<le> n \<and> n < 64")
    case True
    then have enc: "sleb128_encode n = [of_nat v]" by (simp add: sleb128_encode.simps word_v)
    have n: "n = (if v < 64 then int v else int v - 128)" 
      using sleb_single [of n] True unfolding v(2) [symmetric] by (auto split: if_splits)
    have range: "j < 5 \<and> int v * 2 ^ (7 * j) < 2 ^ 31 \<longleftrightarrow>
        - (2 ^ 27) \<le> n * 2 ^ (7 * j) \<and> n * 2 ^ (7 * j) < 2 ^ 31"
      using v(1) n "1.prems"(2,4) by (intro sleb_last_range) auto
    have stop: "leb_finish (of_nat a + of_nat v * 2 ^ (7 * j), 7 * j + 7, of_nat v, c + 1) =
        Some (of_int (int a + n * 2 ^ (7 * j)), c + 1)" if "j < 5 \<and> int v * 2 ^ (7 * j) < 2 ^ 31"
      using sleb_stop_value [OF v(1) "1.prems"(3) _ _ n] that by blast
    have b: "mem env c = Some (of_nat v)" using "1.prems"(1) by (simp add: enc)
    show ?thesis
    proof (cases "j < 5 \<and> int v * 2 ^ (7 * j) < 2 ^ 31")
      case ok: True
      then have "leb_loop (8 - j) env (7 * j) (of_nat a) b0 c =
          Some (of_nat a + of_nat v * 2 ^ (7 * j), 7 * j + 7, of_nat v, c + 1)"
        using b v(1) by (simp add: steps shl leb_byte_low leb_byte_last or_shifted [OF "1.prems"(3)])
      with stop [OF ok] ok range enc show ?thesis by simp
    next
      case False
      then have "leb_loop (8 - j) env (7 * j) (of_nat a) b0 c = None"
        using b v(1) by (auto simp add: steps shl leb_byte_low)
      with False range show ?thesis by auto
    qed
  next
    case False
    then have enc: "sleb128_encode n = (128 + of_nat v) # sleb128_encode (n div 128)"
      by (simp add: sleb128_encode.simps [of n] word_v)
    have n: "n = n div 128 * 128 + int v" using v(2) by presburger
    have b: "mem env c = Some (128 + of_nat v)" and rest: "bytes_at env (c + 1) (sleb128_encode (n div 128))"
      using "1.prems"(1) by (simp_all add: enc)
    show ?thesis
    proof (cases "j < 5 \<and> int v * 2 ^ (7 * j) < 2 ^ 31")
      case True
      have a': "a + v * 2 ^ (7 * j) < 2 ^ (7 * Suc j)"
      proof -
        have "v * 2 ^ (7 * j) \<le> 127 * 2 ^ (7 * j)" using v by simp
        then have "a + v * 2 ^ (7 * j) < 128 * 2 ^ (7 * j)" using "1.prems"(3) by linarith
        then show ?thesis by (simp add: power_add)
      qed
      have eq: "int (a + v * 2 ^ (7 * j)) + n div 128 * 2 ^ (7 * Suc j) = int a + n * 2 ^ (7 * j)"
        by (subst (2) n) (simp add: power_add algebra_simps)
      have nz: "n div 128 \<noteq> 0 \<or> Suc j < 5"
      proof (cases "j = 4")
        case True
        with \<open>j < 5 \<and> _\<close> have "v < 8" by auto
        with False n show ?thesis by auto
      qed (use True in auto)
      have small: "n mod 128 * 2 ^ (7 * j) < 2 ^ 31" using True v(2) by simp
      note bounds = sleb_cont_bounds [OF conjunct1 [OF True] small False]
      have "leb_loop (8 - j) env (7 * j) (of_nat a) b0 c =
          leb_loop (8 - Suc j) env (7 * Suc j) (of_nat (a + v * 2 ^ (7 * j))) (128 + of_nat v) (c + 1)"
        using True v b by (simp add: steps shl leb_byte_low_cont leb_byte_cont
            or_shifted [OF "1.prems"(3)] add.commute [of 7])
      moreover have "Option.bind (leb_loop (8 - Suc j) env (7 * Suc j) (of_nat (a + v * 2 ^ (7 * j)))
            (128 + of_nat v) (c + 1)) leb_finish =
          (if - (2 ^ 27) \<le> n * 2 ^ (7 * j) \<and> n * 2 ^ (7 * j) < 2 ^ 31
           then Some (of_int (int a + n * 2 ^ (7 * j)), c + 1 + of_nat (length (sleb128_encode (n div 128))))
           else None)"
        using "1.IH" [OF False rest _ a' nz, of "128 + of_nat v"] True
        unfolding eq bounds by simp
      ultimately show ?thesis by (simp add: enc add.assoc)
    next
      case f: False
      then have "leb_loop (8 - j) env (7 * j) (of_nat a) b0 c = None"
        using b v(1) by (auto simp add: steps shl leb_byte_low_cont)
      moreover have "\<not> (- (2 ^ 27) \<le> n * 2 ^ (7 * j) \<and> n * 2 ^ (7 * j) < 2 ^ 31)"
      proof -
        have "j = 4 \<or> j = 5"
        proof (rule ccontr)
          assume "\<not> ?thesis"
          then have "j \<le> 3" using "1.prems"(2) by simp
          then have "(2::int) ^ (7 * j) \<le> 2 ^ 21" by (intro power_increasing) auto
          with v(1) have "int v * 2 ^ (7 * j) \<le> 127 * 2 ^ 21" by (intro mult_mono) auto
          with f \<open>j \<le> 3\<close> show False by simp
        qed
        with False f v show ?thesis by auto
      qed
      ultimately show ?thesis by auto
    qed
  qed
qed

lemma ParseLEB128_encode:
  assumes "bytes_at env c (sleb128_encode n)"
  shows "FIRCLSParseLEB128AndAdvance env c =
           (if - (2 ^ 27) \<le> n \<and> n < 2 ^ 31
            then Some (of_int n, c + of_nat (length (sleb128_encode n))) else None)"
  using leb_loop_encode [of env c n 0 0 0] assms by (simp add: FIRCLSParseLEB128AndAdvance_def)

end
