(* ===== verification/Cls_Dwarf_Records.thy ===== *)
theory Cls_Dwarf_Records
  imports Cls_Leb128
begin

text \<open>
  The record parsing half of FIRCLSDwarfUnwind.c: common information entries (CIE) with their
  augmentation data, and frame description entries (FDE). Every function returns its status with
  what it wrote through its pointer parameters; \<open>None\<close> is a fault while reading the section.
  The records are addresses of locals in every caller, never \<open>NULL\<close>; the section pointer may be.
\<close>

record DWARFInstructions =
  inst_length :: u32
  inst_data :: u64

record DWARFCIERecord =
  cie_length :: u64
  version :: u8
  ehData :: u64
  augmentation :: u64
  pointerEncoding :: u8
  lsdaEncoding :: u8
  personalityEncoding :: u8
  personalityFunction :: u64
  codeAlignFactor :: u64
  dataAlignFactor :: u64
  returnAddressRegister :: u64
  signalFrame :: bool
  cie_instructions :: DWARFInstructions

record DWARFFDERecord =
  fde_length :: u64
  cieOffset :: u64
  startAddress :: u64
  rangeSize :: u64
  fde_instructions :: DWARFInstructions

record FIRCLSDwarfCFIRecord =
  cie :: DWARFCIERecord
  fde :: DWARFFDERecord

definition zero_cie :: DWARFCIERecord where
  "zero_cie = \<lparr>cie_length = 0, version = 0, ehData = 0, augmentation = 0, pointerEncoding = 0,
     lsdaEncoding = 0, personalityEncoding = 0, personalityFunction = 0, codeAlignFactor = 0,
     dataAlignFactor = 0, returnAddressRegister = 0, signalFrame = False,
     cie_instructions = \<lparr>inst_length = 0, inst_data = 0\<rparr>\<rparr>"

section \<open>Augmentation data\<close>

text \<open>One turn of the loop: the character, and the status with the record and cursor after it.\<close>

definition augmentation_char ::
  "cls_env \<Rightarrow> u8 \<Rightarrow> DWARFCIERecord \<Rightarrow> u64 \<Rightarrow> (bool \<times> DWARFCIERecord \<times> u64) option" where
  "augmentation_char env ch r ptr =
    (if ch = 0x4C then do {
       (e, ptr) \<leftarrow> FIRCLSParseUint8AndAdvance env ptr; Some (True, r\<lparr>lsdaEncoding := e\<rparr>, ptr) }
     else if ch = 0x52 then do {
       (e, ptr) \<leftarrow> FIRCLSParseUint8AndAdvance env ptr; Some (True, r\<lparr>pointerEncoding := e\<rparr>, ptr) }
     else if ch = 0x50 then do {
       (e, ptr) \<leftarrow> FIRCLSParseUint8AndAdvance env ptr;
       (f, ptr) \<leftarrow> FIRCLSParseAddressWithEncodingAndAdvance env ptr e;
       Some (f \<noteq> CLS_INVALID_ADDRESS, r\<lparr>personalityEncoding := e, personalityFunction := f\<rparr>, ptr) }
     else if ch = 0x53 then Some (True, r\<lparr>signalFrame := True\<rparr>, ptr)
     else Some (False, r, ptr))"

primrec augmentation_loop ::
  "nat \<Rightarrow> cls_env \<Rightarrow> u64 \<Rightarrow> u64 \<Rightarrow> DWARFCIERecord \<Rightarrow> u64 \<Rightarrow> (bool \<times> DWARFCIERecord \<times> u64) option" where
  "augmentation_loop 0 env chars ending r ptr = Some (True, r, ptr)"
| "augmentation_loop (Suc n) env chars ending r ptr = do {
     ch \<leftarrow> mem env chars;
     (ok, r, ptr) \<leftarrow> augmentation_char env ch r ptr;
     (if \<not> ok \<or> ending < ptr then Some (False, r, ptr)
      else augmentation_loop n env (chars + 1) ending r ptr) }"

definition FIRCLSDwarfParseAndProcessAugmentation ::
  "cls_env \<Rightarrow> DWARFCIERecord \<Rightarrow> u64 \<Rightarrow> (bool \<times> DWARFCIERecord \<times> u64) option" where
  "FIRCLSDwarfParseAndProcessAugmentation env r ptr =
    (if augmentation r = 0 then Some (False, r, ptr)
     else do {
       first \<leftarrow> mem env (augmentation r);
       (if first = 0 then Some (True, r, ptr)
        else if first \<noteq> 0x7A then Some (False, r, ptr)
        else do {
          stringLength \<leftarrow> strlen env (augmentation r);
          (dataLength, ptr) \<leftarrow> FIRCLSParseULEB128AndAdvance env ptr;
          augmentation_loop (unat stringLength - 1) env (augmentation r + 1) (ptr + dataLength) r ptr }) })"

section \<open>CIE and FDE\<close>

definition FIRCLSDwarfParseCIERecord ::
  "cls_env \<Rightarrow> DWARFCIERecord \<Rightarrow> u64 \<Rightarrow> (bool \<times> DWARFCIERecord) option" where
  "FIRCLSDwarfParseCIERecord env cie0 ptr =
    (if ptr = 0 then Some (False, cie0)
     else do {
       (len, ptr) \<leftarrow> FIRCLSParseRecordLengthAndAdvance env ptr;
       let r = zero_cie\<lparr>cie_length := len\<rparr>;
       (if len = 0 then Some (False, r)
        else do {
          let endAddr = ptr + len;
          (flag, ptr) \<leftarrow> FIRCLSParseUint32AndAdvance env ptr;
          (v, ptr) \<leftarrow> FIRCLSParseUint8AndAdvance env ptr;
          let r = r\<lparr>version := v, pointerEncoding := 0, lsdaEncoding := 0\<rparr>;
          (str, ptr) \<leftarrow> FIRCLSParseStringAndAdvance env ptr;
          (code, ptr) \<leftarrow> FIRCLSParseULEB128AndAdvance env ptr;
          (data, ptr) \<leftarrow> FIRCLSParseLEB128AndAdvance env ptr;
          let r = r\<lparr>augmentation := str, codeAlignFactor := code, dataAlignFactor := data\<rparr>;
          (if v \<noteq> 1 \<and> v \<noteq> 3 then Some (False, r)
           else do {
             (ra, ptr) \<leftarrow> (if v = 1 then map_option (\<lambda>(x, p). (ucast x, p)) (FIRCLSParseUint8AndAdvance env ptr)
                          else FIRCLSParseULEB128AndAdvance env ptr);
             let r = r\<lparr>returnAddressRegister := ra\<rparr>;
             (ok, r, ptr) \<leftarrow> FIRCLSDwarfParseAndProcessAugmentation env r ptr;
             (if \<not> ok then Some (False, r)
              else Some (True, r\<lparr>cie_instructions :=
                \<lparr>inst_length = ucast (endAddr - ptr), inst_data = ptr\<rparr>\<rparr>)) }) }) })"

definition FIRCLSDwarfCIEIsValid :: "DWARFCIERecord \<Rightarrow> bool" where
  "FIRCLSDwarfCIEIsValid r \<longleftrightarrow> cie_length r \<noteq> 0 \<and> (version r = 1 \<or> version r = 3)"

definition FIRCLSDwarfCIEHasAugmentationData :: "cls_env \<Rightarrow> DWARFCIERecord \<Rightarrow> bool option" where
  "FIRCLSDwarfCIEHasAugmentationData env r =
    (if augmentation r = 0 then Some False
     else do { ch \<leftarrow> mem env (augmentation r); Some (ch = 0x7A) })"

definition FIRCLSDwarfParseFDERecord ::
  "cls_env \<Rightarrow> DWARFFDERecord \<Rightarrow> bool \<Rightarrow> DWARFCIERecord \<Rightarrow> u64 \<Rightarrow>
     (bool \<times> DWARFFDERecord \<times> DWARFCIERecord) option" where
  "FIRCLSDwarfParseFDERecord env f parseCIE cie0 ptr =
    (if ptr = 0 then Some (False, f, cie0)
     else do {
       (len, ptr) \<leftarrow> FIRCLSParseRecordLengthAndAdvance env ptr;
       let f = f\<lparr>fde_length := len\<rparr>;
       (if len = 0 then Some (False, f, cie0)
        else do {
          let endAddr = ptr + len;
          (off, ptr) \<leftarrow> FIRCLSParseUint32AndAdvance env ptr;
          let f = f\<lparr>cieOffset := ucast off\<rparr>;
          (if off = 0 then Some (False, f, cie0)
           else do {
             (ok, c) \<leftarrow> (if parseCIE then FIRCLSDwarfParseCIERecord env cie0 (ptr - ucast off - 4)
                        else Some (True, cie0));
             (if \<not> ok \<or> \<not> FIRCLSDwarfCIEIsValid c then Some (False, f, c)
              else do {
                (start, ptr) \<leftarrow> FIRCLSParseAddressWithEncodingAndAdvance env ptr (pointerEncoding c);
                let f = f\<lparr>startAddress := start\<rparr>;
                (if start = CLS_INVALID_ADDRESS then Some (False, f, c)
                 else do {
                   (range, ptr) \<leftarrow> FIRCLSParseAddressWithEncodingAndAdvance env ptr (pointerEncoding c AND 0x0F);
                   let f = f\<lparr>rangeSize := range\<rparr>;
                   (if range = CLS_INVALID_ADDRESS then Some (False, f, c)
                    else do {
                      hasAug \<leftarrow> FIRCLSDwarfCIEHasAugmentationData env c;
                      ptr \<leftarrow> (if hasAug then do {
                                (n, ptr) \<leftarrow> FIRCLSParseULEB128AndAdvance env ptr; Some (ptr + n) }
                              else Some ptr);
                      Some (True, f\<lparr>fde_instructions :=
                        \<lparr>inst_length = ucast (endAddr - ptr), inst_data = ptr\<rparr>\<rparr>, c) }) }) }) }) }) })"

definition FIRCLSDwarfParseCFIFromFDERecord ::
  "cls_env \<Rightarrow> FIRCLSDwarfCFIRecord \<Rightarrow> u64 \<Rightarrow> (bool \<times> FIRCLSDwarfCFIRecord) option" where
  "FIRCLSDwarfParseCFIFromFDERecord env record ptr =
    (if ptr = 0 then Some (False, record)
     else do {
       (ok, f, c) \<leftarrow> FIRCLSDwarfParseFDERecord env (fde record) True (cie record) ptr;
       Some (ok, \<lparr>cie = c, fde = f\<rparr>) })"

definition FIRCLSDwarfParseCFIFromFDERecordOffset ::
  "cls_env \<Rightarrow> FIRCLSDwarfCFIRecord \<Rightarrow> u64 \<Rightarrow> u64 \<Rightarrow> (bool \<times> FIRCLSDwarfCFIRecord) option" where
  "FIRCLSDwarfParseCFIFromFDERecordOffset env record ehFrame fdeOffset =
    (if ehFrame = 0 \<or> fdeOffset = 0 then Some (False, record)
     else FIRCLSDwarfParseCFIFromFDERecord env record (ehFrame + fdeOffset))"

section \<open>Parsing what the standard lays out\<close>

lemma strlen_bytes:
  "bytes_at env a (s @ [0]) \<Longrightarrow> 0 \<notin> set s \<Longrightarrow> strlen env a = Some (of_nat (length s))"
proof (induction s arbitrary: a)
  case Nil
  then show ?case by (subst strlen.simps) simp
next
  case (Cons b s)
  then have "strlen env (a + 1) = Some (of_nat (length s))" by simp
  with Cons.prems show ?case by (subst strlen.simps) (simp add: add.commute)
qed

lemma ParseString_bytes:
  "bytes_at env a (s @ [0]) \<Longrightarrow> 0 \<notin> set s \<Longrightarrow>
     FIRCLSParseStringAndAdvance env a = Some (a, a + of_nat (length s + 1))"
  by (simp add: FIRCLSParseStringAndAdvance_def strlen_bytes add_ac)

datatype aug_item = Aug_L u8 | Aug_R u8 | Aug_S

primrec aug_letter :: "aug_item \<Rightarrow> u8" where
  "aug_letter (Aug_L e) = 0x4C"
| "aug_letter (Aug_R e) = 0x52"
| "aug_letter Aug_S = 0x53"

primrec aug_bytes :: "aug_item \<Rightarrow> u8 list" where
  "aug_bytes (Aug_L e) = [e]"
| "aug_bytes (Aug_R e) = [e]"
| "aug_bytes Aug_S = []"

primrec aug_apply :: "aug_item \<Rightarrow> DWARFCIERecord \<Rightarrow> DWARFCIERecord" where
  "aug_apply (Aug_L e) r = r\<lparr>lsdaEncoding := e\<rparr>"
| "aug_apply (Aug_R e) r = r\<lparr>pointerEncoding := e\<rparr>"
| "aug_apply Aug_S r = r\<lparr>signalFrame := True\<rparr>"

lemma augmentation_char_item:
  "bytes_at env ptr (aug_bytes i) \<Longrightarrow>
     augmentation_char env (aug_letter i) r ptr = Some (True, aug_apply i r, ptr + of_nat (length (aug_bytes i)))"
  by (cases i) (simp_all add: augmentation_char_def ParseUint8_byte)

lemma augmentation_loop_items:
  assumes "bytes_at env chars (map aug_letter is)" and "bytes_at env ptr (concat (map aug_bytes is))"
    and "unat ptr + length (concat (map aug_bytes is)) < 2 ^ 64"
    and "ending = ptr + of_nat (length (concat (map aug_bytes is)))"
  shows "augmentation_loop (length is) env chars ending r ptr = Some (True, fold aug_apply is r, ending)"
  using assms
proof (induction "is" arbitrary: chars ptr r)
  case (Cons i "is")
  define p1 where "p1 = ptr + of_nat (length (aug_bytes i))"
  have b: "bytes_at env ptr (aug_bytes i)" "bytes_at env p1 (concat (map aug_bytes is))"
    using Cons.prems(2) by (simp_all add: bytes_at_append p1_def)
  have u: "unat p1 = unat ptr + length (aug_bytes i)"
    using Cons.prems(3) by (simp add: p1_def unat_add_no_wrap)
  have e: "ending = p1 + of_nat (length (concat (map aug_bytes is)))"
    using Cons.prems(4) by (simp add: p1_def add.assoc)
  have u1: "unat p1 + length (concat (map aug_bytes is)) < 2 ^ 64" using u Cons.prems(3) by simp
  have "unat ending = unat p1 + length (concat (map aug_bytes is))"
    unfolding e by (rule unat_add_no_wrap [OF u1])
  then have "\<not> ending < p1" by (simp add: word_less_nat_alt)
  with Cons.IH [OF _ b(2) u1 e, of "chars + 1" "aug_apply i r"] Cons.prems(1) augmentation_char_item [OF b(1), of r]
  show ?case by (simp add: p1_def)
qed simp

text \<open>A CIE by its contents, as a compiler emits it (the 32-bit format, version 1 or 3).\<close>

record cie_desc =
  cd_version :: nat
  cd_code :: nat
  cd_data :: int
  cd_ra :: nat
  cd_aug :: "aug_item list option"
  cd_insts :: "u8 list"

definition cd_string :: "cie_desc \<Rightarrow> u8 list" where
  "cd_string d = (case cd_aug d of None \<Rightarrow> [] | Some is \<Rightarrow> 0x7A # map aug_letter is)"

definition cd_aug_data :: "cie_desc \<Rightarrow> u8 list" where
  "cd_aug_data d = (case cd_aug d of None \<Rightarrow> []
     | Some is \<Rightarrow> uleb128_encode (length (concat (map aug_bytes is))) @ concat (map aug_bytes is))"

definition cd_ra_bytes :: "cie_desc \<Rightarrow> u8 list" where
  "cd_ra_bytes d = (if cd_version d = 1 then [of_nat (cd_ra d)] else uleb128_encode (cd_ra d))"

definition cie_head :: "cie_desc \<Rightarrow> u8 list" where
  "cie_head d = le_bytes 4 0 @ [of_nat (cd_version d)] @ (cd_string d @ [0]) @ uleb128_encode (cd_code d) @
     sleb128_encode (cd_data d) @ cd_ra_bytes d @ cd_aug_data d"

definition cie_encode :: "cie_desc \<Rightarrow> u8 list" where
  "cie_encode d = le_bytes 4 (length (cie_head d @ cd_insts d)) @ cie_head d @ cd_insts d"

definition cie_wf :: "cie_desc \<Rightarrow> bool" where
  "cie_wf d \<longleftrightarrow> (cd_version d = 1 \<and> cd_ra d < 256 \<or> cd_version d = 3 \<and> cd_ra d < 2 ^ 31) \<and>
     cd_code d < 2 ^ 31 \<and> - (2 ^ 27) \<le> cd_data d \<and> cd_data d < 2 ^ 31 \<and>
     length (cie_head d @ cd_insts d) < 2 ^ 31"

text \<open>What the parser should make of it, at address \<open>c\<close>.\<close>

definition cie_expected :: "u64 \<Rightarrow> cie_desc \<Rightarrow> DWARFCIERecord" where
  "cie_expected c d = (fold aug_apply (case cd_aug d of None \<Rightarrow> [] | Some is \<Rightarrow> is)
     (zero_cie\<lparr>cie_length := of_nat (length (cie_head d @ cd_insts d)), version := of_nat (cd_version d),
        augmentation := c + 9, codeAlignFactor := of_nat (cd_code d), dataAlignFactor := of_int (cd_data d),
        returnAddressRegister := of_nat (cd_ra d)\<rparr>))
     \<lparr>cie_instructions := \<lparr>inst_length = of_nat (length (cd_insts d)),
        inst_data = c + 4 + of_nat (length (cie_head d))\<rparr>\<rparr>"

lemma aug_apply_fields1 [simp]:
  "cie_length (aug_apply i r) = cie_length r"
  "version (aug_apply i r) = version r"
  "augmentation (aug_apply i r) = augmentation r"
  "codeAlignFactor (aug_apply i r) = codeAlignFactor r"
  "dataAlignFactor (aug_apply i r) = dataAlignFactor r"
  by (cases i; simp)+

lemma aug_apply_fields [simp]:
  "cie_length (fold aug_apply is r) = cie_length r"
  "version (fold aug_apply is r) = version r"
  "augmentation (fold aug_apply is r) = augmentation r"
  "codeAlignFactor (fold aug_apply is r) = codeAlignFactor r"
  "dataAlignFactor (fold aug_apply is r) = dataAlignFactor r"
  by (induction "is" arbitrary: r) simp_all

lemma ParseAugmentation_desc:
  assumes "bytes_at env (augmentation r) (cd_string d @ [0])" and "augmentation r \<noteq> 0"
    and "bytes_at env ptr (cd_aug_data d)" and "unat ptr + length (cd_aug_data d) < 2 ^ 64"
    and "length (cd_aug_data d) < 2 ^ 31" and "length (cd_string d) < 2 ^ 31"
  shows "FIRCLSDwarfParseAndProcessAugmentation env r ptr =
           Some (True, fold aug_apply (case cd_aug d of None \<Rightarrow> [] | Some is \<Rightarrow> is) r,
                 ptr + of_nat (length (cd_aug_data d)))"
proof (cases "cd_aug d")
  case None
  with assms show ?thesis
    by (simp add: FIRCLSDwarfParseAndProcessAugmentation_def cd_string_def cd_aug_data_def)
next
  case (Some "is")
  let ?ds = "concat (map aug_bytes is)"
  define p1 where "p1 = ptr + of_nat (length (uleb128_encode (length ?ds)))"
  have str: "cd_string d = 0x7A # map aug_letter is" and dat: "cd_aug_data d = uleb128_encode (length ?ds) @ ?ds"
    using Some by (simp_all add: cd_string_def cd_aug_data_def)
  have b: "bytes_at env ptr (uleb128_encode (length ?ds))" "bytes_at env p1 ?ds"
    using assms(3) by (simp_all only: dat bytes_at_append p1_def)
  have nz: "(0::u8) \<notin> set (cd_string d)"
  proof -
    have "aug_letter i \<noteq> 0" for i by (cases i) simp_all
    then show ?thesis by (auto simp: str)
  qed
  have "length is + 1 < 2 ^ 64" using assms(6) by (simp add: str)
  then have "unat (of_nat (length is + 1) :: u64) = length is + 1" by (rule unat_of_nat_u64)
  moreover have "strlen env (augmentation r) = Some (of_nat (length is + 1))"
    using strlen_bytes [OF assms(1) nz] by (simp add: str)
  ultimately obtain n where len: "strlen env (augmentation r) = Some n" and count: "unat n - 1 = length is"
    by (metis add_diff_cancel_right')
  have u: "unat p1 = unat ptr + length (uleb128_encode (length ?ds))"
    using assms(4) by (simp add: p1_def dat unat_add_no_wrap)
  have letters: "bytes_at env (augmentation r + 1) (map aug_letter is)"
    using assms(1) by (simp add: str bytes_at_append)
  have first: "mem env (augmentation r) = Some 0x7A" using assms(1) by (simp add: str)
  have uleb: "FIRCLSParseULEB128AndAdvance env ptr = Some (of_nat (length ?ds), p1)"
    using ParseULEB128_encode [OF b(1)] assms(5) by (simp add: dat p1_def)
  have "augmentation_loop (length is) env (augmentation r + 1) (p1 + of_nat (length ?ds)) r p1 =
      Some (True, fold aug_apply is r, p1 + of_nat (length ?ds))"
    by (rule augmentation_loop_items [OF letters b(2)]) (use u assms(4) in \<open>simp_all add: dat\<close>)
  moreover have "ptr + of_nat (length (cd_aug_data d)) = p1 + of_nat (length ?ds)"
    unfolding dat p1_def by (simp only: length_append of_nat_add add.assoc)
  ultimately show ?thesis
    using assms(2) Some count unfolding FIRCLSDwarfParseAndProcessAugmentation_def
    by (simp add: first len uleb del: of_nat_add)
qed

lemma of_nat_u64_nonzero: "0 < n \<Longrightarrow> n < 2 ^ 31 \<Longrightarrow> (of_nat n :: u64) \<noteq> 0"
proof
  assume "0 < n" "n < 2 ^ 31" and "(of_nat n :: u64) = 0"
  then have "unat (of_nat n :: u64) = 0" "0 < n" "n < 2 ^ 64" by simp_all
  then show False by (simp add: unat_of_nat_u64)
qed

lemma ParseRecordLength_bytes:
  assumes "bytes_at env c (le_bytes 4 n)" and "n < 2 ^ 31"
  shows "FIRCLSParseRecordLengthAndAdvance env c = Some (of_nat n, c + 4)"
proof -
  have "load env c 4 = Some (le_bytes 4 n)" using assms(1) by (simp add: bytes_at_load)
  then have p: "FIRCLSParseUint32AndAdvance env c = Some (of_nat n, c + 4)"
    using parse_loaded(3) [of env c "le_bytes 4 n"] assms(2) by (simp add: le_word_le_bytes)
  have "(ucast (of_nat n :: u32) :: u64) = of_nat n"
    using assms(2) by (simp add: unsigned_of_nat take_bit_nat_eq_self)
  moreover have "(of_nat n :: u64) \<noteq> 0xffffffff"
  proof
    assume "(of_nat n :: u64) = 0xffffffff"
    then have "unat (of_nat n :: u64) = 0xffffffff" by simp
    with assms(2) show False by (simp add: unat_of_nat_u64)
  qed
  ultimately show ?thesis
    by (simp add: FIRCLSParseRecordLengthAndAdvance_def p DWARF_EXTENDED_LENGTH_FLAG_def)
qed

lemma ParseRA_desc:
  assumes "bytes_at env c (cd_ra_bytes d)" and "cie_wf d"
  shows "(if (of_nat (cd_version d) :: u8) = 1
          then map_option (\<lambda>(x, p). (ucast x, p)) (FIRCLSParseUint8AndAdvance env c)
          else FIRCLSParseULEB128AndAdvance env c) =
         Some (of_nat (cd_ra d) :: u64, c + of_nat (length (cd_ra_bytes d)))"
proof (cases "cd_version d = 1")
  case True
  with assms have "cd_ra d < 256" by (auto simp: cie_wf_def)
  then have "(ucast (of_nat (cd_ra d) :: u8) :: u64) = of_nat (cd_ra d)"
    by (simp add: unsigned_of_nat take_bit_nat_eq_self)
  with True assms(1) show ?thesis by (simp add: ParseUint8_byte cd_ra_bytes_def)
next
  case False
  with assms(2) have "cd_version d = 3" "cd_ra d < 2 ^ 31" by (auto simp: cie_wf_def)
  with assms(1) ParseULEB128_encode [of env c "cd_ra d"] show ?thesis
    by (simp add: cd_ra_bytes_def)
qed

lemma ParseCIE_desc:
  assumes bytes: "bytes_at env c (cie_encode d)" and wf: "cie_wf d" and c: "c \<noteq> 0"
    and room: "unat c + length (cie_encode d) < 2 ^ 64"
  shows "FIRCLSDwarfParseCIERecord env cie0 c = Some (True, cie_expected c d)"
proof -
  let ?n = "length (cie_head d @ cd_insts d)"
  define c1 c2 c3 c4 c5 c6 c7 where
    "c1 = c + 4" and "c2 = c1 + 4" and "c3 = c2 + 1" and
    "c4 = c3 + of_nat (length (cd_string d) + 1)" and
    "c5 = c4 + of_nat (length (uleb128_encode (cd_code d)))" and
    "c6 = c5 + of_nat (length (sleb128_encode (cd_data d)))" and
    "c7 = c6 + of_nat (length (cd_ra_bytes d))"
  have n: "?n < 2 ^ 31" using wf by (simp add: cie_wf_def)
  have b0: "bytes_at env c (le_bytes 4 ?n)" and b1: "bytes_at env c1 (cie_head d)"
    using bytes by (simp_all add: cie_encode_def bytes_at_append c1_def)
  have f1: "bytes_at env c1 (le_bytes 4 0)" and f2: "bytes_at env c2 [of_nat (cd_version d)]"
    and f3: "bytes_at env c3 (cd_string d @ [0])" and f4: "bytes_at env c4 (uleb128_encode (cd_code d))"
    and f5: "bytes_at env c5 (sleb128_encode (cd_data d))" and f6: "bytes_at env c6 (cd_ra_bytes d)"
    and f7: "bytes_at env c7 (cd_aug_data d)"
    using b1 unfolding cie_head_def bytes_at_append c2_def c3_def c4_def c5_def c6_def c7_def
    by (simp_all add: bytes_at_append add.assoc)
  have p0: "FIRCLSParseRecordLengthAndAdvance env c = Some (of_nat ?n, c1)"
    using ParseRecordLength_bytes [OF b0 n] by (simp only: c1_def)
  have nz: "(of_nat ?n :: u64) \<noteq> 0"
    by (rule of_nat_u64_nonzero [OF _ n]) (simp add: cie_head_def)
  have p1: "\<exists>x. FIRCLSParseUint32AndAdvance env c1 = Some (x, c2)"
    using parse_loaded(3) [OF bytes_at_load [OF f1]] by (simp add: c2_def)
  then obtain flag where p1: "FIRCLSParseUint32AndAdvance env c1 = Some (flag, c2)" by blast
  have p2: "FIRCLSParseUint8AndAdvance env c2 = Some (of_nat (cd_version d), c3)"
    using f2 by (simp add: ParseUint8_byte c3_def)
  have nul: "0 \<notin> set (cd_string d)"
  proof -
    have "aug_letter i \<noteq> 0" for i by (cases i) simp_all
    then show ?thesis by (auto simp: cd_string_def split: option.splits)
  qed
  have p3: "FIRCLSParseStringAndAdvance env c3 = Some (c3, c4)"
    using ParseString_bytes [OF f3 nul] by (simp only: c4_def)
  have p4: "FIRCLSParseULEB128AndAdvance env c4 = Some (of_nat (cd_code d), c5)"
    using ParseULEB128_encode [OF f4] wf by (simp add: cie_wf_def c5_def)
  have p5: "FIRCLSParseLEB128AndAdvance env c5 = Some (of_int (cd_data d), c6)"
    using ParseLEB128_encode [OF f5] wf by (simp add: cie_wf_def c6_def)
  note p6 = ParseRA_desc [OF f6 wf, folded c7_def]
  have ver: "(of_nat (cd_version d) :: u8) = 1 \<or> (of_nat (cd_version d) :: u8) = 3"
    using wf by (auto simp: cie_wf_def)
  have len_head: "length (cie_head d) = 5 + (length (cd_string d) + 1) + length (uleb128_encode (cd_code d)) +
      length (sleb128_encode (cd_data d)) + length (cd_ra_bytes d) + length (cd_aug_data d)"
    by (simp add: cie_head_def)
  have len: "length (cie_encode d) = 4 + ?n" by (simp add: cie_encode_def)
  have c7: "c7 = c + of_nat (9 + (length (cd_string d) + 1) + length (uleb128_encode (cd_code d)) +
      length (sleb128_encode (cd_data d)) + length (cd_ra_bytes d))"
    by (simp add: c1_def c2_def c3_def c4_def c5_def c6_def c7_def)
  have u7: "unat c7 + length (cd_aug_data d) < 2 ^ 64"
    unfolding c7 by (subst unat_add_no_wrap) (use room len len_head in simp_all)
  have c3: "c3 = c + 9" by (simp add: c1_def c2_def c3_def)
  have "unat c3 = unat c + 9" using room len len_head unat_add_no_wrap [of c 9] by (simp add: c3)
  then have c3_nz: "c3 \<noteq> 0" by auto
  let ?r = "zero_cie\<lparr>cie_length := of_nat ?n, version := of_nat (cd_version d),
      augmentation := c3, codeAlignFactor := of_nat (cd_code d), dataAlignFactor := of_int (cd_data d),
      returnAddressRegister := of_nat (cd_ra d)\<rparr>"
  have p7: "FIRCLSDwarfParseAndProcessAugmentation env ?r c7 =
      Some (True, fold aug_apply (case cd_aug d of None \<Rightarrow> [] | Some is \<Rightarrow> is) ?r,
        c7 + of_nat (length (cd_aug_data d)))"
    by (rule ParseAugmentation_desc) (use f3 c3_nz f7 u7 n len_head in simp_all)
  have fin: "c7 + of_nat (length (cd_aug_data d)) = c + 4 + of_nat (length (cie_head d))"
    unfolding c7 len_head by simp
  have enc0: "zero_cie\<lparr>cie_length := l, version := v, pointerEncoding := 0, lsdaEncoding := 0\<rparr> =
      zero_cie\<lparr>cie_length := l, version := v\<rparr>" for l v
    by (simp add: zero_cie_def)
  have rest: "ucast (c1 + of_nat ?n - (c + 4 + of_nat (length (cie_head d)))) =
      (of_nat (length (cd_insts d)) :: u32)"
    using n by (simp add: c1_def unsigned_of_nat take_bit_nat_eq_self)
  show ?thesis
    unfolding FIRCLSDwarfParseCIERecord_def cie_expected_def
    using ver c nz
    by (simp add: p0 p1 p2 p3 p4 p5 p6 p7 enc0 fin rest c3 [symmetric] Let_def del: of_nat_add length_append)
qed

end
