(* ===== verification/Cls_Thread_State.thy ===== *)
theory Cls_Thread_State
  imports Cls_Memory
begin

text \<open>
  FIRCLSThreadState.c and the register tables of FIRCLSUnwind_x86.c and FIRCLSUnwind_arm.c: the
  register file of a suspended thread on the two 64-bit architectures, and the interface through
  which the architecture-independent unwinder uses it. The \<open>registers\<close> pointers the unwinder
  passes are addresses of its own cursors, so the \<open>NULL\<close> tests in front of every accessor always
  succeed and the setters return \<open>true\<close>.

  The architecture is chosen when the code is compiled; here it is a record of operations
  \<open>arch_ops\<close>, with \<open>x86_64_ops\<close> and \<open>arm64_ops\<close> as its two values.
\<close>

record 'c arch_ops =
  MAX_REGISTER_NUM :: nat
  REG_RETURN :: nat
  REG_SP :: nat
  REG_FP :: nat
  GetPC :: "'c \<Rightarrow> u64"
  GetStackPointer :: "'c \<Rightarrow> u64"
  GetFramePointer :: "'c \<Rightarrow> u64"
  SetPC :: "u64 \<Rightarrow> 'c \<Rightarrow> 'c"
  SetStackPointer :: "u64 \<Rightarrow> 'c \<Rightarrow> 'c"
  SetFramePointer :: "u64 \<Rightarrow> 'c \<Rightarrow> 'c"
  GetRegisterValue :: "'c \<Rightarrow> u64 \<Rightarrow> u64"
  SetRegisterValue :: "'c \<Rightarrow> u64 \<Rightarrow> u64 \<Rightarrow> bool \<times> 'c"

section \<open>x86_64\<close>

record x86_state =
  rax :: u64
  rdx :: u64
  rcx :: u64
  rbx :: u64
  rsi :: u64
  rdi :: u64
  rbp :: u64
  rsp :: u64
  r8 :: u64
  r9 :: u64
  r10 :: u64
  r11 :: u64
  r12 :: u64
  r13 :: u64
  r14 :: u64
  r15 :: u64
  rip :: u64
  rflags :: u64
  seg_cs :: u64
  seg_fs :: u64
  seg_gs :: u64

definition FIRCLSThreadContextGetPC_x86 :: "x86_state \<Rightarrow> u64" where
  "FIRCLSThreadContextGetPC_x86 r = rip r"

definition FIRCLSThreadContextGetStackPointer_x86 :: "x86_state \<Rightarrow> u64" where
  "FIRCLSThreadContextGetStackPointer_x86 r = rsp r"

definition FIRCLSThreadContextGetFramePointer_x86 :: "x86_state \<Rightarrow> u64" where
  "FIRCLSThreadContextGetFramePointer_x86 r = rbp r"

definition FIRCLSThreadContextSetPC_x86 :: "u64 \<Rightarrow> x86_state \<Rightarrow> x86_state" where
  "FIRCLSThreadContextSetPC_x86 v r = r\<lparr>rip := v\<rparr>"

definition FIRCLSThreadContextSetStackPointer_x86 :: "u64 \<Rightarrow> x86_state \<Rightarrow> x86_state" where
  "FIRCLSThreadContextSetStackPointer_x86 v r = r\<lparr>rsp := v\<rparr>"

definition FIRCLSThreadContextSetFramePointer_x86 :: "u64 \<Rightarrow> x86_state \<Rightarrow> x86_state" where
  "FIRCLSThreadContextSetFramePointer_x86 v r = r\<lparr>rbp := v\<rparr>"

definition FIRCLSDwarfUnwindGetRegisterValue_x86 :: "x86_state \<Rightarrow> u64 \<Rightarrow> u64" where
  "FIRCLSDwarfUnwindGetRegisterValue_x86 r num =
    (if num = 0 then rax r else if num = 1 then rdx r else if num = 2 then rcx r
     else if num = 3 then rbx r else if num = 4 then rsi r else if num = 5 then rdi r
     else if num = 6 then rbp r else if num = 7 then rsp r else if num = 8 then r8 r
     else if num = 9 then r9 r else if num = 10 then r10 r else if num = 11 then r11 r
     else if num = 12 then r12 r else if num = 13 then r13 r else if num = 14 then r14 r
     else if num = 15 then r15 r else if num = 16 then rip r else 0)"

definition FIRCLSDwarfUnwindSetRegisterValue_x86 :: "x86_state \<Rightarrow> u64 \<Rightarrow> u64 \<Rightarrow> bool \<times> x86_state" where
  "FIRCLSDwarfUnwindSetRegisterValue_x86 r num v =
    (if num = 0 then (True, r\<lparr>rax := v\<rparr>) else if num = 1 then (True, r\<lparr>rdx := v\<rparr>)
     else if num = 2 then (True, r\<lparr>rcx := v\<rparr>) else if num = 3 then (True, r\<lparr>rbx := v\<rparr>)
     else if num = 4 then (True, r\<lparr>rsi := v\<rparr>) else if num = 5 then (True, r\<lparr>rdi := v\<rparr>)
     else if num = 6 then (True, r\<lparr>rbp := v\<rparr>) else if num = 7 then (True, r\<lparr>rsp := v\<rparr>)
     else if num = 8 then (True, r\<lparr>r8 := v\<rparr>) else if num = 9 then (True, r\<lparr>r9 := v\<rparr>)
     else if num = 10 then (True, r\<lparr>r10 := v\<rparr>) else if num = 11 then (True, r\<lparr>r11 := v\<rparr>)
     else if num = 12 then (True, r\<lparr>r12 := v\<rparr>) else if num = 13 then (True, r\<lparr>r13 := v\<rparr>)
     else if num = 14 then (True, r\<lparr>r14 := v\<rparr>) else if num = 15 then (True, r\<lparr>r15 := v\<rparr>)
     else if num = 16 then (True, r\<lparr>rip := v\<rparr>) else (False, r))"

definition x86_64_ops :: "x86_state arch_ops" where
  "x86_64_ops = \<lparr>MAX_REGISTER_NUM = 16, REG_RETURN = 16, REG_SP = 7, REG_FP = 6,
     GetPC = FIRCLSThreadContextGetPC_x86,
     GetStackPointer = FIRCLSThreadContextGetStackPointer_x86,
     GetFramePointer = FIRCLSThreadContextGetFramePointer_x86,
     SetPC = FIRCLSThreadContextSetPC_x86,
     SetStackPointer = FIRCLSThreadContextSetStackPointer_x86,
     SetFramePointer = FIRCLSThreadContextSetFramePointer_x86,
     GetRegisterValue = FIRCLSDwarfUnwindGetRegisterValue_x86,
     SetRegisterValue = FIRCLSDwarfUnwindSetRegisterValue_x86\<rparr>"

lemmas x86_register_defs =
  FIRCLSThreadContextGetPC_x86_def FIRCLSThreadContextGetStackPointer_x86_def
  FIRCLSThreadContextGetFramePointer_x86_def FIRCLSThreadContextSetPC_x86_def
  FIRCLSThreadContextSetStackPointer_x86_def FIRCLSThreadContextSetFramePointer_x86_def
  FIRCLSDwarfUnwindGetRegisterValue_x86_def FIRCLSDwarfUnwindSetRegisterValue_x86_def

section \<open>ARM64\<close>

text \<open>
  The raw words of \<open>arm_thread_state64\<close>. The SDK's accessor macros sign what is stored and
  authenticate what is read; both are parameters. What the code relies on is that neither
  touches the 36 address bits \<open>CLS_PTRAUTH_STRIP\<close> keeps.
\<close>

record arm_state =
  x :: "u64 list"
  raw_fp :: u64
  raw_lr :: u64
  raw_sp :: u64
  raw_pc :: u64
  cpsr :: u32

record arm_sdk =
  sdk_get :: "u64 \<Rightarrow> u64"
  sdk_set :: "u64 \<Rightarrow> u64"

definition CLS_PTRAUTH_STRIP :: "u64 \<Rightarrow> u64" where
  "CLS_PTRAUTH_STRIP p = p AND 0x0000000FFFFFFFFF"

definition FIRCLSThreadContextGetPC_arm :: "arm_sdk \<Rightarrow> arm_state \<Rightarrow> u64" where
  "FIRCLSThreadContextGetPC_arm sdk r = CLS_PTRAUTH_STRIP (sdk_get sdk (raw_pc r))"

definition FIRCLSThreadContextGetStackPointer_arm :: "arm_sdk \<Rightarrow> arm_state \<Rightarrow> u64" where
  "FIRCLSThreadContextGetStackPointer_arm sdk r = CLS_PTRAUTH_STRIP (sdk_get sdk (raw_sp r))"

definition FIRCLSThreadContextGetFramePointer_arm :: "arm_sdk \<Rightarrow> arm_state \<Rightarrow> u64" where
  "FIRCLSThreadContextGetFramePointer_arm sdk r = CLS_PTRAUTH_STRIP (sdk_get sdk (raw_fp r))"

definition FIRCLSThreadContextGetLinkRegister_arm :: "arm_sdk \<Rightarrow> arm_state \<Rightarrow> u64" where
  "FIRCLSThreadContextGetLinkRegister_arm sdk r = CLS_PTRAUTH_STRIP (sdk_get sdk (raw_lr r))"

definition FIRCLSThreadContextSetPC_arm :: "arm_sdk \<Rightarrow> u64 \<Rightarrow> arm_state \<Rightarrow> arm_state" where
  "FIRCLSThreadContextSetPC_arm sdk v r = r\<lparr>raw_pc := sdk_set sdk v\<rparr>"

definition FIRCLSThreadContextSetStackPointer_arm :: "arm_sdk \<Rightarrow> u64 \<Rightarrow> arm_state \<Rightarrow> arm_state" where
  "FIRCLSThreadContextSetStackPointer_arm sdk v r = r\<lparr>raw_sp := sdk_set sdk v\<rparr>"

definition FIRCLSThreadContextSetFramePointer_arm :: "arm_sdk \<Rightarrow> u64 \<Rightarrow> arm_state \<Rightarrow> arm_state" where
  "FIRCLSThreadContextSetFramePointer_arm sdk v r = r\<lparr>raw_fp := sdk_set sdk v\<rparr>"

definition FIRCLSThreadContextSetLinkRegister_arm :: "arm_sdk \<Rightarrow> u64 \<Rightarrow> arm_state \<Rightarrow> arm_state" where
  "FIRCLSThreadContextSetLinkRegister_arm sdk v r = r\<lparr>raw_lr := sdk_set sdk v\<rparr>"

text \<open>The 29 cases of the general registers are one branch: \<open>__x\<close> has 29 elements.\<close>

definition FIRCLSDwarfUnwindGetRegisterValue_arm :: "arm_sdk \<Rightarrow> arm_state \<Rightarrow> u64 \<Rightarrow> u64" where
  "FIRCLSDwarfUnwindGetRegisterValue_arm sdk r num =
    (if num \<le> 28 then x r ! unat num
     else if num = 29 then FIRCLSThreadContextGetFramePointer_arm sdk r
     else if num = 30 then FIRCLSThreadContextGetLinkRegister_arm sdk r
     else if num = 31 then FIRCLSThreadContextGetStackPointer_arm sdk r
     else 0)"

definition FIRCLSDwarfUnwindSetRegisterValue_arm ::
  "arm_sdk \<Rightarrow> arm_state \<Rightarrow> u64 \<Rightarrow> u64 \<Rightarrow> bool \<times> arm_state" where
  "FIRCLSDwarfUnwindSetRegisterValue_arm sdk r num v =
    (if num \<le> 28 then (True, r\<lparr>x := (x r)[unat num := v]\<rparr>)
     else if num = 29 then (True, FIRCLSThreadContextSetFramePointer_arm sdk v r)
     else if num = 31 then (True, FIRCLSThreadContextSetStackPointer_arm sdk v r)
     else if num = 30 then
       (True, FIRCLSThreadContextSetPC_arm sdk v (FIRCLSThreadContextSetLinkRegister_arm sdk v r))
     else (False, r))"

definition arm64_ops :: "arm_sdk \<Rightarrow> arm_state arch_ops" where
  "arm64_ops sdk = \<lparr>MAX_REGISTER_NUM = 31, REG_RETURN = 30, REG_SP = 31, REG_FP = 29,
     GetPC = FIRCLSThreadContextGetPC_arm sdk,
     GetStackPointer = FIRCLSThreadContextGetStackPointer_arm sdk,
     GetFramePointer = FIRCLSThreadContextGetFramePointer_arm sdk,
     SetPC = FIRCLSThreadContextSetPC_arm sdk,
     SetStackPointer = FIRCLSThreadContextSetStackPointer_arm sdk,
     SetFramePointer = FIRCLSThreadContextSetFramePointer_arm sdk,
     GetRegisterValue = FIRCLSDwarfUnwindGetRegisterValue_arm sdk,
     SetRegisterValue = FIRCLSDwarfUnwindSetRegisterValue_arm sdk\<rparr>"

lemmas arm_register_defs =
  FIRCLSThreadContextGetPC_arm_def FIRCLSThreadContextGetStackPointer_arm_def
  FIRCLSThreadContextGetFramePointer_arm_def FIRCLSThreadContextGetLinkRegister_arm_def
  FIRCLSThreadContextSetPC_arm_def FIRCLSThreadContextSetStackPointer_arm_def
  FIRCLSThreadContextSetFramePointer_arm_def FIRCLSThreadContextSetLinkRegister_arm_def
  FIRCLSDwarfUnwindGetRegisterValue_arm_def FIRCLSDwarfUnwindSetRegisterValue_arm_def

definition sdk_ok :: "arm_sdk \<Rightarrow> bool" where
  "sdk_ok sdk \<longleftrightarrow> (\<forall>v. CLS_PTRAUTH_STRIP (sdk_get sdk (sdk_set sdk v)) = CLS_PTRAUTH_STRIP v)"

text \<open>The expansion without pointer authentication, for the builds that do not sign.\<close>

definition plain_sdk :: arm_sdk where
  "plain_sdk = \<lparr>sdk_get = (\<lambda>v. v), sdk_set = (\<lambda>v. v)\<rparr>"

lemma plain_sdk_ok: "sdk_ok plain_sdk"
  by (simp add: sdk_ok_def plain_sdk_def)

section \<open>Interface: a register file\<close>

text \<open>
  What the DWARF unwinder relies on. \<open>norm\<close> is what reading back does to a value stored in the
  register, \<open>wf\<close> the shape of a context.
\<close>

locale register_file =
  fixes ops :: "'c arch_ops" and norm :: "nat \<Rightarrow> u64 \<Rightarrow> u64" and pc_norm :: "u64 \<Rightarrow> u64"
    and wf :: "'c \<Rightarrow> bool"
  assumes special_le: "REG_SP ops \<le> MAX_REGISTER_NUM ops" "REG_FP ops \<le> MAX_REGISTER_NUM ops"
      "REG_RETURN ops \<le> MAX_REGISTER_NUM ops" "MAX_REGISTER_NUM ops < 64"
    and set_wf: "wf r \<Longrightarrow> wf (snd (SetRegisterValue ops r n v))"
    and set_status: "fst (SetRegisterValue ops r n v) \<longleftrightarrow> unat n \<le> MAX_REGISTER_NUM ops"
    and set_failed: "MAX_REGISTER_NUM ops < unat n \<Longrightarrow> snd (SetRegisterValue ops r n v) = r"
    and get_set_same: "wf r \<Longrightarrow> unat n \<le> MAX_REGISTER_NUM ops \<Longrightarrow>
      GetRegisterValue ops (snd (SetRegisterValue ops r n v)) n = norm (unat n) v"
    and get_set_other: "wf r \<Longrightarrow> m \<noteq> n \<Longrightarrow>
      GetRegisterValue ops (snd (SetRegisterValue ops r n v)) m = GetRegisterValue ops r m"
    and sp_register: "GetRegisterValue ops r (of_nat (REG_SP ops)) = GetStackPointer ops r"
    and fp_register: "GetRegisterValue ops r (of_nat (REG_FP ops)) = GetFramePointer ops r"
    and pc_set_return: "wf r \<Longrightarrow>
      GetPC ops (snd (SetRegisterValue ops r (of_nat (REG_RETURN ops)) v)) = pc_norm v"
    and pc_set_other: "wf r \<Longrightarrow> n \<noteq> of_nat (REG_RETURN ops) \<Longrightarrow>
      GetPC ops (snd (SetRegisterValue ops r n v)) = GetPC ops r"
begin

lemma sp_set_sp: "wf r \<Longrightarrow>
    GetStackPointer ops (snd (SetRegisterValue ops r (of_nat (REG_SP ops)) v)) = norm (REG_SP ops) v"
  using get_set_same [of r "of_nat (REG_SP ops)" v] special_le
  by (simp add: unat_of_nat sp_register)

lemma sp_set_other: "wf r \<Longrightarrow> n \<noteq> of_nat (REG_SP ops) \<Longrightarrow>
    GetStackPointer ops (snd (SetRegisterValue ops r n v)) = GetStackPointer ops r"
  using get_set_other [of r "of_nat (REG_SP ops)" n v] by (simp add: sp_register)

end

lemma u64_le_cases:
  assumes "unat (n :: u64) \<le> k"
  obtains i where "i \<le> k" and "n = of_nat i"
  using assms that [of "unat n"] by simp

lemma x86_register_cases:
  "unat (n :: u64) \<le> 16 \<Longrightarrow>
     n \<in> {16, 15, 14, 13, 12, 11, 10, 9, 8} \<union> {7, 6, 5, 4, 3, 2, 1, 0}"
  by (erule u64_le_cases) (auto simp: le_Suc_eq numeral_eq_Suc)

lemma x86_set_known:
  "unat n \<le> 16 \<Longrightarrow> fst (FIRCLSDwarfUnwindSetRegisterValue_x86 r n v) \<and>
     FIRCLSDwarfUnwindGetRegisterValue_x86 (snd (FIRCLSDwarfUnwindSetRegisterValue_x86 r n v)) n = v"
  by (drule x86_register_cases) (elim UnE insertE emptyE; simp add: x86_register_defs)

lemma x86_set_other:
  "unat n \<le> 16 \<Longrightarrow> m \<noteq> n \<Longrightarrow>
     FIRCLSDwarfUnwindGetRegisterValue_x86 (snd (FIRCLSDwarfUnwindSetRegisterValue_x86 r n v)) m =
     FIRCLSDwarfUnwindGetRegisterValue_x86 r m"
  by (drule x86_register_cases) (elim UnE insertE emptyE; simp add: x86_register_defs)

lemma x86_set_unknown: "16 < unat n \<Longrightarrow> FIRCLSDwarfUnwindSetRegisterValue_x86 r n v = (False, r)"
proof -
  assume "16 < unat n"
  then have "n \<noteq> of_nat i" if "i \<le> 16" for i using that by (auto simp: unat_of_nat)
  from this [of 0] this [of 1] this [of 2] this [of 3] this [of 4] this [of 5] this [of 6]
    this [of 7] this [of 8] this [of 9] this [of 10] this [of 11] this [of 12] this [of 13]
    this [of 14] this [of 15] this [of 16]
  show ?thesis by (simp add: x86_register_defs)
qed

lemma x86_set_pc:
  "unat n \<le> 16 \<Longrightarrow> rip (snd (FIRCLSDwarfUnwindSetRegisterValue_x86 r n v)) = (if n = 16 then v else rip r)"
  by (drule x86_register_cases) (elim UnE insertE emptyE; simp add: x86_register_defs)

interpretation x86_64: register_file x86_64_ops "\<lambda>_ v. v" "\<lambda>v. v" "\<lambda>_. True"
proof
  fix r :: x86_state and n m v :: u64
  show "fst (SetRegisterValue x86_64_ops r n v) \<longleftrightarrow> unat n \<le> MAX_REGISTER_NUM x86_64_ops"
    by (cases "unat n \<le> 16") (simp_all add: x86_64_ops_def x86_set_known x86_set_unknown)
  show "GetRegisterValue x86_64_ops (snd (SetRegisterValue x86_64_ops r n v)) m =
      GetRegisterValue x86_64_ops r m" if "m \<noteq> n"
    using that by (cases "unat n \<le> 16") (simp_all add: x86_64_ops_def x86_set_other x86_set_unknown)
  show "GetPC x86_64_ops (snd (SetRegisterValue x86_64_ops r n v)) = GetPC x86_64_ops r"
    if "n \<noteq> of_nat (REG_RETURN x86_64_ops)"
    using that by (cases "unat n \<le> 16")
      (simp_all add: x86_64_ops_def FIRCLSThreadContextGetPC_x86_def x86_set_pc x86_set_unknown)
  show "GetPC x86_64_ops (snd (SetRegisterValue x86_64_ops r (of_nat (REG_RETURN x86_64_ops)) v)) = v"
    by (simp add: x86_64_ops_def FIRCLSThreadContextGetPC_x86_def x86_set_pc)
qed (simp_all add: x86_64_ops_def x86_set_known x86_set_unknown,
     simp_all add: x86_register_defs)

locale arm64_sdk =
  fixes sdk :: arm_sdk
  assumes sdk_ok: "sdk_ok sdk"
begin

lemma strip_get_set [simp]: "CLS_PTRAUTH_STRIP (sdk_get sdk (sdk_set sdk v)) = CLS_PTRAUTH_STRIP v"
  using sdk_ok by (simp add: sdk_ok_def)

end

definition arm_norm :: "nat \<Rightarrow> u64 \<Rightarrow> u64" where
  "arm_norm n v = (if n \<le> 28 then v else CLS_PTRAUTH_STRIP v)"

lemma arm_set_status:
  "fst (FIRCLSDwarfUnwindSetRegisterValue_arm sdk r n v) \<longleftrightarrow> unat n \<le> 31"
proof -
  have "n \<le> 28 \<or> n = 29 \<or> n = 30 \<or> n = 31 \<longleftrightarrow> unat n \<le> 31"
    by (auto simp: word_le_nat_alt word_unat_eq_iff)
  then show ?thesis by (auto simp: FIRCLSDwarfUnwindSetRegisterValue_arm_def)
qed

lemma arm_set_failed:
  "31 < unat n \<Longrightarrow> FIRCLSDwarfUnwindSetRegisterValue_arm sdk r n v = (False, r)"
  by (auto simp: FIRCLSDwarfUnwindSetRegisterValue_arm_def word_le_nat_alt)

sublocale arm64_sdk \<subseteq> arm: register_file "arm64_ops sdk" arm_norm CLS_PTRAUTH_STRIP "\<lambda>r. length (x r) = 29"
proof
  fix r :: arm_state and n m v :: u64
  show "fst (SetRegisterValue (arm64_ops sdk) r n v) \<longleftrightarrow> unat n \<le> MAX_REGISTER_NUM (arm64_ops sdk)"
    by (simp add: arm64_ops_def arm_set_status)
  show "snd (SetRegisterValue (arm64_ops sdk) r n v) = r" if "MAX_REGISTER_NUM (arm64_ops sdk) < unat n"
    using that by (simp add: arm64_ops_def arm_set_failed)
  show "GetRegisterValue (arm64_ops sdk) (snd (SetRegisterValue (arm64_ops sdk) r n v)) n =
      arm_norm (unat n) v"
    if "length (x r) = 29" "unat n \<le> MAX_REGISTER_NUM (arm64_ops sdk)"
  proof -
    have "n \<le> 28 \<or> n = 29 \<or> n = 30 \<or> n = 31"
      using that(2) by (auto simp: arm64_ops_def word_le_nat_alt word_unat_eq_iff)
    with that(1) show ?thesis
      by (auto simp: arm64_ops_def arm_register_defs arm_norm_def word_le_nat_alt)
  qed
  show "GetRegisterValue (arm64_ops sdk) (snd (SetRegisterValue (arm64_ops sdk) r n v)) m =
      GetRegisterValue (arm64_ops sdk) r m" if "length (x r) = 29" "m \<noteq> n"
    using that by (auto simp: arm64_ops_def arm_register_defs word_unat_eq_iff)
qed (simp_all add: arm64_ops_def arm_register_defs)

context arm64_sdk
begin

lemma arm64_register_file:
  "register_file (arm64_ops sdk) arm_norm CLS_PTRAUTH_STRIP (\<lambda>r. length (x r) = 29)"
  by unfold_locales

end

interpretation plain_arm64: arm64_sdk plain_sdk
  by unfold_locales (rule plain_sdk_ok)

end
