(* ===== verification/Cls_Dwarf_Cfi.thy ===== *)
theory Cls_Dwarf_Cfi
  imports Cls_Dwarf_Records Cls_Thread_State
begin

text \<open>
  The call frame instructions of FIRCLSDwarfUnwind.c: the state they build, one definition per
  \<open>FIRCLSDwarfParseAndExecute_\<close> handler, and the loop of \<open>FIRCLSDwarfInstructionsEnumerate\<close>.
  A handler returns its status, the cursor and what it changed; the instruction pointer offset
  \<open>codeOffset\<close> is kept beside the state, as in the code.
\<close>

datatype FIRCLSDwarfRegisterLocation =
    FIRCLSDwarfRegisterUnused
  | FIRCLSDwarfRegisterInCFA
  | FIRCLSDwarfRegisterOffsetFromCFA
  | FIRCLSDwarfRegisterInRegister
  | FIRCLSDwarfRegisterAtExpression
  | FIRCLSDwarfRegisterIsExpression

record FIRCLSDwarfRegister =
  location :: FIRCLSDwarfRegisterLocation
  reg_value :: u64

text \<open>
  \<open>overrun\<close> is no field of the structure: it records that some instruction wrote outside the array of
  registers, which C leaves undefined.
\<close>

record FIRCLSDwarfState =
  cfaRegister :: u64
  cfaRegisterOffset :: u64
  cfaExpression :: u64
  spArgSize :: u32
  saved :: "FIRCLSDwarfRegister list"
  overrun :: bool

definition zero_state :: "'c arch_ops \<Rightarrow> FIRCLSDwarfState" where
  "zero_state ops = \<lparr>cfaRegister = 0, cfaRegisterOffset = 0, cfaExpression = 0, spArgSize = 0,
     saved = replicate (MAX_REGISTER_NUM ops + 1) \<lparr>location = FIRCLSDwarfRegisterUnused, reg_value = 0\<rparr>, overrun = False\<rparr>"

text \<open>\<open>state->registers[n] = d\<close>.\<close>

definition store_register :: "u64 \<Rightarrow> FIRCLSDwarfRegister \<Rightarrow> FIRCLSDwarfState \<Rightarrow> FIRCLSDwarfState" where
  "store_register n d st =
    (if unat n < length (saved st) then st\<lparr>saved := (saved st)[unat n := d]\<rparr> else st\<lparr>overrun := True\<rparr>)"

definition set_saved :: "u64 \<Rightarrow> FIRCLSDwarfRegisterLocation \<Rightarrow> u64 \<Rightarrow> FIRCLSDwarfState \<Rightarrow> FIRCLSDwarfState" where
  "set_saved n loc v = store_register n \<lparr>location = loc, reg_value = v\<rparr>"

section \<open>Instructions that move the code offset\<close>

definition FIRCLSDwarfParseAndExecute_set_loc ::
  "cls_env \<Rightarrow> u64 \<Rightarrow> DWARFCIERecord \<Rightarrow> u64 \<Rightarrow> (bool \<times> u64 \<times> u64) option" where
  "FIRCLSDwarfParseAndExecute_set_loc env cursor r codeOffset = do {
     (operand, cursor) \<leftarrow> FIRCLSParseAddressWithEncodingAndAdvance env cursor (pointerEncoding r);
     Some (True, cursor, operand) }"

definition FIRCLSDwarfParseAndExecute_advance_loc1 ::
  "cls_env \<Rightarrow> u64 \<Rightarrow> DWARFCIERecord \<Rightarrow> u64 \<Rightarrow> (bool \<times> u64 \<times> u64) option" where
  "FIRCLSDwarfParseAndExecute_advance_loc1 env cursor r codeOffset = do {
     (d, cursor) \<leftarrow> FIRCLSParseUint8AndAdvance env cursor;
     off \<leftarrow> c_sadd codeOffset (ucast d * codeAlignFactor r);
     Some (True, cursor, off) }"

definition FIRCLSDwarfParseAndExecute_advance_loc2 ::
  "cls_env \<Rightarrow> u64 \<Rightarrow> DWARFCIERecord \<Rightarrow> u64 \<Rightarrow> (bool \<times> u64 \<times> u64) option" where
  "FIRCLSDwarfParseAndExecute_advance_loc2 env cursor r codeOffset = do {
     (d, cursor) \<leftarrow> FIRCLSParseUint16AndAdvance env cursor;
     off \<leftarrow> c_sadd codeOffset (ucast d * codeAlignFactor r);
     Some (True, cursor, off) }"

definition FIRCLSDwarfParseAndExecute_advance_loc4 ::
  "cls_env \<Rightarrow> u64 \<Rightarrow> DWARFCIERecord \<Rightarrow> u64 \<Rightarrow> (bool \<times> u64 \<times> u64) option" where
  "FIRCLSDwarfParseAndExecute_advance_loc4 env cursor r codeOffset = do {
     (d, cursor) \<leftarrow> FIRCLSParseUint32AndAdvance env cursor;
     off \<leftarrow> c_sadd codeOffset (ucast d * codeAlignFactor r);
     Some (True, cursor, off) }"

definition FIRCLSDwarfParseAndExecute_advance_loc ::
  "DWARFCIERecord \<Rightarrow> u8 \<Rightarrow> u64 \<Rightarrow> (bool \<times> u64) option" where
  "FIRCLSDwarfParseAndExecute_advance_loc r delta codeOffset = do {
     off \<leftarrow> c_smul (ucast delta) (codeAlignFactor r);
     Some (True, off) }"

section \<open>Instructions that change the rules\<close>

definition FIRCLSDwarfParseAndExecute_def_cfa ::
  "cls_env \<Rightarrow> 'c arch_ops \<Rightarrow> u64 \<Rightarrow> FIRCLSDwarfState \<Rightarrow> (bool \<times> u64 \<times> FIRCLSDwarfState) option" where
  "FIRCLSDwarfParseAndExecute_def_cfa env ops cursor st = do {
     (regNum, cursor) \<leftarrow> FIRCLSParseULEB128AndAdvance env cursor;
     (if MAX_REGISTER_NUM ops < unat regNum then Some (False, cursor, st)
      else do {
        (off, cursor) \<leftarrow> FIRCLSParseULEB128AndAdvance env cursor;
        Some (True, cursor, st\<lparr>cfaRegister := regNum, cfaRegisterOffset := off\<rparr>) }) }"

definition FIRCLSDwarfParseAndExecute_def_cfa_register ::
  "cls_env \<Rightarrow> 'c arch_ops \<Rightarrow> u64 \<Rightarrow> FIRCLSDwarfState \<Rightarrow> (bool \<times> u64 \<times> FIRCLSDwarfState) option" where
  "FIRCLSDwarfParseAndExecute_def_cfa_register env ops cursor st = do {
     (regNum, cursor) \<leftarrow> FIRCLSParseULEB128AndAdvance env cursor;
     (if MAX_REGISTER_NUM ops < unat regNum then Some (False, cursor, st)
      else Some (True, cursor, st\<lparr>cfaRegister := regNum\<rparr>)) }"

definition FIRCLSDwarfParseAndExecute_def_cfa_offset ::
  "cls_env \<Rightarrow> u64 \<Rightarrow> FIRCLSDwarfState \<Rightarrow> (bool \<times> u64 \<times> FIRCLSDwarfState) option" where
  "FIRCLSDwarfParseAndExecute_def_cfa_offset env cursor st = do {
     (off, cursor) \<leftarrow> FIRCLSParseULEB128AndAdvance env cursor;
     Some (True, cursor, st\<lparr>cfaRegisterOffset := off\<rparr>) }"

definition FIRCLSDwarfParseAndExecute_same_value ::
  "cls_env \<Rightarrow> 'c arch_ops \<Rightarrow> u64 \<Rightarrow> FIRCLSDwarfState \<Rightarrow> (bool \<times> u64 \<times> FIRCLSDwarfState) option" where
  "FIRCLSDwarfParseAndExecute_same_value env ops cursor st = do {
     (regNum, cursor) \<leftarrow> FIRCLSParseULEB128AndAdvance env cursor;
     (if MAX_REGISTER_NUM ops < unat regNum then Some (False, cursor, st)
      else Some (True, cursor,
             store_register regNum ((saved st ! unat regNum)\<lparr>location := FIRCLSDwarfRegisterUnused\<rparr>) st)) }"

definition FIRCLSDwarfParseAndExecute_register ::
  "cls_env \<Rightarrow> 'c arch_ops \<Rightarrow> u64 \<Rightarrow> FIRCLSDwarfState \<Rightarrow> (bool \<times> u64 \<times> FIRCLSDwarfState) option" where
  "FIRCLSDwarfParseAndExecute_register env ops cursor st = do {
     (regNum, cursor) \<leftarrow> FIRCLSParseULEB128AndAdvance env cursor;
     (if MAX_REGISTER_NUM ops < unat regNum then Some (False, cursor, st)
      else do {
        (regValue, cursor) \<leftarrow> FIRCLSParseULEB128AndAdvance env cursor;
        (if MAX_REGISTER_NUM ops < unat regValue then Some (False, cursor, st)
         else Some (True, cursor, set_saved regNum FIRCLSDwarfRegisterInRegister regValue st)) }) }"

definition FIRCLSDwarfParseAndExecute_expression ::
  "cls_env \<Rightarrow> 'c arch_ops \<Rightarrow> u64 \<Rightarrow> FIRCLSDwarfState \<Rightarrow> (bool \<times> u64 \<times> FIRCLSDwarfState) option" where
  "FIRCLSDwarfParseAndExecute_expression env ops cursor st = do {
     (regNum, cursor) \<leftarrow> FIRCLSParseULEB128AndAdvance env cursor;
     (if MAX_REGISTER_NUM ops < unat regNum then Some (False, cursor, st)
      else do {
        let st = set_saved regNum FIRCLSDwarfRegisterAtExpression cursor st;
        (len, cursor) \<leftarrow> FIRCLSParseULEB128AndAdvance env cursor;
        Some (True, cursor + len, st) }) }"

definition FIRCLSDwarfParseAndExecute_val_expression ::
  "cls_env \<Rightarrow> 'c arch_ops \<Rightarrow> u64 \<Rightarrow> FIRCLSDwarfState \<Rightarrow> (bool \<times> u64 \<times> FIRCLSDwarfState) option" where
  "FIRCLSDwarfParseAndExecute_val_expression env ops cursor st = do {
     (regNum, cursor) \<leftarrow> FIRCLSParseULEB128AndAdvance env cursor;
     (if MAX_REGISTER_NUM ops < unat regNum then Some (False, cursor, st)
      else do {
        let st = set_saved regNum FIRCLSDwarfRegisterIsExpression cursor st;
        (len, cursor) \<leftarrow> FIRCLSParseULEB128AndAdvance env cursor;
        Some (True, cursor + len, st) }) }"

definition FIRCLSDwarfParseAndExecute_def_cfa_expression ::
  "cls_env \<Rightarrow> 'c arch_ops \<Rightarrow> u64 \<Rightarrow> FIRCLSDwarfState \<Rightarrow> (bool \<times> u64 \<times> FIRCLSDwarfState) option" where
  "FIRCLSDwarfParseAndExecute_def_cfa_expression env ops cursor st = do {
     let st = st\<lparr>cfaRegister := of_nat (MAX_REGISTER_NUM ops + 1), cfaExpression := cursor\<rparr>;
     (len, cursor) \<leftarrow> FIRCLSParseULEB128AndAdvance env cursor;
     Some (True, cursor + len, st) }"

definition FIRCLSDwarfParseAndExecute_offset ::
  "cls_env \<Rightarrow> 'c arch_ops \<Rightarrow> DWARFCIERecord \<Rightarrow> u8 \<Rightarrow> u64 \<Rightarrow> FIRCLSDwarfState \<Rightarrow>
     (bool \<times> u64 \<times> FIRCLSDwarfState) option" where
  "FIRCLSDwarfParseAndExecute_offset env ops r regNum cursor st =
    (if MAX_REGISTER_NUM ops < unat regNum then Some (False, cursor, st)
     else do {
       (n, cursor) \<leftarrow> FIRCLSParseULEB128AndAdvance env cursor;
       Some (True, cursor,
         set_saved (ucast regNum) FIRCLSDwarfRegisterInCFA (n * dataAlignFactor r) st) })"

section \<open>Dispatch\<close>

text \<open>The cursor, the rules and the code offset between two instructions.\<close>

type_synonym cfi_config = "u64 \<times> FIRCLSDwarfState \<times> u64"

definition on_offset :: "FIRCLSDwarfState \<Rightarrow> (bool \<times> u64 \<times> u64) option \<Rightarrow> (bool \<times> cfi_config) option" where
  "on_offset st = map_option (\<lambda>(ok, cursor, off). (ok, cursor, st, off))"

definition on_state :: "u64 \<Rightarrow> (bool \<times> u64 \<times> FIRCLSDwarfState) option \<Rightarrow> (bool \<times> cfi_config) option" where
  "on_state off = map_option (\<lambda>(ok, cursor, st). (ok, cursor, st, off))"

definition FIRCLSDwarfParseAndExecuteInstructionWithOperand ::
  "cls_env \<Rightarrow> 'c arch_ops \<Rightarrow> DWARFCIERecord \<Rightarrow> u8 \<Rightarrow> cfi_config \<Rightarrow> (bool \<times> cfi_config) option" where
  "FIRCLSDwarfParseAndExecuteInstructionWithOperand env ops r instruction = (\<lambda>(cursor, st, off).
    (let operand = instruction AND 0x3F; opcode = instruction AND 0xC0 in
     if opcode = 0x80 then on_state off (FIRCLSDwarfParseAndExecute_offset env ops r operand cursor st)
     else if opcode = 0x40 then
       map_option (\<lambda>(ok, off). (ok, cursor, st, off)) (FIRCLSDwarfParseAndExecute_advance_loc r operand off)
     else Some (False, cursor, st, off)))"

text \<open>The opcodes the code names only to refuse them.\<close>

definition cfa_unimplemented :: "u8 \<Rightarrow> bool" where
  "cfa_unimplemented i \<longleftrightarrow> i \<in> {0x05, 0x06, 0x07, 0x0A, 0x0B, 0x11, 0x12, 0x13, 0x14, 0x15, 0x2D, 0x2E, 0x2F}"

text \<open>The \<open>switch\<close> of the loop; \<open>nop\<close> continues without the status test, like a success.\<close>

definition execute_instruction ::
  "cls_env \<Rightarrow> 'c arch_ops \<Rightarrow> DWARFCIERecord \<Rightarrow> u8 \<Rightarrow> cfi_config \<Rightarrow> (bool \<times> cfi_config) option" where
  "execute_instruction env ops r i = (\<lambda>(cursor, st, off).
    (if i = 0x00 then Some (True, cursor, st, off)
     else if i = 0x01 then on_offset st (FIRCLSDwarfParseAndExecute_set_loc env cursor r off)
     else if i = 0x02 then on_offset st (FIRCLSDwarfParseAndExecute_advance_loc1 env cursor r off)
     else if i = 0x03 then on_offset st (FIRCLSDwarfParseAndExecute_advance_loc2 env cursor r off)
     else if i = 0x04 then on_offset st (FIRCLSDwarfParseAndExecute_advance_loc4 env cursor r off)
     else if i = 0x0C then on_state off (FIRCLSDwarfParseAndExecute_def_cfa env ops cursor st)
     else if i = 0x0D then on_state off (FIRCLSDwarfParseAndExecute_def_cfa_register env ops cursor st)
     else if i = 0x0E then on_state off (FIRCLSDwarfParseAndExecute_def_cfa_offset env cursor st)
     else if i = 0x08 then on_state off (FIRCLSDwarfParseAndExecute_same_value env ops cursor st)
     else if i = 0x09 then on_state off (FIRCLSDwarfParseAndExecute_register env ops cursor st)
     else if i = 0x0F then on_state off (FIRCLSDwarfParseAndExecute_def_cfa_expression env ops cursor st)
     else if i = 0x10 then on_state off (FIRCLSDwarfParseAndExecute_expression env ops cursor st)
     else if i = 0x16 then on_state off (FIRCLSDwarfParseAndExecute_val_expression env ops cursor st)
     else if cfa_unimplemented i then Some (False, cursor, st, off)
     else FIRCLSDwarfParseAndExecuteInstructionWithOperand env ops r i (cursor, st, off)))"

section \<open>The instruction loop\<close>

text \<open>
  The loop ends only because the cursor passes \<open>endAddress\<close>, which a cursor that wraps around the
  address space need not do. So the loop runs on fuel (\<open>loop_result\<close> of the prelude).
\<close>

fun enumerate_loop ::
  "nat \<Rightarrow> cls_env \<Rightarrow> 'c arch_ops \<Rightarrow> DWARFCIERecord \<Rightarrow> u64 \<Rightarrow> u64 \<Rightarrow> cfi_config \<Rightarrow>
     (bool \<times> FIRCLSDwarfState) loop_result" where
  "enumerate_loop fuel env ops r endAddr pcOffset (cursor, st, off) =
    (if \<not> (cursor < endAddr \<and> sint off < sint pcOffset) then Returned (True, st)
     else case fuel of
       0 \<Rightarrow> Out_of_fuel
     | Suc fuel' \<Rightarrow>
        (case FIRCLSParseUint8AndAdvance env cursor of
           None \<Rightarrow> Faulted
         | Some (i, cursor) \<Rightarrow>
            (case execute_instruction env ops r i (cursor, st, off) of
               None \<Rightarrow> Faulted
             | Some (ok, config) \<Rightarrow>
                if \<not> ok then Returned (False, fst (snd config))
                else enumerate_loop fuel' env ops r endAddr pcOffset config)))"

definition FIRCLSDwarfInstructionsEnumerate ::
  "cls_env \<Rightarrow> 'c arch_ops \<Rightarrow> DWARFInstructions \<Rightarrow> DWARFCIERecord \<Rightarrow> FIRCLSDwarfState \<Rightarrow> u64 \<Rightarrow>
     (bool \<times> FIRCLSDwarfState) loop_result" where
  "FIRCLSDwarfInstructionsEnumerate env ops ins r st pcOffset =
     enumerate_loop (unat (inst_length ins)) env ops r (inst_data ins + ucast (inst_length ins)) pcOffset
       (inst_data ins, st, 0)"

declare enumerate_loop.simps [simp del]

section \<open>Every instruction advances the cursor, within bounds\<close>

lemma or_less_2_31:
  assumes "unat (a :: u64) < 2 ^ 31" and "unat (b :: u64) < 2 ^ 31"
  shows "unat (a OR b) < 2 ^ 31"
proof -
  have "int (unat a) < int (2 ^ 31)" "int (unat b) < int (2 ^ 31)"
    using assms by (simp_all only: of_nat_less_iff)
  then have "uint (a OR b) < 2 ^ 31"
    using OR_upper [of "uint a" 31 "uint b"] by (simp add: uint_or)
  then have "int (unat (a OR b)) < int (2 ^ 31)" by simp
  then show ?thesis by (simp only: of_nat_less_iff)
qed

lemma c_shl_int_bound: "c_shl_int n sh = Some part \<Longrightarrow> unat part < 2 ^ 31"
  by (auto simp: c_shl_int_def unat_of_nat_u64 simp del: of_nat_mult split: if_splits)

lemma uleb_loop_bound:
  "unat r < 2 ^ 31 \<Longrightarrow> uleb_loop n env sh r c = Some (v, c') \<Longrightarrow> unat v < 2 ^ 31"
proof (induction n arbitrary: sh r c)
  case (Suc n)
  from Suc.prems(2) obtain byte :: u8 and part where p: "c_shl_int (unat (0x7F AND byte)) sh = Some part"
      "(if 0x80 AND byte = 0 then Some (r OR part, c + 1)
        else uleb_loop n env (sh + 7) (r OR part) (c + 1)) = Some (v, c')"
    by (auto simp: bind_eq_Some_conv)
  have "unat part < 2 ^ 31"
    using p(1) by (rule c_shl_int_bound)
  with Suc.prems(1) have "unat (r OR part) < 2 ^ 31" by (rule or_less_2_31)
  with p(2) Suc.IH show ?case by (auto split: if_splits)
qed simp

lemma uleb_bound: "FIRCLSParseULEB128AndAdvance env c = Some (v, c') \<Longrightarrow> unat v < 2 ^ 31"
  by (rule uleb_loop_bound [of 0]) (auto simp: FIRCLSParseULEB128AndAdvance_def)

definition reaches :: "nat \<Rightarrow> u64 \<Rightarrow> u64 \<Rightarrow> bool" where
  "reaches w c c' \<longleftrightarrow> (\<exists>k \<le> w. c' = c + of_nat k)"

lemma reaches_refl [intro]: "reaches w c c"
  by (auto simp: reaches_def intro: exI [of _ 0])

lemma reaches_trans:
  assumes "reaches v c c1" and "reaches w c1 c2" and "v + w \<le> u"
  shows "reaches u c c2"
proof -
  from assms(1,2) obtain i j where "i \<le> v" "c1 = c + of_nat i" "j \<le> w" "c2 = c1 + of_nat j"
    by (auto simp: reaches_def)
  with assms(3) show ?thesis
    unfolding reaches_def by (intro exI [of _ "i + j"]) (simp add: add.assoc)
qed

lemma reaches_mono: "reaches v c c' \<Longrightarrow> v \<le> w \<Longrightarrow> reaches w c c'"
  unfolding reaches_def using le_trans by blast

lemma reaches_within: "\<exists>k. 1 \<le> k \<and> k \<le> n \<and> c' = c + of_nat k \<Longrightarrow> n \<le> w \<Longrightarrow> reaches w c c'"
  unfolding reaches_def using le_trans by blast

lemma reaches_add: "unat n \<le> w \<Longrightarrow> reaches w c (c + n)"
  unfolding reaches_def by (intro exI [of _ "unat n"]) simp

lemma reaches_fixed:
  "FIRCLSParseUint8AndAdvance env c = Some (v8, c') \<Longrightarrow> reaches 8 c c'"
  "FIRCLSParseUint16AndAdvance env c = Some (v16, c') \<Longrightarrow> reaches 8 c c'"
  "FIRCLSParseUint32AndAdvance env c = Some (v32, c') \<Longrightarrow> reaches 8 c c'"
  "FIRCLSParseUint64AndAdvance env c = Some (v64, c') \<Longrightarrow> reaches 8 c c'"
  by (drule u8p.advance u16p.advance u32p.advance u64p.advance, erule reaches_within, simp)+

lemma reaches_signed:
  "FIRCLSParseInt16AndAdvance env c = Some (v16, c') \<Longrightarrow> reaches 8 c c'"
  "FIRCLSParseInt32AndAdvance env c = Some (v32, c') \<Longrightarrow> reaches 8 c c'"
  "FIRCLSParseInt64AndAdvance env c = Some (v64, c') \<Longrightarrow> reaches 8 c c'"
  "FIRCLSParsePointerAndAdvance env c = Some (v64, c') \<Longrightarrow> reaches 8 c c'"
  using reaches_fixed [of env c _ c'] by (simp_all add: parse_fixed_defs)

lemma reaches_leb:
  "FIRCLSParseULEB128AndAdvance env c = Some (v, c') \<Longrightarrow> reaches 8 c c'"
  "FIRCLSParseLEB128AndAdvance env c = Some (v, c') \<Longrightarrow> reaches 8 c c'"
  by (drule uleb.advance leb.advance, erule reaches_within, simp)+

lemma reaches_encoded_value:
  "parse_encoded_value env c e = Some (Some (v, c')) \<Longrightarrow> reaches 8 c c'"
  unfolding parse_encoded_value_def Let_def
  by (auto simp only: map_option_eq_Some option.inject prod.inject split_paired_all prod.case
      dest: reaches_fixed reaches_signed reaches_leb split: if_splits)

lemma reaches_encoded:
  assumes "FIRCLSParseAddressWithEncodingAndAdvance env c e = Some (v, c')"
  shows "reaches 8 c c'"
proof (cases "e = 0xFF \<or> c = 0")
  case True
  with assms show ?thesis
    by (auto simp: FIRCLSParseAddressWithEncodingAndAdvance_def split: if_splits)
next
  case False
  with assms obtain p where p: "parse_encoded_value env c e = Some p"
    by (auto simp: FIRCLSParseAddressWithEncodingAndAdvance_def bind_eq_Some_conv)
  show ?thesis
  proof (cases p)
    case None
    with False p assms show ?thesis by (auto simp: FIRCLSParseAddressWithEncodingAndAdvance_def)
  next
    case (Some q)
    obtain a d where q: "q = (a, d)" by (cases q)
    have "c' = d"
      using False p assms Some q
      by (auto simp: FIRCLSParseAddressWithEncodingAndAdvance_def Let_def bind_eq_Some_conv
          simp del: word_neq_0_conv split: if_splits)
    with reaches_encoded_value [of env c e a d] p Some q show ?thesis by simp
  qed
qed

lemma reaches_expression:
  assumes "FIRCLSParseULEB128AndAdvance env c = Some (n, c')"
  shows "reaches (2 ^ 31 + 8) c (c' + n)"
  by (rule reaches_trans [OF reaches_leb(1) [OF assms] reaches_add])
    (use uleb_bound [OF assms] in auto)

lemmas reaches_ops = reaches_fixed reaches_leb reaches_encoded

lemma reaches_offset_handlers:
  "on_offset st (FIRCLSDwarfParseAndExecute_set_loc env c r off) = Some (ok, c', st', off') \<Longrightarrow> reaches 8 c c'"
  "on_offset st (FIRCLSDwarfParseAndExecute_advance_loc1 env c r off) = Some (ok, c', st', off') \<Longrightarrow> reaches 8 c c'"
  "on_offset st (FIRCLSDwarfParseAndExecute_advance_loc2 env c r off) = Some (ok, c', st', off') \<Longrightarrow> reaches 8 c c'"
  "on_offset st (FIRCLSDwarfParseAndExecute_advance_loc4 env c r off) = Some (ok, c', st', off') \<Longrightarrow> reaches 8 c c'"
  by (auto simp: on_offset_def FIRCLSDwarfParseAndExecute_set_loc_def
      FIRCLSDwarfParseAndExecute_advance_loc1_def FIRCLSDwarfParseAndExecute_advance_loc2_def
      FIRCLSDwarfParseAndExecute_advance_loc4_def bind_eq_Some_conv dest: reaches_ops)

lemma reaches_two: "reaches 8 c c1 \<Longrightarrow> reaches 8 c1 c2 \<Longrightarrow> reaches 16 c c2"
  by (erule (1) reaches_trans) simp

lemma reaches_state_handlers:
  "FIRCLSDwarfParseAndExecute_def_cfa env ops c st = Some (ok, c', st') \<Longrightarrow> reaches 16 c c'"
  "FIRCLSDwarfParseAndExecute_def_cfa_register env ops c st = Some (ok, c', st') \<Longrightarrow> reaches 16 c c'"
  "FIRCLSDwarfParseAndExecute_def_cfa_offset env c st = Some (ok, c', st') \<Longrightarrow> reaches 16 c c'"
  "FIRCLSDwarfParseAndExecute_same_value env ops c st = Some (ok, c', st') \<Longrightarrow> reaches 16 c c'"
  "FIRCLSDwarfParseAndExecute_register env ops c st = Some (ok, c', st') \<Longrightarrow> reaches 16 c c'"
  "FIRCLSDwarfParseAndExecute_offset env ops r n c st = Some (ok, c', st') \<Longrightarrow> reaches 16 c c'"
  by (auto simp: FIRCLSDwarfParseAndExecute_def_cfa_def FIRCLSDwarfParseAndExecute_def_cfa_register_def
      FIRCLSDwarfParseAndExecute_def_cfa_offset_def FIRCLSDwarfParseAndExecute_same_value_def
      FIRCLSDwarfParseAndExecute_register_def FIRCLSDwarfParseAndExecute_offset_def
      bind_eq_Some_conv reaches_mono [OF reaches_leb(1), of _ _ _ _ 16]
      intro: reaches_two reaches_leb(1) split: if_splits)

lemma reaches_expression_handlers:
  "FIRCLSDwarfParseAndExecute_expression env ops c st = Some (ok, c', st') \<Longrightarrow> reaches (2 ^ 31 + 16) c c'"
  "FIRCLSDwarfParseAndExecute_val_expression env ops c st = Some (ok, c', st') \<Longrightarrow> reaches (2 ^ 31 + 16) c c'"
  "FIRCLSDwarfParseAndExecute_def_cfa_expression env ops c st = Some (ok, c', st') \<Longrightarrow> reaches (2 ^ 31 + 16) c c'"
  by (auto simp: FIRCLSDwarfParseAndExecute_expression_def FIRCLSDwarfParseAndExecute_val_expression_def
      FIRCLSDwarfParseAndExecute_def_cfa_expression_def Let_def bind_eq_Some_conv
      intro: reaches_mono [OF reaches_leb(1)] reaches_mono [OF reaches_expression]
        reaches_trans [OF reaches_leb(1) reaches_expression] split: if_splits)

lemma reaches_operand:
  "FIRCLSDwarfParseAndExecuteInstructionWithOperand env ops r i (c, st, off) = Some (ok, c', st', off') \<Longrightarrow>
     reaches 16 c c'"
  by (auto simp: FIRCLSDwarfParseAndExecuteInstructionWithOperand_def Let_def on_state_def
      dest: reaches_state_handlers split: if_splits)

lemma execute_instruction_reaches:
  "execute_instruction env ops r i (c, st, off) = Some (ok, c', st', off') \<Longrightarrow> reaches (2 ^ 31 + 16) c c'"
  by (auto simp: execute_instruction_def on_state_def
      dest!: reaches_offset_handlers reaches_state_handlers reaches_expression_handlers reaches_operand
      intro: reaches_mono split: if_splits)

section \<open>The rules stay well formed\<close>

text \<open>
  The array of rules has one entry for every register of the architecture, and nothing was written
  outside it; the CFA register is a register or the number the code uses for "none", and a register rule
  names a register.
\<close>

definition cfi_wf :: "'c arch_ops \<Rightarrow> FIRCLSDwarfState \<Rightarrow> bool" where
  "cfi_wf ops st \<longleftrightarrow> length (saved st) = MAX_REGISTER_NUM ops + 1 \<and> \<not> overrun st \<and>
     unat (cfaRegister st) \<le> MAX_REGISTER_NUM ops + 1 \<and>
     (\<forall>d \<in> set (saved st). location d = FIRCLSDwarfRegisterInRegister \<longrightarrow> unat (reg_value d) \<le> MAX_REGISTER_NUM ops)"

lemma cfi_wf_zero: "cfi_wf ops (zero_state ops)"
  by (auto simp: cfi_wf_def zero_state_def)

lemma cfi_wf_store:
  "cfi_wf ops st \<Longrightarrow> unat n \<le> MAX_REGISTER_NUM ops \<Longrightarrow>
     (location d = FIRCLSDwarfRegisterInRegister \<longrightarrow> unat (reg_value d) \<le> MAX_REGISTER_NUM ops) \<Longrightarrow>
     cfi_wf ops (store_register n d st)"
  by (auto simp: cfi_wf_def store_register_def dest!: subsetD [OF set_update_subset_insert])

lemma cfi_wf_set_saved:
  "cfi_wf ops st \<Longrightarrow> unat n \<le> MAX_REGISTER_NUM ops \<Longrightarrow>
     (loc = FIRCLSDwarfRegisterInRegister \<longrightarrow> unat v \<le> MAX_REGISTER_NUM ops) \<Longrightarrow>
     cfi_wf ops (set_saved n loc v st)"
  unfolding set_saved_def by (rule cfi_wf_store) simp_all

lemma cfi_wf_cfa:
  "cfi_wf ops st \<Longrightarrow> unat n \<le> MAX_REGISTER_NUM ops + 1 \<Longrightarrow> cfi_wf ops (st\<lparr>cfaRegister := n\<rparr>)"
  "cfi_wf ops (st\<lparr>cfaRegisterOffset := v\<rparr>) \<longleftrightarrow> cfi_wf ops st"
  "cfi_wf ops (st\<lparr>cfaExpression := v\<rparr>) \<longleftrightarrow> cfi_wf ops st"
  by (simp_all add: cfi_wf_def)

lemma unat_ucast_u8: "unat (ucast (n :: u8) :: u64) = unat n"
  by (simp add: unsigned_ucast_eq take_bit_nat_eq_self unsigned_less [of n, THEN order_less_le_trans])

lemma state_handlers_wf:
  assumes "cfi_wf ops st"
  shows "FIRCLSDwarfParseAndExecute_def_cfa env ops c st = Some (ok, c', st') \<Longrightarrow> cfi_wf ops st'"
    and "FIRCLSDwarfParseAndExecute_def_cfa_register env ops c st = Some (ok, c', st') \<Longrightarrow> cfi_wf ops st'"
    and "FIRCLSDwarfParseAndExecute_def_cfa_offset env c st = Some (ok, c', st') \<Longrightarrow> cfi_wf ops st'"
    and "FIRCLSDwarfParseAndExecute_register env ops c st = Some (ok, c', st') \<Longrightarrow> cfi_wf ops st'"
    and "FIRCLSDwarfParseAndExecute_offset env ops r n c st = Some (ok, c', st') \<Longrightarrow> cfi_wf ops st'"
    and "FIRCLSDwarfParseAndExecute_expression env ops c st = Some (ok, c', st') \<Longrightarrow> cfi_wf ops st'"
    and "FIRCLSDwarfParseAndExecute_val_expression env ops c st = Some (ok, c', st') \<Longrightarrow> cfi_wf ops st'"
  using assms
  by (auto simp: FIRCLSDwarfParseAndExecute_def_cfa_def FIRCLSDwarfParseAndExecute_def_cfa_register_def
      FIRCLSDwarfParseAndExecute_def_cfa_offset_def FIRCLSDwarfParseAndExecute_register_def
      FIRCLSDwarfParseAndExecute_offset_def FIRCLSDwarfParseAndExecute_expression_def
      FIRCLSDwarfParseAndExecute_val_expression_def Let_def bind_eq_Some_conv cfi_wf_cfa
      unat_ucast_u8 intro!: cfi_wf_set_saved split: if_splits)

lemma same_value_wf:
  "cfi_wf ops st \<Longrightarrow> FIRCLSDwarfParseAndExecute_same_value env ops c st = Some (ok, c', st') \<Longrightarrow> cfi_wf ops st'"
  by (auto simp: FIRCLSDwarfParseAndExecute_same_value_def bind_eq_Some_conv intro!: cfi_wf_store split: if_splits)

lemma def_cfa_expression_wf:
  "cfi_wf ops st \<Longrightarrow> MAX_REGISTER_NUM ops < 64 \<Longrightarrow>
     FIRCLSDwarfParseAndExecute_def_cfa_expression env ops c st = Some (ok, c', st') \<Longrightarrow> cfi_wf ops st'"
  by (auto simp: FIRCLSDwarfParseAndExecute_def_cfa_expression_def bind_eq_Some_conv cfi_wf_def
      unat_of_nat_u64 simp del: of_nat_Suc)

lemma operand_wf:
  "cfi_wf ops st \<Longrightarrow>
     FIRCLSDwarfParseAndExecuteInstructionWithOperand env ops r i (c, st, off) = Some (ok, c', st', off') \<Longrightarrow>
     cfi_wf ops st'"
  by (auto simp: FIRCLSDwarfParseAndExecuteInstructionWithOperand_def Let_def on_state_def
      dest: state_handlers_wf(5) split: if_splits)

lemma execute_instruction_wf:
  "cfi_wf ops st \<Longrightarrow> MAX_REGISTER_NUM ops < 64 \<Longrightarrow>
     execute_instruction env ops r i (c, st, off) = Some (ok, c', st', off') \<Longrightarrow> cfi_wf ops st'"
  unfolding execute_instruction_def prod.case
  by (simp only: on_state_def on_offset_def map_option_eq_Some split: if_splits)
    (auto dest: state_handlers_wf same_value_wf def_cfa_expression_wf operand_wf)

lemma enumerate_loop_wf:
  "cfi_wf ops (fst (snd config)) \<Longrightarrow> MAX_REGISTER_NUM ops < 64 \<Longrightarrow>
     enumerate_loop fuel env ops r endAddr pcOffset config = Returned (ok, st') \<Longrightarrow> cfi_wf ops st'"
proof (induction fuel env ops r endAddr pcOffset config rule: enumerate_loop.induct)
  case (1 fuel env ops r endAddr pcOffset cursor st off)
  show ?case
  proof (cases "cursor < endAddr \<and> sint off < sint pcOffset")
    case False
    with "1.prems" show ?thesis by (simp add: enumerate_loop.simps [of fuel])
  next
    case True
    with "1.prems"(3) obtain n i c1 ok1 c2 st2 off2 where step:
        "fuel = Suc n" "FIRCLSParseUint8AndAdvance env cursor = Some (i, c1)"
        "execute_instruction env ops r i (c1, st, off) = Some (ok1, c2, st2, off2)"
        "if ok1 then enumerate_loop n env ops r endAddr pcOffset (c2, st2, off2) = Returned (ok, st')
         else st' = st2"
      by (subst (asm) enumerate_loop.simps) (auto split: nat.splits option.splits if_splits)
    have "cfi_wf ops st2" using execute_instruction_wf [OF _ "1.prems"(2) step(3)] "1.prems"(1) by simp
    with step "1.IH" [of n _ i c1 _ ok1 "(c2, st2, off2)"] True "1.prems"(2) show ?thesis
      by (auto split: if_splits)
  qed
qed

section \<open>The fuel is enough\<close>

lemma enumerate_loop_enough:
  assumes "unat endAddr + 2 ^ 31 + 17 < 2 ^ 64"
  shows "unat endAddr \<le> unat (fst config) + fuel \<Longrightarrow>
    enumerate_loop fuel env ops r endAddr pcOffset config \<noteq> Out_of_fuel"
proof (induction fuel arbitrary: config)
  case 0
  obtain c st off where config: "config = (c, st, off)" by (cases config)
  with 0 have "\<not> c < endAddr" by (simp add: word_less_nat_alt)
  then show ?case by (simp add: config enumerate_loop.simps)
next
  case (Suc n)
  obtain c st off where config: "config = (c, st, off)" by (cases config)
  show ?case
  proof (cases "c < endAddr \<and> sint off < sint pcOffset")
    case True
    then have lt: "unat c < unat endAddr" by (simp add: word_less_nat_alt)
    have "enumerate_loop n env ops r endAddr pcOffset (c2, st2, off2) \<noteq> Out_of_fuel"
      if s: "FIRCLSParseUint8AndAdvance env c = Some (i, c1)"
        "execute_instruction env ops r i (c1, st, off) = Some (ok, c2, st2, off2)"
      for i c1 ok c2 st2 off2
    proof -
      have "c1 = c + 1" using s(1) by (auto simp: ParseUint8_byte)
      with execute_instruction_reaches [OF s(2)] obtain k where
        k: "k \<le> 2 ^ 31 + 16" "c2 = c + of_nat (Suc k)" by (auto simp: reaches_def add.assoc)
      have "unat c2 = unat c + Suc k"
        unfolding k(2) using k(1) lt assms by (intro unat_add_no_wrap) linarith
      then show ?thesis using Suc.IH [of "(c2, st2, off2)"] Suc.prems config by simp
    qed
    with True show ?thesis
      by (auto simp: config enumerate_loop.simps [of "Suc n"] split: option.splits)
  qed (simp add: config enumerate_loop.simps)
qed

lemma Enumerate_enough_fuel:
  assumes "unat (inst_data ins) + unat (inst_length ins) + 2 ^ 31 + 17 < 2 ^ 64"
  shows "FIRCLSDwarfInstructionsEnumerate env ops ins r st pcOffset \<noteq> Out_of_fuel"
proof -
  have "unat (inst_data ins + ucast (inst_length ins)) = unat (inst_data ins) + unat (inst_length ins)"
    using assms unat_add_no_wrap [of "inst_data ins" "unat (inst_length ins)"] by simp
  then show ?thesis
    using assms unfolding FIRCLSDwarfInstructionsEnumerate_def
    by (intro enumerate_loop_enough) simp_all
qed

end
