(* ===== verification/Cls_Dwarf_Expr.thy ===== *)
theory Cls_Dwarf_Expr
  imports Cls_Leb128 Cls_Thread_State
begin

text \<open>
  FIRCLSDwarfExpressionMachine.c and \<open>FIRCLSDwarfEvalulateExpression\<close> of FIRCLSDwarfUnwind.c: the
  stack machine for DWARF location expressions. The stack pointer is an index into \<open>buffer\<close>, or
  \<open>None\<close> for the \<open>NULL\<close> the code stores when the stack over- or underflows.
\<close>

section \<open>The expression stack\<close>

definition CLS_DWARF_EXPRESSION_STACK_SIZE :: nat where
  "CLS_DWARF_EXPRESSION_STACK_SIZE = 100"

record FIRCLSDwarfExpressionStack =
  buffer :: "u64 list"
  pointer :: "nat option"

definition FIRCLSDwarfExpressionStackInit :: FIRCLSDwarfExpressionStack where
  "FIRCLSDwarfExpressionStackInit =
     \<lparr>buffer = replicate CLS_DWARF_EXPRESSION_STACK_SIZE 0, pointer = Some 0\<rparr>"

definition FIRCLSDwarfExpressionStackIsValid :: "FIRCLSDwarfExpressionStack \<Rightarrow> bool" where
  "FIRCLSDwarfExpressionStackIsValid s =
     (case pointer s of None \<Rightarrow> False | Some p \<Rightarrow> p \<le> CLS_DWARF_EXPRESSION_STACK_SIZE)"

definition FIRCLSDwarfExpressionStackPush ::
  "FIRCLSDwarfExpressionStack \<Rightarrow> u64 \<Rightarrow> bool \<times> FIRCLSDwarfExpressionStack" where
  "FIRCLSDwarfExpressionStackPush s v =
    (if \<not> FIRCLSDwarfExpressionStackIsValid s then (False, s)
     else if pointer s = Some CLS_DWARF_EXPRESSION_STACK_SIZE then (False, s\<lparr>pointer := None\<rparr>)
     else let p = the (pointer s) in (True, s\<lparr>buffer := (buffer s)[p := v], pointer := Some (p + 1)\<rparr>))"

definition FIRCLSDwarfExpressionStackPeek ::
  "FIRCLSDwarfExpressionStack \<Rightarrow> u64 \<times> FIRCLSDwarfExpressionStack" where
  "FIRCLSDwarfExpressionStackPeek s =
    (if \<not> FIRCLSDwarfExpressionStackIsValid s then (0, s)
     else if pointer s = Some 0 then (0, s\<lparr>pointer := None\<rparr>)
     else (buffer s ! (the (pointer s) - 1), s))"

definition FIRCLSDwarfExpressionStackPop ::
  "FIRCLSDwarfExpressionStack \<Rightarrow> u64 \<times> FIRCLSDwarfExpressionStack" where
  "FIRCLSDwarfExpressionStackPop s =
    (if \<not> FIRCLSDwarfExpressionStackIsValid s then (0, s)
     else if pointer s = Some 0 then (0, s\<lparr>pointer := None\<rparr>)
     else let p = the (pointer s) - 1 in (buffer s ! p, s\<lparr>pointer := Some p\<rparr>))"

lemmas stack_defs =
  FIRCLSDwarfExpressionStackPush_def FIRCLSDwarfExpressionStackPeek_def
  FIRCLSDwarfExpressionStackPop_def FIRCLSDwarfExpressionStackIsValid_def

section \<open>Interface: a bounded stack that poisons itself\<close>

text \<open>
  What the opcodes rely on: below the capacity the operations are those of the list \<open>abs\<close>; an
  operation that overflows or underflows poisons the stack, and a poisoned stack stays poisoned
  and refuses everything.
\<close>

locale bounded_stack =
  fixes push :: "'s \<Rightarrow> 'v \<Rightarrow> bool \<times> 's" and pop :: "'s \<Rightarrow> 'v \<times> 's" and peek :: "'s \<Rightarrow> 'v \<times> 's"
    and empty :: 's and abs :: "'s \<Rightarrow> 'v list" and good :: "'s \<Rightarrow> bool" and poisoned :: "'s \<Rightarrow> bool"
    and cap :: nat and dflt :: 'v
  assumes good_empty: "good empty" "abs empty = []"
    and good_cap: "good s \<Longrightarrow> length (abs s) \<le> cap"
    and push_room: "good s \<Longrightarrow> length (abs s) < cap \<Longrightarrow>
          fst (push s v) \<and> good (snd (push s v)) \<and> abs (snd (push s v)) = v # abs s"
    and push_full: "good s \<Longrightarrow> length (abs s) = cap \<Longrightarrow> \<not> fst (push s v) \<and> poisoned (snd (push s v))"
    and pop_some: "good s \<Longrightarrow> abs s = v # vs \<Longrightarrow>
          fst (pop s) = v \<and> good (snd (pop s)) \<and> abs (snd (pop s)) = vs"
    and pop_none: "good s \<Longrightarrow> abs s = [] \<Longrightarrow> fst (pop s) = dflt \<and> poisoned (snd (pop s))"
    and peek_some: "good s \<Longrightarrow> abs s = v # vs \<Longrightarrow> peek s = (v, s)"
    and peek_none: "good s \<Longrightarrow> abs s = [] \<Longrightarrow> fst (peek s) = dflt \<and> poisoned (snd (peek s))"
    and poison_push: "poisoned s \<Longrightarrow> push s v = (False, s)"
    and poison_pop: "poisoned s \<Longrightarrow> pop s = (dflt, s)"
    and poison_peek: "poisoned s \<Longrightarrow> peek s = (dflt, s)"
begin

definition pop2 :: "'s \<Rightarrow> 'v \<times> 'v \<times> 's" where
  "pop2 s = (let (a, s1) = pop s; (b, s2) = pop s1 in (a, b, s2))"

lemma push_pop:
  "good s \<Longrightarrow> length (abs s) < cap \<Longrightarrow>
     fst (pop (snd (push s v))) = v \<and> abs (snd (pop (snd (push s v)))) = abs s"
  using push_room [of s v] pop_some [of "snd (push s v)" v "abs s"] by blast

lemma pop2_some:
  "good s \<Longrightarrow> abs s = a # b # vs \<Longrightarrow> \<exists>s'. pop2 s = (a, b, s') \<and> good s' \<and> abs s' = vs"
  using pop_some [of s a "b # vs"] pop_some [of "snd (pop s)" b vs]
  by (auto simp: pop2_def case_prod_unfold Let_def prod_eq_iff intro: exI [of _ "snd (pop (snd (pop s)))"])

lemma pop2_short:
  assumes "good s" and "length (abs s) < 2"
  shows "poisoned (snd (snd (pop2 s)))"
proof (cases "abs s")
  case Nil
  with assms(1) have "poisoned (snd (pop s))" using pop_none by blast
  then show ?thesis by (simp add: pop2_def case_prod_unfold poison_pop Let_def)
next
  case (Cons a vs)
  with assms have "good (snd (pop s)) \<and> abs (snd (pop s)) = []" using pop_some [of s a vs] by simp
  then have "poisoned (snd (pop (snd (pop s))))" using pop_none by blast
  then show ?thesis by (simp add: pop2_def case_prod_unfold Let_def)
qed

lemma push_ok_iff: "good s \<Longrightarrow> fst (push s v) \<longleftrightarrow> length (abs s) < cap"
  using good_cap [of s] push_room [of s v] push_full [of s v] by linarith

lemma good_or_poisoned_push:
  "good s \<or> poisoned s \<Longrightarrow> good (snd (push s v)) \<or> poisoned (snd (push s v))"
  using push_room [of s v] push_full [of s v] good_cap [of s] poison_push [of s v] by fastforce

lemma good_or_poisoned_pop:
  "good s \<or> poisoned s \<Longrightarrow> good (snd (pop s)) \<or> poisoned (snd (pop s))"
  using pop_some [of s] pop_none [of s] poison_pop [of s] by (cases "abs s") auto

lemma good_or_poisoned_peek:
  "good s \<or> poisoned s \<Longrightarrow> good (snd (peek s)) \<or> poisoned (snd (peek s))"
  using peek_some [of s] peek_none [of s] poison_peek [of s] by (cases "abs s") auto

end

definition stack_good :: "FIRCLSDwarfExpressionStack \<Rightarrow> bool" where
  "stack_good s \<longleftrightarrow> length (buffer s) = CLS_DWARF_EXPRESSION_STACK_SIZE \<and>
     FIRCLSDwarfExpressionStackIsValid s"

definition stack_poisoned :: "FIRCLSDwarfExpressionStack \<Rightarrow> bool" where
  "stack_poisoned s \<longleftrightarrow> length (buffer s) = CLS_DWARF_EXPRESSION_STACK_SIZE \<and> pointer s = None"

text \<open>The values on the stack, the top first.\<close>

definition stack_values :: "FIRCLSDwarfExpressionStack \<Rightarrow> u64 list" where
  "stack_values s = rev (take (the (pointer s)) (buffer s))"

lemma stack_goodE:
  assumes "stack_good s"
  obtains b p where "s = \<lparr>buffer = b, pointer = Some p\<rparr>" and "length b = 100" and "p \<le> 100"
  using assms by (cases s)
    (auto simp: stack_good_def FIRCLSDwarfExpressionStackIsValid_def CLS_DWARF_EXPRESSION_STACK_SIZE_def
      split: option.splits)

lemma stack_poisonedE:
  assumes "stack_poisoned s"
  obtains b where "s = \<lparr>buffer = b, pointer = None\<rparr>" and "length b = 100"
  using assms by (cases s) (auto simp: stack_poisoned_def CLS_DWARF_EXPRESSION_STACK_SIZE_def)

lemma stack_values_pos:
  assumes "length b = 100" and "p \<le> 100" and "stack_values \<lparr>buffer = b, pointer = Some p\<rparr> = v # vs"
  shows "p \<noteq> 0 \<and> b ! (p - 1) = v \<and> rev (take (p - 1) b) = vs"
proof -
  have "p \<noteq> 0" using assms(3) by (cases p) (auto simp: stack_values_def)
  moreover from this have "take p b = take (p - 1) b @ [b ! (p - 1)]"
    using assms(1,2) take_Suc_conv_app_nth [of "p - 1" b] by simp
  ultimately show ?thesis using assms(3) by (simp add: stack_values_def)
qed

interpretation expr_stack: bounded_stack FIRCLSDwarfExpressionStackPush FIRCLSDwarfExpressionStackPop
  FIRCLSDwarfExpressionStackPeek FIRCLSDwarfExpressionStackInit stack_values stack_good stack_poisoned
  CLS_DWARF_EXPRESSION_STACK_SIZE 0
proof
  note size = CLS_DWARF_EXPRESSION_STACK_SIZE_def
  show "stack_good FIRCLSDwarfExpressionStackInit" "stack_values FIRCLSDwarfExpressionStackInit = []"
    by (simp_all add: stack_good_def stack_values_def FIRCLSDwarfExpressionStackInit_def stack_defs size)
  fix s :: FIRCLSDwarfExpressionStack and v :: u64 and vs
  show "length (stack_values s) \<le> CLS_DWARF_EXPRESSION_STACK_SIZE" if "stack_good s"
    using that by (elim stack_goodE) (simp add: stack_values_def size)
  show "fst (FIRCLSDwarfExpressionStackPush s v) \<and> stack_good (snd (FIRCLSDwarfExpressionStackPush s v)) \<and>
      stack_values (snd (FIRCLSDwarfExpressionStackPush s v)) = v # stack_values s"
    if "stack_good s" "length (stack_values s) < CLS_DWARF_EXPRESSION_STACK_SIZE"
    using that by (elim stack_goodE)
      (auto simp: stack_values_def stack_good_def stack_defs size Let_def take_Suc_conv_app_nth min_def)
  show "\<not> fst (FIRCLSDwarfExpressionStackPush s v) \<and> stack_poisoned (snd (FIRCLSDwarfExpressionStackPush s v))"
    if "stack_good s" "length (stack_values s) = CLS_DWARF_EXPRESSION_STACK_SIZE"
    using that by (elim stack_goodE)
      (auto simp: stack_values_def stack_poisoned_def stack_defs size min_def)
  show "fst (FIRCLSDwarfExpressionStackPop s) = v \<and> stack_good (snd (FIRCLSDwarfExpressionStackPop s)) \<and>
      stack_values (snd (FIRCLSDwarfExpressionStackPop s)) = vs"
    if "stack_good s" "stack_values s = v # vs"
    using that by (elim stack_goodE)
      (auto simp: stack_good_def stack_defs size Let_def stack_values_def dest!: stack_values_pos)
  show "FIRCLSDwarfExpressionStackPeek s = (v, s)" if "stack_good s" "stack_values s = v # vs"
    using that by (elim stack_goodE) (auto simp: stack_defs size dest!: stack_values_pos)
  show "fst (FIRCLSDwarfExpressionStackPop s) = 0 \<and> stack_poisoned (snd (FIRCLSDwarfExpressionStackPop s))"
    if "stack_good s" "stack_values s = []"
    using that by (elim stack_goodE) (auto simp: stack_poisoned_def stack_values_def stack_defs size)
  show "fst (FIRCLSDwarfExpressionStackPeek s) = 0 \<and> stack_poisoned (snd (FIRCLSDwarfExpressionStackPeek s))"
    if "stack_good s" "stack_values s = []"
    using that by (elim stack_goodE) (auto simp: stack_poisoned_def stack_values_def stack_defs size)
qed (auto elim!: stack_poisonedE simp: stack_defs)

section \<open>The machine\<close>

record 'c FIRCLSDwarfExpressionMachine =
  stack :: FIRCLSDwarfExpressionStack
  dataCursor :: u64
  endAddress :: u64
  registers :: 'c

text \<open>
  \<open>memset\<close> zeroes the machine first; the first failure leaves it so, with \<open>NULL\<close> for the
  registers, which nothing reads afterwards.
\<close>

definition FIRCLSDwarfExpressionMachineInit ::
  "u64 \<Rightarrow> 'c \<Rightarrow> u64 \<Rightarrow> bool \<times> 'c FIRCLSDwarfExpressionMachine" where
  "FIRCLSDwarfExpressionMachineInit cursor regs stackValue =
    (if \<not> FIRCLSIsValidPointer cursor
     then (False, \<lparr>stack = FIRCLSDwarfExpressionStackInit\<lparr>pointer := None\<rparr>, dataCursor = 0,
                    endAddress = 0, registers = regs\<rparr>)
     else let (ok, s) = FIRCLSDwarfExpressionStackPush FIRCLSDwarfExpressionStackInit stackValue
          in (ok, \<lparr>stack = s, dataCursor = cursor, endAddress = 0, registers = regs\<rparr>))"

definition FIRCLSDwarfExpressionMachinePrepareForExecution ::
  "cls_env \<Rightarrow> 'c FIRCLSDwarfExpressionMachine \<Rightarrow> (bool \<times> 'c FIRCLSDwarfExpressionMachine) option" where
  "FIRCLSDwarfExpressionMachinePrepareForExecution env m = do {
     (expressionLength, cursor) \<leftarrow> FIRCLSParseULEB128AndAdvance env (dataCursor m);
     let m = m\<lparr>dataCursor := cursor\<rparr>;
     (if expressionLength = 0 then Some (False, m)
      else Some (True, m\<lparr>endAddress := cursor + expressionLength\<rparr>)) }"

definition FIRCLSDwarfExpressionMachineIsFinished :: "'c FIRCLSDwarfExpressionMachine \<Rightarrow> bool" where
  "FIRCLSDwarfExpressionMachineIsFinished m =
    (if \<not> FIRCLSIsValidPointer (endAddress m) \<or> \<not> FIRCLSIsValidPointer (dataCursor m) then True
     else if \<not> FIRCLSDwarfExpressionStackIsValid (stack m) then True
     else endAddress m \<le> dataCursor m)"

text \<open>The status and \<open>*result\<close>, which is written on one of the failing paths too.\<close>

definition FIRCLSDwarfExpressionMachineGetResult ::
  "'c FIRCLSDwarfExpressionMachine \<Rightarrow> u64 \<Rightarrow> bool \<times> u64" where
  "FIRCLSDwarfExpressionMachineGetResult m result =
    (if dataCursor m \<noteq> endAddress m then (False, result)
     else let (v, s) = FIRCLSDwarfExpressionStackPeek (stack m)
          in (FIRCLSDwarfExpressionStackIsValid s, v))"

definition FIRCLSDwarfExpressionMachineStackPop ::
  "'c FIRCLSDwarfExpressionMachine \<Rightarrow> u64 \<times> 'c FIRCLSDwarfExpressionMachine" where
  "FIRCLSDwarfExpressionMachineStackPop m =
     (let (v, s) = FIRCLSDwarfExpressionStackPop (stack m) in (v, m\<lparr>stack := s\<rparr>))"

definition FIRCLSDwarfExpressionMachineStackPush ::
  "'c FIRCLSDwarfExpressionMachine \<Rightarrow> u64 \<Rightarrow> bool \<times> 'c FIRCLSDwarfExpressionMachine" where
  "FIRCLSDwarfExpressionMachineStackPush m v =
     (let (ok, s) = FIRCLSDwarfExpressionStackPush (stack m) v in (ok, m\<lparr>stack := s\<rparr>))"

section \<open>The opcodes\<close>

definition FIRCLSDwarfExpressionMachineExecute_bregN ::
  "cls_env \<Rightarrow> 'c arch_ops \<Rightarrow> 'c FIRCLSDwarfExpressionMachine \<Rightarrow> u8 \<Rightarrow>
     (bool \<times> 'c FIRCLSDwarfExpressionMachine) option" where
  "FIRCLSDwarfExpressionMachineExecute_bregN env ops m opcode =
    (let regNum = opcode - 0x70 in
     if MAX_REGISTER_NUM ops < unat regNum then Some (False, m)
     else do {
       (offset, cursor) \<leftarrow> FIRCLSParseLEB128AndAdvance env (dataCursor m);
       Some (FIRCLSDwarfExpressionMachineStackPush (m\<lparr>dataCursor := cursor\<rparr>)
               (GetRegisterValue ops (registers m) (ucast regNum) + offset)) })"

definition FIRCLSDwarfExpressionMachineExecute_deref ::
  "cls_env \<Rightarrow> 'c FIRCLSDwarfExpressionMachine \<Rightarrow> (bool \<times> 'c FIRCLSDwarfExpressionMachine) option" where
  "FIRCLSDwarfExpressionMachineExecute_deref env m =
    (let (v, m) = FIRCLSDwarfExpressionMachineStackPop m in
     case FIRCLSReadWord env v of
       None \<Rightarrow> Some (False, m)
     | Some w \<Rightarrow> Some (FIRCLSDwarfExpressionMachineStackPush m w))"

definition FIRCLSDwarfExpressionMachineExecute_plus_uconst ::
  "cls_env \<Rightarrow> 'c FIRCLSDwarfExpressionMachine \<Rightarrow> (bool \<times> 'c FIRCLSDwarfExpressionMachine) option" where
  "FIRCLSDwarfExpressionMachineExecute_plus_uconst env m =
    (let (v, m) = FIRCLSDwarfExpressionMachineStackPop m in do {
       (n, cursor) \<leftarrow> FIRCLSParseULEB128AndAdvance env (dataCursor m);
       Some (FIRCLSDwarfExpressionMachineStackPush (m\<lparr>dataCursor := cursor\<rparr>) (v + n)) })"

definition FIRCLSDwarfExpressionMachineExecute_and ::
  "'c FIRCLSDwarfExpressionMachine \<Rightarrow> (bool \<times> 'c FIRCLSDwarfExpressionMachine) option" where
  "FIRCLSDwarfExpressionMachineExecute_and m =
    (let (a, m) = FIRCLSDwarfExpressionMachineStackPop m;
         (b, m) = FIRCLSDwarfExpressionMachineStackPop m
     in Some (FIRCLSDwarfExpressionMachineStackPush m (a AND b)))"

definition FIRCLSDwarfExpressionMachineExecute_plus ::
  "'c FIRCLSDwarfExpressionMachine \<Rightarrow> (bool \<times> 'c FIRCLSDwarfExpressionMachine) option" where
  "FIRCLSDwarfExpressionMachineExecute_plus m =
    (let (a, m) = FIRCLSDwarfExpressionMachineStackPop m;
         (b, m) = FIRCLSDwarfExpressionMachineStackPop m
     in do { v \<leftarrow> c_sadd a b; Some (FIRCLSDwarfExpressionMachineStackPush m v) })"

definition FIRCLSDwarfExpressionMachineExecute_dup ::
  "'c FIRCLSDwarfExpressionMachine \<Rightarrow> (bool \<times> 'c FIRCLSDwarfExpressionMachine) option" where
  "FIRCLSDwarfExpressionMachineExecute_dup m =
    (let (v, s) = FIRCLSDwarfExpressionStackPeek (stack m)
     in Some (FIRCLSDwarfExpressionMachineStackPush (m\<lparr>stack := s\<rparr>) v))"

definition FIRCLSDwarfExpressionMachineExecute_swap ::
  "'c FIRCLSDwarfExpressionMachine \<Rightarrow> (bool \<times> 'c FIRCLSDwarfExpressionMachine) option" where
  "FIRCLSDwarfExpressionMachineExecute_swap m =
    (let (a, m) = FIRCLSDwarfExpressionMachineStackPop m;
         (b, m) = FIRCLSDwarfExpressionMachineStackPop m;
         (ok, m) = FIRCLSDwarfExpressionMachineStackPush m a
     in if \<not> ok then Some (False, m) else Some (FIRCLSDwarfExpressionMachineStackPush m b))"

text \<open>\<open>deref_size\<close> reads through the popped pointer itself, without \<open>FIRCLSReadMemory\<close>.\<close>

definition FIRCLSDwarfExpressionMachineExecute_deref_size ::
  "cls_env \<Rightarrow> 'c FIRCLSDwarfExpressionMachine \<Rightarrow> (bool \<times> 'c FIRCLSDwarfExpressionMachine) option" where
  "FIRCLSDwarfExpressionMachineExecute_deref_size env m =
    (let (address, m) = FIRCLSDwarfExpressionMachineStackPop m in do {
       (readSize, cursor) \<leftarrow> FIRCLSParseUint8AndAdvance env (dataCursor m);
       let m = m\<lparr>dataCursor := cursor\<rparr>;
       (if readSize = 1 then
          do { (v, _) \<leftarrow> FIRCLSParseUint8AndAdvance env address;
               Some (FIRCLSDwarfExpressionMachineStackPush m (ucast v)) }
        else if readSize = 2 then
          do { (v, _) \<leftarrow> FIRCLSParseUint16AndAdvance env address;
               Some (FIRCLSDwarfExpressionMachineStackPush m (ucast v)) }
        else if readSize = 4 then
          do { (v, _) \<leftarrow> FIRCLSParseUint32AndAdvance env address;
               Some (FIRCLSDwarfExpressionMachineStackPush m (ucast v)) }
        else if readSize = 8 then
          do { (v, _) \<leftarrow> FIRCLSParseUint64AndAdvance env address;
               Some (FIRCLSDwarfExpressionMachineStackPush m v) }
        else Some (False, m)) })"

definition FIRCLSDwarfExpressionMachineExecute_ne ::
  "'c FIRCLSDwarfExpressionMachine \<Rightarrow> (bool \<times> 'c FIRCLSDwarfExpressionMachine) option" where
  "FIRCLSDwarfExpressionMachineExecute_ne m =
    (let (a, m) = FIRCLSDwarfExpressionMachineStackPop m;
         (b, m) = FIRCLSDwarfExpressionMachineStackPop m
     in Some (FIRCLSDwarfExpressionMachineStackPush m (if a \<noteq> b then 1 else 0)))"

definition FIRCLSDwarfExpressionMachineExecute_litN ::
  "'c FIRCLSDwarfExpressionMachine \<Rightarrow> u8 \<Rightarrow> (bool \<times> 'c FIRCLSDwarfExpressionMachine) option" where
  "FIRCLSDwarfExpressionMachineExecute_litN m opcode =
     Some (FIRCLSDwarfExpressionMachineStackPush m (ucast (opcode - 0x30)))"

definition FIRCLSDwarfExpressionMachineExecuteNextOpcode ::
  "cls_env \<Rightarrow> 'c arch_ops \<Rightarrow> 'c FIRCLSDwarfExpressionMachine \<Rightarrow>
     (bool \<times> 'c FIRCLSDwarfExpressionMachine) option" where
  "FIRCLSDwarfExpressionMachineExecuteNextOpcode env ops m = do {
     (opcode, cursor) \<leftarrow> FIRCLSParseUint8AndAdvance env (dataCursor m);
     let m = m\<lparr>dataCursor := cursor\<rparr>;
     (if opcode = 0x06 then FIRCLSDwarfExpressionMachineExecute_deref env m
      else if opcode = 0x12 then FIRCLSDwarfExpressionMachineExecute_dup m
      else if opcode = 0x1A then FIRCLSDwarfExpressionMachineExecute_and m
      else if opcode = 0x22 then FIRCLSDwarfExpressionMachineExecute_plus m
      else if opcode = 0x16 then FIRCLSDwarfExpressionMachineExecute_swap m
      else if opcode = 0x23 then FIRCLSDwarfExpressionMachineExecute_plus_uconst env m
      else if opcode = 0x2E then FIRCLSDwarfExpressionMachineExecute_ne m
      else if 0x30 \<le> opcode \<and> opcode \<le> 0x4F then FIRCLSDwarfExpressionMachineExecute_litN m opcode
      else if 0x70 \<le> opcode \<and> opcode \<le> 0x8F then
        FIRCLSDwarfExpressionMachineExecute_bregN env ops m opcode
      else if opcode = 0x94 then FIRCLSDwarfExpressionMachineExecute_deref_size env m
      else Some (False, m)) }"

lemmas machine_stack_defs =
  FIRCLSDwarfExpressionMachineStackPop_def FIRCLSDwarfExpressionMachineStackPush_def

lemmas opcode_defs =
  FIRCLSDwarfExpressionMachineExecute_bregN_def FIRCLSDwarfExpressionMachineExecute_deref_def
  FIRCLSDwarfExpressionMachineExecute_plus_uconst_def FIRCLSDwarfExpressionMachineExecute_and_def
  FIRCLSDwarfExpressionMachineExecute_plus_def FIRCLSDwarfExpressionMachineExecute_dup_def
  FIRCLSDwarfExpressionMachineExecute_swap_def FIRCLSDwarfExpressionMachineExecute_deref_size_def
  FIRCLSDwarfExpressionMachineExecute_ne_def FIRCLSDwarfExpressionMachineExecute_litN_def

section \<open>Every opcode moves the cursor and keeps the rest of the machine\<close>

definition moves :: "nat \<Rightarrow> 'c FIRCLSDwarfExpressionMachine \<Rightarrow> 'c FIRCLSDwarfExpressionMachine \<Rightarrow> bool" where
  "moves w m m' \<longleftrightarrow> (\<exists>k \<le> w. dataCursor m' = dataCursor m + of_nat k) \<and>
     endAddress m' = endAddress m \<and> registers m' = registers m"

lemma moves_refl [simp, advance_intros]: "moves w m m"
  by (auto simp: moves_def intro: exI [of _ 0])

lemma moves_stack [simp]:
  "moves w m (m'\<lparr>stack := s\<rparr>) \<longleftrightarrow> moves w m m'"
  "moves w (m\<lparr>stack := s\<rparr>) m' \<longleftrightarrow> moves w m m'"
  by (simp_all add: moves_def)

lemma moves_push [simp]: "moves w m (snd (FIRCLSDwarfExpressionMachineStackPush m' v)) \<longleftrightarrow> moves w m m'"
  and moves_pop [simp]: "moves w m (snd (FIRCLSDwarfExpressionMachineStackPop m')) \<longleftrightarrow> moves w m m'"
  by (simp_all add: machine_stack_defs case_prod_unfold Let_def)

lemma moves_after_pop [simp]:
  "moves w (snd (FIRCLSDwarfExpressionMachineStackPop m)) m' \<longleftrightarrow> moves w m m'"
  by (simp add: machine_stack_defs case_prod_unfold Let_def)

lemma moves_cursor:
  "dataCursor m' = c + of_nat k \<Longrightarrow> k \<le> w \<Longrightarrow> c = dataCursor m \<Longrightarrow> endAddress m' = endAddress m \<Longrightarrow>
     registers m' = registers m \<Longrightarrow> moves w m m'"
  by (auto simp: moves_def)

lemma moves_uleb:
  "FIRCLSParseULEB128AndAdvance env (dataCursor m) = Some (v, c) \<Longrightarrow> moves 8 m (m\<lparr>dataCursor := c\<rparr>)"
  and moves_leb:
  "FIRCLSParseLEB128AndAdvance env (dataCursor m) = Some (v', c) \<Longrightarrow> moves 8 m (m\<lparr>dataCursor := c\<rparr>)"
  by (drule uleb.advance leb.advance, auto simp: moves_def)+

lemma moves_u8:
  "FIRCLSParseUint8AndAdvance env (dataCursor m) = Some (v, c) \<Longrightarrow> moves 8 m (m\<lparr>dataCursor := c\<rparr>)"
  by (drule u8p.advance) (auto simp: moves_def intro!: exI [of _ 1])

lemma pop_cursor [simp]:
  "dataCursor (snd (FIRCLSDwarfExpressionMachineStackPop m)) = dataCursor m"
  by (simp add: machine_stack_defs case_prod_unfold Let_def)

lemma pop_update_moves:
  "moves w m (snd (FIRCLSDwarfExpressionMachineStackPop m)\<lparr>dataCursor := c\<rparr>) \<longleftrightarrow>
     moves w m (m\<lparr>dataCursor := c\<rparr>)"
  by (simp add: machine_stack_defs case_prod_unfold Let_def moves_def)

lemma moves_bregN:
  "FIRCLSDwarfExpressionMachineExecute_bregN env ops m opcode = Some (b, m') \<Longrightarrow> moves 8 m m'"
  by (auto simp: FIRCLSDwarfExpressionMachineExecute_bregN_def Let_def bind_eq_Some_conv prod_eq_iff
      moves_leb split: if_splits)

lemma moves_deref:
  "FIRCLSDwarfExpressionMachineExecute_deref env m = Some (b, m') \<Longrightarrow> moves 8 m m'"
  by (auto simp: FIRCLSDwarfExpressionMachineExecute_deref_def case_prod_unfold prod_eq_iff Let_def
      split: option.splits)

lemma moves_plus_uconst:
  "FIRCLSDwarfExpressionMachineExecute_plus_uconst env m = Some (b, m') \<Longrightarrow> moves 8 m m'"
  by (auto simp: FIRCLSDwarfExpressionMachineExecute_plus_uconst_def case_prod_unfold prod_eq_iff Let_def
      bind_eq_Some_conv pop_update_moves dest!: moves_uleb)

lemma moves_binary:
  "FIRCLSDwarfExpressionMachineExecute_and m = Some (b, m') \<Longrightarrow> moves 8 m m'"
  "FIRCLSDwarfExpressionMachineExecute_plus m = Some (b, m') \<Longrightarrow> moves 8 m m'"
  "FIRCLSDwarfExpressionMachineExecute_ne m = Some (b, m') \<Longrightarrow> moves 8 m m'"
  "FIRCLSDwarfExpressionMachineExecute_dup m = Some (b, m') \<Longrightarrow> moves 8 m m'"
  "FIRCLSDwarfExpressionMachineExecute_swap m = Some (b, m') \<Longrightarrow> moves 8 m m'"
  by (auto simp: opcode_defs case_prod_unfold prod_eq_iff bind_eq_Some_conv Let_def split: if_splits)

lemma moves_deref_size:
  "FIRCLSDwarfExpressionMachineExecute_deref_size env m = Some (b, m') \<Longrightarrow> moves 8 m m'"
  by (auto simp: FIRCLSDwarfExpressionMachineExecute_deref_size_def case_prod_unfold prod_eq_iff
      bind_eq_Some_conv Let_def pop_update_moves split: if_splits dest!: moves_u8)

lemma moves_litN:
  "FIRCLSDwarfExpressionMachineExecute_litN m opcode = Some (b, m') \<Longrightarrow> moves 8 m m'"
  by (auto simp: FIRCLSDwarfExpressionMachineExecute_litN_def prod_eq_iff)

lemmas moves_opcodes =
  moves_bregN moves_deref moves_plus_uconst moves_binary moves_deref_size moves_litN

lemma ExecuteNextOpcode_moves:
  assumes "FIRCLSDwarfExpressionMachineExecuteNextOpcode env ops m = Some (b, m')"
  shows "\<exists>k. 1 \<le> k \<and> k \<le> 9 \<and> dataCursor m' = dataCursor m + of_nat k \<and>
           endAddress m' = endAddress m \<and> registers m' = registers m"
proof -
  have "moves 8 (m\<lparr>dataCursor := dataCursor m + 1\<rparr>) m'"
    using assms
    by (auto simp: FIRCLSDwarfExpressionMachineExecuteNextOpcode_def bind_eq_Some_conv Let_def
        FIRCLSParseUint8AndAdvance_def parse_fixed_def dest: moves_opcodes split: if_splits)
  then obtain k where "k \<le> 8" "dataCursor m' = dataCursor m + 1 + of_nat k"
      "endAddress m' = endAddress m" "registers m' = registers m"
    by (auto simp: moves_def)
  then show ?thesis by (intro exI [of _ "Suc k"]) (simp add: add.assoc)
qed

section \<open>Evaluating an expression\<close>

text \<open>
  The loop of \<open>FIRCLSDwarfEvalulateExpression\<close>. It always ends: the cursor moves by one to nine
  bytes, and when it wraps around the address space it is no longer a valid pointer.
\<close>

function evaluate_loop ::
  "cls_env \<Rightarrow> 'c arch_ops \<Rightarrow> 'c FIRCLSDwarfExpressionMachine \<Rightarrow>
     (bool \<times> 'c FIRCLSDwarfExpressionMachine) option" where
  "evaluate_loop env ops m =
    (if FIRCLSDwarfExpressionMachineIsFinished m then Some (True, m)
     else case FIRCLSDwarfExpressionMachineExecuteNextOpcode env ops m of
       None \<Rightarrow> None
     | Some (ok, m') \<Rightarrow> if \<not> ok then Some (False, m') else evaluate_loop env ops m')"
  by pat_completeness auto

lemma cursor_measure:
  assumes "4096 \<le> (c :: u64)" and "1 \<le> k" and "k \<le> 9"
  shows "2 ^ 64 - unat (c + of_nat k) < 2 ^ 64 - unat c \<or> \<not> 4096 \<le> c + of_nat k"
proof (cases "unat c + k < 2 ^ 64")
  case True
  then have eq: "unat (c + of_nat k) = unat c + k" by (rule unat_add_no_wrap)
  show ?thesis unfolding eq using True assms(2) by (intro disjI1 diff_less_mono2) auto
next
  case False
  have lt: "unat c < 2 ^ 64" using unsigned_less [of c] by simp
  have "x + k - n < 9" if "x < n" for x n :: nat using that assms(3) by linarith
  from this [OF lt] have small: "unat c + k - 2 ^ 64 < 9" .
  have "unat (c + of_nat k) = (unat c + k) mod 2 ^ 64"
    using assms(3) by (simp add: unat_word_ariths unat_of_nat)
  also have "\<dots> = (unat c + k - 2 ^ 64) mod 2 ^ 64" using False by (intro le_mod_geq) simp
  also have "\<dots> = unat c + k - 2 ^ 64"
    using less_trans [OF small, of "2 ^ 64"] by (intro mod_less) simp
  finally have "unat (c + of_nat k) < 9" using small by (rule ord_eq_less_trans)
  then have "\<not> 4096 \<le> c + of_nat k" by (simp add: word_le_nat_alt)
  then show ?thesis ..
qed

termination evaluate_loop
proof (relation "measure (\<lambda>(env, ops, m). if 4096 \<le> dataCursor m then 2 ^ 64 - unat (dataCursor m) else 0)")
  fix env :: cls_env and ops :: "'c arch_ops" and m m' :: "'c FIRCLSDwarfExpressionMachine"
    and ok and r :: "bool \<times> 'c FIRCLSDwarfExpressionMachine"
  assume unfinished: "\<not> FIRCLSDwarfExpressionMachineIsFinished m"
    and step: "FIRCLSDwarfExpressionMachineExecuteNextOpcode env ops m = Some r" "(ok, m') = r"
  have v: "4096 \<le> dataCursor m"
    using unfinished
    by (auto simp: FIRCLSDwarfExpressionMachineIsFinished_def FIRCLSIsValidPointer_def split: if_splits)
  obtain k where k: "1 \<le> k" "k \<le> 9" "dataCursor m' = dataCursor m + of_nat k"
    using ExecuteNextOpcode_moves [of env ops m ok m'] step by auto
  have "unat (dataCursor m) < 2 ^ 64" using unsigned_less [of "dataCursor m"] by simp
  with cursor_measure [OF v k(1,2)] v k(3)
  show "((env, ops, m'), env, ops, m) \<in> measure (\<lambda>(env, ops, m).
      if 4096 \<le> dataCursor m then 2 ^ 64 - unat (dataCursor m) else 0)"
    by auto
qed simp

declare evaluate_loop.simps [simp del]

definition FIRCLSDwarfEvalulateExpression ::
  "cls_env \<Rightarrow> 'c arch_ops \<Rightarrow> u64 \<Rightarrow> 'c \<Rightarrow> u64 \<Rightarrow> u64 \<Rightarrow> (bool \<times> u64) option" where
  "FIRCLSDwarfEvalulateExpression env ops cursor regs stackValue result =
    (if \<not> FIRCLSIsValidPointer cursor then Some (False, result)
     else let (ok, m) = FIRCLSDwarfExpressionMachineInit cursor regs stackValue in
       if \<not> ok then Some (False, result)
       else do {
         (ok, m) \<leftarrow> FIRCLSDwarfExpressionMachinePrepareForExecution env m;
         (if \<not> ok then Some (False, result)
          else do {
            (ok, m) \<leftarrow> evaluate_loop env ops m;
            (if \<not> ok then Some (False, result)
             else Some (FIRCLSDwarfExpressionMachineGetResult m result)) }) })"

end
