(* ===== verification/Cls_Dwarf_Expr_Spec.thy ===== *)
theory Cls_Dwarf_Expr_Spec
  imports Cls_Dwarf_Expr
begin

text \<open>
  What a DWARF expression means, stated on a list of values, and the proof that the machine of
  FIRCLSDwarfExpressionMachine.c computes it on the assembled bytes of the expression.
\<close>

datatype dw_op =
    DW_breg nat int
  | DW_deref
  | DW_dup
  | DW_and
  | DW_plus
  | DW_swap
  | DW_plus_uconst nat
  | DW_deref_size nat
  | DW_ne
  | DW_lit nat

fun dw_encode :: "dw_op \<Rightarrow> u8 list" where
  "dw_encode (DW_breg n off) = of_nat (0x70 + n) # sleb128_encode off"
| "dw_encode DW_deref = [0x06]"
| "dw_encode DW_dup = [0x12]"
| "dw_encode DW_and = [0x1A]"
| "dw_encode DW_plus = [0x22]"
| "dw_encode DW_swap = [0x16]"
| "dw_encode (DW_plus_uconst n) = 0x23 # uleb128_encode n"
| "dw_encode (DW_deref_size k) = [0x94, of_nat k]"
| "dw_encode DW_ne = [0x2E]"
| "dw_encode (DW_lit n) = [of_nat (0x30 + n)]"

text \<open>The operands for which the decoders of FIRCLSDataParsing.c stay inside C's \<open>int\<close>.\<close>

fun dw_wf :: "'c arch_ops \<Rightarrow> dw_op \<Rightarrow> bool" where
  "dw_wf ops (DW_breg n off) = (n \<le> MAX_REGISTER_NUM ops \<and> n < 32 \<and> - (2 ^ 27) \<le> off \<and> off < 2 ^ 31)"
| "dw_wf ops (DW_plus_uconst n) = (n < 2 ^ 31)"
| "dw_wf ops (DW_deref_size k) = (k = 1 \<or> k = 2 \<or> k = 4 \<or> k = 8)"
| "dw_wf ops (DW_lit n) = (n < 32)"
| "dw_wf ops _ = True"

definition dw_push :: "u64 \<Rightarrow> u64 list \<Rightarrow> u64 list option" where
  "dw_push v st = (if length st < 100 then Some (v # st) else None)"

fun dw_step :: "cls_env \<Rightarrow> 'c arch_ops \<Rightarrow> 'c \<Rightarrow> dw_op \<Rightarrow> u64 list \<Rightarrow> u64 list option" where
  "dw_step env ops r (DW_breg n off) st = dw_push (GetRegisterValue ops r (of_nat n) + of_int off) st"
| "dw_step env ops r (DW_lit n) st = dw_push (of_nat n) st"
| "dw_step env ops r DW_dup (v # st) = dw_push v (v # st)"
| "dw_step env ops r DW_deref (v # st) = do { w \<leftarrow> FIRCLSReadWord env v; Some (w # st) }"
| "dw_step env ops r (DW_deref_size k) (v # st) = do { bs \<leftarrow> load env v k; Some (le_word bs # st) }"
| "dw_step env ops r (DW_plus_uconst n) (v # st) = Some ((v + of_nat n) # st)"
| "dw_step env ops r DW_and (a # b # st) = Some ((a AND b) # st)"
| "dw_step env ops r DW_plus (a # b # st) = do { v \<leftarrow> c_sadd a b; Some (v # st) }"
| "dw_step env ops r DW_ne (a # b # st) = Some ((if a \<noteq> b then 1 else 0) # st)"
| "dw_step env ops r DW_swap (a # b # st) = Some (b # a # st)"
| "dw_step env ops r _ _ = None"

primrec dw_run :: "cls_env \<Rightarrow> 'c arch_ops \<Rightarrow> 'c \<Rightarrow> dw_op list \<Rightarrow> u64 list \<Rightarrow> u64 list option" where
  "dw_run env ops r [] st = Some st"
| "dw_run env ops r (i # is) st = do { st \<leftarrow> dw_step env ops r i st; dw_run env ops r is st }"

section \<open>The machine's stack is the list\<close>

definition holds :: "'c FIRCLSDwarfExpressionMachine \<Rightarrow> u64 list \<Rightarrow> bool" where
  "holds m st \<longleftrightarrow> stack_good (stack m) \<and> stack_values (stack m) = st"

lemma holds_update [simp]:
  "holds (m\<lparr>dataCursor := c\<rparr>) st \<longleftrightarrow> holds m st"
  "holds (m\<lparr>endAddress := c\<rparr>) st \<longleftrightarrow> holds m st"
  by (simp_all add: holds_def)

lemma holds_pop:
  "holds m (v # st) \<Longrightarrow>
     \<exists>s. FIRCLSDwarfExpressionMachineStackPop m = (v, m\<lparr>stack := s\<rparr>) \<and> holds (m\<lparr>stack := s\<rparr>) st"
  using expr_stack.pop_some [of "stack m" v st]
  by (auto simp: holds_def FIRCLSDwarfExpressionMachineStackPop_def case_prod_unfold Let_def)

lemma holds_push:
  "holds m st \<Longrightarrow> length st < 100 \<Longrightarrow>
     \<exists>s. FIRCLSDwarfExpressionMachineStackPush m v = (True, m\<lparr>stack := s\<rparr>) \<and> holds (m\<lparr>stack := s\<rparr>) (v # st)"
  using expr_stack.push_room [of "stack m" v]
  by (auto simp: holds_def FIRCLSDwarfExpressionMachineStackPush_def case_prod_unfold Let_def
      CLS_DWARF_EXPRESSION_STACK_SIZE_def)

lemma holds_peek: "holds m (v # st) \<Longrightarrow> FIRCLSDwarfExpressionStackPeek (stack m) = (v, stack m)"
  using expr_stack.peek_some [of "stack m" v st] by (simp add: holds_def)

lemma holds_bound: "holds m st \<Longrightarrow> length st \<le> 100"
  using expr_stack.good_cap [of "stack m"] by (simp add: holds_def CLS_DWARF_EXPRESSION_STACK_SIZE_def)

text \<open>The result of an opcode on a machine: the new stack, and the cursor behind its bytes.\<close>

definition steps_to ::
  "(bool \<times> 'c FIRCLSDwarfExpressionMachine) option \<Rightarrow> 'c FIRCLSDwarfExpressionMachine \<Rightarrow> u64 list \<Rightarrow> u64 \<Rightarrow> bool" where
  "steps_to r m st c \<longleftrightarrow> (\<exists>s. r = Some (True, m\<lparr>stack := s, dataCursor := c\<rparr>) \<and>
     stack_good s \<and> stack_values s = st)"

lemma steps_to_push:
  "holds m st \<Longrightarrow> length st < 100 \<Longrightarrow>
     steps_to (Some (FIRCLSDwarfExpressionMachineStackPush m v)) m (v # st) (dataCursor m)"
  using holds_push [of m st v] by (auto simp: steps_to_def holds_def)

lemma steps_to_stack: "steps_to r (m\<lparr>stack := s\<rparr>) st c \<Longrightarrow> steps_to r m st c"
  and steps_to_cursor: "steps_to r (m\<lparr>dataCursor := d\<rparr>) st c \<Longrightarrow> steps_to r m st c"
  by (auto simp: steps_to_def)

section \<open>Each opcode refines its step\<close>

lemma refines_binary:
  assumes "holds m (a # b # st)"
  shows "steps_to (FIRCLSDwarfExpressionMachineExecute_and m) m ((a AND b) # st) (dataCursor m)"
    and "c_sadd a b = Some v \<Longrightarrow> steps_to (FIRCLSDwarfExpressionMachineExecute_plus m) m (v # st) (dataCursor m)"
    and "steps_to (FIRCLSDwarfExpressionMachineExecute_ne m) m ((if a \<noteq> b then 1 else 0) # st) (dataCursor m)"
    and "steps_to (FIRCLSDwarfExpressionMachineExecute_swap m) m (b # a # st) (dataCursor m)"
proof -
  obtain s1 where s1: "FIRCLSDwarfExpressionMachineStackPop m = (a, m\<lparr>stack := s1\<rparr>)"
      "holds (m\<lparr>stack := s1\<rparr>) (b # st)"
    using holds_pop [OF assms] by blast
  then obtain s2 where s2: "FIRCLSDwarfExpressionMachineStackPop (m\<lparr>stack := s1\<rparr>) = (b, m\<lparr>stack := s2\<rparr>)"
      "holds (m\<lparr>stack := s2\<rparr>) st"
    using holds_pop [OF s1(2)] by auto
  have room: "length st < 99" using holds_bound [OF assms] by simp
  have push: "steps_to (Some (FIRCLSDwarfExpressionMachineStackPush (m\<lparr>stack := s2\<rparr>) v)) m (v # st) (dataCursor m)" for v
    using steps_to_stack [OF steps_to_push [OF s2(2)]] room by simp
  show "steps_to (FIRCLSDwarfExpressionMachineExecute_and m) m ((a AND b) # st) (dataCursor m)"
    and "c_sadd a b = Some v \<Longrightarrow> steps_to (FIRCLSDwarfExpressionMachineExecute_plus m) m (v # st) (dataCursor m)"
    and "steps_to (FIRCLSDwarfExpressionMachineExecute_ne m) m ((if a \<noteq> b then 1 else 0) # st) (dataCursor m)"
    using push by (simp_all add: opcode_defs s1 s2)
  obtain s3 where s3: "FIRCLSDwarfExpressionMachineStackPush (m\<lparr>stack := s2\<rparr>) a = (True, m\<lparr>stack := s3\<rparr>)"
      "holds (m\<lparr>stack := s3\<rparr>) (a # st)"
    using holds_push [OF s2(2), of a] room by auto
  show "steps_to (FIRCLSDwarfExpressionMachineExecute_swap m) m (b # a # st) (dataCursor m)"
    using steps_to_stack [OF steps_to_push [OF s3(2), of b]] room
    by (simp add: opcode_defs s1 s2 s3)
qed

lemma refines_dup:
  "holds m (v # st) \<Longrightarrow> length st < 99 \<Longrightarrow>
     steps_to (FIRCLSDwarfExpressionMachineExecute_dup m) m (v # v # st) (dataCursor m)"
  using steps_to_push [of m "v # st" v] by (simp add: opcode_defs holds_peek)

lemma refines_deref:
  assumes "holds m (v # st)" and "FIRCLSReadWord env v = Some w"
  shows "steps_to (FIRCLSDwarfExpressionMachineExecute_deref env m) m (w # st) (dataCursor m)"
proof -
  obtain s where s: "FIRCLSDwarfExpressionMachineStackPop m = (v, m\<lparr>stack := s\<rparr>)" "holds (m\<lparr>stack := s\<rparr>) st"
    using holds_pop [OF assms(1)] by blast
  have "length st < 100" using holds_bound [OF assms(1)] by simp
  from steps_to_stack [OF steps_to_push [OF s(2) this]] show ?thesis
    by (simp add: opcode_defs s assms(2))
qed

lemma refines_plus_uconst:
  assumes "holds m (v # st)" and "FIRCLSParseULEB128AndAdvance env (dataCursor m) = Some (n, c)"
  shows "steps_to (FIRCLSDwarfExpressionMachineExecute_plus_uconst env m) m ((v + n) # st) c"
proof -
  obtain s where s: "FIRCLSDwarfExpressionMachineStackPop m = (v, m\<lparr>stack := s\<rparr>)" "holds (m\<lparr>stack := s\<rparr>) st"
    using holds_pop [OF assms(1)] by blast
  have "length st < 100" using holds_bound [OF assms(1)] by simp
  with steps_to_push [of "m\<lparr>stack := s, dataCursor := c\<rparr>" st "v + n"] s(2) show ?thesis
    by (simp add: opcode_defs s assms(2)) (metis steps_to_cursor steps_to_stack)
qed

lemma le_word_ucast:
  assumes "length bs * 8 \<le> LENGTH('a)" and "LENGTH('a) \<le> 64"
  shows "(ucast (le_word bs :: 'a::len word) :: u64) = le_word bs"
proof -
  have "le_nat bs < 2 ^ (8 * length bs)" using le_nat_bound [of bs] by (simp add: power_mult)
  also have "(2::nat) ^ (8 * length bs) \<le> 2 ^ LENGTH('a)"
    using assms(1) by (intro power_increasing) auto
  finally have "unat (le_word bs :: 'a word) = le_nat bs"
    by (simp add: le_word_def unat_of_nat)
  then show ?thesis by (metis le_word_def of_nat_unat)
qed

lemma refines_deref_size:
  assumes "holds m (v # st)" and "mem env (dataCursor m) = Some (of_nat k)"
    and "k = 1 \<or> k = 2 \<or> k = 4 \<or> k = 8" and "load env v k = Some bs"
  shows "steps_to (FIRCLSDwarfExpressionMachineExecute_deref_size env m) m (le_word bs # st)
           (dataCursor m + 1)"
proof -
  obtain s where s: "FIRCLSDwarfExpressionMachineStackPop m = (v, m\<lparr>stack := s\<rparr>)" "holds (m\<lparr>stack := s\<rparr>) st"
    using holds_pop [OF assms(1)] by blast
  have "length st < 100" using holds_bound [OF assms(1)] by simp
  with steps_to_push [of "m\<lparr>stack := s, dataCursor := dataCursor m + 1\<rparr>" st "le_word bs"] s(2)
  have push: "steps_to (Some (FIRCLSDwarfExpressionMachineStackPush
      (m\<lparr>stack := s, dataCursor := dataCursor m + 1\<rparr>) (le_word bs))) m (le_word bs # st) (dataCursor m + 1)"
    by simp (metis steps_to_cursor steps_to_stack)
  have len: "length bs = k" using load_length [OF assms(4)] .
  have size: "FIRCLSParseUint8AndAdvance env (dataCursor m) = Some (of_nat k, dataCursor m + 1)"
    using assms(2) by (simp add: ParseUint8_byte)
  from assms(3) show ?thesis
  proof (elim disjE)
    assume "k = 1"
    then show ?thesis using push len assms(4) size parse_loaded(1) [of env v bs]
      by (simp add: opcode_defs s Let_def le_word_ucast del: load.simps)
  next
    assume "k = 2"
    then show ?thesis using push len assms(4) size parse_loaded(2) [of env v bs]
      by (simp add: opcode_defs s Let_def le_word_ucast)
  next
    assume "k = 4"
    then show ?thesis using push len assms(4) size parse_loaded(3) [of env v bs]
      by (simp add: opcode_defs s Let_def le_word_ucast)
  next
    assume "k = 8"
    then show ?thesis using push len assms(4) size parse_loaded(4) [of env v bs]
      by (simp add: opcode_defs s Let_def)
  qed
qed

section \<open>One step\<close>

lemma dw_push_Some: "dw_push v st = Some st' \<longleftrightarrow> length st < 100 \<and> st' = v # st"
  by (auto simp: dw_push_def)

text \<open>The dispatch of \<open>ExecuteNextOpcode\<close> on the opcode byte of an encoded operation.\<close>

lemma dispatch_single:
  assumes "bytes_at env (dataCursor m) (dw_encode i)"
  defines "m1 \<equiv> m\<lparr>dataCursor := dataCursor m + 1\<rparr>"
  shows "i = DW_deref \<Longrightarrow> FIRCLSDwarfExpressionMachineExecuteNextOpcode env ops m =
           FIRCLSDwarfExpressionMachineExecute_deref env m1"
    and "i = DW_dup \<Longrightarrow> FIRCLSDwarfExpressionMachineExecuteNextOpcode env ops m =
           FIRCLSDwarfExpressionMachineExecute_dup m1"
    and "i = DW_and \<Longrightarrow> FIRCLSDwarfExpressionMachineExecuteNextOpcode env ops m =
           FIRCLSDwarfExpressionMachineExecute_and m1"
    and "i = DW_plus \<Longrightarrow> FIRCLSDwarfExpressionMachineExecuteNextOpcode env ops m =
           FIRCLSDwarfExpressionMachineExecute_plus m1"
    and "i = DW_swap \<Longrightarrow> FIRCLSDwarfExpressionMachineExecuteNextOpcode env ops m =
           FIRCLSDwarfExpressionMachineExecute_swap m1"
    and "i = DW_plus_uconst n \<Longrightarrow> FIRCLSDwarfExpressionMachineExecuteNextOpcode env ops m =
           FIRCLSDwarfExpressionMachineExecute_plus_uconst env m1"
    and "i = DW_ne \<Longrightarrow> FIRCLSDwarfExpressionMachineExecuteNextOpcode env ops m =
           FIRCLSDwarfExpressionMachineExecute_ne m1"
    and "i = DW_deref_size k \<Longrightarrow> FIRCLSDwarfExpressionMachineExecuteNextOpcode env ops m =
           FIRCLSDwarfExpressionMachineExecute_deref_size env m1"
  using assms(1)
  by (simp_all add: FIRCLSDwarfExpressionMachineExecuteNextOpcode_def ParseUint8_byte m1_def)

lemma lit_range: "n < 32 \<Longrightarrow> (0x30 :: u8) \<le> of_nat (0x30 + n) \<and> (of_nat (0x30 + n) :: u8) \<le> 0x4F"
  and breg_range: "n < 32 \<Longrightarrow> (0x70 :: u8) \<le> of_nat (0x70 + n) \<and> (of_nat (0x70 + n) :: u8) \<le> 0x8F"
  by (simp_all add: word_le_nat_alt unat_of_nat del: of_nat_add)

lemma dispatch_lit:
  assumes "n < 32" and "mem env (dataCursor m) = Some (of_nat (0x30 + n))"
  shows "FIRCLSDwarfExpressionMachineExecuteNextOpcode env ops m =
           FIRCLSDwarfExpressionMachineExecute_litN (m\<lparr>dataCursor := dataCursor m + 1\<rparr>) (of_nat (0x30 + n))"
proof -
  define b where "b = (of_nat (0x30 + n) :: u8)"
  have "unat b = 48 + n" using assms(1) by (simp add: b_def unat_of_nat del: of_nat_add)
  then have "b \<noteq> 6" "b \<noteq> 0x12" "b \<noteq> 0x1A" "b \<noteq> 0x22" "b \<noteq> 0x16" "b \<noteq> 0x23" "b \<noteq> 0x2E" by auto
  with lit_range [OF assms(1)] assms(2) show ?thesis
    unfolding b_def [symmetric]
    by (simp add: FIRCLSDwarfExpressionMachineExecuteNextOpcode_def ParseUint8_byte)
qed

lemma dispatch_breg:
  assumes "n < 32" and "mem env (dataCursor m) = Some (of_nat (0x70 + n))"
  shows "FIRCLSDwarfExpressionMachineExecuteNextOpcode env ops m =
           FIRCLSDwarfExpressionMachineExecute_bregN env ops (m\<lparr>dataCursor := dataCursor m + 1\<rparr>) (of_nat (0x70 + n))"
proof -
  define b where "b = (of_nat (0x70 + n) :: u8)"
  have u: "unat b = 112 + n" using assms(1) by (simp add: b_def unat_of_nat del: of_nat_add)
  then have "b \<noteq> 6" "b \<noteq> 0x12" "b \<noteq> 0x1A" "b \<noteq> 0x22" "b \<noteq> 0x16" "b \<noteq> 0x23" "b \<noteq> 0x2E" by auto
  moreover have "\<not> b \<le> 0x4F" using u by (simp add: word_le_nat_alt)
  ultimately show ?thesis
    using breg_range [OF assms(1)] assms(2) unfolding b_def [symmetric]
    by (simp add: FIRCLSDwarfExpressionMachineExecuteNextOpcode_def ParseUint8_byte)
qed

lemma refines_lit:
  assumes "holds m st" and "length st < 100" and "n < 32"
    and "mem env (dataCursor m) = Some (of_nat (0x30 + n))"
  shows "steps_to (FIRCLSDwarfExpressionMachineExecuteNextOpcode env ops m) m (of_nat n # st) (dataCursor m + 1)"
proof -
  have "(of_nat (0x30 + n) - 0x30 :: u8) = of_nat n" by simp
  moreover have "(ucast (of_nat n :: u8) :: u64) = of_nat n"
    using assms(3) by (simp add: unsigned_of_nat take_bit_nat_eq_self)
  ultimately show ?thesis
    using steps_to_cursor [OF steps_to_push [of "m\<lparr>dataCursor := dataCursor m + 1\<rparr>" st "of_nat n"]] assms(1,2)
    unfolding dispatch_lit [OF assms(3,4)] by (simp add: opcode_defs)
qed

lemma refines_breg:
  assumes "holds m st" and "length st < 100" and "n < 32" and "n \<le> MAX_REGISTER_NUM ops"
    and "mem env (dataCursor m) = Some (of_nat (0x70 + n))"
    and "FIRCLSParseLEB128AndAdvance env (dataCursor m + 1) = Some (off, c)"
  shows "steps_to (FIRCLSDwarfExpressionMachineExecuteNextOpcode env ops m) m
           ((GetRegisterValue ops (registers m) (of_nat n) + off) # st) c"
proof -
  have b: "(of_nat (0x70 + n) - 0x70 :: u8) = of_nat n" by simp
  have u: "unat (of_nat n :: u8) = n" "(ucast (of_nat n :: u8) :: u64) = of_nat n"
    using assms(3) by (simp_all add: unsigned_of_nat take_bit_nat_eq_self unat_of_nat)
  have "steps_to (Some (FIRCLSDwarfExpressionMachineStackPush (m\<lparr>dataCursor := c\<rparr>) v)) m (v # st) c" for v
    using steps_to_cursor [OF steps_to_push [of "m\<lparr>dataCursor := c\<rparr>" st v]] assms(1,2) by simp
  then show ?thesis
    unfolding dispatch_breg [OF assms(3,5)] using assms(4,6)
    by (simp add: opcode_defs Let_def b u del: of_nat_add)
qed

lemma step_refines:
  assumes "bytes_at env (dataCursor m) (dw_encode i)" and "dw_wf ops i" and "holds m st"
    and "dw_step env ops (registers m) i st = Some st'"
  shows "steps_to (FIRCLSDwarfExpressionMachineExecuteNextOpcode env ops m) m st'
           (dataCursor m + of_nat (length (dw_encode i)))"
proof -
  let ?m = "m\<lparr>dataCursor := dataCursor m + 1\<rparr>"
  have h: "holds ?m st" using assms(3) by simp
  note at_next = steps_to_cursor [where d = "dataCursor m + 1"]
  note dispatch = dispatch_single [OF assms(1), where ops = ops]
  show ?thesis
  proof (cases i)
    case (DW_breg n off)
    then have b: "mem env (dataCursor m) = Some (of_nat (0x70 + n))" "bytes_at env (dataCursor m + 1) (sleb128_encode off)"
      using assms(1) by simp_all
    from DW_breg assms(2) have wf: "n \<le> MAX_REGISTER_NUM ops" "n < 32" "- (2 ^ 27) \<le> off" "off < 2 ^ 31" by simp_all
    have "FIRCLSParseLEB128AndAdvance env (dataCursor m + 1) =
        Some (of_int off, dataCursor m + 1 + of_nat (length (sleb128_encode off)))"
      using ParseLEB128_encode [OF b(2)] wf(3,4) by simp
    from refines_breg [OF assms(3) _ wf(2,1) b(1) this] assms(4) DW_breg show ?thesis
      by (simp add: dw_push_Some add.assoc)
  next
    case (DW_lit n)
    with assms show ?thesis using refines_lit [of m st n env ops] by (simp add: dw_push_Some)
  next
    case DW_dup
    with assms(4) obtain v s where "st = v # s" "length s < 99" "st' = v # v # s"
      by (cases st) (auto simp: dw_push_Some)
    with at_next [OF refines_dup [of ?m v s]] h DW_dup dispatch(2) show ?thesis by simp
  next
    case DW_deref
    with assms(4) obtain v s w where "st = v # s" "FIRCLSReadWord env v = Some w" "st' = w # s"
      by (cases st) (auto simp: bind_eq_Some_conv)
    with at_next [OF refines_deref [of ?m v s env w]] h DW_deref dispatch(1) show ?thesis by simp
  next
    case (DW_plus_uconst n)
    with assms(4) obtain v s where st: "st = v # s" "st' = (v + of_nat n) # s" by (cases st) auto
    from DW_plus_uconst assms(1,2) have "FIRCLSParseULEB128AndAdvance env (dataCursor ?m) =
        Some (of_nat n, dataCursor m + 1 + of_nat (length (uleb128_encode n)))"
      using ParseULEB128_encode [of env "dataCursor m + 1" n] by simp
    from at_next [OF refines_plus_uconst [OF _ this, of v s]] h st DW_plus_uconst dispatch(6)
    show ?thesis by (simp add: add.assoc)
  next
    case (DW_deref_size k)
    with assms(4) obtain v s bs where st: "st = v # s" "load env v k = Some bs" "st' = le_word bs # s"
      by (cases st) (auto simp: bind_eq_Some_conv)
    from DW_deref_size assms(1,2) have "mem env (dataCursor ?m) = Some (of_nat k)" "k = 1 \<or> k = 2 \<or> k = 4 \<or> k = 8"
      by simp_all
    from at_next [OF refines_deref_size [OF _ this st(2), of s]] h st DW_deref_size dispatch(8)
    show ?thesis by (simp add: add.assoc)
  next
    case DW_and
    with assms(4) obtain a b s where "st = a # b # s" "st' = (a AND b) # s"
      by (cases st rule: remdups_adj.cases) auto
    with at_next [OF refines_binary(1) [of ?m a b s]] h DW_and dispatch(3) show ?thesis by simp
  next
    case DW_plus
    with assms(4) obtain a b s v where "st = a # b # s" "c_sadd a b = Some v" "st' = v # s"
      by (cases st rule: remdups_adj.cases) (auto simp: bind_eq_Some_conv)
    with at_next [OF refines_binary(2) [of ?m a b s v]] h DW_plus dispatch(4) show ?thesis by simp
  next
    case DW_ne
    with assms(4) obtain a b s where "st = a # b # s" "st' = (if a \<noteq> b then 1 else 0) # s"
      by (cases st rule: remdups_adj.cases) auto
    with at_next [OF refines_binary(3) [of ?m a b s]] h DW_ne dispatch(7) show ?thesis by simp
  next
    case DW_swap
    with assms(4) obtain a b s where "st = a # b # s" "st' = b # a # s"
      by (cases st rule: remdups_adj.cases) auto
    with at_next [OF refines_binary(4) [of ?m a b s]] h DW_swap dispatch(5) show ?thesis by simp
  qed
qed

section \<open>A whole expression\<close>

abbreviation dw_code :: "dw_op list \<Rightarrow> u8 list" where
  "dw_code is \<equiv> concat (map dw_encode is)"

lemma dw_encode_nonempty [simp]: "0 < length (dw_encode i)"
  by (cases i) simp_all

lemma dw_encode_not_Nil [simp]: "dw_encode i \<noteq> []"
  by (cases i) simp_all

lemma uleb128_encode_nonempty [simp]: "0 < length (uleb128_encode n)"
  by (simp add: uleb128_encode.simps [of n])

lemma not_finished:
  assumes "holds m st" and "4096 \<le> unat (dataCursor m)" and "unat (dataCursor m) < unat (endAddress m)"
  shows "\<not> FIRCLSDwarfExpressionMachineIsFinished m"
  using assms
  by (simp add: FIRCLSDwarfExpressionMachineIsFinished_def FIRCLSIsValidPointer_def holds_def
      stack_good_def word_le_nat_alt)

lemma finished_at_end:
  "dataCursor m = endAddress m \<Longrightarrow> FIRCLSDwarfExpressionMachineIsFinished m"
  by (simp add: FIRCLSDwarfExpressionMachineIsFinished_def)

lemma loop_refines:
  assumes "bytes_at env (dataCursor m) (dw_code is)" and "\<forall>i \<in> set is. dw_wf ops i"
    and "holds m st" and "dw_run env ops (registers m) is st = Some st'"
    and "4096 \<le> unat (dataCursor m)" and "unat (dataCursor m) + length (dw_code is) < 2 ^ 64"
    and "endAddress m = dataCursor m + of_nat (length (dw_code is))"
  shows "\<exists>m'. evaluate_loop env ops m = Some (True, m') \<and> holds m' st' \<and> dataCursor m' = endAddress m'"
  using assms
proof (induction "is" arbitrary: m st)
  case Nil
  then show ?case
    by (subst evaluate_loop.simps) (simp add: finished_at_end)
next
  case (Cons i "is")
  from Cons.prems(4) obtain st1 where st1: "dw_step env ops (registers m) i st = Some st1"
      "dw_run env ops (registers m) is st1 = Some st'"
    by (auto simp: bind_eq_Some_conv)
  define c1 where "c1 = dataCursor m + of_nat (length (dw_encode i))"
  have bytes: "bytes_at env (dataCursor m) (dw_encode i)" "bytes_at env c1 (dw_code is)"
    using Cons.prems(1) by (simp_all add: bytes_at_append c1_def)
  have u1: "unat c1 = unat (dataCursor m) + length (dw_encode i)"
    using Cons.prems(6) by (simp add: c1_def unat_add_no_wrap)
  have uend: "unat (endAddress m) = unat (dataCursor m) + length (dw_code (i # is))"
    using Cons.prems(6) unfolding Cons.prems(7) by (intro unat_add_no_wrap)
  have "dw_wf ops i" using Cons.prems(2) by simp
  from step_refines [OF bytes(1) this Cons.prems(3) st1(1)]
  obtain s where s: "FIRCLSDwarfExpressionMachineExecuteNextOpcode env ops m =
      Some (True, m\<lparr>stack := s, dataCursor := c1\<rparr>)" "stack_good s" "stack_values s = st1"
    by (auto simp: steps_to_def c1_def)
  have "\<not> FIRCLSDwarfExpressionMachineIsFinished m"
    using not_finished [OF Cons.prems(3,5)] uend by simp
  then have "evaluate_loop env ops m = evaluate_loop env ops (m\<lparr>stack := s, dataCursor := c1\<rparr>)"
    by (subst evaluate_loop.simps) (simp add: s(1))
  moreover have "endAddress m = c1 + of_nat (length (dw_code is))"
    by (simp add: Cons.prems(7) c1_def add.assoc)
  ultimately show ?case
    using Cons.IH [of "m\<lparr>stack := s, dataCursor := c1\<rparr>" st1] bytes(2) Cons.prems(2,5,6) s(2,3) st1(2) u1
    by (simp add: holds_def)
qed

lemma init_holds:
  "FIRCLSIsValidPointer c \<Longrightarrow>
     \<exists>s. FIRCLSDwarfExpressionMachineInit c r v =
         (True, \<lparr>stack = s, dataCursor = c, endAddress = 0, registers = r\<rparr>) \<and>
       stack_good s \<and> stack_values s = [v]"
  using expr_stack.push_room [OF expr_stack.good_empty(1), of v] expr_stack.good_empty(2)
  by (simp add: FIRCLSDwarfExpressionMachineInit_def case_prod_unfold Let_def
      CLS_DWARF_EXPRESSION_STACK_SIZE_def)

lemma GetResult_top:
  "dataCursor m = endAddress m \<Longrightarrow> holds m (v # st) \<Longrightarrow> FIRCLSDwarfExpressionMachineGetResult m r0 = (True, v)"
  by (simp add: FIRCLSDwarfExpressionMachineGetResult_def holds_peek) (simp add: holds_def stack_good_def)

lemma evaluate_code:
  assumes "bytes_at env c (uleb128_encode (length (dw_code is)) @ dw_code is)"
    and "is \<noteq> []" and "length (dw_code is) < 2 ^ 31" and "\<forall>i \<in> set is. dw_wf ops i"
    and "FIRCLSIsValidPointer c"
    and "unat c + length (uleb128_encode (length (dw_code is)) @ dw_code is) < 2 ^ 64"
    and "dw_run env ops r is [v0] = Some (res # st)"
  shows "FIRCLSDwarfEvalulateExpression env ops c r v0 r0 = Some (True, res)"
proof -
  let ?n = "length (dw_code is)"
  define c1 where "c1 = c + of_nat (length (uleb128_encode ?n))"
  obtain i is' where "is = i # is'" using assms(2) by (cases "is") auto
  then have pos: "0 < ?n" using dw_encode_nonempty [of i] by simp
  have bytes: "bytes_at env c (uleb128_encode ?n)" "bytes_at env c1 (dw_code is)"
    using assms(1) by (simp_all only: bytes_at_append c1_def)
  have u: "unat c1 = unat c + length (uleb128_encode ?n)"
    using assms(6) by (simp add: c1_def unat_add_no_wrap)
  have nz: "(of_nat ?n :: u64) \<noteq> 0"
  proof
    assume "(of_nat ?n :: u64) = 0"
    then have "unat (of_nat ?n :: u64) = 0" by simp
    with pos assms(3) show False by (simp add: unat_of_nat)
  qed
  obtain s where s: "FIRCLSDwarfExpressionMachineInit c r v0 =
      (True, \<lparr>stack = s, dataCursor = c, endAddress = 0, registers = r\<rparr>)"
      "stack_good s" "stack_values s = [v0]"
    using init_holds [OF assms(5), of r v0] by (elim exE conjE) (rule that)
  let ?m = "\<lparr>stack = s, dataCursor = c1, endAddress = c1 + of_nat ?n, registers = r\<rparr>"
  have prep: "FIRCLSDwarfExpressionMachinePrepareForExecution env
      \<lparr>stack = s, dataCursor = c, endAddress = 0, registers = r\<rparr> = Some (True, ?m)"
    using ParseULEB128_encode [OF bytes(1)] assms(3) nz
    by (simp add: FIRCLSDwarfExpressionMachinePrepareForExecution_def c1_def)
  have "4096 \<le> unat c" using assms(5) by (simp add: FIRCLSIsValidPointer_def word_le_nat_alt)
  then obtain m' where "evaluate_loop env ops ?m = Some (True, m')" "holds m' (res # st)"
      "dataCursor m' = endAddress m'"
    using loop_refines [of env ?m "is" ops "[v0]" "res # st"] bytes(2) assms(4,6,7) s(2,3) u
    by (auto simp: holds_def)
  then show ?thesis
    using assms(5) by (simp add: FIRCLSDwarfEvalulateExpression_def s(1) prep GetResult_top)
qed

section \<open>Safety of the stack\<close>

lemma push_true_good:
  "stack_good s \<or> stack_poisoned s \<Longrightarrow> fst (FIRCLSDwarfExpressionStackPush s v) \<Longrightarrow>
     stack_good (snd (FIRCLSDwarfExpressionStackPush s v))"
  using expr_stack.push_ok_iff [of s v] expr_stack.push_room [of s v] expr_stack.poison_push [of s v]
  by auto

definition stack_safe :: "'c FIRCLSDwarfExpressionMachine \<Rightarrow> bool" where
  "stack_safe m \<longleftrightarrow> stack_good (stack m) \<or> stack_poisoned (stack m)"

lemma safe_pop: "stack_safe m \<Longrightarrow> stack_safe (snd (FIRCLSDwarfExpressionMachineStackPop m))"
  using expr_stack.good_or_poisoned_pop [of "stack m"]
  by (simp add: stack_safe_def machine_stack_defs case_prod_unfold Let_def)

lemma safe_cursor [simp]: "stack_safe (m\<lparr>dataCursor := c\<rparr>) \<longleftrightarrow> stack_safe m"
  by (simp add: stack_safe_def)

lemma safe_push:
  assumes "stack_safe m"
  shows "stack_safe (snd (FIRCLSDwarfExpressionMachineStackPush m v))"
    and "fst (FIRCLSDwarfExpressionMachineStackPush m v) \<Longrightarrow>
           stack_good (stack (snd (FIRCLSDwarfExpressionMachineStackPush m v)))"
  using assms expr_stack.good_or_poisoned_push [of "stack m" v] push_true_good [of "stack m" v]
  by (simp_all add: stack_safe_def machine_stack_defs case_prod_unfold Let_def)

lemma safe_peek: "stack_safe m \<Longrightarrow> stack_safe (m\<lparr>stack := snd (FIRCLSDwarfExpressionStackPeek (stack m))\<rparr>)"
  using expr_stack.good_or_poisoned_peek [of "stack m"] by (simp add: stack_safe_def)

definition outcome_safe :: "(bool \<times> 'c FIRCLSDwarfExpressionMachine) option \<Rightarrow> bool" where
  "outcome_safe r = (case r of None \<Rightarrow> True | Some (ok, m) \<Rightarrow> stack_safe m \<and> (ok \<longrightarrow> stack_good (stack m)))"

lemma outcome_safe_simps [simp]:
  "outcome_safe None"
  "stack_safe m \<Longrightarrow> outcome_safe (Some (False, m))"
  "stack_safe m \<Longrightarrow> outcome_safe (Some (FIRCLSDwarfExpressionMachineStackPush m v))"
  using safe_push [of m v] by (auto simp: outcome_safe_def split: prod.splits)

lemma outcome_safe_bind: "(\<And>x. r = Some x \<Longrightarrow> outcome_safe (f x)) \<Longrightarrow> outcome_safe (Option.bind r f)"
  by (cases r) simp_all

lemma opcode_safe:
  assumes "stack_safe m"
  shows "outcome_safe (FIRCLSDwarfExpressionMachineExecute_bregN env ops m opcode)"
    and "outcome_safe (FIRCLSDwarfExpressionMachineExecute_deref env m)"
    and "outcome_safe (FIRCLSDwarfExpressionMachineExecute_plus_uconst env m)"
    and "outcome_safe (FIRCLSDwarfExpressionMachineExecute_and m)"
    and "outcome_safe (FIRCLSDwarfExpressionMachineExecute_plus m)"
    and "outcome_safe (FIRCLSDwarfExpressionMachineExecute_ne m)"
    and "outcome_safe (FIRCLSDwarfExpressionMachineExecute_dup m)"
    and "outcome_safe (FIRCLSDwarfExpressionMachineExecute_swap m)"
    and "outcome_safe (FIRCLSDwarfExpressionMachineExecute_deref_size env m)"
    and "outcome_safe (FIRCLSDwarfExpressionMachineExecute_litN m opcode)"
  using assms safe_pop [OF assms] safe_pop [OF safe_pop [OF assms]] safe_peek [OF assms]
    safe_push(1) [OF safe_pop [OF safe_pop [OF assms]]]
  by (auto simp: opcode_defs case_prod_unfold Let_def intro!: outcome_safe_bind split: option.splits)

lemma ExecuteNextOpcode_safe:
  "stack_safe m \<Longrightarrow> outcome_safe (FIRCLSDwarfExpressionMachineExecuteNextOpcode env ops m)"
  unfolding FIRCLSDwarfExpressionMachineExecuteNextOpcode_def Let_def
  by (rule outcome_safe_bind) (auto simp: opcode_safe)

lemma evaluate_loop_safe:
  "stack_safe m \<Longrightarrow> outcome_safe (case evaluate_loop env ops m of None \<Rightarrow> None | Some (ok, m') \<Rightarrow> Some (False, m'))"
proof (induction env ops m rule: evaluate_loop.induct)
  case (1 env ops m)
  show ?case
  proof (cases "FIRCLSDwarfExpressionMachineIsFinished m")
    case False
    then show ?thesis
      using 1 ExecuteNextOpcode_safe [OF "1.prems", of env ops]
      by (subst evaluate_loop.simps) (auto simp: outcome_safe_def split: option.splits if_splits)
  qed (use 1 in \<open>subst evaluate_loop.simps, simp\<close>)
qed

end
