(* ===== verification/Cls_Dwarf_Unwind.thy ===== *)
theory Cls_Dwarf_Unwind
  imports Cls_Dwarf_Cfi Cls_Dwarf_Expr_Spec
begin

text \<open>
  The execution half of FIRCLSDwarfUnwind.c: the canonical frame address, the saved registers, and
  the new register file of the caller's frame.
\<close>

section \<open>Definitions\<close>

definition FIRCLSDwarfCompareRegisters :: "'c arch_ops \<Rightarrow> 'c \<Rightarrow> 'c \<Rightarrow> u64 \<Rightarrow> bool" where
  "FIRCLSDwarfCompareRegisters ops a b num \<longleftrightarrow> GetRegisterValue ops a num = GetRegisterValue ops b num"

definition FIRCLSDwarfGetCFA ::
  "cls_env \<Rightarrow> 'c arch_ops \<Rightarrow> FIRCLSDwarfState \<Rightarrow> 'c \<Rightarrow> u64 \<Rightarrow> (bool \<times> u64) option" where
  "FIRCLSDwarfGetCFA env ops st regs cfa =
    (if cfaExpression st \<noteq> 0 then FIRCLSDwarfEvalulateExpression env ops (cfaExpression st) regs 0 cfa
     else Some (True, GetRegisterValue ops regs (cfaRegister st) + cfaRegisterOffset st))"

definition FIRCLSDwarfGetSavedRegister ::
  "cls_env \<Rightarrow> 'c arch_ops \<Rightarrow> 'c \<Rightarrow> u64 \<Rightarrow> FIRCLSDwarfRegister \<Rightarrow> u64 option" where
  "FIRCLSDwarfGetSavedRegister env ops regs cfa d =
    (case location d of
       FIRCLSDwarfRegisterInCFA \<Rightarrow>
         (case FIRCLSReadWord env (cfa + reg_value d) of None \<Rightarrow> Some 0 | Some v \<Rightarrow> Some v)
     | FIRCLSDwarfRegisterInRegister \<Rightarrow> Some (GetRegisterValue ops regs (reg_value d))
     | FIRCLSDwarfRegisterAtExpression \<Rightarrow>
         (case FIRCLSDwarfEvalulateExpression env ops (reg_value d) regs cfa 0 of
            None \<Rightarrow> None
          | Some (ok, result) \<Rightarrow>
              if \<not> ok then Some 0
              else (case FIRCLSReadWord env result of None \<Rightarrow> Some 0 | Some v \<Rightarrow> Some v))
     | FIRCLSDwarfRegisterIsExpression \<Rightarrow>
         (case FIRCLSDwarfEvalulateExpression env ops (reg_value d) regs cfa 0 of
            None \<Rightarrow> None
          | Some (ok, result) \<Rightarrow> Some (if ok then result else 0))
     | _ \<Rightarrow> Some 0)"

text \<open>The loop over the register numbers of \<open>FIRCLSDwarfUnwindAssignRegisters\<close>.\<close>

primrec assign_loop ::
  "cls_env \<Rightarrow> 'c arch_ops \<Rightarrow> FIRCLSDwarfState \<Rightarrow> 'c \<Rightarrow> u64 \<Rightarrow> nat list \<Rightarrow> 'c \<Rightarrow> (bool \<times> 'c) option" where
  "assign_loop env ops st regs cfa [] new = Some (True, new)"
| "assign_loop env ops st regs cfa (i # is) new =
    (if location (saved st ! i) = FIRCLSDwarfRegisterUnused then assign_loop env ops st regs cfa is new
     else do {
       v \<leftarrow> FIRCLSDwarfGetSavedRegister env ops regs cfa (saved st ! i);
       let (ok, new) = SetRegisterValue ops new (of_nat i) v;
       (if \<not> ok then Some (False, new) else assign_loop env ops st regs cfa is new) })"

text \<open>The status and \<open>*outputRegisters\<close>, which is written only at the end.\<close>

definition FIRCLSDwarfUnwindAssignRegisters ::
  "cls_env \<Rightarrow> 'c arch_ops \<Rightarrow> FIRCLSDwarfState \<Rightarrow> 'c \<Rightarrow> u64 \<Rightarrow> 'c \<Rightarrow> (bool \<times> 'c) option" where
  "FIRCLSDwarfUnwindAssignRegisters env ops st regs cfa output = do {
     (ok, new) \<leftarrow> assign_loop env ops st regs cfa [0..<MAX_REGISTER_NUM ops + 1] regs;
     (if \<not> ok then Some (False, output)
      else let (ok, new) = SetRegisterValue ops new (of_nat (REG_SP ops)) cfa in
        if \<not> ok then Some (False, output)
        else if FIRCLSDwarfCompareRegisters ops regs new (of_nat (REG_SP ops)) then Some (False, output)
        else if FIRCLSDwarfCompareRegisters ops regs new (of_nat (REG_RETURN ops)) then Some (False, output)
        else Some (True, new)) }"

definition INTPTR_MAX :: u64 where
  "INTPTR_MAX = 0x7fffffffffffffff"

definition FIRCLSDwarfUnwindComputeRegisters ::
  "cls_env \<Rightarrow> 'c arch_ops \<Rightarrow> FIRCLSDwarfCFIRecord \<Rightarrow> 'c \<Rightarrow> (bool \<times> 'c) loop_result" where
  "FIRCLSDwarfUnwindComputeRegisters env ops record regs =
    (case FIRCLSDwarfInstructionsEnumerate env ops (cie_instructions (cie record)) (cie record)
            (zero_state ops) INTPTR_MAX of
       Out_of_fuel \<Rightarrow> Out_of_fuel
     | Faulted \<Rightarrow> Faulted
     | Returned (ok, st) \<Rightarrow>
        if \<not> ok then Returned (False, regs)
        else let pcOffset = GetPC ops regs - startAddress (fde record) in
          if sint pcOffset < 0 then Returned (False, regs)
          else (case FIRCLSDwarfInstructionsEnumerate env ops (fde_instructions (fde record)) (cie record)
                       st pcOffset of
             Out_of_fuel \<Rightarrow> Out_of_fuel
           | Faulted \<Rightarrow> Faulted
           | Returned (ok, st) \<Rightarrow>
              if \<not> ok then Returned (False, regs)
              else (case FIRCLSDwarfGetCFA env ops st regs 0 of
                 None \<Rightarrow> Faulted
               | Some (ok, cfa) \<Rightarrow>
                  if \<not> ok then Returned (False, regs)
                  else (case FIRCLSDwarfUnwindAssignRegisters env ops st regs cfa regs of
                     None \<Rightarrow> Faulted
                   | Some r \<Rightarrow> Returned r))))"

section \<open>The rules a frame description leaves\<close>

text \<open>
  The value a rule gives to a register, or \<open>None\<close> where the rules leave the register alone.
\<close>

definition restored :: "cls_env \<Rightarrow> 'c arch_ops \<Rightarrow> FIRCLSDwarfState \<Rightarrow> 'c \<Rightarrow> u64 \<Rightarrow> nat \<Rightarrow> u64 option" where
  "restored env ops st regs cfa i =
    (if location (saved st ! i) = FIRCLSDwarfRegisterUnused then None
     else FIRCLSDwarfGetSavedRegister env ops regs cfa (saved st ! i))"

text \<open>No rule of the state faults, which only an expression can.\<close>

definition rules_total :: "cls_env \<Rightarrow> 'c arch_ops \<Rightarrow> FIRCLSDwarfState \<Rightarrow> 'c \<Rightarrow> u64 \<Rightarrow> bool" where
  "rules_total env ops st regs cfa \<longleftrightarrow>
     (\<forall>i \<le> MAX_REGISTER_NUM ops. FIRCLSDwarfGetSavedRegister env ops regs cfa (saved st ! i) \<noteq> None)"

lemma rules_total_no_expression:
  assumes "\<forall>i \<le> MAX_REGISTER_NUM ops. location (saved st ! i) \<notin>
      {FIRCLSDwarfRegisterAtExpression, FIRCLSDwarfRegisterIsExpression}"
  shows "rules_total env ops st regs cfa"
  unfolding rules_total_def
proof (intro allI impI)
  fix i assume "i \<le> MAX_REGISTER_NUM ops"
  with assms show "FIRCLSDwarfGetSavedRegister env ops regs cfa (saved st ! i) \<noteq> None"
    by (cases "location (saved st ! i)")
      (auto simp: FIRCLSDwarfGetSavedRegister_def split: option.splits)
qed

context register_file
begin

lemma register_number: "i \<le> MAX_REGISTER_NUM ops \<Longrightarrow> unat (of_nat i :: u64) = i"
  by (rule unat_of_nat_u64) (use special_le(4) in simp)

lemma of_nat_register_eq:
  "i \<le> MAX_REGISTER_NUM ops \<Longrightarrow> j \<le> MAX_REGISTER_NUM ops \<Longrightarrow> (of_nat i :: u64) = of_nat j \<longleftrightarrow> i = j"
  using register_number by metis

lemma assign_loop_result:
  assumes "\<forall>i \<in> set is. i \<le> MAX_REGISTER_NUM ops" and "distinct is" and "wf new"
    and "\<forall>i \<in> set is. FIRCLSDwarfGetSavedRegister env ops regs cfa (saved st ! i) \<noteq> None"
  shows "\<exists>new'. assign_loop env ops st regs cfa is new = Some (True, new') \<and> wf new' \<and>
    (\<forall>j \<le> MAX_REGISTER_NUM ops. GetRegisterValue ops new' (of_nat j) =
       (if j \<in> set is \<and> restored env ops st regs cfa j \<noteq> None
        then norm j (the (restored env ops st regs cfa j))
        else GetRegisterValue ops new (of_nat j)))"
  using assms
proof (induction "is" arbitrary: new)
  case (Cons i "is")
  show ?case
  proof (cases "location (saved st ! i) = FIRCLSDwarfRegisterUnused")
    case True
    then have "restored env ops st regs cfa i = None" by (simp add: restored_def)
    note none = this
    obtain new' where new': "assign_loop env ops st regs cfa is new = Some (True, new')" "wf new'"
        "\<forall>j \<le> MAX_REGISTER_NUM ops. GetRegisterValue ops new' (of_nat j) =
          (if j \<in> set is \<and> restored env ops st regs cfa j \<noteq> None
           then norm j (the (restored env ops st regs cfa j))
           else GetRegisterValue ops new (of_nat j))"
      using Cons.IH [of new] Cons.prems by auto
    with none True show ?thesis by (intro exI [of _ new']) auto
  next
    case False
    with Cons.prems(4) obtain v where v: "FIRCLSDwarfGetSavedRegister env ops regs cfa (saved st ! i) = Some v"
      by auto
    with False have r: "restored env ops st regs cfa i = Some v" by (simp add: restored_def)
    define new1 where "new1 = snd (SetRegisterValue ops new (of_nat i) v)"
    have i: "i \<le> MAX_REGISTER_NUM ops" using Cons.prems(1) by simp
    have ok: "fst (SetRegisterValue ops new (of_nat i) v)" using i by (simp add: set_status register_number)
    have wf1: "wf new1" using Cons.prems(3) by (simp add: new1_def set_wf)
    have get1: "GetRegisterValue ops new1 (of_nat j) =
        (if j = i then norm i v else GetRegisterValue ops new (of_nat j))" if "j \<le> MAX_REGISTER_NUM ops" for j
      using get_set_same [OF Cons.prems(3), of "of_nat i" v] get_set_other [OF Cons.prems(3), of "of_nat j" "of_nat i" v]
        i that by (auto simp: new1_def register_number of_nat_register_eq)
    obtain new' where new': "assign_loop env ops st regs cfa is new1 = Some (True, new')" "wf new'"
        "\<forall>j \<le> MAX_REGISTER_NUM ops. GetRegisterValue ops new' (of_nat j) =
          (if j \<in> set is \<and> restored env ops st regs cfa j \<noteq> None
           then norm j (the (restored env ops st regs cfa j))
           else GetRegisterValue ops new1 (of_nat j))"
      using Cons.IH [OF _ _ wf1] Cons.prems by auto
    have "assign_loop env ops st regs cfa (i # is) new = Some (True, new')"
      using False v ok new'(1) by (simp add: new1_def case_prod_unfold Let_def)
    moreover have "i \<notin> set is" using Cons.prems(2) by simp
    ultimately show ?thesis using new' get1 r by auto
  qed
qed simp

text \<open>
  What a successful unwind step leaves in every register: the stack pointer is the CFA, a register
  with a rule has what the rule reads, and every other register is as it was.
\<close>

lemma assign_registers:
  assumes "wf regs" and "rules_total env ops st regs cfa"
    and "norm (REG_SP ops) cfa \<noteq> GetStackPointer ops regs"
    and "restored env ops st regs cfa (REG_RETURN ops) = Some ra"
    and "norm (REG_RETURN ops) ra \<noteq> GetRegisterValue ops regs (of_nat (REG_RETURN ops))"
    and "REG_RETURN ops \<noteq> REG_SP ops"
  shows "\<exists>new. FIRCLSDwarfUnwindAssignRegisters env ops st regs cfa output = Some (True, new) \<and> wf new \<and>
    (\<forall>j \<le> MAX_REGISTER_NUM ops. GetRegisterValue ops new (of_nat j) =
       (if j = REG_SP ops then norm j cfa
        else case restored env ops st regs cfa j of None \<Rightarrow> GetRegisterValue ops regs (of_nat j)
             | Some v \<Rightarrow> norm j v))"
proof -
  let ?is = "[0..<MAX_REGISTER_NUM ops + 1]"
  obtain new1 where n1: "assign_loop env ops st regs cfa ?is regs = Some (True, new1)" "wf new1"
      "\<forall>j \<le> MAX_REGISTER_NUM ops. GetRegisterValue ops new1 (of_nat j) =
        (if j \<in> set ?is \<and> restored env ops st regs cfa j \<noteq> None
         then norm j (the (restored env ops st regs cfa j)) else GetRegisterValue ops regs (of_nat j))"
    using assign_loop_result [of ?is regs env regs cfa st] assms(1,2)
    by (auto simp: rules_total_def simp del: upt_Suc)
  define new where "new = snd (SetRegisterValue ops new1 (of_nat (REG_SP ops)) cfa)"
  note sp = special_le(1) and ret = special_le(3)
  have ok: "fst (SetRegisterValue ops new1 (of_nat (REG_SP ops)) cfa)"
    using sp by (simp add: set_status register_number)
  have get: "GetRegisterValue ops new (of_nat j) =
      (if j = REG_SP ops then norm j cfa
       else case restored env ops st regs cfa j of None \<Rightarrow> GetRegisterValue ops regs (of_nat j)
            | Some v \<Rightarrow> norm j v)" if j: "j \<le> MAX_REGISTER_NUM ops" for j
    using get_set_same [OF n1(2), of "of_nat (REG_SP ops)" cfa] n1(3) j sp
      get_set_other [OF n1(2), of "of_nat j" "of_nat (REG_SP ops)" cfa]
    by (auto simp: new_def register_number of_nat_register_eq split: option.splits)
  have "\<not> FIRCLSDwarfCompareRegisters ops regs new (of_nat (REG_SP ops))"
    using assms(3) get [OF sp] by (simp add: FIRCLSDwarfCompareRegisters_def sp_register)
  moreover have "\<not> FIRCLSDwarfCompareRegisters ops regs new (of_nat (REG_RETURN ops))"
    using assms(4,5,6) get [OF ret] by (simp add: FIRCLSDwarfCompareRegisters_def)
  ultimately have "FIRCLSDwarfUnwindAssignRegisters env ops st regs cfa output = Some (True, new)"
    using n1(1) ok by (simp add: FIRCLSDwarfUnwindAssignRegisters_def new_def case_prod_unfold Let_def)
  then show ?thesis using get n1(2) by (auto simp: new_def set_wf)
qed

end

text \<open>A failing assignment leaves the output as it was; on any architecture.\<close>

lemma assign_registers_failed:
  "FIRCLSDwarfUnwindAssignRegisters env ops st regs cfa output = Some (False, r) \<Longrightarrow> r = output"
  by (auto simp: FIRCLSDwarfUnwindAssignRegisters_def bind_eq_Some_conv case_prod_unfold Let_def
      split: if_splits)

lemma ComputeRegisters_failed:
  "FIRCLSDwarfUnwindComputeRegisters env ops record regs = Returned (False, r) \<Longrightarrow> r = regs"
  by (auto simp: FIRCLSDwarfUnwindComputeRegisters_def Let_def dest: assign_registers_failed
      split: loop_result.splits option.splits if_splits prod.splits)

lemma ComputeRegisters_changes:
  "FIRCLSDwarfUnwindAssignRegisters env ops st regs cfa output = Some (True, new) \<Longrightarrow>
     GetRegisterValue ops new (of_nat (REG_SP ops)) \<noteq> GetRegisterValue ops regs (of_nat (REG_SP ops)) \<and>
     GetRegisterValue ops new (of_nat (REG_RETURN ops)) \<noteq> GetRegisterValue ops regs (of_nat (REG_RETURN ops))"
  by (auto simp: FIRCLSDwarfUnwindAssignRegisters_def FIRCLSDwarfCompareRegisters_def bind_eq_Some_conv
      case_prod_unfold Let_def split: if_splits)

end
