(* ===== verification/Cls_Dwarf_Cfi_Spec.thy ===== *)
theory Cls_Dwarf_Cfi_Spec
  imports Cls_Dwarf_Unwind
begin

text \<open>
  Call frame programs as lists of instructions, what the code does for each to the rules and the code
  offset, and the proof that \<open>FIRCLSDwarfInstructionsEnumerate\<close> on the assembled bytes does that, one
  instruction after the other. This is the code's own behaviour, its reading of \<open>CFA_advance_loc\<close> as the
  location included; what the standard says of a program is in Cls_Dwarf_Rows.
\<close>

datatype cfi_op =
    CFA_nop
  | CFA_advance_loc nat
  | CFA_advance_loc1 nat
  | CFA_advance_loc2 nat
  | CFA_advance_loc4 nat
  | CFA_def_cfa nat nat
  | CFA_def_cfa_register nat
  | CFA_def_cfa_offset nat
  | CFA_same_value nat
  | CFA_register nat nat
  | CFA_offset nat nat
  | CFA_expression nat "u8 list"
  | CFA_val_expression nat "u8 list"
  | CFA_def_cfa_expression "u8 list"

definition block_encode :: "u8 list \<Rightarrow> u8 list" where
  "block_encode bs = uleb128_encode (length bs) @ bs"

fun cfi_encode :: "cfi_op \<Rightarrow> u8 list" where
  "cfi_encode CFA_nop = [0x00]"
| "cfi_encode (CFA_advance_loc d) = [of_nat (0x40 + d)]"
| "cfi_encode (CFA_advance_loc1 d) = 0x02 # le_bytes 1 d"
| "cfi_encode (CFA_advance_loc2 d) = 0x03 # le_bytes 2 d"
| "cfi_encode (CFA_advance_loc4 d) = 0x04 # le_bytes 4 d"
| "cfi_encode (CFA_def_cfa n off) = 0x0C # uleb128_encode n @ uleb128_encode off"
| "cfi_encode (CFA_def_cfa_register n) = 0x0D # uleb128_encode n"
| "cfi_encode (CFA_def_cfa_offset off) = 0x0E # uleb128_encode off"
| "cfi_encode (CFA_same_value n) = 0x08 # uleb128_encode n"
| "cfi_encode (CFA_register n m) = 0x09 # uleb128_encode n @ uleb128_encode m"
| "cfi_encode (CFA_offset n off) = of_nat (0x80 + n) # uleb128_encode off"
| "cfi_encode (CFA_expression n bs) = 0x10 # uleb128_encode n @ block_encode bs"
| "cfi_encode (CFA_val_expression n bs) = 0x16 # uleb128_encode n @ block_encode bs"
| "cfi_encode (CFA_def_cfa_expression bs) = 0x0F # block_encode bs"

fun cfi_op_wf :: "'c arch_ops \<Rightarrow> cfi_op \<Rightarrow> bool" where
  "cfi_op_wf ops CFA_nop = True"
| "cfi_op_wf ops (CFA_advance_loc d) = (d < 64)"
| "cfi_op_wf ops (CFA_advance_loc1 d) = (d < 2 ^ 8)"
| "cfi_op_wf ops (CFA_advance_loc2 d) = (d < 2 ^ 16)"
| "cfi_op_wf ops (CFA_advance_loc4 d) = (d < 2 ^ 32)"
| "cfi_op_wf ops (CFA_def_cfa n off) = (n \<le> MAX_REGISTER_NUM ops \<and> off < 2 ^ 31)"
| "cfi_op_wf ops (CFA_def_cfa_register n) = (n \<le> MAX_REGISTER_NUM ops)"
| "cfi_op_wf ops (CFA_def_cfa_offset off) = (off < 2 ^ 31)"
| "cfi_op_wf ops (CFA_same_value n) = (n \<le> MAX_REGISTER_NUM ops)"
| "cfi_op_wf ops (CFA_register n m) = (n \<le> MAX_REGISTER_NUM ops \<and> m \<le> MAX_REGISTER_NUM ops)"
| "cfi_op_wf ops (CFA_offset n off) = (n \<le> MAX_REGISTER_NUM ops \<and> off < 2 ^ 31)"
| "cfi_op_wf ops (CFA_expression n bs) = (n \<le> MAX_REGISTER_NUM ops \<and> length bs < 2 ^ 31)"
| "cfi_op_wf ops (CFA_val_expression n bs) = (n \<le> MAX_REGISTER_NUM ops \<and> length bs < 2 ^ 31)"
| "cfi_op_wf ops (CFA_def_cfa_expression bs) = (length bs < 2 ^ 31)"

text \<open>
  The effect the code gives an instruction whose operands start at address \<open>a\<close> on the rules and the code
  offset. Only a signed overflow of the offset is undefined.
\<close>

fun cfi_apply :: "'c arch_ops \<Rightarrow> DWARFCIERecord \<Rightarrow> u64 \<Rightarrow> cfi_op \<Rightarrow> FIRCLSDwarfState \<times> u64 \<Rightarrow>
    (FIRCLSDwarfState \<times> u64) option" where
  "cfi_apply ops r a CFA_nop (st, off) = Some (st, off)"
| "cfi_apply ops r a (CFA_advance_loc d) (st, off) =
     map_option (\<lambda>o'. (st, o')) (c_smul (of_nat d) (codeAlignFactor r))"
| "cfi_apply ops r a (CFA_advance_loc1 d) (st, off) =
     map_option (\<lambda>o'. (st, o')) (c_sadd off (of_nat d * codeAlignFactor r))"
| "cfi_apply ops r a (CFA_advance_loc2 d) (st, off) =
     map_option (\<lambda>o'. (st, o')) (c_sadd off (of_nat d * codeAlignFactor r))"
| "cfi_apply ops r a (CFA_advance_loc4 d) (st, off) =
     map_option (\<lambda>o'. (st, o')) (c_sadd off (of_nat d * codeAlignFactor r))"
| "cfi_apply ops r a (CFA_def_cfa n v) (st, off) =
     Some (st\<lparr>cfaRegister := of_nat n, cfaRegisterOffset := of_nat v\<rparr>, off)"
| "cfi_apply ops r a (CFA_def_cfa_register n) (st, off) = Some (st\<lparr>cfaRegister := of_nat n\<rparr>, off)"
| "cfi_apply ops r a (CFA_def_cfa_offset v) (st, off) = Some (st\<lparr>cfaRegisterOffset := of_nat v\<rparr>, off)"
| "cfi_apply ops r a (CFA_same_value n) (st, off) =
     Some (store_register (of_nat n) ((saved st ! n)\<lparr>location := FIRCLSDwarfRegisterUnused\<rparr>) st, off)"
| "cfi_apply ops r a (CFA_register n m) (st, off) =
     Some (set_saved (of_nat n) FIRCLSDwarfRegisterInRegister (of_nat m) st, off)"
| "cfi_apply ops r a (CFA_offset n v) (st, off) =
     Some (set_saved (of_nat n) FIRCLSDwarfRegisterInCFA (of_nat v * dataAlignFactor r) st, off)"
| "cfi_apply ops r a (CFA_expression n bs) (st, off) =
     Some (set_saved (of_nat n) FIRCLSDwarfRegisterAtExpression
       (a + of_nat (length (uleb128_encode n))) st, off)"
| "cfi_apply ops r a (CFA_val_expression n bs) (st, off) =
     Some (set_saved (of_nat n) FIRCLSDwarfRegisterIsExpression
       (a + of_nat (length (uleb128_encode n))) st, off)"
| "cfi_apply ops r a (CFA_def_cfa_expression bs) (st, off) =
     Some (st\<lparr>cfaRegister := of_nat (MAX_REGISTER_NUM ops + 1), cfaExpression := a\<rparr>, off)"

fun cfi_run :: "'c arch_ops \<Rightarrow> DWARFCIERecord \<Rightarrow> u64 \<Rightarrow> u64 \<Rightarrow> cfi_op list \<Rightarrow> FIRCLSDwarfState \<times> u64 \<Rightarrow>
    FIRCLSDwarfState option" where
  "cfi_run ops r pc a [] (st, off) = Some st"
| "cfi_run ops r pc a (i # is) (st, off) =
     (if sint off < sint pc then
        (case cfi_apply ops r (a + 1) i (st, off) of
           None \<Rightarrow> None
         | Some config \<Rightarrow> cfi_run ops r pc (a + of_nat (length (cfi_encode i))) is config)
      else Some st)"

section \<open>One instruction\<close>

lemma uleb_register:
  "bytes_at env c (uleb128_encode n) \<Longrightarrow> n < 2 ^ 31 \<Longrightarrow>
     FIRCLSParseULEB128AndAdvance env c = Some (of_nat n, c + of_nat (length (uleb128_encode n)))"
  by (simp add: ParseULEB128_encode)

lemma not_unimplemented [simp]:
  "\<not> cfa_unimplemented i" if "0x40 \<le> unat i" for i :: u8
  using that by (auto simp: cfa_unimplemented_def)

lemma operand_dispatch:
  assumes "0x40 \<le> unat (i :: u8)"
  shows "execute_instruction env ops r i (c, st, off) =
           FIRCLSDwarfParseAndExecuteInstructionWithOperand env ops r i (c, st, off)"
proof -
  have "i \<noteq> of_nat k" if "k < 64" for k
    using assms that by (auto simp: unat_of_nat)
  from this [of 0] this [of 1] this [of 2] this [of 3] this [of 4] this [of 8] this [of 9] this [of 12]
    this [of 13] this [of 14] this [of 15] this [of 16] this [of 22]
  show ?thesis using assms by (simp add: execute_instruction_def)
qed

lemma operand_bytes:
  assumes "d < 64"
  shows "unat (of_nat (0x40 + d) :: u8) = 0x40 + d" "(of_nat (0x40 + d) :: u8) AND 0x3F = of_nat d"
    "(of_nat (0x40 + d) :: u8) AND 0xC0 = 0x40"
    and "unat (of_nat (0x80 + d) :: u8) = 0x80 + d" "(of_nat (0x80 + d) :: u8) AND 0x3F = of_nat d"
    "(of_nat (0x80 + d) :: u8) AND 0xC0 = 0x80"
proof -
  have "\<forall>d \<in> set [0..<64]. unat (of_nat (0x40 + d) :: u8) = 0x40 + d \<and>
      (of_nat (0x40 + d) :: u8) AND 0x3F = of_nat d \<and> (of_nat (0x40 + d) :: u8) AND 0xC0 = 0x40 \<and>
      unat (of_nat (0x80 + d) :: u8) = 0x80 + d \<and>
      (of_nat (0x80 + d) :: u8) AND 0x3F = of_nat d \<and> (of_nat (0x80 + d) :: u8) AND 0xC0 = 0x80"
    by code_simp
  moreover have "d \<in> set [0..<64]" using assms by simp
  ultimately show "unat (of_nat (0x40 + d) :: u8) = 0x40 + d" "(of_nat (0x40 + d) :: u8) AND 0x3F = of_nat d"
    "(of_nat (0x40 + d) :: u8) AND 0xC0 = 0x40" "unat (of_nat (0x80 + d) :: u8) = 0x80 + d"
    "(of_nat (0x80 + d) :: u8) AND 0x3F = of_nat d" "(of_nat (0x80 + d) :: u8) AND 0xC0 = 0x80"
    by blast+
qed

lemma ucast_small [simp]: "d < 256 \<Longrightarrow> (ucast (of_nat d :: u8) :: u64) = of_nat d"
  by (simp add: unsigned_of_nat take_bit_nat_eq_self)

definition executes_to :: "cls_env \<Rightarrow> 'c arch_ops \<Rightarrow> DWARFCIERecord \<Rightarrow> u64 \<Rightarrow> u64 \<Rightarrow> FIRCLSDwarfState \<times> u64 \<Rightarrow>
    (FIRCLSDwarfState \<times> u64) option \<Rightarrow> bool" where
  "executes_to env ops r c c' config result \<longleftrightarrow>
    (\<exists>i. mem env c = Some i \<and>
       execute_instruction env ops r i (c + 1, fst config, snd config) =
         map_option (\<lambda>(st, off). (True, c', st, off)) result)"

lemma executes_loc:
  assumes "bytes_at env c (cfi_encode i)" and "cfi_op_wf ops i"
    and "i = CFA_nop \<or> (\<exists>d. i = CFA_advance_loc d \<or> i = CFA_advance_loc1 d \<or> i = CFA_advance_loc2 d \<or> i = CFA_advance_loc4 d)"
  shows "executes_to env ops r c (c + of_nat (length (cfi_encode i))) (st, off)
           (cfi_apply ops r (c + 1) i (st, off))"
  using assms(3)
proof (elim disjE exE)
  fix d assume i: "i = CFA_advance_loc d"
  with assms have d: "d < 64" "mem env c = Some (of_nat (0x40 + d))" by simp_all
  with operand_bytes [OF d(1)] show ?thesis
    by (cases "c_smul (of_nat d) (codeAlignFactor r)")
      (simp_all add: i executes_to_def operand_dispatch FIRCLSDwarfParseAndExecuteInstructionWithOperand_def
        FIRCLSDwarfParseAndExecute_advance_loc_def Let_def del: of_nat_add)
next
  fix d assume i: "i = CFA_advance_loc1 d"
  with assms have b: "mem env c = Some 0x02" "bytes_at env (c + 1) (le_bytes 1 d)" "d < 2 ^ 8" by simp_all
  have p: "FIRCLSParseUint8AndAdvance env (c + 1) = Some (of_nat d, c + 2)"
    using parse_loaded(1) [OF bytes_at_load [OF b(2)]] b(3) by (simp add: le_word_le_bytes del: le_bytes.simps)
  show ?thesis using b(1,3)
    by (cases "c_sadd off (of_nat d * codeAlignFactor r)")
      (simp_all add: i executes_to_def execute_instruction_def on_offset_def
        FIRCLSDwarfParseAndExecute_advance_loc1_def p)
next
  fix d assume i: "i = CFA_advance_loc2 d"
  with assms have b: "mem env c = Some 0x03" "bytes_at env (c + 1) (le_bytes 2 d)" "d < 2 ^ 16" by simp_all
  have p: "FIRCLSParseUint16AndAdvance env (c + 1) = Some (of_nat d, c + 3)"
    using parse_loaded(2) [OF bytes_at_load [OF b(2)]] b(3) by (simp add: le_word_le_bytes)
  have u: "(ucast (of_nat d :: u16) :: u64) = of_nat d"
    using b(3) by (simp add: unsigned_of_nat take_bit_nat_eq_self)
  show ?thesis using b(1)
    by (cases "c_sadd off (of_nat d * codeAlignFactor r)")
      (simp_all add: i executes_to_def execute_instruction_def on_offset_def
        FIRCLSDwarfParseAndExecute_advance_loc2_def p u)
next
  fix d assume i: "i = CFA_advance_loc4 d"
  with assms have b: "mem env c = Some 0x04" "bytes_at env (c + 1) (le_bytes 4 d)" "d < 2 ^ 32" by simp_all
  have p: "FIRCLSParseUint32AndAdvance env (c + 1) = Some (of_nat d, c + 5)"
    using parse_loaded(3) [OF bytes_at_load [OF b(2)]] b(3) by (simp add: le_word_le_bytes)
  have u: "(ucast (of_nat d :: u32) :: u64) = of_nat d"
    using b(3) by (simp add: unsigned_of_nat take_bit_nat_eq_self)
  show ?thesis using b(1)
    by (cases "c_sadd off (of_nat d * codeAlignFactor r)")
      (simp_all add: i executes_to_def execute_instruction_def on_offset_def
        FIRCLSDwarfParseAndExecute_advance_loc4_def p u)
qed (use assms in \<open>simp add: executes_to_def execute_instruction_def\<close>)

lemma register_parse:
  assumes "bytes_at env c (uleb128_encode n)" and "n \<le> MAX_REGISTER_NUM ops" and "MAX_REGISTER_NUM ops < 64"
  shows "FIRCLSParseULEB128AndAdvance env c = Some (of_nat n, c + of_nat (length (uleb128_encode n)))"
    and "unat (of_nat n :: u64) = n"
  using assms by (simp_all add: ParseULEB128_encode unat_of_nat_u64)

lemma block_parse:
  assumes "bytes_at env c (block_encode bs)" and "length bs < 2 ^ 31"
  shows "\<exists>c1. FIRCLSParseULEB128AndAdvance env c = Some (of_nat (length bs), c1) \<and>
           c1 + of_nat (length bs) = c + of_nat (length (block_encode bs))"
  using assms ParseULEB128_encode [of env c "length bs"]
  by (auto simp: block_encode_def bytes_at_append add.assoc)

lemma executes_cfa:
  assumes b: "bytes_at env c (cfi_encode i)" and wf: "cfi_op_wf ops i" and m: "MAX_REGISTER_NUM ops < 64"
    and i: "(\<exists>n v. i = CFA_def_cfa n v) \<or> (\<exists>n. i = CFA_def_cfa_register n) \<or> (\<exists>v. i = CFA_def_cfa_offset v) \<or>
      (\<exists>bs. i = CFA_def_cfa_expression bs)"
  shows "executes_to env ops r c (c + of_nat (length (cfi_encode i))) (st, off)
           (cfi_apply ops r (c + 1) i (st, off))"
  using i
proof (elim disjE exE)
  fix n v assume i: "i = CFA_def_cfa n v"
  define c1 where "c1 = c + 1 + of_nat (length (uleb128_encode n))"
  have o: "mem env c = Some 0x0C" and b: "bytes_at env (c + 1) (uleb128_encode n)" "bytes_at env c1 (uleb128_encode v)"
    using b by (simp_all add: i bytes_at_append c1_def)
  have n: "n \<le> MAX_REGISTER_NUM ops" "v < 2 ^ 31" using wf by (simp_all add: i)
  show ?thesis
    using o n register_parse [OF b(1) n(1) m] ParseULEB128_encode [OF b(2)]
    by (simp add: i executes_to_def execute_instruction_def on_state_def
        FIRCLSDwarfParseAndExecute_def_cfa_def c1_def add.assoc)
next
  fix n assume i: "i = CFA_def_cfa_register n"
  then show ?thesis
    using b wf register_parse [of env "c + 1" n ops] m
    by (simp add: executes_to_def execute_instruction_def on_state_def
        FIRCLSDwarfParseAndExecute_def_cfa_register_def add.assoc)
next
  fix v assume i: "i = CFA_def_cfa_offset v"
  then show ?thesis
    using b wf ParseULEB128_encode [of env "c + 1" v]
    by (simp add: executes_to_def execute_instruction_def on_state_def
        FIRCLSDwarfParseAndExecute_def_cfa_offset_def add.assoc)
next
  fix bs assume i: "i = CFA_def_cfa_expression bs"
  have "bytes_at env (c + 1) (block_encode bs)" "length bs < 2 ^ 31" using b wf by (simp_all add: i)
  then obtain c1 where "FIRCLSParseULEB128AndAdvance env (c + 1) = Some (of_nat (length bs), c1)"
      "c1 + of_nat (length bs) = c + 1 + of_nat (length (block_encode bs))"
    using block_parse by blast
  then show ?thesis
    using b by (simp add: i executes_to_def execute_instruction_def on_state_def
        FIRCLSDwarfParseAndExecute_def_cfa_expression_def add.assoc)
qed

lemma executes_rule:
  assumes b: "bytes_at env c (cfi_encode i)" and wf: "cfi_op_wf ops i" and m: "MAX_REGISTER_NUM ops < 64"
    and i: "(\<exists>n. i = CFA_same_value n) \<or> (\<exists>n k. i = CFA_register n k) \<or> (\<exists>n v. i = CFA_offset n v) \<or>
      (\<exists>n bs. i = CFA_expression n bs) \<or> (\<exists>n bs. i = CFA_val_expression n bs)"
  shows "executes_to env ops r c (c + of_nat (length (cfi_encode i))) (st, off)
           (cfi_apply ops r (c + 1) i (st, off))"
  using i
proof (elim disjE exE)
  fix n assume i: "i = CFA_same_value n"
  then show ?thesis
    using b wf register_parse [of env "c + 1" n ops] m
    by (simp add: executes_to_def execute_instruction_def on_state_def
        FIRCLSDwarfParseAndExecute_same_value_def add.assoc)
next
  fix n k assume i: "i = CFA_register n k"
  define c1 where "c1 = c + 1 + of_nat (length (uleb128_encode n))"
  have o: "mem env c = Some 0x09" and b: "bytes_at env (c + 1) (uleb128_encode n)" "bytes_at env c1 (uleb128_encode k)"
    using b by (simp_all add: i bytes_at_append c1_def)
  have n: "n \<le> MAX_REGISTER_NUM ops" "k \<le> MAX_REGISTER_NUM ops" using wf by (simp_all add: i)
  show ?thesis
    using o n register_parse [OF b(1) n(1) m] register_parse [OF b(2) n(2) m]
    by (simp add: i executes_to_def execute_instruction_def on_state_def
        FIRCLSDwarfParseAndExecute_register_def c1_def add.assoc)
next
  fix n v assume i: "i = CFA_offset n v"
  have n: "n \<le> MAX_REGISTER_NUM ops" "n < 64" "v < 2 ^ 31" using wf m by (simp_all add: i)
  have o: "mem env c = Some (of_nat (0x80 + n))" and b: "bytes_at env (c + 1) (uleb128_encode v)"
    using b by (simp_all add: i)
  have u: "unat (of_nat n :: u8) = n" using n(2) by (simp add: unat_of_nat)
  show ?thesis
    using o n operand_bytes [OF n(2)] ParseULEB128_encode [OF b] u
    by (simp add: i executes_to_def operand_dispatch FIRCLSDwarfParseAndExecuteInstructionWithOperand_def
        on_state_def FIRCLSDwarfParseAndExecute_offset_def add.assoc del: of_nat_add)
next
  fix n bs assume i: "i = CFA_expression n bs"
  define c1 where "c1 = c + 1 + of_nat (length (uleb128_encode n))"
  have o: "mem env c = Some 0x10" and b: "bytes_at env (c + 1) (uleb128_encode n)" "bytes_at env c1 (block_encode bs)"
    using b by (simp_all add: i bytes_at_append c1_def)
  have n: "n \<le> MAX_REGISTER_NUM ops" "length bs < 2 ^ 31" using wf by (simp_all add: i)
  obtain c2 where c2: "FIRCLSParseULEB128AndAdvance env c1 = Some (of_nat (length bs), c2)"
      "c2 + of_nat (length bs) = c1 + of_nat (length (block_encode bs))"
    using block_parse [OF b(2) n(2)] by blast
  show ?thesis
    using o n register_parse [OF b(1) n(1) m] c2
    by (simp add: i executes_to_def execute_instruction_def on_state_def
        FIRCLSDwarfParseAndExecute_expression_def c1_def add.assoc)
next
  fix n bs assume i: "i = CFA_val_expression n bs"
  define c1 where "c1 = c + 1 + of_nat (length (uleb128_encode n))"
  have o: "mem env c = Some 0x16" and b: "bytes_at env (c + 1) (uleb128_encode n)" "bytes_at env c1 (block_encode bs)"
    using b by (simp_all add: i bytes_at_append c1_def)
  have n: "n \<le> MAX_REGISTER_NUM ops" "length bs < 2 ^ 31" using wf by (simp_all add: i)
  obtain c2 where c2: "FIRCLSParseULEB128AndAdvance env c1 = Some (of_nat (length bs), c2)"
      "c2 + of_nat (length bs) = c1 + of_nat (length (block_encode bs))"
    using block_parse [OF b(2) n(2)] by blast
  show ?thesis
    using o n register_parse [OF b(1) n(1) m] c2
    by (simp add: i executes_to_def execute_instruction_def on_state_def
        FIRCLSDwarfParseAndExecute_val_expression_def c1_def add.assoc)
qed

lemma executes_op:
  "bytes_at env c (cfi_encode i) \<Longrightarrow> cfi_op_wf ops i \<Longrightarrow> MAX_REGISTER_NUM ops < 64 \<Longrightarrow>
     executes_to env ops r c (c + of_nat (length (cfi_encode i))) config (cfi_apply ops r (c + 1) i config)"
  by (cases config; cases i) (blast intro: executes_loc executes_cfa executes_rule)+

section \<open>A whole program\<close>

abbreviation cfi_code :: "cfi_op list \<Rightarrow> u8 list" where
  "cfi_code is \<equiv> concat (map cfi_encode is)"

lemma cfi_encode_pos [simp]: "0 < length (cfi_encode i)"
  by (cases i) simp_all

lemma cfi_encode_not_Nil [simp]: "cfi_encode i \<noteq> []"
  by (cases i) simp_all

definition run_result :: "FIRCLSDwarfState option \<Rightarrow> (bool \<times> FIRCLSDwarfState) loop_result" where
  "run_result r = (case r of None \<Rightarrow> Faulted | Some st \<Rightarrow> Returned (True, st))"

lemma enumerate_loop_code:
  assumes "bytes_at env c (cfi_code is)" and "\<forall>i \<in> set is. cfi_op_wf ops i" and "MAX_REGISTER_NUM ops < 64"
    and "unat c + length (cfi_code is) < 2 ^ 64" and "endAddr = c + of_nat (length (cfi_code is))"
    and "length (cfi_code is) \<le> fuel"
  shows "enumerate_loop fuel env ops r endAddr pc (c, st, off) = run_result (cfi_run ops r pc c is (st, off))"
  using assms
proof (induction "is" arbitrary: c fuel st off)
  case Nil
  then show ?case by (simp add: enumerate_loop.simps run_result_def)
next
  case (Cons i "is")
  define c1 where "c1 = c + of_nat (length (cfi_encode i))"
  have uend: "unat endAddr = unat c + length (cfi_code (i # is))"
    using Cons.prems(4) unfolding Cons.prems(5) by (intro unat_add_no_wrap)
  have u1: "unat c1 = unat c + length (cfi_encode i)"
    using Cons.prems(4) by (simp add: c1_def unat_add_no_wrap)
  have lt: "c < endAddr" using uend by (simp add: word_less_nat_alt)
  obtain n where fuel: "fuel = Suc n"
    using Cons.prems(6) cfi_encode_pos [of i] by (cases fuel) auto
  show ?case
  proof (cases "sint off < sint pc")
    case False
    then show ?thesis by (simp add: enumerate_loop.simps run_result_def)
  next
    case True
    have bytes: "bytes_at env c (cfi_encode i)" "bytes_at env c1 (cfi_code is)"
      using Cons.prems(1) by (simp_all add: bytes_at_append c1_def)
    from executes_op [OF bytes(1), of ops r "(st, off)"] Cons.prems(2,3)
    obtain op where op: "mem env c = Some op" "execute_instruction env ops r op (c + 1, st, off) =
        map_option (\<lambda>(st, off). (True, c1, st, off)) (cfi_apply ops r (c + 1) i (st, off))"
      by (auto simp: executes_to_def c1_def)
    show ?thesis
    proof (cases "cfi_apply ops r (c + 1) i (st, off)")
      case None
      with op True lt show ?thesis
        by (simp add: fuel enumerate_loop.simps [of "Suc n"] ParseUint8_byte run_result_def)
    next
      case (Some config)
      obtain st1 off1 where config: "config = (st1, off1)" by (cases config)
      have "enumerate_loop n env ops r endAddr pc (c1, st1, off1) = run_result (cfi_run ops r pc c1 is (st1, off1))"
      proof (rule Cons.IH [OF bytes(2) _ Cons.prems(3)])
        show "unat c1 + length (cfi_code is) < 2 ^ 64" using u1 Cons.prems(4) by simp
        show "endAddr = c1 + of_nat (length (cfi_code is))"
          by (simp add: Cons.prems(5) c1_def add.assoc)
        obtain k where "length (cfi_encode i) = Suc k" by (cases "cfi_encode i") auto
        then show "length (cfi_code is) \<le> n" using Cons.prems(6) unfolding fuel by simp
      qed (use Cons.prems(2) in simp)
      with op True lt Some config show ?thesis
        by (simp add: fuel enumerate_loop.simps [of "Suc n"] ParseUint8_byte c1_def)
    qed
  qed
qed

lemma enumerate_code:
  assumes "bytes_at env (inst_data ins) (cfi_code is)" and "\<forall>i \<in> set is. cfi_op_wf ops i"
    and "MAX_REGISTER_NUM ops < 64" and "inst_length ins = of_nat (length (cfi_code is))"
    and "length (cfi_code is) < 2 ^ 32" and "unat (inst_data ins) + length (cfi_code is) < 2 ^ 64"
  shows "FIRCLSDwarfInstructionsEnumerate env ops ins r st pc =
           run_result (cfi_run ops r pc (inst_data ins) is (st, 0))"
proof -
  have "unat (inst_length ins) = length (cfi_code is)" "(ucast (inst_length ins) :: u64) = of_nat (length (cfi_code is))"
    using assms(4,5) by (simp_all add: unat_of_nat unsigned_of_nat take_bit_nat_eq_self)
  then show ?thesis
    unfolding FIRCLSDwarfInstructionsEnumerate_def
    by (intro enumerate_loop_code [OF assms(1,2,3,6)]) simp_all
qed

section \<open>Unwinding one frame on x86_64\<close>

text \<open>
  A frame description whose two instruction sequences are assembled programs, whose CFA rule is a
  register and an offset, and whose register rules read memory or registers only.
\<close>

definition simple_rules :: "'c arch_ops \<Rightarrow> FIRCLSDwarfState \<Rightarrow> bool" where
  "simple_rules ops st \<longleftrightarrow> cfaExpression st = 0 \<and> (\<forall>i \<le> MAX_REGISTER_NUM ops. location (saved st ! i) \<notin>
     {FIRCLSDwarfRegisterAtExpression, FIRCLSDwarfRegisterIsExpression})"

definition holds_program :: "cls_env \<Rightarrow> 'c arch_ops \<Rightarrow> DWARFInstructions \<Rightarrow> cfi_op list \<Rightarrow> bool" where
  "holds_program env ops ins is \<longleftrightarrow> bytes_at env (inst_data ins) (cfi_code is) \<and>
     (\<forall>i \<in> set is. cfi_op_wf ops i) \<and> inst_length ins = of_nat (length (cfi_code is)) \<and>
     length (cfi_code is) < 2 ^ 32 \<and> unat (inst_data ins) + length (cfi_code is) < 2 ^ 64"

lemma program_runs:
  "holds_program env ops ins is \<Longrightarrow> MAX_REGISTER_NUM ops < 64 \<Longrightarrow>
     FIRCLSDwarfInstructionsEnumerate env ops ins r st pc =
       run_result (cfi_run ops r pc (inst_data ins) is (st, 0))"
  by (rule enumerate_code) (simp_all add: holds_program_def)

context register_file
begin

lemma unwind_frame:
  assumes "wf regs"
    and cie: "holds_program env ops (cie_instructions (cie record)) is1"
    and fde: "holds_program env ops (fde_instructions (fde record)) is2"
    and off: "0 \<le> sint (GetPC ops regs - startAddress (fde record))"
    and st1: "cfi_run ops (cie record) INTPTR_MAX (inst_data (cie_instructions (cie record))) is1 (zero_state ops, 0) = Some st1"
    and st: "cfi_run ops (cie record) (GetPC ops regs - startAddress (fde record))
               (inst_data (fde_instructions (fde record))) is2 (st1, 0) = Some st"
    and simple: "simple_rules ops st"
    and cfa: "cfa = GetRegisterValue ops regs (cfaRegister st) + cfaRegisterOffset st"
    and "norm (REG_SP ops) cfa \<noteq> GetStackPointer ops regs"
    and "restored env ops st regs cfa (REG_RETURN ops) = Some ra"
    and "norm (REG_RETURN ops) ra \<noteq> GetRegisterValue ops regs (of_nat (REG_RETURN ops))"
    and "REG_RETURN ops \<noteq> REG_SP ops"
  shows "\<exists>new. FIRCLSDwarfUnwindComputeRegisters env ops record regs = Returned (True, new) \<and>
    (\<forall>j \<le> MAX_REGISTER_NUM ops. GetRegisterValue ops new (of_nat j) =
       (if j = REG_SP ops then norm j cfa
        else case restored env ops st regs cfa j of None \<Rightarrow> GetRegisterValue ops regs (of_nat j)
             | Some v \<Rightarrow> norm j v))"
proof -
  have total: "rules_total env ops st regs cfa"
    using simple by (intro rules_total_no_expression) (simp add: simple_rules_def)
  obtain new where new: "FIRCLSDwarfUnwindAssignRegisters env ops st regs cfa regs = Some (True, new)"
      "\<forall>j \<le> MAX_REGISTER_NUM ops. GetRegisterValue ops new (of_nat j) =
       (if j = REG_SP ops then norm j cfa
        else case restored env ops st regs cfa j of None \<Rightarrow> GetRegisterValue ops regs (of_nat j)
             | Some v \<Rightarrow> norm j v)"
    using assign_registers [OF assms(1) total assms(9-12), of regs] by blast
  have "FIRCLSDwarfGetCFA env ops st regs 0 = Some (True, cfa)"
    using simple by (simp add: FIRCLSDwarfGetCFA_def simple_rules_def cfa)
  then have "FIRCLSDwarfUnwindComputeRegisters env ops record regs = Returned (True, new)"
    using off new(1) st1 st
    by (simp add: FIRCLSDwarfUnwindComputeRegisters_def program_runs [OF cie special_le(4)]
        program_runs [OF fde special_le(4)] run_result_def Let_def)
  with new(2) show ?thesis by blast
qed

end

end
