(* ===== verification/Cls_Dwarf_Rows.thy ===== *)
theory Cls_Dwarf_Rows
  imports Cls_Dwarf_Cfi_Spec
begin

text \<open>
  What the DWARF standard says a call frame program means: the row of the table in force before a code
  offset, in which every advance adds to the location (dwarf.h, line 92: the operand is a delta), and the
  proof that \<open>FIRCLSDwarfInstructionsEnumerate\<close> leaves that row, for the programs on which its own reading of
  \<open>DW_CFA_advance_loc\<close> and of CFA expressions makes no difference.
\<close>

section \<open>Rows\<close>

text \<open>The CFA is a register plus an offset or the value of an expression, given by its address.\<close>

datatype dw_cfa = Cfa_register nat nat | Cfa_expression u64

datatype dw_rule =
    Unchanged
  | Saved_at int
  | In_register nat
  | Saved_at_expression u64
  | Value_of_expression u64

record dw_row =
  cfa_rule :: dw_cfa
  register_rule :: "nat \<Rightarrow> dw_rule"

fun loc_delta :: "cfi_op \<Rightarrow> nat" where
  "loc_delta (CFA_advance_loc d) = d"
| "loc_delta (CFA_advance_loc1 d) = d"
| "loc_delta (CFA_advance_loc2 d) = d"
| "loc_delta (CFA_advance_loc4 d) = d"
| "loc_delta _ = 0"

text \<open>
  The row after an instruction whose operands start at address \<open>a\<close>. \<open>None\<close> is an instruction that the
  standard does not allow: one that changes half of a CFA rule that is an expression.
\<close>

fun row_instruction :: "DWARFCIERecord \<Rightarrow> u64 \<Rightarrow> cfi_op \<Rightarrow> dw_row \<Rightarrow> dw_row option" where
  "row_instruction r a (CFA_def_cfa n v) row = Some (row\<lparr>cfa_rule := Cfa_register n v\<rparr>)"
| "row_instruction r a (CFA_def_cfa_register n) row = (case cfa_rule row of
     Cfa_register _ v \<Rightarrow> Some (row\<lparr>cfa_rule := Cfa_register n v\<rparr>) | Cfa_expression _ \<Rightarrow> None)"
| "row_instruction r a (CFA_def_cfa_offset v) row = (case cfa_rule row of
     Cfa_register n _ \<Rightarrow> Some (row\<lparr>cfa_rule := Cfa_register n v\<rparr>) | Cfa_expression _ \<Rightarrow> None)"
| "row_instruction r a (CFA_def_cfa_expression bs) row = Some (row\<lparr>cfa_rule := Cfa_expression a\<rparr>)"
| "row_instruction r a (CFA_same_value n) row = Some (row\<lparr>register_rule := (register_rule row)(n := Unchanged)\<rparr>)"
| "row_instruction r a (CFA_register n m) row = Some (row\<lparr>register_rule := (register_rule row)(n := In_register m)\<rparr>)"
| "row_instruction r a (CFA_offset n v) row =
     Some (row\<lparr>register_rule := (register_rule row)(n := Saved_at (int v * sint (dataAlignFactor r)))\<rparr>)"
| "row_instruction r a (CFA_expression n bs) row = Some (row\<lparr>register_rule := (register_rule row)
     (n := Saved_at_expression (a + of_nat (length (uleb128_encode n))))\<rparr>)"
| "row_instruction r a (CFA_val_expression n bs) row = Some (row\<lparr>register_rule := (register_rule row)
     (n := Value_of_expression (a + of_nat (length (uleb128_encode n))))\<rparr>)"
| "row_instruction r a _ row = Some row"

definition advance :: "DWARFCIERecord \<Rightarrow> cfi_op \<Rightarrow> int" where
  "advance r i = int (loc_delta i) * uint (codeAlignFactor r)"

text \<open>The instructions in front of the first location that is not below \<open>pc\<close> apply.\<close>

fun row_run :: "DWARFCIERecord \<Rightarrow> int \<Rightarrow> u64 \<Rightarrow> cfi_op list \<Rightarrow> int \<times> dw_row \<Rightarrow> dw_row option" where
  "row_run r pc a [] (loc, row) = Some row"
| "row_run r pc a (i # is) (loc, row) =
     (if loc < pc then
        (case row_instruction r (a + 1) i row of
           None \<Rightarrow> None
         | Some row' \<Rightarrow> row_run r pc (a + of_nat (length (cfi_encode i))) is (loc + advance r i, row'))
      else Some row)"

section \<open>The row a state stands for\<close>

definition rule_of :: "FIRCLSDwarfRegister \<Rightarrow> dw_rule" where
  "rule_of d = (case location d of
     FIRCLSDwarfRegisterInCFA \<Rightarrow> Saved_at (sint (reg_value d))
   | FIRCLSDwarfRegisterInRegister \<Rightarrow> In_register (unat (reg_value d))
   | FIRCLSDwarfRegisterAtExpression \<Rightarrow> Saved_at_expression (reg_value d)
   | FIRCLSDwarfRegisterIsExpression \<Rightarrow> Value_of_expression (reg_value d)
   | _ \<Rightarrow> Unchanged)"

definition row_of :: "FIRCLSDwarfState \<Rightarrow> dw_row" where
  "row_of st = \<lparr>cfa_rule = (if cfaExpression st \<noteq> 0 then Cfa_expression (cfaExpression st)
       else Cfa_register (unat (cfaRegister st)) (unat (cfaRegisterOffset st))),
     register_rule = (\<lambda>n. if n < length (saved st) then rule_of (saved st ! n) else Unchanged)\<rparr>"

text \<open>
  The programs on which the code agrees with the standard: a \<open>DW_CFA_advance_loc\<close> comes first of all
  advances (the code assigns its delta to the location), and no CFA register after a CFA expression (the code
  would still use the expression).
\<close>

fun advance_first :: "bool \<Rightarrow> cfi_op list \<Rightarrow> bool" where
  "advance_first moved [] = True"
| "advance_first moved (i # is) =
     ((case i of CFA_advance_loc d \<Rightarrow> \<not> moved | _ \<Rightarrow> True) \<and> advance_first (moved \<or> loc_delta i \<noteq> 0) is)"

fun expression_stays :: "bool \<Rightarrow> cfi_op list \<Rightarrow> bool" where
  "expression_stays e [] = True"
| "expression_stays e (i # is) =
     ((case i of CFA_def_cfa n v \<Rightarrow> \<not> e | _ \<Rightarrow> True) \<and>
      expression_stays (e \<or> (case i of CFA_def_cfa_expression bs \<Rightarrow> True | _ \<Rightarrow> False)) is)"

definition last_location :: "DWARFCIERecord \<Rightarrow> cfi_op list \<Rightarrow> int" where
  "last_location r is = (\<Sum>i\<leftarrow>is. advance r i)"

text \<open>Alignment factors of 31 bits; compilers use 1 or 4 for code and -4 or -8 for data.\<close>

definition small_factors :: "DWARFCIERecord \<Rightarrow> bool" where
  "small_factors r \<longleftrightarrow> uint (codeAlignFactor r) < 2 ^ 31 \<and>
     - (2 ^ 31) \<le> sint (dataAlignFactor r) \<and> sint (dataAlignFactor r) < 2 ^ 31"

section \<open>One instruction\<close>

lemma row_store:
  assumes "n < length (saved st)" and "length (saved st) \<le> 64"
  shows "row_of (store_register (of_nat n) d st) =
    (row_of st)\<lparr>register_rule := (register_rule (row_of st))(n := rule_of d)\<rparr>"
proof -
  have "unat (of_nat n :: u64) = n" using assms by (simp add: unat_of_nat_u64)
  then show ?thesis using assms by (auto simp: row_of_def store_register_def nth_list_update fun_eq_iff)
qed

lemma store_other [simp]:
  "length (saved (store_register n d st)) = length (saved st)"
  "cfaExpression (store_register n d st) = cfaExpression st"
  by (simp_all add: store_register_def)

lemma sint_times_data:
  assumes "v < 2 ^ 31" and "small_factors r"
  shows "sint (of_nat v * dataAlignFactor r) = int v * sint (dataAlignFactor r)"
proof -
  let ?w = "dataAlignFactor r"
  have f: "- (2 ^ 31) \<le> sint ?w" "sint ?w < 2 ^ 31" using assms(2) by (simp_all add: small_factors_def)
  have v: "0 \<le> int v" "int v < 2 ^ 31" using assms(1) by simp_all
  have "\<bar>int v * sint ?w\<bar> \<le> 2 ^ 31 * 2 ^ 31"
    unfolding abs_mult using f v by (intro mult_mono) auto
  then have b: "- (2 ^ 63) \<le> int v * sint ?w" "int v * sint ?w < 2 ^ 63" by simp_all
  have eq: "of_nat v * ?w = of_int (int v * sint ?w)" by simp
  show ?thesis unfolding eq signed_of_int using signed_take_bit_int_eq_self [of 63 "int v * sint ?w"] b by simp
qed

lemma apply_row:
  assumes app: "cfi_apply ops r a i (st, off) = Some (st', off')" and wf: "cfi_op_wf ops i"
    and len: "length (saved st) = MAX_REGISTER_NUM ops + 1" and m: "MAX_REGISTER_NUM ops < 64"
    and a: "a \<noteq> 0" and r: "small_factors r" and row: "row_instruction r a i (row_of st) = Some row'"
    and e: "case i of CFA_def_cfa n v \<Rightarrow> cfaExpression st = 0 | _ \<Rightarrow> True"
  shows "row_of st' = row' \<and> length (saved st') = length (saved st) \<and>
    (cfaExpression st' \<noteq> 0 \<longleftrightarrow> cfaExpression st \<noteq> 0 \<or> (case i of CFA_def_cfa_expression bs \<Rightarrow> True | _ \<Rightarrow> False))"
proof -
  have n: "unat (of_nat k :: u64) = k" if "k \<le> MAX_REGISTER_NUM ops \<or> k < 2 ^ 31" for k
    using that m by (auto simp: unat_of_nat_u64)
  have big: "length (saved st) \<le> 64" using len m by simp
  show ?thesis
  proof (cases i)
    case (CFA_offset k v)
    then show ?thesis
      using app wf row len row_store [of k st, OF _ big] sint_times_data [OF _ r, of v]
      by (auto simp: set_saved_def rule_of_def)
  next
    case (CFA_register k j)
    then show ?thesis
      using app wf row len n row_store [of k st, OF _ big] by (auto simp: set_saved_def rule_of_def)
  next
    case (CFA_same_value k)
    then show ?thesis
      using app wf row len row_store [of k st, OF _ big] by (auto simp: rule_of_def)
  next
    case (CFA_expression k bs)
    then show ?thesis
      using app wf row len row_store [of k st, OF _ big] by (auto simp: set_saved_def rule_of_def)
  next
    case (CFA_val_expression k bs)
    then show ?thesis
      using app wf row len row_store [of k st, OF _ big] by (auto simp: set_saved_def rule_of_def)
  next
    case (CFA_def_cfa k v)
    then show ?thesis using app wf row e n by (auto simp: row_of_def)
  next
    case (CFA_def_cfa_register k)
    then show ?thesis using app wf row n by (auto simp: row_of_def split: if_splits)
  next
    case (CFA_def_cfa_offset v)
    then show ?thesis using app wf row n by (auto simp: row_of_def split: if_splits)
  next
    case (CFA_def_cfa_expression bs)
    then show ?thesis using app row a by (auto simp: row_of_def)
  qed (use app row in auto)
qed

lemma sint_of_nat_less: "n < 2 ^ 63 \<Longrightarrow> sint (of_nat n :: u64) = int n"
  by (simp add: signed_of_nat signed_take_bit_int_eq_self)

lemma advance_word:
  assumes "cfi_op_wf ops i" and "small_factors r" and "advance r i < 2 ^ 63"
  shows "sint (of_nat (loc_delta i) * codeAlignFactor r :: u64) = advance r i"
proof -
  define k where "k = loc_delta i * unat (codeAlignFactor r)"
  have k: "advance r i = int k" by (simp add: advance_def k_def)
  have "of_nat (loc_delta i) * codeAlignFactor r = (of_nat k :: u64)" by (simp add: k_def)
  moreover have "k < 2 ^ 63" using assms(3) unfolding k by simp
  ultimately show ?thesis by (simp only: k sint_of_nat_less)
qed

definition is_advance :: "cfi_op \<Rightarrow> bool" where
  "is_advance i \<longleftrightarrow> (case i of CFA_advance_loc d \<Rightarrow> True | CFA_advance_loc1 d \<Rightarrow> True | CFA_advance_loc2 d \<Rightarrow> True
     | CFA_advance_loc4 d \<Rightarrow> True | _ \<Rightarrow> False)"

lemma not_advance: "\<not> is_advance i \<Longrightarrow> advance r i = 0 \<and> (\<exists>st'. cfi_apply ops r a i (st, off) = Some (st', off))"
  by (cases i) (simp_all add: is_advance_def advance_def)

lemma advance_row: "is_advance i \<Longrightarrow> row_instruction r a i row = Some row"
  by (cases i) (simp_all add: is_advance_def)

text \<open>An advance of the code: the packed form assigns, the others add.\<close>

lemma apply_advance:
  assumes "cfi_op_wf ops i" and "small_factors r" and "is_advance i"
    and "0 \<le> sint off" and "sint off + advance r i < 2 ^ 63"
  shows "\<exists>off'. cfi_apply ops r a i (st, off) = Some (st, off') \<and>
    sint off' = (case i of CFA_advance_loc d \<Rightarrow> advance r i | _ \<Rightarrow> sint off + advance r i)"
proof -
  have pos: "0 \<le> advance r i" by (simp add: advance_def)
  then have small: "advance r i < 2 ^ 63" using assms(4,5) by linarith
  note w = advance_word [OF assms(1,2) small]
  let ?d = "of_nat (loc_delta i) * codeAlignFactor r :: u64"
  have "c_sadd off ?d = Some (off + ?d)" using pos assms(4,5) by (simp add: c_sadd_def w)
  moreover have "sint (off + ?d) = sint off + advance r i"
  proof -
    have "off + ?d = of_int (sint off + advance r i)" by (simp flip: w)
    moreover have "signed_take_bit 63 (sint off + advance r i) = sint off + advance r i"
      by (rule signed_take_bit_int_eq_self) (use pos assms(4,5) in simp_all)
    ultimately show ?thesis by (simp only: signed_of_int) simp
  qed
  moreover have "c_smul (of_nat (loc_delta i)) (codeAlignFactor r) = Some ?d" if "loc_delta i < 64"
  proof -
    have "sint (codeAlignFactor r) = uint (codeAlignFactor r)"
    proof -
      have "int (unat (codeAlignFactor r)) < int (2 ^ 63)" using assms(2) by (simp add: small_factors_def)
      then have "unat (codeAlignFactor r) < 2 ^ 63" by (simp only: of_nat_less_iff)
      from sint_of_nat_less [OF this] show ?thesis by simp
    qed
    moreover have "sint (of_nat (loc_delta i) :: u64) = int (loc_delta i)"
      using that by (intro sint_of_nat_less) simp
    ultimately show ?thesis using pos small by (simp add: c_smul_def flip: advance_def)
  qed
  ultimately show ?thesis using assms(1,3) w by (cases i) (auto simp: is_advance_def)
qed

section \<open>A whole program\<close>

lemma last_location_Cons: "last_location r (i # is) = advance r i + last_location r is"
  by (simp add: last_location_def)

lemma last_location_pos: "0 \<le> last_location r is"
  by (induction "is") (simp_all add: last_location_def advance_def)

text \<open>The offset the code keeps, against the location: equal, or both short of the end.\<close>

definition offset_ok :: "DWARFCIERecord \<Rightarrow> u64 \<Rightarrow> cfi_op list \<Rightarrow> bool \<Rightarrow> u64 \<Rightarrow> int \<Rightarrow> bool" where
  "offset_ok r pc is moved off loc \<longleftrightarrow> 0 \<le> sint off \<and> sint off \<le> loc \<and> loc + last_location r is < 2 ^ 63 \<and>
     (sint off = loc \<and> (\<not> moved \<longrightarrow> loc = 0) \<and> advance_first moved is \<or> loc + last_location r is < sint pc)"

lemma offset_ok_stop: "offset_ok r pc is moved off loc \<Longrightarrow> \<not> loc < sint pc \<Longrightarrow> \<not> sint off < sint pc"
  using last_location_pos [of r "is"] by (auto simp: offset_ok_def)

lemma offset_ok_step:
  assumes ok: "offset_ok r pc (i # is) moved off loc" and wf: "cfi_op_wf ops i" and r: "small_factors r"
  shows "\<exists>st' off'. cfi_apply ops r a i (st, off) = Some (st', off') \<and> (is_advance i \<longrightarrow> st' = st) \<and>
    offset_ok r pc is (moved \<or> loc_delta i \<noteq> 0) off' (loc + advance r i)"
proof (cases "is_advance i")
  case False
  then have "loc_delta i = 0" "case i of CFA_advance_loc d \<Rightarrow> \<not> moved | _ \<Rightarrow> True"
    by (cases i; simp add: is_advance_def)+
  with False ok not_advance [OF False, of r ops a st off] show ?thesis
    by (auto simp: offset_ok_def last_location_Cons)
next
  case True
  have pos: "0 \<le> advance r i" by (simp add: advance_def)
  have zero: "advance r i = 0" if "loc_delta i = 0" using that by (simp add: advance_def)
  have "sint off + advance r i < 2 ^ 63"
    using ok last_location_pos [of r "is"] by (simp add: offset_ok_def last_location_Cons)
  from apply_advance [OF wf r True _ this, of a st] ok obtain off' where
    off': "cfi_apply ops r a i (st, off) = Some (st, off')"
    "sint off' = (case i of CFA_advance_loc d \<Rightarrow> advance r i | _ \<Rightarrow> sint off + advance r i)"
    by (auto simp: offset_ok_def)
  have "offset_ok r pc is (moved \<or> loc_delta i \<noteq> 0) off' (loc + advance r i)"
  proof (cases "\<exists>d. i = CFA_advance_loc d")
    case True
    then show ?thesis using ok off'(2) pos zero by (auto simp: offset_ok_def last_location_Cons)
  next
    case False
    then have "sint off' = sint off + advance r i" "case i of CFA_advance_loc d \<Rightarrow> False | _ \<Rightarrow> True"
      using off'(2) by (cases i; simp)+
    then show ?thesis using ok pos zero by (auto simp: offset_ok_def last_location_Cons)
  qed
  with off'(1) show ?thesis by blast
qed

lemma run_rows:
  assumes "\<forall>i \<in> set is. cfi_op_wf ops i" and "MAX_REGISTER_NUM ops < 64" and "small_factors r"
    and "length (saved st) = MAX_REGISTER_NUM ops + 1"
    and "row_run r (sint pc) a is (loc, row_of st) = Some row" and "offset_ok r pc is moved off loc"
    and "expression_stays (cfaExpression st \<noteq> 0) is" and "unat a + length (cfi_code is) < 2 ^ 64"
  shows "\<exists>st'. cfi_run ops r pc a is (st, off) = Some st' \<and> row_of st' = row"
  using assms
proof (induction "is" arbitrary: a st off loc moved)
  case Nil
  then show ?case by simp
next
  case (Cons i "is")
  show ?case
  proof (cases "loc < sint pc")
    case False
    with offset_ok_stop [OF Cons.prems(6)] Cons.prems(5) show ?thesis by simp
  next
    case True
    obtain row1 where row1: "row_instruction r (a + 1) i (row_of st) = Some row1"
      "row_run r (sint pc) (a + of_nat (length (cfi_encode i))) is (loc + advance r i, row1) = Some row"
      using Cons.prems(5) True by (auto split: option.splits)
    have wf: "cfi_op_wf ops i" using Cons.prems(1) by simp
    obtain st1 off1 where st1: "cfi_apply ops r (a + 1) i (st, off) = Some (st1, off1)"
      "offset_ok r pc is (moved \<or> loc_delta i \<noteq> 0) off1 (loc + advance r i)"
      using offset_ok_step [OF Cons.prems(6) wf Cons.prems(3)] by blast
    have code: "unat a + length (cfi_encode i) + length (cfi_code is) < 2 ^ 64" using Cons.prems(8) by simp
    have next_a: "unat (a + of_nat (length (cfi_encode i))) = unat a + length (cfi_encode i)"
      using code by (intro unat_add_no_wrap) linarith
    have "unat a + 1 < 2 ^ 64" using code cfi_encode_pos [of i] by linarith
    then have "unat (a + 1) = unat a + 1" using unat_add_no_wrap [of a 1] by simp
    then have nz: "a + 1 \<noteq> 0" by (metis add_eq_0_iff_both_eq_0 one_neq_zero unat_0)
    have e: "case i of CFA_def_cfa n v \<Rightarrow> cfaExpression st = 0 | _ \<Rightarrow> True"
      using Cons.prems(7) by (cases i) simp_all
    have "offset_ok r pc (i # is) moved off loc" by (rule Cons.prems(6))
    then have sint_lt: "sint off < sint pc" using True by (simp add: offset_ok_def)
    from apply_row [OF st1(1) wf Cons.prems(4,2) nz Cons.prems(3) row1(1) e]
    have st1': "row_of st1 = row1" "length (saved st1) = MAX_REGISTER_NUM ops + 1"
      "cfaExpression st1 \<noteq> 0 \<longleftrightarrow> cfaExpression st \<noteq> 0 \<or> (case i of CFA_def_cfa_expression bs \<Rightarrow> True | _ \<Rightarrow> False)"
      using Cons.prems(4) by simp_all
    have "expression_stays (cfaExpression st1 \<noteq> 0) is"
      using Cons.prems(7) unfolding st1'(3) by simp
    from Cons.IH [OF _ Cons.prems(2,3) st1'(2) row1(2) [folded st1'(1)] st1(2) this] Cons.prems(1) code next_a
    obtain st' where "cfi_run ops r pc (a + of_nat (length (cfi_encode i))) is (st1, off1) = Some st'" "row_of st' = row"
      by auto
    with st1(1) sint_lt show ?thesis by simp
  qed
qed

end
