(* ===== verification/Cls_Dwarf_Properties.thy ===== *)
theory Cls_Dwarf_Properties
  imports Cls_Dwarf_Rows
begin

text \<open>
  The properties of the DWARF unwinder: decoding, expressions, record parsing, call frame
  programs and the unwinding of a frame. Each is followed by a witness that evaluates it on a
  concrete address space.
\<close>

section \<open>Unwinding a frame\<close>


text \<open>A function that has pushed rbp, stopped in front of \<open>mov rbp, rsp\<close>.\<close>

definition demo_env :: cls_env where
  "demo_env = env_of [(0x1000, [0x0C, 7, 8, 0x90, 1]), (0x1100, [0x41, 0x0E, 16, 0x86, 2, 0x43, 0x0D, 6]),
     (0x8000, [1, 0, 0, 0, 0, 0, 0, 0, 0x78, 0x56, 0, 0, 0, 0, 0, 0])]"

definition demo_record :: FIRCLSDwarfCFIRecord where
  "demo_record = \<lparr>cie = zero_cie\<lparr>codeAlignFactor := 1, dataAlignFactor := - 8,
       cie_instructions := \<lparr>inst_length = 5, inst_data = 0x1000\<rparr>\<rparr>,
     fde = \<lparr>fde_length = 0, cieOffset = 0, startAddress = 0x4000, rangeSize = 0x100,
       fde_instructions = \<lparr>inst_length = 8, inst_data = 0x1100\<rparr>\<rparr>\<rparr>"

definition demo_regs :: x86_state where
  "demo_regs = \<lparr>rax = 0, rdx = 0, rcx = 0, rbx = 0, rsi = 0, rdi = 0, rbp = 0x9000, rsp = 0x8000,
     r8 = 0, r9 = 0, r10 = 0, r11 = 0, r12 = 0, r13 = 0, r14 = 0, r15 = 0, rip = 0x4002,
     rflags = 0, seg_cs = 0, seg_fs = 0, seg_gs = 0\<rparr>"

abbreviation demo_cie_code :: "cfi_op list" where
  "demo_cie_code \<equiv> [CFA_def_cfa 7 8, CFA_offset 16 1]"

abbreviation demo_fde_code :: "cfi_op list" where
  "demo_fde_code \<equiv> [CFA_advance_loc 1, CFA_def_cfa_offset 16, CFA_offset 6 2, CFA_advance_loc 3, CFA_def_cfa_register 6]"

definition demo_state1 :: FIRCLSDwarfState where
  "demo_state1 = the (cfi_run x86_64_ops (cie demo_record) INTPTR_MAX 0x1000 demo_cie_code (zero_state x86_64_ops, 0))"

definition demo_state :: FIRCLSDwarfState where
  "demo_state = the (cfi_run x86_64_ops (cie demo_record) 2 0x1100 demo_fde_code (demo_state1, 0))"

lemma demo_programs:
  "holds_program demo_env x86_64_ops (cie_instructions (cie demo_record)) demo_cie_code"
  "holds_program demo_env x86_64_ops (fde_instructions (fde demo_record)) demo_fde_code"
  by (simp_all add: holds_program_def demo_env_def env_of_def demo_record_def x86_64_ops_def
      uleb128_encode.simps)

lemma demo_runs:
  "cfi_run x86_64_ops (cie demo_record) INTPTR_MAX 0x1000 demo_cie_code (zero_state x86_64_ops, 0) = Some demo_state1"
  "cfi_run x86_64_ops (cie demo_record) 2 0x1100 demo_fde_code (demo_state1, 0) = Some demo_state"
  by (simp_all add: demo_state1_def demo_state_def INTPTR_MAX_def c_smul_def demo_record_def)

lemma demo_state_eq: "demo_state = \<lparr>cfaRegister = 7, cfaRegisterOffset = 16, cfaExpression = 0, spArgSize = 0,
    saved = (replicate 17 \<lparr>location = FIRCLSDwarfRegisterUnused, reg_value = 0\<rparr>)
      [16 := \<lparr>location = FIRCLSDwarfRegisterInCFA, reg_value = - 8\<rparr>,
       6 := \<lparr>location = FIRCLSDwarfRegisterInCFA, reg_value = - 16\<rparr>], overrun = False\<rparr>"
  by (simp add: demo_state_def demo_state1_def INTPTR_MAX_def c_smul_def demo_record_def set_saved_def
      store_register_def zero_state_def x86_64_ops_def)

lemma demo_return_address: "FIRCLSReadWord demo_env 0x8008 = Some 0x5678"
proof -
  have "bytes_at demo_env 0x8008 [0x78, 0x56, 0, 0, 0, 0, 0, 0]"
    by (simp add: demo_env_def env_of_def)
  from ReadWord_vm_read_ok [OF _ _ this] show ?thesis
    by (simp add: demo_env_def vm_read_ok_env_of FIRCLSIsValidPointer_def le_word_def)
qed


text \<open>
  C28. Whatever goes wrong while a frame is unwound, a failing status leaves the caller's register
  file exactly as it was; the partial results stay in the function's own copy.
\<close>

theorem dwarf_unwind_failure_keeps_registers:
  "FIRCLSDwarfUnwindComputeRegisters env ops record regs = Returned (False, r) \<Longrightarrow> r = regs"
  by (rule ComputeRegisters_failed)

lemma dwarf_unwind_failure_keeps_registers_witness:
  "\<exists>r. FIRCLSDwarfUnwindComputeRegisters demo_env x86_64_ops
     (demo_record\<lparr>fde := (fde demo_record)\<lparr>startAddress := 0x5000\<rparr>\<rparr>) demo_regs = Returned (False, r) \<and>
     r = demo_regs"
proof -
  have run: "FIRCLSDwarfUnwindComputeRegisters demo_env x86_64_ops
      (demo_record\<lparr>fde := (fde demo_record)\<lparr>startAddress := 0x5000\<rparr>\<rparr>) demo_regs = Returned (False, demo_regs)"
    using program_runs [OF demo_programs(1), of "cie demo_record" "zero_state x86_64_ops" INTPTR_MAX] demo_runs(1)
    by (simp add: FIRCLSDwarfUnwindComputeRegisters_def run_result_def x86_64_ops_def x86_register_defs
        demo_regs_def demo_record_def)
  from run dwarf_unwind_failure_keeps_registers [OF run] show ?thesis by blast
qed

section \<open>Expressions\<close>

text \<open>
  C5. \<open>FIRCLSDwarfEvalulateExpression\<close> computes the meaning of a DWARF expression: on the
  assembled bytes of any list of operations that runs without underflow, overflow of the 100
  entries, or a failing read, it returns true with the top of the resulting stack.
\<close>

theorem expression_evaluates:
  assumes "bytes_at env c (uleb128_encode (length (dw_code prog)) @ dw_code prog)"
    and "prog \<noteq> []" and "length (dw_code prog) < 2 ^ 31" and "\<forall>i \<in> set prog. dw_wf ops i"
    and "FIRCLSIsValidPointer c"
    and "unat c + length (uleb128_encode (length (dw_code prog)) @ dw_code prog) < 2 ^ 64"
    and "dw_run env ops r prog [v0] = Some (res # st)"
  shows "FIRCLSDwarfEvalulateExpression env ops c r v0 r0 = Some (True, res)"
  using assms by (rule evaluate_code)

lemma expression_evaluates_witness:
  "FIRCLSDwarfEvalulateExpression (env_of [(0x1000, [4, 0x77, 8, 0x34, 0x22])]) x86_64_ops 0x1000
     demo_regs 0 0 = Some (True, 0x800C)"
  by (rule expression_evaluates [where prog = "[DW_breg 7 8, DW_lit 4, DW_plus]" and st = "[0]"])
    (simp_all add: env_of_def uleb128_encode.simps sleb128_encode.simps FIRCLSIsValidPointer_def dw_push_def
      c_sadd_def x86_64_ops_def x86_register_defs demo_regs_def)


definition full_machine :: "x86_state FIRCLSDwarfExpressionMachine" where
  "full_machine = \<lparr>stack = \<lparr>buffer = replicate 100 0, pointer = Some 100\<rparr>, dataCursor = 0x1000,
     endAddress = 0x1001, registers = demo_regs\<rparr>"


text \<open>
  Every opcode advances the cursor by one to nine bytes and leaves the end address and the
  registers alone: the step that makes the evaluation loop end.
\<close>

theorem opcode_advances:
  assumes "FIRCLSDwarfExpressionMachineExecuteNextOpcode env ops m = Some (ok, m')"
  shows "\<exists>k. 1 \<le> k \<and> k \<le> 9 \<and> dataCursor m' = dataCursor m + of_nat k \<and>
           endAddress m' = endAddress m \<and> registers m' = registers m"
  using assms by (rule ExecuteNextOpcode_moves)

lemma opcode_advances_example:
  "\<exists>m'. FIRCLSDwarfExpressionMachineExecuteNextOpcode (env_of [(0x1000, [0x35])]) x86_64_ops
        (full_machine\<lparr>stack := FIRCLSDwarfExpressionStackInit\<rparr>) = Some (True, m') \<and>
      (\<exists>k. 1 \<le> k \<and> k \<le> 9 \<and> dataCursor m' = 0x1000 + of_nat k \<and> endAddress m' = 0x1001 \<and>
         registers m' = demo_regs)"
proof -
  let ?m0 = "full_machine\<lparr>stack := FIRCLSDwarfExpressionStackInit\<rparr>"
  obtain m where run: "FIRCLSDwarfExpressionMachineExecuteNextOpcode (env_of [(0x1000, [0x35])]) x86_64_ops ?m0 =
      Some (True, m)"
    by (simp add: FIRCLSDwarfExpressionMachineExecuteNextOpcode_def ParseUint8_byte env_of_def full_machine_def
        FIRCLSDwarfExpressionMachineExecute_litN_def machine_stack_defs stack_defs
        FIRCLSDwarfExpressionStackInit_def CLS_DWARF_EXPRESSION_STACK_SIZE_def)
  from run opcode_advances [OF run] show ?thesis
    by (intro exI [of _ m]) (simp add: full_machine_def)
qed

text \<open>
  \<open>DW_OP_deref_size\<close> reads through the address on the stack with no check, so an unmapped
  address faults inside the crash handler, where \<open>DW_OP_deref\<close> with the same operand reports a
  failure.
\<close>

theorem deref_size_faults:
  assumes "holds m (v # st)" and "mem env (dataCursor m) = Some 8" and "mem env v = None"
    and "vm_read_ok env"
  shows "FIRCLSDwarfExpressionMachineExecute_deref_size env m = None \<and>
    (\<exists>m'. FIRCLSDwarfExpressionMachineExecute_deref env m = Some (False, m'))"
  using holds_pop [OF assms(1)] assms(2-4)
  by (auto simp: opcode_defs ParseUint8_byte Let_def FIRCLSParseUint64AndAdvance_def parse_fixed_def
      load_unmapped FIRCLSReadWord_def FIRCLSReadMemory_def vm_read_ok_def)

lemma deref_size_faults_example:
  "\<exists>m. holds (m :: x86_state FIRCLSDwarfExpressionMachine) [0x5000] \<and>
     FIRCLSDwarfExpressionMachineExecute_deref_size (env_of [(0x1000, [8])]) m = None \<and>
     (\<exists>m'. FIRCLSDwarfExpressionMachineExecute_deref (env_of [(0x1000, [8])]) m = Some (False, m'))"
proof -
  obtain s where s: "FIRCLSDwarfExpressionMachineInit 0x1000 demo_regs 0x5000 =
      (True, \<lparr>stack = s, dataCursor = 0x1000, endAddress = 0, registers = demo_regs\<rparr>)"
      "stack_good s" "stack_values s = [0x5000]"
    using init_holds [of "0x1000" demo_regs "0x5000"] by (auto simp: FIRCLSIsValidPointer_def)
  define m where "m = \<lparr>stack = s, dataCursor = 0x1000, endAddress = 0, registers = demo_regs\<rparr>"
  have h: "holds m [0x5000]" using s by (simp add: holds_def m_def)
  have "FIRCLSDwarfExpressionMachineExecute_deref_size (env_of [(0x1000, [8])]) m = None \<and>
      (\<exists>m'. FIRCLSDwarfExpressionMachineExecute_deref (env_of [(0x1000, [8])]) m = Some (False, m'))"
    by (rule deref_size_faults [OF h]) (simp_all add: m_def vm_read_ok_env_of, simp_all add: env_of_def)
  with h show ?thesis by blast
qed

section \<open>Call frame programs\<close>

text \<open>
  C4. \<open>FIRCLSDwarfInstructionsEnumerate\<close> computes the row of the call frame table. The program is assembled
  from instructions of the kinds the code implements (\<open>DW_CFA_set_loc\<close> apart), with register numbers of the
  architecture and other operands below 2^31, alignment factors of 31 bits and locations below 2^63; the
  standard allows it. Two properties of the code restrict it further: a \<open>DW_CFA_advance_loc\<close>, which the code
  takes for the location itself and not for a delta, comes in front of every other advance, unless all the
  locations are before the code offset; and no CFA register follows a CFA expression. Then the loop returns true
  with register rules that stand for the row of the standard: the CFA and the rule of every register
  after the instructions whose location, the sum of the deltas so far, is before the code offset.
\<close>

theorem call_frame_program_runs:
  assumes "holds_program env ops ins prog" and "MAX_REGISTER_NUM ops < 64" and "small_factors r"
    and "length (saved st) = MAX_REGISTER_NUM ops + 1"
    and "row_run r (sint pc) (inst_data ins) prog (0, row_of st) = Some row"
    and "last_location r prog < 2 ^ 63"
    and "advance_first False prog \<or> last_location r prog < sint pc"
    and "expression_stays (cfaExpression st \<noteq> 0) prog"
  shows "\<exists>st'. FIRCLSDwarfInstructionsEnumerate env ops ins r st pc = Returned (True, st') \<and> row_of st' = row"
proof -
  have "offset_ok r pc prog False 0 0" using assms(6,7) by (auto simp: offset_ok_def)
  moreover have "\<forall>i \<in> set prog. cfi_op_wf ops i" "unat (inst_data ins) + length (cfi_code prog) < 2 ^ 64"
    using assms(1) by (simp_all add: holds_program_def)
  ultimately obtain st' where "cfi_run ops r pc (inst_data ins) prog (st, 0) = Some st'" "row_of st' = row"
    using run_rows [OF _ assms(2-5) _ assms(8)] by blast
  then show ?thesis using program_runs [OF assms(1,2), of r st pc] by (simp add: run_result_def)
qed

text \<open>The prologue \<open>push rbp; mov rbp, rsp\<close>, stopped behind it: two advances, both before the code offset.\<close>

lemma call_frame_program_runs_witness:
  "\<exists>st'. FIRCLSDwarfInstructionsEnumerate demo_env x86_64_ops (fde_instructions (fde demo_record)) (cie demo_record)
      demo_state1 0x20 = Returned (True, st') \<and> cfa_rule (row_of st') = Cfa_register 6 16 \<and>
    register_rule (row_of st') 6 = Saved_at (- 16) \<and> register_rule (row_of st') 16 = Saved_at (- 8)"
proof -
  let ?r = "cie demo_record" and ?row = "\<lparr>cfa_rule = Cfa_register 6 16,
    register_rule = (register_rule (row_of demo_state1))(6 := Saved_at (- 16))\<rparr>"
  have state1: "demo_state1 = \<lparr>cfaRegister = 7, cfaRegisterOffset = 8, cfaExpression = 0, spArgSize = 0,
      saved = (replicate 17 \<lparr>location = FIRCLSDwarfRegisterUnused, reg_value = 0\<rparr>)
        [16 := \<lparr>location = FIRCLSDwarfRegisterInCFA, reg_value = - 8\<rparr>], overrun = False\<rparr>"
    by (simp add: demo_state1_def INTPTR_MAX_def demo_record_def set_saved_def store_register_def
        zero_state_def x86_64_ops_def)
  have row1: "cfa_rule (row_of demo_state1) = Cfa_register 7 8" "register_rule (row_of demo_state1) 16 = Saved_at (- 8)"
    "length (saved demo_state1) = 17" "cfaExpression demo_state1 = 0"
    by (simp_all add: state1 row_of_def rule_of_def)
  have r: "small_factors ?r" "codeAlignFactor ?r = 1" "sint (dataAlignFactor ?r) = - 8"
    by (simp_all add: small_factors_def demo_record_def)
  have last: "last_location ?r demo_fde_code < 2 ^ 63" "last_location ?r demo_fde_code < sint (0x20 :: u64)"
    by (simp_all add: last_location_def advance_def r(2))
  have max: "MAX_REGISTER_NUM x86_64_ops < 64" "length (saved demo_state1) = MAX_REGISTER_NUM x86_64_ops + 1"
    by (simp_all add: x86_64_ops_def row1)
  have stays: "expression_stays (cfaExpression demo_state1 \<noteq> 0) demo_fde_code" by (simp add: row1)
  have run: "row_run ?r (sint (0x20 :: u64)) (inst_data (fde_instructions (fde demo_record))) demo_fde_code
      (0, row_of demo_state1) = Some ?row"
    by (simp add: row1 r advance_def)
  obtain st' where "FIRCLSDwarfInstructionsEnumerate demo_env x86_64_ops (fde_instructions (fde demo_record)) ?r
      demo_state1 0x20 = Returned (True, st')" "row_of st' = ?row"
    using call_frame_program_runs [OF demo_programs(2) max(1) r(1) max(2) run last(1) disjI2 [OF last(2)]] stays by blast
  then show ?thesis using row1(2) by simp
qed

text \<open>
  C27. Whatever bytes are run as call frame instructions, from well-formed rules: no instruction
  writes outside the array of register rules, the array keeps one rule per register, the CFA register
  is a register (or the code's "none"), and a rule that names a register names one of the
  architecture; so that no later step indexes outside the array.
\<close>

theorem call_frame_rules_well_formed:
  assumes "cfi_wf ops st" and "MAX_REGISTER_NUM ops < 64"
    and "FIRCLSDwarfInstructionsEnumerate env ops ins r st pc = Returned (ok, st')"
  shows "cfi_wf ops st'"
  using enumerate_loop_wf [of ops "(inst_data ins, st, 0)"] assms
  by (simp add: FIRCLSDwarfInstructionsEnumerate_def)

lemma call_frame_rules_well_formed_witness: "cfi_wf x86_64_ops demo_state1"
proof (rule call_frame_rules_well_formed [OF cfi_wf_zero])
  show "FIRCLSDwarfInstructionsEnumerate demo_env x86_64_ops (cie_instructions (cie demo_record)) (cie demo_record)
      (zero_state x86_64_ops) INTPTR_MAX = Returned (True, demo_state1)"
    using program_runs [OF demo_programs(1), of "cie demo_record" "zero_state x86_64_ops" INTPTR_MAX] demo_runs(1)
    by (simp add: run_result_def x86_64_ops_def demo_record_def)
qed (simp add: x86_64_ops_def)

text \<open>
  C38. The instruction loop returns: with one unit of fuel per byte of the program it never runs
  out, as long as the program does not lie within 2 GiB of the top of the address space.
\<close>

theorem call_frame_loop_terminates:
  assumes "unat (inst_data ins) + unat (inst_length ins) + 2 ^ 31 + 17 < 2 ^ 64"
  shows "FIRCLSDwarfInstructionsEnumerate env ops ins r st pc \<noteq> Out_of_fuel"
  using assms by (rule Enumerate_enough_fuel)

lemma call_frame_loop_terminates_witness:
  "FIRCLSDwarfInstructionsEnumerate demo_env x86_64_ops \<lparr>inst_length = 0xFFFFFFFF, inst_data = 0x1100\<rparr>
     (cie demo_record) demo_state1 0x100 \<noteq> Out_of_fuel"
  by (rule call_frame_loop_terminates) simp

lemma sint_of_nat_small: "n < 2 ^ 32 \<Longrightarrow> sint (of_nat n :: u64) = int n"
  by (simp add: signed_of_nat signed_take_bit_int_eq_self)

lemma c_smul_small: "c_smul (of_nat d) 1 = Some (of_nat d)" if "d < 64"
  using that by (simp add: c_smul_def sint_of_nat_small)

text \<open>
  \<open>DW_CFA_advance_loc\<close> overwrites the code offset where the other advance instructions add
  to it: after two advances of \<open>d1\<close> and \<open>d2\<close> the offset is \<open>d2\<close>, so a rule that belongs to location
  \<open>d1 + d2\<close> is applied to a program counter in front of it. The same program with
  \<open>DW_CFA_advance_loc1\<close> stops in front of that rule.
\<close>

theorem advance_loc_restarts:
  assumes "holds_program env ops ins1 [CFA_advance_loc d1, CFA_advance_loc d2, CFA_def_cfa_offset v]"
    and "holds_program env ops ins2 [CFA_advance_loc1 d1, CFA_advance_loc1 d2, CFA_def_cfa_offset v]"
    and "MAX_REGISTER_NUM ops < 64" and "codeAlignFactor r = 1"
    and "d1 < pc" and "d2 < pc" and "pc \<le> d1 + d2"
  shows "FIRCLSDwarfInstructionsEnumerate env ops ins1 r st (of_nat pc) =
           Returned (True, st\<lparr>cfaRegisterOffset := of_nat v\<rparr>) \<and>
         FIRCLSDwarfInstructionsEnumerate env ops ins2 r st (of_nat pc) = Returned (True, st)"
proof -
  have d: "d1 < 64" "d2 < 64" using assms(1) by (simp_all add: holds_program_def)
  have add: "c_sadd (of_nat a) (of_nat b) = Some (of_nat a + of_nat b)" if "a < 64" "b < 64" for a b
    using that by (simp add: c_sadd_def sint_of_nat_small)
  have sum: "sint (of_nat d1 + of_nat d2 :: u64) = int (d1 + d2)"
    using sint_of_nat_small [of "d1 + d2"] d by simp
  have sints: "sint (of_nat d1 :: u64) = int d1" "sint (of_nat d2 :: u64) = int d2"
      "sint (of_nat pc :: u64) = int pc"
    using d assms(7) by (simp_all add: sint_of_nat_small)
  show ?thesis
    unfolding program_runs [OF assms(1,3)] program_runs [OF assms(2,3)]
    using d assms(4-7) by (simp add: run_result_def c_smul_small add sints sum)
qed

lemma advance_loc_restarts_example:
  "FIRCLSDwarfInstructionsEnumerate (env_of [(0x1000, [0x45, 0x46, 0x0E, 16]), (0x1100, [2, 5, 2, 6, 0x0E, 16])])
     x86_64_ops \<lparr>inst_length = 4, inst_data = 0x1000\<rparr> (cie demo_record) demo_state1 (of_nat 8) =
     Returned (True, demo_state1\<lparr>cfaRegisterOffset := of_nat 16\<rparr>) \<and>
   FIRCLSDwarfInstructionsEnumerate (env_of [(0x1000, [0x45, 0x46, 0x0E, 16]), (0x1100, [2, 5, 2, 6, 0x0E, 16])])
     x86_64_ops \<lparr>inst_length = 6, inst_data = 0x1100\<rparr> (cie demo_record) demo_state1 (of_nat 8) =
     Returned (True, demo_state1)"
  by (rule advance_loc_restarts [where ?d1.0 = 5 and ?d2.0 = 6])
    (simp_all add: holds_program_def env_of_def x86_64_ops_def uleb128_encode.simps demo_record_def)

text \<open>
  Once a CFA expression has been seen it cannot be replaced: a later \<open>DW_CFA_def_cfa\<close> stores
  its register and offset, but the CFA is still computed from the expression.
\<close>

theorem def_cfa_does_not_replace_expression:
  assumes "cfaExpression st \<noteq> 0"
    and "FIRCLSDwarfParseAndExecute_def_cfa env ops cursor st = Some (True, cursor', st')"
  shows "FIRCLSDwarfGetCFA env ops st' regs cfa = FIRCLSDwarfGetCFA env ops st regs cfa"
  using assms
  by (auto simp: FIRCLSDwarfParseAndExecute_def_cfa_def FIRCLSDwarfGetCFA_def bind_eq_Some_conv split: if_splits)

lemma def_cfa_does_not_replace_expression_example:
  "FIRCLSDwarfGetCFA (env_of [(0x1000, [7, 8])]) x86_64_ops
     (demo_state\<lparr>cfaExpression := 0x20, cfaRegister := 7, cfaRegisterOffset := 8\<rparr>) demo_regs 0 =
   FIRCLSDwarfGetCFA (env_of [(0x1000, [7, 8])]) x86_64_ops (demo_state\<lparr>cfaExpression := 0x20\<rparr>) demo_regs 0"
proof (rule def_cfa_does_not_replace_expression)
  have "FIRCLSParseULEB128AndAdvance (env_of [(0x1000, [7, 8])]) 0x1000 = Some (7, 0x1001)"
      "FIRCLSParseULEB128AndAdvance (env_of [(0x1000, [7, 8])]) 0x1001 = Some (8, 0x1002)"
    using ParseULEB128_encode [of "env_of [(0x1000, [7, 8])]" "0x1000" 7]
      ParseULEB128_encode [of "env_of [(0x1000, [7, 8])]" "0x1001" 8]
    by (simp_all add: env_of_def uleb128_encode.simps)
  then show "FIRCLSDwarfParseAndExecute_def_cfa (env_of [(0x1000, [7, 8])]) x86_64_ops 0x1000
      (demo_state\<lparr>cfaExpression := 0x20\<rparr>) =
      Some (True, 0x1002, demo_state\<lparr>cfaExpression := 0x20, cfaRegister := 7, cfaRegisterOffset := 8\<rparr>)"
    by (simp add: FIRCLSDwarfParseAndExecute_def_cfa_def x86_64_ops_def)
qed simp

text \<open>
  A step that succeeds has changed both the stack pointer and the return address, so a walk
  cannot stay on one frame.
\<close>

theorem assigned_registers_changed:
  assumes "FIRCLSDwarfUnwindAssignRegisters env ops st regs cfa output = Some (True, new)"
  shows "GetRegisterValue ops new (of_nat (REG_SP ops)) \<noteq> GetRegisterValue ops regs (of_nat (REG_SP ops)) \<and>
    GetRegisterValue ops new (of_nat (REG_RETURN ops)) \<noteq> GetRegisterValue ops regs (of_nat (REG_RETURN ops))"
  using assms by (rule ComputeRegisters_changes)

lemma assigned_registers_changed_example:
  "\<exists>new. FIRCLSDwarfUnwindAssignRegisters demo_env x86_64_ops demo_state demo_regs 0x8010 demo_regs = Some (True, new) \<and>
     GetRegisterValue x86_64_ops new 7 \<noteq> GetRegisterValue x86_64_ops demo_regs 7 \<and>
     GetRegisterValue x86_64_ops new 16 \<noteq> GetRegisterValue x86_64_ops demo_regs 16"
proof -
  have total: "rules_total demo_env x86_64_ops demo_state demo_regs 0x8010"
    by (rule rules_total_no_expression) (auto simp: demo_state_eq x86_64_ops_def nth_list_update)
  have ra: "restored demo_env x86_64_ops demo_state demo_regs 0x8010 16 = Some 0x5678"
    by (simp add: restored_def demo_state_eq FIRCLSDwarfGetSavedRegister_def demo_return_address)
  obtain new where run: "FIRCLSDwarfUnwindAssignRegisters demo_env x86_64_ops demo_state demo_regs 0x8010 demo_regs = Some (True, new)"
    using x86_64.assign_registers [OF _ total, of "0x5678" demo_regs] ra
    by (auto simp: x86_64_ops_def x86_register_defs demo_regs_def)
  from run assigned_registers_changed [OF run] show ?thesis
    by (intro exI [of _ new]) (simp add: x86_64_ops_def)
qed

section \<open>Decoding\<close>

text \<open>
  C32. A CIE laid out as the standard says (32-bit format, version 1 or 3, with or without a 'z'
  augmentation of L, R and S entries) is parsed back to its contents: every field, the effect of
  each augmentation entry, and the position and length of its instructions.
\<close>

theorem cie_parses:
  assumes "bytes_at env c (cie_encode d)" and "cie_wf d" and "c \<noteq> 0"
    and "unat c + length (cie_encode d) < 2 ^ 64"
  shows "FIRCLSDwarfParseCIERecord env cie0 c = Some (True, cie_expected c d)"
  using assms by (rule ParseCIE_desc)

definition demo_cie :: cie_desc where
  "demo_cie = \<lparr>cd_version = 1, cd_code = 1, cd_data = - 8, cd_ra = 16, cd_aug = Some [Aug_R 0x10],
     cd_insts = [0x0C, 7, 8, 0x90, 1]\<rparr>"

lemma demo_cie_bytes: "cie_encode demo_cie =
    [18, 0, 0, 0, 0, 0, 0, 0, 1, 0x7A, 0x52, 0, 1, 0x78, 16, 1, 0x10, 0x0C, 7, 8, 0x90, 1]"
  by (simp add: cie_encode_def cie_head_def demo_cie_def cd_string_def cd_aug_data_def cd_ra_bytes_def
      uleb128_encode.simps sleb128_encode.simps le_bytes_4)

lemma cie_parses_witness:
  "FIRCLSDwarfParseCIERecord (env_of [(0x1000, cie_encode demo_cie)]) zero_cie 0x1000 =
     Some (True, cie_expected 0x1000 demo_cie)"
proof (rule cie_parses)
  show "bytes_at (env_of [(0x1000, cie_encode demo_cie)]) 0x1000 (cie_encode demo_cie)"
    unfolding demo_cie_bytes by (simp add: env_of_def)
  have "length (cie_head demo_cie @ cd_insts demo_cie) = 18"
    using arg_cong [OF demo_cie_bytes, of length] by (simp add: cie_encode_def)
  then show "cie_wf demo_cie" by (simp add: cie_wf_def) (simp add: demo_cie_def)
qed (simp_all add: demo_cie_bytes)

text \<open>
  C31. The ULEB128 decoder inverts the standard's encoding below 2^31, and beyond it shifts an
  \<open>int\<close> out of range, which C leaves undefined, although its result type has 64 bits.
\<close>

theorem uleb128_decodes:
  assumes "bytes_at env c (uleb128_encode n)"
  shows "FIRCLSParseULEB128AndAdvance env c =
    (if n < 2 ^ 31 then Some (of_nat n, c + of_nat (length (uleb128_encode n))) else None)"
  using assms by (rule ParseULEB128_encode)

lemma uleb128_decodes_witness:
  "FIRCLSParseULEB128AndAdvance (env_of [(0x1000, [0xE5, 0x8E, 0x26])]) 0x1000 = Some (624485, 0x1003)"
  using uleb128_decodes [of "env_of [(0x1000, [0xE5, 0x8E, 0x26])]" "0x1000" 624485]
  by (simp add: env_of_def uleb128_encode.simps)

text \<open>
  The signed decoder inverts SLEB128 from -2^27 to 2^31 - 1 and is undefined outside.
\<close>

theorem sleb128_decodes:
  assumes "bytes_at env c (sleb128_encode n)"
  shows "FIRCLSParseLEB128AndAdvance env c =
    (if - (2 ^ 27) \<le> n \<and> n < 2 ^ 31
     then Some (of_int n, c + of_nat (length (sleb128_encode n))) else None)"
  using assms by (rule ParseLEB128_encode)

lemma sleb128_decodes_example:
  "FIRCLSParseLEB128AndAdvance (env_of [(0x1000, [0x80, 0x7F])]) 0x1000 = Some (- 128, 0x1002)"
  using sleb128_decodes [of "env_of [(0x1000, [0x80, 0x7F])]" "0x1000" "- 128"]
  by (simp add: env_of_def sleb128_encode.simps)

section \<open>Register files\<close>

text \<open>
  On ARM64 a rule for the link register sets the program counter too (the virtual "return
  register" of DWARF), every other register keeps its value, and the numbers above the stack
  pointer are refused without a change.
\<close>

theorem arm64_return_register:
  assumes "sdk_ok sdk" and "length (x r) = 29"
  shows "GetPC (arm64_ops sdk) (snd (SetRegisterValue (arm64_ops sdk) r 30 v)) = CLS_PTRAUTH_STRIP v \<and>
    GetRegisterValue (arm64_ops sdk) (snd (SetRegisterValue (arm64_ops sdk) r 30 v)) 30 = CLS_PTRAUTH_STRIP v \<and>
    (\<forall>m. m \<noteq> 30 \<longrightarrow> GetRegisterValue (arm64_ops sdk) (snd (SetRegisterValue (arm64_ops sdk) r 30 v)) m =
       GetRegisterValue (arm64_ops sdk) r m) \<and>
    (\<forall>n. 31 < unat n \<longrightarrow> SetRegisterValue (arm64_ops sdk) r n v = (False, r))"
proof -
  note regs = arm64_sdk.arm64_register_file [OF arm64_sdk.intro [OF assms(1)]]
  note pc = register_file.pc_set_return [OF regs, of r v]
    and same = register_file.get_set_same [OF regs, of r 30 v]
    and other = register_file.get_set_other [OF regs, of r _ 30 v]
  show ?thesis
    using pc same other assms(2) by (simp add: arm64_ops_def arm_norm_def arm_set_failed)
qed

lemma arm64_return_register_example:
  "GetPC (arm64_ops plain_sdk) (snd (SetRegisterValue (arm64_ops plain_sdk)
     \<lparr>x = replicate 29 0, raw_fp = 0, raw_lr = 0, raw_sp = 0, raw_pc = 0, cpsr = 0\<rparr> 30 0xAB00000100004000)) = 0x100004000"
  using conjunct1 [OF arm64_return_register [OF plain_sdk_ok,
      of "\<lparr>x = replicate 29 0, raw_fp = 0, raw_lr = 0, raw_sp = 0, raw_pc = 0, cpsr = 0\<rparr>" "0xAB00000100004000"]]
  by (simp add: CLS_PTRAUTH_STRIP_def)

end
