(* ===== verification/Cls_Compact_Unwind.thy ===== *)
theory Cls_Compact_Unwind
  imports Cls_Dwarf_Unwind
begin

text \<open>
  FIRCLSCompactUnwind.c: finding the compact encoding of a program counter in the two-level
  table of a binary image. The structures and the macros of \<open>mach-o/compact_unwind_encoding.h\<close>
  belong to Apple's SDK and are not under src/, so they are a parameter, \<open>compact_abi\<close>: the sizes
  and field offsets the code reads at, how a header is read from its bytes, and the macros.
\<close>

section \<open>The SDK's header\<close>

record unwind_info_section_header =
  hdr_version :: u32
  commonEncodingsArraySectionOffset :: u32
  commonEncodingsArrayCount :: u32
  indexSectionOffset :: u32
  indexCount :: u32

record unwind_info_section_header_index_entry =
  functionOffset :: u32
  secondLevelPagesSectionOffset :: u32

record compact_abi =
  UNWIND_SECTION_VERSION :: u32
  UNWIND_SECOND_LEVEL_REGULAR :: u32
  UNWIND_SECOND_LEVEL_COMPRESSED :: u32
  header_size :: nat
  header_of :: "u8 list \<Rightarrow> unwind_info_section_header"
  index_size :: nat
  index_functionOffset :: nat
  index_of :: "u8 list \<Rightarrow> unwind_info_section_header_index_entry"
  page_entryPageOffset :: nat
  page_entryCount :: nat
  page_encodingsPageOffset :: nat
  COMPRESSED_ENTRY_FUNC_OFFSET :: "u32 \<Rightarrow> u32"
  COMPRESSED_ENTRY_ENCODING_INDEX :: "u32 \<Rightarrow> u32"

definition load32 :: "cls_env \<Rightarrow> u64 \<Rightarrow> u32 option" where
  "load32 env a = map_option le_word (load env a 4)"

definition load16 :: "cls_env \<Rightarrow> u64 \<Rightarrow> u16 option" where
  "load16 env a = map_option le_word (load env a 2)"

section \<open>Context and accessors\<close>

record FIRCLSCompactUnwindContext =
  unwindInfo :: u64
  ehFrame :: u64
  loadAddress :: u64
  unwindHeader :: unwind_info_section_header
  indexHeader :: unwind_info_section_header_index_entry
  firstLevelNextFunctionOffset :: u32

record FIRCLSCompactUnwindResult =
  encoding :: u32
  functionStart :: u64
  functionEnd :: u64
  lsda :: u64
  personality :: u64

definition zero_compact_context :: FIRCLSCompactUnwindContext where
  "zero_compact_context = \<lparr>unwindInfo = 0, ehFrame = 0, loadAddress = 0,
     unwindHeader = \<lparr>hdr_version = 0, commonEncodingsArraySectionOffset = 0, commonEncodingsArrayCount = 0,
       indexSectionOffset = 0, indexCount = 0\<rparr>,
     indexHeader = \<lparr>functionOffset = 0, secondLevelPagesSectionOffset = 0\<rparr>,
     firstLevelNextFunctionOffset = 0\<rparr>"

definition zero_compact_result :: FIRCLSCompactUnwindResult where
  "zero_compact_result = \<lparr>encoding = 0, functionStart = 0, functionEnd = 0, lsda = 0, personality = 0\<rparr>"

definition FIRCLSCompactUnwindInit ::
  "cls_env \<Rightarrow> compact_abi \<Rightarrow> FIRCLSCompactUnwindContext \<Rightarrow> u64 \<Rightarrow> u64 \<Rightarrow> u64 \<Rightarrow> bool \<times> FIRCLSCompactUnwindContext" where
  "FIRCLSCompactUnwindInit env abi ctx info eh loadAddr =
    (if \<not> FIRCLSIsValidPointer info then (False, ctx)
     else if \<not> FIRCLSIsValidPointer loadAddr then (False, ctx)
     else case FIRCLSReadMemory env info (header_size abi) of
       None \<Rightarrow> (False, zero_compact_context)
     | Some bs \<Rightarrow>
        let ctx = zero_compact_context\<lparr>unwindHeader := header_of abi bs\<rparr> in
        if hdr_version (header_of abi bs) \<noteq> UNWIND_SECTION_VERSION abi then (False, ctx)
        else (True, ctx\<lparr>unwindInfo := info, ehFrame := eh, loadAddress := loadAddr\<rparr>))"

definition FIRCLSCompactUnwindGetIndexData :: "FIRCLSCompactUnwindContext \<Rightarrow> u64" where
  "FIRCLSCompactUnwindGetIndexData ctx = unwindInfo ctx + ucast (indexSectionOffset (unwindHeader ctx))"

definition FIRCLSCompactUnwindGetCommonEncodings :: "FIRCLSCompactUnwindContext \<Rightarrow> u64" where
  "FIRCLSCompactUnwindGetCommonEncodings ctx =
     unwindInfo ctx + ucast (commonEncodingsArraySectionOffset (unwindHeader ctx))"

definition FIRCLSCompactUnwindGetSecondLevelData :: "FIRCLSCompactUnwindContext \<Rightarrow> u64" where
  "FIRCLSCompactUnwindGetSecondLevelData ctx =
     unwindInfo ctx + ucast (secondLevelPagesSectionOffset (indexHeader ctx))"

definition FIRCLSCompactUnwindGetIndexFunctionOffset :: "FIRCLSCompactUnwindContext \<Rightarrow> u64" where
  "FIRCLSCompactUnwindGetIndexFunctionOffset ctx = loadAddress ctx + ucast (functionOffset (indexHeader ctx))"

definition FIRCLSCompactUnwindGetTargetAddress :: "FIRCLSCompactUnwindContext \<Rightarrow> u64 \<Rightarrow> u64" where
  "FIRCLSCompactUnwindGetTargetAddress ctx pc =
    (let offset = FIRCLSCompactUnwindGetIndexFunctionOffset ctx in if pc \<le> offset then 0 else pc - offset)"

section \<open>First level\<close>

text \<open>The loop; the first argument is how many index pairs are left.\<close>

primrec first_level_loop ::
  "nat \<Rightarrow> cls_env \<Rightarrow> compact_abi \<Rightarrow> u64 \<Rightarrow> FIRCLSCompactUnwindContext \<Rightarrow> u64 \<Rightarrow> (bool \<times> FIRCLSCompactUnwindContext) option" where
  "first_level_loop 0 env abi entry ctx address = Some (False, ctx)"
| "first_level_loop (Suc n) env abi entry ctx address = do {
     let nextEntry = entry + of_nat (index_size abi);
     val \<leftarrow> load32 env (entry + of_nat (index_functionOffset abi));
     nextVal \<leftarrow> load32 env (nextEntry + of_nat (index_functionOffset abi));
     (if ucast val \<le> address \<and> address < ucast nextVal then do {
        bs \<leftarrow> load env entry (index_size abi);
        Some (True, ctx\<lparr>firstLevelNextFunctionOffset := nextVal, indexHeader := index_of abi bs\<rparr>) }
      else first_level_loop n env abi nextEntry ctx address) }"

definition FIRCLSCompactUnwindLookupFirstLevel ::
  "cls_env \<Rightarrow> compact_abi \<Rightarrow> FIRCLSCompactUnwindContext \<Rightarrow> u64 \<Rightarrow> (bool \<times> FIRCLSCompactUnwindContext) option" where
  "FIRCLSCompactUnwindLookupFirstLevel env abi ctx address =
    (if indexCount (unwindHeader ctx) < 2 then Some (False, ctx)
     else if address < loadAddress ctx then Some (False, ctx)
     else if FIRCLSCompactUnwindGetIndexData ctx = 0 then Some (False, ctx)
     else first_level_loop (unat (indexCount (unwindHeader ctx)) - 1) env abi
            (FIRCLSCompactUnwindGetIndexData ctx) ctx (address - loadAddress ctx))"

section \<open>Second level\<close>

definition FIRCLSCompactUnwindGetSecondLevelPageKind :: "cls_env \<Rightarrow> FIRCLSCompactUnwindContext \<Rightarrow> u32 option" where
  "FIRCLSCompactUnwindGetSecondLevelPageKind env ctx = load32 env (FIRCLSCompactUnwindGetSecondLevelData ctx)"

definition FIRCLSCompactUnwindLookupSecondLevelRegular :: bool where
  "FIRCLSCompactUnwindLookupSecondLevelRegular = False"

text \<open>The function offset of the entry with the given index, as the code reads it.\<close>

definition entry_offset :: "cls_env \<Rightarrow> compact_abi \<Rightarrow> u64 \<Rightarrow> nat \<Rightarrow> u64 option" where
  "entry_offset env abi arr i =
     map_option (\<lambda>e. ucast (COMPRESSED_ENTRY_FUNC_OFFSET abi e)) (load32 env (arr + 4 * of_nat i))"

text \<open>
  The search loop between \<open>*index\<close> and \<open>highIndex\<close>. The indices are at most 65535, so the
  \<open>uint32_t\<close> arithmetic of the code is that of the naturals.
\<close>

function search_loop :: "cls_env \<Rightarrow> compact_abi \<Rightarrow> u64 \<Rightarrow> u64 \<Rightarrow> nat \<Rightarrow> nat \<Rightarrow> nat \<Rightarrow> (bool \<times> nat) option" where
  "search_loop env abi address arr entryCount index highIndex =
    (if \<not> index < highIndex then Some (index < entryCount, index)
     else let midIndex = (index + highIndex) div 2 in
       case entry_offset env abi arr midIndex of
         None \<Rightarrow> None
       | Some v \<Rightarrow>
          if address < v then
            (if highIndex = midIndex then Some (False, index)
             else search_loop env abi address arr entryCount index midIndex)
          else if midIndex = entryCount - 1 then Some (False, midIndex)
          else (case entry_offset env abi arr (midIndex + 1) of
                  None \<Rightarrow> None
                | Some next \<Rightarrow>
                   if address < next then Some (midIndex < entryCount, midIndex)
                   else search_loop env abi address arr entryCount (midIndex + 1) highIndex))"
  by pat_completeness auto

termination
  by (relation "measure (\<lambda>(_, _, _, _, _, index, highIndex). highIndex - index)") auto

declare search_loop.simps [simp del]

definition FIRCLSCompactUnwindBinarySearchSecondLevel ::
  "cls_env \<Rightarrow> compact_abi \<Rightarrow> u64 \<Rightarrow> nat \<Rightarrow> u16 \<Rightarrow> u64 \<Rightarrow> (bool \<times> nat) option" where
  "FIRCLSCompactUnwindBinarySearchSecondLevel env abi address index entryCount arr =
    (if arr = 0 then Some (False, index)
     else if entryCount = 0 then Some (False, index)
     else if address = 0 then Some (False, index)
     else search_loop env abi address arr (unat entryCount) 0 (unat entryCount))"

definition FIRCLSCompactUnwindLookupSecondLevelCompressed ::
  "cls_env \<Rightarrow> compact_abi \<Rightarrow> FIRCLSCompactUnwindContext \<Rightarrow> u64 \<Rightarrow> FIRCLSCompactUnwindResult \<Rightarrow>
     (bool \<times> FIRCLSCompactUnwindResult) option" where
  "FIRCLSCompactUnwindLookupSecondLevelCompressed env abi ctx pc result =
    (let ptr = FIRCLSCompactUnwindGetSecondLevelData ctx in
     if ptr = 0 then Some (False, result)
     else do {
       let result = zero_compact_result;
       let target = FIRCLSCompactUnwindGetTargetAddress ctx pc;
       entryPageOffset \<leftarrow> load16 env (ptr + of_nat (page_entryPageOffset abi));
       let arr = ptr + ucast entryPageOffset;
       entryCount \<leftarrow> load16 env (ptr + of_nat (page_entryCount abi));
       (found, index) \<leftarrow> FIRCLSCompactUnwindBinarySearchSecondLevel env abi target 0 entryCount arr;
       (if \<not> found then Some (False, result)
        else do {
          entry \<leftarrow> load32 env (arr + 4 * of_nat index);
          let start = ucast (COMPRESSED_ENTRY_FUNC_OFFSET abi entry) + FIRCLSCompactUnwindGetIndexFunctionOffset ctx;
          end \<leftarrow> (if index < unat entryCount - 1 then do {
                    nextEntry \<leftarrow> load32 env (arr + 4 * of_nat (index + 1));
                    Some (loadAddress ctx +
                      ucast (COMPRESSED_ENTRY_FUNC_OFFSET abi nextEntry + functionOffset (indexHeader ctx))) }
                  else Some (loadAddress ctx + ucast (firstLevelNextFunctionOffset ctx)));
          let result = result\<lparr>functionStart := start, functionEnd := end\<rparr>;
          (if pc < start \<or> end \<le> pc then Some (False, result)
           else do {
             let encodingIndex = COMPRESSED_ENTRY_ENCODING_INDEX abi entry;
             let commonCount = commonEncodingsArrayCount (unwindHeader ctx);
             enc \<leftarrow> (if encodingIndex < commonCount
                    then load32 env (FIRCLSCompactUnwindGetCommonEncodings ctx + 4 * ucast encodingIndex)
                    else do {
                      encodingsPageOffset \<leftarrow> load16 env (ptr + of_nat (page_encodingsPageOffset abi));
                      load32 env (ptr + ucast encodingsPageOffset + 4 * ucast (encodingIndex - commonCount)) });
             Some (enc \<noteq> 0, result\<lparr>encoding := enc\<rparr>) }) }) })"

definition FIRCLSCompactUnwindLookupSecondLevel ::
  "cls_env \<Rightarrow> compact_abi \<Rightarrow> FIRCLSCompactUnwindContext \<Rightarrow> u64 \<Rightarrow> FIRCLSCompactUnwindResult \<Rightarrow>
     (bool \<times> FIRCLSCompactUnwindResult) option" where
  "FIRCLSCompactUnwindLookupSecondLevel env abi ctx pc result = do {
     kind \<leftarrow> FIRCLSCompactUnwindGetSecondLevelPageKind env ctx;
     (if kind = UNWIND_SECOND_LEVEL_REGULAR abi
      then Some (FIRCLSCompactUnwindLookupSecondLevelRegular, result)
      else if kind = UNWIND_SECOND_LEVEL_COMPRESSED abi
      then FIRCLSCompactUnwindLookupSecondLevelCompressed env abi ctx pc result
      else Some (False, result)) }"

definition FIRCLSCompactUnwindLookup ::
  "cls_env \<Rightarrow> compact_abi \<Rightarrow> FIRCLSCompactUnwindContext \<Rightarrow> u64 \<Rightarrow> FIRCLSCompactUnwindResult \<Rightarrow>
     (bool \<times> FIRCLSCompactUnwindContext \<times> FIRCLSCompactUnwindResult) option" where
  "FIRCLSCompactUnwindLookup env abi ctx pc result = do {
     (ok, ctx) \<leftarrow> FIRCLSCompactUnwindLookupFirstLevel env abi ctx pc;
     (if \<not> ok then Some (False, ctx, result)
      else do {
        (ok, result) \<leftarrow> FIRCLSCompactUnwindLookupSecondLevel env abi ctx pc result;
        Some (ok, ctx, result) }) }"

section \<open>Unwinding through the encoding\<close>

text \<open>
  \<open>compute\<close> is the architecture's \<open>FIRCLSCompactUnwindComputeRegisters\<close>; both are defined in
  their own theory.
\<close>

definition FIRCLSCompactUnwindLookupAndCompute ::
  "cls_env \<Rightarrow> compact_abi \<Rightarrow> 'c arch_ops \<Rightarrow>
     (FIRCLSCompactUnwindContext \<Rightarrow> FIRCLSCompactUnwindResult \<Rightarrow> 'c \<Rightarrow> (bool \<times> 'c) loop_result) \<Rightarrow>
     FIRCLSCompactUnwindContext \<Rightarrow> 'c \<Rightarrow> (bool \<times> FIRCLSCompactUnwindContext \<times> 'c) loop_result" where
  "FIRCLSCompactUnwindLookupAndCompute env abi ops compute ctx regs =
    (let pc = GetPC ops regs in
     if pc < loadAddress ctx then Returned (False, ctx, regs)
     else bind_result (from_option (FIRCLSCompactUnwindLookup env abi ctx pc zero_compact_result))
       (\<lambda>(ok, ctx, result).
          if \<not> ok then Returned (False, ctx, regs)
          else bind_result (compute ctx result regs) (\<lambda>(ok, regs). Returned (ok, ctx, regs))))"

definition FIRCLSCompactUnwindDwarfFrame ::
  "cls_env \<Rightarrow> 'c arch_ops \<Rightarrow> FIRCLSCompactUnwindContext \<Rightarrow> u64 \<Rightarrow> 'c \<Rightarrow> (bool \<times> 'c) loop_result" where
  "FIRCLSCompactUnwindDwarfFrame env ops ctx dwarfOffset regs =
    bind_result (from_option (FIRCLSDwarfParseCFIFromFDERecordOffset env
        \<lparr>cie = zero_cie, fde = \<lparr>fde_length = 0, cieOffset = 0, startAddress = 0, rangeSize = 0,
           fde_instructions = \<lparr>inst_length = 0, inst_data = 0\<rparr>\<rparr>\<rparr> (ehFrame ctx) dwarfOffset))
      (\<lambda>(ok, record).
         if \<not> ok then Returned (False, regs) else FIRCLSDwarfUnwindComputeRegisters env ops record regs)"

section \<open>The search\<close>

definition holds_entries :: "cls_env \<Rightarrow> compact_abi \<Rightarrow> u64 \<Rightarrow> u64 list \<Rightarrow> bool" where
  "holds_entries env abi arr fs \<longleftrightarrow> (\<forall>i < length fs. entry_offset env abi arr i = Some (fs ! i))"

text \<open>What the search answers on a sorted page: the entry whose range holds the address.\<close>

definition search_answer :: "u64 list \<Rightarrow> u64 \<Rightarrow> bool \<Rightarrow> nat \<Rightarrow> bool" where
  "search_answer fs address found i \<longleftrightarrow>
    (if address < fs ! 0 then found \<and> i = 0
     else if fs ! (length fs - 1) \<le> address then \<not> found \<and> i = length fs - 1
     else found \<and> i + 1 < length fs \<and> fs ! i \<le> address \<and> address < fs ! (i + 1))"

lemma sorted_first_last:
  "sorted fs \<Longrightarrow> i < length fs \<Longrightarrow> fs ! 0 \<le> fs ! i \<and> fs ! i \<le> fs ! (length fs - 1)"
  by (auto simp: sorted_iff_nth_mono)

lemma search_loop_answer:
  assumes "holds_entries env abi arr fs" and "sorted fs" and "entryCount = length fs" and "fs \<noteq> []"
    and "lo \<le> hi" and "hi \<le> length fs" and "0 < lo \<Longrightarrow> lo < length fs \<and> fs ! lo \<le> address"
    and "hi < length fs \<Longrightarrow> address < fs ! hi"
  shows "\<exists>found i. search_loop env abi address arr entryCount lo hi = Some (found, i) \<and>
           search_answer fs address found i"
  using assms
proof (induction env abi address arr entryCount lo hi rule: search_loop.induct)
  case (1 env abi address arr entryCount lo hi)
  have n: "0 < length fs" using "1.prems"(4) by simp
  show ?case
  proof (cases "lo < hi")
    case False
    then have eq: "lo = hi" using "1.prems"(5) by simp
    have "lo = 0"
    proof (rule ccontr)
      assume "lo \<noteq> 0"
      then have "lo < length fs" "fs ! lo \<le> address" using "1.prems"(7) by auto
      with "1.prems"(8) eq show False by auto
    qed
    with eq n "1.prems"(3,8) show ?thesis
      by (subst search_loop.simps) (intro exI [of _ True] exI [of _ 0], simp add: search_answer_def)
  next
    case True
    define mid where "mid = (lo + hi) div 2"
    have mid: "lo \<le> mid" "mid < hi" using True by (auto simp: mid_def)
    have m: "mid < length fs" using mid "1.prems"(6) by simp
    have val: "entry_offset env abi arr mid = Some (fs ! mid)"
      using "1.prems"(1) m by (simp add: holds_entries_def)
    note bounds = sorted_first_last [OF "1.prems"(2) m]
    show ?thesis
    proof (cases "address < fs ! mid")
      case less: True
      have "search_loop env abi address arr entryCount lo hi = search_loop env abi address arr entryCount lo mid"
        using True less val mid by (subst search_loop.simps) (simp add: Let_def flip: mid_def)
      moreover have "\<exists>found i. search_loop env abi address arr entryCount lo mid = Some (found, i) \<and>
          search_answer fs address found i"
        by (rule "1.IH"(1) [OF _ mid_def val less]) (use True mid m less "1.prems" in auto)
      ultimately show ?thesis by simp
    next
      case ge: False
      show ?thesis
      proof (cases "mid = entryCount - 1")
        case last: True
        have "search_loop env abi address arr entryCount lo hi = Some (False, mid)"
          using True ge val last by (subst search_loop.simps) (simp add: Let_def flip: mid_def)
        moreover have "\<not> address < fs ! 0" using ge bounds by auto
        moreover have "fs ! (length fs - 1) \<le> address" "mid = length fs - 1"
          using ge last "1.prems"(3) by auto
        ultimately show ?thesis
          by (intro exI [of _ False] exI [of _ mid]) (simp only: search_answer_def if_False if_True, simp)
      next
        case inner: False
        then have m1: "mid + 1 < length fs" using m "1.prems"(3) by simp
        have nxt: "entry_offset env abi arr (mid + 1) = Some (fs ! (mid + 1))"
          using "1.prems"(1) m1 unfolding holds_entries_def by blast
        note bounds1 = sorted_first_last [OF "1.prems"(2) m1]
        show ?thesis
        proof (cases "address < fs ! (mid + 1)")
          case hit: True
          have "search_loop env abi address arr entryCount lo hi = Some (True, mid)"
            using True ge val inner nxt hit m "1.prems"(3)
            by (subst search_loop.simps) (simp add: Let_def flip: mid_def)
          moreover have "\<not> address < fs ! 0" "\<not> fs ! (length fs - 1) \<le> address" "fs ! mid \<le> address"
            using ge hit bounds bounds1 by auto
          ultimately show ?thesis
            using hit m1 by (intro exI [of _ True] exI [of _ mid]) (simp add: search_answer_def)
        next
          case next_half: False
          have "search_loop env abi address arr entryCount lo hi =
              search_loop env abi address arr entryCount (mid + 1) hi"
            using True ge val inner nxt next_half by (subst search_loop.simps) (simp add: Let_def flip: mid_def)
          moreover have "\<exists>found i. search_loop env abi address arr entryCount (mid + 1) hi = Some (found, i) \<and>
              search_answer fs address found i"
            by (rule "1.IH"(2) [OF _ mid_def val ge inner nxt next_half])
              (use True mid m1 next_half "1.prems" in auto)
          ultimately show ?thesis by simp
        qed
      qed
    qed
  qed
qed

lemma BinarySearch_answer:
  assumes "holds_entries env abi arr fs" and "sorted fs" and "unat entryCount = length fs"
    and "fs \<noteq> []" and "arr \<noteq> 0" and "address \<noteq> 0"
  shows "\<exists>found i. FIRCLSCompactUnwindBinarySearchSecondLevel env abi address index entryCount arr =
           Some (found, i) \<and> search_answer fs address found i"
proof -
  have "entryCount \<noteq> 0" using assms(3,4) by auto
  with search_loop_answer [OF assms(1,2) refl assms(4), of 0 "length fs" address] assms(3,5,6) show ?thesis
    by (simp add: FIRCLSCompactUnwindBinarySearchSecondLevel_def)
qed

section \<open>Successful lookups\<close>

lemma first_level_loop_sound:
  "first_level_loop n env abi entry ctx address = Some (True, ctx') \<Longrightarrow>
     \<exists>i < n. \<exists>val bs. load32 env (entry + of_nat (i * index_size abi) + of_nat (index_functionOffset abi)) = Some val \<and>
       load env (entry + of_nat (i * index_size abi)) (index_size abi) = Some bs \<and>
       ucast val \<le> address \<and> address < ucast (firstLevelNextFunctionOffset ctx') \<and>
       ctx' = ctx\<lparr>firstLevelNextFunctionOffset := firstLevelNextFunctionOffset ctx', indexHeader := index_of abi bs\<rparr>"
proof (induction n arbitrary: entry)
  case (Suc n)
  from Suc.prems obtain val nextVal where step:
      "load32 env (entry + of_nat (index_functionOffset abi)) = Some val"
      "load32 env (entry + of_nat (index_size abi) + of_nat (index_functionOffset abi)) = Some nextVal"
      "(if ucast val \<le> address \<and> address < ucast nextVal
        then Option.bind (load env entry (index_size abi))
          (\<lambda>bs. Some (True, ctx\<lparr>firstLevelNextFunctionOffset := nextVal, indexHeader := index_of abi bs\<rparr>))
        else first_level_loop n env abi (entry + of_nat (index_size abi)) ctx address) = Some (True, ctx')"
    by (auto simp: Let_def bind_eq_Some_conv)
  show ?case
  proof (cases "ucast val \<le> address \<and> address < ucast nextVal")
    case True
    with step show ?thesis by (intro exI [of _ 0]) (auto simp: bind_eq_Some_conv)
  next
    case False
    with step(3) have "first_level_loop n env abi (entry + of_nat (index_size abi)) ctx address = Some (True, ctx')"
      by (simp only: if_False)
    from Suc.IH [OF this] obtain i where "i < n" and
      i: "\<exists>val bs. load32 env (entry + of_nat (Suc i * index_size abi) + of_nat (index_functionOffset abi)) = Some val \<and>
       load env (entry + of_nat (Suc i * index_size abi)) (index_size abi) = Some bs \<and>
       ucast val \<le> address \<and> address < ucast (firstLevelNextFunctionOffset ctx') \<and>
       ctx' = ctx\<lparr>firstLevelNextFunctionOffset := firstLevelNextFunctionOffset ctx', indexHeader := index_of abi bs\<rparr>"
      by (auto simp: add.assoc)
    then show ?thesis by (intro exI [of _ "Suc i"] conjI) simp_all
  qed
qed simp

lemma LookupSecondLevelCompressed_sound:
  assumes "FIRCLSCompactUnwindLookupSecondLevelCompressed env abi ctx pc r0 = Some (True, result)"
  shows "functionStart result \<le> pc \<and> pc < functionEnd result \<and> encoding result \<noteq> 0"
  using assms
  by (auto simp: FIRCLSCompactUnwindLookupSecondLevelCompressed_def Let_def bind_eq_Some_conv
      split: if_splits)

lemma Lookup_sound:
  assumes "FIRCLSCompactUnwindLookup env abi ctx pc r0 = Some (True, ctx', result)"
  shows "functionStart result \<le> pc \<and> pc < functionEnd result \<and> encoding result \<noteq> 0"
  using assms
  by (auto simp: FIRCLSCompactUnwindLookup_def FIRCLSCompactUnwindLookupSecondLevel_def bind_eq_Some_conv
      FIRCLSCompactUnwindLookupSecondLevelRegular_def split: if_splits dest: LookupSecondLevelCompressed_sound)

end
