(* ===== verification/Cls_Unwind_Arch.thy ===== *)
theory Cls_Unwind_Arch
  imports Cls_Compact_Unwind
begin

text \<open>
  The architecture halves of the unwinder, FIRCLSUnwind_x86.c and FIRCLSUnwind_arm.c, with the two
  things they use from elsewhere: the lookup of the binary image of an address
  (FIRCLSBinaryImage.m) and the stack scan of FIRCLSUnwind.c. The bit masks of a compact encoding
  are constants of Apple's SDK: parameters, in \<open>x86_encoding_abi\<close> and \<open>arm_encoding_abi\<close>.
\<close>

section \<open>Binary images and the stack scan\<close>

record FIRCLSBinaryImageRuntimeNode =
  baseAddress :: u64
  node_size :: u64
  node_ehFrame :: u64
  node_unwindInfo :: u64
  node_crashInfo :: u64

text \<open>The crash context as the lookup sees it: \<open>None\<close> is a \<open>NULL\<close> array of nodes.\<close>

record cls_images =
  context_initialized :: bool
  nodes :: "FIRCLSBinaryImageRuntimeNode list option"

definition node_covers :: "u64 \<Rightarrow> FIRCLSBinaryImageRuntimeNode \<Rightarrow> bool" where
  "node_covers address n \<longleftrightarrow> baseAddress n \<le> address \<and> address < baseAddress n + node_size n"

definition FIRCLSBinaryImageSafeFindImageForAddress ::
  "cls_images \<Rightarrow> u64 \<Rightarrow> FIRCLSBinaryImageRuntimeNode option" where
  "FIRCLSBinaryImageSafeFindImageForAddress images address =
    (if \<not> context_initialized images then None
     else if address = 0 then None
     else case nodes images of None \<Rightarrow> None | Some ns \<Rightarrow> find (node_covers address) ns)"

definition FIRCLSBinaryImageSafeHasUnwindInfo :: "FIRCLSBinaryImageRuntimeNode \<Rightarrow> bool" where
  "FIRCLSBinaryImageSafeHasUnwindInfo n \<longleftrightarrow> FIRCLSIsValidPointer (node_unwindInfo n)"

definition FIRCLSUnwindIsAddressExecutable :: "cls_images \<Rightarrow> u64 \<Rightarrow> bool" where
  "FIRCLSUnwindIsAddressExecutable images address \<longleftrightarrow>
     FIRCLSBinaryImageSafeFindImageForAddress images address \<noteq> None"

text \<open>
  The \<open>do\<close> loop of \<open>FIRCLSUnwindFirstExecutableAddress\<close>. The arguments of the debug log are
  evaluated in every build, so each turn starts by dereferencing \<open>start\<close>.
\<close>

primrec scan_loop :: "nat \<Rightarrow> cls_env \<Rightarrow> cls_images \<Rightarrow> u64 \<Rightarrow> u64 \<Rightarrow> (bool \<times> u64) loop_result" where
  "scan_loop 0 env images start end = Out_of_fuel"
| "scan_loop (Suc n) env images start end =
    (case load env start 8 of
       None \<Rightarrow> Faulted
     | Some _ \<Rightarrow>
        let continue = (if start + 8 < end then scan_loop n env images (start + 8) end else Returned (False, 0)) in
        if FIRCLSIsValidPointer start then
          (case FIRCLSReadWord env start of
             None \<Rightarrow> Returned (False, 0)
           | Some address \<Rightarrow>
              if FIRCLSUnwindIsAddressExecutable images address then Returned (True, address) else continue)
        else continue)"

definition FIRCLSUnwindFirstExecutableAddress ::
  "cls_env \<Rightarrow> cls_images \<Rightarrow> u64 \<Rightarrow> u64 \<Rightarrow> (bool \<times> u64) loop_result" where
  "FIRCLSUnwindFirstExecutableAddress env images start end =
     scan_loop ((unat end - unat start) div 8 + 2) env images start end"

definition FIRCLSUnwindStackPointerFromFramePointer :: "u64 \<Rightarrow> u64" where
  "FIRCLSUnwindStackPointerFromFramePointer framePtr = framePtr + 2 * 8"

text \<open>\<open>FIRCLSReadMemory\<close> of a frame record: the saved frame pointer and the return address.\<close>

definition read_frame_record :: "cls_env \<Rightarrow> u64 \<Rightarrow> (u64 \<times> u64) option" where
  "read_frame_record env fp =
     map_option (\<lambda>bs. (le_word (take 8 bs), le_word (drop 8 bs))) (FIRCLSReadMemory env fp 16)"

definition GET_BITS_WITH_MASK :: "u32 \<Rightarrow> u32 \<Rightarrow> u32" where
  "GET_BITS_WITH_MASK v msk = drop_bit (if msk = 0 then 0 else ctz32 msk) (v AND msk)"

section \<open>x86_64\<close>

record x86_encoding_abi =
  X86_MODE_MASK :: u32
  X86_MODE_BP_FRAME :: u32
  X86_MODE_STACK_IMMD :: u32
  X86_MODE_STACK_IND :: u32
  X86_MODE_DWARF :: u32
  X86_FRAMELESS_STACK_SIZE :: u32
  X86_FRAMELESS_STACK_ADJUST :: u32
  X86_FRAMELESS_STACK_REG_COUNT :: u32
  X86_FRAMELESS_STACK_REG_PERMUTATION :: u32
  X86_DWARF_SECTION_OFFSET :: u32
  X86_REG_RBP :: u64

definition FIRCLSCompactUnwindBPFrame :: "cls_env \<Rightarrow> u32 \<Rightarrow> x86_state \<Rightarrow> bool \<times> x86_state" where
  "FIRCLSCompactUnwindBPFrame env enc regs =
    (let framePointer = FIRCLSThreadContextGetFramePointer_x86 regs in
     case read_frame_record env framePointer of
       None \<Rightarrow> (False, regs)
     | Some (saved_fp, ra) \<Rightarrow>
        (True, FIRCLSThreadContextSetStackPointer_x86 (FIRCLSUnwindStackPointerFromFramePointer framePointer)
                 (FIRCLSThreadContextSetFramePointer_x86 saved_fp (FIRCLSThreadContextSetPC_x86 ra regs))))"

definition FIRCLSUnwindWithStackScanning ::
  "cls_env \<Rightarrow> cls_images \<Rightarrow> x86_state \<Rightarrow> (bool \<times> x86_state) loop_result" where
  "FIRCLSUnwindWithStackScanning env images regs =
    bind_result (FIRCLSUnwindFirstExecutableAddress env images
        (FIRCLSThreadContextGetStackPointer_x86 regs) (FIRCLSThreadContextGetFramePointer_x86 regs))
      (\<lambda>(found, newPC).
         if \<not> found then Returned (False, regs)
         else Returned (True, FIRCLSThreadContextSetPC_x86 newPC regs))"

definition FIRCLSUnwindWithFramePointer_x86 ::
  "cls_env \<Rightarrow> cls_images \<Rightarrow> x86_encoding_abi \<Rightarrow> x86_state \<Rightarrow> bool \<Rightarrow> (bool \<times> x86_state) loop_result" where
  "FIRCLSUnwindWithFramePointer_x86 env images xabi regs allowScanning =
    bind_result (if allowScanning then FIRCLSUnwindWithStackScanning env images regs else Returned (False, regs))
      (\<lambda>(ok, regs).
         if ok then Returned (True, regs)
         else Returned (FIRCLSCompactUnwindBPFrame env (X86_MODE_BP_FRAME xabi) regs))"

definition FIRCLSCompactUnwindComputeStackSize ::
  "cls_env \<Rightarrow> x86_encoding_abi \<Rightarrow> u32 \<Rightarrow> u64 \<Rightarrow> bool \<Rightarrow> u32 option" where
  "FIRCLSCompactUnwindComputeStackSize env xabi enc fnStart indirect =
    (let stackSizeEncoded = GET_BITS_WITH_MASK enc (X86_FRAMELESS_STACK_SIZE xabi) in
     if \<not> indirect then Some (stackSizeEncoded * 8)
     else case FIRCLSReadMemory env (fnStart + ucast stackSizeEncoded) 4 of
       None \<Rightarrow> None
     | Some bs \<Rightarrow>
        Some (le_word bs + GET_BITS_WITH_MASK enc (X86_FRAMELESS_STACK_ADJUST xabi) * 8))"

text \<open>Peeling off one factor after the other: \<open>r = p / k\<close>, then \<open>p -= r * k\<close>.\<close>

primrec peel_digits :: "u32 list \<Rightarrow> u32 \<Rightarrow> u64 list" where
  "peel_digits [] p = [ucast p]"
| "peel_digits (k # ks) p = ucast (p div k) # peel_digits ks (p - (p div k) * k)"

text \<open>\<open>None\<close> is the status \<open>false\<close>; the array is six zeros before the call.\<close>

definition FIRCLSCompactUnwindDecompressPermutation :: "x86_encoding_abi \<Rightarrow> u32 \<Rightarrow> u64 list option" where
  "FIRCLSCompactUnwindDecompressPermutation xabi enc =
    (let regCount = GET_BITS_WITH_MASK enc (X86_FRAMELESS_STACK_REG_COUNT xabi);
         p = GET_BITS_WITH_MASK enc (X86_FRAMELESS_STACK_REG_PERMUTATION xabi) in
     if regCount = 6 then Some (peel_digits [120, 24, 6, 2] p @ [0])
     else if regCount = 5 then Some (peel_digits [120, 24, 6, 2] p @ [0])
     else if regCount = 4 then Some (peel_digits [60, 12, 3] p @ [0, 0])
     else if regCount = 3 then Some (peel_digits [20, 4] p @ [0, 0, 0])
     else if regCount = 2 then Some (peel_digits [5] p @ [0, 0, 0, 0])
     else if regCount = 1 then Some (peel_digits [] p @ [0, 0, 0, 0, 0])
     else if regCount = 0 then Some [0, 0, 0, 0, 0, 0]
     else None)"

text \<open>The inner loop over \<open>u\<close>: the unused register whose rank is \<open>target\<close>.\<close>

primrec find_unused :: "bool list \<Rightarrow> u64 \<Rightarrow> nat \<Rightarrow> nat list \<Rightarrow> nat option" where
  "find_unused used target renum [] = None"
| "find_unused used target renum (u # us) =
    (if used ! u then find_unused used target renum us
     else if of_nat renum = target then Some u
     else find_unused used target (renum + 1) us)"

primrec remap_loop :: "u64 list \<Rightarrow> nat list \<Rightarrow> bool list \<times> u64 list \<Rightarrow> bool list \<times> u64 list" where
  "remap_loop perm [] state = state"
| "remap_loop perm (i # ixs) state =
    remap_loop perm ixs
      (case find_unused (fst state) (perm ! i) 0 [1..<7] of
         None \<Rightarrow> state
       | Some u \<Rightarrow> ((fst state)[u := True], (snd state)[i := of_nat u]))"

definition FIRCLSCompactUnwindRemapRegisters :: "x86_encoding_abi \<Rightarrow> u32 \<Rightarrow> u64 list \<Rightarrow> u64 list option" where
  "FIRCLSCompactUnwindRemapRegisters xabi enc perm =
    (let regCount = GET_BITS_WITH_MASK enc (X86_FRAMELESS_STACK_REG_COUNT xabi) in
     if 6 < regCount then None
     else Some (snd (remap_loop perm [0..<unat regCount] (replicate 7 False, replicate 6 0))))"

text \<open>The loop of \<open>FIRCLSCompactUnwindRestoreRegisters\<close> over the saved registers.\<close>

primrec restore_loop ::
  "cls_env \<Rightarrow> x86_encoding_abi \<Rightarrow> u64 list \<Rightarrow> u64 \<Rightarrow> x86_state \<Rightarrow> bool \<times> x86_state \<times> u64" where
  "restore_loop env xabi [] address regs = (True, regs, address)"
| "restore_loop env xabi (s # ss) address regs =
    (if s = X86_REG_RBP xabi then
       (case FIRCLSReadWord env address of
          None \<Rightarrow> (False, regs, address)
        | Some v \<Rightarrow> restore_loop env xabi ss (address + 8) (FIRCLSThreadContextSetFramePointer_x86 v regs))
     else restore_loop env xabi ss (address + 8) regs)"

definition FIRCLSCompactUnwindRestoreRegisters ::
  "cls_env \<Rightarrow> x86_encoding_abi \<Rightarrow> u32 \<Rightarrow> x86_state \<Rightarrow> u32 \<Rightarrow> u64 list \<Rightarrow> bool \<times> x86_state \<times> u64" where
  "FIRCLSCompactUnwindRestoreRegisters env xabi enc regs stackSize savedRegisters =
    (let regCount = GET_BITS_WITH_MASK enc (X86_FRAMELESS_STACK_REG_COUNT xabi);
         address = FIRCLSThreadContextGetStackPointer_x86 regs + ucast stackSize - 8 - 8 * ucast regCount
     in restore_loop env xabi (take (unat regCount) savedRegisters) address regs)"

definition FIRCLSCompactUnwindFrameless ::
  "cls_env \<Rightarrow> x86_encoding_abi \<Rightarrow> u32 \<Rightarrow> x86_state \<Rightarrow> u64 \<Rightarrow> bool \<Rightarrow> bool \<times> x86_state" where
  "FIRCLSCompactUnwindFrameless env xabi enc regs fnStart indirect =
    (case FIRCLSCompactUnwindComputeStackSize env xabi enc fnStart indirect of
       None \<Rightarrow> (False, regs)
     | Some stackSize \<Rightarrow>
    (case FIRCLSCompactUnwindDecompressPermutation xabi enc of
       None \<Rightarrow> (False, regs)
     | Some perm \<Rightarrow>
    (case FIRCLSCompactUnwindRemapRegisters xabi enc perm of
       None \<Rightarrow> (False, regs)
     | Some savedRegisters \<Rightarrow>
    (case FIRCLSCompactUnwindRestoreRegisters env xabi enc regs stackSize savedRegisters of
       (ok, regs, address) \<Rightarrow>
         if \<not> ok then (False, regs)
         else (case FIRCLSReadWord env address of
                 None \<Rightarrow> (False, regs)
               | Some v \<Rightarrow>
                  if \<not> FIRCLSIsValidPointer v then (False, regs)
                  else (True, FIRCLSThreadContextSetStackPointer_x86 (address + 8)
                                (FIRCLSThreadContextSetPC_x86 v regs)))))))"

definition FIRCLSCompactUnwindComputeRegisters_x86 ::
  "cls_env \<Rightarrow> x86_encoding_abi \<Rightarrow> FIRCLSCompactUnwindContext \<Rightarrow> FIRCLSCompactUnwindResult \<Rightarrow> x86_state \<Rightarrow>
     (bool \<times> x86_state) loop_result" where
  "FIRCLSCompactUnwindComputeRegisters_x86 env xabi ctx result regs =
    (let mode = encoding result AND X86_MODE_MASK xabi in
     if mode = X86_MODE_BP_FRAME xabi then Returned (FIRCLSCompactUnwindBPFrame env (encoding result) regs)
     else if mode = X86_MODE_STACK_IMMD xabi then
       Returned (FIRCLSCompactUnwindFrameless env xabi (encoding result) regs (functionStart result) False)
     else if mode = X86_MODE_STACK_IND xabi then
       Returned (FIRCLSCompactUnwindFrameless env xabi (encoding result) regs (functionStart result) True)
     else if mode = X86_MODE_DWARF xabi then
       FIRCLSCompactUnwindDwarfFrame env x86_64_ops ctx
         (ucast (encoding result AND X86_DWARF_SECTION_OFFSET xabi)) regs
     else Returned (False, regs))"

section \<open>ARM64\<close>

record arm_encoding_abi =
  ARM64_MODE_MASK :: u32
  ARM64_MODE_FRAMELESS :: u32
  ARM64_MODE_DWARF :: u32
  ARM64_MODE_FRAME :: u32
  ARM64_DWARF_SECTION_OFFSET :: u32

definition FIRCLSUnwindWithLRRegister :: "arm_sdk \<Rightarrow> arm_state \<Rightarrow> bool \<times> arm_state" where
  "FIRCLSUnwindWithLRRegister sdk regs =
    (let v = FIRCLSThreadContextGetLinkRegister_arm sdk regs in
     if \<not> FIRCLSIsValidPointer v then (False, regs)
     else (True, FIRCLSThreadContextSetPC_arm sdk v regs))"

definition FIRCLSUnwindWithFramePointer_arm ::
  "cls_env \<Rightarrow> arm_sdk \<Rightarrow> arm_state \<Rightarrow> bool \<Rightarrow> bool \<times> arm_state" where
  "FIRCLSUnwindWithFramePointer_arm env sdk regs allowScanning =
    (let (ok, regs) = (if allowScanning then FIRCLSUnwindWithLRRegister sdk regs else (False, regs)) in
     if ok then (True, regs)
     else let framePointer = FIRCLSThreadContextGetFramePointer_arm sdk regs in
       case read_frame_record env framePointer of
         None \<Rightarrow> (False, regs)
       | Some (saved_fp, ra) \<Rightarrow>
          (True, FIRCLSThreadContextSetStackPointer_arm sdk (FIRCLSUnwindStackPointerFromFramePointer framePointer)
                   (FIRCLSThreadContextSetFramePointer_arm sdk saved_fp
                     (FIRCLSThreadContextSetPC_arm sdk ra regs))))"

definition FIRCLSCompactUnwindComputeRegisters_arm ::
  "cls_env \<Rightarrow> arm_sdk \<Rightarrow> arm_encoding_abi \<Rightarrow> FIRCLSCompactUnwindContext \<Rightarrow> FIRCLSCompactUnwindResult \<Rightarrow>
     arm_state \<Rightarrow> (bool \<times> arm_state) loop_result" where
  "FIRCLSCompactUnwindComputeRegisters_arm env sdk aabi ctx result regs =
    (let mode = encoding result AND ARM64_MODE_MASK aabi in
     if mode = ARM64_MODE_FRAMELESS aabi then Returned (FIRCLSUnwindWithLRRegister sdk regs)
     else if mode = ARM64_MODE_DWARF aabi then
       FIRCLSCompactUnwindDwarfFrame env (arm64_ops sdk) ctx
         (ucast (encoding result AND ARM64_DWARF_SECTION_OFFSET aabi)) regs
     else if mode = ARM64_MODE_FRAME aabi then Returned (FIRCLSUnwindWithFramePointer_arm env sdk regs False)
     else Returned (False, regs))"

end
