(* ===== verification/Cls_Unwind.thy ===== *)
theory Cls_Unwind
  imports Cls_Unwind_Arch
begin

text \<open>
  FIRCLSUnwind.c: the walk over the frames of a suspended thread, with the strategies it tries for
  each frame. The architecture is the record of register operations with the two functions the
  architecture files define, \<open>arch_unwind\<close>; the frame limit, 100000 or 600000 by platform, is a
  parameter.
\<close>

record 'c FIRCLSUnwindContext =
  uc_registers :: 'c
  frameCount :: u32
  compactUnwindState :: FIRCLSCompactUnwindContext
  lastFramePC :: u64
  repeatCount :: u32

record 'c arch_unwind =
  with_frame_pointer :: "'c \<Rightarrow> bool \<Rightarrow> (bool \<times> 'c) loop_result"
  compute_registers :: "FIRCLSCompactUnwindContext \<Rightarrow> FIRCLSCompactUnwindResult \<Rightarrow> 'c \<Rightarrow> (bool \<times> 'c) loop_result"

definition x86_64_unwind :: "cls_env \<Rightarrow> cls_images \<Rightarrow> x86_encoding_abi \<Rightarrow> x86_state arch_unwind" where
  "x86_64_unwind env images xabi =
     \<lparr>with_frame_pointer = FIRCLSUnwindWithFramePointer_x86 env images xabi,
      compute_registers = FIRCLSCompactUnwindComputeRegisters_x86 env xabi\<rparr>"

definition arm64_unwind :: "cls_env \<Rightarrow> arm_sdk \<Rightarrow> arm_encoding_abi \<Rightarrow> arm_state arch_unwind" where
  "arm64_unwind env sdk aabi =
     \<lparr>with_frame_pointer = (\<lambda>regs scan. Returned (FIRCLSUnwindWithFramePointer_arm env sdk regs scan)),
      compute_registers = FIRCLSCompactUnwindComputeRegisters_arm env sdk aabi\<rparr>"

definition FIRCLSUnwindInit :: "'c \<Rightarrow> 'c FIRCLSUnwindContext" where
  "FIRCLSUnwindInit threadContext = \<lparr>uc_registers = threadContext, frameCount = 0,
     compactUnwindState = zero_compact_context, lastFramePC = 0, repeatCount = 0\<rparr>"

definition FIRCLSUnwindGetPC :: "'c arch_ops \<Rightarrow> 'c FIRCLSUnwindContext \<Rightarrow> u64" where
  "FIRCLSUnwindGetPC ops ctx = GetPC ops (uc_registers ctx)"

definition FIRCLSUnwindGetStackPointer :: "'c arch_ops \<Rightarrow> 'c FIRCLSUnwindContext \<Rightarrow> u64" where
  "FIRCLSUnwindGetStackPointer ops ctx = GetStackPointer ops (uc_registers ctx)"

definition FIRCLSUnwindGetFramePointer :: "'c arch_ops \<Rightarrow> 'c FIRCLSUnwindContext \<Rightarrow> u64" where
  "FIRCLSUnwindGetFramePointer ops ctx = GetFramePointer ops (uc_registers ctx)"

definition FIRCLSUnwindGetFrameRepeatCount :: "'c FIRCLSUnwindContext \<Rightarrow> u32" where
  "FIRCLSUnwindGetFrameRepeatCount ctx = repeatCount ctx"

definition FIRCLSUnwindContextHasValidPCAndSP :: "'c arch_ops \<Rightarrow> 'c FIRCLSUnwindContext \<Rightarrow> bool" where
  "FIRCLSUnwindContextHasValidPCAndSP ops ctx \<longleftrightarrow>
     FIRCLSIsValidPointer (FIRCLSUnwindGetPC ops ctx) \<and> FIRCLSIsValidPointer (FIRCLSUnwindGetStackPointer ops ctx)"

definition FIRCLSUnwindWithCompactUnwindInfo ::
  "cls_env \<Rightarrow> cls_images \<Rightarrow> compact_abi \<Rightarrow> 'c arch_ops \<Rightarrow> 'c arch_unwind \<Rightarrow> 'c FIRCLSUnwindContext \<Rightarrow>
     (bool \<times> 'c FIRCLSUnwindContext) loop_result" where
  "FIRCLSUnwindWithCompactUnwindInfo env images abi ops au ctx =
    (case FIRCLSBinaryImageSafeFindImageForAddress images (FIRCLSUnwindGetPC ops ctx) of
       None \<Rightarrow> Returned (False, ctx)
     | Some img \<Rightarrow>
        if \<not> FIRCLSBinaryImageSafeHasUnwindInfo img then Returned (False, ctx)
        else let (ok, state) = FIRCLSCompactUnwindInit env abi (compactUnwindState ctx)
                   (node_unwindInfo img) (node_ehFrame img) (baseAddress img);
                 ctx = ctx\<lparr>compactUnwindState := state\<rparr> in
          if \<not> ok then Returned (False, ctx)
          else bind_result (FIRCLSCompactUnwindLookupAndCompute env abi ops (compute_registers au)
                 (compactUnwindState ctx) (uc_registers ctx))
               (\<lambda>(ok, state, regs). Returned (ok, ctx\<lparr>compactUnwindState := state, uc_registers := regs\<rparr>)))"

definition FIRCLSUnwindNextFrameUsingAllStrategies ::
  "cls_env \<Rightarrow> cls_images \<Rightarrow> compact_abi \<Rightarrow> 'c arch_ops \<Rightarrow> 'c arch_unwind \<Rightarrow> u32 \<Rightarrow> 'c FIRCLSUnwindContext \<Rightarrow>
     (bool \<times> 'c FIRCLSUnwindContext) loop_result" where
  "FIRCLSUnwindNextFrameUsingAllStrategies env images abi ops au maxFrames ctx =
    (if maxFrames \<le> frameCount ctx then Returned (False, ctx)
     else let pc = FIRCLSUnwindGetPC ops ctx;
              (pc, ctx) = (if 0 < frameCount ctx
                then (pc - 1, ctx\<lparr>uc_registers := SetPC ops (pc - 1) (uc_registers ctx)\<rparr>) else (pc, ctx)) in
       if \<not> FIRCLSIsValidPointer pc then Returned (False, ctx)
       else if frameCount ctx = 0 then Returned (True, ctx)
       else bind_result (FIRCLSUnwindWithCompactUnwindInfo env images abi ops au ctx)
         (\<lambda>(ok, ctx).
            if ok then Returned (True, ctx)
            else if FIRCLSUnwindGetFramePointer ops ctx = 0
            then Returned (True, ctx\<lparr>uc_registers := SetPC ops 0 (uc_registers ctx)\<rparr>)
            else bind_result (with_frame_pointer au (uc_registers ctx) (frameCount ctx = 1))
              (\<lambda>(ok, regs). Returned (ok, ctx\<lparr>uc_registers := regs\<rparr>))))"

definition FIRCLSUnwindNextFrame ::
  "cls_env \<Rightarrow> cls_images \<Rightarrow> compact_abi \<Rightarrow> 'c arch_ops \<Rightarrow> 'c arch_unwind \<Rightarrow> u32 \<Rightarrow> 'c FIRCLSUnwindContext \<Rightarrow>
     (bool \<times> 'c FIRCLSUnwindContext) loop_result" where
  "FIRCLSUnwindNextFrame env images abi ops au maxFrames ctx =
    (if \<not> FIRCLSUnwindContextHasValidPCAndSP ops ctx then Returned (False, ctx)
     else bind_result (FIRCLSUnwindNextFrameUsingAllStrategies env images abi ops au maxFrames ctx)
       (\<lambda>(ok, ctx).
          if \<not> ok then Returned (False, ctx)
          else let pc = FIRCLSUnwindGetPC ops ctx; sp = FIRCLSUnwindGetStackPointer ops ctx in
            if \<not> FIRCLSIsValidPointer pc then Returned (False, ctx)
            else if \<not> FIRCLSIsValidPointer sp then Returned (False, ctx)
            else Returned (True, ctx\<lparr>repeatCount := (if lastFramePC ctx = pc then repeatCount ctx + 1 else 0),
                   frameCount := frameCount ctx + 1, lastFramePC := pc\<rparr>)))"

section \<open>One frame\<close>

text \<open>The strategies change the registers and the compact state, never the counters.\<close>

definition same_counters :: "'c FIRCLSUnwindContext \<Rightarrow> 'c FIRCLSUnwindContext \<Rightarrow> bool" where
  "same_counters c c' \<longleftrightarrow> frameCount c' = frameCount c \<and> lastFramePC c' = lastFramePC c \<and>
     repeatCount c' = repeatCount c"

lemma compact_same_counters:
  "FIRCLSUnwindWithCompactUnwindInfo env images abi ops au ctx = Returned (ok, ctx') \<Longrightarrow> same_counters ctx ctx'"
  by (auto simp: FIRCLSUnwindWithCompactUnwindInfo_def same_counters_def case_prod_unfold Let_def
      bind_result_Returned split: option.splits if_splits)

lemma strategies_same_counters:
  assumes "FIRCLSUnwindNextFrameUsingAllStrategies env images abi ops au maxFrames ctx = Returned (ok, ctx')"
  shows "same_counters ctx ctx'" and "ok \<Longrightarrow> frameCount ctx < maxFrames"
    and "ok \<Longrightarrow> frameCount ctx = 0 \<Longrightarrow> uc_registers ctx' = uc_registers ctx"
  using assms
  by (auto simp: FIRCLSUnwindNextFrameUsingAllStrategies_def same_counters_def Let_def
      bind_result_Returned case_prod_unfold dest!: compact_same_counters split: if_splits)

lemma NextFrame_true:
  assumes "FIRCLSUnwindNextFrame env images abi ops au maxFrames ctx = Returned (True, ctx')"
  shows "frameCount ctx < maxFrames \<and> frameCount ctx' = frameCount ctx + 1 \<and>
    FIRCLSUnwindContextHasValidPCAndSP ops ctx' \<and> lastFramePC ctx' = FIRCLSUnwindGetPC ops ctx' \<and>
    repeatCount ctx' = (if lastFramePC ctx = FIRCLSUnwindGetPC ops ctx' then repeatCount ctx + 1 else 0) \<and>
    (frameCount ctx = 0 \<longrightarrow> uc_registers ctx' = uc_registers ctx)"
proof -
  obtain c1 where s: "FIRCLSUnwindNextFrameUsingAllStrategies env images abi ops au maxFrames ctx = Returned (True, c1)"
    and v: "FIRCLSIsValidPointer (FIRCLSUnwindGetPC ops c1)" "FIRCLSIsValidPointer (FIRCLSUnwindGetStackPointer ops c1)"
    and c: "ctx' = c1\<lparr>repeatCount := (if lastFramePC c1 = FIRCLSUnwindGetPC ops c1 then repeatCount c1 + 1 else 0),
        frameCount := frameCount c1 + 1, lastFramePC := FIRCLSUnwindGetPC ops c1\<rparr>"
    using assms
    by (auto simp: FIRCLSUnwindNextFrame_def bind_result_Returned Let_def split: if_splits)
  note same = strategies_same_counters [OF s]
  have "uc_registers ctx' = uc_registers c1" by (simp add: c)
  with same v show ?thesis
    by (auto simp: c same_counters_def FIRCLSUnwindContextHasValidPCAndSP_def FIRCLSUnwindGetPC_def
        FIRCLSUnwindGetStackPointer_def)
qed

section \<open>The walk\<close>

text \<open>
  What the callers of the API do: initialise a context and call \<open>FIRCLSUnwindNextFrame\<close> for as long
  as it returns true. \<open>walk n ctx\<close>: \<open>ctx\<close> is the context after \<open>n\<close> frames.
\<close>

inductive walk ::
  "cls_env \<Rightarrow> cls_images \<Rightarrow> compact_abi \<Rightarrow> 'c arch_ops \<Rightarrow> 'c arch_unwind \<Rightarrow> u32 \<Rightarrow> 'c \<Rightarrow> nat \<Rightarrow>
     'c FIRCLSUnwindContext \<Rightarrow> bool"
  for env images abi ops au maxFrames thread where
  walk_start: "walk env images abi ops au maxFrames thread 0 (FIRCLSUnwindInit thread)"
| walk_frame: "walk env images abi ops au maxFrames thread n ctx \<Longrightarrow>
     FIRCLSUnwindNextFrame env images abi ops au maxFrames ctx = Returned (True, ctx') \<Longrightarrow>
     walk env images abi ops au maxFrames thread (Suc n) ctx'"

inductive_cases walk_SucE: "walk env images abi ops au maxFrames thread (Suc n) ctx"

inductive_simps walk_0: "walk env images abi ops au maxFrames thread 0 ctx"

lemma walk_invariant:
  "walk env images abi ops au maxFrames thread n ctx \<Longrightarrow>
     unat (frameCount ctx) = n \<and> n \<le> unat maxFrames \<and>
     (0 < n \<longrightarrow> FIRCLSUnwindContextHasValidPCAndSP ops ctx) \<and> unat (repeatCount ctx) \<le> n"
proof (induction rule: walk.induct)
  case (walk_frame n ctx ctx')
  note f = NextFrame_true [OF walk_frame.hyps(2)]
  have lt: "unat (frameCount ctx) < unat maxFrames" using f by (simp add: word_less_nat_alt)
  have "unat maxFrames < 2 ^ 32" using unsigned_less [of maxFrames] by simp
  with lt have "unat (frameCount ctx + 1) = unat (frameCount ctx) + 1"
    by (simp add: unat_word_ariths)
  moreover have "unat (repeatCount ctx') \<le> Suc n"
  proof -
    have "unat (repeatCount ctx + 1) \<le> unat (repeatCount ctx) + 1"
      by (simp add: unat_word_ariths)
    with f walk_frame.IH show ?thesis by (auto split: if_splits)
  qed
  ultimately show ?case using f walk_frame.IH lt by auto
qed (simp add: FIRCLSUnwindInit_def)

text \<open>After the last permitted frame the next call fails, so every walk ends.\<close>

lemma walk_ends:
  assumes "walk env images abi ops au maxFrames thread (unat maxFrames) ctx"
  shows "FIRCLSUnwindNextFrame env images abi ops au maxFrames ctx \<noteq> Returned (True, ctx')"
proof
  assume "FIRCLSUnwindNextFrame env images abi ops au maxFrames ctx = Returned (True, ctx')"
  with assms have "walk env images abi ops au maxFrames thread (Suc (unat maxFrames)) ctx'"
    by (rule walk_frame)
  from walk_invariant [OF this] show False by simp
qed

end
