(* ===== verification/Cls_Unwind_Facts.thy ===== *)
theory Cls_Unwind_Facts
  imports Cls_Unwind
begin

text \<open>
  What the architecture halves compute: the stack scan finds the first word that lies in a binary
  image and ends; the permutation of a frameless encoding is a Lehmer code, so it names distinct
  registers and can be read back; a chain of frame records is followed link by link.
\<close>

section \<open>The stack scan\<close>

text \<open>The words between two addresses, as the scan reads them.\<close>

definition stack_words :: "cls_env \<Rightarrow> u64 \<Rightarrow> u64 list \<Rightarrow> bool" where
  "stack_words env start ws \<longleftrightarrow>
     (\<forall>i < length ws. \<exists>bs. load env (start + 8 * of_nat i) 8 = Some bs \<and> le_word bs = ws ! i)"

lemma stack_words_Cons:
  "stack_words env start (w # ws) \<longleftrightarrow>
     (\<exists>bs. load env start 8 = Some bs \<and> le_word bs = w) \<and> stack_words env (start + 8) ws"
proof -
  have shift: "start + 8 * of_nat (Suc i) = start + 8 + 8 * of_nat i" for i
    by (simp add: algebra_simps)
  show ?thesis
    by (simp add: stack_words_def All_less_Suc2 shift del: of_nat_Suc)
qed

definition scan_answer :: "cls_images \<Rightarrow> u64 list \<Rightarrow> bool \<times> u64" where
  "scan_answer images ws =
    (case find (FIRCLSUnwindIsAddressExecutable images) ws of None \<Rightarrow> (False, 0) | Some w \<Rightarrow> (True, w))"

lemma u64_bound: "unat (w :: u64) < 2 ^ 64"
  using unsigned_less [of w] by simp

lemma valid_pointer_add:
  "FIRCLSIsValidPointer a \<Longrightarrow> unat a + k < 2 ^ 64 \<Longrightarrow> FIRCLSIsValidPointer (a + of_nat k)"
  by (simp add: FIRCLSIsValidPointer_def word_le_nat_alt unat_add_no_wrap)

lemma scan_loop_answer:
  assumes "vm_read_ok env" and "FIRCLSIsValidPointer start" and "stack_words env start ws" and "ws \<noteq> []"
    and "unat start + 8 * length ws < 2 ^ 64" and "unat start + 8 * (length ws - 1) < unat end \<or> length ws = 1"
    and "unat end \<le> unat start + 8 * length ws" and "length ws \<le> n"
  shows "scan_loop n env images start end = Returned (scan_answer images ws)"
  using assms(2-)
proof (induction n arbitrary: start ws)
  case (Suc n)
  obtain w vs where ws: "ws = w # vs" using Suc.prems(3) by (cases ws) auto
  obtain bs where bs: "load env start 8 = Some bs" "le_word bs = w"
    using Suc.prems(2) by (auto simp: ws stack_words_Cons)
  have read: "FIRCLSReadWord env start = Some w"
    using bs assms(1) Suc.prems(1)
    by (simp add: FIRCLSReadWord_def FIRCLSReadMemory_def vm_read_ok_def)
  have nxt: "unat (start + 8) = unat start + 8"
    using Suc.prems(4) unat_add_no_wrap [of start 8] by (simp add: ws)
  show ?case
  proof (cases "FIRCLSUnwindIsAddressExecutable images w")
    case True
    then show ?thesis
      using bs(1) read Suc.prems(1) by (simp add: ws scan_answer_def)
  next
    case False
    show ?thesis
    proof (cases vs)
      case Nil
      have "\<not> start + 8 < end" using Suc.prems(6) nxt by (simp add: ws Nil word_less_nat_alt)
      with False bs(1) read Suc.prems(1) show ?thesis by (simp add: ws Nil scan_answer_def Let_def)
    next
      case (Cons v us)
      have lt: "start + 8 < end" using Suc.prems(5) nxt by (simp add: ws Cons word_less_nat_alt)
      have valid: "FIRCLSIsValidPointer (start + 8)"
        using valid_pointer_add [OF Suc.prems(1), of 8] Suc.prems(4) by (simp add: ws)
      have "scan_loop n env images (start + 8) end = Returned (scan_answer images vs)"
      proof (rule Suc.IH [OF valid])
        show "stack_words env (start + 8) vs" using Suc.prems(2) by (simp add: ws stack_words_Cons)
        show "unat (start + 8) + 8 * (length vs - 1) < unat end \<or> length vs = 1"
          using Suc.prems(5) nxt by (simp add: ws Cons)
      qed (use Suc.prems nxt in \<open>simp_all add: ws Cons\<close>)
      with False bs(1) read Suc.prems(1) lt show ?thesis
        by (simp add: ws scan_answer_def Let_def)
    qed
  qed
qed simp

lemma FirstExecutableAddress_answer:
  assumes "vm_read_ok env" and "FIRCLSIsValidPointer start" and "stack_words env start ws"
    and "unat end = unat start + 8 * length ws" and "ws \<noteq> []"
  shows "FIRCLSUnwindFirstExecutableAddress env images start end = Returned (scan_answer images ws)"
proof -
  have bound: "unat start + 8 * length ws < 2 ^ 64"
    using assms(4) u64_bound [of "end"] by simp
  show ?thesis
    unfolding FIRCLSUnwindFirstExecutableAddress_def
    by (rule scan_loop_answer [OF assms(1,2,3,5) bound])
      (use assms(4,5) in \<open>auto simp: Suc_le_eq\<close>)
qed

text \<open>
  With page zero unmapped the fuel is always enough: the only way past the end is to wrap around,
  and then the next dereference faults.
\<close>

lemma scan_loop_fuel:
  assumes page_zero: "\<And>a. unat a < 4096 \<Longrightarrow> mem env a = None"
    and "(unat end - unat start - 1) div 8 + 2 \<le> n"
  shows "scan_loop n env images start end \<noteq> Out_of_fuel"
  using assms(2)
proof (induction n arbitrary: start)
  case (Suc n)
  show ?case
  proof (cases "start + 8 < end \<and> load env start 8 \<noteq> None")
    case False
    then show ?thesis by (auto simp: Let_def split: option.splits)
  next
    case True
    have "scan_loop n env images (start + 8) end \<noteq> Out_of_fuel"
    proof (cases "unat start + 8 < 2 ^ 64")
      case False
      have "unat (start + 8) < 4096"
        using False u64_bound [of start] by (simp add: unat_word_ariths mod_if, arith)
      then have "load env (start + 8) 8 = None" by (intro load_unmapped page_zero) simp_all
      moreover have "n \<noteq> 0" using Suc.prems by auto
      ultimately show ?thesis by (cases n) simp_all
    next
      case no_wrap: True
      then have nxt: "unat (start + 8) = unat start + 8" using unat_add_no_wrap [of start 8] by simp
      with True have "start < end" "unat start + 8 < unat end"
        by (simp_all add: word_less_nat_alt)
      with Suc.prems have "(unat end - unat start - 1) div 8 + 1 \<le> n" by simp
      moreover have "(unat end - unat start - 1) div 8 = (unat end - (unat start + 8) - 1) div 8 + 1"
        using \<open>unat start + 8 < unat end\<close> by (simp flip: div_add_self1 [of 8])
      ultimately show ?thesis using True nxt by (intro Suc.IH) simp
    qed
    then show ?thesis by (auto simp: Let_def split: option.splits)
  qed
qed simp

lemma FirstExecutableAddress_fuel:
  assumes "\<And>a. unat a < 4096 \<Longrightarrow> mem env a = None"
  shows "FIRCLSUnwindFirstExecutableAddress env images start end \<noteq> Out_of_fuel"
  unfolding FIRCLSUnwindFirstExecutableAddress_def
  by (rule scan_loop_fuel [OF assms]) (simp_all add: div_le_mono)

section \<open>The permutation of a frameless encoding\<close>

text \<open>
  The \<open>j\<close>-th digit counts the registers below the \<open>j\<close>-th saved one that no earlier position
  took; the permutation number weighs the digits with the products of the remaining bases.
\<close>

definition lehmer_digit :: "nat list \<Rightarrow> nat \<Rightarrow> nat" where
  "lehmer_digit ss j = length (filter (\<lambda>u. u \<notin> set (take j ss)) [1..<ss ! j])"

definition permutation_weights :: "nat \<Rightarrow> nat list" where
  "permutation_weights n =
    (if 5 \<le> n then [120, 24, 6, 2, 1] else if n = 4 then [60, 12, 3, 1] else if n = 3 then [20, 4, 1]
     else if n = 2 then [5, 1] else [1])"

definition permutation_number :: "nat list \<Rightarrow> nat" where
  "permutation_number ss =
     sum_list (map2 (*) (permutation_weights (length ss)) (map (lehmer_digit ss) [0..<length ss]))"

primrec nat_digits :: "nat list \<Rightarrow> nat \<Rightarrow> nat list" where
  "nat_digits [] p = [p]"
| "nat_digits (k # ks) p = p div k # nat_digits ks (p mod k)"

lemma peel_digits_nat:
  "\<forall>k \<in> set ks. k < 2 ^ 32 \<Longrightarrow>
     peel_digits (map of_nat ks) p = map of_nat (nat_digits ks (unat p))"
proof (induction ks arbitrary: p)
  case Nil
  then show ?case by (simp add: unsigned_def)
next
  case (Cons k ks)
  have k: "unat (of_nat k :: u32) = k" using Cons.prems by (simp add: unat_of_nat)
  have "p - (p div of_nat k) * of_nat k = p mod of_nat k" by (simp add: minus_div_mult_eq_mod)
  moreover have "unat (p mod of_nat k) = unat p mod k" by (simp add: unat_mod k)
  moreover have "(ucast (p div of_nat k) :: u64) = of_nat (unat p div k)"
    by (metis k of_nat_unat unat_div)
  ultimately show ?case using Cons by simp
qed

lemma find_unused_Some:
  "find_unused used target renum us = Some u \<Longrightarrow>
     \<exists>pre post. us = pre @ u # post \<and> \<not> used ! u \<and>
       of_nat (renum + length (filter (\<lambda>v. \<not> used ! v) pre)) = target"
proof (induction us arbitrary: renum)
  case (Cons v us)
  show ?case
  proof (cases "\<not> used ! v \<and> of_nat renum = target")
    case True
    with Cons.prems show ?thesis by (intro exI [of _ "[]"] exI [of _ us]) auto
  next
    case False
    then have "find_unused used target (if used ! v then renum else renum + 1) us = Some u"
      using Cons.prems by (auto split: if_splits)
    from Cons.IH [OF this] obtain pre post where "us = pre @ u # post" "\<not> used ! u"
      "of_nat ((if used ! v then renum else renum + 1) + length (filter (\<lambda>v. \<not> used ! v) pre)) = target"
      by blast
    then show ?thesis by (intro exI [of _ "v # pre"] exI [of _ post]) (auto split: if_splits)
  qed
qed simp

lemma find_unused_exists:
  "renum \<le> d \<Longrightarrow> d < renum + length (filter (\<lambda>v. \<not> used ! v) us) \<Longrightarrow>
     find_unused used (of_nat d) renum us \<noteq> None"
proof (induction us arbitrary: renum)
  case (Cons v us)
  then show ?case by (cases "renum = d") auto
qed simp

definition remapped :: "nat list \<Rightarrow> nat list \<Rightarrow> bool list \<times> u64 list \<Rightarrow> bool" where
  "remapped ds ss state \<longleftrightarrow> length (fst state) = 7 \<and> length (snd state) = 6 \<and> length ss \<le> 6 \<and>
     take (length ss) (snd state) = map of_nat ss \<and> distinct ss \<and> set ss \<subseteq> {1..6} \<and>
     (\<forall>u < 7. fst state ! u \<longleftrightarrow> u \<in> set ss) \<and> (\<forall>j < length ss. lehmer_digit ss j = ds ! j)"

lemma lehmer_digit_append: "j < length ss \<Longrightarrow> lehmer_digit (ss @ ts) j = lehmer_digit ss j"
  by (simp add: lehmer_digit_def nth_append)

lemma upt_split: "[a..<b] = pre @ u # post \<Longrightarrow> pre = [a..<u]"
proof (induction pre arbitrary: a)
  case Nil
  then show ?case by (auto simp: upt_eq_Cons_conv)
next
  case (Cons c pre)
  then have c: "c < b" "a = c" "[Suc c..<b] = pre @ u # post" by (auto simp: upt_eq_Cons_conv)
  have "u \<in> set [Suc c..<b]" by (simp only: c(3)) simp
  then have "c < u" by simp
  with c(2) Cons.IH [OF c(3)] show ?case by (simp add: upt_conv_Cons)
qed

lemma unused_count:
  assumes "distinct ss" and "set ss \<subseteq> {1..6 :: nat}"
  shows "length (filter (\<lambda>v. v \<notin> set ss) [1..<7]) = 6 - length ss"
proof -
  have "length (filter (\<lambda>v. v \<notin> set ss) [1..<7]) = card (set (filter (\<lambda>v. v \<notin> set ss) [1..<7]))"
    by (rule distinct_card [symmetric]) simp
  also have "set (filter (\<lambda>v. v \<notin> set ss) [1..<7]) = {1..6} - set ss" by auto
  also have "card \<dots> = 6 - length ss" using assms by (simp add: card_Diff_subset distinct_card)
  finally show ?thesis .
qed

lemma remap_step:
  assumes "remapped ds ss state" and "length ss < 6" and "ds ! length ss < 6 - length ss"
    and "perm ! length ss = of_nat (ds ! length ss)"
  shows "\<exists>u. find_unused (fst state) (perm ! length ss) 0 [1..<7] = Some u \<and>
    remapped ds (ss @ [u]) ((fst state)[u := True], (snd state)[length ss := of_nat u])"
proof -
  note inv = assms(1) [unfolded remapped_def]
  have filt: "filter (\<lambda>v. \<not> fst state ! v) xs = filter (\<lambda>v. v \<notin> set ss) xs" if "set xs \<subseteq> {..<7}" for xs
    using that inv by (intro filter_cong) auto
  have "length (filter (\<lambda>v. \<not> fst state ! v) [1..<7]) = 6 - length ss"
    using unused_count inv by (subst filt) auto
  then have "find_unused (fst state) (of_nat (ds ! length ss)) 0 [1..<7] \<noteq> None"
    using assms(3) by (intro find_unused_exists) simp_all
  then obtain u where u: "find_unused (fst state) (of_nat (ds ! length ss)) 0 [1..<7] = Some u" by blast
  from find_unused_Some [OF this] obtain pre post where split: "[1..<7] = pre @ u # post"
    and free: "\<not> fst state ! u"
    and cnt: "(of_nat (length (filter (\<lambda>v. \<not> fst state ! v) pre)) :: u64) = of_nat (ds ! length ss)"
    by auto
  have mem: "u \<in> set [1..<7]" by (simp only: split) simp
  have pre: "pre = [1..<u]" using split by (rule upt_split)
  have len: "length (filter (\<lambda>v. v \<notin> set ss) [1..<u]) < 7"
    using mem length_filter_le [of "\<lambda>v. v \<notin> set ss" "[1..<u]"] by auto
  have "(of_nat (length (filter (\<lambda>v. v \<notin> set ss) [1..<u])) :: u64) = of_nat (ds ! length ss)"
    using cnt mem by (subst (asm) filt) (auto simp: pre)
  then have "unat (of_nat (length (filter (\<lambda>v. v \<notin> set ss) [1..<u])) :: u64) = unat (of_nat (ds ! length ss) :: u64)"
    by simp
  then have digit: "length (filter (\<lambda>v. v \<notin> set ss) [1..<u]) = ds ! length ss"
    using len assms(3) by (simp add: unat_of_nat)
  have "remapped ds (ss @ [u]) ((fst state)[u := True], (snd state)[length ss := of_nat u])"
    using inv assms(2) mem free digit
    by (auto simp: remapped_def nth_list_update less_Suc_eq lehmer_digit_append take_Suc_conv_app_nth
        lehmer_digit_def [of "ss @ [u]" "length ss"])
  with u assms(4) show ?thesis by auto
qed

lemma remap_loop_remapped:
  assumes "remapped ds ss state" and "n \<le> 6" and "\<forall>i < n. ds ! i < 6 - i \<and> perm ! i = of_nat (ds ! i)"
    and "length ss \<le> n"
  shows "\<exists>ss'. length ss' = n \<and> remapped ds ss' (remap_loop perm [length ss..<n] state)"
  using assms(1,4)
proof (induction "n - length ss" arbitrary: ss state)
  case 0
  then show ?case by (intro exI [of _ ss]) simp
next
  case (Suc k)
  then have lt: "length ss < n" by simp
  obtain u where u: "find_unused (fst state) (perm ! length ss) 0 [1..<7] = Some u"
    "remapped ds (ss @ [u]) ((fst state)[u := True], (snd state)[length ss := of_nat u])"
    using remap_step [OF Suc.prems(1), of perm] lt assms(2,3) by fastforce
  have "\<exists>ss'. length ss' = n \<and> remapped ds ss' (remap_loop perm [length (ss @ [u])..<n]
      ((fst state)[u := True], (snd state)[length ss := of_nat u]))"
    by (rule Suc.hyps(1) [OF _ u(2)]) (use Suc.hyps(2) lt in simp_all)
  with u(1) lt show ?case by (simp add: upt_conv_Cons)
qed

text \<open>The digits of a permutation number, padded to the six entries of the code's array.\<close>

definition digit_bases :: "nat \<Rightarrow> nat list" where
  "digit_bases n =
    (if 5 \<le> n then [120, 24, 6, 2] else if n = 4 then [60, 12, 3] else if n = 3 then [20, 4]
     else if n = 2 then [5] else [])"

definition padded_digits :: "nat \<Rightarrow> nat \<Rightarrow> nat list" where
  "padded_digits n p =
    (if n = 0 then replicate 6 0
     else nat_digits (digit_bases n) p @ replicate (5 - length (digit_bases n)) 0)"

definition permutation_limit :: "nat \<Rightarrow> nat" where
  "permutation_limit n = [1, 6, 30, 120, 360, 720, 720] ! n"

lemma small_count_cases:
  assumes "n \<le> 6"
  obtains "n = 0" | "n = 1" | "n = 2" | "n = 3" | "n = 4" | "n = 5" | "n = (6 :: nat)"
  using assms by linarith

lemma nat_digits_length [simp]: "length (nat_digits ks p) = Suc (length ks)"
  by (induction ks arbitrary: p) simp_all

lemma nat_digits_sum: "sum_list (map2 (*) (ks @ [1]) (nat_digits ks p)) = p"
  by (induction ks arbitrary: p) simp_all

lemma padded_digits_bounds:
  assumes "n \<le> 6" and "p < permutation_limit n"
  shows "list_all2 (<) (take n (padded_digits n p)) (take n [6, 5, 4, 3, 2, 1])"
  using assms(1)
proof (cases rule: small_count_cases)
qed (use assms(2) in \<open>simp_all add: padded_digits_def digit_bases_def permutation_limit_def
      less_mult_imp_div_less\<close>)

lemma padded_digits_length: "length (padded_digits n p) = 6"
  by (simp add: padded_digits_def digit_bases_def)

lemma padded_digits_bound:
  assumes "n \<le> 6" and "p < permutation_limit n" and "i < n"
  shows "padded_digits n p ! i < 6 - i"
proof -
  have "i < 6" using assms(1,3) by simp
  then have "[6, 5, 4, 3, 2, 1] ! i = 6 - i"
    by (cases rule: small_count_cases [of i, OF less_imp_le]) simp_all
  with list_all2_nthD [OF padded_digits_bounds [OF assms(1,2)], of i] assms(1,3) show ?thesis
    by (simp add: padded_digits_length)
qed

lemma Decompress_digits:
  fixes enc :: u32 and xabi :: x86_encoding_abi
  defines "count \<equiv> GET_BITS_WITH_MASK enc (X86_FRAMELESS_STACK_REG_COUNT xabi)"
    and "perm \<equiv> GET_BITS_WITH_MASK enc (X86_FRAMELESS_STACK_REG_PERMUTATION xabi)"
  assumes "unat count \<le> 6"
  shows "FIRCLSCompactUnwindDecompressPermutation xabi enc =
    Some (map of_nat (padded_digits (unat count) (unat perm)))"
proof -
  have peel: "map of_nat (nat_digits (digit_bases n) (unat perm)) = peel_digits (map of_nat (digit_bases n)) perm" for n
    by (rule peel_digits_nat [symmetric]) (auto simp: digit_bases_def)
  have zeros: "replicate 6 (0 :: u64) = [0, 0, 0, 0, 0, 0]" "replicate 5 (0 :: u64) = [0, 0, 0, 0, 0]"
    "replicate 4 (0 :: u64) = [0, 0, 0, 0]" "replicate 3 (0 :: u64) = [0, 0, 0]" "replicate 2 (0 :: u64) = [0, 0]"
    by (simp_all add: numeral_eq_Suc)
  obtain n where n: "count = of_nat n" "unat count = n" "n \<le> 6" using assms(3) that [of "unat count"] by simp
  have "(case n of 0 \<Rightarrow> replicate 6 0 | Suc m \<Rightarrow> peel_digits (map of_nat (digit_bases n)) perm @
      replicate (5 - length (digit_bases n)) 0) = map of_nat (padded_digits n (unat perm))"
    by (simp add: padded_digits_def peel split: nat.splits)
  moreover have "FIRCLSCompactUnwindDecompressPermutation xabi enc =
    Some (case n of 0 \<Rightarrow> replicate 6 0 | Suc m \<Rightarrow> peel_digits (map of_nat (digit_bases n)) perm @
      replicate (5 - length (digit_bases n)) 0)"
    using n(3)
  proof (cases rule: small_count_cases)
  qed (use n(1) in \<open>simp_all add: FIRCLSCompactUnwindDecompressPermutation_def digit_bases_def Let_def
      zeros flip: count_def perm_def\<close>)
  ultimately show ?thesis by (simp add: n(2))
qed

lemma permutation_number_digits:
  assumes "n \<le> 6" and "0 < n" and "length ss = n"
    and "\<forall>j < n. lehmer_digit ss j = padded_digits n p ! j"
  shows "permutation_number ss = p"
proof -
  define ks where "ks = digit_bases n"
  have ks: "permutation_weights n = ks @ [1]" "Suc (length ks) \<le> n"
    using assms(1,2) by (auto simp: ks_def permutation_weights_def digit_bases_def)
  have pad: "padded_digits n p = nat_digits ks p @ replicate (5 - length ks) 0"
    using assms(2) by (simp add: padded_digits_def ks_def)
  have "map (lehmer_digit ss) [0..<n] = take n (padded_digits n p)"
    using assms by (intro nth_equalityI) (simp_all add: padded_digits_length)
  then have "zip (permutation_weights n) (map (lehmer_digit ss) [0..<n]) =
      zip (ks @ [1]) (nat_digits ks p)"
    using ks(2) by (simp add: ks(1) pad zip_append2 take_append)
  then show ?thesis using nat_digits_sum [of ks p] by (simp add: permutation_number_def assms(3))
qed

lemma frameless_registers:
  fixes enc :: u32 and xabi :: x86_encoding_abi
  defines "count \<equiv> unat (GET_BITS_WITH_MASK enc (X86_FRAMELESS_STACK_REG_COUNT xabi))"
    and "number \<equiv> unat (GET_BITS_WITH_MASK enc (X86_FRAMELESS_STACK_REG_PERMUTATION xabi))"
  assumes "count \<le> 6" and "number < permutation_limit count"
  shows "\<exists>perm saved ss. FIRCLSCompactUnwindDecompressPermutation xabi enc = Some perm \<and>
    FIRCLSCompactUnwindRemapRegisters xabi enc perm = Some saved \<and> take count saved = map of_nat ss \<and>
    length ss = count \<and> distinct ss \<and> set ss \<subseteq> {1..6} \<and> (0 < count \<longrightarrow> permutation_number ss = number)"
proof -
  define ds where "ds = padded_digits count number"
  have dec: "FIRCLSCompactUnwindDecompressPermutation xabi enc = Some (map of_nat ds)"
    using Decompress_digits assms(3) by (simp add: ds_def count_def number_def)
  have digits: "\<forall>i < count. ds ! i < 6 - i \<and> (map of_nat ds :: u64 list) ! i = of_nat (ds ! i)"
    using padded_digits_bound [OF assms(3,4)] assms(3) by (simp add: ds_def padded_digits_length)
  have "remapped ds [] (replicate 7 False, replicate 6 0)" by (simp add: remapped_def)
  from remap_loop_remapped [OF this assms(3) digits]
  obtain ss where len: "length ss = count" and
    inv: "remapped ds ss (remap_loop (map of_nat ds) [0..<count] (replicate 7 False, replicate 6 0))" by auto
  have "\<not> 6 < GET_BITS_WITH_MASK enc (X86_FRAMELESS_STACK_REG_COUNT xabi)"
    using assms(3) by (simp add: count_def word_less_nat_alt)
  then have "FIRCLSCompactUnwindRemapRegisters xabi enc (map of_nat ds) =
      Some (snd (remap_loop (map of_nat ds) [0..<count] (replicate 7 False, replicate 6 0)))"
    by (simp add: FIRCLSCompactUnwindRemapRegisters_def Let_def count_def)
  moreover have "permutation_number ss = number" if "0 < count"
    using permutation_number_digits [OF assms(3) that len] inv len by (simp add: remapped_def ds_def)
  ultimately show ?thesis using dec inv len by (auto simp: remapped_def)
qed

section \<open>Frames of a walk\<close>

abbreviation arm64_next ::
  "cls_env \<Rightarrow> cls_images \<Rightarrow> compact_abi \<Rightarrow> arm_sdk \<Rightarrow> arm_encoding_abi \<Rightarrow> u32 \<Rightarrow>
     arm_state FIRCLSUnwindContext \<Rightarrow> (bool \<times> arm_state FIRCLSUnwindContext) loop_result" where
  "arm64_next env images abi sdk aabi maxFrames \<equiv>
     FIRCLSUnwindNextFrame env images abi (arm64_ops sdk) (arm64_unwind env sdk aabi) maxFrames"

lemma frame_succ:
  assumes "a < (b :: u32)"
  shows "unat (a + 1) = unat a + 1"
proof -
  have "unat b < 2 ^ 32" using unsigned_less [of b] by simp
  with assms show ?thesis by (simp add: word_less_nat_alt unat_word_ariths)
qed

text \<open>
  \<open>frames ctx cs ctx'\<close>: from \<open>ctx\<close> the unwinder delivers the contexts \<open>cs\<close>, one per call that
  returns true, and then returns false in \<open>ctx'\<close>.
\<close>

primrec frames ::
  "('c FIRCLSUnwindContext \<Rightarrow> (bool \<times> 'c FIRCLSUnwindContext) loop_result) \<Rightarrow>
     'c FIRCLSUnwindContext \<Rightarrow> 'c FIRCLSUnwindContext list \<Rightarrow> 'c FIRCLSUnwindContext \<Rightarrow> bool" where
  "frames unwind ctx [] ctx' \<longleftrightarrow> unwind ctx = Returned (False, ctx')"
| "frames unwind ctx (c # cs) ctx' \<longleftrightarrow> unwind ctx = Returned (True, c) \<and> frames unwind c cs ctx'"

definition no_images :: "cls_images \<Rightarrow> bool" where
  "no_images images \<longleftrightarrow> (\<forall>a. FIRCLSBinaryImageSafeFindImageForAddress images a = None)"

lemma no_images_compact:
  "no_images images \<Longrightarrow> FIRCLSUnwindWithCompactUnwindInfo env images abi ops au ctx = Returned (False, ctx)"
  by (simp add: no_images_def FIRCLSUnwindWithCompactUnwindInfo_def)

text \<open>A chain of frame records: each holds the address of the next one and a return address.\<close>

primrec frame_chain :: "cls_env \<Rightarrow> (u64 \<Rightarrow> u64) \<Rightarrow> u64 \<Rightarrow> u64 list \<Rightarrow> bool" where
  "frame_chain env norm fp [] \<longleftrightarrow> fp = 0"
| "frame_chain env norm fp (ra # ras) \<longleftrightarrow> fp \<noteq> 0 \<and>
     (\<exists>fp'. read_frame_record env fp = Some (fp', ra) \<and> 4096 < norm ra \<and>
       FIRCLSIsValidPointer (norm (fp + 16)) \<and> frame_chain env norm (norm fp') ras)"

section \<open>Interface: an architecture with frame pointers\<close>

locale frame_pointer_arch =
  fixes env :: cls_env and ops :: "'c arch_ops" and au :: "'c arch_unwind" and norm :: "u64 \<Rightarrow> u64"
  assumes pc_laws: "GetPC ops (SetPC ops v r) = norm v"
      "GetPC ops (SetFramePointer ops v r) = GetPC ops r"
      "GetPC ops (SetStackPointer ops v r) = GetPC ops r"
    and sp_laws: "GetStackPointer ops (SetStackPointer ops v r) = norm v"
      "GetStackPointer ops (SetPC ops v r) = GetStackPointer ops r"
    and fp_laws: "GetFramePointer ops (SetFramePointer ops v r) = norm v"
      "GetFramePointer ops (SetPC ops v r) = GetFramePointer ops r"
      "GetFramePointer ops (SetStackPointer ops v r) = GetFramePointer ops r"
    and norm_zero: "norm 0 = 0"
    and follow: "with_frame_pointer au r False =
      Returned (case read_frame_record env (GetFramePointer ops r) of
        None \<Rightarrow> (False, r)
      | Some (fp, ra) \<Rightarrow> (True, SetStackPointer ops (GetFramePointer ops r + 16)
          (SetFramePointer ops fp (SetPC ops ra r))))"
begin

lemma next_frame_end:
  assumes "no_images images" and "FIRCLSUnwindContextHasValidPCAndSP ops ctx" and "0 < frameCount ctx"
    and "GetFramePointer ops (uc_registers ctx) = 0"
  shows "\<exists>ctx'. FIRCLSUnwindNextFrame env images abi ops au maxFrames ctx = Returned (False, ctx')"
  using assms
  by (auto simp: FIRCLSUnwindNextFrame_def FIRCLSUnwindNextFrameUsingAllStrategies_def Let_def
      no_images_compact FIRCLSUnwindGetPC_def FIRCLSUnwindGetFramePointer_def pc_laws fp_laws norm_zero)

lemma next_frame_link:
  assumes "no_images images" and "FIRCLSUnwindContextHasValidPCAndSP ops ctx" and "1 < frameCount ctx"
    and "frameCount ctx < maxFrames" and "4096 < GetPC ops (uc_registers ctx)"
    and "GetFramePointer ops (uc_registers ctx) = fp" and "fp \<noteq> 0"
    and "read_frame_record env fp = Some (fp', ra)" and "4096 < norm ra"
    and "FIRCLSIsValidPointer (norm (fp + 16))"
  shows "\<exists>c. FIRCLSUnwindNextFrame env images abi ops au maxFrames ctx = Returned (True, c) \<and>
    GetPC ops (uc_registers c) = norm ra \<and> GetFramePointer ops (uc_registers c) = norm fp'"
proof -
  have pc: "FIRCLSIsValidPointer (GetPC ops (uc_registers ctx) - 1)"
    using assms(5) by (simp add: FIRCLSIsValidPointer_def word_less_nat_alt word_le_nat_alt unat_sub)
  have ra: "FIRCLSIsValidPointer (norm ra)"
    using assms(9) by (simp add: FIRCLSIsValidPointer_def)
  have counts: "\<not> maxFrames \<le> frameCount ctx" "0 < frameCount ctx" "frameCount ctx \<noteq> 0" "frameCount ctx \<noteq> 1"
    using assms(3,4) by (auto simp: word_less_nat_alt word_le_nat_alt)
  show ?thesis
    using assms pc ra counts
    by (simp add: FIRCLSUnwindNextFrame_def FIRCLSUnwindNextFrameUsingAllStrategies_def Let_def
        no_images_compact FIRCLSUnwindGetPC_def FIRCLSUnwindGetFramePointer_def
        FIRCLSUnwindGetStackPointer_def pc_laws fp_laws sp_laws follow)
qed

text \<open>The unwinder follows the chain link by link and stops at its end.\<close>

lemma chain_frames:
  assumes "no_images images" and "frame_chain env norm (GetFramePointer ops (uc_registers ctx)) ras"
    and "FIRCLSUnwindContextHasValidPCAndSP ops ctx" and "4096 < GetPC ops (uc_registers ctx)"
    and "1 < frameCount ctx" and "unat (frameCount ctx) + length ras \<le> unat maxFrames"
  shows "\<exists>cs ctx'. frames (FIRCLSUnwindNextFrame env images abi ops au maxFrames) ctx cs ctx' \<and>
    map (FIRCLSUnwindGetPC ops) cs = map norm ras"
  using assms(2-)
proof (induction ras arbitrary: ctx)
  case Nil
  have "0 < frameCount ctx" using Nil.prems(4) by (rule order.strict_trans [rotated]) simp
  with next_frame_end [OF assms(1) Nil.prems(2)] Nil.prems(1) show ?case
    by (intro exI [of _ "[]"]) simp
next
  case (Cons ra ras)
  have lt: "frameCount ctx < maxFrames" using Cons.prems(5) by (simp add: word_less_nat_alt)
  from Cons.prems(1) obtain fp' where link: "GetFramePointer ops (uc_registers ctx) \<noteq> 0"
    "read_frame_record env (GetFramePointer ops (uc_registers ctx)) = Some (fp', ra)" "4096 < norm ra"
    "FIRCLSIsValidPointer (norm (GetFramePointer ops (uc_registers ctx) + 16))"
    "frame_chain env norm (norm fp') ras" by auto
  obtain c where c: "FIRCLSUnwindNextFrame env images abi ops au maxFrames ctx = Returned (True, c)"
    "GetPC ops (uc_registers c) = norm ra" "GetFramePointer ops (uc_registers c) = norm fp'"
    using next_frame_link [OF assms(1) Cons.prems(2,4) lt Cons.prems(3) refl link(1-4)] by blast
  note f = NextFrame_true [OF c(1)]
  have cnt: "unat (frameCount c) = unat (frameCount ctx) + 1"
    using f lt by (simp add: frame_succ)
  have "\<exists>cs ctx'. frames (FIRCLSUnwindNextFrame env images abi ops au maxFrames) c cs ctx' \<and>
      map (FIRCLSUnwindGetPC ops) cs = map norm ras"
    using f c link(3,5) cnt Cons.prems(4,5)
    by (intro Cons.IH) (auto simp: word_less_nat_alt)
  then obtain cs ctx' where "frames (FIRCLSUnwindNextFrame env images abi ops au maxFrames) c cs ctx'"
    "map (FIRCLSUnwindGetPC ops) cs = map norm ras" by blast
  with c show ?case by (intro exI [of _ "c # cs"]) (auto simp: FIRCLSUnwindGetPC_def [of ops c])
qed

text \<open>A record that points back to itself is followed up to the frame limit.\<close>

lemma cycle_frames:
  assumes "no_images images" and "read_frame_record env fp = Some (fp', ra)" and "norm fp' = fp" and "fp \<noteq> 0"
    and "4096 < norm ra" and "FIRCLSIsValidPointer (norm (fp + 16))"
  shows "GetFramePointer ops (uc_registers ctx) = fp \<Longrightarrow> FIRCLSUnwindContextHasValidPCAndSP ops ctx \<Longrightarrow>
    4096 < GetPC ops (uc_registers ctx) \<Longrightarrow> 1 < frameCount ctx \<Longrightarrow>
    unat (frameCount ctx) + n = unat maxFrames \<Longrightarrow>
    \<exists>cs ctx'. frames (FIRCLSUnwindNextFrame env images abi ops au maxFrames) ctx cs ctx' \<and>
      map (FIRCLSUnwindGetPC ops) cs = replicate n (norm ra)"
proof (induction n arbitrary: ctx)
  case 0
  then have "maxFrames \<le> frameCount ctx" by (simp add: word_le_nat_alt)
  with 0 show ?case
    by (intro exI [of _ "[]"])
      (simp add: FIRCLSUnwindNextFrame_def FIRCLSUnwindNextFrameUsingAllStrategies_def)
next
  case (Suc n)
  have lt: "frameCount ctx < maxFrames" using Suc.prems(5) by (simp add: word_less_nat_alt)
  obtain c where c: "FIRCLSUnwindNextFrame env images abi ops au maxFrames ctx = Returned (True, c)"
    "GetPC ops (uc_registers c) = norm ra" "GetFramePointer ops (uc_registers c) = fp"
    using next_frame_link [OF assms(1) Suc.prems(2,4) lt Suc.prems(3,1) assms(4,2,5,6)] assms(3) by auto
  note f = NextFrame_true [OF c(1)]
  have cnt: "unat (frameCount c) = unat (frameCount ctx) + 1"
    using f lt by (simp add: frame_succ)
  have "\<exists>cs ctx'. frames (FIRCLSUnwindNextFrame env images abi ops au maxFrames) c cs ctx' \<and>
      map (FIRCLSUnwindGetPC ops) cs = replicate n (norm ra)"
    using f c assms(5) cnt Suc.prems(4,5) by (intro Suc.IH) (auto simp: word_less_nat_alt)
  then obtain cs ctx' where "frames (FIRCLSUnwindNextFrame env images abi ops au maxFrames) c cs ctx'"
    "map (FIRCLSUnwindGetPC ops) cs = replicate n (norm ra)" by blast
  with c show ?case by (intro exI [of _ "c # cs"]) (auto simp: FIRCLSUnwindGetPC_def [of ops c])
qed

end

lemmas arch_unwind_defs =
  x86_64_unwind_def x86_64_ops_def arm64_unwind_def arm64_ops_def
  FIRCLSUnwindWithFramePointer_x86_def FIRCLSCompactUnwindBPFrame_def FIRCLSUnwindWithFramePointer_arm_def
  FIRCLSUnwindStackPointerFromFramePointer_def Let_def

interpretation x86_frames: frame_pointer_arch env x86_64_ops "x86_64_unwind env images xabi" "\<lambda>v. v"
  for env images xabi
  by unfold_locales (auto simp: arch_unwind_defs x86_register_defs split: option.splits)

sublocale arm64_sdk \<subseteq> frames: frame_pointer_arch env "arm64_ops sdk" "arm64_unwind env sdk aabi" CLS_PTRAUTH_STRIP
  for env aabi
  by unfold_locales
    (auto simp: arch_unwind_defs arm_register_defs CLS_PTRAUTH_STRIP_def [of 0] split: option.splits)

context arm64_sdk
begin

lemma arm64_chain_frames:
  assumes "no_images images"
    and "frame_chain env CLS_PTRAUTH_STRIP (GetFramePointer (arm64_ops sdk) (uc_registers ctx)) ras"
    and "FIRCLSUnwindContextHasValidPCAndSP (arm64_ops sdk) ctx"
    and "4096 < GetPC (arm64_ops sdk) (uc_registers ctx)"
    and "1 < frameCount ctx" and "unat (frameCount ctx) + length ras \<le> unat maxFrames"
  shows "\<exists>cs ctx'. frames (arm64_next env images abi sdk aabi maxFrames) ctx cs ctx' \<and>
    map (FIRCLSUnwindGetPC (arm64_ops sdk)) cs = map CLS_PTRAUTH_STRIP ras"
  by (rule frames.chain_frames [OF assms])

text \<open>The first two frames of a thread without unwind information: its program counter and its link register.\<close>

lemma arm64_first_frames:
  fixes r :: arm_state
  defines "pc \<equiv> GetPC (arm64_ops sdk) r" and "lr \<equiv> FIRCLSThreadContextGetLinkRegister_arm sdk r"
  assumes "no_images images" and "GetFramePointer (arm64_ops sdk) r \<noteq> 0" and "4096 < pc" and "4096 < lr"
    and "FIRCLSIsValidPointer (GetStackPointer (arm64_ops sdk) r)" and "2 \<le> unat maxFrames"
  obtains c1 c2 where
    "arm64_next env images abi sdk aabi maxFrames (FIRCLSUnwindInit r) = Returned (True, c1)"
    "arm64_next env images abi sdk aabi maxFrames c1 = Returned (True, c2)"
    "FIRCLSUnwindGetPC (arm64_ops sdk) c1 = pc" "FIRCLSUnwindGetPC (arm64_ops sdk) c2 = lr"
    "GetFramePointer (arm64_ops sdk) (uc_registers c2) = GetFramePointer (arm64_ops sdk) r" "frameCount c2 = 2"
    "FIRCLSUnwindContextHasValidPCAndSP (arm64_ops sdk) c2"
proof -
  let ?next = "arm64_next env images abi sdk aabi maxFrames"
  have valid: "FIRCLSIsValidPointer pc" "FIRCLSIsValidPointer lr" "FIRCLSIsValidPointer (pc - 1)"
    using assms(5,6) by (auto simp: FIRCLSIsValidPointer_def word_less_nat_alt word_le_nat_alt unat_sub)
  have max: "0 < maxFrames" "\<not> maxFrames \<le> 1"
    using assms(8) by (auto simp: word_less_nat_alt word_le_nat_alt)
  have strip: "CLS_PTRAUTH_STRIP lr = lr"
    by (simp add: lr_def FIRCLSThreadContextGetLinkRegister_arm_def CLS_PTRAUTH_STRIP_def and.assoc)
  define c1 where "c1 = (FIRCLSUnwindInit r)\<lparr>repeatCount := 0, frameCount := 1, lastFramePC := pc\<rparr>"
  have first: "?next (FIRCLSUnwindInit r) = Returned (True, c1)"
    using valid(1) assms(7) max(1)
    by (auto simp: FIRCLSUnwindNextFrame_def FIRCLSUnwindNextFrameUsingAllStrategies_def Let_def c1_def
        FIRCLSUnwindInit_def FIRCLSUnwindContextHasValidPCAndSP_def FIRCLSUnwindGetPC_def
        FIRCLSUnwindGetStackPointer_def pc_def)
  obtain c2 where second: "?next c1 = Returned (True, c2)" "GetPC (arm64_ops sdk) (uc_registers c2) = lr"
    "GetFramePointer (arm64_ops sdk) (uc_registers c2) = GetFramePointer (arm64_ops sdk) r"
    using valid strip assms(4,7) max(2)
    by (auto simp: FIRCLSUnwindNextFrame_def FIRCLSUnwindNextFrameUsingAllStrategies_def Let_def c1_def
        FIRCLSUnwindInit_def FIRCLSUnwindContextHasValidPCAndSP_def FIRCLSUnwindGetPC_def
        FIRCLSUnwindGetStackPointer_def FIRCLSUnwindGetFramePointer_def pc_def lr_def no_images_compact
        assms(3) arm64_unwind_def FIRCLSUnwindWithFramePointer_arm_def FIRCLSUnwindWithLRRegister_def
        arm64_ops_def arm_register_defs)
  have "FIRCLSUnwindGetPC (arm64_ops sdk) c1 = pc" "FIRCLSUnwindGetPC (arm64_ops sdk) c2 = lr" "frameCount c1 = 1"
    using second(2) by (simp_all add: FIRCLSUnwindGetPC_def c1_def pc_def FIRCLSUnwindInit_def)
  with NextFrame_true [OF second(1)] first second that show thesis by auto
qed

text \<open>
  A thread without unwind information: its own program counter, then its link register, then the
  return addresses of the chain.
\<close>

lemma arm64_thread_frames:
  fixes r :: arm_state
  defines "pc \<equiv> GetPC (arm64_ops sdk) r" and "lr \<equiv> FIRCLSThreadContextGetLinkRegister_arm sdk r"
  assumes "no_images images" and "frame_chain env CLS_PTRAUTH_STRIP (GetFramePointer (arm64_ops sdk) r) ras"
    and "4096 < pc" and "4096 < lr" and "ras \<noteq> []"
    and "FIRCLSIsValidPointer (GetStackPointer (arm64_ops sdk) r)" and "2 + length ras \<le> unat maxFrames"
  shows "\<exists>cs ctx'. frames (arm64_next env images abi sdk aabi maxFrames) (FIRCLSUnwindInit r) cs ctx' \<and>
    map (FIRCLSUnwindGetPC (arm64_ops sdk)) cs = pc # lr # map CLS_PTRAUTH_STRIP ras"
proof -
  have fp: "GetFramePointer (arm64_ops sdk) r \<noteq> 0" using assms(4,7) by (cases ras) auto
  have two: "2 \<le> unat maxFrames" using assms(9) by simp
  obtain c1 c2 where c: "arm64_next env images abi sdk aabi maxFrames (FIRCLSUnwindInit r) = Returned (True, c1)"
    "arm64_next env images abi sdk aabi maxFrames c1 = Returned (True, c2)"
    "FIRCLSUnwindGetPC (arm64_ops sdk) c1 = pc" "FIRCLSUnwindGetPC (arm64_ops sdk) c2 = lr"
    "GetFramePointer (arm64_ops sdk) (uc_registers c2) = GetFramePointer (arm64_ops sdk) r" "frameCount c2 = 2"
    "FIRCLSUnwindContextHasValidPCAndSP (arm64_ops sdk) c2"
    using arm64_first_frames [OF assms(3) fp assms(5,6)[unfolded pc_def lr_def] assms(8) two] pc_def lr_def by metis
  have "\<exists>cs ctx'. frames (arm64_next env images abi sdk aabi maxFrames) c2 cs ctx' \<and>
    map (FIRCLSUnwindGetPC (arm64_ops sdk)) cs = map CLS_PTRAUTH_STRIP ras"
    using c assms(4,6,9) by (intro arm64_chain_frames assms(3)) (simp_all add: FIRCLSUnwindGetPC_def)
  then obtain cs ctx' where "frames (arm64_next env images abi sdk aabi maxFrames) c2 cs ctx'"
    "map (FIRCLSUnwindGetPC (arm64_ops sdk)) cs = map CLS_PTRAUTH_STRIP ras" by blast
  with c show ?thesis by (intro exI [of _ "c1 # c2 # cs"] exI [of _ ctx']) simp
qed

text \<open>A frame record that points to itself fills the rest of the walk.\<close>

lemma arm64_cycle_frames:
  fixes r :: arm_state
  defines "pc \<equiv> GetPC (arm64_ops sdk) r" and "lr \<equiv> FIRCLSThreadContextGetLinkRegister_arm sdk r"
    and "fp \<equiv> GetFramePointer (arm64_ops sdk) r"
  assumes "no_images images" and "read_frame_record env fp = Some (fp', ra)" and "CLS_PTRAUTH_STRIP fp' = fp"
    and "fp \<noteq> 0" and "4096 < CLS_PTRAUTH_STRIP ra" and "FIRCLSIsValidPointer (CLS_PTRAUTH_STRIP (fp + 16))"
    and "4096 < pc" and "4096 < lr"
    and "FIRCLSIsValidPointer (GetStackPointer (arm64_ops sdk) r)" and "2 + n = unat maxFrames"
  shows "\<exists>cs ctx'. frames (arm64_next env images abi sdk aabi maxFrames) (FIRCLSUnwindInit r) cs ctx' \<and>
    map (FIRCLSUnwindGetPC (arm64_ops sdk)) cs = pc # lr # replicate n (CLS_PTRAUTH_STRIP ra)"
proof -
  have two: "2 \<le> unat maxFrames" using assms(13) by simp
  obtain c1 c2 where c: "arm64_next env images abi sdk aabi maxFrames (FIRCLSUnwindInit r) = Returned (True, c1)"
    "arm64_next env images abi sdk aabi maxFrames c1 = Returned (True, c2)"
    "FIRCLSUnwindGetPC (arm64_ops sdk) c1 = pc" "FIRCLSUnwindGetPC (arm64_ops sdk) c2 = lr"
    "GetFramePointer (arm64_ops sdk) (uc_registers c2) = fp" "frameCount c2 = 2"
    "FIRCLSUnwindContextHasValidPCAndSP (arm64_ops sdk) c2"
    using arm64_first_frames [OF assms(4) assms(7)[unfolded fp_def] assms(10,11)[unfolded pc_def lr_def] assms(12) two]
      pc_def lr_def fp_def by metis
  have "\<exists>cs ctx'. frames (arm64_next env images abi sdk aabi maxFrames) c2 cs ctx' \<and>
    map (FIRCLSUnwindGetPC (arm64_ops sdk)) cs = replicate n (CLS_PTRAUTH_STRIP ra)"
    using c assms(11,13) by (intro frames.cycle_frames [OF assms(4-9)]) (simp_all add: FIRCLSUnwindGetPC_def)
  then obtain cs ctx' where "frames (arm64_next env images abi sdk aabi maxFrames) c2 cs ctx'"
    "map (FIRCLSUnwindGetPC (arm64_ops sdk)) cs = replicate n (CLS_PTRAUTH_STRIP ra)" by blast
  with c show ?thesis by (intro exI [of _ "c1 # c2 # cs"] exI [of _ ctx']) simp
qed

end

end
