(* ===== verification/Cls_Unwind_Properties.thy ===== *)
theory Cls_Unwind_Properties
  imports Cls_Unwind_Facts
begin

text \<open>
  The properties of the unwinder outside DWARF: the compact table, the registers of a frameless
  encoding, the stack scan and the walk over the frames, each with a witness.
\<close>

section \<open>The compact table\<close>

text \<open>A table with the layout of the SDK's header: one page of two functions, one encoding.\<close>

definition demo_abi :: compact_abi where
  "demo_abi = \<lparr>UNWIND_SECTION_VERSION = 1, UNWIND_SECOND_LEVEL_REGULAR = 2, UNWIND_SECOND_LEVEL_COMPRESSED = 3,
     header_size = 28,
     header_of = (\<lambda>bs. \<lparr>hdr_version = le_word (take 4 bs), commonEncodingsArraySectionOffset = le_word (take 4 (drop 4 bs)),
       commonEncodingsArrayCount = le_word (take 4 (drop 8 bs)), indexSectionOffset = le_word (take 4 (drop 20 bs)),
       indexCount = le_word (take 4 (drop 24 bs))\<rparr>),
     index_size = 12, index_functionOffset = 0,
     index_of = (\<lambda>bs. \<lparr>functionOffset = le_word (take 4 bs), secondLevelPagesSectionOffset = le_word (take 4 (drop 4 bs))\<rparr>),
     page_entryPageOffset = 4, page_entryCount = 6, page_encodingsPageOffset = 8,
     COMPRESSED_ENTRY_FUNC_OFFSET = (\<lambda>e. e AND 0x00FFFFFF),
     COMPRESSED_ENTRY_ENCODING_INDEX = (\<lambda>e. drop_bit 24 e AND 0xFF)\<rparr>"

definition demo_table :: cls_env where
  "demo_table = env_of
     [(0x1000, [0, 0, 0, 0, 0x40, 0, 0, 0, 0, 0, 0, 0, 0, 1, 0, 0, 0, 0, 0, 0, 0, 0, 0, 0]),
      (0x1040, [3, 0, 0, 0, 12, 0, 2, 0, 20, 0, 0, 0, 0x10, 0, 0, 0, 0x40, 0, 0, 0]),
      (0x1054, [0, 0, 0, 1])]"

definition demo_compact :: FIRCLSCompactUnwindContext where
  "demo_compact = zero_compact_context\<lparr>unwindInfo := 0x1000, loadAddress := 0x10000,
     unwindHeader := \<lparr>hdr_version = 1, commonEncodingsArraySectionOffset = 0x54, commonEncodingsArrayCount = 1,
       indexSectionOffset = 0, indexCount = 2\<rparr>\<rparr>"

text \<open>
  C23. The binary search of a second-level page never faults on a page that holds sorted function
  offsets, and answers with the entry whose range contains the address; an address before the
  first entry gives entry 0, and an address in the last entry's range is reported as not found.
\<close>

theorem second_level_search:
  assumes "holds_entries env abi arr fs" and "sorted fs" and "unat entryCount = length fs"
    and "fs \<noteq> []" and "arr \<noteq> 0" and "address \<noteq> 0"
  shows "\<exists>found i. FIRCLSCompactUnwindBinarySearchSecondLevel env abi address index entryCount arr =
           Some (found, i) \<and>
    (if address < fs ! 0 then found \<and> i = 0
     else if fs ! (length fs - 1) \<le> address then \<not> found \<and> i = length fs - 1
     else found \<and> i + 1 < length fs \<and> fs ! i \<le> address \<and> address < fs ! (i + 1))"
  using BinarySearch_answer [OF assms] by (simp only: search_answer_def)

lemma demo_loads:
  "load demo_table 0x104C 4 = Some [0x10, 0, 0, 0]" "load demo_table 0x1050 4 = Some [0x40, 0, 0, 0]"
  "load demo_table 0x1054 4 = Some [0, 0, 0, 1]" "load demo_table 0x1040 4 = Some [3, 0, 0, 0]"
  "load demo_table 0x1044 2 = Some [12, 0]" "load demo_table 0x1046 2 = Some [2, 0]"
  "load demo_table 0x1000 4 = Some [0, 0, 0, 0]" "load demo_table 0x100C 4 = Some [0, 1, 0, 0]"
  "load demo_table 0x1000 12 = Some [0, 0, 0, 0, 0x40, 0, 0, 0, 0, 0, 0, 0]"
  by (rule bytes_at_load, simp add: demo_table_def env_of_def, simp)+

lemma demo_entries: "holds_entries demo_table demo_abi 0x104C [0x10, 0x40]"
  unfolding holds_entries_def
proof (intro allI impI)
  fix i assume "i < length [0x10 :: u64, 0x40]"
  then consider "i = 0" | "i = 1" by force
  then show "entry_offset demo_table demo_abi 0x104C i = Some ([0x10, 0x40] ! i)"
    by cases (simp_all add: entry_offset_def load32_def demo_loads le_word_def demo_abi_def)
qed

lemma second_level_search_witness:
  "\<exists>found i. FIRCLSCompactUnwindBinarySearchSecondLevel demo_table demo_abi 0x20 0 2 0x104C = Some (found, i) \<and>
     found \<and> i = 0"
  using second_level_search [OF demo_entries, of 2 "0x20" 0] by (auto simp: less_Suc_eq)

text \<open>
  C24. A successful lookup names a function whose range contains the program counter, with an
  encoding that is not zero.
\<close>

theorem compact_lookup_sound:
  assumes "FIRCLSCompactUnwindLookup env abi ctx pc r0 = Some (True, ctx', result)"
  shows "functionStart result \<le> pc \<and> pc < functionEnd result \<and> encoding result \<noteq> 0"
  using assms by (rule Lookup_sound)

lemma demo_search:
  "FIRCLSCompactUnwindBinarySearchSecondLevel demo_table demo_abi 0x20 0 2 0x104C = Some (True, 0)"
  using BinarySearch_answer [OF demo_entries, of 2 "0x20" 0] by (auto simp: search_answer_def less_Suc_eq)

lemma compact_lookup_sound_witness:
  "\<exists>ctx' result. FIRCLSCompactUnwindLookup demo_table demo_abi demo_compact 0x10020 zero_compact_result =
       Some (True, ctx', result) \<and>
     functionStart result \<le> 0x10020 \<and> 0x10020 < functionEnd result \<and> encoding result \<noteq> 0"
proof -
  have "\<exists>ctx' result. FIRCLSCompactUnwindLookup demo_table demo_abi demo_compact 0x10020 zero_compact_result =
       Some (True, ctx', result)"
    using demo_search
    by (simp add: FIRCLSCompactUnwindLookup_def FIRCLSCompactUnwindLookupFirstLevel_def demo_compact_def
        zero_compact_context_def FIRCLSCompactUnwindGetIndexData_def load32_def load16_def demo_loads demo_abi_def
        le_word_def FIRCLSCompactUnwindLookupSecondLevel_def FIRCLSCompactUnwindGetSecondLevelPageKind_def
        FIRCLSCompactUnwindGetSecondLevelData_def FIRCLSCompactUnwindLookupSecondLevelCompressed_def
        FIRCLSCompactUnwindGetTargetAddress_def FIRCLSCompactUnwindGetIndexFunctionOffset_def
        FIRCLSCompactUnwindGetCommonEncodings_def Let_def)
  then show ?thesis using compact_lookup_sound by blast
qed

section \<open>Frameless functions\<close>

text \<open>
  C25. Decoding the permutation of a frameless x86_64 encoding: for a register count of at most six
  and a permutation number in range, decompression and renumbering succeed, the saved registers
  are distinct and in 1 to 6, and numbering their order again gives the permutation number back.
\<close>

theorem frameless_registers_roundtrip:
  fixes enc :: u32 and xabi :: x86_encoding_abi
  assumes "unat (GET_BITS_WITH_MASK enc (X86_FRAMELESS_STACK_REG_COUNT xabi)) = count"
    and "unat (GET_BITS_WITH_MASK enc (X86_FRAMELESS_STACK_REG_PERMUTATION xabi)) = number"
    and "0 < count" and "count \<le> 6" and "number < permutation_limit count"
  shows "\<exists>perm saved ss. FIRCLSCompactUnwindDecompressPermutation xabi enc = Some perm \<and>
    FIRCLSCompactUnwindRemapRegisters xabi enc perm = Some saved \<and> take count saved = map of_nat ss \<and>
    length ss = count \<and> distinct ss \<and> set ss \<subseteq> {1..6} \<and> permutation_number ss = number"
  using frameless_registers [of enc xabi] assms by auto

definition demo_xabi :: x86_encoding_abi where
  "demo_xabi = \<lparr>X86_MODE_MASK = 0x0F000000, X86_MODE_BP_FRAME = 0x01000000, X86_MODE_STACK_IMMD = 0x02000000,
     X86_MODE_STACK_IND = 0x03000000, X86_MODE_DWARF = 0x04000000, X86_FRAMELESS_STACK_SIZE = 0x00FF0000,
     X86_FRAMELESS_STACK_ADJUST = 0x0000E000, X86_FRAMELESS_STACK_REG_COUNT = 0x00001C00,
     X86_FRAMELESS_STACK_REG_PERMUTATION = 0x000003FF, X86_DWARF_SECTION_OFFSET = 0x00FFFFFF, X86_REG_RBP = 6\<rparr>"

lemma ctz_demo: "ctz32 0x1C00 = 10" "ctz32 0x3FF = 0"
  by code_simp+

lemma demo_fields:
  "unat (GET_BITS_WITH_MASK 0x02020C1D (X86_FRAMELESS_STACK_REG_COUNT demo_xabi)) = 3"
  "unat (GET_BITS_WITH_MASK 0x02020C1D (X86_FRAMELESS_STACK_REG_PERMUTATION demo_xabi)) = 29"
  by (simp_all add: GET_BITS_WITH_MASK_def demo_xabi_def ctz_demo drop_bit_eq_div)

lemma frameless_registers_roundtrip_witness:
  "\<exists>perm saved ss. FIRCLSCompactUnwindDecompressPermutation demo_xabi 0x02020C1D = Some perm \<and>
    FIRCLSCompactUnwindRemapRegisters demo_xabi 0x02020C1D perm = Some saved \<and> take 3 saved = map of_nat ss \<and>
    length ss = 3 \<and> distinct ss \<and> set ss \<subseteq> {1..6} \<and> permutation_number ss = 29"
  by (rule frameless_registers_roundtrip [OF demo_fields]) (simp_all add: permutation_limit_def)

section \<open>The stack scan\<close>

text \<open>
  C37. The stack scan reads the words from the stack pointer to the frame pointer in order and
  returns the first one that lies in a loaded image, or false when there is none.
\<close>

theorem stack_scan_first:
  assumes "vm_read_ok env" and "FIRCLSIsValidPointer start"
    and "\<forall>i < length ws. \<exists>bs. load env (start + 8 * of_nat i) 8 = Some bs \<and> le_word bs = ws ! i"
    and "unat end = unat start + 8 * length ws" and "ws \<noteq> []"
  shows "FIRCLSUnwindFirstExecutableAddress env images start end =
    Returned (case find (FIRCLSUnwindIsAddressExecutable images) ws of None \<Rightarrow> (False, 0) | Some w \<Rightarrow> (True, w))"
  using FirstExecutableAddress_answer [OF assms(1,2) _ assms(4,5)] assms(3)
  by (simp only: stack_words_def scan_answer_def)

definition demo_images :: cls_images where
  "demo_images = \<lparr>context_initialized = True, nodes = Some [\<lparr>baseAddress = 0x4000, node_size = 0x1000,
     node_ehFrame = 0, node_unwindInfo = 0, node_crashInfo = 0\<rparr>]\<rparr>"

definition demo_stack :: cls_env where
  "demo_stack = env_of [(0x8000, [7, 0, 0, 0, 0, 0, 0, 0, 0x34, 0x42, 0, 0, 0, 0, 0, 0])]"

lemma demo_stack_loads:
  "load demo_stack 0x8000 8 = Some [7, 0, 0, 0, 0, 0, 0, 0]"
  "load demo_stack 0x8008 8 = Some [0x34, 0x42, 0, 0, 0, 0, 0, 0]"
  by (rule bytes_at_load, simp add: demo_stack_def env_of_def, simp)+

lemma stack_scan_first_witness:
  "FIRCLSUnwindFirstExecutableAddress demo_stack demo_images 0x8000 0x8010 = Returned (True, 0x4234)"
proof -
  have words: "\<forall>i < length [7 :: u64, 0x4234]. \<exists>bs. load demo_stack (0x8000 + 8 * of_nat i) 8 = Some bs \<and>
      le_word bs = [7 :: u64, 0x4234] ! i"
  proof (intro allI impI)
    fix i assume "i < length [7 :: u64, 0x4234]"
    then consider "i = 0" | "i = 1" by force
    then show "\<exists>bs. load demo_stack (0x8000 + 8 * of_nat i) 8 = Some bs \<and> le_word bs = [7 :: u64, 0x4234] ! i"
      by cases (simp_all add: demo_stack_loads le_word_def)
  qed
  have "vm_read_ok demo_stack" by (simp add: demo_stack_def vm_read_ok_env_of)
  from stack_scan_first [OF this _ words, of "0x8010" demo_images] show ?thesis
    by (simp add: FIRCLSIsValidPointer_def FIRCLSUnwindIsAddressExecutable_def demo_images_def
        FIRCLSBinaryImageSafeFindImageForAddress_def node_covers_def)
qed

text \<open>
  With page zero unmapped, as on every 64-bit Apple platform, the scan always returns or
  faults: it cannot loop, even when the end of the range is below its start or the stack pointer
  wraps around.
\<close>

theorem stack_scan_terminates:
  assumes "\<And>a. unat a < 4096 \<Longrightarrow> mem env a = None"
  shows "FIRCLSUnwindFirstExecutableAddress env images start end \<noteq> Out_of_fuel"
  using assms by (rule FirstExecutableAddress_fuel)

lemma stack_scan_terminates_example:
  "FIRCLSUnwindFirstExecutableAddress (env_of []) demo_images 0xFFFFFFFFFFFFFFFC 0xFFFFFFFFFFFFFFFF \<noteq> Out_of_fuel"
  by (rule stack_scan_terminates) (simp add: env_of_def)

section \<open>The walk\<close>


definition demo_frames :: cls_env where
  "demo_frames = env_of [(0x8000, [0, 0, 0, 0, 0, 0, 0, 0, 0x34, 0x62, 0, 0, 0, 0, 0, 0xAB])]"

lemma demo_frame_record: "read_frame_record demo_frames 0x8000 = Some (0, 0xAB00000000006234)"
proof -
  have "load demo_frames 0x8000 16 = Some [0, 0, 0, 0, 0, 0, 0, 0, 0x34, 0x62, 0, 0, 0, 0, 0, 0xAB]"
    by (rule bytes_at_load) (simp_all add: demo_frames_def env_of_def)
  moreover have "vm_read demo_frames a n = load demo_frames a n" for a n
    using vm_read_ok_env_of by (simp add: demo_frames_def vm_read_ok_def)
  ultimately show ?thesis
    by (simp add: read_frame_record_def FIRCLSReadMemory_def FIRCLSIsValidPointer_def le_word_def)
qed

definition demo_arm :: arm_state where
  "demo_arm = \<lparr>x = replicate 29 0, raw_fp = 0x8000, raw_lr = 0x5000, raw_sp = 0x7000, raw_pc = 0x4000, cpsr = 0\<rparr>"

lemma demo_arm_values:
  "FIRCLSThreadContextGetPC_arm plain_sdk demo_arm = 0x4000"
  "FIRCLSThreadContextGetLinkRegister_arm plain_sdk demo_arm = 0x5000"
  "FIRCLSThreadContextGetStackPointer_arm plain_sdk demo_arm = 0x7000"
  "FIRCLSThreadContextGetFramePointer_arm plain_sdk demo_arm = 0x8000"
  by (simp_all add: arm_register_defs plain_sdk_def demo_arm_def CLS_PTRAUTH_STRIP_def)

definition demo_aabi :: arm_encoding_abi where
  "demo_aabi = \<lparr>ARM64_MODE_MASK = 0x0F000000, ARM64_MODE_FRAMELESS = 0x02000000, ARM64_MODE_DWARF = 0x03000000,
     ARM64_MODE_FRAME = 0x04000000, ARM64_DWARF_SECTION_OFFSET = 0x00FFFFFF\<rparr>"

definition no_image :: cls_images where
  "no_image = \<lparr>context_initialized = True, nodes = Some []\<rparr>"

lemma no_image: "no_images no_image"
  by (simp add: no_images_def no_image_def FIRCLSBinaryImageSafeFindImageForAddress_def)


text \<open>
  C29. However the strategies behave, a walk delivers at most \<open>FIRCLSUnwindMaxFrames\<close> frames: the
  frame count is the number of frames delivered, every delivered frame has a valid program counter
  and stack pointer, and after the last permitted frame the next call returns no frame.
\<close>

theorem walk_bounded:
  assumes "walk env images abi ops au maxFrames thread n ctx"
  shows "unat (frameCount ctx) = n \<and> n \<le> unat maxFrames \<and>
    (0 < n \<longrightarrow> FIRCLSUnwindContextHasValidPCAndSP ops ctx) \<and>
    (n = unat maxFrames \<longrightarrow>
       (\<forall>ctx'. FIRCLSUnwindNextFrame env images abi ops au maxFrames ctx \<noteq> Returned (True, ctx')))"
proof -
  have "FIRCLSUnwindNextFrame env images abi ops au maxFrames ctx \<noteq> Returned (True, ctx')"
    if "n = unat maxFrames" for ctx'
    by (rule walk_ends) (use assms that in simp)
  with walk_invariant [OF assms] show ?thesis by simp
qed

lemma frames_walk:
  "walk env images abi ops au maxFrames thread n ctx \<Longrightarrow>
     frames (FIRCLSUnwindNextFrame env images abi ops au maxFrames) ctx cs ctx' \<Longrightarrow>
     \<exists>c. walk env images abi ops au maxFrames thread (n + length cs) c"
proof (induction cs arbitrary: n ctx)
  case (Cons c cs)
  then have "walk env images abi ops au maxFrames thread (Suc n) c" by (auto intro: walk_frame)
  from Cons.IH [OF this] Cons.prems(2) show ?case by auto
qed auto

lemma demo_walk:
  "\<exists>ctx. walk demo_frames no_image demo_abi (arm64_ops plain_sdk) (arm64_unwind demo_frames plain_sdk demo_aabi)
     3 demo_arm 3 ctx"
proof -
  have "\<exists>cs ctx'. frames (arm64_next demo_frames no_image demo_abi plain_sdk demo_aabi 3) (FIRCLSUnwindInit demo_arm) cs ctx' \<and>
      map (FIRCLSUnwindGetPC (arm64_ops plain_sdk)) cs = [0x4000, 0x5000, 0x6234]"
    using plain_arm64.arm64_thread_frames [OF no_image, of demo_frames demo_arm "[0xAB00000000006234]" 3 demo_abi demo_aabi]
    by (simp add: arm64_ops_def demo_arm_values demo_frame_record FIRCLSIsValidPointer_def CLS_PTRAUTH_STRIP_def)
  then obtain cs ctx' where cs: "frames (arm64_next demo_frames no_image demo_abi plain_sdk demo_aabi 3)
      (FIRCLSUnwindInit demo_arm) cs ctx'" and "map (FIRCLSUnwindGetPC (arm64_ops plain_sdk)) cs = [0x4000, 0x5000, 0x6234]"
    by (elim exE conjE)
  then have "length cs = 3" by (metis length_map list.size(3,4) One_nat_def add_Suc_right numeral_3_eq_3 add_0_right)
  with frames_walk [OF walk_start cs] show ?thesis by simp
qed

lemma walk_bounded_witness:
  "\<exists>ctx. unat (frameCount ctx) = 3 \<and>
     FIRCLSUnwindContextHasValidPCAndSP (arm64_ops plain_sdk) ctx \<and>
     (\<forall>ctx'. arm64_next demo_frames no_image demo_abi plain_sdk demo_aabi 3 ctx \<noteq> Returned (True, ctx'))"
  using demo_walk walk_bounded by fastforce

end
