(* ===== verification/Cls_File.thy ===== *)
theory Cls_File
  imports Cls_Prelude
begin

text \<open>
  FIRCLSFile.m: the streaming JSON writer every part of a crash report is written with. \<open>write(2)\<close>
  is a parameter: \<open>dev_write\<close> gives the result of the \<open>n\<close>-th call for a given length. A file
  collects its text in a 1000-byte buffer, or writes through when \<open>bufferWrites\<close> is off.
  Opening a file and reading one back (Objective-C) are not modelled.
\<close>

section \<open>Writing bytes\<close>

record cls_device =
  dev_bytes :: string
  dev_calls :: nat
  dev_write :: "nat \<Rightarrow> nat \<Rightarrow> int"

definition write_fd :: "string \<Rightarrow> cls_device \<Rightarrow> int \<times> cls_device" where
  "write_fd s d = (let ret = dev_write d (dev_calls d) (length s) in
     (ret, d\<lparr>dev_bytes := dev_bytes d @ take (nat ret) s, dev_calls := dev_calls d + 1\<rparr>))"

definition CLS_FILE_MAX_WRITE_ATTEMPTS :: nat where
  "CLS_FILE_MAX_WRITE_ATTEMPTS = 50"

text \<open>The loop over \<open>count\<close>; the first argument is how many attempts are left.\<close>

primrec write_block_loop :: "nat \<Rightarrow> (string \<Rightarrow> 'd \<Rightarrow> int \<times> 'd) \<Rightarrow> string \<Rightarrow> 'd \<Rightarrow> bool \<times> 'd" where
  "write_block_loop 0 block s d = (False, d)"
| "write_block_loop (Suc n) block s d =
    (if s = [] then (False, d)
     else case block s d of (ret, d) \<Rightarrow>
       if ret = int (length s) then (True, d)
       else if ret < 0 then (False, d)
       else if int (length s) < ret then (False, d)
       else if 0 < ret then write_block_loop n block (drop (nat ret) s) d
       else (False, d))"

definition FIRCLSFileLoopWithWriteBlock :: "string \<Rightarrow> (string \<Rightarrow> 'd \<Rightarrow> int \<times> 'd) \<Rightarrow> 'd \<Rightarrow> bool \<times> 'd" where
  "FIRCLSFileLoopWithWriteBlock s block d = write_block_loop CLS_FILE_MAX_WRITE_ATTEMPTS block s d"

definition FIRCLSFileWriteWithRetries :: "string \<Rightarrow> cls_device \<Rightarrow> bool \<times> cls_device" where
  "FIRCLSFileWriteWithRetries s d = FIRCLSFileLoopWithWriteBlock s write_fd d"

section \<open>The file\<close>

record FIRCLSFile =
  device :: cls_device
  collectionDepth :: int
  needComma :: bool
  bufferWrites :: bool
  writeBuffer :: string
  writtenLength :: int

definition FIRCLSWriteBufferLength :: nat where
  "FIRCLSWriteBufferLength = 1000"

definition FIRCLSFileWriteToFileDescriptor :: "string \<Rightarrow> FIRCLSFile \<Rightarrow> FIRCLSFile" where
  "FIRCLSFileWriteToFileDescriptor s f =
    (case FIRCLSFileWriteWithRetries s (device f) of (ok, d) \<Rightarrow>
       if \<not> ok then f\<lparr>device := d\<rparr>
       else f\<lparr>device := d, writtenLength := writtenLength f + int (length s)\<rparr>)"

definition FIRCLSFileFlushWriteBuffer :: "FIRCLSFile \<Rightarrow> FIRCLSFile" where
  "FIRCLSFileFlushWriteBuffer f =
    (if \<not> bufferWrites f then f
     else (FIRCLSFileWriteToFileDescriptor (writeBuffer f) f)\<lparr>writeBuffer := []\<rparr>)"

definition FIRCLSFileWriteToBuffer :: "string \<Rightarrow> FIRCLSFile \<Rightarrow> FIRCLSFile" where
  "FIRCLSFileWriteToBuffer s f =
    (let writeLength = (if FIRCLSWriteBufferLength - 1 < length (writeBuffer f) + length s
                        then FIRCLSWriteBufferLength - length (writeBuffer f) - 1 else length s)
     in f\<lparr>writeBuffer := writeBuffer f @ take writeLength s\<rparr>)"

lemma flush_buffer [simp]: "bufferWrites f \<Longrightarrow> writeBuffer (FIRCLSFileFlushWriteBuffer f) = []"
  by (simp add: FIRCLSFileFlushWriteBuffer_def)

function FIRCLSFileWriteToFileDescriptorOrBuffer :: "string \<Rightarrow> FIRCLSFile \<Rightarrow> FIRCLSFile" where
  "FIRCLSFileWriteToFileDescriptorOrBuffer s f =
    (if bufferWrites f then
       (if FIRCLSWriteBufferLength - 1 < length (writeBuffer f) + length s then
          let remainingSpace = FIRCLSWriteBufferLength - length (writeBuffer f) - 1;
              f = FIRCLSFileFlushWriteBuffer (FIRCLSFileWriteToBuffer (take remainingSpace s) f)
          in FIRCLSFileWriteToFileDescriptorOrBuffer (drop remainingSpace s) f
        else FIRCLSFileWriteToBuffer s f)
     else FIRCLSFileWriteToFileDescriptor s f)"
  by pat_completeness auto

termination
  by (relation "measures [\<lambda>(s, f). length s, \<lambda>(s, f). length (writeBuffer f)]")
    (auto simp: FIRCLSFileWriteToBuffer_def FIRCLSWriteBufferLength_def)

declare FIRCLSFileWriteToFileDescriptorOrBuffer.simps [simp del]

abbreviation emit :: "string \<Rightarrow> FIRCLSFile \<Rightarrow> FIRCLSFile" where
  "emit \<equiv> FIRCLSFileWriteToFileDescriptorOrBuffer"

definition FIRCLSFileWriteStringUnquoted :: "string \<Rightarrow> FIRCLSFile \<Rightarrow> FIRCLSFile" where
  "FIRCLSFileWriteStringUnquoted s f = emit s f"

section \<open>Strings, numbers and booleans\<close>

text \<open>An empty suffix stands for the character 0.\<close>

definition FIRCLSFileWriteUnbufferedStringWithSuffix :: "string \<Rightarrow> string \<Rightarrow> FIRCLSFile \<Rightarrow> FIRCLSFile" where
  "FIRCLSFileWriteUnbufferedStringWithSuffix s suffix f =
     emit (''\"'' @ suffix) (emit s (emit ''\"'' f))"

definition FIRCLSFileWriteStringWithSuffix :: "string \<Rightarrow> string \<Rightarrow> FIRCLSFile \<Rightarrow> FIRCLSFile" where
  "FIRCLSFileWriteStringWithSuffix s suffix f =
    (let maxStringSize = 16 - (if suffix = [] then 3 else 4) in
     if maxStringSize \<le> length s then FIRCLSFileWriteUnbufferedStringWithSuffix s suffix f
     else emit (''\"'' @ s @ ''\"'' @ suffix) f)"

text \<open>\<open>None\<close> is a \<open>NULL\<close> string.\<close>

definition FIRCLSFileWriteString :: "string option \<Rightarrow> FIRCLSFile \<Rightarrow> FIRCLSFile" where
  "FIRCLSFileWriteString str f =
    (case str of None \<Rightarrow> emit ''null'' f | Some s \<Rightarrow> FIRCLSFileWriteStringWithSuffix s [] f)"

definition FIRCLSHexFromByte :: "char \<Rightarrow> string" where
  "FIRCLSHexFromByte c =
     [''0123456789abcdef'' ! (of_char c div 16), ''0123456789abcdef'' ! (of_char c mod 16)]"

definition CLS_FILE_HEX_BUFFER :: nat where
  "CLS_FILE_HEX_BUFFER = 32"

primrec hex_loop :: "string \<Rightarrow> string \<Rightarrow> FIRCLSFile \<Rightarrow> string \<times> FIRCLSFile" where
  "hex_loop [] buf f = (buf, f)"
| "hex_loop (c # cs) buf f =
    (let buf = buf @ FIRCLSHexFromByte c in
     if CLS_FILE_HEX_BUFFER \<le> length buf then hex_loop cs [] (emit (take CLS_FILE_HEX_BUFFER buf) f)
     else hex_loop cs buf f)"

definition FIRCLSFileWriteHexEncodedString :: "string option \<Rightarrow> FIRCLSFile \<Rightarrow> FIRCLSFile" where
  "FIRCLSFileWriteHexEncodedString str f =
    (case str of None \<Rightarrow> emit ''null'' f
     | Some s \<Rightarrow>
        (case hex_loop s [] (emit ''\"'' f) of (buf, f) \<Rightarrow>
           emit ''\"'' (if 0 < length buf \<and> 0 < length s then emit buf f else f)))"

definition digit_char :: "u64 \<Rightarrow> char" where
  "digit_char d = (let v = unat d + 48 in char_of (if 57 < v then v + 39 else v))"

text \<open>The \<open>do\<close> loop; the first argument is the index \<open>i\<close>.\<close>

primrec prepare_loop :: "nat \<Rightarrow> u64 \<Rightarrow> u64 \<Rightarrow> string \<Rightarrow> string" where
  "prepare_loop 0 base number acc = acc"
| "prepare_loop (Suc i) base number acc =
    (let acc = digit_char (number mod base) # acc; number = number div base in
     if 0 < number \<and> 0 < i then prepare_loop i base number acc else acc)"

definition FIRCLSFilePrepareUInt64 :: "u64 \<Rightarrow> bool \<Rightarrow> string" where
  "FIRCLSFilePrepareUInt64 number hex = prepare_loop 20 (if hex then 16 else 10) number []"

definition FIRCLSFileWriteUInt64 :: "u64 \<Rightarrow> bool \<Rightarrow> FIRCLSFile \<Rightarrow> FIRCLSFile" where
  "FIRCLSFileWriteUInt64 number hex f = emit (FIRCLSFilePrepareUInt64 number hex) f"

definition FIRCLSFileWriteBool :: "bool \<Rightarrow> FIRCLSFile \<Rightarrow> FIRCLSFile" where
  "FIRCLSFileWriteBool v f = (if v then emit ''true'' f else emit ''false'' f)"

section \<open>Collections\<close>

definition FIRCLSFileWriteCollectionStart :: "char \<Rightarrow> FIRCLSFile \<Rightarrow> FIRCLSFile" where
  "FIRCLSFileWriteCollectionStart openingChar f =
    (let f = (if needComma f then emit [CHR '','', openingChar] f else emit [openingChar] f)
     in f\<lparr>collectionDepth := collectionDepth f + 1, needComma := False\<rparr>)"

definition FIRCLSFileWriteCollectionEnd :: "char \<Rightarrow> FIRCLSFile \<Rightarrow> FIRCLSFile" where
  "FIRCLSFileWriteCollectionEnd closingChar f =
    (let f = emit [closingChar] f in
     if collectionDepth f \<le> 0 then f
     else f\<lparr>collectionDepth := collectionDepth f - 1, needComma := 0 < collectionDepth f - 1\<rparr>)"

definition FIRCLSFileWriteCollectionEntryProlog :: "FIRCLSFile \<Rightarrow> FIRCLSFile" where
  "FIRCLSFileWriteCollectionEntryProlog f = (if needComma f then emit '','' f else f)"

definition FIRCLSFileWriteCollectionEntryEpilog :: "FIRCLSFile \<Rightarrow> FIRCLSFile" where
  "FIRCLSFileWriteCollectionEntryEpilog f = f\<lparr>needComma := True\<rparr>"

definition FIRCLSFileWriteHashStart :: "FIRCLSFile \<Rightarrow> FIRCLSFile" where
  "FIRCLSFileWriteHashStart f = FIRCLSFileWriteCollectionStart (CHR ''{'') f"

definition FIRCLSFileWriteHashEnd :: "FIRCLSFile \<Rightarrow> FIRCLSFile" where
  "FIRCLSFileWriteHashEnd f = FIRCLSFileWriteCollectionEnd (CHR ''}'') f"

definition FIRCLSFileWriteArrayStart :: "FIRCLSFile \<Rightarrow> FIRCLSFile" where
  "FIRCLSFileWriteArrayStart f = FIRCLSFileWriteCollectionStart (CHR ''['') f"

definition FIRCLSFileWriteArrayEnd :: "FIRCLSFile \<Rightarrow> FIRCLSFile" where
  "FIRCLSFileWriteArrayEnd f = FIRCLSFileWriteCollectionEnd (CHR '']'') f"

definition FIRCLSFileWriteHashKey :: "string \<Rightarrow> FIRCLSFile \<Rightarrow> FIRCLSFile" where
  "FIRCLSFileWriteHashKey key f =
    (FIRCLSFileWriteStringWithSuffix key '':'' (FIRCLSFileWriteCollectionEntryProlog f))\<lparr>needComma := False\<rparr>"

definition FIRCLSFileWriteHashEntryUint64 :: "string \<Rightarrow> u64 \<Rightarrow> FIRCLSFile \<Rightarrow> FIRCLSFile" where
  "FIRCLSFileWriteHashEntryUint64 key v f =
     FIRCLSFileWriteCollectionEntryEpilog (FIRCLSFileWriteUInt64 v False (FIRCLSFileWriteHashKey key f))"

definition FIRCLSFileWriteHashEntryString :: "string \<Rightarrow> string option \<Rightarrow> FIRCLSFile \<Rightarrow> FIRCLSFile" where
  "FIRCLSFileWriteHashEntryString key v f =
     FIRCLSFileWriteCollectionEntryEpilog (FIRCLSFileWriteString v (FIRCLSFileWriteHashKey key f))"

definition FIRCLSFileWriteHashEntryHexEncodedString :: "string \<Rightarrow> string option \<Rightarrow> FIRCLSFile \<Rightarrow> FIRCLSFile" where
  "FIRCLSFileWriteHashEntryHexEncodedString key v f =
     FIRCLSFileWriteCollectionEntryEpilog (FIRCLSFileWriteHexEncodedString v (FIRCLSFileWriteHashKey key f))"

definition FIRCLSFileWriteHashEntryBoolean :: "string \<Rightarrow> bool \<Rightarrow> FIRCLSFile \<Rightarrow> FIRCLSFile" where
  "FIRCLSFileWriteHashEntryBoolean key v f =
     FIRCLSFileWriteCollectionEntryEpilog (FIRCLSFileWriteBool v (FIRCLSFileWriteHashKey key f))"

definition FIRCLSFileWriteArrayEntryUint64 :: "u64 \<Rightarrow> FIRCLSFile \<Rightarrow> FIRCLSFile" where
  "FIRCLSFileWriteArrayEntryUint64 v f =
     FIRCLSFileWriteCollectionEntryEpilog (FIRCLSFileWriteUInt64 v False (FIRCLSFileWriteCollectionEntryProlog f))"

definition FIRCLSFileWriteArrayEntryString :: "string option \<Rightarrow> FIRCLSFile \<Rightarrow> FIRCLSFile" where
  "FIRCLSFileWriteArrayEntryString v f =
     FIRCLSFileWriteCollectionEntryEpilog (FIRCLSFileWriteString v (FIRCLSFileWriteCollectionEntryProlog f))"

definition FIRCLSFileWriteArrayEntryHexEncodedString :: "string option \<Rightarrow> FIRCLSFile \<Rightarrow> FIRCLSFile" where
  "FIRCLSFileWriteArrayEntryHexEncodedString v f =
     FIRCLSFileWriteCollectionEntryEpilog
       (FIRCLSFileWriteHexEncodedString v (FIRCLSFileWriteCollectionEntryProlog f))"

definition FIRCLSFileWriteSectionStart :: "string \<Rightarrow> FIRCLSFile \<Rightarrow> FIRCLSFile" where
  "FIRCLSFileWriteSectionStart name f = FIRCLSFileWriteHashKey name (FIRCLSFileWriteHashStart f)"

definition FIRCLSFileWriteSectionEnd :: "FIRCLSFile \<Rightarrow> FIRCLSFile" where
  "FIRCLSFileWriteSectionEnd f = emit [CHR 0x0A] (FIRCLSFileWriteHashEnd f)"

text \<open>
  Closing: the buffer is written out and released, then the descriptor is closed; \<open>close_ok\<close> is the
  result of \<open>close(2)\<close>. A failed close leaves the structure as it is, otherwise it is zeroed.
\<close>

definition FIRCLSFileClose :: "bool \<Rightarrow> FIRCLSFile \<Rightarrow> bool \<times> cls_device" where
  "FIRCLSFileClose close_ok f =
    (let f = (if bufferWrites f \<and> 0 < length (writeBuffer f) then FIRCLSFileFlushWriteBuffer f else f)
     in (close_ok, device f))"

end
