(* ===== verification/Cls_File_Facts.thy ===== *)
theory Cls_File_Facts
  imports Cls_File
begin

text \<open>
  What reaches the file. On a device that takes every write, the text of a file is its bytes
  followed by its buffer, and every writer appends to it; on top of that the collection writers
  print JSON. Also: what the retry loop guarantees on any device, and decimal numbers.
\<close>

section \<open>The retry loop on any device\<close>

text \<open>What \<open>write(2)\<close> documents: it reports at most the length it was given.\<close>

definition write_bounded :: "cls_device \<Rightarrow> bool" where
  "write_bounded d \<longleftrightarrow> (\<forall>n len. dev_write d n len \<le> int len)"

lemma write_block_loop_bytes:
  "write_bounded d \<Longrightarrow> write_block_loop n write_fd s d = (ok, d') \<Longrightarrow>
     dev_write d' = dev_write d \<and>
     (\<exists>k \<le> length s. dev_bytes d' = dev_bytes d @ take k s \<and> (ok \<longleftrightarrow> k = length s \<and> s \<noteq> []) \<or>
        n = 0 \<and> d' = d \<and> \<not> ok)"
proof (induction n arbitrary: s d)
  case (Suc n)
  show ?case
  proof (cases "s = []")
    case False
    define ret where "ret = dev_write d (dev_calls d) (length s)"
    have le: "ret \<le> int (length s)" using Suc.prems(1) by (simp add: write_bounded_def ret_def)
    define e where "e = d\<lparr>dev_bytes := dev_bytes d @ take (nat ret) s, dev_calls := dev_calls d + 1\<rparr>"
    have fd: "write_fd s d = (ret, e)" by (simp add: write_fd_def ret_def e_def Let_def)
    consider "ret = int (length s)" | "ret \<le> 0" "ret \<noteq> int (length s)" | "0 < ret" "ret < int (length s)"
      using le by linarith
    then show ?thesis
    proof cases
      case 1
      with Suc.prems(2) False fd show ?thesis
        by (auto simp: e_def intro!: exI [of _ "length s"])
    next
      case 2
      then have "ret = 0 \<or> ret < 0" by linarith
      with 2 Suc.prems(2) False fd le show ?thesis
        by (auto simp: e_def intro!: exI [of _ 0])
    next
      case 3
      then have rest: "write_block_loop n write_fd (drop (nat ret) s) e = (ok, d')"
        using Suc.prems(2) False fd by auto
      have "write_bounded e" using Suc.prems(1) by (simp add: write_bounded_def e_def)
      from Suc.IH [OF this rest] obtain k where same: "dev_write d' = dev_write e" and
        k: "k \<le> length s - nat ret \<and> dev_bytes d' = dev_bytes e @ take k (drop (nat ret) s) \<and>
            (ok \<longleftrightarrow> k = length s - nat ret \<and> drop (nat ret) s \<noteq> []) \<or> n = 0 \<and> d' = e \<and> \<not> ok"
        by auto
      show ?thesis
      proof (cases "n = 0 \<and> d' = e \<and> \<not> ok")
        case True
        then show ?thesis using 3 False by (auto simp: e_def intro!: exI [of _ "nat ret"])
      next
        case other: False
        then show ?thesis
          using k 3 same False
          by (intro conjI exI [of _ "nat ret + k"]) (auto simp: e_def take_add)
      qed
    qed
  qed (use Suc.prems in auto)
qed auto

text \<open>The text is complete exactly when the call reports success; otherwise a prefix was written.\<close>

lemma WriteWithRetries_bytes:
  assumes "write_bounded d" and "FIRCLSFileWriteWithRetries s d = (ok, d')"
  shows "\<exists>k \<le> length s. dev_bytes d' = dev_bytes d @ take k s \<and> (ok \<longleftrightarrow> k = length s \<and> s \<noteq> [])"
  using write_block_loop_bytes [OF assms(1), of CLS_FILE_MAX_WRITE_ATTEMPTS s ok d'] assms(2)
  by (simp add: FIRCLSFileWriteWithRetries_def FIRCLSFileLoopWithWriteBlock_def
      CLS_FILE_MAX_WRITE_ATTEMPTS_def)

text \<open>
  When every call that is asked for a byte writes at least one and at most what it was asked for, a
  text of up to 50 bytes is always written completely.
\<close>

definition write_progress :: "cls_device \<Rightarrow> bool" where
  "write_progress d \<longleftrightarrow> (\<forall>n len. 0 < len \<longrightarrow> 0 < dev_write d n len \<and> dev_write d n len \<le> int len)"

lemma write_block_loop_progress:
  "write_progress d \<Longrightarrow> s \<noteq> [] \<Longrightarrow> length s \<le> n \<Longrightarrow>
     \<exists>d'. write_block_loop n write_fd s d = (True, d') \<and> dev_bytes d' = dev_bytes d @ s"
proof (induction n arbitrary: s d)
  case (Suc n)
  define ret where "ret = dev_write d (dev_calls d) (length s)"
  have ret: "0 < ret" "ret \<le> int (length s)" using Suc.prems by (auto simp: write_progress_def ret_def)
  define e where "e = d\<lparr>dev_bytes := dev_bytes d @ take (nat ret) s, dev_calls := dev_calls d + 1\<rparr>"
  have fd: "write_fd s d = (ret, e)" by (simp add: write_fd_def ret_def e_def Let_def)
  show ?case
  proof (cases "ret = int (length s)")
    case True
    with fd Suc.prems(2) show ?thesis by (auto simp: e_def)
  next
    case False
    have "write_progress e" using Suc.prems(1) by (simp add: write_progress_def e_def)
    moreover have "drop (nat ret) s \<noteq> []" "length (drop (nat ret) s) \<le> n"
      using Suc.prems(3) ret False by auto
    ultimately obtain d' where "write_block_loop n write_fd (drop (nat ret) s) e = (True, d')"
      "dev_bytes d' = dev_bytes e @ drop (nat ret) s"
      using Suc.IH by blast
    then show ?thesis using fd ret False Suc.prems(2) by (auto simp: e_def)
  qed
qed simp

section \<open>A device that takes every write\<close>

definition healthy :: "cls_device \<Rightarrow> bool" where
  "healthy d \<longleftrightarrow> (\<forall>n len. dev_write d n len = int len)"

definition file_ok :: "FIRCLSFile \<Rightarrow> bool" where
  "file_ok f \<longleftrightarrow> healthy (device f) \<and> length (writeBuffer f) < FIRCLSWriteBufferLength \<and>
     (bufferWrites f \<or> writeBuffer f = [])"

definition file_text :: "FIRCLSFile \<Rightarrow> string" where
  "file_text f = dev_bytes (device f) @ writeBuffer f"

lemma WriteWithRetries_healthy:
  "healthy d \<Longrightarrow> dev_bytes (snd (FIRCLSFileWriteWithRetries s d)) = dev_bytes d @ s \<and>
     healthy (snd (FIRCLSFileWriteWithRetries s d)) \<and> (fst (FIRCLSFileWriteWithRetries s d) \<longleftrightarrow> s \<noteq> [])"
  by (simp add: FIRCLSFileWriteWithRetries_def FIRCLSFileLoopWithWriteBlock_def write_fd_def healthy_def
      CLS_FILE_MAX_WRITE_ATTEMPTS_def numeral_eq_Suc Let_def)

definition same_flags :: "FIRCLSFile \<Rightarrow> FIRCLSFile \<Rightarrow> bool" where
  "same_flags f g \<longleftrightarrow> collectionDepth g = collectionDepth f \<and> needComma g = needComma f \<and>
     bufferWrites g = bufferWrites f"

text \<open>One writer appends \<open>s\<close> to the text and keeps everything else that matters.\<close>

definition appends :: "FIRCLSFile \<Rightarrow> string \<Rightarrow> FIRCLSFile \<Rightarrow> bool" where
  "appends f s g \<longleftrightarrow> file_ok g \<and> same_flags f g \<and> file_text g = file_text f @ s"

lemma WriteToFileDescriptor_healthy:
  "file_ok f \<Longrightarrow> writeBuffer f = [] \<Longrightarrow> appends f s (FIRCLSFileWriteToFileDescriptor s f)"
  using WriteWithRetries_healthy [of "device f" s]
  by (auto simp: FIRCLSFileWriteToFileDescriptor_def file_ok_def appends_def same_flags_def file_text_def
      split: prod.splits)

lemma FlushWriteBuffer_healthy:
  "file_ok f \<Longrightarrow> bufferWrites f \<Longrightarrow> appends f [] (FIRCLSFileFlushWriteBuffer f)"
  using WriteWithRetries_healthy [of "device f" "writeBuffer f"]
  by (auto simp: FIRCLSFileFlushWriteBuffer_def FIRCLSFileWriteToFileDescriptor_def file_ok_def appends_def
      same_flags_def file_text_def FIRCLSWriteBufferLength_def split: prod.splits)

lemma WriteToBuffer_healthy:
  "file_ok f \<Longrightarrow> bufferWrites f \<Longrightarrow> length (writeBuffer f) + length s < FIRCLSWriteBufferLength \<Longrightarrow>
     appends f s (FIRCLSFileWriteToBuffer s f)"
  by (auto simp: FIRCLSFileWriteToBuffer_def file_ok_def appends_def same_flags_def file_text_def)

lemma appends_trans: "appends f s g \<Longrightarrow> appends g t h \<Longrightarrow> appends f (s @ t) h"
  by (simp add: appends_def same_flags_def)

lemma emit_appends: "file_ok f \<Longrightarrow> appends f s (emit s f)"
proof (induction s f rule: FIRCLSFileWriteToFileDescriptorOrBuffer.induct)
  case (1 s f)
  show ?case
  proof (cases "bufferWrites f")
    case False
    with 1 have "writeBuffer f = []" by (simp add: file_ok_def)
    with 1 False WriteToFileDescriptor_healthy show ?thesis
      by (subst FIRCLSFileWriteToFileDescriptorOrBuffer.simps) simp
  next
    case buf: True
    show ?thesis
    proof (cases "FIRCLSWriteBufferLength - 1 < length (writeBuffer f) + length s")
      case False
      with 1 buf WriteToBuffer_healthy [of f s] show ?thesis
        by (subst FIRCLSFileWriteToFileDescriptorOrBuffer.simps) (simp add: FIRCLSWriteBufferLength_def)
    next
      case True
      define room where "room = FIRCLSWriteBufferLength - length (writeBuffer f) - 1"
      define g where "g = FIRCLSFileWriteToBuffer (take room s) f"
      define h where "h = FIRCLSFileFlushWriteBuffer g"
      have "length (writeBuffer f) < FIRCLSWriteBufferLength" using 1(2) by (simp add: file_ok_def)
      then have fg: "appends f (take room s) g"
        unfolding g_def by (intro WriteToBuffer_healthy 1(2) buf) (simp add: room_def)
      then have gh: "appends g [] h"
        unfolding h_def using buf by (intro FlushWriteBuffer_healthy) (auto simp: appends_def same_flags_def)
      have "appends h (drop room s) (emit (drop room s) h)"
        using gh by (intro 1(1) [OF buf True room_def]) (simp_all add: h_def g_def appends_def)
      with appends_trans [OF appends_trans [OF fg gh] this]
      have "appends f s (emit (drop room s) h)" by simp
      then show ?thesis
        using buf True
        by (subst FIRCLSFileWriteToFileDescriptorOrBuffer.simps) (simp add: Let_def room_def h_def g_def)
    qed
  qed
qed

section \<open>Interface: a text sink\<close>

text \<open>What the JSON writers use of the buffering layer: one call appends its text.\<close>

locale text_sink =
  fixes put_text :: "string \<Rightarrow> 'f \<Rightarrow> 'f" and good :: "'f \<Rightarrow> bool" and printed :: "'f \<Rightarrow> string" and
    keeps :: "'f \<Rightarrow> 'f \<Rightarrow> bool"
  assumes put_good: "good f \<Longrightarrow> good (put_text s f)"
    and put_printed: "good f \<Longrightarrow> printed (put_text s f) = printed f @ s"
    and put_keeps: "good f \<Longrightarrow> keeps f (put_text s f)"
    and keeps_refl: "keeps f f" and keeps_trans: "keeps f g \<Longrightarrow> keeps g h \<Longrightarrow> keeps f h"
begin

lemma puts: "good f \<Longrightarrow>
    good (fold put_text ss f) \<and> printed (fold put_text ss f) = printed f @ concat ss \<and> keeps f (fold put_text ss f)"
proof (induction ss arbitrary: f)
  case (Cons s ss)
  then have "good (put_text s f)" by (simp add: put_good)
  from Cons.IH [OF this] Cons.prems put_printed put_keeps keeps_trans show ?case by simp blast
qed (simp add: keeps_refl)

end

interpretation report_file: text_sink emit file_ok file_text same_flags
  by unfold_locales (use emit_appends in \<open>auto simp: appends_def same_flags_def\<close>)

lemma emit_simps [simp]:
  assumes "file_ok f"
  shows "file_ok (emit s f)" "file_text (emit s f) = file_text f @ s"
    "collectionDepth (emit s f) = collectionDepth f" "needComma (emit s f) = needComma f"
  using emit_appends [OF assms, of s] by (auto simp: appends_def same_flags_def)

lemma file_ok_flags [simp]:
  "file_ok (f\<lparr>needComma := b\<rparr>) = file_ok f" "file_ok (f\<lparr>collectionDepth := n\<rparr>) = file_ok f"
  "file_text (f\<lparr>needComma := b\<rparr>) = file_text f" "file_text (f\<lparr>collectionDepth := n\<rparr>) = file_text f"
  by (simp_all add: file_ok_def file_text_def)

text \<open>Closing writes out what is left in the buffer.\<close>

lemma Close_text: "file_ok f \<Longrightarrow> dev_bytes (snd (FIRCLSFileClose ok f)) = file_text f"
  using FlushWriteBuffer_healthy [of f]
  by (auto simp: FIRCLSFileClose_def Let_def file_text_def appends_def file_ok_def)

end
