(* ===== verification/Cls_Json.thy ===== *)
theory Cls_Json
  imports Cls_File_Facts
begin

text \<open>
  The text the collection writers print: JSON values with their printer, decimal numbers, and the
  rule by which writers compose, \<open>writes_items\<close>.
\<close>

section \<open>Decimal numbers\<close>

fun decimal :: "nat \<Rightarrow> string" where
  "decimal n = (if n < 10 then [char_of (48 + n)] else decimal (n div 10) @ [char_of (48 + n mod 10)])"

declare decimal.simps [simp del]

definition read_decimal :: "string \<Rightarrow> nat" where
  "read_decimal s = foldl (\<lambda>v c. v * 10 + (of_char c - 48)) 0 s"

lemma read_decimal_decimal: "read_decimal (decimal n) = n"
proof (induction n rule: decimal.induct)
  case (1 n)
  then show ?case
    by (subst decimal.simps) (auto simp: read_decimal_def of_char_of mod_less)
qed

lemma decimal_digits: "c \<in> set (decimal n) \<Longrightarrow> 48 \<le> (of_char c :: nat) \<and> (of_char c :: nat) \<le> 57"
proof (induction n rule: decimal.induct)
  case (1 n)
  then show ?case
    by (subst (asm) (2) decimal.simps) (auto simp: of_char_of mod_less split: if_splits)
qed

text \<open>A number has no leading zero unless it is a single digit.\<close>

lemma decimal_leading: "10 \<le> n \<Longrightarrow> hd (decimal n) \<noteq> CHR ''0''"
proof (induction n rule: decimal.induct)
  case (1 n)
  have hd_append: "hd (decimal (n div 10) @ xs) = hd (decimal (n div 10))" for xs
    by (simp add: decimal.simps [of "n div 10"])
  show ?case
  proof (cases "n div 10 < 10")
    case True
    then have "hd (decimal n) = char_of (48 + n div 10)"
      using 1(2) by (simp add: decimal.simps [of n] decimal.simps [of "n div 10"])
    moreover have "of_char (char_of (48 + n div 10) :: char) = 48 + n div 10"
      using True by (simp add: of_char_of mod_less)
    moreover have "1 \<le> n div 10" using 1(2) by linarith
    moreover have "(of_char (CHR ''0'') :: nat) = 48" by simp
    ultimately show ?thesis by (metis Nat.add_0_right add_left_cancel not_one_le_zero)
  next
    case False
    then show ?thesis using 1 hd_append by (simp add: decimal.simps [of n])
  qed
qed

lemma digit_char_decimal: "d < 10 \<Longrightarrow> digit_char d = char_of (48 + unat d)"
proof -
  assume "d < 10"
  then have "unat d < 10" by (simp add: word_less_nat_alt)
  then show ?thesis by (simp add: digit_char_def Let_def add.commute)
qed

lemma prepare_loop_decimal:
  "unat number < 10 ^ i \<Longrightarrow> 0 < i \<Longrightarrow> prepare_loop i 10 number acc = decimal (unat number) @ acc"
proof (induction i arbitrary: number acc)
  case (Suc i)
  have digit: "digit_char (number mod 10) = char_of (48 + unat number mod 10)"
    by (subst digit_char_decimal) (simp_all add: word_less_nat_alt unat_mod)
  have quot: "unat (number div 10) = unat number div 10" by (simp add: unat_div)
  have pos: "0 < number div 10 \<longleftrightarrow> \<not> unat number < 10" by (auto simp: word_less_nat_alt quot div_greater_zero_iff)
  show ?case
  proof (cases "unat number < 10")
    case True
    then show ?thesis using digit pos by (simp add: Let_def decimal.simps [of "unat number"])
  next
    case False
    then have "0 < i" using Suc.prems(1) by (cases i) auto
    moreover have "unat (number div 10) < 10 ^ i"
      using Suc.prems(1) by (simp add: quot less_mult_imp_div_less mult.commute)
    ultimately show ?thesis
      using False Suc.IH digit pos quot by (simp add: Let_def decimal.simps [of "unat number"])
  qed
qed simp

lemma PrepareUInt64_decimal: "FIRCLSFilePrepareUInt64 number False = decimal (unat number)"
proof -
  have "unat number < 2 ^ 64" using unsigned_less [of number] by simp
  then show ?thesis by (simp add: FIRCLSFilePrepareUInt64_def prepare_loop_decimal)
qed

section \<open>JSON\<close>

datatype json =
    JNull
  | JBool bool
  | JNum nat
  | JStr string
  | JArr "json list"
  | JObj "(string \<times> json) list"

fun commas :: "string list \<Rightarrow> string" where
  "commas [] = []"
| "commas [s] = s"
| "commas (s # ss) = s @ '','' @ commas ss"

definition quoted :: "string \<Rightarrow> string" where
  "quoted s = ''\"'' @ s @ ''\"''"

text \<open>The printer. It does not escape: \<open>json_ok\<close> says which values it prints as JSON.\<close>

fun json_text :: "json \<Rightarrow> string" where
  "json_text JNull = ''null''"
| "json_text (JBool b) = (if b then ''true'' else ''false'')"
| "json_text (JNum n) = decimal n"
| "json_text (JStr s) = quoted s"
| "json_text (JArr js) = ''['' @ commas (map json_text js) @ '']''"
| "json_text (JObj kvs) = ''{'' @ commas (map (\<lambda>(k, v). quoted k @ '':'' @ json_text v) kvs) @ ''}''"

definition plain_char :: "char \<Rightarrow> bool" where
  "plain_char c \<longleftrightarrow> c \<noteq> CHR 0x22 \<and> c \<noteq> CHR 0x5C \<and> 32 \<le> (of_char c :: nat)"

fun json_ok :: "json \<Rightarrow> bool" where
  "json_ok (JStr s) = list_all plain_char s"
| "json_ok (JArr js) = list_all json_ok js"
| "json_ok (JObj kvs) = list_all (\<lambda>(k, v). list_all plain_char k \<and> json_ok v) kvs"
| "json_ok _ = True"

definition member_text :: "string \<Rightarrow> string \<Rightarrow> string" where
  "member_text k t = quoted k @ '':'' @ t"

lemma commas_Cons: "commas (s # ss) = s @ (if ss = [] then [] else '','' @ commas ss)"
  by (cases ss) auto

lemma commas_append:
  "commas (ss @ ts) = commas ss @ (if ss = [] \<or> ts = [] then [] else '','') @ commas ts"
  by (induction ss) (auto simp: commas_Cons)

section \<open>Writers of items\<close>

text \<open>
  Inside a collection, \<open>w\<close> writes the items \<open>ts\<close>: separated by commas, with a leading one when an
  item came before, and leaves the collection open.
\<close>

definition lead :: "bool \<Rightarrow> string list \<Rightarrow> string" where
  "lead b ts = (if b \<and> ts \<noteq> [] then '','' else []) @ commas ts"

definition writes_items :: "(FIRCLSFile \<Rightarrow> FIRCLSFile) \<Rightarrow> string list \<Rightarrow> bool" where
  "writes_items w ts \<longleftrightarrow> (\<forall>f. file_ok f \<longrightarrow> 0 < collectionDepth f \<longrightarrow>
     file_ok (w f) \<and> collectionDepth (w f) = collectionDepth f \<and>
     (needComma (w f) \<longleftrightarrow> needComma f \<or> ts \<noteq> []) \<and>
     file_text (w f) = file_text f @ lead (needComma f) ts)"

lemma writes_itemsD:
  assumes "writes_items w ts" and "file_ok f" and "0 < collectionDepth f"
  shows "file_ok (w f)" "collectionDepth (w f) = collectionDepth f"
    "needComma (w f) \<longleftrightarrow> needComma f \<or> ts \<noteq> []" "file_text (w f) = file_text f @ lead (needComma f) ts"
  using assms by (simp_all add: writes_items_def)

lemma lead_append: "lead b (ts @ us) = lead b ts @ lead (b \<or> ts \<noteq> []) us"
  by (auto simp: lead_def commas_append)

lemma lead_Nil [simp]: "lead b [] = []"
  by (simp add: lead_def)

lemma writes_items_id: "writes_items (\<lambda>f. f) []"
  by (simp add: writes_items_def)

lemma writes_items_comp:
  "writes_items v ts \<Longrightarrow> writes_items w us \<Longrightarrow> writes_items (\<lambda>f. w (v f)) (ts @ us)"
  by (auto simp: writes_items_def lead_append)

lemma writes_items_fold:
  assumes "\<And>x. x \<in> set xs \<Longrightarrow> writes_items (w x) (ts x)"
  shows "writes_items (fold w xs) (concat (map ts xs))"
  using assms
proof (induction xs)
  case (Cons x xs)
  then have "writes_items (\<lambda>f. fold w xs (w x f)) (ts x @ concat (map ts xs))"
    by (intro writes_items_comp) auto
  then show ?case by (simp add: comp_def)
qed (simp add: writes_items_id [unfolded id_def] id_def)

lemma StringWithSuffix_emit:
  "file_ok f \<Longrightarrow> file_ok (FIRCLSFileWriteStringWithSuffix s suffix f) \<and>
     file_text (FIRCLSFileWriteStringWithSuffix s suffix f) = file_text f @ quoted s @ suffix \<and>
     collectionDepth (FIRCLSFileWriteStringWithSuffix s suffix f) = collectionDepth f \<and>
     needComma (FIRCLSFileWriteStringWithSuffix s suffix f) = needComma f"
  by (simp add: FIRCLSFileWriteStringWithSuffix_def FIRCLSFileWriteUnbufferedStringWithSuffix_def
      quoted_def Let_def)

text \<open>A value writer, called after a key or a prolog: it prints \<open>t\<close> and changes no flag.\<close>

definition prints :: "(FIRCLSFile \<Rightarrow> FIRCLSFile) \<Rightarrow> string \<Rightarrow> bool" where
  "prints w t \<longleftrightarrow> (\<forall>f. file_ok f \<longrightarrow> file_ok (w f) \<and> file_text (w f) = file_text f @ t \<and>
     collectionDepth (w f) = collectionDepth f \<and> needComma (w f) = needComma f)"

definition string_json :: "string option \<Rightarrow> json" where
  "string_json str = (case str of None \<Rightarrow> JNull | Some s \<Rightarrow> JStr s)"

lemma prints_values:
  "prints (FIRCLSFileWriteUInt64 n False) (json_text (JNum (unat n)))"
  "prints (FIRCLSFileWriteBool b) (json_text (JBool b))"
  "prints (FIRCLSFileWriteString str) (json_text (string_json str))"
  by (auto simp: prints_def FIRCLSFileWriteUInt64_def PrepareUInt64_decimal FIRCLSFileWriteBool_def
      FIRCLSFileWriteString_def string_json_def StringWithSuffix_emit split: option.splits)

lemma key_entry:
  "prints w t \<Longrightarrow>
     writes_items (\<lambda>f. FIRCLSFileWriteCollectionEntryEpilog (w (FIRCLSFileWriteHashKey k f))) [member_text k t]"
  by (auto simp: writes_items_def prints_def FIRCLSFileWriteHashKey_def lead_def member_text_def
      FIRCLSFileWriteCollectionEntryProlog_def FIRCLSFileWriteCollectionEntryEpilog_def StringWithSuffix_emit)

lemma array_entry:
  "prints w t \<Longrightarrow>
     writes_items (\<lambda>f. FIRCLSFileWriteCollectionEntryEpilog (w (FIRCLSFileWriteCollectionEntryProlog f))) [t]"
  by (auto simp: writes_items_def prints_def lead_def
      FIRCLSFileWriteCollectionEntryProlog_def FIRCLSFileWriteCollectionEntryEpilog_def)

lemma array_items:
  "writes_items w ts \<Longrightarrow>
     writes_items (\<lambda>f. FIRCLSFileWriteArrayEnd (w (FIRCLSFileWriteArrayStart f))) [''['' @ commas ts @ '']'']"
  by (auto simp: writes_items_def FIRCLSFileWriteArrayEnd_def FIRCLSFileWriteArrayStart_def lead_def Let_def
      FIRCLSFileWriteCollectionStart_def FIRCLSFileWriteCollectionEnd_def)

lemma hash_items:
  "writes_items w ts \<Longrightarrow>
     writes_items (\<lambda>f. FIRCLSFileWriteHashEnd (w (FIRCLSFileWriteHashStart f))) [''{'' @ commas ts @ ''}'']"
  by (auto simp: writes_items_def FIRCLSFileWriteHashEnd_def FIRCLSFileWriteHashStart_def lead_def Let_def
      FIRCLSFileWriteCollectionStart_def FIRCLSFileWriteCollectionEnd_def)

lemma key_items:
  "writes_items w [t] \<Longrightarrow> writes_items (\<lambda>f. w (FIRCLSFileWriteHashKey k f)) [member_text k t]"
  by (auto simp: writes_items_def FIRCLSFileWriteHashKey_def lead_def member_text_def
      FIRCLSFileWriteCollectionEntryProlog_def StringWithSuffix_emit)

text \<open>A section is one line of the report: an object with one member, at depth zero.\<close>

definition at_top :: "FIRCLSFile \<Rightarrow> bool" where
  "at_top f \<longleftrightarrow> file_ok f \<and> collectionDepth f = 0 \<and> \<not> needComma f"

lemma section_text:
  assumes "at_top f" and "writes_items w [t]"
  shows "at_top (FIRCLSFileWriteSectionEnd (w (FIRCLSFileWriteSectionStart name f))) \<and>
    file_text (FIRCLSFileWriteSectionEnd (w (FIRCLSFileWriteSectionStart name f))) =
      file_text f @ ''{'' @ member_text name t @ ''}'' @ [CHR 0x0A]"
proof -
  define g where "g = FIRCLSFileWriteHashStart f"
  have g: "file_ok g" "collectionDepth g = 1" "\<not> needComma g" "file_text g = file_text f @ ''{''"
    using assms(1) by (simp_all add: g_def at_top_def FIRCLSFileWriteHashStart_def Let_def
        FIRCLSFileWriteCollectionStart_def)
  have "0 < collectionDepth g" using g(2) by simp
  note h = writes_itemsD [OF key_items [OF assms(2), of name] g(1) this]
  show ?thesis
    using h g by (simp add: at_top_def FIRCLSFileWriteSectionEnd_def FIRCLSFileWriteSectionStart_def
        FIRCLSFileWriteHashEnd_def FIRCLSFileWriteCollectionEnd_def Let_def lead_def flip: g_def)
qed

lemma json_array_text: "''['' @ commas (map json_text js) @ '']'' = json_text (JArr js)"
  by simp

lemma json_object_text:
  "''{'' @ commas (map (\<lambda>(k, v). member_text k (json_text v)) kvs) @ ''}'' = json_text (JObj kvs)"
  by (simp add: member_text_def)

section \<open>Hexadecimal strings\<close>

definition hex_text :: "string \<Rightarrow> string" where
  "hex_text s = concat (map FIRCLSHexFromByte s)"

lemma hex_loop_text:
  "file_ok f \<Longrightarrow> length buf < CLS_FILE_HEX_BUFFER \<Longrightarrow> even (length buf) \<Longrightarrow>
     hex_loop s buf f = (buf', g) \<Longrightarrow>
     file_ok g \<and> file_text g @ buf' = file_text f @ buf @ hex_text s \<and>
     collectionDepth g = collectionDepth f \<and> needComma g = needComma f \<and> (s = [] \<longrightarrow> buf' = buf)"
proof (induction s arbitrary: buf f)
  case (Cons c s)
  define b where "b = buf @ FIRCLSHexFromByte c"
  have len: "length b = length buf + 2" "length buf + 2 \<le> CLS_FILE_HEX_BUFFER"
    using Cons.prems(2,3) by (auto simp: b_def FIRCLSHexFromByte_def CLS_FILE_HEX_BUFFER_def)
  show ?case
  proof (cases "CLS_FILE_HEX_BUFFER \<le> length b")
    case True
    then have "hex_loop s [] (emit b f) = (buf', g)"
      using Cons.prems(4) len by (simp add: Let_def flip: b_def)
    from Cons.IH [OF _ _ _ this] Cons.prems(1) show ?thesis
      by (simp add: hex_text_def b_def CLS_FILE_HEX_BUFFER_def)
  next
    case False
    then have "hex_loop s b f = (buf', g)" using Cons.prems(4) by (simp add: Let_def flip: b_def)
    from Cons.IH [OF Cons.prems(1) _ _ this] False len Cons.prems(3) show ?thesis
      by (simp add: hex_text_def b_def)
  qed
qed (simp add: hex_text_def)

lemma prints_hex:
  "prints (FIRCLSFileWriteHexEncodedString str)
     (json_text (string_json (map_option hex_text str)))"
proof (cases str)
  case (Some s)
  show ?thesis
    unfolding prints_def
  proof (intro allI impI)
    fix f assume f: "file_ok f"
    obtain buf g where loop: "hex_loop s [] (emit ''\"'' f) = (buf, g)" by fastforce
    have "file_ok g \<and> file_text g @ buf = file_text (emit ''\"'' f) @ [] @ hex_text s \<and>
        collectionDepth g = collectionDepth (emit ''\"'' f) \<and> needComma g = needComma (emit ''\"'' f) \<and>
        (s = [] \<longrightarrow> buf = [])"
      by (rule hex_loop_text [OF _ _ _ loop]) (simp_all add: f CLS_FILE_HEX_BUFFER_def)
    with f loop Some show "file_ok (FIRCLSFileWriteHexEncodedString str f) \<and>
        file_text (FIRCLSFileWriteHexEncodedString str f) =
          file_text f @ json_text (string_json (map_option hex_text str)) \<and>
        collectionDepth (FIRCLSFileWriteHexEncodedString str f) = collectionDepth f \<and>
        needComma (FIRCLSFileWriteHexEncodedString str f) = needComma f"
      by (auto simp: FIRCLSFileWriteHexEncodedString_def string_json_def quoted_def)
  qed
qed (simp add: prints_def FIRCLSFileWriteHexEncodedString_def string_json_def)

lemma hex_text_plain: "list_all plain_char (hex_text s)"
proof -
  have "list_all plain_char (FIRCLSHexFromByte c)" for c
  proof -
    define hex where "hex = ''0123456789abcdef''"
    have all: "\<forall>d \<in> set hex. plain_char d" by (simp add: plain_char_def hex_def)
    have "(of_char c :: nat) < 256" by simp
    then have "(of_char c :: nat) div 16 < length hex" "(of_char c :: nat) mod 16 < length hex"
      by (simp_all add: less_mult_imp_div_less hex_def)
    then have "hex ! (of_char c div 16) \<in> set hex" "hex ! (of_char c mod 16) \<in> set hex" by simp_all
    with all show ?thesis by (simp add: FIRCLSHexFromByte_def flip: hex_def)
  qed
  then show ?thesis by (induction s) (simp_all add: hex_text_def list_all_append)
qed

lemmas entry_writers =
  key_entry [OF prints_values(1), folded FIRCLSFileWriteHashEntryUint64_def]
  key_entry [OF prints_values(2), folded FIRCLSFileWriteHashEntryBoolean_def]
  key_entry [OF prints_values(3), folded FIRCLSFileWriteHashEntryString_def]
  key_entry [OF prints_hex, folded FIRCLSFileWriteHashEntryHexEncodedString_def]
  array_entry [OF prints_values(1), folded FIRCLSFileWriteArrayEntryUint64_def]
  array_entry [OF prints_values(3), folded FIRCLSFileWriteArrayEntryString_def]
  array_entry [OF prints_hex, folded FIRCLSFileWriteArrayEntryHexEncodedString_def]

section \<open>Unescaped strings\<close>

text \<open>The text of a proper value has an even number of quotes.\<close>

definition quotes :: "string \<Rightarrow> nat" where
  "quotes s = length (filter (\<lambda>c. c = CHR 0x22) s)"

lemma quotes_append [simp]: "quotes (s @ t) = quotes s + quotes t"
  by (simp add: quotes_def)

lemma quotes_Nil [simp]: "quotes [] = 0"
  by (simp add: quotes_def)

lemma quotes_Cons [simp]: "quotes (c # s) = (if c = CHR 0x22 then 1 else 0) + quotes s"
  by (simp add: quotes_def)

lemma quotes_plain [simp]: "list_all plain_char s \<Longrightarrow> quotes s = 0"
  by (induction s) (auto simp: plain_char_def)

lemma quotes_decimal [simp]: "quotes (decimal n) = 0"
proof -
  have "c \<noteq> CHR 0x22" if "c \<in> set (decimal n)" for c using decimal_digits [OF that] by auto
  then show ?thesis by (auto simp: quotes_def filter_empty_conv)
qed

lemma quotes_commas: "(\<And>s. s \<in> set ss \<Longrightarrow> even (quotes s)) \<Longrightarrow> even (quotes (commas ss))"
  by (induction ss rule: commas.induct) auto

lemma quotes_json: "json_ok j \<Longrightarrow> even (quotes (json_text j))"
proof (induction j rule: json_text.induct)
  case (5 js)
  then show ?case by (auto simp: list_all_iff intro!: quotes_commas)
next
  case (6 kvs)
  then show ?case by (fastforce simp: list_all_iff quoted_def intro!: quotes_commas)
qed (auto simp: quoted_def)

end
