(* ===== verification/Cls_Process.thy ===== *)
theory Cls_Process
  imports Cls_Unwind_Facts Cls_Json
begin

text \<open>
  FIRCLSProcess.c: recording the threads of the crashed process. The kernel and pthread calls are
  the fields of \<open>process_os\<close>; \<open>None\<close> is their error status. The report is an \<open>FIRCLSFile\<close>.
\<close>

section \<open>Process and operating system\<close>

record FIRCLSProcess =
  proc_task :: u32
  thisThread :: u32
  crashedThread :: u32
  threads :: "u32 list"
  threadCount :: u32
  uapVoid :: u64

record 'c process_os =
  MACH_PORT_INDEX :: "u32 \<Rightarrow> u32"
  mach_task_self :: u32
  mach_thread_self :: u32
  task_threads :: "u32 list option"
  thread_suspend :: "u32 \<Rightarrow> bool"
  thread_resume :: "u32 \<Rightarrow> bool"
  uc_mcontext :: "u64 \<Rightarrow> 'c option"
  thread_get_state :: "u32 \<Rightarrow> int \<times> 'c"
  pthread_name :: "u32 \<Rightarrow> string"
  thread_dispatch_qaddr :: "u32 \<Rightarrow> u64 option"
  dispatch_queue_get_label :: "u64 \<Rightarrow> u64"
  host_page_size :: u64
  host_statistics :: "(u32 \<times> u32 \<times> u32 \<times> u32) option"
  task_basic_info :: "(u64 \<times> u64 \<times> (int \<times> int) \<times> (int \<times> int)) option"

definition FIRCLSProcessInit :: "'c process_os \<Rightarrow> u32 \<Rightarrow> u64 \<Rightarrow> bool \<times> FIRCLSProcess" where
  "FIRCLSProcessInit os crashed uap =
    (let p = \<lparr>proc_task = mach_task_self os, thisThread = mach_thread_self os, crashedThread = crashed,
              threads = [], threadCount = 0, uapVoid = uap\<rparr> in
     case task_threads os of
       None \<Rightarrow> (False, p)
     | Some ts \<Rightarrow> (True, p\<lparr>threads := ts, threadCount := of_nat (length ts)\<rparr>))"

definition FIRCLSProcessIsCurrentThread :: "'c process_os \<Rightarrow> FIRCLSProcess \<Rightarrow> u32 \<Rightarrow> bool" where
  "FIRCLSProcessIsCurrentThread os p t \<longleftrightarrow> MACH_PORT_INDEX os (thisThread p) = MACH_PORT_INDEX os t"

definition FIRCLSProcessIsCrashedThread :: "'c process_os \<Rightarrow> FIRCLSProcess \<Rightarrow> u32 \<Rightarrow> bool" where
  "FIRCLSProcessIsCrashedThread os p t \<longleftrightarrow> MACH_PORT_INDEX os (crashedThread p) = MACH_PORT_INDEX os t"

definition FIRCLSProcessGetThreadCount :: "FIRCLSProcess \<Rightarrow> u32" where
  "FIRCLSProcessGetThreadCount p = threadCount p"

definition FIRCLSProcessGetThread :: "FIRCLSProcess \<Rightarrow> u32 \<Rightarrow> u32" where
  "FIRCLSProcessGetThread p index = (if threadCount p \<le> index then 0 else threads p ! unat index)"

text \<open>The threads a loop \<open>for (i = 0; i < threadCount; ++i)\<close> visits.\<close>

definition all_threads :: "FIRCLSProcess \<Rightarrow> u32 list" where
  "all_threads p = map (\<lambda>i. FIRCLSProcessGetThread p (of_nat i)) [0..<unat (FIRCLSProcessGetThreadCount p)]"

text \<open>
  Suspending and resuming. \<open>success && call\<close> makes the call only while \<open>success\<close> holds; the second
  component is the list of threads the call was made for.
\<close>

primrec each_other_thread ::
  "'c process_os \<Rightarrow> FIRCLSProcess \<Rightarrow> (u32 \<Rightarrow> bool) \<Rightarrow> u32 list \<Rightarrow> bool \<times> u32 list \<Rightarrow> bool \<times> u32 list" where
  "each_other_thread os p call [] st = st"
| "each_other_thread os p call (t # ts) st =
    (if FIRCLSProcessIsCurrentThread os p t then each_other_thread os p call ts st
     else if \<not> fst st then each_other_thread os p call ts st
     else each_other_thread os p call ts (call t, snd st @ [t]))"

definition FIRCLSProcessSuspendAllOtherThreads :: "'c process_os \<Rightarrow> FIRCLSProcess \<Rightarrow> bool \<times> u32 list" where
  "FIRCLSProcessSuspendAllOtherThreads os p =
     each_other_thread os p (thread_suspend os) (all_threads p) (True, [])"

definition FIRCLSProcessResumeAllOtherThreads :: "'c process_os \<Rightarrow> FIRCLSProcess \<Rightarrow> bool \<times> u32 list" where
  "FIRCLSProcessResumeAllOtherThreads os p =
     each_other_thread os p (thread_resume os) (all_threads p) (True, [])"

section \<open>Thread state\<close>

definition x86_zero :: x86_state where
  "x86_zero = \<lparr>rax = 0, rdx = 0, rcx = 0, rbx = 0, rsi = 0, rdi = 0, rbp = 0, rsp = 0,
     r8 = 0, r9 = 0, r10 = 0, r11 = 0, r12 = 0, r13 = 0, r14 = 0, r15 = 0, rip = 0,
     rflags = 0, seg_cs = 0, seg_fs = 0, seg_gs = 0\<rparr>"

definition arm_zero :: arm_state where
  "arm_zero = \<lparr>x = replicate 29 0, raw_fp = 0, raw_lr = 0, raw_sp = 0, raw_pc = 0, cpsr = 0\<rparr>"

text \<open>The context made up for the current thread, from the builtins' frame address and addresses.\<close>

definition fake_context_x86 :: "u64 \<Rightarrow> u64 \<Rightarrow> x86_state" where
  "fake_context_x86 frameAddress currentPC =
     x86_zero\<lparr>rip := currentPC, rbp := frameAddress,
       rsp := FIRCLSUnwindStackPointerFromFramePointer frameAddress\<rparr>"

definition fake_context_arm :: "arm_sdk \<Rightarrow> u64 \<Rightarrow> u64 \<Rightarrow> u64 \<Rightarrow> arm_state" where
  "fake_context_arm sdk frameAddress currentPC returnAddress =
     FIRCLSThreadContextSetStackPointer_arm sdk (FIRCLSUnwindStackPointerFromFramePointer frameAddress)
       (FIRCLSThreadContextSetLinkRegister_arm sdk returnAddress
         (FIRCLSThreadContextSetFramePointer_arm sdk frameAddress
           (FIRCLSThreadContextSetPC_arm sdk currentPC arm_zero)))"

text \<open>\<open>None\<close> is a fault of the dereference of \<open>uapVoid\<close>.\<close>

definition FIRCLSProcessGetThreadState ::
  "'c process_os \<Rightarrow> 'c \<Rightarrow> FIRCLSProcess \<Rightarrow> u32 \<Rightarrow> (bool \<times> 'c) option" where
  "FIRCLSProcessGetThreadState os fake p t =
    (if FIRCLSProcessIsCrashedThread os p t \<and> FIRCLSIsValidPointer (uapVoid p)
     then map_option (Pair True) (uc_mcontext os (uapVoid p))
     else if FIRCLSProcessIsCurrentThread os p t then Some (True, fake)
     else let (status, ctx) = thread_get_state os t in
       if status \<noteq> 0 \<and> status \<noteq> 268435459 then Some (False, ctx) else Some (True, ctx))"

section \<open>Registers\<close>

definition FIRCLSProcessRecordThreadRegisters_x86 :: "x86_state \<Rightarrow> FIRCLSFile \<Rightarrow> FIRCLSFile" where
  "FIRCLSProcessRecordThreadRegisters_x86 r =
     fold (\<lambda>(k, v). FIRCLSFileWriteHashEntryUint64 k v)
       [(''rax'', rax r), (''rbx'', rbx r), (''rcx'', rcx r), (''rdx'', rdx r), (''rdi'', rdi r),
        (''rsi'', rsi r), (''rbp'', rbp r), (''rsp'', rsp r), (''r8'', r8 r), (''r9'', r9 r),
        (''r10'', r10 r), (''r11'', r11 r), (''r12'', r12 r), (''r13'', r13 r), (''r14'', r14 r),
        (''r15'', r15 r), (''rip'', rip r), (''rflags'', rflags r), (''cs'', seg_cs r),
        (''fs'', seg_fs r), (''gs'', seg_gs r)]"

text \<open>The keys \<open>x0\<close> to \<open>x28\<close> of the 29 calls, in order.\<close>

definition FIRCLSProcessRecordThreadRegisters_arm :: "arm_sdk \<Rightarrow> arm_state \<Rightarrow> FIRCLSFile \<Rightarrow> FIRCLSFile" where
  "FIRCLSProcessRecordThreadRegisters_arm sdk r =
     fold (\<lambda>(k, v). FIRCLSFileWriteHashEntryUint64 k v)
       (map (\<lambda>i. (''x'' @ decimal i, x r ! i)) [0..<29] @
        [(''fp'', FIRCLSThreadContextGetFramePointer_arm sdk r),
         (''sp'', FIRCLSThreadContextGetStackPointer_arm sdk r),
         (''lr'', FIRCLSThreadContextGetLinkRegister_arm sdk r),
         (''pc'', FIRCLSThreadContextGetPC_arm sdk r),
         (''cpsr'', ucast (cpsr r))])"

section \<open>The stack trace of a thread\<close>

definition FIRCLSUnwindInfiniteRecursionCountThreshold :: u32 where
  "FIRCLSUnwindInfiniteRecursionCountThreshold = 10"

definition FIRCLSInternalLogLevelWarn :: int where
  "FIRCLSInternalLogLevelWarn = 3"

record trace =
  repeatedPC :: u64
  repeatedPCCount :: u32
  logLevel :: int
  trace_file :: FIRCLSFile

text \<open>The body of the loop, for the program counter and the repeat count of one frame.\<close>

definition trace_step :: "int \<Rightarrow> u64 \<Rightarrow> u32 \<Rightarrow> trace \<Rightarrow> trace" where
  "trace_step level pc frameCnt t =
    (if repeatedPC t = pc \<and> repeatedPC t \<noteq> 0 then t\<lparr>repeatedPCCount := frameCnt\<rparr>
     else if FIRCLSUnwindInfiniteRecursionCountThreshold \<le> frameCnt \<and> repeatedPC t = 0
     then t\<lparr>repeatedPC := pc, logLevel := FIRCLSInternalLogLevelWarn\<rparr>
     else let t = (if repeatedPC t \<noteq> 0 then t\<lparr>logLevel := level\<rparr> else t)
          in t\<lparr>trace_file := FIRCLSFileWriteArrayEntryUint64 pc (trace_file t)\<rparr>)"

text \<open>\<open>unwind\<close> is \<open>FIRCLSUnwindNextFrame\<close>; the loop ends when it returns false.\<close>

primrec trace_loop ::
  "nat \<Rightarrow> ('c FIRCLSUnwindContext \<Rightarrow> (bool \<times> 'c FIRCLSUnwindContext) loop_result) \<Rightarrow> 'c arch_ops \<Rightarrow>
     int \<Rightarrow> 'c FIRCLSUnwindContext \<Rightarrow> trace \<Rightarrow> trace loop_result" where
  "trace_loop 0 unwind ops level ctx t = Out_of_fuel"
| "trace_loop (Suc n) unwind ops level ctx t =
    bind_result (unwind ctx) (\<lambda>(ok, ctx).
      if \<not> ok then Returned t
      else trace_loop n unwind ops level ctx
        (trace_step level (FIRCLSUnwindGetPC ops ctx) (FIRCLSUnwindGetFrameRepeatCount ctx) t))"

text \<open>What recording a thread uses of the build and of the process: one record, passed around.\<close>

record 'c recorder =
  rec_os :: "'c process_os"
  rec_ops :: "'c arch_ops"
  rec_unwind :: "'c FIRCLSUnwindContext \<Rightarrow> (bool \<times> 'c FIRCLSUnwindContext) loop_result"
  rec_maxFrames :: u32
  rec_registers :: "'c \<Rightarrow> FIRCLSFile \<Rightarrow> FIRCLSFile"
  rec_fake :: 'c

definition FIRCLSProcessRecordThread ::
  "'c recorder \<Rightarrow> FIRCLSProcess \<Rightarrow> u32 \<Rightarrow> int \<times> FIRCLSFile \<Rightarrow> (bool \<times> int \<times> FIRCLSFile) loop_result" where
  "FIRCLSProcessRecordThread R p t st =
    bind_result (from_option (FIRCLSProcessGetThreadState (rec_os R) (rec_fake R) p t)) (\<lambda>(ok, ctx).
     if \<not> ok then Returned (False, st)
     else let level = fst st;
              f = FIRCLSFileWriteHashStart (snd st);
              f = FIRCLSFileWriteHashStart (FIRCLSFileWriteHashKey ''registers'' f);
              f = FIRCLSFileWriteHashEnd (rec_registers R ctx f);
              f = FIRCLSFileWriteArrayStart (FIRCLSFileWriteHashKey ''stacktrace'' f)
      in bind_result (trace_loop (unat (rec_maxFrames R) + 1) (rec_unwind R) (rec_ops R) level (FIRCLSUnwindInit ctx)
            \<lparr>repeatedPC = 0, repeatedPCCount = 0, logLevel = level, trace_file = f\<rparr>)
       (\<lambda>tr.
          let f = FIRCLSFileWriteArrayEnd (trace_file tr);
              f = (if FIRCLSProcessIsCrashedThread (rec_os R) p t
                   then FIRCLSFileWriteHashEntryBoolean ''crashed'' True f else f);
              f = (if repeatedPC tr \<noteq> 0
                   then FIRCLSFileWriteHashEntryUint64 ''repeat_count'' (ucast (repeatedPCCount tr))
                     (FIRCLSFileWriteHashEntryUint64 ''repeated_pc'' (repeatedPC tr) f) else f)
          in Returned (True, level, FIRCLSFileWriteHashEnd f)))"

text \<open>The loop over the threads, which stops at the first one that fails.\<close>

primrec record_threads ::
  "'c recorder \<Rightarrow> FIRCLSProcess \<Rightarrow> u32 list \<Rightarrow> int \<times> FIRCLSFile \<Rightarrow> (bool \<times> int \<times> FIRCLSFile) loop_result" where
  "record_threads R p [] st = Returned (True, st)"
| "record_threads R p (t # ts) st =
    bind_result (FIRCLSProcessRecordThread R p t st) (\<lambda>(ok, st).
      if \<not> ok then Returned (False, st) else record_threads R p ts st)"

definition FIRCLSProcessRecordAllThreads ::
  "'c recorder \<Rightarrow> FIRCLSProcess \<Rightarrow> int \<times> FIRCLSFile \<Rightarrow> (bool \<times> int \<times> FIRCLSFile) loop_result" where
  "FIRCLSProcessRecordAllThreads R p st =
    bind_result (record_threads R p (all_threads p)
        (fst st, FIRCLSFileWriteArrayStart (FIRCLSFileWriteSectionStart ''threads'' (snd st))))
      (\<lambda>(ok, level, f). Returned (ok, level, FIRCLSFileWriteSectionEnd (FIRCLSFileWriteArrayEnd f)))"

section \<open>Strings of the process\<close>

text \<open>
  \<open>FIRCLSReadString\<close> walks at most \<open>maxlen\<close> bytes and checks that each can be read; the string it
  hands back is the address it was given. Reading that string is \<open>c_string\<close>, with a bound of
  \<open>CLS_STRING_FUEL\<close> characters.
\<close>

primrec read_string_loop :: "nat \<Rightarrow> cls_env \<Rightarrow> u64 \<Rightarrow> u64 \<Rightarrow> bool" where
  "read_string_loop 0 env address limit = True"
| "read_string_loop (Suc n) env address limit =
    (if \<not> address < limit then True
     else case FIRCLSReadMemory env address 1 of
       None \<Rightarrow> False
     | Some bs \<Rightarrow> if bs = [0] then True else read_string_loop n env (address + 1) limit)"

definition FIRCLSReadString :: "cls_env \<Rightarrow> u64 \<Rightarrow> nat \<Rightarrow> bool" where
  "FIRCLSReadString env src maxlen = read_string_loop maxlen env src (src + of_nat maxlen)"

primrec c_string :: "nat \<Rightarrow> cls_env \<Rightarrow> u64 \<Rightarrow> string loop_result" where
  "c_string 0 env a = Out_of_fuel"
| "c_string (Suc n) env a =
    (case mem env a of
       None \<Rightarrow> Faulted
     | Some b \<Rightarrow> if b = 0 then Returned [] else
         bind_result (c_string n env (a + 1)) (\<lambda>s. Returned (char_of (unat b) # s)))"

definition CLS_STRING_FUEL :: nat where
  "CLS_STRING_FUEL = 65536"

definition FIRCLSProcessGetThreadName :: "'c process_os \<Rightarrow> u32 \<Rightarrow> string" where
  "FIRCLSProcessGetThreadName os t = pthread_name os t"

definition FIRCLSProcessRecordThreadNames :: "'c process_os \<Rightarrow> FIRCLSProcess \<Rightarrow> FIRCLSFile \<Rightarrow> FIRCLSFile" where
  "FIRCLSProcessRecordThreadNames os p f =
    (let f = FIRCLSFileWriteArrayStart (FIRCLSFileWriteSectionStart ''thread_names'' f);
         f = fold (\<lambda>t. FIRCLSFileWriteArrayEntryString (Some (FIRCLSProcessGetThreadName os t))) (all_threads p) f
     in FIRCLSFileWriteSectionEnd (FIRCLSFileWriteArrayEnd f))"

text \<open>\<open>NULL\<close> is \<open>None\<close>; the other returns are strings.\<close>

definition FIRCLSProcessGetThreadDispatchQueueName ::
  "cls_env \<Rightarrow> 'c process_os \<Rightarrow> u32 \<Rightarrow> string option loop_result" where
  "FIRCLSProcessGetThreadDispatchQueueName env os t =
    (case thread_dispatch_qaddr os t of
       None \<Rightarrow> Returned None
     | Some queueAddress \<Rightarrow>
        if queueAddress = 0 then Returned (Some [])
        else case FIRCLSReadWord env queueAddress of
          None \<Rightarrow> Returned (Some [])
        | Some queue \<Rightarrow>
           if queue = 0 then Returned (Some [])
           else let label = dispatch_queue_get_label os queue in
             if \<not> FIRCLSReadString env label 128 then Returned (Some [])
             else bind_result (c_string CLS_STRING_FUEL env label) (\<lambda>s. Returned (Some s)))"

primrec record_queue_names ::
  "cls_env \<Rightarrow> 'c process_os \<Rightarrow> u32 list \<Rightarrow> FIRCLSFile \<Rightarrow> FIRCLSFile loop_result" where
  "record_queue_names env os [] f = Returned f"
| "record_queue_names env os (t # ts) f =
    bind_result (FIRCLSProcessGetThreadDispatchQueueName env os t) (\<lambda>nm.
      record_queue_names env os ts
        (FIRCLSFileWriteArrayEntryString (Some (case nm of None \<Rightarrow> [] | Some s \<Rightarrow> s)) f))"

definition FIRCLSProcessRecordDispatchQueueNames ::
  "cls_env \<Rightarrow> 'c process_os \<Rightarrow> FIRCLSProcess \<Rightarrow> FIRCLSFile \<Rightarrow> FIRCLSFile loop_result" where
  "FIRCLSProcessRecordDispatchQueueNames env os p f =
    bind_result (record_queue_names env os (all_threads p)
        (FIRCLSFileWriteArrayStart (FIRCLSFileWriteSectionStart ''dispatch_queue_names'' f)))
      (\<lambda>f. Returned (FIRCLSFileWriteSectionEnd (FIRCLSFileWriteArrayEnd f)))"

section \<open>Statistics\<close>

definition FIRCLSProcessGetMemoryUsage :: "'c process_os \<Rightarrow> (u64 \<times> u64 \<times> u64 \<times> u64) option" where
  "FIRCLSProcessGetMemoryUsage os =
    map_option (\<lambda>(active, inactive, wired, freeMem).
        (ucast active * host_page_size os, ucast inactive * host_page_size os,
         ucast wired * host_page_size os, ucast freeMem * host_page_size os)) (host_statistics os)"

definition FIRCLSProcessGetInfo ::
  "'c process_os \<Rightarrow> (u64 \<times> u64 \<times> (int \<times> int) \<times> (int \<times> int)) option" where
  "FIRCLSProcessGetInfo os = task_basic_info os"

text \<open>
  \<open>(seconds * 1000 * 1000) + microseconds\<close> in \<open>int\<close>, converted to \<open>uint64_t\<close>; \<open>None\<close> is the overflow,
  undefined in C.
\<close>

definition time_in_microseconds :: "int \<times> int \<Rightarrow> u64 option" where
  "time_in_microseconds tv =
    (let product = fst tv * 1000 * 1000; total = product + snd tv in
     if - (2 ^ 31) \<le> product \<and> product < 2 ^ 31 \<and> - (2 ^ 31) \<le> total \<and> total < 2 ^ 31
     then Some (of_int total) else None)"

definition FIRCLSProcessRecordStats :: "'c process_os \<Rightarrow> FIRCLSFile \<Rightarrow> FIRCLSFile option" where
  "FIRCLSProcessRecordStats os f =
    (case FIRCLSProcessGetMemoryUsage os of
       None \<Rightarrow> Some f
     | Some (active, inactive, wired, freeMem) \<Rightarrow>
    (case FIRCLSProcessGetInfo os of
       None \<Rightarrow> Some f
     | Some (virtualSize, residentSize, userTime, systemTime) \<Rightarrow>
        do {
          let f = FIRCLSFileWriteHashStart (FIRCLSFileWriteSectionStart ''process_stats'' f);
          let f = fold (\<lambda>(k, v). FIRCLSFileWriteHashEntryUint64 k v)
            [(''active'', active), (''inactive'', inactive), (''wired'', wired), (''freeMem'', freeMem),
             (''free_mem'', freeMem), (''virtual'', virtualSize), (''resident'', active)] f;
          user \<leftarrow> time_in_microseconds userTime;
          let f = FIRCLSFileWriteHashEntryUint64 ''user_time'' user f;
          sys \<leftarrow> time_in_microseconds systemTime;
          let f = FIRCLSFileWriteHashEntryUint64 ''sys_time'' sys f;
          Some (FIRCLSFileWriteSectionEnd (FIRCLSFileWriteHashEnd f)) }))"

section \<open>Runtime information\<close>

text \<open>The addresses of the message send functions of the Objective-C runtime.\<close>

record objc_runtime =
  objc_msgSend :: u64
  objc_msgSendSuper :: u64
  objc_msgSend_stret :: u64
  objc_msgSendSuper_stret :: u64
  objc_msgSend_fpret :: u64

definition in_function :: "u64 \<Rightarrow> u64 \<Rightarrow> bool" where
  "in_function start pc \<longleftrightarrow> start \<le> pc \<and> pc \<le> start + 66"

definition selector_string :: "cls_env \<Rightarrow> u64 \<Rightarrow> string loop_result" where
  "selector_string env selectorAddress =
    (if selectorAddress = 0 then Returned []
     else if \<not> FIRCLSReadString env selectorAddress 128 then Returned []
     else c_string CLS_STRING_FUEL env selectorAddress)"

definition FIRCLSProcessGetObjCSelectorName_x86 :: "cls_env \<Rightarrow> objc_runtime \<Rightarrow> x86_state \<Rightarrow> string loop_result" where
  "FIRCLSProcessGetObjCSelectorName_x86 env rt r =
    (let pc = rip r; selRegister = rsi r; stretSelRegister = rdx r;
         a = (if in_function (objc_msgSend rt) pc then selRegister else 0);
         a = (if in_function (objc_msgSendSuper rt) pc then selRegister else a);
         a = (if in_function (objc_msgSend_stret rt) pc then stretSelRegister else a);
         a = (if in_function (objc_msgSendSuper_stret rt) pc then stretSelRegister else a);
         a = (if in_function (objc_msgSend_fpret rt) pc then selRegister else a)
     in selector_string env a)"

definition FIRCLSProcessGetObjCSelectorName_arm ::
  "cls_env \<Rightarrow> objc_runtime \<Rightarrow> arm_sdk \<Rightarrow> arm_state \<Rightarrow> string loop_result" where
  "FIRCLSProcessGetObjCSelectorName_arm env rt sdk r =
    (let pc = FIRCLSThreadContextGetPC_arm sdk r in
     selector_string env (if in_function (objc_msgSend rt) pc then x r ! 1 else 0))"

text \<open>Replacing the first parenthesised group of 36 characters by stars, dashes kept.\<close>

primrec find_close :: "string \<Rightarrow> nat option" where
  "find_close [] = None"
| "find_close (c # cs) = (if c = CHR '')'' then Some 0 else map_option Suc (find_close cs))"

primrec FIRCLSRedactUUID :: "string \<Rightarrow> string" where
  "FIRCLSRedactUUID [] = []"
| "FIRCLSRedactUUID (c # cs) =
    (if c \<noteq> CHR ''('' then c # FIRCLSRedactUUID cs
     else case find_close cs of
       None \<Rightarrow> c # cs
     | Some n \<Rightarrow>
        if n = 36 then c # map (\<lambda>d. if d \<noteq> CHR ''-'' then CHR ''*'' else d) (take 36 cs) @ drop 36 cs
        else c # FIRCLSRedactUUID cs)"

text \<open>
  One image: its \<open>crash_info_t\<close> has the version in its first word and the message at offset 8. The
  redaction is made on the text that is read; the code makes it in place, in the crashed process.
\<close>

definition record_crash_info :: "cls_env \<Rightarrow> FIRCLSBinaryImageRuntimeNode \<Rightarrow> FIRCLSFile \<Rightarrow> FIRCLSFile loop_result" where
  "record_crash_info env node f =
    (if node_crashInfo node = 0 then Returned f
     else case FIRCLSReadMemory env (node_crashInfo node) 56 of
       None \<Rightarrow> Returned f
     | Some info \<Rightarrow>
        let info_version = le_word (take 4 info) :: u32; message = le_word (take 8 (drop 8 info)) :: u64 in
        if 5 < info_version then Returned f
        else if message = 0 then Returned f
        else if \<not> FIRCLSReadString env message 256 then Returned f
        else bind_result (c_string CLS_STRING_FUEL env message)
          (\<lambda>s. Returned (FIRCLSFileWriteArrayEntryHexEncodedString (Some (FIRCLSRedactUUID s)) f)))"

primrec crash_info_loop ::
  "cls_env \<Rightarrow> FIRCLSBinaryImageRuntimeNode list \<Rightarrow> FIRCLSFile \<Rightarrow> FIRCLSFile loop_result" where
  "crash_info_loop env [] f = Returned f"
| "crash_info_loop env (n # ns) f = bind_result (record_crash_info env n f) (crash_info_loop env ns)"

definition FIRCLSProcessRecordCrashInfo :: "cls_env \<Rightarrow> cls_images \<Rightarrow> FIRCLSFile \<Rightarrow> FIRCLSFile loop_result" where
  "FIRCLSProcessRecordCrashInfo env images f =
    (case nodes images of None \<Rightarrow> Returned f | Some ns \<Rightarrow> crash_info_loop env ns f)"

text \<open>
  \<open>selector\<close> is the architecture's \<open>FIRCLSProcessGetObjCSelectorName\<close>. When the thread state cannot
  be read the code only logs it and goes on with what the failed call left in \<open>mcontext\<close>.
\<close>

definition FIRCLSProcessRecordRuntimeInfo ::
  "cls_env \<Rightarrow> cls_images \<Rightarrow> 'c recorder \<Rightarrow> ('c \<Rightarrow> string loop_result) \<Rightarrow> FIRCLSProcess \<Rightarrow> FIRCLSFile \<Rightarrow>
     FIRCLSFile loop_result" where
  "FIRCLSProcessRecordRuntimeInfo env images R selector p f =
    bind_result (from_option (FIRCLSProcessGetThreadState (rec_os R) (rec_fake R) p (crashedThread p)))
      (\<lambda>(_, mcontext).
        let f = FIRCLSFileWriteHashStart (FIRCLSFileWriteSectionStart ''runtime'' f) in
        bind_result (selector mcontext) (\<lambda>sel.
        let f = FIRCLSFileWriteHashEntryString ''objc_selector'' (Some sel) f;
            f = FIRCLSFileWriteArrayStart (FIRCLSFileWriteHashKey ''crash_info_entries'' f) in
        bind_result (FIRCLSProcessRecordCrashInfo env images f) (\<lambda>f.
          Returned (FIRCLSFileWriteSectionEnd (FIRCLSFileWriteHashEnd (FIRCLSFileWriteArrayEnd f))))))"

end
