(* ===== verification/Cls_Process_Facts.thy ===== *)
theory Cls_Process_Facts
  imports Cls_Process
begin

text \<open>
  What is recorded: which threads are suspended, what the stack trace of a thread holds, and the
  JSON text of the sections.
\<close>

section \<open>Threads\<close>

definition process_ok :: "FIRCLSProcess \<Rightarrow> bool" where
  "process_ok p \<longleftrightarrow> length (threads p) = unat (threadCount p)"

lemma all_threads_ok: "process_ok p \<Longrightarrow> all_threads p = threads p"
proof (rule nth_equalityI)
  fix i assume ok: "process_ok p" and i: "i < length (all_threads p)"
  have "unat (threadCount p) < 2 ^ 32" using unsigned_less [of "threadCount p"] by simp
  moreover have lt: "i < unat (threadCount p)"
    using i by (simp add: all_threads_def FIRCLSProcessGetThreadCount_def)
  ultimately have u: "unat (of_nat i :: u32) = i" by (simp add: unat_of_nat)
  then have "\<not> threadCount p \<le> of_nat i" using lt by (simp add: word_le_nat_alt)
  with u lt show "all_threads p ! i = threads p ! i"
    by (simp add: all_threads_def FIRCLSProcessGetThread_def FIRCLSProcessGetThreadCount_def)
qed (simp add: process_ok_def all_threads_def FIRCLSProcessGetThreadCount_def)

lemma Init_process_ok:
  "FIRCLSProcessInit os crashed uap = (ok, p) \<Longrightarrow> (\<And>ts. task_threads os = Some ts \<Longrightarrow> length ts < 2 ^ 32) \<Longrightarrow>
     process_ok p"
  by (auto simp: FIRCLSProcessInit_def process_ok_def Let_def unat_of_nat split: option.splits)

definition other_threads :: "'c process_os \<Rightarrow> FIRCLSProcess \<Rightarrow> u32 list" where
  "other_threads os p = filter (\<lambda>t. \<not> FIRCLSProcessIsCurrentThread os p t) (all_threads p)"

text \<open>The calls made: every other thread up to and including the first one that fails.\<close>

lemma each_other_thread_calls:
  "each_other_thread os p call ts (True, made) =
     (let others = filter (\<lambda>t. \<not> FIRCLSProcessIsCurrentThread os p t) ts in
      (list_all call others, made @ takeWhile call others @ take 1 (dropWhile call others)))"
proof (induction ts arbitrary: made)
  case (Cons t ts)
  have stop: "each_other_thread os p call us (False, m) = (False, m)" for us m
    by (induction us) simp_all
  show ?case using Cons by (simp add: Let_def stop)
qed simp

section \<open>The stack trace\<close>

text \<open>The repeat counts the unwinder keeps, from its last program counter and its last count.\<close>

fun run_counts :: "u64 \<Rightarrow> u32 \<Rightarrow> u64 list \<Rightarrow> (u64 \<times> u32) list" where
  "run_counts prev cnt [] = []"
| "run_counts prev cnt (pc # pcs) =
    (let cnt' = (if prev = pc then cnt + 1 else 0) in (pc, cnt') # run_counts pc cnt' pcs)"

text \<open>What the loop records of them: the recorded program counters, the repeated one, its count.\<close>

fun collapse :: "u64 \<Rightarrow> u32 \<Rightarrow> (u64 \<times> u32) list \<Rightarrow> u64 list \<times> u64 \<times> u32" where
  "collapse rep cnt [] = ([], rep, cnt)"
| "collapse rep cnt ((pc, n) # fs) =
    (if rep = pc \<and> rep \<noteq> 0 then collapse rep n fs
     else if FIRCLSUnwindInfiniteRecursionCountThreshold \<le> n \<and> rep = 0 then collapse pc cnt fs
     else (case collapse rep cnt fs of (pcs, r) \<Rightarrow> (pc # pcs, r)))"

lemma fold_trace_step:
  "\<exists>lvl. fold (\<lambda>(pc, n). trace_step level pc n) fs t =
     \<lparr>repeatedPC = fst (snd (collapse (repeatedPC t) (repeatedPCCount t) fs)),
      repeatedPCCount = snd (snd (collapse (repeatedPC t) (repeatedPCCount t) fs)), logLevel = lvl,
      trace_file = fold FIRCLSFileWriteArrayEntryUint64 (fst (collapse (repeatedPC t) (repeatedPCCount t) fs))
        (trace_file t)\<rparr>"
proof (induction fs arbitrary: t)
  case Nil
  show ?case by (intro exI [of _ "logLevel t"]) simp
next
  case (Cons f fs)
  obtain pc n where f: "f = (pc, n)" by (cases f)
  from Cons.IH [of "trace_step level pc n t"] show ?case
    by (auto simp: f trace_step_def Let_def split: prod.splits)
qed

lemma frames_counts:
  assumes "unwind = FIRCLSUnwindNextFrame env images abi ops au maxFrames"
  shows "frames unwind ctx cs ctx' \<Longrightarrow>
    map (\<lambda>c. (FIRCLSUnwindGetPC ops c, FIRCLSUnwindGetFrameRepeatCount c)) cs =
      run_counts (lastFramePC ctx) (repeatCount ctx) (map (FIRCLSUnwindGetPC ops) cs) \<and>
    length cs + unat (frameCount ctx) \<le> max (unat maxFrames) (unat (frameCount ctx))"
proof (induction cs arbitrary: ctx)
  case (Cons c cs)
  then have step: "FIRCLSUnwindNextFrame env images abi ops au maxFrames ctx = Returned (True, c)"
    and rest: "frames unwind c cs ctx'" by (simp_all add: assms)
  note f = NextFrame_true [OF step]
  have "unat (frameCount c) = unat (frameCount ctx) + 1" using f frame_succ by metis
  moreover have "unat (frameCount ctx) < unat maxFrames" using f by (simp add: word_less_nat_alt)
  ultimately show ?case
    using Cons.IH [OF rest] f by (auto simp: FIRCLSUnwindGetFrameRepeatCount_def Let_def)
qed simp

lemma trace_loop_frames:
  "frames unwind ctx cs ctx' \<Longrightarrow> length cs < n \<Longrightarrow>
     trace_loop n unwind ops level ctx t = Returned (fold (\<lambda>(pc, k). trace_step level pc k)
       (map (\<lambda>c. (FIRCLSUnwindGetPC ops c, FIRCLSUnwindGetFrameRepeatCount c)) cs) t)"
proof (induction n arbitrary: cs ctx t)
  case (Suc n)
  then show ?case by (cases cs) auto
qed simp

text \<open>The loop returns whenever the unwinder does: the frame limit bounds it.\<close>

lemma trace_loop_fuel:
  assumes "unwind = FIRCLSUnwindNextFrame env images abi ops au maxFrames"
    and "\<And>c. unwind c \<noteq> Out_of_fuel"
  shows "unat maxFrames < n + unat (frameCount ctx) \<Longrightarrow> 0 < n \<Longrightarrow>
    trace_loop n unwind ops level ctx t \<noteq> Out_of_fuel"
proof (induction n arbitrary: ctx t)
  case (Suc n)
  have "trace_loop n unwind ops level c t' \<noteq> Out_of_fuel" if "unwind ctx = Returned (True, c)" for c t'
  proof -
    note f = NextFrame_true [OF that [unfolded assms(1)]]
    have "unat (frameCount c) = unat (frameCount ctx) + 1" using f frame_succ by metis
    moreover have "unat (frameCount ctx) < unat maxFrames" using f by (simp add: word_less_nat_alt)
    ultimately show ?thesis using Suc.prems(1) by (intro Suc.IH) linarith+
  qed
  then show ?case using assms(2) by (auto simp: bind_result_Out_of_fuel)
qed simp

section \<open>A thread that recurses\<close>

text \<open>Once a program counter is suppressed, all of its frames are, and its last repeat count is kept.\<close>

lemma collapse_repeating:
  "rep \<noteq> 0 \<Longrightarrow> collapse rep cnt fs =
     (filter (\<lambda>q. q \<noteq> rep) (map fst fs), rep, last (cnt # map snd (filter (\<lambda>(q, _). q = rep) fs)))"
  by (induction fs arbitrary: cnt) auto

lemma collapse_prefix:
  "\<forall>(pc, n) \<in> set fs. n < FIRCLSUnwindInfiniteRecursionCountThreshold \<Longrightarrow>
     collapse 0 cnt (fs @ gs) = (case collapse 0 cnt gs of (pcs, r) \<Rightarrow> (map fst fs @ pcs, r))"
  by (induction fs) (auto split: prod.splits)

lemma run_counts_append:
  "run_counts prev k (pcs @ qs) = run_counts prev k pcs @
     (if pcs = [] then run_counts prev k qs
      else run_counts (last pcs) (snd (last (run_counts prev k pcs))) qs)"
proof (induction pcs arbitrary: prev k)
  case (Cons p pcs)
  have ne: "run_counts l j pcs = [] \<longleftrightarrow> pcs = []" for l j by (cases pcs) (simp_all add: Let_def)
  show ?case using Cons by (simp add: Let_def ne)
qed simp

lemma map_fst_run_counts [simp]: "map fst (run_counts prev k pcs) = pcs"
  by (induction pcs arbitrary: prev k) (simp_all add: Let_def)

lemma run_counts_replicate:
  "run_counts p k (replicate n p) = map (\<lambda>i. (p, k + of_nat i)) [1..<n + 1]"
proof (induction n arbitrary: k)
  case (Suc n)
  have "[1..<Suc n + 1] = 1 # map Suc [1..<n + 1]" by (simp add: map_Suc_upt upt_conv_Cons)
  with Suc show ?case by (simp add: Let_def comp_def add.assoc)
qed simp

text \<open>
  A run of more than eleven equal program counters is cut to ten and reported with the repeat count
  of its last frame, or of the last frame with that program counter further out; the other frames
  are recorded in full.
\<close>

definition final_count :: "u64 \<Rightarrow> nat \<Rightarrow> u64 list \<Rightarrow> u32" where
  "final_count p n post = last (of_nat (n - 1) # map snd (filter (\<lambda>(q, _). q = p) (run_counts p (of_nat (n - 1)) post)))"

lemma filter_run_counts_absent: "p \<notin> set post \<Longrightarrow> filter (\<lambda>(q, _). q = p) (run_counts prev k post) = []"
  by (induction post arbitrary: prev k) (auto simp: Let_def)

lemma final_count_once: "p \<notin> set post \<Longrightarrow> final_count p n post = of_nat (n - 1)"
  by (simp add: final_count_def filter_run_counts_absent)

lemma collapse_recursion:
  assumes "p \<noteq> 0" and "pre = [] \<or> last pre \<noteq> p" and "11 < n" and "n < 2 ^ 32"
    and "\<forall>(pc, k) \<in> set (run_counts 0 0 pre). k < FIRCLSUnwindInfiniteRecursionCountThreshold"
  shows "collapse 0 0 (run_counts 0 0 (pre @ replicate n p @ post)) =
    (pre @ replicate 10 p @ filter (\<lambda>q. q \<noteq> p) post, p, final_count p n post)"
proof -
  define q k where "q = (if pre = [] then 0 else last pre)"
    and "k = (if pre = [] then 0 else snd (last (run_counts 0 0 pre)))"
  have q: "q \<noteq> p" using assms(1,2) by (auto simp: q_def)
  have "run_counts q k (replicate n p) = (p, 0) # run_counts p 0 (replicate (n - 1) p)"
    using q assms(3) by (cases n) (simp_all add: Let_def)
  also have "\<dots> = map (\<lambda>i. (p, of_nat i)) [0..<n]"
    using assms(3) by (simp add: run_counts_replicate upt_conv_Cons)
  finally have counts: "run_counts q k (replicate n p) = map (\<lambda>i. (p, of_nat i)) [0..<n]" .
  have ne: "replicate n p \<noteq> []" and end_count: "snd (last (map (\<lambda>i. (p, of_nat i :: u32)) [0..<n])) = of_nat (n - 1)"
    using assms(3) by (simp_all add: last_map)
  have all: "run_counts 0 0 (pre @ replicate n p @ post) =
      run_counts 0 0 pre @ map (\<lambda>i. (p, of_nat i)) [0..<n] @ run_counts p (of_nat (n - 1)) post"
    by (cases "pre = []") (use ne end_count counts in \<open>simp_all add: run_counts_append q_def k_def\<close>)
  have upt: "[0..<n] = [0..<10] @ 10 # [11..<n]"
    using assms(3) upt_add_eq_append [of 0 10 "n - 10"] by (simp add: upt_conv_Cons)
  have short: "\<forall>(pc, j) \<in> set (run_counts 0 0 pre @ map (\<lambda>i. (p, of_nat i)) [0..<10]).
      j < FIRCLSUnwindInfiniteRecursionCountThreshold"
    using assms(5) by (auto simp: FIRCLSUnwindInfiniteRecursionCountThreshold_def word_less_nat_alt unat_of_nat)
  let ?tail = "map (\<lambda>i. (p, of_nat i :: u32)) [11..<n]"
  have tail: "map snd ?tail \<noteq> []" "last (map snd ?tail) = of_nat (n - 1)"
    using assms(3) by (simp_all add: last_map)
  have "collapse p 0 (?tail @ run_counts p (of_nat (n - 1)) post) =
      (filter (\<lambda>q. q \<noteq> p) post, p, final_count p n post)"
    using assms(1) tail by (simp add: collapse_repeating final_count_def comp_def)
  then have rest: "collapse 0 0 ((p, 10) # ?tail @ run_counts p (of_nat (n - 1)) post) =
      (filter (\<lambda>q. q \<noteq> p) post, p, final_count p n post)"
    using assms(1) by (simp add: FIRCLSUnwindInfiniteRecursionCountThreshold_def)
  have "map (\<lambda>i. p) [0..<10] = replicate 10 p" by (simp add: map_replicate_const)
  then show ?thesis
    using collapse_prefix [OF short] rest by (simp add: all upt comp_def)
qed

text \<open>Without a long run the trace is the frames themselves.\<close>

lemma collapse_short:
  "\<forall>(pc, k) \<in> set (run_counts 0 0 pcs). k < FIRCLSUnwindInfiniteRecursionCountThreshold \<Longrightarrow>
     collapse 0 0 (run_counts 0 0 pcs) = (pcs, 0, 0)"
  using collapse_prefix [of "run_counts 0 0 pcs" 0 "[]"] by simp

section \<open>The text of a thread\<close>

lemma unat_ucast_32: "unat (ucast (c :: u32) :: u64) = unat c"
proof -
  have "unat c < 2 ^ 32" using unsigned_less [of c] by simp
  then show ?thesis by (simp add: unsigned_ucast_eq take_bit_nat_eq_self)
qed

definition members :: "(string \<times> json) list \<Rightarrow> string list" where
  "members kvs = map (\<lambda>(k, v). member_text k (json_text v)) kvs"

lemma members_simps [simp]:
  "members [] = []" "members ((k, v) # kvs) = member_text k (json_text v) # members kvs"
  "members (kvs @ lvs) = members kvs @ members lvs"
  by (simp_all add: members_def)

definition register_json :: "(string \<times> u64) list \<Rightarrow> (string \<times> json) list" where
  "register_json rs = map (\<lambda>(k, v). (k, JNum (unat v))) rs"

definition thread_json :: "(string \<times> json) list \<Rightarrow> u64 list \<times> u64 \<times> u32 \<Rightarrow> bool \<Rightarrow> json" where
  "thread_json regs tr crashed =
    (case tr of (pcs, rep, cnt) \<Rightarrow>
       JObj ([(''registers'', JObj regs), (''stacktrace'', JArr (map (\<lambda>pc. JNum (unat pc)) pcs))] @
         (if crashed then [(''crashed'', JBool True)] else []) @
         (if rep \<noteq> 0 then [(''repeated_pc'', JNum (unat rep)), (''repeat_count'', JNum (unat cnt))] else [])))"

lemma fold_uint64_entries:
  "writes_items (fold (\<lambda>(k, v). FIRCLSFileWriteHashEntryUint64 k v) rs) (members (register_json rs))"
proof -
  have "writes_items (fold (\<lambda>(k, v). FIRCLSFileWriteHashEntryUint64 k v) rs)
      (concat (map (\<lambda>(k, v). [member_text k (json_text (JNum (unat v)))]) rs))"
    by (rule writes_items_fold) (auto simp del: json_text.simps intro: entry_writers)
  moreover have "concat (map (\<lambda>(k, v). [member_text k (json_text (JNum (unat v)))]) rs) = members (register_json rs)"
    by (induction rs) (auto simp: register_json_def)
  ultimately show ?thesis by simp
qed

text \<open>The text the code writes for a thread, as a function of the file.\<close>

definition thread_writer ::
  "(FIRCLSFile \<Rightarrow> FIRCLSFile) \<Rightarrow> u64 list \<times> u64 \<times> u32 \<Rightarrow> bool \<Rightarrow> FIRCLSFile \<Rightarrow> FIRCLSFile" where
  "thread_writer regs tr crashed f =
    (case tr of (pcs, rep, cnt) \<Rightarrow>
      let f = FIRCLSFileWriteHashStart f;
          f = FIRCLSFileWriteHashStart (FIRCLSFileWriteHashKey ''registers'' f);
          f = FIRCLSFileWriteHashEnd (regs f);
          f = FIRCLSFileWriteArrayStart (FIRCLSFileWriteHashKey ''stacktrace'' f);
          f = FIRCLSFileWriteArrayEnd (fold FIRCLSFileWriteArrayEntryUint64 pcs f);
          f = (if crashed then FIRCLSFileWriteHashEntryBoolean ''crashed'' True f else f);
          f = (if rep \<noteq> 0 then FIRCLSFileWriteHashEntryUint64 ''repeat_count'' (ucast cnt)
                 (FIRCLSFileWriteHashEntryUint64 ''repeated_pc'' rep f) else f)
      in FIRCLSFileWriteHashEnd f)"

lemma pcs_items:
  "writes_items (fold FIRCLSFileWriteArrayEntryUint64 pcs) (map (\<lambda>pc. json_text (JNum (unat pc))) pcs)"
proof -
  have "writes_items (fold FIRCLSFileWriteArrayEntryUint64 pcs) (concat (map (\<lambda>pc. [json_text (JNum (unat pc))]) pcs))"
    by (rule writes_items_fold) (simp del: json_text.simps add: entry_writers)
  then show ?thesis by (simp del: json_text.simps)
qed

lemma optional_items:
  "writes_items w ts \<Longrightarrow> writes_items (\<lambda>f. if b then w f else f) (if b then ts else [])"
  by (simp add: writes_items_id)

lemma thread_writer_items:
  assumes "writes_items regs (members rj)"
  shows "writes_items (thread_writer regs tr crashed) [json_text (thread_json rj tr crashed)]"
proof -
  obtain pcs rep cnt where tr: "tr = (pcs, rep, cnt)" by (cases tr)
  note registers = key_items [OF hash_items [OF assms], of "''registers''"]
  note trace = key_items [OF array_items [OF pcs_items [of pcs]], of "''stacktrace''"]
  note crash = optional_items [OF entry_writers(2) [of "''crashed''" True], of crashed]
  note repeated = optional_items [OF writes_items_comp
      [OF entry_writers(1) [of "''repeated_pc''" rep] entry_writers(1) [of "''repeat_count''" "ucast cnt"]],
      of "rep \<noteq> 0"]
  have uc: "unat (ucast cnt :: u64) = unat cnt" by (rule unat_ucast_32)
  define kvs where "kvs = [(''registers'', JObj rj), (''stacktrace'', JArr (map (\<lambda>pc. JNum (unat pc)) pcs))] @
         (if crashed then [(''crashed'', JBool True)] else []) @
         (if rep \<noteq> 0 then [(''repeated_pc'', JNum (unat rep)), (''repeat_count'', JNum (unat cnt))] else [])"
  have items: "(([member_text ''registers'' (''{'' @ commas (members rj) @ ''}'')] @
        [member_text ''stacktrace'' (''['' @ commas (map (\<lambda>pc. json_text (JNum (unat pc))) pcs) @ '']'')]) @
        (if crashed then [member_text ''crashed'' (json_text (JBool True))] else [])) @
        (if rep \<noteq> 0 then [member_text ''repeated_pc'' (json_text (JNum (unat rep)))] @
           [member_text ''repeat_count'' (json_text (JNum (unat (ucast cnt :: u64))))] else []) = members kvs"
    by (simp add: kvs_def uc members_def [of rj] member_text_def comp_def)
  have printed: "json_text (thread_json rj tr crashed) = ''{'' @ commas (members kvs) @ ''}''"
    by (simp add: thread_json_def tr kvs_def members_def json_object_text [symmetric] del: json_text.simps)
  have "writes_items (thread_writer regs tr crashed) [''{'' @ commas (members kvs) @ ''}'']"
    using hash_items [OF writes_items_comp [OF writes_items_comp [OF writes_items_comp [OF registers trace] crash] repeated]]
    unfolding items by (simp only: thread_writer_def [abs_def] tr prod.case Let_def)
  then show ?thesis by (simp only: printed)
qed

section \<open>The threads section\<close>

text \<open>Thread \<open>t\<close> has the register state \<open>ctx\<close>, and the unwinder delivers the contexts \<open>cs\<close> for it.\<close>

definition unwound ::
  "'c recorder \<Rightarrow> FIRCLSProcess \<Rightarrow> u32 \<Rightarrow> 'c \<times> 'c FIRCLSUnwindContext list \<Rightarrow> bool" where
  "unwound R p t u \<longleftrightarrow>
     FIRCLSProcessGetThreadState (rec_os R) (rec_fake R) p t = Some (True, fst u) \<and>
     (\<exists>ctx'. frames (rec_unwind R) (FIRCLSUnwindInit (fst u)) (snd u) ctx') \<and>
     length (snd u) \<le> unat (rec_maxFrames R)"

definition trace_of :: "'c arch_ops \<Rightarrow> 'c FIRCLSUnwindContext list \<Rightarrow> u64 list \<times> u64 \<times> u32" where
  "trace_of ops cs = collapse 0 0
     (map (\<lambda>c. (FIRCLSUnwindGetPC ops c, FIRCLSUnwindGetFrameRepeatCount c)) cs)"

definition unwound_writer ::
  "'c recorder \<Rightarrow> FIRCLSProcess \<Rightarrow> u32 \<times> 'c \<times> 'c FIRCLSUnwindContext list \<Rightarrow> FIRCLSFile \<Rightarrow> FIRCLSFile" where
  "unwound_writer R p = (\<lambda>(t, ctx, cs). thread_writer (rec_registers R ctx) (trace_of (rec_ops R) cs)
     (FIRCLSProcessIsCrashedThread (rec_os R) p t))"

definition unwound_json ::
  "'c recorder \<Rightarrow> ('c \<Rightarrow> (string \<times> u64) list) \<Rightarrow> FIRCLSProcess \<Rightarrow> u32 \<times> 'c \<times> 'c FIRCLSUnwindContext list \<Rightarrow> json" where
  "unwound_json R regs p = (\<lambda>(t, ctx, cs). thread_json (register_json (regs ctx)) (trace_of (rec_ops R) cs)
     (FIRCLSProcessIsCrashedThread (rec_os R) p t))"

lemma RecordThread_writer:
  assumes "unwound R p t u"
  shows "FIRCLSProcessRecordThread R p t (level, f) = Returned (True, level, unwound_writer R p (t, u) f)"
proof -
  obtain ctx cs where u: "u = (ctx, cs)" by (cases u)
  obtain ctx' where w: "FIRCLSProcessGetThreadState (rec_os R) (rec_fake R) p t = Some (True, ctx)"
    "frames (rec_unwind R) (FIRCLSUnwindInit ctx) cs ctx'" "length cs \<le> unat (rec_maxFrames R)"
    using assms by (auto simp: unwound_def u)
  obtain pcs rep cnt where tr: "trace_of (rec_ops R) cs = (pcs, rep, cnt)" by (cases "trace_of (rec_ops R) cs")
  define fs where "fs = map (\<lambda>c. (FIRCLSUnwindGetPC (rec_ops R) c, FIRCLSUnwindGetFrameRepeatCount c)) cs"
  have col: "collapse 0 0 fs = (pcs, rep, cnt)" using tr by (simp add: trace_of_def fs_def)
  have loop: "\<exists>lvl. trace_loop (Suc (unat (rec_maxFrames R))) (rec_unwind R) (rec_ops R) level (FIRCLSUnwindInit ctx)
      \<lparr>repeatedPC = 0, repeatedPCCount = 0, logLevel = level, trace_file = g\<rparr> =
    Returned \<lparr>repeatedPC = rep, repeatedPCCount = cnt, logLevel = lvl,
      trace_file = fold FIRCLSFileWriteArrayEntryUint64 pcs g\<rparr>" for g
    using trace_loop_frames [OF w(2), of "Suc (unat (rec_maxFrames R))"] w(3)
      fold_trace_step [of level fs "\<lparr>repeatedPC = 0, repeatedPCCount = 0, logLevel = level, trace_file = g\<rparr>"]
    by (simp add: col flip: fs_def del: trace_loop.simps)
  define g where "g = FIRCLSFileWriteArrayStart (FIRCLSFileWriteHashKey ''stacktrace'' (FIRCLSFileWriteHashEnd
      (rec_registers R ctx (FIRCLSFileWriteHashStart (FIRCLSFileWriteHashKey ''registers'' (FIRCLSFileWriteHashStart f))))))"
  obtain lvl where run: "trace_loop (Suc (unat (rec_maxFrames R))) (rec_unwind R) (rec_ops R) level (FIRCLSUnwindInit ctx)
      \<lparr>repeatedPC = 0, repeatedPCCount = 0, logLevel = level, trace_file = g\<rparr> =
    Returned \<lparr>repeatedPC = rep, repeatedPCCount = cnt, logLevel = lvl,
      trace_file = fold FIRCLSFileWriteArrayEntryUint64 pcs g\<rparr>" using loop [of g] by blast
  show ?thesis
    by (simp add: FIRCLSProcessRecordThread_def w(1) Let_def run [unfolded g_def] unwound_writer_def u
        thread_writer_def tr del: trace_loop.simps)
qed

lemma record_threads_writer:
  "list_all2 (unwound R p) ts us \<Longrightarrow>
     record_threads R p (ts @ rest) (level, f) =
       record_threads R p rest (level, fold (unwound_writer R p) (zip ts us) f)"
  by (induction ts us arbitrary: f rule: list_all2_induct) (simp_all add: RecordThread_writer)

section \<open>Interface: an architecture whose registers can be recorded\<close>

locale thread_recorder =
  fixes R :: "'c recorder" and regs :: "'c \<Rightarrow> (string \<times> u64) list"
  assumes registers: "writes_items (rec_registers R ctx) (members (register_json (regs ctx)))"
begin

lemma unwound_items: "writes_items (unwound_writer R p u) [json_text (unwound_json R regs p u)]"
  using thread_writer_items [OF registers]
  by (simp add: unwound_writer_def unwound_json_def split: prod.splits)

lemma threads_items:
  "writes_items (fold (unwound_writer R p) us) (map (\<lambda>u. json_text (unwound_json R regs p u)) us)"
proof -
  have "writes_items (fold (unwound_writer R p) us) (concat (map (\<lambda>u. [json_text (unwound_json R regs p u)]) us))"
    by (rule writes_items_fold) (rule unwound_items)
  then show ?thesis by simp
qed

text \<open>
  The section is one line of JSON, also when the state of a thread cannot be read: the threads up
  to it are recorded and the status is false.
\<close>

lemma RecordAllThreads_text:
  assumes "all_threads p = ts @ rest" and "list_all2 (unwound R p) ts us"
    and "rest = [] \<or> (\<exists>c. FIRCLSProcessGetThreadState (rec_os R) (rec_fake R) p (hd rest) = Some (False, c))"
    and "at_top f"
  shows "\<exists>g. FIRCLSProcessRecordAllThreads R p (level, f) = Returned (rest = [], level, g) \<and> at_top g \<and>
    file_text g = file_text f @
      json_text (JObj [(''threads'', JArr (map (unwound_json R regs p) (zip ts us)))]) @ [CHR 0x0A]"
proof -
  have run: "record_threads R p (ts @ rest) (level, h) =
      Returned (rest = [], level, fold (unwound_writer R p) (zip ts us) h)" for h
    using assms(3) record_threads_writer [OF assms(2), of rest]
    by (cases rest) (auto simp: FIRCLSProcessRecordThread_def)
  note sec = section_text [OF assms(4) array_items [OF threads_items [of p "zip ts us"]], of "''threads''"]
  show ?thesis
    using sec
    by (simp add: FIRCLSProcessRecordAllThreads_def assms(1) run member_text_def comp_def)
qed

end

definition registers_x86 :: "x86_state \<Rightarrow> (string \<times> u64) list" where
  "registers_x86 r =
     [(''rax'', rax r), (''rbx'', rbx r), (''rcx'', rcx r), (''rdx'', rdx r), (''rdi'', rdi r),
      (''rsi'', rsi r), (''rbp'', rbp r), (''rsp'', rsp r), (''r8'', r8 r), (''r9'', r9 r),
      (''r10'', r10 r), (''r11'', r11 r), (''r12'', r12 r), (''r13'', r13 r), (''r14'', r14 r),
      (''r15'', r15 r), (''rip'', rip r), (''rflags'', rflags r), (''cs'', seg_cs r),
      (''fs'', seg_fs r), (''gs'', seg_gs r)]"

definition registers_arm :: "arm_sdk \<Rightarrow> arm_state \<Rightarrow> (string \<times> u64) list" where
  "registers_arm sdk r = map (\<lambda>i. (''x'' @ decimal i, x r ! i)) [0..<29] @
     [(''fp'', FIRCLSThreadContextGetFramePointer_arm sdk r),
      (''sp'', FIRCLSThreadContextGetStackPointer_arm sdk r),
      (''lr'', FIRCLSThreadContextGetLinkRegister_arm sdk r),
      (''pc'', FIRCLSThreadContextGetPC_arm sdk r), (''cpsr'', ucast (cpsr r))]"

lemma RecordThreadRegisters_x86:
  "FIRCLSProcessRecordThreadRegisters_x86 r =
     fold (\<lambda>(k, v). FIRCLSFileWriteHashEntryUint64 k v) (registers_x86 r)"
  by (simp only: FIRCLSProcessRecordThreadRegisters_x86_def registers_x86_def)

lemma RecordThreadRegisters_arm:
  "FIRCLSProcessRecordThreadRegisters_arm sdk r =
     fold (\<lambda>(k, v). FIRCLSFileWriteHashEntryUint64 k v) (registers_arm sdk r)"
  by (simp only: FIRCLSProcessRecordThreadRegisters_arm_def registers_arm_def)

interpretation x86_recorder: thread_recorder
  "R\<lparr>rec_registers := FIRCLSProcessRecordThreadRegisters_x86\<rparr>" registers_x86 for R
  by unfold_locales (simp add: RecordThreadRegisters_x86 fold_uint64_entries)

interpretation arm_recorder: thread_recorder
  "R\<lparr>rec_registers := FIRCLSProcessRecordThreadRegisters_arm sdk\<rparr>" "registers_arm sdk" for R sdk
  by unfold_locales (simp add: RecordThreadRegisters_arm fold_uint64_entries)

lemma plain_decimal: "list_all plain_char (decimal n)"
proof -
  have "plain_char c" if "c \<in> set (decimal n)" for c
  proof -
    have "48 \<le> (of_char c :: nat)" "(of_char c :: nat) \<le> 57" using decimal_digits [OF that] by simp_all
    moreover have "(of_char (CHR 0x22) :: nat) = 34" "(of_char (CHR 0x5C) :: nat) = 92" by simp_all
    ultimately show ?thesis by (auto simp: plain_char_def)
  qed
  then show ?thesis by (simp add: list_all_iff)
qed

lemma thread_json_ok:
  "list_all (\<lambda>(k, v). list_all plain_char k) rs \<Longrightarrow> json_ok (thread_json (register_json rs) tr crashed)"
  by (auto simp: thread_json_def register_json_def list_all_iff plain_char_def split: prod.splits)

lemma registers_arm_plain: "list_all (\<lambda>(k, v). list_all plain_char k) (registers_arm sdk r)"
  using plain_decimal by (simp add: registers_arm_def list_all_iff) (simp add: plain_char_def)

lemma registers_x86_plain: "list_all (\<lambda>(k, v). list_all plain_char k) (registers_x86 r)"
  by (simp add: registers_x86_def plain_char_def)

section \<open>Names\<close>

definition names_json :: "'c process_os \<Rightarrow> FIRCLSProcess \<Rightarrow> json" where
  "names_json os p =
     JObj [(''thread_names'', JArr (map (\<lambda>t. JStr (FIRCLSProcessGetThreadName os t)) (all_threads p)))]"

lemma RecordThreadNames_text:
  assumes "at_top f"
  shows "at_top (FIRCLSProcessRecordThreadNames os p f) \<and>
    file_text (FIRCLSProcessRecordThreadNames os p f) = file_text f @ json_text (names_json os p) @ [CHR 0x0A]"
proof -
  let ?w = "\<lambda>t. FIRCLSFileWriteArrayEntryString (Some (FIRCLSProcessGetThreadName os t))"
  have "writes_items (fold ?w (all_threads p))
      (concat (map (\<lambda>t. [json_text (JStr (FIRCLSProcessGetThreadName os t))]) (all_threads p)))"
    by (rule writes_items_fold)
      (use entry_writers(6) [of "Some s" for s] in \<open>simp add: string_json_def del: json_text.simps\<close>)
  from section_text [OF assms array_items [OF this], of "''thread_names''"] show ?thesis
    by (simp add: FIRCLSProcessRecordThreadNames_def Let_def names_json_def member_text_def comp_def)
qed

lemma quotes_names:
  "even (quotes (json_text (names_json os p))) \<longleftrightarrow>
     even (\<Sum>t\<leftarrow>all_threads p. quotes (FIRCLSProcessGetThreadName os t))"
proof -
  have commas: "even (quotes (commas (map (\<lambda>t. quoted (f t)) ts))) \<longleftrightarrow> even (\<Sum>t\<leftarrow>ts. quotes (f t))"
    for f :: "u32 \<Rightarrow> string" and ts
    by (induction ts) (auto simp: commas_Cons quoted_def)
  then show ?thesis by (simp add: names_json_def comp_def quoted_def)
qed

text \<open>A name with a quote in it breaks the line: no value prints as that text.\<close>

lemma RecordThreadNames_quote:
  assumes "odd (\<Sum>t\<leftarrow>all_threads p. quotes (FIRCLSProcessGetThreadName os t))" and "json_ok j"
  shows "json_text (names_json os p) \<noteq> json_text j"
  using assms quotes_json [of j] quotes_names [of os p] by auto

section \<open>Redaction\<close>

text \<open>A parenthesised group of 36 characters.\<close>

definition uuid_group :: "string \<Rightarrow> string \<Rightarrow> string \<Rightarrow> string \<Rightarrow> bool" where
  "uuid_group s pre u post \<longleftrightarrow>
     s = pre @ CHR ''('' # u @ CHR '')'' # post \<and> length u = 36 \<and> CHR '')'' \<notin> set u"

definition starred :: "string \<Rightarrow> string" where
  "starred u = map (\<lambda>d. if d \<noteq> CHR ''-'' then CHR ''*'' else d) u"

lemma find_close_append: "CHR '')'' \<notin> set u \<Longrightarrow> find_close (u @ CHR '')'' # post) = Some (length u)"
  by (induction u) auto

lemma find_close_split:
  "find_close cs = Some n \<Longrightarrow> \<exists>u post. cs = u @ CHR '')'' # post \<and> CHR '')'' \<notin> set u \<and> length u = n"
proof (induction cs arbitrary: n)
  case (Cons c cs)
  show ?case
  proof (cases "c = CHR '')''")
    case True
    with Cons.prems show ?thesis by (intro exI [of _ "[]"] exI [of _ cs]) auto
  next
    case False
    with Cons.prems obtain m where "find_close cs = Some m" "n = Suc m" by auto
    with Cons.IH [of m] False obtain u post where
      "cs = u @ CHR '')'' # post" "CHR '')'' \<notin> set u" "length u = m" by blast
    with False \<open>n = Suc m\<close> show ?thesis by (intro exI [of _ "c # u"] exI [of _ post]) simp
  qed
qed simp

lemma find_close_Some:
  "find_close cs = Some n \<longleftrightarrow> (\<exists>u post. cs = u @ CHR '')'' # post \<and> CHR '')'' \<notin> set u \<and> length u = n)"
  using find_close_split find_close_append by metis

lemma find_close_None: "find_close cs = None \<longleftrightarrow> CHR '')'' \<notin> set cs"
  by (induction cs) auto

lemma Redact_none: "\<nexists>pre u post. uuid_group s pre u post \<Longrightarrow> FIRCLSRedactUUID s = s"
proof (induction s)
  case (Cons c s)
  have "\<nexists>pre u post. uuid_group s pre u post"
  proof
    assume "\<exists>pre u post. uuid_group s pre u post"
    then obtain pre u post where "uuid_group s pre u post" by blast
    then have "uuid_group (c # s) (c # pre) u post" by (simp add: uuid_group_def)
    with Cons.prems show False by blast
  qed
  then have IH: "FIRCLSRedactUUID s = s" by (rule Cons.IH)
  have "find_close s \<noteq> Some 36" if "c = CHR ''(''"
  proof
    assume "find_close s = Some 36"
    then obtain u post where "s = u @ CHR '')'' # post" "CHR '')'' \<notin> set u" "length u = 36"
      by (auto simp: find_close_Some)
    then have "uuid_group (c # s) [] u post" using that by (simp add: uuid_group_def)
    with Cons.prems show False by blast
  qed
  with IH show ?case by (auto split: option.splits)
qed simp

lemma Redact_first:
  "uuid_group s pre u post \<Longrightarrow> (\<And>pre' u' post'. uuid_group s pre' u' post' \<Longrightarrow> length pre \<le> length pre') \<Longrightarrow>
     FIRCLSRedactUUID s = pre @ CHR ''('' # starred u @ CHR '')'' # post"
proof (induction s arbitrary: pre)
  case (Cons c s)
  show ?case
  proof (cases pre)
    case Nil
    then have s: "c = CHR ''(''" "s = u @ CHR '')'' # post" "length u = 36" "CHR '')'' \<notin> set u"
      using Cons.prems(1) by (auto simp: uuid_group_def)
    then have "find_close s = Some 36" by (auto simp: find_close_Some)
    with s Nil show ?thesis by (simp add: starred_def)
  next
    case (Cons d pre')
    then have s: "d = c" "uuid_group s pre' u post" using Cons.prems(1) by (auto simp: uuid_group_def)
    have "FIRCLSRedactUUID s = pre' @ CHR ''('' # starred u @ CHR '')'' # post"
    proof (rule Cons.IH [OF s(2)])
      fix pre2 u2 post2 assume "uuid_group s pre2 u2 post2"
      then have "uuid_group (c # s) (c # pre2) u2 post2" by (simp add: uuid_group_def)
      from Cons.prems(2) [OF this] show "length pre' \<le> length pre2" by (simp add: Cons)
    qed
    moreover have "CHR '')'' \<in> set s" using s(2) by (simp add: uuid_group_def)
    moreover have "find_close s \<noteq> Some 36" if "c = CHR ''(''"
    proof
      assume "find_close s = Some 36"
      then obtain u2 post2 where "s = u2 @ CHR '')'' # post2" "CHR '')'' \<notin> set u2" "length u2 = 36"
        by (auto simp: find_close_Some)
      then have "uuid_group (c # s) [] u2 post2" using that by (simp add: uuid_group_def)
      from Cons.prems(2) [OF this] show False by (simp add: Cons)
    qed
    ultimately show ?thesis by (auto simp: Cons s(1) find_close_None split: option.splits)
  qed
qed (simp add: uuid_group_def)

end
