(* ===== verification/Cls_Report_Properties.thy ===== *)
theory Cls_Report_Properties
  imports Cls_Process_Facts Cls_Unwind_Properties
begin

text \<open>
  The properties of the crash report: the writer, the threads section, the stack trace of a
  recursion, names, redaction and statistics, each with a witness.
\<close>

section \<open>The threads section\<close>

text \<open>
  C16. On a device that takes every write, recording the threads of an ARM64 process appends exactly
  one line to the report: the JSON text of a well-formed object with one entry per thread, holding
  its registers and its collapsed stack trace. When a thread's state cannot be read the line still
  closes properly after the threads before it, and the status is false.
\<close>

theorem threads_section_is_json:
  fixes R :: "arm_state recorder"
  assumes "R = R0\<lparr>rec_registers := FIRCLSProcessRecordThreadRegisters_arm sdk\<rparr>"
    and "all_threads p = ts @ rest" and "list_all2 (unwound R p) ts us"
    and "rest = [] \<or> (\<exists>c. FIRCLSProcessGetThreadState (rec_os R) (rec_fake R) p (hd rest) = Some (False, c))"
    and "at_top f"
  shows "\<exists>g report. FIRCLSProcessRecordAllThreads R p (level, f) = Returned (rest = [], level, g) \<and> at_top g \<and>
    report = JObj [(''threads'', JArr (map (unwound_json R (registers_arm sdk) p) (zip ts us)))] \<and>
    json_ok report \<and> file_text g = file_text f @ json_text report @ [CHR 0x0A]"
proof -
  define report where "report = JObj [(''threads'', JArr (map (unwound_json R (registers_arm sdk) p) (zip ts us)))]"
  have "json_ok report"
    by (auto simp: report_def unwound_json_def list_all_iff plain_char_def
        intro: thread_json_ok registers_arm_plain split: prod.splits)
  then show ?thesis
    using arm_recorder.RecordAllThreads_text [of p ts rest sdk R0 us f level] assms
    by (auto simp: report_def simp del: json_text.simps json_ok.simps)
qed

text \<open>One suspended thread on a device without unwind information, and an empty report.\<close>

definition demo_os :: "arm_state process_os" where
  "demo_os = \<lparr>MACH_PORT_INDEX = drop_bit 8, mach_task_self = 0x103, mach_thread_self = 0x203,
     task_threads = Some [0x303], thread_suspend = (\<lambda>_. True), thread_resume = (\<lambda>_. True),
     uc_mcontext = (\<lambda>_. None), thread_get_state = (\<lambda>_. (0, demo_arm)), pthread_name = (\<lambda>_. ''main''),
     thread_dispatch_qaddr = (\<lambda>_. None), dispatch_queue_get_label = (\<lambda>_. 0), host_page_size = 0x4000,
     host_statistics = Some (1, 2, 3, 4), task_basic_info = Some (10, 20, (1, 5), (2, 0))\<rparr>"

definition demo_process :: FIRCLSProcess where
  "demo_process = \<lparr>proc_task = 0x103, thisThread = 0x203, crashedThread = 0x403, threads = [0x303],
     threadCount = 1, uapVoid = 0\<rparr>"

definition demo_recorder :: "arm_state recorder" where
  "demo_recorder = \<lparr>rec_os = demo_os, rec_ops = arm64_ops plain_sdk,
     rec_unwind = arm64_next demo_frames no_image demo_abi plain_sdk demo_aabi 100000,
     rec_maxFrames = 100000, rec_registers = FIRCLSProcessRecordThreadRegisters_arm plain_sdk,
     rec_fake = arm_zero\<rparr>"

definition demo_device :: cls_device where
  "demo_device = \<lparr>dev_bytes = [], dev_calls = 0, dev_write = (\<lambda>_ len. int len)\<rparr>"

definition demo_file :: FIRCLSFile where
  "demo_file = \<lparr>device = demo_device, collectionDepth = 0, needComma = False, bufferWrites = True,
     writeBuffer = [], writtenLength = 0\<rparr>"

lemma demo_file_top: "at_top demo_file" "file_ok demo_file" "file_text demo_file = []"
  by (simp_all add: at_top_def file_ok_def demo_file_def demo_device_def healthy_def
      FIRCLSWriteBufferLength_def file_text_def)

lemma demo_threads: "all_threads demo_process = [0x303]"
  using all_threads_ok [of demo_process] by (simp add: process_ok_def demo_process_def)

lemma demo_thread_state:
  "FIRCLSProcessGetThreadState demo_os arm_zero demo_process 0x303 = Some (True, demo_arm)"
proof -
  have "drop_bit 8 0x403 \<noteq> (drop_bit 8 0x303 :: u32)" "drop_bit 8 0x203 \<noteq> (drop_bit 8 0x303 :: u32)"
    by code_simp+
  then show ?thesis
    by (simp add: FIRCLSProcessGetThreadState_def FIRCLSProcessIsCrashedThread_def
        FIRCLSProcessIsCurrentThread_def demo_os_def demo_process_def)
qed

lemma demo_unwound: "\<exists>cs. unwound demo_recorder demo_process 0x303 (demo_arm, cs)"
proof -
  have "\<exists>cs ctx'. frames (arm64_next demo_frames no_image demo_abi plain_sdk demo_aabi 100000) (FIRCLSUnwindInit demo_arm) cs ctx' \<and>
      map (FIRCLSUnwindGetPC (arm64_ops plain_sdk)) cs = [0x4000, 0x5000, 0x6234]"
    using plain_arm64.arm64_thread_frames [OF no_image, of demo_frames demo_arm "[0xAB00000000006234]" 100000 demo_abi demo_aabi]
    by (simp add: arm64_ops_def demo_arm_values demo_frame_record FIRCLSIsValidPointer_def CLS_PTRAUTH_STRIP_def)
  then obtain cs ctx' where cs: "frames (arm64_next demo_frames no_image demo_abi plain_sdk demo_aabi 100000)
      (FIRCLSUnwindInit demo_arm) cs ctx'" and "map (FIRCLSUnwindGetPC (arm64_ops plain_sdk)) cs = [0x4000, 0x5000, 0x6234]"
    by (elim exE conjE)
  then have "length cs = 3" by (metis length_map list.size(3,4) One_nat_def add_Suc_right numeral_3_eq_3 add_0_right)
  with cs demo_thread_state show ?thesis
    by (intro exI [of _ cs]) (auto simp: unwound_def demo_recorder_def)
qed

lemma threads_section_is_json_witness:
  "\<exists>us g report. FIRCLSProcessRecordAllThreads demo_recorder demo_process (1, demo_file) = Returned (True, 1, g) \<and>
     report = JObj [(''threads'', JArr (map (unwound_json demo_recorder (registers_arm plain_sdk) demo_process)
       (zip [0x303] us)))] \<and>
     json_ok report \<and> file_text g = json_text report @ [CHR 0x0A]"
proof -
  obtain cs where "unwound demo_recorder demo_process 0x303 (demo_arm, cs)" using demo_unwound by blast
  then have us: "list_all2 (unwound demo_recorder demo_process) [0x303] [(demo_arm, cs)]" by simp
  have R: "demo_recorder = demo_recorder\<lparr>rec_registers := FIRCLSProcessRecordThreadRegisters_arm plain_sdk\<rparr>"
    by (simp add: demo_recorder_def)
  have ts: "all_threads demo_process = [0x303] @ []" by (simp add: demo_threads)
  show ?thesis
    using threads_section_is_json [OF R ts us disjI1 [OF refl] demo_file_top(1), of 1]
    by (auto simp: demo_file_top(3) simp del: json_text.simps json_ok.simps intro!: exI [of _ "[(demo_arm, cs)]"])
qed

section \<open>Recursion\<close>

text \<open>
  C30. The stack trace of a thread that recurses. The unwinder delivers frames whose program counters
  are some frames, a run of n > 11 frames at one program counter other than 0, and further frames; the
  run starts where it is said to, and no earlier frame repeats ten times or more. Then the trace records
  the frames in front of the run in full, ten of the run, and of the further frames those at other
  program counters. It reports that program counter with a repeat count: n - 1 when it does not come
  back, and otherwise the count of the last frame at which it does.
\<close>

theorem recursion_is_collapsed:
  assumes "unwind = FIRCLSUnwindNextFrame env images abi ops au maxFrames"
    and "frames unwind (FIRCLSUnwindInit r) cs ctx'" and "length cs < fuel"
    and "map (FIRCLSUnwindGetPC ops) cs = pre @ replicate n pc @ post"
    and "pc \<noteq> 0" and "pre = [] \<or> last pre \<noteq> pc" and "11 < n" and "n < 2 ^ 32"
    and "\<forall>(p, k) \<in> set (run_counts 0 0 pre). k < 10"
  shows "\<exists>level' count. trace_loop fuel unwind ops level (FIRCLSUnwindInit r)
      \<lparr>repeatedPC = 0, repeatedPCCount = 0, logLevel = level, trace_file = f\<rparr> =
    Returned \<lparr>repeatedPC = pc, repeatedPCCount = count, logLevel = level',
      trace_file = fold FIRCLSFileWriteArrayEntryUint64 (pre @ replicate 10 pc @ filter (\<lambda>p. p \<noteq> pc) post) f\<rparr> \<and>
    count = last (of_nat (n - 1) # map snd (filter (\<lambda>(p, _). p = pc) (run_counts pc (of_nat (n - 1)) post))) \<and>
    (pc \<notin> set post \<longrightarrow> count = of_nat (n - 1))"
proof -
  let ?t = "\<lparr>repeatedPC = 0, repeatedPCCount = 0, logLevel = level, trace_file = f\<rparr>"
  define fs where "fs = map (\<lambda>c. (FIRCLSUnwindGetPC ops c, FIRCLSUnwindGetFrameRepeatCount c)) cs"
  have "fs = run_counts 0 0 (pre @ replicate n pc @ post)"
    using frames_counts [OF assms(1,2)] assms(4) by (simp add: fs_def FIRCLSUnwindInit_def)
  then have "collapse 0 0 fs = (pre @ replicate 10 pc @ filter (\<lambda>p. p \<noteq> pc) post, pc, final_count pc n post)"
    using collapse_recursion [OF assms(5-8)] assms(9)
    by (simp add: FIRCLSUnwindInfiniteRecursionCountThreshold_def)
  moreover obtain lvl where "fold (\<lambda>(pc, k). trace_step level pc k) fs ?t =
      \<lparr>repeatedPC = fst (snd (collapse 0 0 fs)), repeatedPCCount = snd (snd (collapse 0 0 fs)),
        logLevel = lvl, trace_file = fold FIRCLSFileWriteArrayEntryUint64 (fst (collapse 0 0 fs)) f\<rparr>"
    using fold_trace_step [of level fs ?t] by (simp only: trace.simps) (elim exE)
  ultimately have run: "trace_loop fuel unwind ops level (FIRCLSUnwindInit r) ?t =
      Returned \<lparr>repeatedPC = pc, repeatedPCCount = final_count pc n post, logLevel = lvl, trace_file =
        fold FIRCLSFileWriteArrayEntryUint64 (pre @ replicate 10 pc @ filter (\<lambda>p. p \<noteq> pc) post) f\<rparr>"
    using trace_loop_frames [OF assms(2,3), of ops level ?t]
    by (simp only: fs_def [symmetric] fst_conv snd_conv)
  show ?thesis
    by (intro exI conjI impI, rule run, rule final_count_def) (rule final_count_once)
qed

text \<open>A corrupted stack: the frame record at 0x9000 points to itself.\<close>

definition cyclic_frames :: cls_env where
  "cyclic_frames = env_of [(0x9000, [0, 0x90, 0, 0, 0, 0, 0, 0, 0x34, 0x62, 0, 0, 0, 0, 0, 0])]"

lemma cyclic_record: "read_frame_record cyclic_frames 0x9000 = Some (0x9000, 0x6234)"
proof -
  have "load cyclic_frames 0x9000 16 = Some [0, 0x90, 0, 0, 0, 0, 0, 0, 0x34, 0x62, 0, 0, 0, 0, 0, 0]"
    by (rule bytes_at_load) (simp_all add: cyclic_frames_def env_of_def)
  moreover have "vm_read cyclic_frames a n = load cyclic_frames a n" for a n
    using vm_read_ok_env_of by (simp add: cyclic_frames_def vm_read_ok_def)
  ultimately show ?thesis
    by (simp add: read_frame_record_def FIRCLSReadMemory_def FIRCLSIsValidPointer_def le_word_def)
qed

lemma cyclic_walk:
  "\<exists>cs ctx'. frames (arm64_next cyclic_frames no_image demo_abi plain_sdk demo_aabi 502)
       (FIRCLSUnwindInit (demo_arm\<lparr>raw_fp := 0x9000\<rparr>)) cs ctx' \<and>
     map (FIRCLSUnwindGetPC (arm64_ops plain_sdk)) cs = [0x4000, 0x5000] @ replicate 500 0x6234 @ []"
proof -
  let ?r = "demo_arm\<lparr>raw_fp := 0x9000\<rparr>"
  have v: "GetFramePointer (arm64_ops plain_sdk) ?r = 0x9000" "GetPC (arm64_ops plain_sdk) ?r = 0x4000"
    "GetStackPointer (arm64_ops plain_sdk) ?r = 0x7000" "FIRCLSThreadContextGetLinkRegister_arm plain_sdk ?r = 0x5000"
    by (simp_all add: arm64_ops_def arm_register_defs plain_sdk_def demo_arm_def CLS_PTRAUTH_STRIP_def)
  have s: "CLS_PTRAUTH_STRIP 0x9000 = 0x9000" "CLS_PTRAUTH_STRIP 0x6234 = 0x6234" "CLS_PTRAUTH_STRIP (0x9000 + 16) = 0x9010"
    by (simp_all add: CLS_PTRAUTH_STRIP_def)
  have rec: "read_frame_record cyclic_frames (GetFramePointer (arm64_ops plain_sdk) ?r) = Some (0x9000, 0x6234)"
    by (simp add: v cyclic_record)
  show ?thesis
    using plain_arm64.arm64_cycle_frames [OF no_image rec, where maxFrames = 502 and n = 500]
    by (simp only: v s) (simp add: FIRCLSIsValidPointer_def)
qed

lemma recursion_is_collapsed_witness:
  "\<exists>level'. trace_loop 503 (arm64_next cyclic_frames no_image demo_abi plain_sdk demo_aabi 502) (arm64_ops plain_sdk) 2
      (FIRCLSUnwindInit (demo_arm\<lparr>raw_fp := 0x9000\<rparr>))
      \<lparr>repeatedPC = 0, repeatedPCCount = 0, logLevel = 2, trace_file = demo_file\<rparr> =
    Returned \<lparr>repeatedPC = 0x6234, repeatedPCCount = 499, logLevel = level',
      trace_file = fold FIRCLSFileWriteArrayEntryUint64 ([0x4000, 0x5000] @ replicate 10 0x6234 @ []) demo_file\<rparr>"
proof -
  let ?next = "arm64_next cyclic_frames no_image demo_abi plain_sdk demo_aabi 502"
  let ?init = "FIRCLSUnwindInit (demo_arm\<lparr>raw_fp := 0x9000\<rparr>)"
  obtain cs ctx' where cs: "frames ?next ?init cs ctx'"
    and pcs: "map (FIRCLSUnwindGetPC (arm64_ops plain_sdk)) cs = [0x4000, 0x5000] @ replicate 500 0x6234 @ []"
    using cyclic_walk by (elim exE conjE)
  have len: "length cs < 503" using arg_cong [OF pcs, of length] by simp
  show ?thesis
    using recursion_is_collapsed [OF refl cs len pcs, of 2 demo_file] by simp
qed

section \<open>The writer\<close>

text \<open>
  C22. Writing with retries, on any device whose calls report at most the length they were given:
  a prefix of the text reaches the file, in order and without a byte written twice, and the status
  is true exactly when the whole of a non-empty text did. When in addition every call writes at
  least one byte, a non-empty text of at most 50 bytes is always written completely.
\<close>

theorem write_with_retries:
  assumes "write_bounded d"
  shows "\<exists>ok d' k. FIRCLSFileWriteWithRetries s d = (ok, d') \<and> k \<le> length s \<and>
    dev_bytes d' = dev_bytes d @ take k s \<and> (ok \<longleftrightarrow> k = length s \<and> s \<noteq> []) \<and>
    (write_progress d \<and> s \<noteq> [] \<and> length s \<le> 50 \<longrightarrow> ok)"
proof -
  obtain ok d' where call: "FIRCLSFileWriteWithRetries s d = (ok, d')" by fastforce
  have "ok" if "write_progress d" "s \<noteq> []" "length s \<le> 50"
    using write_block_loop_progress [OF that(1,2), of 50] that(3) call
    by (auto simp: FIRCLSFileWriteWithRetries_def FIRCLSFileLoopWithWriteBlock_def CLS_FILE_MAX_WRITE_ATTEMPTS_def)
  with WriteWithRetries_bytes [OF assms call] call show ?thesis by blast
qed

definition slow_device :: cls_device where
  "slow_device = \<lparr>dev_bytes = ''{'', dev_calls = 0, dev_write = (\<lambda>_ len. int (min 2 len))\<rparr>"

lemma write_with_retries_witness:
  "\<exists>d'. FIRCLSFileWriteWithRetries ''abcde'' slow_device = (True, d') \<and> dev_bytes d' = ''{abcde''"
proof -
  have "write_bounded slow_device" "write_progress slow_device"
    by (simp_all add: write_bounded_def write_progress_def slow_device_def)
  with write_with_retries [of slow_device "''abcde''"] show ?thesis
    by (auto simp: slow_device_def)
qed

text \<open>
  C21. Buffering is invisible: on a device that takes every write, whatever texts are written to a
  file, in pieces of any length, and whether or not it buffers, closing it leaves on the device
  exactly what it had written before followed by these texts in order.
\<close>

theorem buffered_text_in_order:
  assumes "file_ok f"
  shows "\<exists>d. FIRCLSFileClose ok (fold FIRCLSFileWriteToFileDescriptorOrBuffer texts f) = (ok, d) \<and>
    dev_bytes d = dev_bytes (device f) @ writeBuffer f @ concat texts"
proof -
  define g where "g = fold emit texts f"
  have g: "file_ok g" "file_text g = file_text f @ concat texts"
    using report_file.puts [OF assms, of texts] by (simp_all add: g_def)
  then have "dev_bytes (snd (FIRCLSFileClose ok g)) = file_text g" by (simp add: Close_text)
  with g show ?thesis
    by (intro exI [of _ "snd (FIRCLSFileClose ok g)"])
      (simp add: FIRCLSFileClose_def Let_def file_text_def flip: g_def)
qed

lemma buffered_text_in_order_witness:
  "\<exists>d. FIRCLSFileClose True (fold FIRCLSFileWriteToFileDescriptorOrBuffer [''a'', replicate 2500 CHR ''b'', ''c''] demo_file)
     = (True, d) \<and> dev_bytes d = ''a'' @ replicate 2500 CHR ''b'' @ ''c''"
  using buffered_text_in_order [OF demo_file_top(2), of True "[''a'', replicate 2500 CHR ''b'', ''c'']"]
  by (simp add: demo_file_def demo_device_def del: replicate_0)

text \<open>
  A 64-bit number is printed as decimal digits that read back as the number, all twenty of them
  when it needs twenty, and without a leading zero other than the number 0 itself.
\<close>

theorem uint64_text:
  "\<exists>ds. FIRCLSFilePrepareUInt64 n False = ds \<and> read_decimal ds = unat n \<and>
     list_all (\<lambda>c. 48 \<le> (of_char c :: nat) \<and> (of_char c :: nat) \<le> 57) ds \<and>
     (if n = 0 then ds = ''0'' else ds \<noteq> [] \<and> hd ds \<noteq> CHR ''0'')"
proof -
  have "hd (decimal (unat n)) \<noteq> CHR ''0''" if "n \<noteq> 0"
  proof (cases "10 \<le> unat n")
    case False
    moreover have "unat n \<noteq> 0" using that by (simp add: unat_eq_0)
    ultimately have "unat n \<in> {1..<10}" by auto
    then have small: "unat n < 10" "unat n \<noteq> 0" by auto
    have "(of_char (char_of (48 + unat n) :: char) :: nat) = 48 + unat n"
      using small(1) by (simp add: of_char_of mod_less)
    moreover have "(of_char CHR ''0'' :: nat) = 48" by simp
    ultimately have "char_of (48 + unat n) \<noteq> CHR ''0''"
      using small(2) arg_cong [of "char_of (48 + unat n)" "CHR ''0''" "of_char :: char \<Rightarrow> nat"] by linarith
    then show ?thesis using small(1) by (simp add: decimal.simps [of "unat n"])
  qed (rule decimal_leading)
  moreover have "decimal (unat n) \<noteq> []" by (simp add: decimal.simps [of "unat n"])
  moreover have "decimal 0 = ''0''" by code_simp
  ultimately show ?thesis
    using decimal_digits [of _ "unat n"]
    by (simp add: PrepareUInt64_decimal read_decimal_decimal list_all_iff)
qed

section \<open>Names and redaction\<close>

text \<open>
  Thread names are written without escaping: when the names of the threads hold an odd number of
  double quotes, the line that is appended to the report is not what printing any value with plain strings gives.
  With a backslash in front of its quote, a name happens to be an escaped JSON string.
\<close>

theorem thread_name_quote_breaks_json:
  assumes "at_top f" and "process_ok p"
    and "odd (\<Sum>t\<leftarrow>threads p. quotes (FIRCLSProcessGetThreadName os t))"
  shows "\<exists>line. file_text (FIRCLSProcessRecordThreadNames os p f) = file_text f @ line @ [CHR 0x0A] \<and>
    (\<forall>j. json_ok j \<longrightarrow> line \<noteq> json_text j)"
  using RecordThreadNames_text [OF assms(1), where os = os and p = p] RecordThreadNames_quote [of os p]
    assms(2,3) all_threads_ok
  by (intro exI [of _ "json_text (names_json os p)"]) simp

lemma thread_name_quote_breaks_json_example:
  "\<exists>line. file_text (FIRCLSProcessRecordThreadNames (demo_os\<lparr>pthread_name := \<lambda>_. ''disk 3.5\" reader''\<rparr>) demo_process demo_file) =
      line @ [CHR 0x0A] \<and> (\<forall>j. json_ok j \<longrightarrow> line \<noteq> json_text j)"
proof -
  have "process_ok demo_process" by (simp add: process_ok_def demo_process_def)
  moreover have "odd (\<Sum>t\<leftarrow>threads demo_process.
      quotes (FIRCLSProcessGetThreadName (demo_os\<lparr>pthread_name := \<lambda>_. ''disk 3.5\" reader''\<rparr>) t))"
    by (simp add: demo_process_def FIRCLSProcessGetThreadName_def)
  ultimately show ?thesis
    using thread_name_quote_breaks_json [OF demo_file_top(1)] by (simp add: demo_file_top(3))
qed

text \<open>
  Redaction changes at most one group: when the message holds a parenthesised group of 36
  characters, the first one is replaced by stars with its dashes kept, and the rest stays; a message
  without such a group is unchanged. Its length never changes.
\<close>

theorem redacts_first_uuid:
  "length (FIRCLSRedactUUID s) = length s \<and>
   ((\<nexists>pre u post. uuid_group s pre u post) \<longrightarrow> FIRCLSRedactUUID s = s) \<and>
   (\<forall>pre u post. uuid_group s pre u post \<and> (\<forall>pre' u' post'. uuid_group s pre' u' post' \<longrightarrow> length pre \<le> length pre') \<longrightarrow>
      FIRCLSRedactUUID s = pre @ CHR ''('' # starred u @ CHR '')'' # post)"
proof -
  have len: "find_close cs = Some n \<Longrightarrow> n < length cs" for cs n by (auto simp: find_close_Some)
  have "length (FIRCLSRedactUUID s) = length s" by (induction s) (auto dest!: len split: option.splits)
  then show ?thesis by (auto intro!: Redact_none Redact_first)
qed

lemma redacts_first_uuid_example:
  "FIRCLSRedactUUID ''(01234567-89ab-cdef-0123-456789abcdef) at (01234567-89ab-cdef-0123-456789abcdef)'' =
     ''(********-****-****-****-************) at (01234567-89ab-cdef-0123-456789abcdef)''"
proof -
  let ?u = "''01234567-89ab-cdef-0123-456789abcdef''" and ?post = "'' at (01234567-89ab-cdef-0123-456789abcdef)''"
  let ?s = "[] @ CHR ''('' # ?u @ CHR '')'' # ?post"
  have "uuid_group ?s [] ?u ?post" by (simp add: uuid_group_def)
  then have "uuid_group ?s [] ?u ?post \<and>
      (\<forall>pre' u' post'. uuid_group ?s pre' u' post' \<longrightarrow> length ([] :: string) \<le> length pre')" by simp
  from redacts_first_uuid [of ?s, THEN conjunct2, THEN conjunct2, rule_format, OF this]
  have "FIRCLSRedactUUID ?s = [] @ CHR ''('' # starred ?u @ CHR '')'' # ?post" .
  then show ?thesis by (simp only: append_Nil append_Cons starred_def list.map) simp
qed

section \<open>Threads and statistics\<close>

text \<open>
  Suspending the other threads calls the kernel for them in order up to the first that fails and
  for none after it; the status is true exactly when all were suspended. Threads after a failure
  keep running while the report is written.
\<close>

theorem suspend_stops_at_failure:
  assumes "process_ok p"
  shows "\<exists>others. others = filter (\<lambda>t. \<not> FIRCLSProcessIsCurrentThread os p t) (threads p) \<and>
    FIRCLSProcessSuspendAllOtherThreads os p = (list_all (thread_suspend os) others,
      takeWhile (thread_suspend os) others @ take 1 (dropWhile (thread_suspend os) others))"
  using each_other_thread_calls [of os p "thread_suspend os" "all_threads p" "[]"] all_threads_ok [OF assms]
  by (simp add: FIRCLSProcessSuspendAllOtherThreads_def Let_def)

lemma suspend_stops_at_failure_example:
  "FIRCLSProcessSuspendAllOtherThreads (demo_os\<lparr>thread_suspend := \<lambda>t. t \<noteq> 0x503\<rparr>)
     (demo_process\<lparr>threads := [0x303, 0x203, 0x503, 0x603], threadCount := 4\<rparr>) = (False, [0x303, 0x503])"
proof -
  have "drop_bit 8 0x203 \<noteq> (drop_bit 8 0x303 :: u32)" "drop_bit 8 0x203 \<noteq> (drop_bit 8 0x503 :: u32)"
    "drop_bit 8 0x203 \<noteq> (drop_bit 8 0x603 :: u32)" by code_simp+
  then show ?thesis
    using suspend_stops_at_failure [of "demo_process\<lparr>threads := [0x303, 0x203, 0x503, 0x603], threadCount := 4\<rparr>"
        "demo_os\<lparr>thread_suspend := \<lambda>t. t \<noteq> 0x503\<rparr>"]
    by (simp add: process_ok_def FIRCLSProcessIsCurrentThread_def demo_os_def demo_process_def)
qed

text \<open>
  The processor times are converted to microseconds in \<open>int\<close> arithmetic: recording the
  statistics is undefined once the process has used 2148 seconds of user time, and is defined while
  both times stay below 2147 seconds.
\<close>

theorem cpu_time_overflow:
  assumes "FIRCLSProcessGetMemoryUsage os \<noteq> None"
    and "FIRCLSProcessGetInfo os = Some (virtualSize, residentSize, (user, userMicros), (system, systemMicros))"
    and "0 \<le> userMicros \<and> userMicros < 1000000" and "0 \<le> systemMicros \<and> systemMicros < 1000000"
    and "0 \<le> user" and "0 \<le> system"
  shows "(2148 \<le> user \<longrightarrow> FIRCLSProcessRecordStats os f = None) \<and>
    (user < 2147 \<and> system < 2147 \<longrightarrow> FIRCLSProcessRecordStats os f \<noteq> None)"
proof -
  have overflow: "2148 \<le> s \<Longrightarrow> time_in_microseconds (s, m) = None" for s m
    by (simp add: time_in_microseconds_def)
  have fits: "time_in_microseconds (s, m) \<noteq> None" if "0 \<le> s" "s < 2147" "0 \<le> m" "m < 1000000" for s m
    using that by (simp add: time_in_microseconds_def)
  show ?thesis
    using assms fits [of user userMicros] fits [of system systemMicros] overflow [of user userMicros]
    by (auto simp: FIRCLSProcessRecordStats_def Let_def split: option.splits prod.splits)
qed

lemma cpu_time_overflow_example:
  "FIRCLSProcessRecordStats (demo_os\<lparr>task_basic_info := Some (10, 20, (2148, 0), (0, 0))\<rparr>) demo_file = None"
  using cpu_time_overflow [of "demo_os\<lparr>task_basic_info := Some (10, 20, (2148, 0), (0, 0))\<rparr>" 10 20 2148 0 0 0 demo_file]
  by (simp add: demo_os_def FIRCLSProcessGetMemoryUsage_def FIRCLSProcessGetInfo_def)

end
