(* ===== verification/Cls_Allocate.thy ===== *)
theory Cls_Allocate
  imports Cls_Memory
begin

text \<open>
  FIRCLSAllocate.c: the two regions of pages that hold the context of the crash handler, one of
  them write-protected after start-up, and the lock-free bump allocation in them. \<open>mmap\<close>,
  \<open>mprotect\<close>, \<open>calloc\<close> and the page size are parameters, in \<open>alloc_os\<close>.
\<close>

section \<open>Data\<close>

record FIRCLSAllocationRegion =
  region_size :: u64
  region_start :: u64
  region_cursor :: u64

record FIRCLSAllocator =
  alloc_buffer :: u64
  protectionEnabled :: bool
  writeableRegion :: FIRCLSAllocationRegion
  readableRegion :: FIRCLSAllocationRegion

datatype FIRCLSAllocationType = CLS_READONLY | CLS_READWRITE

datatype protection = PROT_NONE | PROT_READ | PROT_READ_WRITE

text \<open>\<open>os_mmap\<close> gives \<open>None\<close> for \<open>MAP_FAILED\<close>; \<open>os_mprotect\<close> tells whether the call returned 0.\<close>

record alloc_os =
  page_size :: u64
  os_mmap :: "u64 \<Rightarrow> u64 option"
  os_mprotect :: "u64 \<Rightarrow> u64 \<Rightarrow> protection \<Rightarrow> bool"
  os_calloc :: "u64 \<Rightarrow> u64"

definition sizeof_FIRCLSAllocator :: u64 where
  "sizeof_FIRCLSAllocator = 64"

section \<open>Allocation\<close>

text \<open>The guard of the loop body, in \<open>size_t\<close> arithmetic.\<close>

definition region_full :: "FIRCLSAllocationRegion \<Rightarrow> u64 \<Rightarrow> u64 \<Rightarrow> bool" where
  "region_full r cur sz \<longleftrightarrow> region_size r < cur - region_start r + sz"

text \<open>One thread on its own: the exchange succeeds the first time.\<close>

definition FIRCLSAllocatorSafeAllocateFromRegion ::
  "alloc_os \<Rightarrow> FIRCLSAllocationRegion \<Rightarrow> u64 \<Rightarrow> u64 \<times> FIRCLSAllocationRegion" where
  "FIRCLSAllocatorSafeAllocateFromRegion os r sz =
    (if region_full r (region_cursor r) sz then (os_calloc os sz, r)
     else (region_cursor r, r\<lparr>region_cursor := region_cursor r + sz\<rparr>))"

definition FIRCLSAllocatorSafeAllocate ::
  "alloc_os \<Rightarrow> FIRCLSAllocator option \<Rightarrow> u64 \<Rightarrow> FIRCLSAllocationType \<Rightarrow> u64 \<times> FIRCLSAllocator option" where
  "FIRCLSAllocatorSafeAllocate os allocator sz type =
    (case allocator of
       None \<Rightarrow> (os_calloc os sz, None)
     | Some a \<Rightarrow>
        if protectionEnabled a then (os_calloc os sz, Some a)
        else (case type of
            CLS_READONLY \<Rightarrow>
              (case FIRCLSAllocatorSafeAllocateFromRegion os (readableRegion a) sz of
                 (ptr, r) \<Rightarrow> (ptr, Some (a\<lparr>readableRegion := r\<rparr>)))
          | CLS_READWRITE \<Rightarrow>
              (case FIRCLSAllocatorSafeAllocateFromRegion os (writeableRegion a) sz of
                 (ptr, r) \<Rightarrow> (ptr, Some (a\<lparr>writeableRegion := r\<rparr>)))))"

section \<open>Creation and protection\<close>

text \<open>Whole pages, at least one for a non-empty request; \<open>None\<close> is the division by a zero page size.\<close>

definition region_pages :: "u64 \<Rightarrow> u64 \<Rightarrow> u64 option" where
  "region_pages space pageSize =
    (if space = 0 then Some 0
     else if pageSize = 0 then None
     else Some ((space div pageSize + 1) * pageSize))"

text \<open>\<open>Some None\<close> is \<open>NULL\<close>, \<open>Some (Some (address, contents))\<close> the allocator that was placed.\<close>

definition map_regions :: "alloc_os \<Rightarrow> u64 \<Rightarrow> u64 \<Rightarrow> u64 \<Rightarrow> (u64 \<times> FIRCLSAllocator) option option" where
  "map_regions os wsize rsize buffer =
    (let pageSize = page_size os;
         wstart = buffer + pageSize;
         rstart = buffer + pageSize + wsize + pageSize;
         writable = \<lparr>region_size = wsize, region_start = wstart, region_cursor = wstart\<rparr>;
         readable = \<lparr>region_size = rsize, region_start = rstart, region_cursor = rstart\<rparr> in
     if \<not> os_mprotect os buffer pageSize PROT_NONE then Some None
     else if \<not> os_mprotect os (buffer + pageSize + wsize) pageSize PROT_NONE then Some None
     else if \<not> os_mprotect os (buffer + pageSize + wsize + pageSize + rsize) pageSize PROT_NONE then Some None
     else (case FIRCLSAllocatorSafeAllocateFromRegion os readable sizeof_FIRCLSAllocator of
         (allocator, readable) \<Rightarrow>
           if allocator = 0 then None
           else Some (Some (allocator, \<lparr>alloc_buffer = buffer, protectionEnabled = False,
                  writeableRegion = writable, readableRegion = readable\<rparr>))))"

definition FIRCLSAllocatorCreate ::
  "alloc_os \<Rightarrow> u64 \<Rightarrow> u64 \<Rightarrow> (u64 \<times> FIRCLSAllocator) option option" where
  "FIRCLSAllocatorCreate os writableSpace readableSpace =
    (let pageSize = page_size os; readableSpace = readableSpace + sizeof_FIRCLSAllocator in
     case region_pages writableSpace pageSize of None \<Rightarrow> None | Some wsize \<Rightarrow>
    (case region_pages readableSpace pageSize of None \<Rightarrow> None | Some rsize \<Rightarrow>
    (case os_mmap os (wsize + rsize + pageSize * 3) of
       None \<Rightarrow> Some None
     | Some buffer \<Rightarrow> map_regions os wsize rsize buffer)))"

text \<open>The address handed over is only tested; the contents are the second component.\<close>

definition FIRCLSAllocatorProtect :: "alloc_os \<Rightarrow> u64 \<Rightarrow> FIRCLSAllocator \<Rightarrow> bool \<times> FIRCLSAllocator" where
  "FIRCLSAllocatorProtect os allocator a =
    (if \<not> FIRCLSIsValidPointer allocator then (False, a)
     else if protectionEnabled a then (True, a)
     else (os_mprotect os (alloc_buffer a + page_size os + region_size (writeableRegion a) + page_size os)
             (region_size (readableRegion a)) PROT_READ,
           a\<lparr>protectionEnabled := True\<rparr>))"

definition FIRCLSAllocatorUnprotect :: "alloc_os \<Rightarrow> FIRCLSAllocator \<Rightarrow> bool \<times> FIRCLSAllocator" where
  "FIRCLSAllocatorUnprotect os a =
    (let bufferSize = alloc_buffer a + page_size os + region_size (writeableRegion a) + page_size os +
           region_size (readableRegion a) + page_size os;
         enabled = (\<not> os_mprotect os (alloc_buffer a) bufferSize PROT_READ_WRITE)
     in (enabled, a\<lparr>protectionEnabled := enabled\<rparr>))"

section \<open>Concurrent allocation\<close>

text \<open>
  Several threads in \<open>FIRCLSAllocatorSafeAllocateFromRegion\<close> on one region. A thread is about to
  read the cursor, has read it, holds a block, or has fallen back to \<open>calloc\<close>. A failed exchange
  goes back to the read.
\<close>

datatype thread_pc = Reading | Swapping u64 | Holding u64 | Fallen_back

record alloc_state =
  shared :: FIRCLSAllocationRegion
  pcs :: "nat \<Rightarrow> thread_pc"

inductive alloc_step :: "(nat \<Rightarrow> u64) \<Rightarrow> alloc_state \<Rightarrow> alloc_state \<Rightarrow> bool" for request where
  step_read: "pcs s i = Reading \<Longrightarrow> \<not> region_full (shared s) (region_cursor (shared s)) (request i) \<Longrightarrow>
     alloc_step request s (s\<lparr>pcs := (pcs s)(i := Swapping (region_cursor (shared s)))\<rparr>)"
| step_full: "pcs s i = Reading \<Longrightarrow> region_full (shared s) (region_cursor (shared s)) (request i) \<Longrightarrow>
     alloc_step request s (s\<lparr>pcs := (pcs s)(i := Fallen_back)\<rparr>)"
| step_swap: "pcs s i = Swapping c \<Longrightarrow> region_cursor (shared s) = c \<Longrightarrow>
     alloc_step request s (s\<lparr>shared := (shared s)\<lparr>region_cursor := c + request i\<rparr>,
       pcs := (pcs s)(i := Holding c)\<rparr>)"
| step_retry: "pcs s i = Swapping c \<Longrightarrow> region_cursor (shared s) \<noteq> c \<Longrightarrow>
     alloc_step request s (s\<lparr>pcs := (pcs s)(i := Reading)\<rparr>)"

inductive_cases alloc_stepE: "alloc_step request s s'"

inductive alloc_reachable :: "(nat \<Rightarrow> u64) \<Rightarrow> FIRCLSAllocationRegion \<Rightarrow> alloc_state \<Rightarrow> bool"
  for request region where
  reach_init: "alloc_reachable request region \<lparr>shared = region, pcs = \<lambda>_. Reading\<rparr>"
| reach_step: "alloc_reachable request region s \<Longrightarrow> alloc_step request s s' \<Longrightarrow>
     alloc_reachable request region s'"

section \<open>Blocks stay apart\<close>

text \<open>A region that lies in the address space, with its cursor inside.\<close>

definition region_ok :: "FIRCLSAllocationRegion \<Rightarrow> bool" where
  "region_ok r \<longleftrightarrow> unat (region_start r) + unat (region_size r) < 2 ^ 64 \<and>
     unat (region_start r) \<le> unat (region_cursor r) \<and>
     unat (region_cursor r) \<le> unat (region_start r) + unat (region_size r)"

text \<open>A request that cannot overflow the guard.\<close>

definition request_ok :: "FIRCLSAllocationRegion \<Rightarrow> u64 \<Rightarrow> bool" where
  "request_ok r sz \<longleftrightarrow> unat (region_size r) + unat sz < 2 ^ 64"

lemma region_full_iff:
  assumes "region_ok r" and "request_ok r sz"
  shows "region_full r (region_cursor r) sz \<longleftrightarrow>
    unat (region_start r) + unat (region_size r) < unat (region_cursor r) + unat sz"
proof -
  have sub: "unat (region_cursor r - region_start r) = unat (region_cursor r) - unat (region_start r)"
    using assms(1) by (simp add: region_ok_def unat_sub word_le_nat_alt)
  have "unat (region_cursor r - region_start r) + unat sz < 2 ^ 64"
    using assms unfolding sub region_ok_def request_ok_def by linarith
  then have "unat (region_cursor r - region_start r + sz) = unat (region_cursor r) - unat (region_start r) + unat sz"
    using unat_add_no_wrap [of "region_cursor r - region_start r" "unat sz"] sub by simp
  with assms(1) show ?thesis by (simp add: region_full_def word_less_nat_alt region_ok_def) linarith
qed

lemma bump_unat:
  assumes "region_ok r" and "request_ok r sz" and "\<not> region_full r (region_cursor r) sz"
  shows "unat (region_cursor r + sz) = unat (region_cursor r) + unat sz"
    and "unat (region_cursor r) + unat sz \<le> unat (region_start r) + unat (region_size r)"
proof -
  show le: "unat (region_cursor r) + unat sz \<le> unat (region_start r) + unat (region_size r)"
    using assms region_full_iff by auto
  with assms(1) show "unat (region_cursor r + sz) = unat (region_cursor r) + unat sz"
    using unat_add_no_wrap [of "region_cursor r" "unat sz"] by (simp add: region_ok_def)
qed

definition alloc_inv :: "(nat \<Rightarrow> u64) \<Rightarrow> FIRCLSAllocationRegion \<Rightarrow> alloc_state \<Rightarrow> bool" where
  "alloc_inv request region s \<longleftrightarrow>
     (\<exists>c. shared s = region\<lparr>region_cursor := c\<rparr>) \<and> region_ok (shared s) \<and>
     unat (region_cursor region) \<le> unat (region_cursor (shared s)) \<and>
     (\<forall>i c. pcs s i = Swapping c \<longrightarrow> \<not> region_full region c (request i) \<and> unat c \<le> unat (region_cursor (shared s))) \<and>
     (\<forall>i c. pcs s i = Holding c \<longrightarrow> unat (region_cursor region) \<le> unat c \<and>
        unat c + unat (request i) \<le> unat (region_cursor (shared s))) \<and>
     (\<forall>i j c d. i \<noteq> j \<longrightarrow> pcs s i = Holding c \<longrightarrow> pcs s j = Holding d \<longrightarrow>
        unat c + unat (request i) \<le> unat d \<or> unat d + unat (request j) \<le> unat c)"

lemma alloc_inv_init:
  "region_ok region \<Longrightarrow> alloc_inv request region \<lparr>shared = region, pcs = \<lambda>_. Reading\<rparr>"
  by (auto simp: alloc_inv_def intro: exI [of _ "region_cursor region"])

lemma region_full_cursor [simp]: "region_full (r\<lparr>region_cursor := c\<rparr>) d sz = region_full r d sz"
  by (simp add: region_full_def)

lemma alloc_inv_step:
  assumes inv: "alloc_inv request region s" and req: "\<And>i. request_ok region (request i)"
    and "alloc_step request s s'"
  shows "alloc_inv request region s'"
  using assms(3)
proof cases
  case (step_swap i c)
  obtain c0 where sh: "shared s = region\<lparr>region_cursor := c0\<rparr>" using inv by (auto simp: alloc_inv_def)
  have ok: "region_ok (shared s)" using inv by (simp add: alloc_inv_def)
  have req': "request_ok (shared s) (request i)" using req [of i] by (simp add: sh request_ok_def)
  have "\<not> region_full region c (request i)" using inv step_swap by (simp add: alloc_inv_def)
  then have "\<not> region_full (shared s) (region_cursor (shared s)) (request i)"
    using step_swap(3) by (simp add: sh)
  note bump = bump_unat [OF ok req' this, unfolded step_swap(3)]
  have ok': "region_ok ((shared s)\<lparr>region_cursor := c + request i\<rparr>)"
    using ok bump step_swap(3) by (simp add: region_ok_def)
  have swapping: "\<not> region_full region d (request j) \<and> unat d \<le> unat c" if "pcs s j = Swapping d" for j d
    using inv that step_swap(3) by (auto simp: alloc_inv_def)
  have old: "unat (region_cursor region) \<le> unat d \<and> unat d + unat (request j) \<le> unat c"
    if "pcs s j = Holding d" for j d
    using inv that step_swap(3) by (auto simp: alloc_inv_def)
  have apart: "unat d + unat (request j) \<le> unat e \<or> unat e + unat (request k) \<le> unat d"
    if "j \<noteq> k" "pcs s j = Holding d" "pcs s k = Holding e" for j k d e
    using inv that unfolding alloc_inv_def by blast
  have low: "unat (region_cursor region) \<le> unat c"
    using inv step_swap(3) by (simp add: alloc_inv_def)
  show ?thesis
    unfolding alloc_inv_def
  proof (intro conjI)
    show "\<exists>d. shared s' = region\<lparr>region_cursor := d\<rparr>" by (auto simp: step_swap(1) sh)
    show "region_ok (shared s')" using ok' by (simp add: step_swap(1))
    show "unat (region_cursor region) \<le> unat (region_cursor (shared s'))"
      using low bump(1) by (simp add: step_swap(1))
    show "\<forall>j d. pcs s' j = Swapping d \<longrightarrow>
        \<not> region_full region d (request j) \<and> unat d \<le> unat (region_cursor (shared s'))"
      using bump(1) by (auto simp: step_swap(1) dest!: swapping split: if_splits)
    show "\<forall>j d. pcs s' j = Holding d \<longrightarrow> unat (region_cursor region) \<le> unat d \<and>
        unat d + unat (request j) \<le> unat (region_cursor (shared s'))"
      using low bump(1) by (auto simp: step_swap(1) dest!: old split: if_splits)
    show "\<forall>j k d e. j \<noteq> k \<longrightarrow> pcs s' j = Holding d \<longrightarrow> pcs s' k = Holding e \<longrightarrow>
        unat d + unat (request j) \<le> unat e \<or> unat e + unat (request k) \<le> unat d"
      using old apart by (simp add: step_swap(1))
  qed
next
  case (step_read i)
  with inv show ?thesis by (auto simp: alloc_inv_def region_full_def)
next
  case (step_full i)
  with inv show ?thesis by (auto simp: alloc_inv_def)
next
  case (step_retry i c)
  with inv show ?thesis by (auto simp: alloc_inv_def)
qed

lemma alloc_reachable_inv:
  "alloc_reachable request region s \<Longrightarrow> region_ok region \<Longrightarrow> (\<And>i. request_ok region (request i)) \<Longrightarrow>
     alloc_inv request region s"
  by (induction rule: alloc_reachable.induct) (auto intro: alloc_inv_init alloc_inv_step)

section \<open>The layout\<close>

lemma region_pages_size:
  assumes "region_pages space pageSize = Some sz" and "pageSize \<noteq> 0" and "unat space + unat pageSize < 2 ^ 64"
  shows "unat pageSize dvd unat sz \<and> (0 < unat space \<longrightarrow> unat space < unat sz) \<and>
    unat sz \<le> unat space + unat pageSize"
proof (cases "space = 0")
  case False
  define q where "q = unat space div unat pageSize"
  have page: "0 < unat pageSize" using assms(2) by (simp add: unat_gt_0)
  have le: "q * unat pageSize \<le> unat space" by (simp add: q_def)
  have gt: "unat space < (q + 1) * unat pageSize"
    using page dividend_less_div_times [of "unat pageSize" "unat space"] by (simp add: q_def algebra_simps)
  have "sz = (space div pageSize + 1) * pageSize" using assms(1,2) False by (simp add: region_pages_def)
  also have "space div pageSize = of_nat q" by (simp add: q_def flip: unat_div)
  finally have "sz = of_nat ((q + 1) * unat pageSize)" by (simp add: algebra_simps)
  moreover have bound: "(q + 1) * unat pageSize < 2 ^ 64" using le assms(3) by simp
  ultimately have "unat sz = (q + 1) * unat pageSize" by (simp only: unat_of_nat_u64)
  with gt le show ?thesis by simp
qed (use assms(1) in \<open>simp add: region_pages_def\<close>)

lemma unat_add_u64: "unat a + unat b < 2 ^ 64 \<Longrightarrow> unat (a + b :: u64) = unat a + unat b"
  using unat_add_no_wrap [of a "unat b"] by simp

text \<open>Guard page, writable region, guard page, readable region, guard page.\<close>

definition layout_ok :: "u64 \<Rightarrow> FIRCLSAllocator \<Rightarrow> bool" where
  "layout_ok page a \<longleftrightarrow>
     unat (region_start (writeableRegion a)) = unat (alloc_buffer a) + unat page \<and>
     unat (region_start (readableRegion a)) =
       unat (region_start (writeableRegion a)) + unat (region_size (writeableRegion a)) + unat page \<and>
     unat (region_start (readableRegion a)) + unat (region_size (readableRegion a)) + unat page < 2 ^ 64 \<and>
     unat page dvd unat (region_size (writeableRegion a)) \<and> unat page dvd unat (region_size (readableRegion a)) \<and>
     region_ok (writeableRegion a) \<and> region_ok (readableRegion a)"

text \<open>The addresses of the three guard pages, for the sizes of the two regions.\<close>

definition guard_pages :: "u64 \<Rightarrow> u64 \<Rightarrow> u64 \<Rightarrow> u64 \<Rightarrow> u64 list" where
  "guard_pages page wsize rsize buffer =
     [buffer, buffer + page + wsize, buffer + page + wsize + page + rsize]"

lemma map_regions_guards:
  "\<not> list_all (\<lambda>g. os_mprotect os g (page_size os) PROT_NONE) (guard_pages (page_size os) wsize rsize buffer) \<Longrightarrow>
     map_regions os wsize rsize buffer = Some None"
  by (auto simp: map_regions_def guard_pages_def Let_def)

lemma map_regions_layout:
  assumes page: "page = page_size os" "page \<noteq> 0"
    and fits: "unat buffer + unat wsize + unat rsize + 3 * unat page < 2 ^ 64"
    and whole: "unat page dvd unat wsize" "unat page dvd unat rsize" "64 < unat rsize"
    and guards: "list_all (\<lambda>g. os_mprotect os g page PROT_NONE) (guard_pages page wsize rsize buffer)"
  shows "\<exists>allocator a. map_regions os wsize rsize buffer = Some (Some (allocator, a)) \<and> alloc_buffer a = buffer \<and>
    region_size (writeableRegion a) = wsize \<and> region_size (readableRegion a) = rsize \<and> layout_ok page a \<and>
    allocator = region_start (readableRegion a) \<and> \<not> protectionEnabled a \<and>
    region_cursor (readableRegion a) = allocator + 64 \<and>
    region_cursor (writeableRegion a) = region_start (writeableRegion a)"
proof -
  define rstart where "rstart = buffer + page + wsize + page"
  define r where "r = \<lparr>region_size = rsize, region_start = rstart, region_cursor = rstart + 64\<rparr>"
  define w where "w = \<lparr>region_size = wsize, region_start = buffer + page, region_cursor = buffer + page\<rparr>"
  have start1: "unat (buffer + page) = unat buffer + unat page"
    using fits by (intro unat_add_u64) linarith
  moreover have start2: "unat (buffer + page + wsize) = unat (buffer + page) + unat wsize"
    using fits start1 by (intro unat_add_u64) linarith
  ultimately have rs: "unat rstart = unat buffer + unat page + unat wsize + unat page"
    using fits unat_add_u64 [of "buffer + page + wsize" page] unfolding rstart_def by linarith
  have "0 < unat page" using page(2) by (simp add: unat_gt_0)
  then have nz: "rstart \<noteq> 0" using rs by (metis add_gr_0 neq0_conv unat_0)
  have "FIRCLSAllocatorSafeAllocateFromRegion os \<lparr>region_size = rsize, region_start = rstart, region_cursor = rstart\<rparr> 64 =
      (rstart, r)"
    using whole(3) by (simp add: FIRCLSAllocatorSafeAllocateFromRegion_def region_full_def word_less_nat_alt r_def)
  then have "map_regions os wsize rsize buffer = Some (Some (rstart, \<lparr>alloc_buffer = buffer, protectionEnabled = False,
      writeableRegion = w, readableRegion = r\<rparr>))"
    using guards nz unfolding map_regions_def guard_pages_def Let_def sizeof_FIRCLSAllocator_def page(1) [symmetric]
      rstart_def [symmetric] w_def by simp
  moreover have "unat (rstart + 64) = unat rstart + 64"
    using unat_add_no_wrap [of rstart 64] fits whole(3) rs by simp
  then have "layout_ok page \<lparr>alloc_buffer = buffer, protectionEnabled = False, writeableRegion = w, readableRegion = r\<rparr>"
    using whole fits start1 rs by (simp add: layout_ok_def region_ok_def r_def w_def)
  ultimately show ?thesis by (auto simp: r_def w_def)
qed

lemma region_pages_total: "pageSize \<noteq> 0 \<Longrightarrow> \<exists>sz. region_pages space pageSize = Some sz"
  by (simp add: region_pages_def)

lemma Create_regions:
  assumes "page = page_size os" "page \<noteq> 0"
    and "unat writableSpace + unat readableSpace + 64 + 5 * unat page < 2 ^ 64"
  shows "\<exists>wsize rsize. region_pages writableSpace page = Some wsize \<and>
    region_pages (readableSpace + 64) page = Some rsize \<and>
    unat page dvd unat wsize \<and> unat writableSpace \<le> unat wsize \<and>
    unat page dvd unat rsize \<and> unat readableSpace + 64 < unat rsize \<and>
    unat (wsize + rsize + page * 3) = unat wsize + unat rsize + 3 * unat page"
proof -
  have rs: "unat (readableSpace + 64) = unat readableSpace + 64"
    using assms(3) unat_add_no_wrap [of readableSpace 64] by simp
  obtain wsize rsize where c: "region_pages writableSpace page = Some wsize"
    "region_pages (readableSpace + 64) page = Some rsize"
    using region_pages_total [OF assms(2)] by blast
  note w = region_pages_size [OF c(1) assms(2)] and r = region_pages_size [OF c(2) assms(2), unfolded rs]
  have w': "unat page dvd unat wsize" "unat writableSpace \<le> unat wsize" "unat wsize \<le> unat writableSpace + unat page"
    using w assms(3) by auto
  have r': "unat page dvd unat rsize" "unat readableSpace + 64 < unat rsize"
    "unat rsize \<le> unat readableSpace + 64 + unat page"
    using r assms(3) by auto
  have total: "unat wsize + unat rsize + 3 * unat page < 2 ^ 64"
    using w'(3) r'(3) assms(3) by linarith
  have "unat (page * 3) = 3 * unat page"
    using total by (simp add: unat_word_ariths)
  then have "unat (wsize + rsize + page * 3) = unat wsize + unat rsize + 3 * unat page"
    using total by (simp add: unat_add_u64)
  with c w' r' show ?thesis by blast
qed

end
