(* ===== verification/Cls_Allocate_Properties.thy ===== *)
theory Cls_Allocate_Properties
  imports Cls_Allocate
begin

text \<open>
  The properties of the crash handler's allocator: concurrent allocations, the layout of the
  regions, protection, and what an oversized request does.
\<close>

section \<open>Concurrent allocation\<close>

text \<open>The value a thread has read is the cursor still, or another thread holds the block there.\<close>

lemma alloc_reachable_progress:
  "alloc_reachable request region s \<Longrightarrow>
     \<forall>i c. pcs s i = Swapping c \<longrightarrow> c = region_cursor (shared s) \<or> (\<exists>j. j \<noteq> i \<and> pcs s j = Holding c)"
proof (induction rule: alloc_reachable.induct)
  case (reach_step s s')
  note IH = reach_step.IH
  from reach_step.hyps(2) show ?case
  proof cases
    case (step_read j)
    with IH show ?thesis by (auto; metis thread_pc.distinct(3))
  next
    case (step_full j)
    with IH show ?thesis by (auto; metis thread_pc.distinct(3))
  next
    case (step_swap j c)
    with IH show ?thesis by (auto; metis thread_pc.distinct(7))
  next
    case (step_retry j c)
    with IH show ?thesis by (auto; metis thread_pc.distinct(7))
  qed
qed simp

text \<open>
  C18. Any number of threads allocating from one region with requests that cannot overflow the
  bounds check, in any interleaving: every block handed out lies inside the region past its initial
  cursor, the blocks of two threads never overlap, and a thread's exchange only fails when another
  thread holds the block that starts at the cursor it had read.
\<close>

theorem concurrent_blocks_disjoint:
  assumes "alloc_reachable request region s" and "region_ok region" and "\<And>i. request_ok region (request i)"
  shows "(\<forall>i c. pcs s i = Holding c \<longrightarrow> unat (region_cursor region) \<le> unat c \<and>
      unat c + unat (request i) \<le> unat (region_start region) + unat (region_size region)) \<and>
    (\<forall>i j c d. i \<noteq> j \<and> pcs s i = Holding c \<and> pcs s j = Holding d \<longrightarrow>
      unat c + unat (request i) \<le> unat d \<or> unat d + unat (request j) \<le> unat c) \<and>
    (\<forall>i c. pcs s i = Swapping c \<and> region_cursor (shared s) \<noteq> c \<longrightarrow> (\<exists>j. j \<noteq> i \<and> pcs s j = Holding c))"
proof -
  note inv = alloc_reachable_inv [OF assms]
  have bound: "unat (region_cursor (shared s)) \<le> unat (region_start region) + unat (region_size region)"
    using inv by (auto simp: alloc_inv_def region_ok_def)
  have "\<forall>i c. pcs s i = Holding c \<longrightarrow> unat (region_cursor region) \<le> unat c \<and>
      unat c + unat (request i) \<le> unat (region_cursor (shared s))"
    using inv unfolding alloc_inv_def by blast
  moreover have "\<forall>i j c d. i \<noteq> j \<and> pcs s i = Holding c \<and> pcs s j = Holding d \<longrightarrow>
      unat c + unat (request i) \<le> unat d \<or> unat d + unat (request j) \<le> unat c"
    using inv unfolding alloc_inv_def by blast
  ultimately show ?thesis
    using bound alloc_reachable_progress [OF assms(1)] by (intro conjI allI impI) (blast intro: le_trans)+
qed

definition demo_region :: FIRCLSAllocationRegion where
  "demo_region = \<lparr>region_size = 0x40, region_start = 0x1000, region_cursor = 0x1000\<rparr>"

definition demo_race :: alloc_state where
  "demo_race = \<lparr>shared = demo_region\<lparr>region_cursor := 0x1010\<rparr>,
     pcs = (\<lambda>_. Reading)(0 := Holding 0x1000, 1 := Swapping 0x1000)\<rparr>"

lemma demo_race_reachable: "alloc_reachable (\<lambda>_. 16) demo_region demo_race"
proof -
  let ?s0 = "\<lparr>shared = demo_region, pcs = \<lambda>_. Reading\<rparr>"
  let ?s1 = "\<lparr>shared = demo_region, pcs = (\<lambda>_. Reading)(0 := Swapping 0x1000)\<rparr>"
  let ?s2 = "\<lparr>shared = demo_region, pcs = (\<lambda>_. Reading)(0 := Swapping 0x1000, 1 := Swapping 0x1000)\<rparr>"
  have s1: "alloc_step (\<lambda>_. 16) ?s0 ?s1"
    using step_read [of ?s0 0 "\<lambda>_. 16"] by (simp add: demo_region_def region_full_def)
  have s2: "alloc_step (\<lambda>_. 16) ?s1 ?s2"
    using step_read [of ?s1 1 "\<lambda>_. 16"] by (simp add: demo_region_def region_full_def)
  have s3: "alloc_step (\<lambda>_. 16) ?s2 demo_race"
    using step_swap [of ?s2 0 "0x1000" "\<lambda>_. 16"]
    by (simp add: demo_region_def demo_race_def fun_upd_twist)
  show ?thesis by (rule reach_step [OF reach_step [OF reach_step [OF reach_init s1] s2] s3])
qed

lemma concurrent_blocks_disjoint_witness:
  "region_cursor (shared demo_race) \<noteq> 0x1000 \<and> pcs demo_race 1 = Swapping 0x1000 \<and>
     (\<exists>j. j \<noteq> 1 \<and> pcs demo_race j = Holding 0x1000)"
proof -
  have "region_ok demo_region" "request_ok demo_region 16"
    by (simp_all add: region_ok_def request_ok_def demo_region_def)
  moreover have "region_cursor (shared demo_race) \<noteq> 0x1000" "pcs demo_race 1 = Swapping 0x1000"
    by (simp_all add: demo_race_def)
  ultimately show ?thesis
    using concurrent_blocks_disjoint [OF demo_race_reachable] by blast
qed

section \<open>Layout and protection\<close>

text \<open>
  C35. Creating the allocator, for requests whose sizes with the pages around them do not overflow 64
  bits, on a kernel whose mappings lie inside the address space. It maps a guard page, the writable
  region, a guard page, the read-only region and a guard page, in this order and without overlap. When
  the mapping fails, or the kernel refuses to make any one of the three guard pages inaccessible, the
  result is \<open>NULL\<close>; otherwise there is an allocator, and the kernel has taken the protection of all three. Both
  regions are whole pages and large enough for what was asked for, the allocator's own record is the
  first block of the read-only region, and the rest of both regions is free.
\<close>

theorem allocator_layout:
  assumes "page = page_size os" and "page \<noteq> 0"
    and "unat writableSpace + unat readableSpace + 64 + 5 * unat page < 2 ^ 64"
    and "\<forall>len buffer. os_mmap os len = Some buffer \<longrightarrow> unat buffer + unat len < 2 ^ 64"
  shows "\<exists>wsize rsize. region_pages writableSpace page = Some wsize \<and>
    region_pages (readableSpace + 64) page = Some rsize \<and>
    unat writableSpace \<le> unat wsize \<and> unat readableSpace + 64 < unat rsize \<and>
    (case os_mmap os (wsize + rsize + page * 3) of
       None \<Rightarrow> FIRCLSAllocatorCreate os writableSpace readableSpace = Some None
     | Some buffer \<Rightarrow>
        if list_all (\<lambda>g. os_mprotect os g page PROT_NONE) (guard_pages page wsize rsize buffer)
        then \<exists>allocator a. FIRCLSAllocatorCreate os writableSpace readableSpace = Some (Some (allocator, a)) \<and>
          alloc_buffer a = buffer \<and> region_size (writeableRegion a) = wsize \<and> region_size (readableRegion a) = rsize \<and>
          layout_ok page a \<and> allocator = region_start (readableRegion a) \<and> \<not> protectionEnabled a \<and>
          region_cursor (readableRegion a) = allocator + 64 \<and>
          region_cursor (writeableRegion a) = region_start (writeableRegion a)
        else FIRCLSAllocatorCreate os writableSpace readableSpace = Some None)"
proof -
  obtain wsize rsize where sz: "region_pages writableSpace page = Some wsize"
    "region_pages (readableSpace + 64) page = Some rsize" "unat page dvd unat wsize"
    "unat writableSpace \<le> unat wsize" "unat page dvd unat rsize" "unat readableSpace + 64 < unat rsize"
    "unat (wsize + rsize + page * 3) = unat wsize + unat rsize + 3 * unat page"
    using Create_regions [OF assms(1-3)] by (elim exE conjE)
  note create = FIRCLSAllocatorCreate_def [of os writableSpace readableSpace, unfolded Let_def sizeof_FIRCLSAllocator_def,
    folded assms(1), unfolded sz(1,2) option.case]
  show ?thesis
  proof (cases "os_mmap os (wsize + rsize + page * 3)")
    case (Some buffer)
    have run: "FIRCLSAllocatorCreate os writableSpace readableSpace = map_regions os wsize rsize buffer"
      using create by (simp add: Some)
    have fits: "unat buffer + unat wsize + unat rsize + 3 * unat page < 2 ^ 64"
      using assms(4) [rule_format, OF Some] by (simp add: sz(7))
    have big: "64 < unat rsize" using sz(6) by simp
    show ?thesis
      using map_regions_guards [of os wsize rsize buffer, folded assms(1)]
        map_regions_layout [OF assms(1,2) fits sz(3,5) big]
      by (intro exI [of _ wsize] exI [of _ rsize] conjI sz(1,2,4,6)) (simp add: Some run)
  qed (intro exI [of _ wsize] exI [of _ rsize] conjI sz(1,2,4,6), simp add: create)
qed

definition demo_alloc_os :: alloc_os where
  "demo_alloc_os = \<lparr>page_size = 0x4000, os_mmap = (\<lambda>len. if len = 0x14000 then Some 0x100000 else None),
     os_mprotect = (\<lambda>_ _ _. True), os_calloc = (\<lambda>_. 0x700000)\<rparr>"

definition demo_allocator :: FIRCLSAllocator where
  "demo_allocator = \<lparr>alloc_buffer = 0x100000, protectionEnabled = False,
     writeableRegion = \<lparr>region_size = 0x4000, region_start = 0x104000, region_cursor = 0x104000\<rparr>,
     readableRegion = \<lparr>region_size = 0x4000, region_start = 0x10C000, region_cursor = 0x10C040\<rparr>\<rparr>"

lemma demo_create: "FIRCLSAllocatorCreate demo_alloc_os 100 200 = Some (Some (0x10C000, demo_allocator))"
proof -
  have "(\<lambda>r. r = Some (Some (0x10C000, demo_allocator))) (FIRCLSAllocatorCreate demo_alloc_os 100 200)"
    by code_simp
  then show ?thesis by simp
qed

text \<open>A kernel that refuses to protect the page between the two regions.\<close>

definition demo_unguarded_os :: alloc_os where
  "demo_unguarded_os = demo_alloc_os\<lparr>os_mprotect := \<lambda>a _ _. a \<noteq> 0x108000\<rparr>"

lemma allocator_layout_witness:
  "FIRCLSAllocatorCreate demo_alloc_os 100 200 = Some (Some (0x10C000, demo_allocator)) \<and>
     layout_ok 0x4000 demo_allocator \<and> FIRCLSAllocatorCreate demo_unguarded_os 100 200 = Some None"
proof -
  have pages: "region_pages 100 0x4000 = Some 0x4000" "region_pages (200 + 64) 0x4000 = Some 0x4000"
    by (simp_all add: region_pages_def)
  have "unat (0x100000 :: u64) + unat (0x14000 :: u64) < 2 ^ 64" by simp
  then have mapped: "\<forall>len buffer. os_mmap demo_alloc_os len = Some buffer \<longrightarrow> unat buffer + unat len < 2 ^ 64"
    "\<forall>len buffer. os_mmap demo_unguarded_os len = Some buffer \<longrightarrow> unat buffer + unat len < 2 ^ 64"
    by (auto simp: demo_alloc_os_def demo_unguarded_os_def split: if_splits)
  have guards: "guard_pages 0x4000 0x4000 0x4000 0x100000 = [0x100000, 0x108000, 0x110000 :: u64]"
    by (simp add: guard_pages_def)
  have mmap: "os_mmap demo_alloc_os 0x14000 = Some 0x100000" "os_mmap demo_unguarded_os 0x14000 = Some 0x100000"
    by (simp_all add: demo_alloc_os_def demo_unguarded_os_def)
  have page: "0x4000 = page_size demo_alloc_os" "0x4000 = page_size demo_unguarded_os"
    by (simp_all add: demo_alloc_os_def demo_unguarded_os_def)
  have small: "(0x4000 :: u64) \<noteq> 0" "unat (100 :: u64) + unat (200 :: u64) + 64 + 5 * unat (0x4000 :: u64) < 2 ^ 64"
    by simp_all
  have total: "(0x4000 + 0x4000 + 0x4000 * 3 :: u64) = 0x14000" by simp
  have prot: "os_mprotect demo_alloc_os a n pr" "os_mprotect demo_unguarded_os a n pr \<longleftrightarrow> a \<noteq> 0x108000" for a n pr
    by (simp_all add: demo_alloc_os_def demo_unguarded_os_def)
  have "layout_ok 0x4000 demo_allocator"
    using allocator_layout [OF page(1) small mapped(1)]
    unfolding pages option.inject by (elim exE conjE) (simp add: total mmap guards prot demo_create)
  moreover have "FIRCLSAllocatorCreate demo_unguarded_os 100 200 = Some None"
    using allocator_layout [OF page(2) small mapped(2)]
    unfolding pages option.inject by (elim exE conjE) (simp add: total mmap guards prot)
  ultimately show ?thesis using demo_create by simp
qed

text \<open>
  C36. Protection. Protecting an unprotected allocator makes exactly the read-only region read-only,
  reports the kernel's answer, and marks the allocator protected whatever that answer is; from then
  on every allocation of either type comes from \<open>calloc\<close> and leaves the allocator as it is.
  Unprotecting gives back the truth value of the mark, so it reports false when it succeeded.
\<close>

theorem protected_allocator:
  assumes "FIRCLSIsValidPointer allocator" and "layout_ok (page_size os) a" and "\<not> protectionEnabled a"
  shows "\<exists>ok b. FIRCLSAllocatorProtect os allocator a = (ok, b) \<and>
    (ok \<longleftrightarrow> os_mprotect os (region_start (readableRegion a)) (region_size (readableRegion a)) PROT_READ) \<and>
    FIRCLSAllocatorProtect os allocator b = (True, b) \<and>
    (\<forall>sz type. FIRCLSAllocatorSafeAllocate os (Some b) sz type = (os_calloc os sz, Some b)) \<and>
    (\<forall>failed c. FIRCLSAllocatorUnprotect os b = (failed, c) \<longrightarrow>
      c = a\<lparr>protectionEnabled := failed\<rparr> \<and>
      (\<not> failed \<longleftrightarrow> os_mprotect os (alloc_buffer a) (alloc_buffer a +
         (region_start (readableRegion a) + region_size (readableRegion a) + page_size os - alloc_buffer a)) PROT_READ_WRITE))"
proof -
  let ?page = "page_size os" and ?w = "writeableRegion a" and ?r = "readableRegion a"
  have layout: "unat (region_start ?w) = unat (alloc_buffer a) + unat ?page"
    "unat (region_start ?r) = unat (region_start ?w) + unat (region_size ?w) + unat ?page"
    using assms(2) by (simp_all add: layout_ok_def)
  have "region_start ?w = alloc_buffer a + ?page"
    using arg_cong [OF layout(1), of "of_nat :: nat \<Rightarrow> u64"] by simp
  then have start: "region_start ?r = alloc_buffer a + ?page + region_size ?w + ?page"
    using arg_cong [OF layout(2), of "of_nat :: nat \<Rightarrow> u64"] by simp
  show ?thesis
    using assms(1,3)
    by (auto simp: FIRCLSAllocatorProtect_def FIRCLSAllocatorSafeAllocate_def FIRCLSAllocatorUnprotect_def
        Let_def start algebra_simps)
qed

lemma protected_allocator_witness:
  "FIRCLSAllocatorUnprotect demo_alloc_os (snd (FIRCLSAllocatorProtect demo_alloc_os 0x10C000 demo_allocator)) =
     (False, demo_allocator)"
proof -
  have "layout_ok (page_size demo_alloc_os) demo_allocator"
    by (simp add: layout_ok_def region_ok_def demo_alloc_os_def demo_allocator_def dvd_def)
  then obtain ok b where b: "FIRCLSAllocatorProtect demo_alloc_os 0x10C000 demo_allocator = (ok, b)"
    "\<forall>failed c. FIRCLSAllocatorUnprotect demo_alloc_os b = (failed, c) \<longrightarrow>
      c = demo_allocator\<lparr>protectionEnabled := failed\<rparr> \<and> \<not> failed"
    using protected_allocator [of "0x10C000" demo_alloc_os demo_allocator]
    by (auto simp: FIRCLSIsValidPointer_def demo_alloc_os_def demo_allocator_def)
  obtain failed c where "FIRCLSAllocatorUnprotect demo_alloc_os b = (failed, c)" by fastforce
  with b show ?thesis by (simp add: demo_allocator_def)
qed

text \<open>
  The bounds check wraps around: a request whose size is the distance back from the cursor to
  the start of the region, modulo the word size, is granted. It moves the cursor to the start of the
  region, so that the next request of any size up to the region's gets memory that was handed out before.
\<close>

theorem oversized_request_rewinds:
  assumes "sz = region_start r - region_cursor r" and "next \<le> region_size r"
  shows "\<exists>r'. FIRCLSAllocatorSafeAllocateFromRegion os r sz = (region_cursor r, r') \<and>
    FIRCLSAllocatorSafeAllocateFromRegion os r' next =
      (region_start r, r\<lparr>region_cursor := region_start r + next\<rparr>)"
  using assms by (auto simp: FIRCLSAllocatorSafeAllocateFromRegion_def region_full_def)

lemma oversized_request_rewinds_example:
  "\<exists>r'. FIRCLSAllocatorSafeAllocateFromRegion demo_alloc_os (demo_region\<lparr>region_cursor := 0x1010\<rparr>) (- 0x10) =
      (0x1010, r') \<and>
    fst (FIRCLSAllocatorSafeAllocateFromRegion demo_alloc_os r' 8) = 0x1000"
  using oversized_request_rewinds [of "- 0x10" "demo_region\<lparr>region_cursor := 0x1010\<rparr>" 8 demo_alloc_os]
  by (simp add: demo_region_def) (elim exE conjE, intro exI conjI, assumption, simp)

end
