(* ===== verification/Cls_Handler.thy ===== *)
theory Cls_Handler
  imports Cls_Process_Facts
begin

text \<open>
  What the crash handlers share: the crash flag of FIRCLSContext.m, opening a report file
  (FIRCLSFile.m), the marker file (FIRCLSCrashedMarkerFile.c), and \<open>FIRCLSHandler\<close> of
  FIRCLSHandler.m, which writes the whole report. Opening a descriptor is a parameter.
\<close>

section \<open>The context\<close>

text \<open>\<open>readonly\<close> and \<open>writable\<close> of \<open>_firclsContext\<close>, as far as the handlers use them.\<close>

record cls_context =
  readonly_ptr :: u64
  initialized :: bool
  crashOccurred :: bool
  internal_level :: int

definition FIRCLSContextIsInitialized :: "cls_context \<Rightarrow> bool" where
  "FIRCLSContextIsInitialized c = (if \<not> FIRCLSIsValidPointer (readonly_ptr c) then False else initialized c)"

definition FIRCLSContextHasCrashed :: "cls_context \<Rightarrow> bool" where
  "FIRCLSContextHasCrashed c = (if \<not> FIRCLSContextIsInitialized c then False else crashOccurred c)"

definition FIRCLSContextMarkHasCrashed :: "cls_context \<Rightarrow> cls_context" where
  "FIRCLSContextMarkHasCrashed c = (if \<not> FIRCLSContextIsInitialized c then c else c\<lparr>crashOccurred := True\<rparr>)"

definition FIRCLSContextMarkAndCheckIfCrashed :: "cls_context \<Rightarrow> bool \<times> cls_context" where
  "FIRCLSContextMarkAndCheckIfCrashed c =
    (if \<not> FIRCLSContextIsInitialized c then (False, c)
     else if crashOccurred c then (True, c)
     else (False, c\<lparr>crashOccurred := True\<rparr>))"

text \<open>
  Several crashing threads in \<open>FIRCLSContextMarkAndCheckIfCrashed\<close> of an initialised context, one
  memory access at a time: a thread is about to read the flag, has read it clear and is about to set
  it, has returned false and records its crash, or has returned true and aborts.
\<close>

datatype mark_pc = Checking | Marking | Recording | Aborting

record mark_state =
  crash_flag :: bool
  mark_pcs :: "nat \<Rightarrow> mark_pc"

inductive mark_step :: "mark_state \<Rightarrow> mark_state \<Rightarrow> bool" where
  mark_clear: "mark_pcs s i = Checking \<Longrightarrow> \<not> crash_flag s \<Longrightarrow> mark_step s (s\<lparr>mark_pcs := (mark_pcs s)(i := Marking)\<rparr>)"
| mark_seen: "mark_pcs s i = Checking \<Longrightarrow> crash_flag s \<Longrightarrow> mark_step s (s\<lparr>mark_pcs := (mark_pcs s)(i := Aborting)\<rparr>)"
| mark_set: "mark_pcs s i = Marking \<Longrightarrow>
     mark_step s (s\<lparr>crash_flag := True, mark_pcs := (mark_pcs s)(i := Recording)\<rparr>)"

inductive_cases mark_stepE: "mark_step s s'"

inductive mark_reachable :: "mark_state \<Rightarrow> bool" where
  mark_init: "mark_reachable \<lparr>crash_flag = False, mark_pcs = \<lambda>_. Checking\<rparr>"
| mark_more: "mark_reachable s \<Longrightarrow> mark_step s s' \<Longrightarrow> mark_reachable s'"

section \<open>Opening files\<close>

text \<open>
  \<open>open_fd\<close> is \<open>open(2)\<close>, with the append flag; \<open>None\<close> is a negative descriptor. \<open>file_size\<close> is the
  attribute query, \<open>None\<close> its error; \<open>write_buffer_ok\<close> tells whether the buffer can be allocated.
\<close>

record file_os =
  open_fd :: "string \<Rightarrow> bool \<Rightarrow> cls_device option"
  file_size :: "string \<Rightarrow> int option"
  write_buffer_ok :: bool
  close_ok :: bool
  unlink_result :: "string \<Rightarrow> bool \<times> bool"

definition FIRCLSFileInit :: "file_os \<Rightarrow> string \<Rightarrow> cls_device option \<Rightarrow> bool \<Rightarrow> bool \<Rightarrow> FIRCLSFile option" where
  "FIRCLSFileInit os path fd appendMode buffered =
    (case fd of
       None \<Rightarrow> None
     | Some d \<Rightarrow>
        if buffered \<and> \<not> write_buffer_ok os then None
        else let f = \<lparr>device = d, collectionDepth = 0, needComma = False, bufferWrites = buffered,
                      writeBuffer = [], writtenLength = 0\<rparr> in
          if \<not> appendMode then Some f
          else (case file_size os path of
                  None \<Rightarrow> None
                | Some currentFileSize \<Rightarrow>
                   Some (if 0 < currentFileSize then f\<lparr>writtenLength := currentFileSize\<rparr> else f)))"

definition FIRCLSFileInitWithPathMode :: "file_os \<Rightarrow> string option \<Rightarrow> bool \<Rightarrow> bool \<Rightarrow> FIRCLSFile option" where
  "FIRCLSFileInitWithPathMode os path appendMode buffered =
    (case path of
       None \<Rightarrow> None
     | Some p \<Rightarrow> FIRCLSFileInit os p (open_fd os p appendMode) appendMode buffered)"

definition FIRCLSFileInitWithPath :: "file_os \<Rightarrow> string option \<Rightarrow> bool \<Rightarrow> FIRCLSFile option" where
  "FIRCLSFileInitWithPath os path buffered = FIRCLSFileInitWithPathMode os path True buffered"

text \<open>\<open>unlink_result\<close> gives whether \<open>unlink(2)\<close> succeeded and, if not, whether the error is \<open>ENOENT\<close>.\<close>

definition FIRCLSUnlinkIfExists :: "file_os \<Rightarrow> string \<Rightarrow> bool" where
  "FIRCLSUnlinkIfExists os path =
    (case unlink_result os path of (ok, enoent) \<Rightarrow> if \<not> ok then (if \<not> enoent then False else True) else True)"

text \<open>Whether the marker file exists afterwards.\<close>

definition FIRCLSCreateCrashedMarkerFile :: "file_os \<Rightarrow> string option \<Rightarrow> bool" where
  "FIRCLSCreateCrashedMarkerFile os path =
    (case FIRCLSFileInitWithPath os path False of
       None \<Rightarrow> False
     | Some f \<Rightarrow> (case FIRCLSFileClose (close_ok os) f of (_, d) \<Rightarrow> True))"

text \<open>A file opened for appending starts with what the device holds, at the top level.\<close>

lemma InitWithPath_top:
  assumes "FIRCLSFileInitWithPath os (Some path) buffered = Some f" and "open_fd os path True = Some d" and "healthy d"
  shows "at_top f \<and> file_text f = dev_bytes d"
  using assms
  by (auto simp: FIRCLSFileInitWithPath_def FIRCLSFileInitWithPathMode_def FIRCLSFileInit_def Let_def at_top_def
      file_ok_def file_text_def FIRCLSWriteBufferLength_def split: if_splits option.splits)

lemma InitWithPath_opens:
  "open_fd os path True = Some d \<Longrightarrow> file_size os path = Some n \<Longrightarrow>
     \<exists>f. FIRCLSFileInitWithPath os (Some path) False = Some f"
  by (simp add: FIRCLSFileInitWithPath_def FIRCLSFileInitWithPathMode_def FIRCLSFileInit_def Let_def)

section \<open>The report\<close>

definition FIRCLSHostWriteDiskUsage :: "FIRCLSFile \<Rightarrow> FIRCLSFile" where
  "FIRCLSHostWriteDiskUsage f =
    (let f = FIRCLSFileWriteHashStart (FIRCLSFileWriteSectionStart ''storage'' f);
         f = FIRCLSFileWriteHashEntryUint64 ''free'' 0 f;
         f = FIRCLSFileWriteHashEntryUint64 ''total'' 0 f
     in FIRCLSFileWriteSectionEnd (FIRCLSFileWriteHashEnd f))"

text \<open>What the report is written from: memory, images, the architecture, files.\<close>

record 'c crash_build =
  cb_env :: cls_env
  cb_images :: cls_images
  cb_recorder :: "'c recorder"
  cb_selector :: "'c \<Rightarrow> string loop_result"
  cb_files :: file_os
  cb_marker :: "string option"

text \<open>The threads the kernel was asked to suspend and to resume, and whether the marker exists.\<close>

record handler_effects =
  suspended :: "u32 list"
  resumed :: "u32 list"
  marker :: bool

definition FIRCLSHandler ::
  "'c crash_build \<Rightarrow> u32 \<Rightarrow> u64 \<Rightarrow> int \<times> FIRCLSFile \<Rightarrow> (handler_effects \<times> int \<times> FIRCLSFile) loop_result" where
  "FIRCLSHandler B crashed uap st =
    (let R = cb_recorder B; os = rec_os R; env = cb_env B;
         (_, p) = FIRCLSProcessInit os crashed uap;
         (_, stopped) = FIRCLSProcessSuspendAllOtherThreads os p in
     bind_result (FIRCLSProcessRecordAllThreads R p st) (\<lambda>(_, level, f).
     bind_result (FIRCLSProcessRecordRuntimeInfo env (cb_images B) R (cb_selector B) p f) (\<lambda>f.
     bind_result (FIRCLSProcessRecordDispatchQueueNames env os p f) (\<lambda>f.
     let f = FIRCLSProcessRecordThreadNames os p f in
     bind_result (from_option (FIRCLSProcessRecordStats os f)) (\<lambda>f.
     let f = FIRCLSHostWriteDiskUsage f;
         made = FIRCLSCreateCrashedMarkerFile (cb_files B) (cb_marker B);
         (_, continued) = FIRCLSProcessResumeAllOtherThreads os p
     in Returned (\<lparr>suspended = stopped, resumed = continued, marker = made\<rparr>, level, f))))))"

section \<open>The sections after the threads\<close>

definition appends_line :: "FIRCLSFile \<Rightarrow> json \<Rightarrow> FIRCLSFile \<Rightarrow> bool" where
  "appends_line f j g \<longleftrightarrow> at_top g \<and> file_text g = file_text f @ json_text j @ [CHR 0x0A]"

lemma section_line:
  assumes "at_top f" and "writes_items w [json_text j]"
  shows "appends_line f (JObj [(name, j)]) (FIRCLSFileWriteSectionEnd (w (FIRCLSFileWriteSectionStart name f)))"
  using section_text [OF assms, of name] by (simp add: appends_line_def member_text_def)

text \<open>An object of numbers, as several sections have.\<close>

lemma uint64_object:
  "writes_items (\<lambda>f. FIRCLSFileWriteHashEnd (fold (\<lambda>(k, v). FIRCLSFileWriteHashEntryUint64 k v) kvs
       (FIRCLSFileWriteHashStart f))) [json_text (JObj (map (\<lambda>(k, v). (k, JNum (unat v))) kvs))]"
proof -
  have "writes_items (fold (\<lambda>(k, v). FIRCLSFileWriteHashEntryUint64 k v) kvs)
      (concat (map (\<lambda>(k, v). [member_text k (json_text (JNum (unat v)))]) kvs))"
    by (rule writes_items_fold) (use entry_writers(1) in \<open>auto simp del: json_text.simps\<close>)
  from hash_items [OF this] show ?thesis
    by (simp add: comp_def case_prod_unfold member_text_def concat_map_singleton)
qed

lemma DiskUsage_line:
  "at_top f \<Longrightarrow> appends_line f (JObj [(''storage'', JObj [(''free'', JNum 0), (''total'', JNum 0)])])
     (FIRCLSHostWriteDiskUsage f)"
  using section_line [OF _ uint64_object [of "[(''free'', 0), (''total'', 0)]"], of f "''storage''"]
  by (simp add: FIRCLSHostWriteDiskUsage_def)

definition stats_json :: "'c process_os \<Rightarrow> json option" where
  "stats_json os =
    (case (FIRCLSProcessGetMemoryUsage os, FIRCLSProcessGetInfo os) of
       (Some (active, inactive, wired, freeMem), Some (virtualSize, residentSize, user, system)) \<Rightarrow>
         (case (time_in_microseconds user, time_in_microseconds system) of
            (Some u, Some s) \<Rightarrow> Some (JObj [(''process_stats'', JObj (map (\<lambda>(k, v). (k, JNum (unat v)))
              [(''active'', active), (''inactive'', inactive), (''wired'', wired), (''freeMem'', freeMem),
               (''free_mem'', freeMem), (''virtual'', virtualSize), (''resident'', active),
               (''user_time'', u), (''sys_time'', s)]))])
          | _ \<Rightarrow> None)
     | _ \<Rightarrow> None)"

lemma RecordStats_line:
  assumes "at_top f" and "stats_json os = Some j"
  shows "\<exists>g. FIRCLSProcessRecordStats os f = Some g \<and> appends_line f j g"
proof -
  obtain active inactive wired freeMem where m: "FIRCLSProcessGetMemoryUsage os = Some (active, inactive, wired, freeMem)"
    using assms(2) by (auto simp: stats_json_def split: option.splits)
  obtain virtualSize residentSize user system where
    i: "FIRCLSProcessGetInfo os = Some (virtualSize, residentSize, user, system)"
    using assms(2) m by (auto simp: stats_json_def split: option.splits)
  obtain u s where t: "time_in_microseconds user = Some u" "time_in_microseconds system = Some s"
    using assms(2) m i by (auto simp: stats_json_def split: option.splits)
  have "FIRCLSProcessRecordStats os f = Some (FIRCLSFileWriteSectionEnd (FIRCLSFileWriteHashEnd
      (fold (\<lambda>(k, v). FIRCLSFileWriteHashEntryUint64 k v)
        [(''active'', active), (''inactive'', inactive), (''wired'', wired), (''freeMem'', freeMem),
         (''free_mem'', freeMem), (''virtual'', virtualSize), (''resident'', active),
         (''user_time'', u), (''sys_time'', s)]
        (FIRCLSFileWriteHashStart (FIRCLSFileWriteSectionStart ''process_stats'' f)))))"
    by (simp add: FIRCLSProcessRecordStats_def m i t Let_def)
  moreover have "j = JObj [(''process_stats'', JObj (map (\<lambda>(k, v). (k, JNum (unat v)))
        [(''active'', active), (''inactive'', inactive), (''wired'', wired), (''freeMem'', freeMem),
         (''free_mem'', freeMem), (''virtual'', virtualSize), (''resident'', active),
         (''user_time'', u), (''sys_time'', s)]))]"
    using assms(2) m i t by (simp add: stats_json_def)
  ultimately show ?thesis
    using section_line [OF assms(1) uint64_object [of "[(''active'', active), (''inactive'', inactive),
         (''wired'', wired), (''freeMem'', freeMem), (''free_mem'', freeMem), (''virtual'', virtualSize),
         (''resident'', active), (''user_time'', u), (''sys_time'', s)]"], of "''process_stats''"]
    by (simp del: json_text.simps)
qed

definition queue_label :: "string option \<Rightarrow> string" where
  "queue_label nm = (case nm of None \<Rightarrow> [] | Some s \<Rightarrow> s)"

lemma record_queue_names_fold:
  "list_all2 (\<lambda>t nm. FIRCLSProcessGetThreadDispatchQueueName env os t = Returned nm) ts nms \<Longrightarrow>
     record_queue_names env os ts f =
       Returned (fold (\<lambda>nm. FIRCLSFileWriteArrayEntryString (Some (queue_label nm))) nms f)"
  by (induction ts nms arbitrary: f rule: list_all2_induct) (simp_all add: queue_label_def)

lemma string_items:
  "writes_items (\<lambda>f. FIRCLSFileWriteArrayEnd (fold (\<lambda>s. FIRCLSFileWriteArrayEntryString (Some (g s))) ss
       (FIRCLSFileWriteArrayStart f))) [json_text (JArr (map (\<lambda>s. JStr (g s)) ss))]"
proof -
  have "writes_items (fold (\<lambda>s. FIRCLSFileWriteArrayEntryString (Some (g s))) ss)
      (concat (map (\<lambda>s. [json_text (JStr (g s))]) ss))"
    by (rule writes_items_fold) (use entry_writers(6) [of "Some s" for s] in \<open>simp add: string_json_def del: json_text.simps\<close>)
  from array_items [OF this] show ?thesis by (simp add: comp_def)
qed

definition queues_json :: "string option list \<Rightarrow> json" where
  "queues_json nms = JObj [(''dispatch_queue_names'', JArr (map (\<lambda>nm. JStr (queue_label nm)) nms))]"

lemma RecordDispatchQueueNames_line:
  assumes "at_top f"
    and "list_all2 (\<lambda>t nm. FIRCLSProcessGetThreadDispatchQueueName env os t = Returned nm) (all_threads p) nms"
  shows "\<exists>g. FIRCLSProcessRecordDispatchQueueNames env os p f = Returned g \<and> appends_line f (queues_json nms) g"
  using section_line [OF assms(1) string_items [of queue_label nms], of "''dispatch_queue_names''"]
  by (simp add: FIRCLSProcessRecordDispatchQueueNames_def record_queue_names_fold [OF assms(2)] queues_json_def
      del: json_text.simps)

lemma RecordThreadNames_line:
  "at_top f \<Longrightarrow> appends_line f (names_json os p) (FIRCLSProcessRecordThreadNames os p f)"
  using RecordThreadNames_text by (simp add: appends_line_def)

text \<open>The messages that one image contributes: none or one.\<close>

definition crash_entry :: "cls_env \<Rightarrow> FIRCLSBinaryImageRuntimeNode \<Rightarrow> string list \<Rightarrow> bool" where
  "crash_entry env node ms \<longleftrightarrow> (\<forall>f. record_crash_info env node f =
     Returned (fold (\<lambda>s. FIRCLSFileWriteArrayEntryHexEncodedString (Some s)) ms f))"

definition crash_messages :: "cls_env \<Rightarrow> cls_images \<Rightarrow> string list \<Rightarrow> bool" where
  "crash_messages env images ms \<longleftrightarrow>
     (\<exists>mss. ms = concat mss \<and> list_all2 (crash_entry env) (case nodes images of None \<Rightarrow> [] | Some ns \<Rightarrow> ns) mss)"

lemma crash_info_loop_fold:
  "list_all2 (crash_entry env) ns mss \<Longrightarrow> crash_info_loop env ns f =
     Returned (fold (\<lambda>s. FIRCLSFileWriteArrayEntryHexEncodedString (Some s)) (concat mss) f)"
  by (induction ns mss arbitrary: f rule: list_all2_induct) (simp_all add: crash_entry_def)

lemma RecordCrashInfo_fold:
  "crash_messages env images ms \<Longrightarrow> FIRCLSProcessRecordCrashInfo env images f =
     Returned (fold (\<lambda>s. FIRCLSFileWriteArrayEntryHexEncodedString (Some s)) ms f)"
  by (auto simp: crash_messages_def FIRCLSProcessRecordCrashInfo_def crash_info_loop_fold split: option.splits)

definition runtime_json :: "string \<Rightarrow> string list \<Rightarrow> json" where
  "runtime_json sel ms = JObj [(''runtime'',
     JObj [(''objc_selector'', JStr sel), (''crash_info_entries'', JArr (map (\<lambda>m. JStr (hex_text m)) ms))])]"

lemma RecordRuntimeInfo_line:
  assumes "at_top f"
    and "FIRCLSProcessGetThreadState (rec_os R) (rec_fake R) p (crashedThread p) = Some (ok, c)"
    and "selector c = Returned sel" and "crash_messages env images ms"
  shows "\<exists>g. FIRCLSProcessRecordRuntimeInfo env images R selector p f = Returned g \<and>
    appends_line f (runtime_json sel ms) g"
proof -
  let ?hex = "\<lambda>s. FIRCLSFileWriteArrayEntryHexEncodedString (Some s)"
  have "writes_items (fold ?hex ms) (concat (map (\<lambda>m. [json_text (JStr (hex_text m))]) ms))"
    by (rule writes_items_fold) (use entry_writers(7) [of "Some s" for s] in \<open>simp add: string_json_def del: json_text.simps\<close>)
  from key_items [OF array_items [OF this], of "''crash_info_entries''"]
  have arr: "writes_items (\<lambda>f. FIRCLSFileWriteArrayEnd (fold ?hex ms (FIRCLSFileWriteArrayStart
      (FIRCLSFileWriteHashKey ''crash_info_entries'' f))))
      [member_text ''crash_info_entries'' (json_text (JArr (map (\<lambda>m. JStr (hex_text m)) ms)))]"
    by (simp add: comp_def)
  from hash_items [OF writes_items_comp [OF entry_writers(3) [of "''objc_selector''" "Some sel"] this]]
  have "writes_items (\<lambda>f. FIRCLSFileWriteHashEnd (FIRCLSFileWriteArrayEnd (fold ?hex ms (FIRCLSFileWriteArrayStart
      (FIRCLSFileWriteHashKey ''crash_info_entries'' (FIRCLSFileWriteHashEntryString ''objc_selector'' (Some sel)
        (FIRCLSFileWriteHashStart f)))))))
      [json_text (JObj [(''objc_selector'', JStr sel),
        (''crash_info_entries'', JArr (map (\<lambda>m. JStr (hex_text m)) ms))])]"
    by (simp add: string_json_def member_text_def)
  from section_line [OF assms(1) this, of "''runtime''"] show ?thesis
    by (simp add: FIRCLSProcessRecordRuntimeInfo_def assms(2,3) RecordCrashInfo_fold [OF assms(4)] Let_def
        runtime_json_def del: json_text.simps)
qed

section \<open>The whole report\<close>

text \<open>
  What a crash report records: the threads that could be unwound with their states and frames, the
  threads from the first unreadable one on, the selector, the crash messages of the images, the
  queue names and the statistics.
\<close>

record 'c crash_facts =
  cf_threads :: "(u32 \<times> 'c \<times> 'c FIRCLSUnwindContext list) list"
  cf_rest :: "u32 list"
  cf_selector :: string
  cf_messages :: "string list"
  cf_queues :: "string option list"
  cf_stats :: json

definition crash_observed :: "'c crash_build \<Rightarrow> FIRCLSProcess \<Rightarrow> 'c crash_facts \<Rightarrow> bool" where
  "crash_observed B p F \<longleftrightarrow> (let R = cb_recorder B; os = rec_os R in
     all_threads p = map fst (cf_threads F) @ cf_rest F \<and>
     list_all (\<lambda>(t, u). unwound R p t u) (cf_threads F) \<and>
     (cf_rest F = [] \<or> (\<exists>c. FIRCLSProcessGetThreadState os (rec_fake R) p (hd (cf_rest F)) = Some (False, c))) \<and>
     (\<exists>ok c. FIRCLSProcessGetThreadState os (rec_fake R) p (crashedThread p) = Some (ok, c) \<and>
        cb_selector B c = Returned (cf_selector F)) \<and>
     crash_messages (cb_env B) (cb_images B) (cf_messages F) \<and>
     list_all2 (\<lambda>t nm. FIRCLSProcessGetThreadDispatchQueueName (cb_env B) os t = Returned nm) (all_threads p) (cf_queues F) \<and>
     stats_json os = Some (cf_stats F))"

definition report_lines ::
  "'c recorder \<Rightarrow> ('c \<Rightarrow> (string \<times> u64) list) \<Rightarrow> FIRCLSProcess \<Rightarrow> 'c crash_facts \<Rightarrow> json list" where
  "report_lines R regs p F =
     [JObj [(''threads'', JArr (map (unwound_json R regs p) (cf_threads F)))],
      runtime_json (cf_selector F) (cf_messages F), queues_json (cf_queues F), names_json (rec_os R) p,
      cf_stats F, JObj [(''storage'', JObj [(''free'', JNum 0), (''total'', JNum 0)])]]"

definition lines_text :: "json list \<Rightarrow> string" where
  "lines_text js = concat (map (\<lambda>j. json_text j @ [CHR 0x0A]) js)"

lemma appends_line_text:
  "appends_line f j g \<Longrightarrow> at_top g" "appends_line f j g \<Longrightarrow> file_text g = file_text f @ json_text j @ [CHR 0x0A]"
  by (simp_all add: appends_line_def)

context thread_recorder
begin

lemma Handler_report:
  assumes B: "cb_recorder B = R" and p: "FIRCLSProcessInit (rec_os R) crashed uap = (ok, p)"
    and obs: "crash_observed B p F" and top: "at_top f"
  shows "\<exists>g. FIRCLSHandler B crashed uap (level, f) = Returned
      (\<lparr>suspended = snd (FIRCLSProcessSuspendAllOtherThreads (rec_os R) p),
        resumed = snd (FIRCLSProcessResumeAllOtherThreads (rec_os R) p),
        marker = FIRCLSCreateCrashedMarkerFile (cb_files B) (cb_marker B)\<rparr>, level, g) \<and>
    at_top g \<and> file_text g = file_text f @ lines_text (report_lines R regs p F)"
proof -
  note facts = obs [unfolded crash_observed_def Let_def B]
  have us: "list_all2 (unwound R p) (map fst (cf_threads F)) (map snd (cf_threads F))"
    using facts by (auto simp: list_all2_conv_all_nth list_all_length case_prod_unfold)
  obtain g1 where g1: "FIRCLSProcessRecordAllThreads R p (level, f) = Returned (cf_rest F = [], level, g1)"
    "at_top g1" "file_text g1 = file_text f @
      json_text (JObj [(''threads'', JArr (map (unwound_json R regs p) (cf_threads F)))]) @ [CHR 0x0A]"
    using RecordAllThreads_text [OF _ us _ top, of "cf_rest F" level] facts
    by (auto simp: zip_map_fst_snd simp del: json_text.simps)
  obtain ok' c where c: "FIRCLSProcessGetThreadState (rec_os R) (rec_fake R) p (crashedThread p) = Some (ok', c)"
    "cb_selector B c = Returned (cf_selector F)" using facts by (elim conjE exE)
  have msgs: "crash_messages (cb_env B) (cb_images B) (cf_messages F)" using facts by (elim conjE)
  have queues: "list_all2 (\<lambda>t nm. FIRCLSProcessGetThreadDispatchQueueName (cb_env B) (rec_os R) t = Returned nm)
      (all_threads p) (cf_queues F)" using facts by (elim conjE)
  have stats: "stats_json (rec_os R) = Some (cf_stats F)" using facts by (elim conjE)
  obtain g2 where g2: "FIRCLSProcessRecordRuntimeInfo (cb_env B) (cb_images B) R (cb_selector B) p g1 = Returned g2"
    "appends_line g1 (runtime_json (cf_selector F) (cf_messages F)) g2"
    using RecordRuntimeInfo_line [where selector = "cb_selector B", OF g1(2) c msgs] by (elim exE conjE)
  obtain g3 where g3: "FIRCLSProcessRecordDispatchQueueNames (cb_env B) (rec_os R) p g2 = Returned g3"
    "appends_line g2 (queues_json (cf_queues F)) g3"
    using RecordDispatchQueueNames_line [OF appends_line_text(1) [OF g2(2)] queues] by (elim exE conjE)
  define g4 where "g4 = FIRCLSProcessRecordThreadNames (rec_os R) p g3"
  have g4: "appends_line g3 (names_json (rec_os R) p) g4"
    using RecordThreadNames_line [OF appends_line_text(1) [OF g3(2)]] by (simp add: g4_def)
  obtain g5 where g5: "FIRCLSProcessRecordStats (rec_os R) g4 = Some g5" "appends_line g4 (cf_stats F) g5"
    using RecordStats_line [OF appends_line_text(1) [OF g4] stats] by (elim exE conjE)
  note g6 = DiskUsage_line [OF appends_line_text(1) [OF g5(2)]]
  have "FIRCLSHandler B crashed uap (level, f) = Returned
      (\<lparr>suspended = snd (FIRCLSProcessSuspendAllOtherThreads (rec_os R) p),
        resumed = snd (FIRCLSProcessResumeAllOtherThreads (rec_os R) p),
        marker = FIRCLSCreateCrashedMarkerFile (cb_files B) (cb_marker B)\<rparr>, level, FIRCLSHostWriteDiskUsage g5)"
    by (simp add: FIRCLSHandler_def Let_def B p g1(1) g2(1) g3(1) g5(1) case_prod_unfold flip: g4_def)
  moreover have "file_text (FIRCLSHostWriteDiskUsage g5) = file_text f @ lines_text (report_lines R regs p F)"
    using appends_line_text(2) [OF g6] appends_line_text(2) [OF g5(2)] appends_line_text(2) [OF g4]
      appends_line_text(2) [OF g3(2)] appends_line_text(2) [OF g2(2)] g1(3)
    by (simp add: lines_text_def report_lines_def del: json_text.simps)
  ultimately show ?thesis using appends_line_text(1) [OF g6] by blast
qed

text \<open>A first line, the report, and the closing of the file: what every handler does with its file.\<close>

lemma recorded_file:
  assumes B: "cb_recorder B = R" and p: "FIRCLSProcessInit (rec_os R) crashed uap = (ok, p)"
    and obs: "crash_observed B p F" and line: "appends_line f j f1"
  shows "\<exists>e g. FIRCLSHandler B crashed uap (level, f1) = Returned (e, level, g) \<and>
    dev_bytes (snd (FIRCLSFileClose c g)) = file_text f @ lines_text (j # report_lines R regs p F)"
proof -
  obtain e g where g: "FIRCLSHandler B crashed uap (level, f1) = Returned (e, level, g)"
    "at_top g" "file_text g = file_text f1 @ lines_text (report_lines R regs p F)"
    using Handler_report [OF B p obs appends_line_text(1) [OF line], of level] by (elim exE conjE)
  have "dev_bytes (snd (FIRCLSFileClose c g)) = file_text g" using g(2) by (simp add: at_top_def Close_text)
  with g(1,3) appends_line_text(2) [OF line] show ?thesis by (intro exI [of _ e] exI [of _ g]) (simp add: lines_text_def)
qed

end

text \<open>The context of a process that has not crashed yet, and a report file that can be opened.\<close>

definition ready_to_record :: "cls_context \<Rightarrow> file_os \<Rightarrow> string \<Rightarrow> cls_device \<Rightarrow> bool" where
  "ready_to_record c fos path d \<longleftrightarrow> FIRCLSContextIsInitialized c \<and> \<not> crashOccurred c \<and>
     open_fd fos path True = Some d \<and> healthy d \<and> file_size fos path \<noteq> None"

lemma ready_to_record_file:
  assumes "ready_to_record c fos path d"
  shows "FIRCLSContextMarkAndCheckIfCrashed c = (False, c\<lparr>crashOccurred := True\<rparr>) \<and>
    (\<exists>f. FIRCLSFileInitWithPath fos (Some path) False = Some f \<and> at_top f \<and> file_text f = dev_bytes d)"
proof -
  have r: "FIRCLSContextIsInitialized c" "\<not> crashOccurred c" "open_fd fos path True = Some d" "healthy d"
    "file_size fos path \<noteq> None" using assms by (simp_all add: ready_to_record_def)
  obtain n where "file_size fos path = Some n" using r(5) by blast
  then obtain f where f: "FIRCLSFileInitWithPath fos (Some path) False = Some f" using InitWithPath_opens [OF r(3)] by blast
  with InitWithPath_top [OF f r(3,4)] r(1,2) show ?thesis by (simp add: FIRCLSContextMarkAndCheckIfCrashed_def)
qed

text \<open>The lines are JSON when the names and the selector need no escaping.\<close>

lemma stats_json_ok: "stats_json os = Some j \<Longrightarrow> json_ok j"
  by (auto simp: stats_json_def plain_char_def split: option.splits prod.splits)

lemma report_lines_ok:
  assumes "crash_observed B p F" and "cb_recorder B = R"
    and "\<And>c. list_all (\<lambda>(k, v). list_all plain_char k) (regs c)"
    and "list_all plain_char (cf_selector F)" and "list_all (\<lambda>nm. list_all plain_char (queue_label nm)) (cf_queues F)"
    and "list_all (\<lambda>t. list_all plain_char (pthread_name (rec_os R) t)) (all_threads p)"
  shows "list_all json_ok (report_lines R regs p F)"
proof -
  have "stats_json (rec_os R) = Some (cf_stats F)"
    using assms(1,2) by (simp add: crash_observed_def Let_def)
  then have "json_ok (cf_stats F)" by (rule stats_json_ok)
  moreover have "json_ok (JObj [(''threads'', JArr (map (unwound_json R regs p) (cf_threads F)))])"
    using assms(3) by (auto simp: unwound_json_def list_all_iff plain_char_def intro: thread_json_ok split: prod.splits)
  ultimately show ?thesis
    using assms(4-6) hex_text_plain
    by (auto simp: report_lines_def runtime_json_def queues_json_def names_json_def list_all_iff plain_char_def
        FIRCLSProcessGetThreadName_def)
qed

end
