(* ===== verification/Cls_Signal.thy ===== *)
theory Cls_Signal
  imports Cls_Handler
begin

text \<open>
  FIRCLSSignal.c: installing the handlers of the seven fatal signals, putting the previous ones
  back, and the handler itself. The kernel's signal table, alternate stack and the process's
  \<open>errno\<close> are the state; what the system calls answer, the header constants and the addresses of
  functions are parameters, in \<open>signal_os\<close>.
\<close>

section \<open>Data\<close>

record sigaction_t =
  sa_sigaction :: u64
  sa_flags :: u32
  sa_mask :: "int list"

record stack_t =
  ss_sp :: u64
  ss_size :: u64
  ss_flags :: u32

record FIRCLSSignalReadContext =
  signal_path :: string
  originalActions :: "sigaction_t list"
  originalStack :: stack_t

record siginfo_t =
  si_signo :: int
  si_code :: int
  si_addr :: u64

text \<open>
  \<open>header_constant\<close> gives the value a header constant has, by its name; \<open>callable\<close> tells whether an
  address is that of a function; \<open>stack_garbage\<close> is what an uninitialised \<open>sa_flags\<close> holds.
\<close>

record signal_os =
  header_constant :: "string \<Rightarrow> int"
  siginfo_onstack :: u32
  handler_address :: u64
  sigaction_ok :: "int \<Rightarrow> bool"
  sigaltstack_ok :: bool
  sigprocmask_ok :: bool
  callable :: "u64 \<Rightarrow> bool"
  time_now :: int
  self_thread :: u32
  signal_stack :: u64
  signal_stack_size :: u64
  stack_garbage :: u32

text \<open>
  \<open>invoked\<close> lists the calls of previous handlers; \<open>report\<close> is the closed report file of this run,
  \<open>effects\<close> what \<open>FIRCLSHandler\<close> did besides writing it; \<open>opened\<close> lists the paths the handlers called
  \<open>FIRCLSFileInitWithPath\<close> with.
\<close>

record signal_state =
  actions :: "int \<Rightarrow> sigaction_t"
  alt_stack :: stack_t
  errno :: int
  unblocked :: bool
  invoked :: "(u64 \<times> int) list"
  crash_context :: cls_context
  report :: "cls_device option"
  effects :: "handler_effects option"
  opened :: "string list"

text \<open>A call that ends the process with \<open>exit\<close>, and the state it ends in, or one that goes on.\<close>

datatype ('s, 'a) run = Exited int 's | Running 'a

definition fatal_signal_names :: "string list" where
  "fatal_signal_names = [''SIGABRT'', ''SIGBUS'', ''SIGFPE'', ''SIGILL'', ''SIGSEGV'', ''SIGSYS'', ''SIGTRAP'']"

definition FIRCLSFatalSignals :: "signal_os \<Rightarrow> int list" where
  "FIRCLSFatalSignals os = map (header_constant os) fatal_signal_names"

text \<open>\<open>sigaction(2)\<close>: its status, the previous action, the table afterwards.\<close>

definition do_sigaction :: "signal_os \<Rightarrow> int \<Rightarrow> sigaction_t \<Rightarrow> signal_state \<Rightarrow> bool \<times> sigaction_t \<times> signal_state" where
  "do_sigaction os sg new st =
    (if sigaction_ok os sg then (True, actions st sg, st\<lparr>actions := (actions st)(sg := new)\<rparr>)
     else (False, actions st sg, st))"

definition FIRCLSSignalEnumerateHandledSignals :: "signal_os \<Rightarrow> (nat \<Rightarrow> int \<Rightarrow> 's \<Rightarrow> 's) \<Rightarrow> 's \<Rightarrow> 's" where
  "FIRCLSSignalEnumerateHandledSignals os block st =
     fold (\<lambda>(i, sg). block i sg) (enumerate 0 (FIRCLSFatalSignals os)) st"

section \<open>Installing\<close>

definition FIRCLSSignalInstallAltStack ::
  "signal_os \<Rightarrow> FIRCLSSignalReadContext \<times> signal_state \<Rightarrow> FIRCLSSignalReadContext \<times> signal_state" where
  "FIRCLSSignalInstallAltStack os = (\<lambda>(ro, st).
    (if \<not> sigaltstack_ok os then (ro, st)
     else (ro\<lparr>originalStack := alt_stack st\<rparr>,
           st\<lparr>alt_stack := \<lparr>ss_sp = signal_stack os, ss_size = signal_stack_size os, ss_flags = 0\<rparr>\<rparr>)))"

definition install_handler ::
  "signal_os \<Rightarrow> nat \<Rightarrow> int \<Rightarrow> FIRCLSSignalReadContext \<times> signal_state \<Rightarrow> FIRCLSSignalReadContext \<times> signal_state" where
  "install_handler os i sg = (\<lambda>(ro, st).
    (let action = \<lparr>sa_sigaction = handler_address os, sa_flags = siginfo_onstack os, sa_mask = []\<rparr>;
         (ok, previous, st) = do_sigaction os sg action st;
         saved = (originalActions ro)[i := (originalActions ro ! i)\<lparr>sa_sigaction := 0\<rparr>];
         saved = (if ok \<and> sa_sigaction previous \<noteq> 0 then saved[i := previous] else saved)
     in (ro\<lparr>originalActions := saved\<rparr>, st)))"

definition FIRCLSSignalInstallHandlers ::
  "signal_os \<Rightarrow> FIRCLSSignalReadContext \<times> signal_state \<Rightarrow> FIRCLSSignalReadContext \<times> signal_state" where
  "FIRCLSSignalInstallHandlers os = FIRCLSSignalEnumerateHandledSignals os (install_handler os)"

text \<open>The result of removing the old file is only logged.\<close>

definition FIRCLSSignalInitialize ::
  "signal_os \<Rightarrow> file_os \<Rightarrow> FIRCLSSignalReadContext \<times> signal_state \<Rightarrow> FIRCLSSignalReadContext \<times> signal_state" where
  "FIRCLSSignalInitialize os fos s =
    (let _ = FIRCLSUnlinkIfExists fos (signal_path (fst s))
     in FIRCLSSignalInstallHandlers os (FIRCLSSignalInstallAltStack os s))"

text \<open>The signals the check complains about; nothing is checked under a debugger.\<close>

definition FIRCLSSignalCheckHandlers :: "signal_os \<Rightarrow> bool \<Rightarrow> signal_state \<Rightarrow> int list" where
  "FIRCLSSignalCheckHandlers os debuggerAttached st =
    (if debuggerAttached then []
     else FIRCLSSignalEnumerateHandledSignals os (\<lambda>i sg found.
       if \<not> sigaction_ok os sg then found
       else if sa_sigaction (actions st sg) = handler_address os then found else found @ [sg]) [])"

section \<open>Removing and putting back\<close>

definition FIRCLSSignalSafeRemoveHandlers :: "signal_os \<Rightarrow> bool \<Rightarrow> signal_state \<Rightarrow> signal_state" where
  "FIRCLSSignalSafeRemoveHandlers os includingAbort =
     FIRCLSSignalEnumerateHandledSignals os (\<lambda>i sg st.
       if \<not> includingAbort \<and> sg = header_constant os ''SIGABRT'' then st
       else (case do_sigaction os sg \<lparr>sa_sigaction = 0, sa_flags = stack_garbage os, sa_mask = []\<rparr> st of
               (_, _, st) \<Rightarrow> st))"

text \<open>The block of the last loop. \<open>None\<close> is the call of an address that is not a function.\<close>

definition reinstall_handler ::
  "signal_os \<Rightarrow> FIRCLSSignalReadContext \<Rightarrow> int \<Rightarrow> nat \<times> int \<Rightarrow> bool \<times> signal_state \<Rightarrow> (bool \<times> signal_state) option" where
  "reinstall_handler os ro sg = (\<lambda>(i, current) (success, st).
    (let original = originalActions ro ! i in
     if sa_sigaction original = 0 then Some (success, st)
     else case do_sigaction os current original st of (ok, _, st) \<Rightarrow>
       let success = (if ok then success else False) in
       if sg < 0 then Some (success, st)
       else if sg = current then
         (if callable os (sa_sigaction original)
          then Some (success, st\<lparr>invoked := invoked st @ [(sa_sigaction original, sg)]\<rparr>) else None)
       else Some (success, st)))"

primrec reinstall_loop ::
  "signal_os \<Rightarrow> FIRCLSSignalReadContext \<Rightarrow> int \<Rightarrow> (nat \<times> int) list \<Rightarrow> bool \<times> signal_state \<Rightarrow> (bool \<times> signal_state) option" where
  "reinstall_loop os ro sg [] s = Some s"
| "reinstall_loop os ro sg (h # hs) s = Option.bind (reinstall_handler os ro sg h s) (reinstall_loop os ro sg hs)"

definition FIRCLSSignalSafeInstallPreexistingHandlers ::
  "signal_os \<Rightarrow> FIRCLSSignalReadContext \<Rightarrow> int \<Rightarrow> signal_state \<Rightarrow> (bool \<times> signal_state) option" where
  "FIRCLSSignalSafeInstallPreexistingHandlers os ro sg st =
    (let st = FIRCLSSignalSafeRemoveHandlers os True st in
     if ss_sp (originalStack ro) \<noteq> 0 \<and> \<not> sigaltstack_ok os then Some (False, st)
     else let st = (if ss_sp (originalStack ro) \<noteq> 0 then st\<lparr>alt_stack := originalStack ro\<rparr> else st) in
       reinstall_loop os ro sg (enumerate 0 (FIRCLSFatalSignals os)) (True, st))"

section \<open>Recording\<close>

definition FIRCLSSignalNameLookup :: "signal_os \<Rightarrow> int \<Rightarrow> string \<times> string option" where
  "FIRCLSSignalNameLookup os number =
    (case List.find (\<lambda>nm. header_constant os nm = number) fatal_signal_names of
       None \<Rightarrow> (''UNKNOWN'', None)
     | Some nm \<Rightarrow> (nm, if nm = ''SIGABRT'' then Some ''ABORT'' else None))"

definition write_signal_info :: "signal_os \<Rightarrow> siginfo_t option \<Rightarrow> FIRCLSFile \<Rightarrow> FIRCLSFile" where
  "write_signal_info os info f =
    (case info of
       None \<Rightarrow> f
     | Some si \<Rightarrow>
        (let f = FIRCLSFileWriteHashEntryUint64 ''number'' (of_int (si_signo si)) f;
             f = FIRCLSFileWriteHashEntryUint64 ''code'' (of_int (si_code si)) f;
             f = FIRCLSFileWriteHashEntryUint64 ''address'' (si_addr si) f;
             (nm, codeName) = FIRCLSSignalNameLookup os (si_signo si);
             f = FIRCLSFileWriteHashEntryString ''name'' (Some nm) f
         in FIRCLSFileWriteHashEntryString ''code_name'' codeName f))"

definition write_signal_section :: "signal_os \<Rightarrow> int \<Rightarrow> siginfo_t option \<Rightarrow> FIRCLSFile \<Rightarrow> FIRCLSFile" where
  "write_signal_section os savedErrno info f =
    (let f = FIRCLSFileWriteHashStart (FIRCLSFileWriteSectionStart ''signal'' f);
         f = write_signal_info os info f;
         f = FIRCLSFileWriteHashEntryUint64 ''errno'' (of_int savedErrno) f;
         f = FIRCLSFileWriteHashEntryUint64 ''time'' (of_int (time_now os)) f
     in FIRCLSFileWriteSectionEnd (FIRCLSFileWriteHashEnd f))"

definition FIRCLSSignalRecordSignal ::
  "signal_os \<Rightarrow> 'c crash_build \<Rightarrow> FIRCLSSignalReadContext \<Rightarrow> int \<Rightarrow> siginfo_t option \<Rightarrow> u64 \<Rightarrow> signal_state \<Rightarrow>
     (signal_state, signal_state) run loop_result" where
  "FIRCLSSignalRecordSignal os B ro savedErrno info uap st =
    (if readonly_ptr (crash_context st) = 0 then Returned (Running st)
     else let (crashed, c) = FIRCLSContextMarkAndCheckIfCrashed (crash_context st);
              st = st\<lparr>crash_context := c\<rparr> in
       if crashed then Returned (Exited 1 st)
       else let st = st\<lparr>opened := opened st @ [signal_path ro]\<rparr> in
         case FIRCLSFileInitWithPath (cb_files B) (Some (signal_path ro)) False of
         None \<Rightarrow> Returned (Running st)
       | Some f \<Rightarrow>
          bind_result (FIRCLSHandler B (self_thread os) uap (internal_level c, write_signal_section os savedErrno info f))
            (\<lambda>(e, level, f).
               let (_, d) = FIRCLSFileClose (close_ok (cb_files B)) f in
               Returned (Running (st\<lparr>crash_context := c\<lparr>internal_level := level\<rparr>, report := Some d, effects := Some e\<rparr>))))"

text \<open>\<open>info\<close> and \<open>uapVoid\<close> come with the address they are at.\<close>

definition FIRCLSSignalHandler ::
  "signal_os \<Rightarrow> 'c crash_build \<Rightarrow> FIRCLSSignalReadContext \<Rightarrow> int \<Rightarrow> u64 \<times> siginfo_t \<Rightarrow> u64 \<Rightarrow> signal_state \<Rightarrow>
     (signal_state, signal_state) run loop_result" where
  "FIRCLSSignalHandler os B ro sg info uap st =
    (let savedErrno = errno st;
         st = st\<lparr>errno := 0\<rparr>;
         st = FIRCLSSignalSafeRemoveHandlers os True st;
         st = (if sigprocmask_ok os then st\<lparr>unblocked := True\<rparr> else st);
         si = (if FIRCLSIsValidPointer (fst info) then Some (snd info) else None);
         uap = (if FIRCLSIsValidPointer uap then uap else 0)
     in bind_result (FIRCLSSignalRecordSignal os B ro savedErrno si uap st) (\<lambda>r.
       case r of
         Exited n st \<Rightarrow> Returned (Exited n st)
       | Running st \<Rightarrow>
          if readonly_ptr (crash_context st) = 0 then Returned (Running (st\<lparr>errno := savedErrno\<rparr>))
          else bind_result (from_option (FIRCLSSignalSafeInstallPreexistingHandlers os ro sg st))
            (\<lambda>(_, st). Returned (Running (st\<lparr>errno := savedErrno\<rparr>)))))"

end
