(* ===== verification/Cls_Signal_Facts.thy ===== *)
theory Cls_Signal_Facts
  imports Cls_Signal
begin

text \<open>
  What the loops over the fatal signals do to the signal table, and the report the signal handler
  writes.
\<close>

section \<open>The loops over the signals\<close>

text \<open>What the documentation of \<open>sigaction(2)\<close> gives: it takes every signal but the two reserved ones.\<close>

definition signals_ok :: "signal_os \<Rightarrow> bool" where
  "signals_ok os \<longleftrightarrow> distinct (FIRCLSFatalSignals os) \<and> (\<forall>sg \<in> set (FIRCLSFatalSignals os). 0 < sg \<and> sigaction_ok os sg)"

definition crash_action :: "signal_os \<Rightarrow> sigaction_t" where
  "crash_action os = \<lparr>sa_sigaction = handler_address os, sa_flags = siginfo_onstack os, sa_mask = []\<rparr>"

definition default_action :: "signal_os \<Rightarrow> sigaction_t" where
  "default_action os = \<lparr>sa_sigaction = 0, sa_flags = stack_garbage os, sa_mask = []\<rparr>"

definition set_actions :: "int set \<Rightarrow> (int \<Rightarrow> sigaction_t) \<Rightarrow> signal_state \<Rightarrow> signal_state" where
  "set_actions S g st = st\<lparr>actions := \<lambda>sg. if sg \<in> S then g sg else actions st sg\<rparr>"

lemma set_actions_empty [simp]: "set_actions {} g st = st"
  by (simp add: set_actions_def)

lemma set_actions_invoked: "set_actions S g (st\<lparr>invoked := l\<rparr>) = (set_actions S g st)\<lparr>invoked := l\<rparr>"
  by (rule signal_state.equality) (simp_all add: set_actions_def cong: if_cong)

lemma set_actions_insert: "s \<notin> S \<Longrightarrow>
    set_actions S g (st\<lparr>actions := (actions st)(s := g s)\<rparr>) = set_actions (insert s S) g st"
  by (auto simp: set_actions_def intro!: signal_state.equality)

lemma remove_loop:
  assumes "\<forall>sg \<in> set sgs. sigaction_ok os sg" and "distinct sgs"
  shows "fold (\<lambda>(i, sg) st. if \<not> True \<and> sg = header_constant os ''SIGABRT'' then st
      else (case do_sigaction os sg \<lparr>sa_sigaction = 0, sa_flags = stack_garbage os, sa_mask = []\<rparr> st of
              (_, _, st) \<Rightarrow> st)) (enumerate k sgs) st =
    set_actions (set sgs) (\<lambda>_. default_action os) st"
  using assms
  by (induction sgs arbitrary: k st)
    (simp_all add: do_sigaction_def default_action_def set_actions_insert [where g = "\<lambda>_. default_action os", unfolded default_action_def])

lemma RemoveHandlers_actions:
  "signals_ok os \<Longrightarrow> FIRCLSSignalSafeRemoveHandlers os True st =
     set_actions (set (FIRCLSFatalSignals os)) (\<lambda>_. default_action os) st"
  using remove_loop [of "FIRCLSFatalSignals os" os 0 st]
  by (simp add: FIRCLSSignalSafeRemoveHandlers_def FIRCLSSignalEnumerateHandledSignals_def signals_ok_def)

text \<open>The action that is saved for a signal, and the list of saved actions.\<close>

definition saved_action :: "sigaction_t \<Rightarrow> sigaction_t \<Rightarrow> sigaction_t" where
  "saved_action previous old = (if sa_sigaction previous \<noteq> 0 then previous else old\<lparr>sa_sigaction := 0\<rparr>)"

lemma install_loop:
  assumes "\<forall>sg \<in> set sgs. sigaction_ok os sg" and "distinct sgs" and "k + length sgs \<le> length (originalActions ro)"
  shows "\<exists>oa. fold (\<lambda>(i, sg). install_handler os i sg) (enumerate k sgs) (ro, st) =
      (ro\<lparr>originalActions := oa\<rparr>, set_actions (set sgs) (\<lambda>_. crash_action os) st) \<and>
    length oa = length (originalActions ro) \<and> take k oa = take k (originalActions ro) \<and>
    (\<forall>i < length sgs. oa ! (k + i) = saved_action (actions st (sgs ! i)) (originalActions ro ! (k + i)))"
  using assms
proof (induction sgs arbitrary: k ro st)
  case Nil
  show ?case by (intro exI [of _ "originalActions ro"]) simp
next
  case (Cons sg sgs)
  define oa1 where "oa1 = (originalActions ro)[k := saved_action (actions st sg) (originalActions ro ! k)]"
  define st1 where "st1 = st\<lparr>actions := (actions st)(sg := crash_action os)\<rparr>"
  have step: "install_handler os k sg (ro, st) = (ro\<lparr>originalActions := oa1\<rparr>, st1)"
    using Cons.prems(1,3)
    by (simp add: install_handler_def do_sigaction_def Let_def oa1_def st1_def saved_action_def crash_action_def)
  have "Suc k + length sgs \<le> length (originalActions (ro\<lparr>originalActions := oa1\<rparr>))"
    using Cons.prems(3) by (simp add: oa1_def)
  from Cons.IH [OF _ _ this, of st1] Cons.prems(1,2) obtain oa where
    oa: "fold (\<lambda>(i, sg). install_handler os i sg) (enumerate (Suc k) sgs) (ro\<lparr>originalActions := oa1\<rparr>, st1) =
      (ro\<lparr>originalActions := oa\<rparr>, set_actions (set sgs) (\<lambda>_. crash_action os) st1)"
    "length oa = length oa1" "take (Suc k) oa = take (Suc k) oa1"
    "\<forall>i < length sgs. oa ! (Suc k + i) = saved_action (actions st1 (sgs ! i)) (oa1 ! (Suc k + i))"
    by auto
  have same: "actions st1 (sgs ! i) = actions st (sgs ! i)" if "i < length sgs" for i
    using Cons.prems(2) that by (auto simp: st1_def dest: nth_mem)
  have here: "oa ! k = saved_action (actions st sg) (originalActions ro ! k)"
    using arg_cong [OF oa(3), of "\<lambda>l. l ! k"] Cons.prems(3) oa(2) by (simp add: oa1_def)
  have "oa ! (k + i) = saved_action (actions st ((sg # sgs) ! i)) (originalActions ro ! (k + i))"
    if "i < length (sg # sgs)" for i
  proof (cases i)
    case 0
    with here show ?thesis by simp
  next
    case (Suc j)
    with oa(4) that same [of j] show ?thesis by (simp add: oa1_def)
  qed
  moreover have "take k oa = take k (originalActions ro)"
    using arg_cong [OF oa(3), of "take k"] by (simp add: oa1_def take_update_cancel)
  ultimately show ?case
    using step oa(1,2) Cons.prems(2)
    by (intro exI [of _ oa]) (simp add: oa1_def st1_def set_actions_insert [where g = "\<lambda>_. crash_action os"])
qed

lemma InstallHandlers_actions:
  assumes "signals_ok os" and "length (originalActions ro) = 7"
  shows "\<exists>oa. FIRCLSSignalInstallHandlers os (ro, st) =
      (ro\<lparr>originalActions := oa\<rparr>, set_actions (set (FIRCLSFatalSignals os)) (\<lambda>_. crash_action os) st) \<and>
    length oa = 7 \<and>
    (\<forall>i < 7. oa ! i = saved_action (actions st (FIRCLSFatalSignals os ! i)) (originalActions ro ! i))"
proof -
  have len: "length (FIRCLSFatalSignals os) = 7" by (simp add: FIRCLSFatalSignals_def fatal_signal_names_def)
  show ?thesis
    using install_loop [of "FIRCLSFatalSignals os" os 0 ro st] assms len
    by (auto simp: signals_ok_def FIRCLSSignalInstallHandlers_def FIRCLSSignalEnumerateHandledSignals_def)
qed

text \<open>Putting back, when every action that was saved belongs to \<open>orig\<close>.\<close>

lemma reinstall_loop_actions:
  assumes "\<forall>sg \<in> set sgs. sigaction_ok os sg" and "distinct sgs"
    and "\<forall>i < length sgs. originalActions ro ! (k + i) = orig (sgs ! i)"
    and "sg \<in> set sgs \<and> 0 \<le> sg \<and> sa_sigaction (orig sg) \<noteq> 0 \<longrightarrow> callable os (sa_sigaction (orig sg))"
  shows "reinstall_loop os ro sg (enumerate k sgs) (success, st) =
    Some (success, (set_actions {s \<in> set sgs. sa_sigaction (orig s) \<noteq> 0} orig st)\<lparr>invoked := invoked st @
      (if sg \<in> set sgs \<and> 0 \<le> sg \<and> sa_sigaction (orig sg) \<noteq> 0 then [(sa_sigaction (orig sg), sg)] else [])\<rparr>)"
  using assms
proof (induction sgs arbitrary: k st)
  case Nil
  show ?case by simp
next
  case (Cons s sgs)
  have orig: "originalActions ro ! k = orig s" using Cons.prems(3) by force
  have rest: "\<forall>i < length sgs. originalActions ro ! (Suc k + i) = orig (sgs ! i)"
    using Cons.prems(3) by force
  have IH: "reinstall_loop os ro sg (enumerate (Suc k) sgs) (success, st') =
    Some (success, (set_actions {s \<in> set sgs. sa_sigaction (orig s) \<noteq> 0} orig st')\<lparr>invoked := invoked st' @
      (if sg \<in> set sgs \<and> 0 \<le> sg \<and> sa_sigaction (orig sg) \<noteq> 0 then [(sa_sigaction (orig sg), sg)] else [])\<rparr>)" for st'
    using Cons.IH [OF _ _ rest] Cons.prems(1,2,4) by simp
  show ?case
  proof (cases "sa_sigaction (orig s) = 0")
    case True
    have "{r \<in> set (s # sgs). sa_sigaction (orig r) \<noteq> 0} = {r \<in> set sgs. sa_sigaction (orig r) \<noteq> 0}" using True by auto
    then show ?thesis using True IH by (auto simp: reinstall_handler_def orig)
  next
    case False
    define st1 where "st1 = st\<lparr>actions := (actions st)(s := orig s)\<rparr>"
    define calls where "calls = (if 0 \<le> sg \<and> sg = s then [(sa_sigaction (orig s), sg)] else [])"
    have step: "reinstall_handler os ro sg (k, s) (success, st) = Some (success, st1\<lparr>invoked := invoked st @ calls\<rparr>)"
      using False Cons.prems(1,4) by (auto simp: reinstall_handler_def orig do_sigaction_def st1_def calls_def Let_def)
    have ins: "{r \<in> set (s # sgs). sa_sigaction (orig r) \<noteq> 0} = insert s {r \<in> set sgs. sa_sigaction (orig r) \<noteq> 0}"
      using False by auto
    have notin: "s \<notin> {r \<in> set sgs. sa_sigaction (orig r) \<noteq> 0}" using Cons.prems(2) by simp
    have sets: "set_actions {r \<in> set (s # sgs). sa_sigaction (orig r) \<noteq> 0} orig st =
        set_actions {r \<in> set sgs. sa_sigaction (orig r) \<noteq> 0} orig st1"
      unfolding ins st1_def by (rule set_actions_insert [OF notin, symmetric])
    have called: "invoked st @ calls @ (if sg \<in> set sgs \<and> 0 \<le> sg \<and> sa_sigaction (orig sg) \<noteq> 0 then [(sa_sigaction (orig sg), sg)] else []) =
        invoked st @ (if sg \<in> set (s # sgs) \<and> 0 \<le> sg \<and> sa_sigaction (orig sg) \<noteq> 0 then [(sa_sigaction (orig sg), sg)] else [])"
      using False Cons.prems(2) by (auto simp: calls_def)
    show ?thesis
      unfolding sets using called by (simp add: step IH set_actions_invoked)
  qed
qed

text \<open>
  Putting back what was installed, from any state of the table: the fatal signals get their original
  action, or the default when there was none.
\<close>

definition original_action :: "signal_os \<Rightarrow> signal_state \<Rightarrow> int \<Rightarrow> sigaction_t" where
  "original_action os st sg = (if sa_sigaction (actions st sg) \<noteq> 0 then actions st sg else default_action os)"

definition installed :: "signal_os \<Rightarrow> FIRCLSSignalReadContext \<Rightarrow> (int \<Rightarrow> sigaction_t) \<Rightarrow> bool" where
  "installed os ro old \<longleftrightarrow> (\<forall>i < length (FIRCLSFatalSignals os). \<exists>junk.
     originalActions ro ! i = saved_action (old (FIRCLSFatalSignals os ! i)) junk)"

lemma saved_action_handler: "sa_sigaction (saved_action p junk) = sa_sigaction p"
  by (simp add: saved_action_def)

lemma Preexisting_actions:
  assumes ok: "signals_ok os" and inst: "installed os ro old"
    and alt: "sigaltstack_ok os" and sg: "sg \<in> set (FIRCLSFatalSignals os) \<and> sa_sigaction (old sg) \<noteq> 0 \<longrightarrow>
      callable os (sa_sigaction (old sg))"
  shows "FIRCLSSignalSafeInstallPreexistingHandlers os ro sg st = Some (True,
    (set_actions (set (FIRCLSFatalSignals os)) (\<lambda>s. if sa_sigaction (old s) \<noteq> 0 then old s else default_action os) st)
      \<lparr>alt_stack := if ss_sp (originalStack ro) \<noteq> 0 then originalStack ro else alt_stack st,
       invoked := invoked st @
        (if sg \<in> set (FIRCLSFatalSignals os) \<and> sa_sigaction (old sg) \<noteq> 0 then [(sa_sigaction (old sg), sg)] else [])\<rparr>)"
proof -
  let ?sgs = "FIRCLSFatalSignals os"
  define orig where "orig s = (if sa_sigaction (old s) \<noteq> 0 then old s
    else originalActions ro ! (LEAST i. i < length ?sgs \<and> ?sgs ! i = s))" for s
  have dist: "distinct ?sgs" and pos: "\<forall>s \<in> set ?sgs. 0 < s \<and> sigaction_ok os s" using ok by (auto simp: signals_ok_def)
  have least: "(LEAST j. j < length ?sgs \<and> ?sgs ! j = ?sgs ! i) = i" if "i < length ?sgs" for i
    by (rule Least_equality) (use that dist in \<open>auto simp: nth_eq_iff_index_eq\<close>)
  have saved: "\<forall>i < length ?sgs. originalActions ro ! (0 + i) = orig (?sgs ! i)"
  proof (intro allI impI)
    fix i assume i: "i < length ?sgs"
    then obtain junk where "originalActions ro ! i = saved_action (old (?sgs ! i)) junk"
      using inst unfolding installed_def by blast
    then show "originalActions ro ! (0 + i) = orig (?sgs ! i)"
      using least [OF i] by (simp add: orig_def saved_action_def)
  qed
  have zero: "sa_sigaction (orig s) = sa_sigaction (old s)" if mem: "s \<in> set ?sgs" for s
  proof -
    obtain i where i: "i < length ?sgs" "?sgs ! i = s" using mem by (auto simp: in_set_conv_nth)
    obtain junk where "originalActions ro ! i = saved_action (old s) junk"
      using inst i unfolding installed_def by blast
    moreover have "originalActions ro ! i = orig s" using saved i by force
    ultimately show ?thesis using saved_action_handler [of "old s" junk] by simp
  qed
  define st1 where "st1 = (set_actions (set ?sgs) (\<lambda>_. default_action os) st)
    \<lparr>alt_stack := if ss_sp (originalStack ro) \<noteq> 0 then originalStack ro else alt_stack st\<rparr>"
  have loop: "reinstall_loop os ro sg (enumerate 0 ?sgs) (True, st1) =
    Some (True, (set_actions {s \<in> set ?sgs. sa_sigaction (orig s) \<noteq> 0} orig st1)\<lparr>invoked := invoked st1 @
      (if sg \<in> set ?sgs \<and> 0 \<le> sg \<and> sa_sigaction (orig sg) \<noteq> 0 then [(sa_sigaction (orig sg), sg)] else [])\<rparr>)"
    by (rule reinstall_loop_actions) (use pos dist saved sg zero in auto)
  have start: "FIRCLSSignalSafeInstallPreexistingHandlers os ro sg st = reinstall_loop os ro sg (enumerate 0 ?sgs) (True, st1)"
    using alt by (cases st) (simp add: FIRCLSSignalSafeInstallPreexistingHandlers_def RemoveHandlers_actions [OF ok] st1_def
        set_actions_def Let_def)
  have table: "actions (set_actions {s \<in> set ?sgs. sa_sigaction (orig s) \<noteq> 0} orig st1) =
      (\<lambda>s. if s \<in> set ?sgs then (if sa_sigaction (old s) \<noteq> 0 then old s else default_action os) else actions st s)"
    using zero by (auto simp: set_actions_def st1_def orig_def fun_eq_iff)
  have "set_actions {s \<in> set ?sgs. sa_sigaction (orig s) \<noteq> 0} orig st1 =
      (set_actions (set ?sgs) (\<lambda>s. if sa_sigaction (old s) \<noteq> 0 then old s else default_action os) st)
        \<lparr>alt_stack := if ss_sp (originalStack ro) \<noteq> 0 then originalStack ro else alt_stack st\<rparr>"
    by (rule signal_state.equality) (use table in \<open>simp_all add: set_actions_def st1_def\<close>)
  moreover have "invoked st1 = invoked st" by (simp add: st1_def set_actions_def)
  moreover have "(if sg \<in> set ?sgs \<and> 0 \<le> sg \<and> sa_sigaction (orig sg) \<noteq> 0 then [(sa_sigaction (orig sg), sg)] else []) =
      (if sg \<in> set ?sgs \<and> sa_sigaction (old sg) \<noteq> 0 then [(sa_sigaction (old sg), sg)] else [])"
    using zero pos by force
  ultimately show ?thesis using start loop by simp
qed

lemma installed_Install:
  assumes "signals_ok os" and "length (originalActions ro) = 7"
    and "FIRCLSSignalInstallHandlers os (ro, st) = (ro', st')"
  shows "installed os ro' (actions st) \<and> originalStack ro' = originalStack ro \<and> signal_path ro' = signal_path ro \<and>
    st' = set_actions (set (FIRCLSFatalSignals os)) (\<lambda>_. crash_action os) st"
proof -
  have "length (FIRCLSFatalSignals os) = 7" by (simp add: FIRCLSFatalSignals_def fatal_signal_names_def)
  then show ?thesis using InstallHandlers_actions [OF assms(1,2), of st] assms(3) by (auto simp: installed_def)
qed

section \<open>The signal section\<close>

definition info_members :: "signal_os \<Rightarrow> siginfo_t option \<Rightarrow> (string \<times> json) list" where
  "info_members os info = (case info of None \<Rightarrow> [] | Some si \<Rightarrow>
     [(''number'', JNum (unat (of_int (si_signo si) :: u64))), (''code'', JNum (unat (of_int (si_code si) :: u64))),
      (''address'', JNum (unat (si_addr si))), (''name'', JStr (fst (FIRCLSSignalNameLookup os (si_signo si)))),
      (''code_name'', string_json (snd (FIRCLSSignalNameLookup os (si_signo si))))])"

definition signal_json :: "signal_os \<Rightarrow> int \<Rightarrow> siginfo_t option \<Rightarrow> json" where
  "signal_json os savedErrno info = JObj [(''signal'', JObj (info_members os info @
     [(''errno'', JNum (unat (of_int savedErrno :: u64))), (''time'', JNum (unat (of_int (time_now os) :: u64)))]))]"

lemma uint64_member: "writes_items (FIRCLSFileWriteHashEntryUint64 k v) (members [(k, JNum (unat v))])"
  using entry_writers(1) [of k v] by simp

lemma string_member: "writes_items (FIRCLSFileWriteHashEntryString k str) (members [(k, string_json str)])"
  using entry_writers(3) [of k str] by (simp del: json_text.simps)

lemma write_signal_info_items: "writes_items (write_signal_info os info) (members (info_members os info))"
proof (cases info)
  case None
  then show ?thesis using writes_items_id by (simp add: write_signal_info_def [abs_def] info_members_def)
next
  case (Some si)
  obtain nm codeName where nm: "FIRCLSSignalNameLookup os (si_signo si) = (nm, codeName)" by fastforce
  have str: "string_json (Some nm) = JStr nm" by (simp add: string_json_def)
  note writes_items_comp [OF writes_items_comp [OF writes_items_comp [OF writes_items_comp [OF
    uint64_member [of "''number''" "of_int (si_signo si)"] uint64_member [of "''code''" "of_int (si_code si)"]]
    uint64_member [of "''address''" "si_addr si"]] string_member [of "''name''" "Some nm"]]
    string_member [of "''code_name''" codeName]]
  then show ?thesis
    by (simp add: write_signal_info_def [abs_def] Some nm info_members_def Let_def str del: json_text.simps
        flip: members_simps(3))
qed

lemma write_signal_section_line:
  assumes "at_top f"
  shows "appends_line f (signal_json os savedErrno info) (write_signal_section os savedErrno info f)"
proof -
  let ?w = "\<lambda>f. FIRCLSFileWriteHashEntryUint64 ''time'' (of_int (time_now os))
    (FIRCLSFileWriteHashEntryUint64 ''errno'' (of_int savedErrno) (write_signal_info os info f))"
  let ?kvs = "info_members os info @ [(''errno'', JNum (unat (of_int savedErrno :: u64))),
    (''time'', JNum (unat (of_int (time_now os) :: u64)))]"
  have "writes_items ?w (members ?kvs)"
    using writes_items_comp [OF writes_items_comp [OF write_signal_info_items [of os info]
      uint64_member [of "''errno''" "of_int savedErrno"]] uint64_member [of "''time''" "of_int (time_now os)"]]
    by (simp del: members_simps flip: members_simps(3))
  from hash_items [OF this]
  have "writes_items (\<lambda>f. FIRCLSFileWriteHashEnd (?w (FIRCLSFileWriteHashStart f))) [json_text (JObj ?kvs)]"
    by (simp only: members_def json_object_text)
  from section_line [OF assms this, of "''signal''"] show ?thesis
    by (simp add: write_signal_section_def signal_json_def Let_def del: json_text.simps)
qed

lemma signal_json_ok: "json_ok (signal_json os savedErrno info)"
proof -
  have names: "list_all plain_char (fst (FIRCLSSignalNameLookup os n))" for n
    by (auto simp: FIRCLSSignalNameLookup_def find_Some_iff fatal_signal_names_def plain_char_def nth_Cons
        split: option.splits nat.splits)
  have "json_ok (string_json (snd (FIRCLSSignalNameLookup os n)))" for n
    by (auto simp: FIRCLSSignalNameLookup_def string_json_def plain_char_def split: option.splits)
  with names show ?thesis
    by (auto simp: signal_json_def info_members_def plain_char_def split: option.splits)
qed

section \<open>The handler\<close>

lemma Initialized_ptr: "FIRCLSContextIsInitialized c \<Longrightarrow> readonly_ptr c \<noteq> 0"
  by (auto simp: FIRCLSContextIsInitialized_def FIRCLSIsValidPointer_def split: if_splits)

context thread_recorder
begin

lemma RecordSignal_report:
  assumes B: "cb_recorder B = R" and p: "FIRCLSProcessInit (rec_os R) (self_thread os) uap = (ok, p)"
    and obs: "crash_observed B p F" and ready: "ready_to_record (crash_context st) (cb_files B) (signal_path ro) d"
  shows "\<exists>d' e. FIRCLSSignalRecordSignal os B ro savedErrno info uap st = Returned (Running
      (st\<lparr>crash_context := (crash_context st)\<lparr>crashOccurred := True\<rparr>, report := Some d', effects := Some e,
        opened := opened st @ [signal_path ro]\<rparr>)) \<and>
    dev_bytes d' = dev_bytes d @ lines_text (signal_json os savedErrno info # report_lines R regs p F)"
proof -
  let ?c = "(crash_context st)\<lparr>crashOccurred := True\<rparr>"
  obtain f where f: "FIRCLSContextMarkAndCheckIfCrashed (crash_context st) = (False, ?c)"
    "FIRCLSFileInitWithPath (cb_files B) (Some (signal_path ro)) False = Some f" "at_top f" "file_text f = dev_bytes d"
    using ready_to_record_file [OF ready] by (elim exE conjE)
  obtain e g where g: "FIRCLSHandler B (self_thread os) uap (internal_level ?c, write_signal_section os savedErrno info f) =
      Returned (e, internal_level ?c, g)" "dev_bytes (snd (FIRCLSFileClose (close_ok (cb_files B)) g)) =
      file_text f @ lines_text (signal_json os savedErrno info # report_lines R regs p F)"
    using recorded_file [OF B p obs write_signal_section_line [OF f(3)]] by blast
  have "readonly_ptr (crash_context st) \<noteq> 0" using ready Initialized_ptr by (simp add: ready_to_record_def)
  with f(1,2) g(1) have "FIRCLSSignalRecordSignal os B ro savedErrno info uap st = Returned (Running
      (st\<lparr>crash_context := ?c, report := Some (snd (FIRCLSFileClose (close_ok (cb_files B)) g)), effects := Some e,
        opened := opened st @ [signal_path ro]\<rparr>))"
    by (simp add: FIRCLSSignalRecordSignal_def Let_def case_prod_unfold)
  with g(2) f(4) show ?thesis by auto
qed

lemma SignalHandler_report:
  assumes B: "cb_recorder B = R" and sigs: "signals_ok os" "installed os ro old" "sigaltstack_ok os"
    and sg: "sg \<in> set (FIRCLSFatalSignals os)"
      "sa_sigaction (old sg) \<noteq> 0 \<longrightarrow> callable os (sa_sigaction (old sg))"
    and info: "FIRCLSIsValidPointer (fst info)" and uap: "FIRCLSIsValidPointer uap \<or> uap = 0"
    and p: "FIRCLSProcessInit (rec_os R) (self_thread os) uap = (ok, p)"
    and obs: "crash_observed B p F" and ready: "ready_to_record (crash_context st) (cb_files B) (signal_path ro) d"
  shows "\<exists>st' d'. FIRCLSSignalHandler os B ro sg info uap st = Returned (Running st') \<and>
    errno st' = errno st \<and> crashOccurred (crash_context st') \<and>
    (\<forall>s. actions st' s = (if s \<in> set (FIRCLSFatalSignals os)
       then (if sa_sigaction (old s) \<noteq> 0 then old s else default_action os) else actions st s)) \<and>
    invoked st' = invoked st @ (if sa_sigaction (old sg) \<noteq> 0 then [(sa_sigaction (old sg), sg)] else []) \<and>
    report st' = Some d' \<and> opened st' = opened st @ [signal_path ro] \<and>
    dev_bytes d' = dev_bytes d @ lines_text (signal_json os (errno st) (Some (snd info)) # report_lines R regs p F)"
proof -
  define st0 where "st0 = FIRCLSSignalSafeRemoveHandlers os True (st\<lparr>errno := 0\<rparr>)"
  define st1 where "st1 = (if sigprocmask_ok os then st0\<lparr>unblocked := True\<rparr> else st0)"
  have same: "crash_context st1 = crash_context st" "invoked st1 = invoked st" "opened st1 = opened st"
    "s \<notin> set (FIRCLSFatalSignals os) \<Longrightarrow> actions st1 s = actions st s" for s
    by (auto simp: st1_def st0_def RemoveHandlers_actions [OF sigs(1)] set_actions_def)
  have uap': "(if FIRCLSIsValidPointer uap then uap else 0) = uap" using uap by auto
  have ready1: "ready_to_record (crash_context st1) (cb_files B) (signal_path ro) d" using ready by (simp add: same)
  obtain d' e where rec: "FIRCLSSignalRecordSignal os B ro (errno st) (Some (snd info)) uap st1 = Returned (Running
      (st1\<lparr>crash_context := (crash_context st1)\<lparr>crashOccurred := True\<rparr>, report := Some d', effects := Some e,
        opened := opened st1 @ [signal_path ro]\<rparr>))"
    "dev_bytes d' = dev_bytes d @ lines_text (signal_json os (errno st) (Some (snd info)) # report_lines R regs p F)"
    using RecordSignal_report [OF B p obs ready1, of "errno st" "Some (snd info)"] by (elim exE conjE)
  define st2 where "st2 = st1\<lparr>crash_context := (crash_context st1)\<lparr>crashOccurred := True\<rparr>, report := Some d',
    effects := Some e, opened := opened st1 @ [signal_path ro]\<rparr>"
  have ptr: "readonly_ptr (crash_context st2) \<noteq> 0"
    using ready Initialized_ptr by (auto simp: ready_to_record_def st2_def same)
  have "FIRCLSSignalSafeInstallPreexistingHandlers os ro sg st2 = Some (True,
      (set_actions (set (FIRCLSFatalSignals os)) (\<lambda>s. if sa_sigaction (old s) \<noteq> 0 then old s else default_action os) st2)
      \<lparr>alt_stack := if ss_sp (originalStack ro) \<noteq> 0 then originalStack ro else alt_stack st2,
       invoked := invoked st2 @
        (if sg \<in> set (FIRCLSFatalSignals os) \<and> sa_sigaction (old sg) \<noteq> 0 then [(sa_sigaction (old sg), sg)] else [])\<rparr>)"
    by (rule Preexisting_actions [OF sigs]) (use sg in simp)
  with rec(1) ptr info uap' have run: "FIRCLSSignalHandler os B ro sg info uap st = Returned (Running
      ((set_actions (set (FIRCLSFatalSignals os)) (\<lambda>s. if sa_sigaction (old s) \<noteq> 0 then old s else default_action os) st2)
      \<lparr>alt_stack := if ss_sp (originalStack ro) \<noteq> 0 then originalStack ro else alt_stack st2,
       invoked := invoked st2 @ (if sa_sigaction (old sg) \<noteq> 0 then [(sa_sigaction (old sg), sg)] else []),
       errno := errno st\<rparr>))"
    by (simp add: FIRCLSSignalHandler_def Let_def sg(1) split del: if_split flip: st1_def [unfolded st0_def] st2_def)
  show ?thesis
    by (intro exI conjI, rule run) (use rec(2) same in \<open>simp_all add: set_actions_def st2_def\<close>)
qed

end

end
