(* ===== verification/Cls_Mach.thy ===== *)
theory Cls_Mach
  imports Cls_Signal_Facts
begin

text \<open>
  FIRCLSMachException.c: taking over the exception ports of the task, the server thread that
  receives exception messages, and what it does with one. The kernel's table of exception ports is
  part of the state; what the kernel and the thread library answer, and the header constants, are
  parameters, in \<open>mach_os\<close>.
\<close>

section \<open>Data\<close>

record MachExceptionMessage =
  msgh_bits :: u32
  msgh_remote_port :: u32
  msgh_id :: int
  thread_name :: u32
  task_name :: u32
  exc_type :: int
  codeCnt :: u32
  codes :: "u64 list"

record MachExceptionReply =
  reply_bits :: u32
  reply_remote_port :: u32
  reply_id :: int
  retCode :: int

text \<open>One element of the parallel arrays of \<open>FIRCLSMachExceptionOriginalPorts\<close>.\<close>

record original_port =
  op_mask :: u32
  op_port :: u32
  op_behavior :: u32
  op_flavor :: u32

record FIRCLSMachExceptionReadContext =
  mach_port :: u32
  mach_path :: string
  exc_mask :: u32
  originalPorts :: "original_port list"

text \<open>For the exception with a given number: its port, behaviour and flavour.\<close>

type_synonym exc_table = "nat \<Rightarrow> u32 \<times> u32 \<times> u32"

text \<open>
  \<open>swap_groups\<close> is how the kernel groups the old ports of a mask; the next fields tell whether a
  call succeeds. \<open>remote_bits\<close> is the macro that makes the header bits of a reply.
\<close>

record mach_os =
  mach_constant :: "string \<Rightarrow> int"
  cpu_x86 :: bool
  task_self :: u32
  port_allocate :: "u32 option"
  insert_right_ok :: bool
  swap_ok :: bool
  swap_groups :: "u32 \<Rightarrow> exc_table \<Rightarrow> original_port list"
  set_ports_ok :: "u32 \<Rightarrow> u32 \<Rightarrow> bool"
  attr_init_ok :: bool
  attr_detach_ok :: bool
  attr_stack_ok :: bool
  thread_create_ok :: bool
  remote_bits :: "u32 \<Rightarrow> u32"
  send_ok :: "MachExceptionReply \<Rightarrow> bool"

record mach_state =
  exc_ports :: exc_table
  sig_state :: signal_state

section \<open>Exception ports\<close>

definition set_table :: "u32 \<Rightarrow> u32 \<times> u32 \<times> u32 \<Rightarrow> exc_table \<Rightarrow> exc_table" where
  "set_table m entry T = (\<lambda>i. if i < 32 \<and> bit m i then entry else T i)"

definition word_constant :: "mach_os \<Rightarrow> string \<Rightarrow> u32" where
  "word_constant os nm = of_int (mach_constant os nm)"

definition default_codes :: "mach_os \<Rightarrow> u32 \<times> u32" where
  "default_codes os =
     (word_constant os ''EXCEPTION_DEFAULT'' OR word_constant os ''MACH_EXCEPTION_CODES'',
      word_constant os ''THREAD_STATE_NONE'')"

definition FIRCLSMachExceptionMask :: "mach_os \<Rightarrow> u32" where
  "FIRCLSMachExceptionMask os =
     word_constant os ''EXC_MASK_BAD_ACCESS'' OR word_constant os ''EXC_MASK_BAD_INSTRUCTION'' OR
     word_constant os ''EXC_MASK_ARITHMETIC'' OR word_constant os ''EXC_MASK_BREAKPOINT'' OR
     word_constant os ''EXC_MASK_GUARD''"

definition FIRCLSMachExceptionMaskForSignal :: "mach_os \<Rightarrow> signal_os \<Rightarrow> int \<Rightarrow> u32" where
  "FIRCLSMachExceptionMaskForSignal os sos sg =
    (if sg = header_constant sos ''SIGTRAP'' then word_constant os ''EXC_MASK_BREAKPOINT''
     else if sg = header_constant sos ''SIGSEGV'' then word_constant os ''EXC_MASK_BAD_ACCESS''
     else if sg = header_constant sos ''SIGBUS'' then word_constant os ''EXC_MASK_BAD_ACCESS''
     else if sg = header_constant sos ''SIGILL'' then word_constant os ''EXC_MASK_BAD_INSTRUCTION''
     else if sg = header_constant sos ''SIGABRT'' then word_constant os ''EXC_MASK_CRASH''
     else if sg = header_constant sos ''SIGSYS'' then word_constant os ''EXC_MASK_CRASH''
     else if sg = header_constant sos ''SIGFPE'' then word_constant os ''EXC_MASK_ARITHMETIC''
     else 0)"

definition task_set_exception_ports :: "mach_os \<Rightarrow> u32 \<Rightarrow> u32 \<Rightarrow> u32 \<Rightarrow> u32 \<Rightarrow> exc_table \<Rightarrow> bool \<times> exc_table" where
  "task_set_exception_ports os m port behavior flavor T =
    (if set_ports_ok os m port then (True, set_table m (port, behavior, flavor) T) else (False, T))"

text \<open>A port that was allocated is not given back when the swap fails.\<close>

definition FIRCLSMachExceptionRegister ::
  "mach_os \<Rightarrow> FIRCLSMachExceptionReadContext \<times> exc_table \<Rightarrow> bool \<times> FIRCLSMachExceptionReadContext \<times> exc_table" where
  "FIRCLSMachExceptionRegister os = (\<lambda>(ctx, T).
    (case port_allocate os of
       None \<Rightarrow> (False, ctx, T)
     | Some port \<Rightarrow>
        let ctx = ctx\<lparr>mach_port := port\<rparr> in
        if \<not> insert_right_ok os then (False, ctx, T)
        else let ctx = ctx\<lparr>exc_mask := FIRCLSMachExceptionMask os\<rparr> in
          if \<not> swap_ok os then (False, ctx, T)
          else (True, ctx\<lparr>originalPorts := swap_groups os (exc_mask ctx) T\<rparr>,
                set_table (exc_mask ctx) (port, default_codes os) T)))"

text \<open>The loop over the original ports, with the mask that is left; its failures are only logged.\<close>

primrec restore_ports :: "mach_os \<Rightarrow> original_port list \<Rightarrow> u32 \<times> exc_table \<Rightarrow> u32 \<times> exc_table" where
  "restore_ports os [] s = s"
| "restore_ports os (e # es) s = restore_ports os es (fst s AND NOT (op_mask e),
     snd (task_set_exception_ports os (op_mask e) (op_port e) (op_behavior e) (op_flavor e) (snd s)))"

definition FIRCLSMachExceptionUnregister ::
  "mach_os \<Rightarrow> original_port list \<Rightarrow> u32 \<Rightarrow> exc_table \<Rightarrow> bool \<times> exc_table" where
  "FIRCLSMachExceptionUnregister os ports m T =
    (case restore_ports os ports (m, T) of (m, T) \<Rightarrow>
       task_set_exception_ports os m 0 (fst (default_codes os)) (snd (default_codes os)) T)"

section \<open>Initialisation\<close>

definition FIRCLSMachExceptionThreadStart :: "mach_os \<Rightarrow> bool" where
  "FIRCLSMachExceptionThreadStart os =
    (if \<not> attr_init_ok os then False
     else if \<not> attr_detach_ok os then False
     else if \<not> attr_stack_ok os then False
     else if \<not> thread_create_ok os then False
     else True)"

text \<open>The status added to the result tells whether the server thread runs.\<close>

definition FIRCLSMachExceptionInit ::
  "mach_os \<Rightarrow> file_os \<Rightarrow> FIRCLSMachExceptionReadContext \<times> exc_table \<Rightarrow>
     bool \<times> FIRCLSMachExceptionReadContext \<times> exc_table" where
  "FIRCLSMachExceptionInit os fos s =
    (let _ = FIRCLSUnlinkIfExists fos (mach_path (fst s)) in
     case FIRCLSMachExceptionRegister os s of (ok, ctx, T) \<Rightarrow>
       if \<not> ok then (False, ctx, T)
       else if \<not> FIRCLSMachExceptionThreadStart os
       then (False, ctx, snd (FIRCLSMachExceptionUnregister os (originalPorts ctx) (exc_mask ctx) T))
       else (True, ctx, T))"

section \<open>Recording\<close>

definition case_name :: "mach_os \<Rightarrow> int \<Rightarrow> string list \<Rightarrow> string option" where
  "case_name os v names = List.find (\<lambda>nm. mach_constant os nm = v) names"

definition arithmetic_codes :: "string list" where
  "arithmetic_codes = [''EXC_I386_DIV'', ''EXC_I386_INTO'', ''EXC_I386_NOEXT'', ''EXC_I386_EXTOVR'',
     ''EXC_I386_EXTERR'', ''EXC_I386_EMERR'', ''EXC_I386_BOUND'', ''EXC_I386_SSEEXTERR'']"

definition breakpoint_codes :: "string list" where
  "breakpoint_codes = [''EXC_I386_DIVERR'', ''EXC_I386_SGLSTP'', ''EXC_I386_NMIFLT'', ''EXC_I386_BPTFLT'',
     ''EXC_I386_INTOFLT'', ''EXC_I386_BOUNDFLT'', ''EXC_I386_INVOPFLT'', ''EXC_I386_NOEXTFLT'',
     ''EXC_I386_EXTOVRFLT'', ''EXC_I386_INVTSSFLT'', ''EXC_I386_SEGNPFLT'', ''EXC_I386_STKFLT'',
     ''EXC_I386_GPFLT'', ''EXC_I386_PGFLT'', ''EXC_I386_EXTERRFLT'', ''EXC_I386_ALIGNFLT'',
     ''EXC_I386_ENDPERR'', ''EXC_I386_ENOEXTFLT'']"

definition FIRCLSMachExceptionNameLookup :: "mach_os \<Rightarrow> int \<Rightarrow> int \<Rightarrow> string option \<times> string option" where
  "FIRCLSMachExceptionNameLookup os number code =
    (if number = mach_constant os ''EXC_BAD_ACCESS''
     then (Some ''EXC_BAD_ACCESS'', case_name os code [''KERN_INVALID_ADDRESS'', ''KERN_PROTECTION_FAILURE''])
     else if number = mach_constant os ''EXC_BAD_INSTRUCTION''
     then (Some ''EXC_BAD_INSTRUCTION'', if cpu_x86 os then Some ''EXC_I386_INVOP'' else None)
     else if number = mach_constant os ''EXC_ARITHMETIC''
     then (Some ''EXC_ARITHMETIC'', if cpu_x86 os then case_name os code arithmetic_codes else None)
     else if number = mach_constant os ''EXC_BREAKPOINT''
     then (Some ''EXC_BREAKPOINT'', if cpu_x86 os then case_name os code breakpoint_codes else None)
     else if number = mach_constant os ''EXC_GUARD'' then (Some ''EXC_GUARD'', None)
     else (None, None))"

text \<open>The codes the loop writes; \<open>None\<close> is a read past the array. The first code is signed.\<close>

definition message_codes :: "MachExceptionMessage \<Rightarrow> u64 list option" where
  "message_codes m = (if unat (codeCnt m) \<le> length (codes m) then Some (take (unat (codeCnt m)) (codes m)) else None)"

definition write_mach_section ::
  "mach_os \<Rightarrow> signal_os \<Rightarrow> FIRCLSMachExceptionReadContext \<Rightarrow> MachExceptionMessage \<Rightarrow> u64 list \<Rightarrow> FIRCLSFile \<Rightarrow> FIRCLSFile" where
  "write_mach_section os sos ctx m cds f =
    (let f = FIRCLSFileWriteHashStart (FIRCLSFileWriteSectionStart ''mach_exception'' f);
         f = FIRCLSFileWriteHashEntryUint64 ''exception'' (of_int (exc_type m)) f;
         f = FIRCLSFileWriteArrayStart (FIRCLSFileWriteHashKey ''codes'' f);
         f = FIRCLSFileWriteArrayEnd (fold FIRCLSFileWriteArrayEntryUint64 cds f);
         (nm, codeName) = FIRCLSMachExceptionNameLookup os (exc_type m) (case cds of [] \<Rightarrow> 0 | c # _ \<Rightarrow> sint c);
         f = FIRCLSFileWriteHashEntryString ''name'' nm f;
         f = FIRCLSFileWriteHashEntryString ''code_name'' codeName f;
         f = FIRCLSFileWriteHashEntryUint64 ''original_ports'' (of_nat (length (originalPorts ctx))) f;
         f = FIRCLSFileWriteHashEntryUint64 ''time'' (of_int (time_now sos)) f
     in FIRCLSFileWriteSectionEnd (FIRCLSFileWriteHashEnd f))"

definition FIRCLSMachExceptionRecord ::
  "mach_os \<Rightarrow> signal_os \<Rightarrow> 'c crash_build \<Rightarrow> FIRCLSMachExceptionReadContext \<Rightarrow> MachExceptionMessage \<Rightarrow>
     signal_state \<Rightarrow> (signal_state, bool \<times> signal_state) run loop_result" where
  "FIRCLSMachExceptionRecord os sos B ctx m st =
    (let (crashed, c) = FIRCLSContextMarkAndCheckIfCrashed (crash_context st); st = st\<lparr>crash_context := c\<rparr> in
     if crashed then Returned (Exited 1 st)
     else let st = st\<lparr>opened := opened st @ [mach_path ctx]\<rparr> in
       case FIRCLSFileInitWithPath (cb_files B) (Some (mach_path ctx)) False of
       None \<Rightarrow> Returned (Running (False, st))
     | Some f \<Rightarrow>
        bind_result (from_option (message_codes m)) (\<lambda>cds.
        bind_result (FIRCLSHandler B (thread_name m) 0 (internal_level c, write_mach_section os sos ctx m cds f))
          (\<lambda>(e, level, f).
             let (_, d) = FIRCLSFileClose (close_ok (cb_files B)) f in
             Returned (Running (True, st\<lparr>crash_context := c\<lparr>internal_level := level\<rparr>, report := Some d,
               effects := Some e\<rparr>)))))"

section \<open>The server\<close>

definition FIRCLSMachExceptionDispatchMessage ::
  "mach_os \<Rightarrow> signal_os \<Rightarrow> 'c crash_build \<Rightarrow> FIRCLSSignalReadContext \<Rightarrow> FIRCLSMachExceptionReadContext \<Rightarrow>
     MachExceptionMessage \<Rightarrow> mach_state \<Rightarrow> (mach_state, int \<times> mach_state) run loop_result" where
  "FIRCLSMachExceptionDispatchMessage os sos B ro ctx m st =
    (let failure = mach_constant os ''KERN_FAILURE''; success = mach_constant os ''KERN_SUCCESS'' in
     if task_name m \<noteq> task_self os then Returned (Running (failure, st))
     else case FIRCLSMachExceptionUnregister os (originalPorts ctx) (exc_mask ctx) (exc_ports st) of (ok, T) \<Rightarrow>
       let st = st\<lparr>exc_ports := T\<rparr> in
       if \<not> ok then Returned (Running (failure, st))
       else bind_result (from_option (FIRCLSSignalSafeInstallPreexistingHandlers sos ro (- 1) (sig_state st)))
        (\<lambda>(ok, s). let st = st\<lparr>sig_state := s\<rparr> in
          if \<not> ok then Returned (Running (failure, st))
          else bind_result (FIRCLSMachExceptionRecord os sos B ctx m s) (\<lambda>r.
            case r of
              Exited n s \<Rightarrow> Returned (Exited n (st\<lparr>sig_state := s\<rparr>))
            | Running (ok, s) \<Rightarrow>
               Returned (Running (if ok then success else failure, st\<lparr>sig_state := s\<rparr>)))))"

text \<open>\<open>msgh_id + 100\<close> is \<open>int\<close> arithmetic; \<open>None\<close> is its overflow.\<close>

definition FIRCLSMachExceptionReply :: "mach_os \<Rightarrow> MachExceptionMessage \<Rightarrow> int \<Rightarrow> MachExceptionReply option" where
  "FIRCLSMachExceptionReply os m result =
    (if msgh_id m + 100 < 2 ^ 31
     then Some \<lparr>reply_bits = remote_bits os (msgh_bits m), reply_remote_port = msgh_remote_port m,
                reply_id = msgh_id m + 100, retCode = result\<rparr>
     else None)"

text \<open>
  The loop over the outcomes of the receive calls: \<open>None\<close> is a failed receive, and the end of the
  list means that the server waits. The replies sent so far are in order.
\<close>

primrec FIRCLSMachExceptionServer ::
  "mach_os \<Rightarrow> signal_os \<Rightarrow> 'c crash_build \<Rightarrow> FIRCLSSignalReadContext \<Rightarrow> FIRCLSMachExceptionReadContext \<Rightarrow>
     MachExceptionMessage option list \<Rightarrow> mach_state \<times> MachExceptionReply list \<Rightarrow>
     (mach_state \<times> MachExceptionReply list, mach_state \<times> MachExceptionReply list) run loop_result" where
  "FIRCLSMachExceptionServer os sos B ro ctx [] s = Returned (Running s)"
| "FIRCLSMachExceptionServer os sos B ro ctx (received # rest) s =
    (case received of
       None \<Rightarrow> Returned (Running s)
     | Some m \<Rightarrow>
        bind_result (FIRCLSMachExceptionDispatchMessage os sos B ro ctx m (fst s)) (\<lambda>r.
          case r of
            Exited n st \<Rightarrow> Returned (Exited n (st, snd s))
          | Running (result, st) \<Rightarrow>
             bind_result (from_option (FIRCLSMachExceptionReply os m result)) (\<lambda>reply.
               if send_ok os reply then FIRCLSMachExceptionServer os sos B ro ctx rest (st, snd s @ [reply])
               else Returned (Running (st, snd s)))))"

end
