(* ===== verification/Cls_Signal_Properties.thy ===== *)
theory Cls_Signal_Properties
  imports Cls_Signal_Facts Cls_Report_Properties
begin

text \<open>
  The properties of the signal handler: the whole path from a signal to the report file, the signal
  table before and after, and the flag that lets one crash be recorded.
\<close>

section \<open>From the signal to the report\<close>


text \<open>Signal 11 at address 0xDEAD, with a previous handler at 0x8000.\<close>

definition demo_signal_os :: signal_os where
  "demo_signal_os = \<lparr>header_constant = (\<lambda>nm. case map_of (zip fatal_signal_names [6, 10, 8, 4, 11, 12, 5]) nm of
       Some n \<Rightarrow> n | None \<Rightarrow> 0),
     siginfo_onstack = 0x41, handler_address = 0x5000, sigaction_ok = (\<lambda>_. True), sigaltstack_ok = True,
     sigprocmask_ok = True, callable = (\<lambda>a. 4096 < a), time_now = 1700000000, self_thread = 0x403,
     signal_stack = 0x70000, signal_stack_size = 0x8000, stack_garbage = 0\<rparr>"

definition demo_runtime :: objc_runtime where
  "demo_runtime = \<lparr>objc_msgSend = 0x90000, objc_msgSendSuper = 0, objc_msgSend_stret = 0,
     objc_msgSendSuper_stret = 0, objc_msgSend_fpret = 0\<rparr>"

definition demo_files :: file_os where
  "demo_files = \<lparr>open_fd = (\<lambda>_ _. Some demo_device), file_size = (\<lambda>_. Some 0), write_buffer_ok = True,
     close_ok = True, unlink_result = (\<lambda>_. (True, False))\<rparr>"

definition demo_build :: "arm_state crash_build" where
  "demo_build = \<lparr>cb_env = demo_frames, cb_images = no_image, cb_recorder = demo_recorder,
     cb_selector = FIRCLSProcessGetObjCSelectorName_arm demo_frames demo_runtime plain_sdk,
     cb_files = demo_files, cb_marker = Some ''marker''\<rparr>"

definition demo_action :: sigaction_t where
  "demo_action = \<lparr>sa_sigaction = 0x8000, sa_flags = 0, sa_mask = []\<rparr>"

definition demo_signals :: signal_state where
  "demo_signals = \<lparr>actions = (\<lambda>_. demo_action), alt_stack = \<lparr>ss_sp = 0, ss_size = 0, ss_flags = 0\<rparr>, errno = 3,
     unblocked = False, invoked = [],
     crash_context = \<lparr>readonly_ptr = 0x10C040, initialized = True, crashOccurred = False, internal_level = 1\<rparr>,
     report = None, effects = None, opened = []\<rparr>"

definition demo_read_context :: FIRCLSSignalReadContext where
  "demo_read_context = \<lparr>signal_path = ''signal'', originalActions = replicate 7 demo_action,
     originalStack = \<lparr>ss_sp = 0, ss_size = 0, ss_flags = 0\<rparr>\<rparr>"

lemma demo_fatal: "FIRCLSFatalSignals demo_signal_os = [6, 10, 8, 4, 11, 12, 5]"
  by (simp add: FIRCLSFatalSignals_def demo_signal_os_def fatal_signal_names_def)

lemma demo_signals_ok: "signals_ok demo_signal_os"
  by (simp add: signals_ok_def demo_fatal) (simp add: demo_signal_os_def)



section \<open>The signal table\<close>

text \<open>
  C19. Installing and putting back are inverse: after initialisation every fatal signal has the
  Crashlytics handler, no other signal changed, and the check of the handlers finds nothing to
  complain about. Putting the previous handlers back without a signal to deliver, as the Mach
  exception handler does, gives every fatal signal its action from before, or the default when it had
  none, gives back the alternate stack when there was one, and calls no handler.
\<close>

theorem signal_handlers_restored:
  assumes "signals_ok os" and "length (originalActions ro) = 7" and "sigaltstack_ok os"
    and "FIRCLSSignalInitialize os fos (ro, st) = (ro', st')"
  shows "(\<forall>sg. actions st' sg = (if sg \<in> set (FIRCLSFatalSignals os) then crash_action os else actions st sg)) \<and>
    FIRCLSSignalCheckHandlers os False st' = [] \<and>
    (\<exists>st2. FIRCLSSignalSafeInstallPreexistingHandlers os ro' (- 1) st' = Some (True, st2) \<and>
      (\<forall>sg. actions st2 sg = (if sg \<in> set (FIRCLSFatalSignals os)
         then (if sa_sigaction (actions st sg) \<noteq> 0 then actions st sg else default_action os) else actions st sg)) \<and>
      (ss_sp (alt_stack st) \<noteq> 0 \<longrightarrow> alt_stack st2 = alt_stack st) \<and> invoked st2 = invoked st)"
proof -
  define st1 where "st1 = st\<lparr>alt_stack := \<lparr>ss_sp = signal_stack os, ss_size = signal_stack_size os, ss_flags = 0\<rparr>\<rparr>"
  have start: "FIRCLSSignalInstallHandlers os (ro\<lparr>originalStack := alt_stack st\<rparr>, st1) = (ro', st')"
    using assms(3,4) by (simp add: FIRCLSSignalInitialize_def FIRCLSSignalInstallAltStack_def st1_def Let_def)
  have len: "length (originalActions (ro\<lparr>originalStack := alt_stack st\<rparr>)) = 7" using assms(2) by simp
  from installed_Install [OF assms(1) len start]
  have inst: "installed os ro' (actions st)" "originalStack ro' = alt_stack st"
    and st': "st' = set_actions (set (FIRCLSFatalSignals os)) (\<lambda>_. crash_action os) st1" by (simp_all add: st1_def)
  have table: "\<forall>sg. actions st' sg = (if sg \<in> set (FIRCLSFatalSignals os) then crash_action os else actions st sg)"
    by (simp add: st' set_actions_def st1_def)
  have check: "fold (\<lambda>(i, sg) found. if \<not> sigaction_ok os sg then found
      else if sa_sigaction (actions st' sg) = handler_address os then found else found @ [sg]) (enumerate k sgs) [] = []"
    if "set sgs \<subseteq> set (FIRCLSFatalSignals os)" for k sgs
    using that by (induction sgs arbitrary: k) (simp_all add: table crash_action_def)
  have pos: "- 1 \<notin> set (FIRCLSFatalSignals os)" using assms(1) by (auto simp: signals_ok_def)
  have found: "FIRCLSSignalCheckHandlers os False st' = []"
    using check [OF subset_refl] by (simp add: FIRCLSSignalCheckHandlers_def FIRCLSSignalEnumerateHandledSignals_def)
  obtain st2 where st2: "FIRCLSSignalSafeInstallPreexistingHandlers os ro' (- 1) st' = Some (True, st2)"
    "st2 = (set_actions (set (FIRCLSFatalSignals os)) (\<lambda>s. if sa_sigaction (actions st s) \<noteq> 0 then actions st s
       else default_action os) st')\<lparr>alt_stack := if ss_sp (alt_stack st) \<noteq> 0 then alt_stack st else alt_stack st',
       invoked := invoked st'\<rparr>"
    using Preexisting_actions [OF assms(1) inst(1) assms(3), of "- 1" st'] pos inst(2) by simp
  have "actions st2 sg = (if sg \<in> set (FIRCLSFatalSignals os)
      then (if sa_sigaction (actions st sg) \<noteq> 0 then actions st sg else default_action os) else actions st sg)" for sg
    using table by (simp add: st2(2) set_actions_def)
  moreover have "ss_sp (alt_stack st) \<noteq> 0 \<longrightarrow> alt_stack st2 = alt_stack st" by (simp add: st2(2))
  moreover have "invoked st2 = invoked st" by (simp add: st2(2) st' set_actions_def st1_def)
  ultimately show ?thesis using table found st2(1) by blast
qed

lemma signal_handlers_restored_witness:
  "\<exists>ro' st' st2. FIRCLSSignalInitialize demo_signal_os demo_files (demo_read_context, demo_signals) = (ro', st') \<and>
    actions st' 11 = crash_action demo_signal_os \<and> FIRCLSSignalCheckHandlers demo_signal_os False st' = [] \<and>
    FIRCLSSignalSafeInstallPreexistingHandlers demo_signal_os ro' (- 1) st' = Some (True, st2) \<and>
    actions st2 11 = demo_action"
proof -
  obtain ro' st' where init: "FIRCLSSignalInitialize demo_signal_os demo_files (demo_read_context, demo_signals) = (ro', st')"
    by fastforce
  have "length (originalActions demo_read_context) = 7" "sigaltstack_ok demo_signal_os"
    by (simp_all add: demo_read_context_def demo_signal_os_def)
  from signal_handlers_restored [OF demo_signals_ok this init] obtain st2 where
    "\<forall>sg. actions st' sg = (if sg \<in> set (FIRCLSFatalSignals demo_signal_os) then crash_action demo_signal_os
       else actions demo_signals sg)" "FIRCLSSignalCheckHandlers demo_signal_os False st' = []"
    "FIRCLSSignalSafeInstallPreexistingHandlers demo_signal_os ro' (- 1) st' = Some (True, st2)"
    "\<forall>sg. actions st2 sg = (if sg \<in> set (FIRCLSFatalSignals demo_signal_os)
       then (if sa_sigaction (actions demo_signals sg) \<noteq> 0 then actions demo_signals sg
             else default_action demo_signal_os) else actions demo_signals sg)" by (elim conjE exE)
  moreover have "actions demo_signals 11 = demo_action" "sa_sigaction demo_action \<noteq> 0"
    by (simp_all add: demo_signals_def demo_action_def)
  ultimately show ?thesis
    by (intro exI [of _ ro'] exI [of _ st'] exI [of _ st2]) (simp add: init demo_fatal)
qed

text \<open>
  A signal that was ignored before (\<open>SIG_IGN\<close>, address 1) is put back and then called as if it were a
  function.
\<close>

lemma ignored_signal_called:
  assumes "sa_sigaction (originalActions ro ! i) = 1" and "\<not> callable os 1" and "0 \<le> sg"
  shows "reinstall_handler os ro sg (i, sg) (success, st) = None"
  using assms by (auto simp: reinstall_handler_def do_sigaction_def Let_def)

section \<open>One crash is recorded\<close>

text \<open>
  C33. A signal in a process that is already marked as crashed ends it with status 1, and this is all
  it does before: every fatal signal has the default action and no other signal changed, \<open>errno\<close> is
  cleared, and the signals are unblocked if the system allows it. No report file is opened, so nothing is
  written; no previous handler is called, and the context, the alternate stack and an earlier report stay
  as they are. In particular a crash inside the recording of a crash ends the process. The system is
  assumed to take \<open>sigaction\<close> for the fatal signals, and the context to be initialised.
\<close>

theorem second_crash_exits:
  assumes "FIRCLSContextIsInitialized (crash_context st)" and "crashOccurred (crash_context st)" and "signals_ok os"
  shows "FIRCLSSignalHandler os B ro sg info uap st = Returned (Exited 1
    (st\<lparr>actions := \<lambda>s. if s \<in> set (FIRCLSFatalSignals os) then default_action os else actions st s,
      errno := 0, unblocked := sigprocmask_ok os \<or> unblocked st\<rparr>))"
proof -
  define st1 where "st1 = (if sigprocmask_ok os
    then FIRCLSSignalSafeRemoveHandlers os True (st\<lparr>errno := 0\<rparr>)\<lparr>unblocked := True\<rparr>
    else FIRCLSSignalSafeRemoveHandlers os True (st\<lparr>errno := 0\<rparr>))"
  have st1: "st1 = st\<lparr>actions := \<lambda>s. if s \<in> set (FIRCLSFatalSignals os) then default_action os else actions st s,
      errno := 0, unblocked := sigprocmask_ok os \<or> unblocked st\<rparr>"
    by (auto simp: st1_def RemoveHandlers_actions [OF assms(3)] set_actions_def intro!: signal_state.equality)
  then have "crash_context st1 = crash_context st" by simp
  then have "FIRCLSSignalRecordSignal os B ro n si u st1 = Returned (Exited 1 st1)" for n si u
    using assms(1,2) Initialized_ptr
    by (simp add: FIRCLSSignalRecordSignal_def FIRCLSContextMarkAndCheckIfCrashed_def)
  then have "FIRCLSSignalHandler os B ro sg info uap st = Returned (Exited 1 st1)"
    by (simp add: FIRCLSSignalHandler_def Let_def split del: if_split flip: st1_def)
  then show ?thesis by (simp only: st1)
qed

lemma second_crash_exits_witness:
  "\<exists>st'. FIRCLSSignalHandler demo_signal_os demo_build demo_read_context 11 (0, \<lparr>si_signo = 11, si_code = 1, si_addr = 0\<rparr>) 0
     (demo_signals\<lparr>crash_context := (crash_context demo_signals)\<lparr>crashOccurred := True\<rparr>\<rparr>) = Returned (Exited 1 st') \<and>
     actions st' 11 = default_action demo_signal_os \<and> actions st' 12345 = demo_action \<and> opened st' = [] \<and>
     report st' = None \<and> invoked st' = []"
proof -
  let ?st = "demo_signals\<lparr>crash_context := (crash_context demo_signals)\<lparr>crashOccurred := True\<rparr>\<rparr>"
  have "FIRCLSContextIsInitialized (crash_context ?st)" "crashOccurred (crash_context ?st)"
    by (simp_all add: FIRCLSContextIsInitialized_def FIRCLSIsValidPointer_def demo_signals_def)
  from second_crash_exits [OF this demo_signals_ok] show ?thesis
    by (intro exI conjI, assumption) (simp_all add: demo_fatal, simp_all add: demo_signals_def)
qed

text \<open>
  C34. The test and the setting of the flag are two accesses: two threads that crash at the same time
  can both find it clear and both record, into the same files. What does hold in every interleaving:
  the flag is set as soon as one thread records, it is never cleared, and a thread only aborts when
  the flag is set.
\<close>

theorem crash_flag_race:
  "(\<exists>s i j. mark_reachable s \<and> i \<noteq> j \<and> mark_pcs s i = Recording \<and> mark_pcs s j = Recording) \<and>
   (\<forall>s. mark_reachable s \<longrightarrow> (\<forall>i. mark_pcs s i \<in> {Recording, Aborting} \<longrightarrow> crash_flag s)) \<and>
   (\<forall>s s'. mark_step s s' \<and> crash_flag s \<longrightarrow> crash_flag s')"
proof (intro conjI)
  let ?s0 = "\<lparr>crash_flag = False, mark_pcs = \<lambda>_. Checking\<rparr>"
  let ?s1 = "?s0\<lparr>mark_pcs := (\<lambda>_. Checking)(0 := Marking)\<rparr>"
  let ?s2 = "?s1\<lparr>mark_pcs := (mark_pcs ?s1)(1 := Marking)\<rparr>"
  let ?s3 = "?s2\<lparr>crash_flag := True, mark_pcs := (mark_pcs ?s2)(0 := Recording)\<rparr>"
  let ?s4 = "?s3\<lparr>crash_flag := True, mark_pcs := (mark_pcs ?s3)(1 := Recording)\<rparr>"
  have "mark_step ?s0 ?s1" using mark_clear [of ?s0 0] by simp
  note r1 = mark_more [OF mark_init this]
  have "mark_step ?s1 ?s2" by (rule mark_clear) simp_all
  note r2 = mark_more [OF r1 this]
  have "mark_step ?s2 ?s3" by (rule mark_set) simp
  note r3 = mark_more [OF r2 this]
  have "mark_step ?s3 ?s4" by (rule mark_set) simp
  note r4 = mark_more [OF r3 this]
  show "\<exists>s i j. mark_reachable s \<and> i \<noteq> j \<and> mark_pcs s i = Recording \<and> mark_pcs s j = Recording"
    by (rule exI [of _ ?s4], rule exI [of _ 0], rule exI [of _ 1]) (use r4 in simp)
  show "\<forall>s. mark_reachable s \<longrightarrow> (\<forall>i. mark_pcs s i \<in> {Recording, Aborting} \<longrightarrow> crash_flag s)"
  proof (intro allI impI)
    fix s i assume "mark_reachable s" and "mark_pcs s i \<in> {Recording, Aborting}"
    then show "crash_flag s"
      by (induction arbitrary: i rule: mark_reachable.induct) (auto elim!: mark_stepE split: if_splits, blast+)
  qed
  show "\<forall>s s'. mark_step s s' \<and> crash_flag s \<longrightarrow> crash_flag s'"
    by (auto elim!: mark_stepE)
qed

lemma crash_flag_race_witness:
  "\<exists>s. mark_reachable s \<and> crash_flag s"
proof -
  obtain s i j where s: "mark_reachable s" "mark_pcs s i = Recording" using crash_flag_race by blast
  then have "crash_flag s" using crash_flag_race by blast
  with s(1) show ?thesis by blast
qed

end
