(* ===== verification/Cls_Mach_Properties.thy ===== *)
theory Cls_Mach_Properties
  imports Cls_Mach Cls_Signal_Properties
begin

text \<open>
  The properties of the Mach exception handler: the exception ports before and after, and what the
  server does with the messages it receives.
\<close>

section \<open>Exception ports\<close>

text \<open>
  What the kernel documents of the ports it hands over: every group lies in the mask and holds
  exceptions with the port, behaviour and flavour it names, and every exception of the mask that had
  a port is in a group.
\<close>

definition groups_ok :: "u32 \<Rightarrow> exc_table \<Rightarrow> original_port list \<Rightarrow> bool" where
  "groups_ok m T es \<longleftrightarrow>
     (\<forall>e \<in> set es. \<forall>i < 32. bit (op_mask e) i \<longrightarrow> bit m i \<and> T i = (op_port e, op_behavior e, op_flavor e)) \<and>
     (\<forall>i < 32. bit m i \<and> fst (T i) \<noteq> 0 \<longrightarrow> (\<exists>e \<in> set es. bit (op_mask e) i))"

lemma restore_ports_table:
  assumes "\<forall>e \<in> set es. \<forall>i < 32. bit (op_mask e) i \<longrightarrow> T i = (op_port e, op_behavior e, op_flavor e)"
    and "\<And>m p. set_ports_ok os m p"
  shows "(\<forall>i < 32. bit (fst (restore_ports os es (m, T'))) i \<longleftrightarrow> bit m i \<and> \<not> (\<exists>e \<in> set es. bit (op_mask e) i)) \<and>
    (\<forall>i. snd (restore_ports os es (m, T')) i = (if i < 32 \<and> (\<exists>e \<in> set es. bit (op_mask e) i) then T i else T' i))"
  using assms(1)
proof (induction es arbitrary: m T')
  case (Cons e es)
  define T1 where "T1 = set_table (op_mask e) (op_port e, op_behavior e, op_flavor e) T'"
  define m1 where "m1 = m AND NOT (op_mask e)"
  have step: "restore_ports os (e # es) (m, T') = restore_ports os es (m1, T1)"
    by (simp add: task_set_exception_ports_def assms(2) T1_def m1_def)
  have tab: "T1 i = (if i < 32 \<and> bit (op_mask e) i then T i else T' i)" for i
    using Cons.prems by (auto simp: T1_def set_table_def)
  have bits: "bit m1 i \<longleftrightarrow> bit m i \<and> \<not> bit (op_mask e) i" if "i < 32" for i
    using that by (simp add: m1_def bit_simps)
  have cons: "\<forall>e \<in> set es. \<forall>i < 32. bit (op_mask e) i \<longrightarrow> T i = (op_port e, op_behavior e, op_flavor e)"
    using Cons.prems by simp
  obtain r T2 where r: "restore_ports os es (m1, T1) = (r, T2)" by fastforce
  note IH = Cons.IH [OF cons, of m1 T1, unfolded r fst_conv snd_conv]
  have "T2 i = (if i < 32 \<and> (\<exists>e \<in> set (e # es). bit (op_mask e) i) then T i else T' i)" for i
    using IH tab [of i] by auto
  moreover have "bit r i \<longleftrightarrow> bit m i \<and> \<not> (\<exists>e \<in> set (e # es). bit (op_mask e) i)" if "i < 32" for i
    using IH bits [OF that] that by auto
  ultimately show ?case unfolding step r fst_conv snd_conv by blast
qed simp

lemma Unregister_table:
  assumes "groups_ok m T es" and "\<And>m p. set_ports_ok os m p"
    and "\<And>i. \<not> (i < 32 \<and> bit m i) \<Longrightarrow> T' i = T i"
  shows "\<exists>T2. FIRCLSMachExceptionUnregister os es m T' = (True, T2) \<and>
    (\<forall>i. fst (T2 i) = fst (T i) \<and> (fst (T i) \<noteq> 0 \<or> \<not> (i < 32 \<and> bit m i) \<longrightarrow> T2 i = T i))"
proof -
  obtain r T1 where r: "restore_ports os es (m, T') = (r, T1)" by fastforce
  have cons: "\<forall>e \<in> set es. \<forall>i < 32. bit (op_mask e) i \<longrightarrow> T i = (op_port e, op_behavior e, op_flavor e)"
    using assms(1) by (simp add: groups_ok_def)
  note tab = restore_ports_table [where os = os and m = m and T' = T', OF cons assms(2), unfolded r fst_conv snd_conv]
  define T2 where "T2 = set_table r (0, fst (default_codes os), snd (default_codes os)) T1"
  have "FIRCLSMachExceptionUnregister os es m T' = (True, T2)"
    by (simp add: FIRCLSMachExceptionUnregister_def r task_set_exception_ports_def assms(2) T2_def)
  moreover have "fst (T2 i) = fst (T i) \<and> (fst (T i) \<noteq> 0 \<or> \<not> (i < 32 \<and> bit m i) \<longrightarrow> T2 i = T i)" for i
  proof (cases "i < 32 \<and> (\<exists>e \<in> set es. bit (op_mask e) i)")
    case True
    then have "T2 i = T i" using tab by (auto simp: T2_def set_table_def)
    then show ?thesis by simp
  next
    case False
    then have T1: "T1 i = T' i" using tab by presburger
    show ?thesis
    proof (cases "i < 32 \<and> bit m i")
      case True
      then have "fst (T i) = 0" using False assms(1) by (auto simp: groups_ok_def)
      moreover have "bit r i" using True False tab by blast
      ultimately show ?thesis using True by (simp add: T2_def set_table_def)
    next
      case out: False
      then have "\<not> (i < 32 \<and> bit r i)" using tab by blast
      then show ?thesis using out T1 assms(3) [OF out] by (auto simp: T2_def set_table_def)
    qed
  qed
  ultimately show ?thesis by blast
qed

text \<open>
  C20. Registering takes the exceptions of the mask and no others, and giving them back is inverse:
  every exception of the task gets the port it had before, with its behaviour and flavour when it had
  one, and the exceptions outside the mask never change.
\<close>

theorem mach_ports_restored:
  assumes "FIRCLSMachExceptionRegister os (ctx, T) = (True, ctx', T')"
    and "groups_ok (FIRCLSMachExceptionMask os) T (swap_groups os (FIRCLSMachExceptionMask os) T)"
    and "\<And>m p. set_ports_ok os m p"
  shows "(\<forall>i. T' i = (if i < 32 \<and> bit (exc_mask ctx') i then (mach_port ctx', default_codes os) else T i)) \<and>
    (\<exists>T2. FIRCLSMachExceptionUnregister os (originalPorts ctx') (exc_mask ctx') T' = (True, T2) \<and>
      (\<forall>i. fst (T2 i) = fst (T i) \<and> (fst (T i) \<noteq> 0 \<or> \<not> (i < 32 \<and> bit (exc_mask ctx') i) \<longrightarrow> T2 i = T i)))"
proof -
  have ctx': "exc_mask ctx' = FIRCLSMachExceptionMask os"
    "originalPorts ctx' = swap_groups os (FIRCLSMachExceptionMask os) T"
    "T' = set_table (exc_mask ctx') (mach_port ctx', default_codes os) T"
    using assms(1) by (auto simp: FIRCLSMachExceptionRegister_def Let_def split: option.splits if_splits)
  have "\<exists>T2. FIRCLSMachExceptionUnregister os (originalPorts ctx') (exc_mask ctx') T' = (True, T2) \<and>
      (\<forall>i. fst (T2 i) = fst (T i) \<and> (fst (T i) \<noteq> 0 \<or> \<not> (i < 32 \<and> bit (exc_mask ctx') i) \<longrightarrow> T2 i = T i))"
    by (rule Unregister_table) (use assms(2,3) in \<open>auto simp: ctx'(1,2) ctx'(3) set_table_def\<close>)
  then show ?thesis by (simp add: ctx'(3) set_table_def)
qed

text \<open>Two original ports: one for bad accesses, one for breakpoints; no port for the rest.\<close>

definition demo_mach_constants :: "(string \<times> int) list" where
  "demo_mach_constants = [(''EXC_MASK_BAD_ACCESS'', 2), (''EXC_MASK_BAD_INSTRUCTION'', 4), (''EXC_MASK_ARITHMETIC'', 8),
     (''EXC_MASK_BREAKPOINT'', 64), (''EXC_MASK_GUARD'', 4096), (''EXC_BAD_ACCESS'', 1), (''EXC_BAD_INSTRUCTION'', 2),
     (''EXC_ARITHMETIC'', 3), (''EXC_BREAKPOINT'', 6), (''EXC_GUARD'', 12), (''KERN_FAILURE'', 5), (''KERN_SUCCESS'', 0),
     (''KERN_INVALID_ADDRESS'', 1), (''KERN_PROTECTION_FAILURE'', 2), (''EXCEPTION_DEFAULT'', 1),
     (''MACH_EXCEPTION_CODES'', - 2147483648), (''THREAD_STATE_NONE'', 13)]"

definition demo_ports :: exc_table where
  "demo_ports = (\<lambda>_. (0, 0, 0))(1 := (0x707, 1, 5), 6 := (0x707, 1, 5), 10 := (0x909, 2, 7))"

definition demo_mach_os :: mach_os where
  "demo_mach_os = \<lparr>mach_constant = (\<lambda>nm. case map_of demo_mach_constants nm of Some n \<Rightarrow> n | None \<Rightarrow> - 1),
     cpu_x86 = False, task_self = 0x103, port_allocate = Some 0x1F03, insert_right_ok = True, swap_ok = True,
     swap_groups = (\<lambda>_ _. [\<lparr>op_mask = 66, op_port = 0x707, op_behavior = 1, op_flavor = 5\<rparr>]),
     set_ports_ok = (\<lambda>_ _. True), attr_init_ok = True, attr_detach_ok = True, attr_stack_ok = True,
     thread_create_ok = True, remote_bits = (\<lambda>b. b AND 31), send_ok = (\<lambda>_. True)\<rparr>"

definition demo_mach_context :: FIRCLSMachExceptionReadContext where
  "demo_mach_context = \<lparr>mach_port = 0, mach_path = ''mach'', exc_mask = 0, originalPorts = []\<rparr>"

lemma demo_mask: "FIRCLSMachExceptionMask demo_mach_os = 0x104E"
  by (simp add: FIRCLSMachExceptionMask_def word_constant_def demo_mach_os_def demo_mach_constants_def)

lemma demo_groups: "groups_ok (FIRCLSMachExceptionMask demo_mach_os) demo_ports
    (swap_groups demo_mach_os (FIRCLSMachExceptionMask demo_mach_os) demo_ports)"
proof -
  have bits: "bit (66 :: u32) i \<longleftrightarrow> i = 1 \<or> i = 6" if "i < 32" for i
  proof -
    have "\<forall>i \<in> set [0..<32]. bit (66 :: u32) i \<longleftrightarrow> i = 1 \<or> i = 6" by code_simp
    with that show ?thesis by simp
  qed
  have m: "bit (0x104E :: u32) 1" "bit (0x104E :: u32) 6" "\<not> bit (0x104E :: u32) 10" by code_simp+
  have groups: "swap_groups demo_mach_os w T = [\<lparr>op_mask = 66, op_port = 0x707, op_behavior = 1, op_flavor = 5\<rparr>]" for w T
    by (simp add: demo_mach_os_def)
  have port: "fst (demo_ports i) \<noteq> 0 \<longleftrightarrow> i = 1 \<or> i = 6 \<or> i = 10" for i by (simp add: demo_ports_def)
  show ?thesis
    unfolding groups_ok_def demo_mask groups port
  proof (intro conjI allI impI)
    show "\<forall>e \<in> set [\<lparr>op_mask = 66, op_port = 0x707, op_behavior = 1, op_flavor = 5\<rparr>]. \<forall>i < 32. bit (op_mask e) i \<longrightarrow>
        bit (0x104E :: u32) i \<and> demo_ports i = (op_port e, op_behavior e, op_flavor e)"
      using m(1,2) bits by (auto simp: demo_ports_def)
    fix i :: nat assume i: "i < 32" "bit (0x104E :: u32) i \<and> (i = 1 \<or> i = 6 \<or> i = 10)"
    then have "i = 1 \<or> i = 6" using m(3) by auto
    then have "bit (66 :: u32) i" using bits [OF i(1)] by blast
    then show "\<exists>e \<in> set [\<lparr>op_mask = 66, op_port = 0x707, op_behavior = 1, op_flavor = 5\<rparr>]. bit (op_mask e) i" by simp
  qed
qed

lemma mach_ports_restored_witness:
  "\<exists>ctx' T' T2. FIRCLSMachExceptionRegister demo_mach_os (demo_mach_context, demo_ports) = (True, ctx', T') \<and>
    FIRCLSMachExceptionUnregister demo_mach_os (originalPorts ctx') (exc_mask ctx') T' = (True, T2) \<and>
    T2 1 = (0x707, 1, 5) \<and> fst (T2 2) = 0 \<and> T2 10 = (0x909, 2, 7)"
proof -
  obtain ctx' T' where reg: "FIRCLSMachExceptionRegister demo_mach_os (demo_mach_context, demo_ports) = (True, ctx', T')"
    by (simp add: FIRCLSMachExceptionRegister_def demo_mach_os_def Let_def)
  have "set_ports_ok demo_mach_os m p" for m p by (simp add: demo_mach_os_def)
  from mach_ports_restored [OF reg demo_groups this] obtain T2 where
    T2: "FIRCLSMachExceptionUnregister demo_mach_os (originalPorts ctx') (exc_mask ctx') T' = (True, T2)"
    "\<forall>i. fst (T2 i) = fst (demo_ports i) \<and>
      (fst (demo_ports i) \<noteq> 0 \<or> \<not> (i < 32 \<and> bit (exc_mask ctx') i) \<longrightarrow> T2 i = demo_ports i)" by blast
  then have "T2 1 = demo_ports 1" "fst (T2 2) = fst (demo_ports 2)" "T2 10 = demo_ports 10"
    by (simp_all add: demo_ports_def)
  with reg T2(1) show ?thesis
    by (intro exI [of _ ctx'] exI [of _ T'] exI [of _ T2]) (simp add: demo_ports_def)
qed

section \<open>The server\<close>

definition mach_json :: "mach_os \<Rightarrow> signal_os \<Rightarrow> FIRCLSMachExceptionReadContext \<Rightarrow> MachExceptionMessage \<Rightarrow> u64 list \<Rightarrow> json" where
  "mach_json os sos ctx m cds = (let (nm, codeName) = FIRCLSMachExceptionNameLookup os (exc_type m)
       (case cds of [] \<Rightarrow> 0 | c # _ \<Rightarrow> sint c) in
     JObj [(''mach_exception'', JObj [(''exception'', JNum (unat (of_int (exc_type m) :: u64))),
       (''codes'', JArr (map (\<lambda>c. JNum (unat c)) cds)), (''name'', string_json nm), (''code_name'', string_json codeName),
       (''original_ports'', JNum (unat (of_nat (length (originalPorts ctx)) :: u64))),
       (''time'', JNum (unat (of_int (time_now sos) :: u64)))])])"

lemma write_mach_section_line:
  assumes "at_top f"
  shows "appends_line f (mach_json os sos ctx m cds) (write_mach_section os sos ctx m cds f)"
proof -
  obtain nm codeName where nm: "FIRCLSMachExceptionNameLookup os (exc_type m) (case cds of [] \<Rightarrow> 0 | c # _ \<Rightarrow> sint c) = (nm, codeName)"
    by fastforce
  have "writes_items (fold FIRCLSFileWriteArrayEntryUint64 cds) (concat (map (\<lambda>c. [json_text (JNum (unat c))]) cds))"
    by (rule writes_items_fold) (rule entry_writers(5))
  from key_items [OF array_items [OF this], of "''codes''"]
  have arr: "writes_items (\<lambda>f. FIRCLSFileWriteArrayEnd (fold FIRCLSFileWriteArrayEntryUint64 cds (FIRCLSFileWriteArrayStart
      (FIRCLSFileWriteHashKey ''codes'' f)))) (members [(''codes'', JArr (map (\<lambda>c. JNum (unat c)) cds))])"
    by (simp add: comp_def)
  let ?kvs = "[(''exception'', JNum (unat (of_int (exc_type m) :: u64)))] @ [(''codes'', JArr (map (\<lambda>c. JNum (unat c)) cds))] @
    [(''name'', string_json nm)] @ [(''code_name'', string_json codeName)] @
    [(''original_ports'', JNum (unat (of_nat (length (originalPorts ctx)) :: u64)))] @
    [(''time'', JNum (unat (of_int (time_now sos) :: u64)))]"
  note w = writes_items_comp [OF writes_items_comp [OF writes_items_comp [OF writes_items_comp [OF writes_items_comp [OF
    uint64_member [of "''exception''" "of_int (exc_type m)"] arr] string_member [of "''name''" nm]]
    string_member [of "''code_name''" codeName]] uint64_member [of "''original_ports''" "of_nat (length (originalPorts ctx))"]]
    uint64_member [of "''time''" "of_int (time_now sos)"]]
  from hash_items [OF w] have "writes_items (\<lambda>f. FIRCLSFileWriteHashEnd
      (FIRCLSFileWriteHashEntryUint64 ''time'' (of_int (time_now sos))
      (FIRCLSFileWriteHashEntryUint64 ''original_ports'' (of_nat (length (originalPorts ctx)))
      (FIRCLSFileWriteHashEntryString ''code_name'' codeName (FIRCLSFileWriteHashEntryString ''name'' nm
      (FIRCLSFileWriteArrayEnd (fold FIRCLSFileWriteArrayEntryUint64 cds (FIRCLSFileWriteArrayStart
      (FIRCLSFileWriteHashKey ''codes'' (FIRCLSFileWriteHashEntryUint64 ''exception'' (of_int (exc_type m))
      (FIRCLSFileWriteHashStart f))))))))))) [json_text (JObj ?kvs)]"
    by (simp add: member_text_def)
  from section_line [OF assms this, of "''mach_exception''"] show ?thesis
    by (simp add: write_mach_section_def mach_json_def nm Let_def del: json_text.simps)
qed

text \<open>
  A server whose kernel takes every call, with the ports and signal handlers it replaced, before any crash.
\<close>

definition mach_ready ::
  "mach_os \<Rightarrow> signal_os \<Rightarrow> FIRCLSSignalReadContext \<Rightarrow> (int \<Rightarrow> sigaction_t) \<Rightarrow> FIRCLSMachExceptionReadContext \<Rightarrow>
     exc_table \<Rightarrow> mach_state \<Rightarrow> file_os \<Rightarrow> cls_device \<Rightarrow> bool" where
  "mach_ready os sos ro old ctx T st fos d \<longleftrightarrow> (\<forall>m p. set_ports_ok os m p) \<and> (\<forall>r. send_ok os r) \<and>
     groups_ok (exc_mask ctx) T (originalPorts ctx) \<and>
     (\<forall>i. \<not> (i < 32 \<and> bit (exc_mask ctx) i) \<longrightarrow> exc_ports st i = T i) \<and>
     signals_ok sos \<and> installed sos ro old \<and> sigaltstack_ok sos \<and>
     ready_to_record (crash_context (sig_state st)) fos (mach_path ctx) d"

text \<open>Ports and signals as they were before Crashlytics, and the crash marked.\<close>

definition handed_back ::
  "signal_os \<Rightarrow> (int \<Rightarrow> sigaction_t) \<Rightarrow> exc_table \<Rightarrow> mach_state \<Rightarrow> mach_state \<Rightarrow> bool" where
  "handed_back sos old T st st' \<longleftrightarrow> (\<forall>i. fst (exc_ports st' i) = fst (T i) \<and> (fst (T i) \<noteq> 0 \<longrightarrow> exc_ports st' i = T i)) \<and>
     (\<forall>s. actions (sig_state st') s = (if s \<in> set (FIRCLSFatalSignals sos)
        then (if sa_sigaction (old s) \<noteq> 0 then old s else default_action sos) else actions (sig_state st) s)) \<and>
     FIRCLSContextIsInitialized (crash_context (sig_state st')) \<and> crashOccurred (crash_context (sig_state st'))"

lemma minus_one_not_fatal: "signals_ok os \<Longrightarrow> - 1 \<notin> set (FIRCLSFatalSignals os)"
  by (auto simp: signals_ok_def)

context thread_recorder
begin

lemma Dispatch_report:
  assumes B: "cb_recorder B = R" and own: "task_name m = task_self os"
    and ready: "mach_ready os sos ro old ctx T st (cb_files B) d"
    and p: "FIRCLSProcessInit (rec_os R) (thread_name m) 0 = (ok, p)" and obs: "crash_observed B p F"
    and cds: "message_codes m = Some cds"
  shows "\<exists>st' d'. FIRCLSMachExceptionDispatchMessage os sos B ro ctx m st =
      Returned (Running (mach_constant os ''KERN_SUCCESS'', st')) \<and> handed_back sos old T st st' \<and>
    report (sig_state st') = Some d' \<and> opened (sig_state st') = opened (sig_state st) @ [mach_path ctx] \<and>
    dev_bytes d' = dev_bytes d @ lines_text (mach_json os sos ctx m cds # report_lines R regs p F)"
proof -
  have r: "\<And>m p. set_ports_ok os m p" "groups_ok (exc_mask ctx) T (originalPorts ctx)"
    "\<And>i. \<not> (i < 32 \<and> bit (exc_mask ctx) i) \<Longrightarrow> exc_ports st i = T i"
    "signals_ok sos" "installed sos ro old" "sigaltstack_ok sos"
    "ready_to_record (crash_context (sig_state st)) (cb_files B) (mach_path ctx) d"
    using ready unfolding mach_ready_def by blast+
  obtain T2 where T2: "FIRCLSMachExceptionUnregister os (originalPorts ctx) (exc_mask ctx) (exc_ports st) = (True, T2)"
    "\<forall>i. fst (T2 i) = fst (T i) \<and> (fst (T i) \<noteq> 0 \<or> \<not> (i < 32 \<and> bit (exc_mask ctx) i) \<longrightarrow> T2 i = T i)"
    using Unregister_table [where os = os, OF r(2,1,3)] by blast
  let ?sigs = "set (FIRCLSFatalSignals sos)"
  define s1 where "s1 = (set_actions ?sigs (\<lambda>s. if sa_sigaction (old s) \<noteq> 0 then old s else default_action sos) (sig_state st))
    \<lparr>alt_stack := if ss_sp (originalStack ro) \<noteq> 0 then originalStack ro else alt_stack (sig_state st),
     invoked := invoked (sig_state st)\<rparr>"
  have s1: "FIRCLSSignalSafeInstallPreexistingHandlers sos ro (- 1) (sig_state st) = Some (True, s1)"
    using Preexisting_actions [OF r(4-6), of "- 1" "sig_state st"] minus_one_not_fatal [OF r(4)] by (simp add: s1_def)
  have ctx1: "crash_context s1 = crash_context (sig_state st)" "opened s1 = opened (sig_state st)" by (simp_all add: s1_def set_actions_def)
  let ?c = "(crash_context (sig_state st))\<lparr>crashOccurred := True\<rparr>"
  obtain f where f: "FIRCLSContextMarkAndCheckIfCrashed (crash_context (sig_state st)) = (False, ?c)"
    "FIRCLSFileInitWithPath (cb_files B) (Some (mach_path ctx)) False = Some f" "at_top f" "file_text f = dev_bytes d"
    using ready_to_record_file [OF r(7)] by (elim exE conjE)
  obtain e g where g: "FIRCLSHandler B (thread_name m) 0 (internal_level ?c, write_mach_section os sos ctx m cds f) =
      Returned (e, internal_level ?c, g)" "dev_bytes (snd (FIRCLSFileClose (close_ok (cb_files B)) g)) =
      file_text f @ lines_text (mach_json os sos ctx m cds # report_lines R regs p F)"
    using recorded_file [OF B p obs write_mach_section_line [OF f(3)]] by blast
  define s2 where "s2 = s1\<lparr>crash_context := ?c, report := Some (snd (FIRCLSFileClose (close_ok (cb_files B)) g)), effects := Some e,
    opened := opened s1 @ [mach_path ctx]\<rparr>"
  have "FIRCLSMachExceptionRecord os sos B ctx m s1 = Returned (Running (True, s2))"
    using f(1,2) g(1) by (simp add: FIRCLSMachExceptionRecord_def Let_def case_prod_unfold ctx1 cds s2_def)
  with own T2(1) s1 have "FIRCLSMachExceptionDispatchMessage os sos B ro ctx m st =
      Returned (Running (mach_constant os ''KERN_SUCCESS'', st\<lparr>exc_ports := T2, sig_state := s2\<rparr>))"
    by (simp add: FIRCLSMachExceptionDispatchMessage_def Let_def)
  moreover have "handed_back sos old T st (st\<lparr>exc_ports := T2, sig_state := s2\<rparr>)"
  proof -
    have "FIRCLSContextIsInitialized (crash_context (sig_state st))"
      using r(7) by (simp add: ready_to_record_def)
    then have "FIRCLSContextIsInitialized (crash_context s2)"
      by (simp add: s2_def FIRCLSContextIsInitialized_def split: if_splits)
    then show ?thesis using T2(2)
      by (simp add: handed_back_def) (simp add: s2_def s1_def set_actions_def)
  qed
  moreover have "report (sig_state (st\<lparr>exc_ports := T2, sig_state := s2\<rparr>)) =
      Some (snd (FIRCLSFileClose (close_ok (cb_files B)) g))"
    "opened (sig_state (st\<lparr>exc_ports := T2, sig_state := s2\<rparr>)) = opened (sig_state st) @ [mach_path ctx]"
    by (simp_all add: s2_def ctx1)
  ultimately show ?thesis using g(2) unfolding f(4) by blast
qed

end














end
