(* ===== verification/Pb_Common.thy ===== *)
theory Pb_Common
  imports Cls_Memory
begin

text \<open>
  pb.h and pb_common.c of nanopb: the field descriptors a message type is given by, and the iterator
  that walks over them. The library is built as the pod builds it: \<open>PB_FIELD_32BIT\<close>, so the sizes and
  offsets of a descriptor are 32 bits wide, and \<open>PB_ENABLE_MALLOC\<close>. Pointers have 64 bits.
\<close>

section \<open>Descriptors\<close>

abbreviation (input) "PB_LTYPE_BOOL \<equiv> 0 :: u8"
abbreviation (input) "PB_LTYPE_VARINT \<equiv> 1 :: u8"
abbreviation (input) "PB_LTYPE_UVARINT \<equiv> 2 :: u8"
abbreviation (input) "PB_LTYPE_SVARINT \<equiv> 3 :: u8"
abbreviation (input) "PB_LTYPE_FIXED32 \<equiv> 4 :: u8"
abbreviation (input) "PB_LTYPE_FIXED64 \<equiv> 5 :: u8"
abbreviation (input) "PB_LTYPE_LAST_PACKABLE \<equiv> 5 :: u8"
abbreviation (input) "PB_LTYPE_BYTES \<equiv> 6 :: u8"
abbreviation (input) "PB_LTYPE_STRING \<equiv> 7 :: u8"
abbreviation (input) "PB_LTYPE_SUBMESSAGE \<equiv> 8 :: u8"
abbreviation (input) "PB_LTYPE_EXTENSION \<equiv> 9 :: u8"
abbreviation (input) "PB_LTYPE_FIXED_LENGTH_BYTES \<equiv> 10 :: u8"
abbreviation (input) "PB_LTYPES_COUNT \<equiv> 11 :: u8"

abbreviation (input) "PB_HTYPE_REQUIRED \<equiv> 0 :: u8"
abbreviation (input) "PB_HTYPE_OPTIONAL \<equiv> 0x10 :: u8"
abbreviation (input) "PB_HTYPE_REPEATED \<equiv> 0x20 :: u8"
abbreviation (input) "PB_HTYPE_ONEOF \<equiv> 0x30 :: u8"

abbreviation (input) "PB_ATYPE_STATIC \<equiv> 0 :: u8"
abbreviation (input) "PB_ATYPE_POINTER \<equiv> 0x80 :: u8"
abbreviation (input) "PB_ATYPE_CALLBACK \<equiv> 0x40 :: u8"

definition PB_ATYPE :: "u8 \<Rightarrow> u8" where "PB_ATYPE x = x AND 0xC0"
definition PB_HTYPE :: "u8 \<Rightarrow> u8" where "PB_HTYPE x = x AND 0x30"
definition PB_LTYPE :: "u8 \<Rightarrow> u8" where "PB_LTYPE x = x AND 0x0F"

definition PB_SIZE_MAX :: u32 where "PB_SIZE_MAX = - 1"

text \<open>\<open>size_offset\<close> is a signed 32-bit number; \<open>pb_ptr\<close> is the address of a table or of a default value.\<close>

record pb_field_t =
  pb_tag :: u32
  pb_type :: u8
  data_offset :: u32
  size_offset :: u32
  data_size :: u32
  array_size :: u32
  pb_ptr :: u64

definition PB_LAST_FIELD :: pb_field_t where
  "PB_LAST_FIELD = \<lparr>pb_tag = 0, pb_type = 0, data_offset = 0, size_offset = 0, data_size = 0, array_size = 0, pb_ptr = 0\<rparr>"

section \<open>The iterator\<close>

text \<open>
  A table is the list of its fields, without the terminator; \<open>pos\<close> is an index into it, and the
  length of the list is the position of the terminator.
\<close>

record pb_field_iter_t =
  it_start :: "pb_field_t list"
  it_pos :: nat
  required_field_index :: u32
  dest_struct :: u64
  pData :: u64
  pSize :: u64

definition it_field :: "pb_field_iter_t \<Rightarrow> pb_field_t" where
  "it_field it = (if it_pos it < length (it_start it) then it_start it ! it_pos it else PB_LAST_FIELD)"

definition pb_field_iter_begin :: "pb_field_t list \<Rightarrow> u64 \<Rightarrow> bool \<times> pb_field_iter_t" where
  "pb_field_iter_begin tbl dest =
    (let it = \<lparr>it_start = tbl, it_pos = 0, required_field_index = 0, dest_struct = dest, pData = 0, pSize = 0\<rparr>;
         it = (if dest = 0 then it
               else let p = dest + ucast (data_offset (it_field it)) in
                 it\<lparr>pData := p, pSize := p + scast (size_offset (it_field it))\<rparr>)
     in (pb_tag (it_field it) \<noteq> 0, it))"

definition pb_field_iter_next :: "pb_field_iter_t \<Rightarrow> bool \<times> pb_field_iter_t" where
  "pb_field_iter_next it =
    (let prev = it_field it in
     if pb_tag prev = 0 then (False, it)
     else
       let it = it\<lparr>it_pos := it_pos it + 1\<rparr>; cur = it_field it in
       if pb_tag cur = 0 then (False, snd (pb_field_iter_begin (it_start it) (dest_struct it)))
       else if PB_HTYPE (pb_type prev) = PB_HTYPE_ONEOF \<and> PB_HTYPE (pb_type cur) = PB_HTYPE_ONEOF \<and>
               data_offset cur = PB_SIZE_MAX
       then (True, it)
       else
         let prev_size =
               (if PB_ATYPE (pb_type prev) = PB_ATYPE_STATIC \<and> PB_HTYPE (pb_type prev) = PB_HTYPE_REPEATED
                then ucast (data_size prev) * ucast (array_size prev)
                else if PB_ATYPE (pb_type prev) = PB_ATYPE_POINTER then 8
                else ucast (data_size prev) :: u64);
             it = (if PB_HTYPE (pb_type prev) = PB_HTYPE_REQUIRED
                   then it\<lparr>required_field_index := required_field_index it + 1\<rparr> else it);
             p = pData it + prev_size + ucast (data_offset cur)
         in (True, it\<lparr>pData := p, pSize := p + scast (size_offset cur)\<rparr>))"

text \<open>
  The loop of the search. An iterator into a table comes back to where it was after as many steps as
  the table has fields, which bounds the loop.
\<close>

primrec find_loop :: "nat \<Rightarrow> nat \<Rightarrow> u32 \<Rightarrow> pb_field_iter_t \<Rightarrow> (bool \<times> pb_field_iter_t) loop_result" where
  "find_loop 0 first t it = Out_of_fuel"
| "find_loop (Suc n) first t it =
    (if pb_tag (it_field it) = t \<and> PB_LTYPE (pb_type (it_field it)) \<noteq> PB_LTYPE_EXTENSION then Returned (True, it)
     else let it = snd (pb_field_iter_next it) in
       if it_pos it \<noteq> first then find_loop n first t it else Returned (False, it))"

definition pb_field_iter_find :: "u32 \<Rightarrow> pb_field_iter_t \<Rightarrow> (bool \<times> pb_field_iter_t) loop_result" where
  "pb_field_iter_find t it = find_loop (length (it_start it) + 1) (it_pos it) t it"

section \<open>Where the iterator is\<close>

text \<open>A table has no tag 0 before its terminator; the iterator after \<open>i\<close> steps from its beginning.\<close>

definition table_ok :: "pb_field_t list \<Rightarrow> bool" where
  "table_ok tbl \<longleftrightarrow> list_all (\<lambda>f. pb_tag f \<noteq> 0) tbl"

primrec iter_at :: "pb_field_t list \<Rightarrow> u64 \<Rightarrow> nat \<Rightarrow> pb_field_iter_t" where
  "iter_at tbl dest 0 = snd (pb_field_iter_begin tbl dest)"
| "iter_at tbl dest (Suc i) = snd (pb_field_iter_next (iter_at tbl dest i))"

lemma begin_simps [simp]:
  "it_start (snd (pb_field_iter_begin tbl dest)) = tbl" "it_pos (snd (pb_field_iter_begin tbl dest)) = 0"
  "dest_struct (snd (pb_field_iter_begin tbl dest)) = dest"
  by (simp_all add: pb_field_iter_begin_def Let_def)

lemma table_ok_tag: "table_ok tbl \<Longrightarrow> i < length tbl \<Longrightarrow> pb_tag (tbl ! i) \<noteq> 0"
  by (simp add: table_ok_def list_all_length)

lemma begin_more: "table_ok tbl \<Longrightarrow> fst (pb_field_iter_begin tbl dest) \<longleftrightarrow> tbl \<noteq> []"
  by (cases tbl) (simp_all add: pb_field_iter_begin_def it_field_def PB_LAST_FIELD_def table_ok_def Let_def)

lemma next_forward:
  assumes "table_ok (it_start it)" and "it_pos it + 1 < length (it_start it)"
  shows "fst (pb_field_iter_next it) \<and> it_start (snd (pb_field_iter_next it)) = it_start it \<and>
    it_pos (snd (pb_field_iter_next it)) = it_pos it + 1 \<and> dest_struct (snd (pb_field_iter_next it)) = dest_struct it"
  using table_ok_tag [OF assms(1), of "it_pos it"] table_ok_tag [OF assms] assms(2)
  by (simp add: pb_field_iter_next_def it_field_def Let_def)

lemma next_wrap:
  assumes "table_ok (it_start it)" and "it_pos it + 1 = length (it_start it)"
  shows "pb_field_iter_next it = (False, snd (pb_field_iter_begin (it_start it) (dest_struct it)))"
  using table_ok_tag [OF assms(1), of "it_pos it"] assms(2)
  by (simp add: pb_field_iter_next_def it_field_def Let_def PB_LAST_FIELD_def)

lemma iter_at_simps:
  assumes "table_ok tbl" and "i < length tbl"
  shows "it_start (iter_at tbl dest i) = tbl" "it_pos (iter_at tbl dest i) = i"
    "dest_struct (iter_at tbl dest i) = dest"
proof -
  have "it_start (iter_at tbl dest i) = tbl \<and> it_pos (iter_at tbl dest i) = i \<and>
      dest_struct (iter_at tbl dest i) = dest" using assms(2)
  proof (induction i)
    case (Suc i)
    then show ?case using next_forward [of "iter_at tbl dest i"] assms(1) by simp
  qed simp
  then show "it_start (iter_at tbl dest i) = tbl" "it_pos (iter_at tbl dest i) = i"
    "dest_struct (iter_at tbl dest i) = dest" by auto
qed

lemma iter_at_field: "table_ok tbl \<Longrightarrow> i < length tbl \<Longrightarrow> it_field (iter_at tbl dest i) = tbl ! i"
  by (simp add: it_field_def iter_at_simps)

text \<open>One step from a field of the table: to the next, or from the last back to the first.\<close>

lemma next_iter_at:
  assumes "table_ok tbl" and "i < length tbl"
  shows "pb_field_iter_next (iter_at tbl dest i) =
    (if i + 1 < length tbl then (True, iter_at tbl dest (i + 1)) else (False, iter_at tbl dest 0))"
proof (cases "i + 1 < length tbl")
  case True
  then have "fst (pb_field_iter_next (iter_at tbl dest i))"
    using next_forward [of "iter_at tbl dest i"] assms by (simp add: iter_at_simps)
  then show ?thesis using True by (simp add: prod_eq_iff)
next
  case False
  then show ?thesis using next_wrap [of "iter_at tbl dest i"] assms by (simp add: iter_at_simps)
qed

lemma next_iter_at_mod:
  assumes "table_ok tbl" and "i < length tbl"
  shows "snd (pb_field_iter_next (iter_at tbl dest i)) = iter_at tbl dest ((i + 1) mod length tbl)"
proof (cases "i + 1 < length tbl")
  case True
  then show ?thesis by (simp only: next_iter_at [OF assms] if_True snd_conv mod_less)
next
  case False
  then have "i + 1 = length tbl" using assms(2) by simp
  then show ?thesis using False by (simp only: next_iter_at [OF assms] if_False snd_conv mod_self)
qed

text \<open>The address of a member: the end of the previous one and the offset of the descriptor.\<close>

definition member_size :: "pb_field_t \<Rightarrow> u64" where
  "member_size f =
    (if PB_ATYPE (pb_type f) = PB_ATYPE_STATIC \<and> PB_HTYPE (pb_type f) = PB_HTYPE_REPEATED
     then ucast (data_size f) * ucast (array_size f)
     else if PB_ATYPE (pb_type f) = PB_ATYPE_POINTER then 8 else ucast (data_size f))"

lemma first_pData: "tbl \<noteq> [] \<Longrightarrow> dest \<noteq> 0 \<Longrightarrow> pData (iter_at tbl dest 0) = dest + ucast (data_offset (tbl ! 0))"
  by (simp add: pb_field_iter_begin_def it_field_def Let_def)

lemma next_pData:
  assumes "table_ok tbl" and "j < length tbl" and "j = i + 1" and "PB_HTYPE (pb_type (tbl ! i)) \<noteq> PB_HTYPE_ONEOF"
  shows "pData (iter_at tbl dest j) = pData (iter_at tbl dest i) + member_size (tbl ! i) + ucast (data_offset (tbl ! j))"
proof -
  have "it_field (iter_at tbl dest i) = tbl ! i" using assms by (simp add: iter_at_field del: iter_at.simps)
  moreover have "it_field ((iter_at tbl dest i)\<lparr>it_pos := it_pos (iter_at tbl dest i) + 1\<rparr>) = tbl ! (i + 1)"
    using assms by (simp add: it_field_def iter_at_simps)
  ultimately show ?thesis
    using assms(2-4) table_ok_tag [OF assms(1), of i] table_ok_tag [OF assms(1,2)]
    by (simp add: pb_field_iter_next_def Let_def member_size_def)
qed

text \<open>The members of a structure without unions lie one after the other.\<close>

primrec member_addresses :: "pb_field_t \<Rightarrow> u64 \<Rightarrow> pb_field_t list \<Rightarrow> u64 list" where
  "member_addresses prev p [] = []"
| "member_addresses prev p (f # fs) =
    (let q = p + member_size prev + ucast (data_offset f) in q # member_addresses f q fs)"

lemma member_addresses_length [simp]: "length (member_addresses prev p fs) = length fs"
  by (induction fs arbitrary: prev p) (simp_all add: Let_def)

lemma member_addresses_Suc:
  "Suc j < length fs \<Longrightarrow> member_addresses prev p fs ! Suc j =
     member_addresses prev p fs ! j + member_size (fs ! j) + ucast (data_offset (fs ! Suc j))"
proof (induction fs arbitrary: prev p j)
  case (Cons f fs)
  then show ?case by (cases j; cases fs) (auto simp: Let_def)
qed simp

lemma iter_at_addresses:
  assumes ok: "table_ok (f # fs)" and no_union: "list_all (\<lambda>f. PB_HTYPE (pb_type f) \<noteq> PB_HTYPE_ONEOF) (f # fs)" and "dest \<noteq> 0"
  shows "map (\<lambda>i. pData (iter_at (f # fs) dest i)) [0..<length (f # fs)] =
    (dest + ucast (data_offset f)) # member_addresses f (dest + ucast (data_offset f)) fs"
proof (rule nth_equalityI)
  let ?p = "dest + ucast (data_offset f)"
  fix i assume "i < length (map (\<lambda>i. pData (iter_at (f # fs) dest i)) [0..<length (f # fs)])"
  then have "i < length (f # fs)" by simp
  moreover have "j < length (f # fs) \<Longrightarrow> pData (iter_at (f # fs) dest j) = (?p # member_addresses f ?p fs) ! j" for j
  proof (induction j)
    case 0
    then show ?case using first_pData [of "f # fs" dest] assms(3) by (simp del: iter_at.simps)
  next
    case (Suc j)
    note plain = no_union [unfolded list_all_length, rule_format, OF Suc_lessD [OF Suc.prems]]
    have "pData (iter_at (f # fs) dest (Suc j)) = (?p # member_addresses f ?p fs) ! j + member_size ((f # fs) ! j) +
        ucast (data_offset ((f # fs) ! Suc j))"
      using next_pData [OF ok Suc.prems _ plain, of dest] Suc.IH [OF Suc_lessD [OF Suc.prems]] by (simp del: iter_at.simps)
    also have "\<dots> = (?p # member_addresses f ?p fs) ! Suc j"
    proof (cases j)
      case 0
      then show ?thesis using Suc.prems by (cases fs) (simp_all add: Let_def)
    next
      case (Suc n)
      then show ?thesis using Suc.prems member_addresses_Suc [of n fs f ?p] by simp
    qed
    finally show ?case .
  qed
  ultimately show "map (\<lambda>i. pData (iter_at (f # fs) dest i)) [0..<length (f # fs)] ! i = (?p # member_addresses f ?p fs) ! i"
    by (simp only: length_map length_upt nth_map nth_upt add_0 diff_zero)
qed simp

section \<open>The search\<close>

definition field_matches :: "pb_field_t list \<Rightarrow> u32 \<Rightarrow> nat \<Rightarrow> bool" where
  "field_matches tbl t i \<longleftrightarrow> pb_tag (tbl ! i) = t \<and> PB_LTYPE (pb_type (tbl ! i)) \<noteq> PB_LTYPE_EXTENSION"

text \<open>\<open>m\<close> positions are left, the last of which is the one before \<open>first\<close>.\<close>

lemma find_loop_cyclic:
  assumes ok: "table_ok tbl"
  shows "i < length tbl \<Longrightarrow> 1 \<le> m \<Longrightarrow> m \<le> length tbl \<Longrightarrow> (i + m) mod length tbl = first \<Longrightarrow> m < n \<Longrightarrow>
    find_loop n first t (iter_at tbl dest i) =
      (case List.find (field_matches tbl t) (map (\<lambda>j. (i + j) mod length tbl) [0..<m]) of
         Some j \<Rightarrow> Returned (True, iter_at tbl dest j) | None \<Rightarrow> Returned (False, iter_at tbl dest first))"
proof (induction m arbitrary: i n)
  case (Suc m)
  obtain n' where n: "n = Suc n'" using Suc.prems(5) by (cases n) auto
  let ?L = "length tbl" and ?i' = "(i + 1) mod length tbl"
  have L: "0 < ?L" using Suc.prems(1) by linarith
  have i': "?i' < ?L" by (rule mod_less_divisor [OF L])
  have list: "map (\<lambda>j. (i + j) mod ?L) [0..<Suc m] = i # map (\<lambda>j. (?i' + j) mod ?L) [0..<m]"
  proof -
    have "[0..<Suc m] = 0 # map Suc [0..<m]" by (simp only: map_Suc_upt) (simp add: upt_conv_Cons del: upt_Suc)
    then show ?thesis using Suc.prems(1) by (simp add: mod_Suc_eq del: upt_Suc) (simp add: mod_simps)
  qed
  note step = iter_at_simps(2) [OF ok i']
  have shift: "i + Suc m = i + 1 + m" by simp
  note end_at = Suc.prems(4) [unfolded shift]
  have goes_on: "?i' = first \<longleftrightarrow> m = 0"
  proof
    assume "?i' = first"
    then have "(i + 1) mod ?L = (i + 1 + m) mod ?L" unfolding end_at .
    then have "?L dvd m" using mod_eq_dvd_iff_nat [of "i + 1" "i + 1 + m" ?L] by simp
    moreover have "m < ?L" using Suc.prems(3) by simp
    ultimately show "m = 0" using nat_dvd_not_less [of m ?L] by blast
  next
    assume "m = 0" then show "?i' = first" using end_at by simp
  qed
  show ?case
  proof (cases "field_matches tbl t i")
    case True
    then have "find_loop n first t (iter_at tbl dest i) = Returned (True, iter_at tbl dest i)"
      by (simp add: n field_matches_def iter_at_field [OF ok Suc.prems(1)])
    then show ?thesis unfolding list using True by simp
  next
    case False
    then have loop: "find_loop n first t (iter_at tbl dest i) =
        (if m \<noteq> 0 then find_loop n' first t (iter_at tbl dest ?i') else Returned (False, iter_at tbl dest ?i'))"
    proof -
      have "\<not> (pb_tag (it_field (iter_at tbl dest i)) = t \<and> PB_LTYPE (pb_type (it_field (iter_at tbl dest i))) \<noteq> PB_LTYPE_EXTENSION)"
        using False by (simp only: field_matches_def iter_at_field [OF ok Suc.prems(1)] simp_thms)
      then show ?thesis
        by (simp only: n find_loop.simps if_False Let_def step next_iter_at_mod [OF ok Suc.prems(1)] goes_on)
    qed
    show ?thesis
    proof (cases "m = 0")
      case True
      then show ?thesis using loop goes_on False Suc.prems(1) by (simp add: list)
    next
      case m: False
      have "(?i' + m) mod ?L = first" unfolding mod_add_left_eq by (rule end_at)
      then have "find_loop n' first t (iter_at tbl dest ?i') =
          (case List.find (field_matches tbl t) (map (\<lambda>j. (?i' + j) mod ?L) [0..<m]) of
             Some j \<Rightarrow> Returned (True, iter_at tbl dest j) | None \<Rightarrow> Returned (False, iter_at tbl dest first))"
        using Suc.IH [OF i'] m Suc.prems(3,5) n by simp
      then show ?thesis using loop m False unfolding list by simp
    qed
  qed
qed simp

lemma find_iter_at:
  assumes "table_ok tbl" and "k < length tbl"
  shows "pb_field_iter_find t (iter_at tbl dest k) =
    (case List.find (field_matches tbl t) (map (\<lambda>j. (k + j) mod length tbl) [0..<length tbl]) of
       Some j \<Rightarrow> Returned (True, iter_at tbl dest j) | None \<Rightarrow> Returned (False, iter_at tbl dest k))"
  using find_loop_cyclic [OF assms, of "length tbl" k "length tbl + 1" t dest] assms
  by (simp add: pb_field_iter_find_def iter_at_simps)

text \<open>An empty table has no field, and its iterator stays where it is.\<close>

lemma find_empty: "t \<noteq> 0 \<Longrightarrow> pb_field_iter_find t (iter_at [] dest 0) = Returned (False, iter_at [] dest 0)"
  by (simp add: pb_field_iter_find_def pb_field_iter_next_def it_field_def PB_LAST_FIELD_def Let_def)

end
