(* ===== verification/Pb_Encode.thy ===== *)
theory Pb_Encode
  imports Pb_Common
begin

text \<open>
  pb_encode.c of nanopb: output streams and the encoder of messages. A message is a structure in
  memory, read through the pointers of the iterator; the functions an application can plug in
  (stream, field and extension callbacks) are parameters. Submessages are encoded by calling
  \<open>pb_encode\<close> again, so the encoders of fields take that function as their argument and
  \<open>pb_encode\<close> itself recurses on the depth of the nesting.
\<close>

section \<open>Output streams\<close>

text \<open>\<open>callback\<close> takes the stream's state and the bytes; \<open>None\<close> is the \<open>NULL\<close> of a sizing stream.\<close>

record 's pb_ostream =
  callback :: "('s \<Rightarrow> u8 list \<Rightarrow> bool \<times> 's) option"
  out_state :: 's
  max_size :: u64
  bytes_written :: u64
  errmsg :: "string option"

type_synonym 's pb_encoder = "'s pb_ostream \<Rightarrow> (bool \<times> 's pb_ostream) loop_result"

text \<open>
  The memory messages are read from, the descriptor tables by their address, what the callback
  functions of fields and extensions do by their address, and the \<open>NULL\<close> state.
\<close>

record 's pb_program =
  pb_mem :: cls_env
  pb_tables :: "u64 \<Rightarrow> pb_field_t list"
  field_encoder :: "u64 \<Rightarrow> pb_field_t \<Rightarrow> u64 \<Rightarrow> 's pb_encoder"
  extension_encoder :: "u64 \<Rightarrow> u64 \<Rightarrow> 's pb_encoder"
  null_state :: 's

definition PB_OSTREAM_SIZING :: "'s pb_program \<Rightarrow> 's pb_ostream" where
  "PB_OSTREAM_SIZING P = \<lparr>callback = None, out_state = null_state P, max_size = 0, bytes_written = 0, errmsg = None\<rparr>"

text \<open>\<open>PB_RETURN_ERROR\<close>, and \<open>if (!f) return false;\<close> before \<open>g\<close>.\<close>

definition pb_error :: "string \<Rightarrow> 's pb_encoder" where
  "pb_error msg s = Returned (False, s\<lparr>errmsg := (case errmsg s of None \<Rightarrow> Some msg | Some m \<Rightarrow> Some m)\<rparr>)"

definition and_then :: "'s pb_encoder \<Rightarrow> 's pb_encoder \<Rightarrow> 's pb_encoder" where
  "and_then f g s = bind_result (f s) (\<lambda>(ok, s). if ok then g s else Returned (False, s))"

definition encode_nothing :: "'s pb_encoder" where
  "encode_nothing s = Returned (True, s)"

primrec store :: "(u64 \<Rightarrow> u8 option) \<Rightarrow> u64 \<Rightarrow> u8 list \<Rightarrow> u64 \<Rightarrow> u8 option" where
  "store m a [] = m"
| "store m a (b # bs) = store (m(a \<mapsto> b)) (a + 1) bs"

text \<open>The state of a buffer stream: where it writes next, and the memory it writes to.\<close>

definition buf_write :: "u64 \<times> (u64 \<Rightarrow> u8 option) \<Rightarrow> u8 list \<Rightarrow> bool \<times> u64 \<times> (u64 \<Rightarrow> u8 option)" where
  "buf_write = (\<lambda>(dest, m) bs. (True, (dest + of_nat (length bs), store m dest bs)))"

definition pb_ostream_from_buffer ::
  "u64 \<Rightarrow> u64 \<Rightarrow> (u64 \<Rightarrow> u8 option) \<Rightarrow> (u64 \<times> (u64 \<Rightarrow> u8 option)) pb_ostream" where
  "pb_ostream_from_buffer buf bufsize m =
     \<lparr>callback = Some buf_write, out_state = (buf, m), max_size = bufsize, bytes_written = 0, errmsg = None\<rparr>"

text \<open>The bytes at \<open>buf\<close>, \<open>None\<close> when they cannot be read, which matters only when they are.\<close>

definition pb_write :: "u8 list option \<Rightarrow> u64 \<Rightarrow> 's pb_encoder" where
  "pb_write buf count s =
    (case callback s of
       Some cb \<Rightarrow>
        if 0 < count then
          if bytes_written s + count < bytes_written s \<or> max_size s < bytes_written s + count
          then pb_error ''stream full'' s
          else (case buf of
                  None \<Rightarrow> Faulted
                | Some bs \<Rightarrow>
                   (case cb (out_state s) bs of (ok, st) \<Rightarrow>
                      let s = s\<lparr>out_state := st\<rparr> in
                      if \<not> ok then pb_error ''io error'' s
                      else Returned (True, s\<lparr>bytes_written := bytes_written s + count\<rparr>)))
        else Returned (True, s\<lparr>bytes_written := bytes_written s + count\<rparr>)
     | None \<Rightarrow> Returned (True, s\<lparr>bytes_written := bytes_written s + count\<rparr>))"

section \<open>Numbers\<close>

function varint_loop :: "u64 \<Rightarrow> u8 list" where
  "varint_loop v = (if v = 0 then [] else (ucast (v AND 0x7F) OR 0x80) # varint_loop (drop_bit 7 v))"
  by auto

termination varint_loop
proof (relation "measure unat")
  fix v :: u64 assume "v \<noteq> 0"
  then have "0 < unat v" by (simp add: unat_gt_0)
  moreover have "unat (drop_bit 7 v) = unat v div 2 ^ 7" 
    using unat_drop_bit_eq [of 7 v] drop_bit_eq_div [of 7 "unat v"] by (simp only:)
  ultimately have "unat (drop_bit 7 v) < unat v" by simp
  then show "(drop_bit 7 v, v) \<in> measure unat" by simp
qed simp

declare varint_loop.simps [simp del]

definition pb_encode_varint :: "u64 \<Rightarrow> 's pb_encoder" where
  "pb_encode_varint v =
    (if v \<le> 0x7F then pb_write (Some [ucast v]) 1
     else let buffer = varint_loop v; buffer = butlast buffer @ [last buffer AND 0x7F]
       in pb_write (Some buffer) (of_nat (length buffer)))"

definition pb_encode_svarint :: "u64 \<Rightarrow> 's pb_encoder" where
  "pb_encode_svarint v =
     pb_encode_varint (if v <s 0 then NOT (push_bit 1 v) else push_bit 1 v)"

definition read_word :: "cls_env \<Rightarrow> u64 \<Rightarrow> nat \<Rightarrow> 'a::len word option" where
  "read_word env a n = map_option le_word (load env a n)"

definition pb_encode_fixed32 :: "'s pb_program \<Rightarrow> u64 \<Rightarrow> 's pb_encoder" where
  "pb_encode_fixed32 P value s =
    bind_result (from_option (read_word (pb_mem P) value 4)) (\<lambda>val :: u32.
      pb_write (Some [ucast (val AND 0xFF), ucast (drop_bit 8 val AND 0xFF), ucast (drop_bit 16 val AND 0xFF),
        ucast (drop_bit 24 val AND 0xFF)]) 4 s)"

definition pb_encode_fixed64 :: "'s pb_program \<Rightarrow> u64 \<Rightarrow> 's pb_encoder" where
  "pb_encode_fixed64 P value s =
    bind_result (from_option (read_word (pb_mem P) value 8)) (\<lambda>val :: u64.
      pb_write (Some [ucast (val AND 0xFF), ucast (drop_bit 8 val AND 0xFF), ucast (drop_bit 16 val AND 0xFF),
        ucast (drop_bit 24 val AND 0xFF), ucast (drop_bit 32 val AND 0xFF), ucast (drop_bit 40 val AND 0xFF),
        ucast (drop_bit 48 val AND 0xFF), ucast (drop_bit 56 val AND 0xFF)]) 8 s)"

abbreviation (input) "PB_WT_VARINT \<equiv> 0 :: u32"
abbreviation (input) "PB_WT_64BIT \<equiv> 1 :: u32"
abbreviation (input) "PB_WT_STRING \<equiv> 2 :: u32"
abbreviation (input) "PB_WT_32BIT \<equiv> 5 :: u32"

definition pb_encode_tag :: "u32 \<Rightarrow> u32 \<Rightarrow> 's pb_encoder" where
  "pb_encode_tag wiretype field_number = pb_encode_varint (push_bit 3 (ucast field_number) OR ucast wiretype)"

definition pb_encode_tag_for_field :: "pb_field_t \<Rightarrow> 's pb_encoder" where
  "pb_encode_tag_for_field field =
    (let t = PB_LTYPE (pb_type field) in
     if t = PB_LTYPE_BOOL \<or> t = PB_LTYPE_VARINT \<or> t = PB_LTYPE_UVARINT \<or> t = PB_LTYPE_SVARINT
     then pb_encode_tag PB_WT_VARINT (pb_tag field)
     else if t = PB_LTYPE_FIXED32 then pb_encode_tag PB_WT_32BIT (pb_tag field)
     else if t = PB_LTYPE_FIXED64 then pb_encode_tag PB_WT_64BIT (pb_tag field)
     else if t = PB_LTYPE_BYTES \<or> t = PB_LTYPE_STRING \<or> t = PB_LTYPE_SUBMESSAGE \<or> t = PB_LTYPE_FIXED_LENGTH_BYTES
     then pb_encode_tag PB_WT_STRING (pb_tag field)
     else pb_error ''invalid field type'')"

definition pb_encode_string :: "u8 list option \<Rightarrow> u64 \<Rightarrow> 's pb_encoder" where
  "pb_encode_string buffer sz = and_then (pb_encode_varint sz) (pb_write buffer sz)"

section \<open>Submessages\<close>

text \<open>
  The first argument is \<open>pb_encode\<close>. The bound of the second pass keeps a callback from writing more
  than in the first.
\<close>

definition pb_encode_submessage ::
  "(pb_field_t list \<Rightarrow> u64 \<Rightarrow> 's pb_encoder) \<Rightarrow> 's pb_program \<Rightarrow> pb_field_t list \<Rightarrow> u64 \<Rightarrow> 's pb_encoder" where
  "pb_encode_submessage enc P tbl src s =
    bind_result (enc tbl src (PB_OSTREAM_SIZING P)) (\<lambda>(ok, sub).
      if \<not> ok then Returned (False, s\<lparr>errmsg := errmsg sub\<rparr>)
      else let sz = bytes_written sub in
        and_then (pb_encode_varint sz) (\<lambda>s.
          if callback s = None then pb_write None sz s
          else if max_size s < bytes_written s + sz then pb_error ''stream full'' s
          else bind_result (enc tbl src \<lparr>callback = callback s, out_state = out_state s, max_size = sz,
                                          bytes_written = 0, errmsg = None\<rparr>) (\<lambda>(status, sub).
            let s = s\<lparr>bytes_written := bytes_written s + bytes_written sub, out_state := out_state sub,
                       errmsg := errmsg sub\<rparr> in
            if bytes_written sub \<noteq> sz then pb_error ''submsg size changed'' s
            else Returned (status, s))) s)"

section \<open>Field encoders\<close>

definition safe_read_bool :: "cls_env \<Rightarrow> u64 \<Rightarrow> bool option" where
  "safe_read_bool env p = map_option (\<lambda>bs. list_ex (\<lambda>b. b \<noteq> 0) bs) (load env p 1)"

text \<open>A number of \<open>data_size\<close> bytes in 64 bits; the outer \<open>None\<close> is a size the encoders reject.\<close>

definition read_signed :: "cls_env \<Rightarrow> u32 \<Rightarrow> u64 \<Rightarrow> u64 option option" where
  "read_signed env sz src =
    (if sz = 1 then Some (map_option scast (read_word env src 1 :: u8 option))
     else if sz = 2 then Some (map_option scast (read_word env src 2 :: u16 option))
     else if sz = 4 then Some (map_option scast (read_word env src 4 :: u32 option))
     else if sz = 8 then Some (read_word env src 8)
     else None)"

definition read_unsigned :: "cls_env \<Rightarrow> u32 \<Rightarrow> u64 \<Rightarrow> u64 option option" where
  "read_unsigned env sz src =
    (if sz = 1 then Some (map_option ucast (read_word env src 1 :: u8 option))
     else if sz = 2 then Some (map_option ucast (read_word env src 2 :: u16 option))
     else if sz = 4 then Some (map_option ucast (read_word env src 4 :: u32 option))
     else if sz = 8 then Some (read_word env src 8)
     else None)"

definition pb_enc_bool :: "'s pb_program \<Rightarrow> pb_field_t \<Rightarrow> u64 \<Rightarrow> 's pb_encoder" where
  "pb_enc_bool P field src s =
    bind_result (from_option (safe_read_bool (pb_mem P) src)) (\<lambda>b. pb_encode_varint (if b then 1 else 0) s)"

definition pb_enc_varint :: "'s pb_program \<Rightarrow> pb_field_t \<Rightarrow> u64 \<Rightarrow> 's pb_encoder" where
  "pb_enc_varint P field src s =
    (case read_signed (pb_mem P) (data_size field) src of
       None \<Rightarrow> pb_error ''invalid data_size'' s
     | Some r \<Rightarrow> bind_result (from_option r) (\<lambda>value. pb_encode_varint value s))"

definition pb_enc_uvarint :: "'s pb_program \<Rightarrow> pb_field_t \<Rightarrow> u64 \<Rightarrow> 's pb_encoder" where
  "pb_enc_uvarint P field src s =
    (case read_unsigned (pb_mem P) (data_size field) src of
       None \<Rightarrow> pb_error ''invalid data_size'' s
     | Some r \<Rightarrow> bind_result (from_option r) (\<lambda>value. pb_encode_varint value s))"

definition pb_enc_svarint :: "'s pb_program \<Rightarrow> pb_field_t \<Rightarrow> u64 \<Rightarrow> 's pb_encoder" where
  "pb_enc_svarint P field src s =
    (case read_signed (pb_mem P) (data_size field) src of
       None \<Rightarrow> pb_error ''invalid data_size'' s
     | Some r \<Rightarrow> bind_result (from_option r) (\<lambda>value. pb_encode_svarint value s))"

definition pb_enc_fixed32 :: "'s pb_program \<Rightarrow> pb_field_t \<Rightarrow> u64 \<Rightarrow> 's pb_encoder" where
  "pb_enc_fixed32 P field src = pb_encode_fixed32 P src"

definition pb_enc_fixed64 :: "'s pb_program \<Rightarrow> pb_field_t \<Rightarrow> u64 \<Rightarrow> 's pb_encoder" where
  "pb_enc_fixed64 P field src = pb_encode_fixed64 P src"

text \<open>\<open>pb_bytes_array_t\<close> is a 32-bit size and then, at offset 4, the bytes.\<close>

definition pb_enc_bytes :: "'s pb_program \<Rightarrow> pb_field_t \<Rightarrow> u64 \<Rightarrow> 's pb_encoder" where
  "pb_enc_bytes P field src s =
    (if src = 0 then pb_encode_string None 0 s
     else bind_result (from_option (read_word (pb_mem P) src 4)) (\<lambda>sz :: u32.
       if PB_ATYPE (pb_type field) = PB_ATYPE_STATIC \<and> ucast (data_size field) - 4 < (ucast sz :: u64)
       then pb_error ''bytes size exceeded'' s
       else pb_encode_string (load (pb_mem P) (src + 4) (unat sz)) (ucast sz) s))"

function string_loop :: "cls_env \<Rightarrow> u64 \<Rightarrow> u64 \<Rightarrow> u64 \<Rightarrow> u64 option" where
  "string_loop env p sz limit =
    (if sz < limit then
       (case mem env p of
          None \<Rightarrow> None
        | Some b \<Rightarrow> if b \<noteq> 0 then string_loop env (p + 1) (sz + 1) limit else Some sz)
     else Some sz)"
  by auto

termination string_loop
proof (relation "measure (\<lambda>(env, p, sz, limit). unat limit - unat sz)")
  fix sz limit :: u64 and env p b
  assume less: "sz < limit"
  then have "unat sz < unat limit" by (simp add: word_less_nat_alt)
  moreover from this have "unat (sz + 1) = unat sz + 1"
    using unsigned_less [of limit, where 'a = nat] unat_add_no_wrap [of sz 1] by simp
  ultimately show "((env, p + 1, sz + 1, limit), (env, p, sz, limit)) \<in> measure (\<lambda>(env, p, sz, limit). unat limit - unat sz)"
    for env p by simp
qed simp

declare string_loop.simps [simp del]

definition pb_enc_string :: "'s pb_program \<Rightarrow> pb_field_t \<Rightarrow> u64 \<Rightarrow> 's pb_encoder" where
  "pb_enc_string P field src s =
    (let limit = (if PB_ATYPE (pb_type field) = PB_ATYPE_POINTER then - 1 else ucast (data_size field)) in
     bind_result (from_option (if src = 0 then Some 0 else string_loop (pb_mem P) src 0 limit)) (\<lambda>sz.
       pb_encode_string (load (pb_mem P) src (unat sz)) sz s))"

definition pb_enc_submessage ::
  "(pb_field_t list \<Rightarrow> u64 \<Rightarrow> 's pb_encoder) \<Rightarrow> 's pb_program \<Rightarrow> pb_field_t \<Rightarrow> u64 \<Rightarrow> 's pb_encoder" where
  "pb_enc_submessage enc P field src =
    (if pb_ptr field = 0 then pb_error ''invalid field descriptor''
     else pb_encode_submessage enc P (pb_tables P (pb_ptr field)) src)"

definition pb_enc_fixed_length_bytes :: "'s pb_program \<Rightarrow> pb_field_t \<Rightarrow> u64 \<Rightarrow> 's pb_encoder" where
  "pb_enc_fixed_length_bytes P field src =
     pb_encode_string (load (pb_mem P) src (unat (data_size field))) (ucast (data_size field))"

text \<open>The table \<open>PB_ENCODERS\<close>: the entry of the extensions is \<open>NULL\<close>, whose call faults.\<close>

definition PB_ENCODERS ::
  "(pb_field_t list \<Rightarrow> u64 \<Rightarrow> 's pb_encoder) \<Rightarrow> 's pb_program \<Rightarrow> (pb_field_t \<Rightarrow> u64 \<Rightarrow> 's pb_encoder) list" where
  "PB_ENCODERS enc P =
     [pb_enc_bool P, pb_enc_varint P, pb_enc_uvarint P, pb_enc_svarint P, pb_enc_fixed32 P, pb_enc_fixed64 P,
      pb_enc_bytes P, pb_enc_string P, pb_enc_submessage enc P, (\<lambda>_ _ _. Faulted), pb_enc_fixed_length_bytes P]"

section \<open>Arrays\<close>

text \<open>The loop over the entries of an array; \<open>f\<close> is called with the address of each.\<close>

primrec entries_loop :: "pb_field_t \<Rightarrow> (u64 \<Rightarrow> 's pb_encoder) \<Rightarrow> nat \<Rightarrow> u64 \<Rightarrow> 's pb_encoder" where
  "entries_loop field f 0 p = encode_nothing"
| "entries_loop field f (Suc n) p = and_then (f p) (entries_loop field f n (p + ucast (data_size field)))"

definition encode_array ::
  "'s pb_program \<Rightarrow> pb_field_t \<Rightarrow> u64 \<Rightarrow> u64 \<Rightarrow> (pb_field_t \<Rightarrow> u64 \<Rightarrow> 's pb_encoder) \<Rightarrow> 's pb_encoder" where
  "encode_array P field data count func s =
    (if count = 0 then Returned (True, s)
     else if PB_ATYPE (pb_type field) \<noteq> PB_ATYPE_POINTER \<and> ucast (array_size field) < count
     then pb_error ''array max size exceeded'' s
     else if PB_LTYPE (pb_type field) \<le> PB_LTYPE_LAST_PACKABLE then
       and_then (pb_encode_tag PB_WT_STRING (pb_tag field)) (\<lambda>s.
         bind_result
           (if PB_LTYPE (pb_type field) = PB_LTYPE_FIXED32 then Returned (True, 4 * count)
            else if PB_LTYPE (pb_type field) = PB_LTYPE_FIXED64 then Returned (True, 8 * count)
            else bind_result (entries_loop field (func field) (unat count) data (PB_OSTREAM_SIZING P))
                   (\<lambda>(ok, sizestream). Returned (ok, bytes_written sizestream)))
           (\<lambda>(ok, sz).
             if \<not> ok then Returned (False, s)
             else and_then (pb_encode_varint sz) (\<lambda>s.
               if callback s = None then pb_write None sz s
               else entries_loop field (func field) (unat count) data s) s)) s
     else
       entries_loop field (\<lambda>p. and_then (pb_encode_tag_for_field field) (\<lambda>s.
         if PB_ATYPE (pb_type field) = PB_ATYPE_POINTER \<and>
            (PB_LTYPE (pb_type field) = PB_LTYPE_STRING \<or> PB_LTYPE (pb_type field) = PB_LTYPE_BYTES)
         then bind_result (from_option (read_word (pb_mem P) p 8)) (\<lambda>q. func field q s)
         else func field p s)) (unat count) data s)"

section \<open>Default values of proto3\<close>

primrec zero_bytes_loop :: "cls_env \<Rightarrow> nat \<Rightarrow> u64 \<Rightarrow> bool loop_result" where
  "zero_bytes_loop env 0 p = Returned True"
| "zero_bytes_loop env (Suc n) p =
    bind_result (from_option (mem env p)) (\<lambda>b. if b \<noteq> 0 then Returned False else zero_bytes_loop env n (p + 1))"

text \<open>The loop over the fields of a submessage: \<open>check\<close> is the whole check, one level deeper.\<close>

function all_default_loop :: "(pb_field_t \<Rightarrow> u64 \<Rightarrow> bool loop_result) \<Rightarrow> pb_field_iter_t \<Rightarrow> bool loop_result" where
  "all_default_loop check it =
    bind_result (check (it_field it) (pData it)) (\<lambda>is_default.
      if \<not> is_default then Returned False
      else (case pb_field_iter_next it of (again, it') \<Rightarrow>
        if again then all_default_loop check it' else Returned True))"
  by auto

lemma next_more_forward:
  assumes "pb_field_iter_next it = (True, it')"
  shows "it_start it' = it_start it \<and> it_pos it' = it_pos it + 1 \<and> it_pos it' < length (it_start it')"
proof -
  have "pb_tag (it_field (it\<lparr>it_pos := it_pos it + 1\<rparr>)) \<noteq> 0" "it_start it' = it_start it" "it_pos it' = it_pos it + 1"
    using assms by (auto simp: pb_field_iter_next_def Let_def split: if_splits)
  then show ?thesis by (auto simp: it_field_def PB_LAST_FIELD_def split: if_splits)
qed

lemma next_more_decreases:
  "(True, it') = pb_field_iter_next it \<Longrightarrow> length (it_start it') - it_pos it' < length (it_start it) - it_pos it"
  using next_more_forward [of it it'] by auto

termination all_default_loop
  by (relation "measure (\<lambda>(check, it). length (it_start it) - it_pos it)") (auto dest: next_more_decreases)

declare all_default_loop.simps [simp del]

primrec pb_check_proto3_default_value :: "nat \<Rightarrow> 's pb_program \<Rightarrow> pb_field_t \<Rightarrow> u64 \<Rightarrow> bool loop_result" where
  "pb_check_proto3_default_value 0 P field data = Out_of_fuel"
| "pb_check_proto3_default_value (Suc n) P field data =
    (let t = pb_type field; size_ptr = data + scast (size_offset field); env = pb_mem P in
     if PB_HTYPE t = PB_HTYPE_REQUIRED then Returned False
     else if PB_HTYPE t = PB_HTYPE_REPEATED \<and> size_offset field \<noteq> 0
     then bind_result (from_option (read_word env size_ptr 4)) (\<lambda>w :: u32. Returned (w = 0))
     else if PB_HTYPE t = PB_HTYPE_REPEATED \<and> PB_ATYPE t = PB_ATYPE_STATIC then Returned False
     else if PB_HTYPE t = PB_HTYPE_ONEOF
     then bind_result (from_option (read_word env size_ptr 4)) (\<lambda>w :: u32. Returned (w = 0))
     else if PB_HTYPE t = PB_HTYPE_OPTIONAL \<and> size_offset field \<noteq> 0
     then bind_result (from_option (safe_read_bool env size_ptr)) (\<lambda>b. Returned (\<not> b))
     else if PB_ATYPE t = PB_ATYPE_STATIC \<and> PB_LTYPE t = PB_LTYPE_BYTES
     then bind_result (from_option (read_word env data 4)) (\<lambda>w :: u32. Returned (w = 0))
     else if PB_ATYPE t = PB_ATYPE_STATIC \<and> PB_LTYPE t = PB_LTYPE_STRING
     then bind_result (from_option (mem env data)) (\<lambda>b. Returned (b = 0))
     else if PB_ATYPE t = PB_ATYPE_STATIC \<and> PB_LTYPE t = PB_LTYPE_FIXED_LENGTH_BYTES
     then Returned (data_size field = 0)
     else if PB_ATYPE t = PB_ATYPE_STATIC \<and> PB_LTYPE t = PB_LTYPE_SUBMESSAGE
     then (case pb_field_iter_begin (pb_tables P (pb_ptr field)) data of (again, it) \<Rightarrow>
       if again then all_default_loop (pb_check_proto3_default_value n P) it else Returned True)
     else if PB_ATYPE t = PB_ATYPE_POINTER \<and> PB_LTYPE_LAST_PACKABLE < PB_LTYPE t
     then bind_result (from_option (read_word env data 8)) (\<lambda>w :: u64. Returned (w = 0))
     else zero_bytes_loop env (unat (data_size field)) data)"

section \<open>Fields\<close>

text \<open>
  \<open>pSize\<close> is the address of the member or the local \<open>implicit_has\<close>; \<open>None\<close> is the local, which is
  one byte, so that reading a count from it is not defined. The table of encoders is read before the
  switch: past its end that is not defined either.
\<close>

definition encode_basic_field ::
  "nat \<Rightarrow> (pb_field_t list \<Rightarrow> u64 \<Rightarrow> 's pb_encoder) \<Rightarrow> 's pb_program \<Rightarrow> pb_field_t \<Rightarrow> u64 \<Rightarrow> 's pb_encoder" where
  "encode_basic_field n enc P field data s =
    (let t = pb_type field; env = pb_mem P; lt = PB_LTYPE t in
     if PB_LTYPES_COUNT \<le> lt then Faulted
     else let func = PB_ENCODERS enc P ! unat lt in
       bind_result
         (if size_offset field \<noteq> 0 then Returned (Some (data + scast (size_offset field)), False)
          else if PB_HTYPE t = PB_HTYPE_OPTIONAL
          then bind_result (pb_check_proto3_default_value n P field data) (\<lambda>b. Returned (None, \<not> b))
          else Returned (None, True)) (\<lambda>(size_ptr, implicit_has).
       bind_result
         (if PB_ATYPE t = PB_ATYPE_POINTER
          then bind_result (from_option (read_word env data 8)) (\<lambda>q :: u64. Returned (q, q \<noteq> 0))
          else Returned (data, implicit_has)) (\<lambda>(data, implicit_has).
       let field_value = and_then (pb_encode_tag_for_field field) (func field data);
           read_count = from_option (case size_ptr of None \<Rightarrow> None | Some a \<Rightarrow> (read_word env a 4 :: u32 option)) in
       if PB_HTYPE t = PB_HTYPE_REQUIRED
       then (if data = 0 then pb_error ''missing required field'' s else field_value s)
       else if PB_HTYPE t = PB_HTYPE_OPTIONAL
       then bind_result (case size_ptr of None \<Rightarrow> Returned implicit_has | Some a \<Rightarrow> from_option (safe_read_bool env a))
         (\<lambda>present. if present then field_value s else Returned (True, s))
       else if PB_HTYPE t = PB_HTYPE_REPEATED
       then bind_result (if size_offset field \<noteq> 0 then read_count else Returned (array_size field))
         (\<lambda>count. encode_array P field data (ucast count) func s)
       else bind_result read_count (\<lambda>which.
         if which = pb_tag field then field_value s else Returned (True, s)))))"

text \<open>\<open>pb_callback_t\<close> is the function pointer and then, at offset 8, the argument.\<close>

definition encode_callback_field :: "'s pb_program \<Rightarrow> pb_field_t \<Rightarrow> u64 \<Rightarrow> 's pb_encoder" where
  "encode_callback_field P field data s =
    bind_result (from_option (read_word (pb_mem P) data 8)) (\<lambda>encode :: u64.
      if encode \<noteq> 0 then
        bind_result (field_encoder P encode field (data + 8) s) (\<lambda>(ok, s).
          if ok then Returned (True, s) else pb_error ''callback error'' s)
      else Returned (True, s))"

definition encode_field ::
  "nat \<Rightarrow> (pb_field_t list \<Rightarrow> u64 \<Rightarrow> 's pb_encoder) \<Rightarrow> 's pb_program \<Rightarrow> pb_field_t \<Rightarrow> u64 \<Rightarrow> 's pb_encoder" where
  "encode_field n enc P field data =
    (if PB_ATYPE (pb_type field) = PB_ATYPE_STATIC \<or> PB_ATYPE (pb_type field) = PB_ATYPE_POINTER
     then encode_basic_field n enc P field data
     else if PB_ATYPE (pb_type field) = PB_ATYPE_CALLBACK then encode_callback_field P field data
     else pb_error ''invalid field type'')"

text \<open>
  \<open>pb_extension_t\<close> is the type, the destination at offset 8 and the next extension at offset 16;
  \<open>pb_extension_type_t\<close> is the decoder, the encoder at offset 8 and the argument at offset 16.
\<close>

definition default_extension_encoder ::
  "nat \<Rightarrow> (pb_field_t list \<Rightarrow> u64 \<Rightarrow> 's pb_encoder) \<Rightarrow> 's pb_program \<Rightarrow> u64 \<Rightarrow> 's pb_encoder" where
  "default_extension_encoder n enc P extension s =
    bind_result (from_option (read_word (pb_mem P) extension 8)) (\<lambda>ext_type :: u64.
    bind_result (from_option (read_word (pb_mem P) (ext_type + 16) 8)) (\<lambda>arg :: u64.
      (case pb_tables P arg of
         [] \<Rightarrow> Faulted
       | field # _ \<Rightarrow>
          if PB_ATYPE (pb_type field) = PB_ATYPE_POINTER then encode_field n enc P field (extension + 8) s
          else bind_result (from_option (read_word (pb_mem P) (extension + 8) 8)) (\<lambda>dest.
                 encode_field n enc P field dest s))))"

text \<open>The list of extensions may be circular, so its loop takes the first argument as fuel as well.\<close>

primrec extension_loop ::
  "nat \<Rightarrow> nat \<Rightarrow> (pb_field_t list \<Rightarrow> u64 \<Rightarrow> 's pb_encoder) \<Rightarrow> 's pb_program \<Rightarrow> u64 \<Rightarrow> 's pb_encoder" where
  "extension_loop 0 n enc P extension s = (if extension \<noteq> 0 then Out_of_fuel else Returned (True, s))"
| "extension_loop (Suc k) n enc P extension s =
    (if extension \<noteq> 0 then
       bind_result (from_option (read_word (pb_mem P) extension 8)) (\<lambda>ext_type :: u64.
       bind_result (from_option (read_word (pb_mem P) (ext_type + 8) 8)) (\<lambda>encode :: u64.
       and_then (if encode \<noteq> 0 then extension_encoder P encode extension
                 else default_extension_encoder n enc P extension) (\<lambda>s.
         bind_result (from_option (read_word (pb_mem P) (extension + 16) 8)) (\<lambda>rest.
           extension_loop k n enc P rest s)) s))
     else Returned (True, s))"

definition encode_extension_field ::
  "nat \<Rightarrow> (pb_field_t list \<Rightarrow> u64 \<Rightarrow> 's pb_encoder) \<Rightarrow> 's pb_program \<Rightarrow> u64 \<Rightarrow> 's pb_encoder" where
  "encode_extension_field n enc P data s =
    bind_result (from_option (read_word (pb_mem P) data 8)) (\<lambda>extension. extension_loop n n enc P extension s)"

section \<open>Messages\<close>

function fields_loop ::
  "nat \<Rightarrow> (pb_field_t list \<Rightarrow> u64 \<Rightarrow> 's pb_encoder) \<Rightarrow> 's pb_program \<Rightarrow> pb_field_iter_t \<Rightarrow> 's pb_encoder" where
  "fields_loop n enc P it s =
    and_then (if PB_LTYPE (pb_type (it_field it)) = PB_LTYPE_EXTENSION
              then encode_extension_field n enc P (pData it)
              else encode_field n enc P (it_field it) (pData it))
      (\<lambda>s. case pb_field_iter_next it of (again, it') \<Rightarrow>
         if again then fields_loop n enc P it' s else Returned (True, s)) s"
  by auto

termination fields_loop
  by (relation "measure (\<lambda>(n, enc, P, it, s). length (it_start it) - it_pos it)") (auto dest: next_more_decreases)

declare fields_loop.simps [simp del]

text \<open>The first argument bounds the nesting of messages, and the length of a list of extensions.\<close>

primrec pb_encode :: "nat \<Rightarrow> 's pb_program \<Rightarrow> pb_field_t list \<Rightarrow> u64 \<Rightarrow> 's pb_encoder" where
  "pb_encode 0 P tbl src s = Out_of_fuel"
| "pb_encode (Suc n) P tbl src s =
    (case pb_field_iter_begin tbl src of (again, it) \<Rightarrow>
       if \<not> again then Returned (True, s) else fields_loop n (pb_encode n P) P it s)"

definition pb_encode_delimited :: "nat \<Rightarrow> 's pb_program \<Rightarrow> pb_field_t list \<Rightarrow> u64 \<Rightarrow> 's pb_encoder" where
  "pb_encode_delimited n P tbl src = pb_encode_submessage (pb_encode n P) P tbl src"

definition pb_encode_nullterminated :: "nat \<Rightarrow> 's pb_program \<Rightarrow> pb_field_t list \<Rightarrow> u64 \<Rightarrow> 's pb_encoder" where
  "pb_encode_nullterminated n P tbl src = and_then (pb_encode n P tbl src) (pb_write (Some [0]) 1)"

text \<open>The size, when the status is true.\<close>

definition pb_get_encoded_size :: "nat \<Rightarrow> 's pb_program \<Rightarrow> pb_field_t list \<Rightarrow> u64 \<Rightarrow> (bool \<times> u64) loop_result" where
  "pb_get_encoded_size n P tbl src =
    bind_result (pb_encode n P tbl src (PB_OSTREAM_SIZING P)) (\<lambda>(ok, s). Returned (ok, bytes_written s))"

end
