(* ===== verification/Pb_Encode_Spec.thy ===== *)
theory Pb_Encode_Spec
  imports Pb_Encode Cls_Leb128
begin

text \<open>
  What pb_encode.c promises: the protocol buffers wire format as an encoder of abstract messages, the
  abstract message a structure in memory stands for, and the proof that \<open>pb_encode\<close> writes the wire
  format of that message, in both of its passes.
\<close>

section \<open>The wire format\<close>

datatype wire_value =
    Varint u64 | Fixed32 u32 | Fixed64 u64 | Bytes "u8 list" | Packed "wire_value list"
  | Message "(u32 \<times> wire_value) list"

primrec wire_type :: "wire_value \<Rightarrow> nat" where
  "wire_type (Varint v) = 0"
| "wire_type (Fixed64 w) = 1"
| "wire_type (Bytes bs) = 2"
| "wire_type (Packed vs) = 2"
| "wire_type (Message es) = 2"
| "wire_type (Fixed32 w) = 5"

definition delimited :: "u8 list \<Rightarrow> u8 list" where
  "delimited bs = uleb128_encode (length bs) @ bs"

fun wire_body :: "wire_value \<Rightarrow> u8 list" and wire_entry :: "u32 \<times> wire_value \<Rightarrow> u8 list" where
  "wire_body (Varint v) = uleb128_encode (unat v)"
| "wire_body (Fixed32 w) = le_bytes 4 (unat w)"
| "wire_body (Fixed64 w) = le_bytes 8 (unat w)"
| "wire_body (Bytes bs) = delimited bs"
| "wire_body (Packed vs) = delimited (concat (map wire_body vs))"
| "wire_body (Message es) = delimited (concat (map wire_entry es))"
| "wire_entry (t, v) = uleb128_encode (8 * unat t + wire_type v) @ wire_body v"

definition wire :: "(u32 \<times> wire_value) list \<Rightarrow> u8 list" where
  "wire es = concat (map wire_entry es)"

text \<open>The numbering of signed numbers: 0, -1, 1, -2, ...\<close>

definition zigzag :: "int \<Rightarrow> int" where
  "zigzag i = (if i < 0 then - 2 * i - 1 else 2 * i)"

section \<open>The message in memory\<close>

text \<open>The value at \<open>a\<close> of the type of a field; \<open>sub\<close> gives the entries of a message.\<close>

definition value_at ::
  "(pb_field_t list \<Rightarrow> u64 \<Rightarrow> (u32 \<times> wire_value) list option) \<Rightarrow> 's pb_program \<Rightarrow> pb_field_t \<Rightarrow> u64 \<Rightarrow> wire_value option" where
  "value_at sub P field a =
    (let env = pb_mem P; lt = PB_LTYPE (pb_type field) in
     if lt = PB_LTYPE_BOOL then map_option (\<lambda>b. Varint (if b then 1 else 0)) (safe_read_bool env a)
     else if lt = PB_LTYPE_VARINT then Option.bind (read_signed env (data_size field) a) (map_option Varint)
     else if lt = PB_LTYPE_UVARINT then Option.bind (read_unsigned env (data_size field) a) (map_option Varint)
     else if lt = PB_LTYPE_SVARINT
     then Option.bind (read_signed env (data_size field) a) (map_option (\<lambda>v. Varint (of_int (zigzag (sint v)))))
     else if lt = PB_LTYPE_FIXED32 then map_option Fixed32 (read_word env a 4)
     else if lt = PB_LTYPE_FIXED64 then map_option Fixed64 (read_word env a 8)
     else if lt = PB_LTYPE_BYTES then
       (if a = 0 then Some (Bytes [])
        else do { sz \<leftarrow> read_word env a 4;
          if PB_ATYPE (pb_type field) = PB_ATYPE_STATIC \<and> ucast (data_size field) - 4 < (ucast (sz :: u32) :: u64) then None
          else map_option Bytes (load env (a + 4) (unat sz)) })
     else if lt = PB_LTYPE_STRING then
       (if a = 0 then Some (Bytes [])
        else do { sz \<leftarrow> string_loop env a 0 (if PB_ATYPE (pb_type field) = PB_ATYPE_POINTER then - 1 else ucast (data_size field));
          map_option Bytes (load env a (unat sz)) })
     else if lt = PB_LTYPE_SUBMESSAGE then
       (if pb_ptr field = 0 then None else map_option Message (sub (pb_tables P (pb_ptr field)) a))
     else if lt = PB_LTYPE_FIXED_LENGTH_BYTES then map_option Bytes (load env a (unat (data_size field)))
     else None)"

primrec values_at :: "(u64 \<Rightarrow> wire_value option) \<Rightarrow> pb_field_t \<Rightarrow> nat \<Rightarrow> u64 \<Rightarrow> wire_value list option" where
  "values_at val field 0 p = Some []"
| "values_at val field (Suc n) p =
    do { v \<leftarrow> val p; vs \<leftarrow> values_at val field n (p + ucast (data_size field)); Some (v # vs) }"

definition array_entries ::
  "(u64 \<Rightarrow> wire_value option) \<Rightarrow> 's pb_program \<Rightarrow> pb_field_t \<Rightarrow> u64 \<Rightarrow> u32 \<Rightarrow> (u32 \<times> wire_value) list option" where
  "array_entries val P field data count =
    (if count = 0 then Some []
     else if PB_ATYPE (pb_type field) \<noteq> PB_ATYPE_POINTER \<and> array_size field < count then None
     else if PB_LTYPE (pb_type field) \<le> PB_LTYPE_LAST_PACKABLE
     then map_option (\<lambda>vs. [(pb_tag field, Packed vs)]) (values_at val field (unat count) data)
     else map_option (map (Pair (pb_tag field)))
       (values_at (\<lambda>p. if PB_ATYPE (pb_type field) = PB_ATYPE_POINTER \<and>
            (PB_LTYPE (pb_type field) = PB_LTYPE_STRING \<or> PB_LTYPE (pb_type field) = PB_LTYPE_BYTES)
          then Option.bind (read_word (pb_mem P) p 8) val else val p) field (unat count) data))"

text \<open>
  The entries of the field whose member is at \<open>a\<close>. Fields with a callback function, and extensions,
  have no abstract value unless they are absent.
\<close>

definition field_entries ::
  "nat \<Rightarrow> (pb_field_t list \<Rightarrow> u64 \<Rightarrow> (u32 \<times> wire_value) list option) \<Rightarrow> 's pb_program \<Rightarrow> pb_field_t \<Rightarrow> u64 \<Rightarrow>
     (u32 \<times> wire_value) list option" where
  "field_entries n sub P field a =
    (let env = pb_mem P; t = pb_type field; at = PB_ATYPE t; ht = PB_HTYPE t; member = a + scast (size_offset field) in
     if PB_LTYPE t = PB_LTYPE_EXTENSION \<or> at = PB_ATYPE_CALLBACK
     then (case read_word env a 8 of Some (p :: u64) \<Rightarrow> if p = 0 then Some [] else None | None \<Rightarrow> None)
     else if PB_LTYPES_COUNT \<le> PB_LTYPE t \<or> at \<noteq> PB_ATYPE_STATIC \<and> at \<noteq> PB_ATYPE_POINTER then None
     else do {
       is_default \<leftarrow> (if size_offset field = 0 \<and> ht = PB_HTYPE_OPTIONAL
          then (case pb_check_proto3_default_value n P field a of Returned b \<Rightarrow> Some b | _ \<Rightarrow> None) else Some False);
       data \<leftarrow> (if at = PB_ATYPE_POINTER then read_word env a 8 else Some a);
       (let one = map_option (\<lambda>v. [(pb_tag field, v)]) (value_at sub P field data) in
        if ht = PB_HTYPE_REQUIRED then (if data = 0 then None else one)
        else if ht = PB_HTYPE_OPTIONAL then do {
          present \<leftarrow> (if size_offset field \<noteq> 0 then safe_read_bool env member
                      else Some (if at = PB_ATYPE_POINTER then data \<noteq> 0 else \<not> is_default));
          if present then one else Some [] }
        else if ht = PB_HTYPE_REPEATED then do {
          count \<leftarrow> (if size_offset field \<noteq> 0 then read_word env member 4 else Some (array_size field));
          array_entries (value_at sub P field) P field data count }
        else if size_offset field = 0 then None
        else do { which \<leftarrow> read_word env member 4; if which = pb_tag field then one else Some [] }) })"

text \<open>The fields of the table in order, each at the address the iterator gives it.\<close>

primrec contents :: "nat \<Rightarrow> 's pb_program \<Rightarrow> pb_field_t list \<Rightarrow> u64 \<Rightarrow> (u32 \<times> wire_value) list option" where
  "contents 0 P tbl src = None"
| "contents (Suc n) P tbl src = map_option concat
     (those (map (\<lambda>i. field_entries n (contents n P) P (tbl ! i) (pData (iter_at tbl src i))) [0..<length tbl]))"

section \<open>Writers\<close>

text \<open>
  \<open>app\<close> is what a sink's state becomes by bytes it accepts. A sink that accepts everything in order,
  behind a stream without an error and within its limit, or no sink: a sizing stream.
\<close>

definition stream_ok :: "('s \<Rightarrow> u8 list \<Rightarrow> 's) \<Rightarrow> 's pb_ostream \<Rightarrow> bool" where
  "stream_ok app s \<longleftrightarrow> errmsg s = None \<and> (callback s = None \<or>
     callback s = Some (\<lambda>st bs. (True, app st bs)) \<and> unat (bytes_written s) \<le> unat (max_size s))"

definition advanced :: "('s \<Rightarrow> u8 list \<Rightarrow> 's) \<Rightarrow> 's pb_ostream \<Rightarrow> u8 list \<Rightarrow> 's pb_ostream" where
  "advanced app s bs = s\<lparr>bytes_written := bytes_written s + of_nat (length bs),
     out_state := (if callback s = None then out_state s else app (out_state s) bs)\<rparr>"

definition has_room :: "'s pb_ostream \<Rightarrow> u8 list \<Rightarrow> bool" where
  "has_room s bs \<longleftrightarrow> callback s = None \<or> unat (bytes_written s) + length bs \<le> unat (max_size s)"

text \<open>A failed write has left a beginning of something, within the limit of the stream.\<close>

definition kept_within :: "('s \<Rightarrow> u8 list \<Rightarrow> 's) \<Rightarrow> 's pb_ostream \<Rightarrow> 's \<Rightarrow> bool" where
  "kept_within app s st \<longleftrightarrow> (\<exists>cs. st = app (out_state s) cs \<and> unat (bytes_written s) + length cs \<le> unat (max_size s))"

definition writes :: "('s \<Rightarrow> u8 list \<Rightarrow> 's) \<Rightarrow> 's pb_encoder \<Rightarrow> u8 list \<Rightarrow> bool" where
  "writes app f bs \<longleftrightarrow> (\<forall>s. stream_ok app s \<and> unat (bytes_written s) + length bs < 2 ^ 64 \<longrightarrow>
     (if has_room s bs then f s = Returned (True, advanced app s bs)
      else \<exists>s'. f s = Returned (False, s') \<and> kept_within app s (out_state s')))"

lemma writes_room:
  "writes app f bs \<Longrightarrow> stream_ok app s \<Longrightarrow> unat (bytes_written s) + length bs < 2 ^ 64 \<Longrightarrow> has_room s bs \<Longrightarrow>
     f s = Returned (True, advanced app s bs)"
  unfolding writes_def by metis

lemma writes_full:
  "writes app f bs \<Longrightarrow> stream_ok app s \<Longrightarrow> unat (bytes_written s) + length bs < 2 ^ 64 \<Longrightarrow> \<not> has_room s bs \<Longrightarrow>
     \<exists>s'. f s = Returned (False, s') \<and> kept_within app s (out_state s')"
  unfolding writes_def by metis

lemma has_room_append: "has_room s (bs @ cs) \<Longrightarrow> has_room s bs"
  by (auto simp: has_room_def)

lemma and_then_Returned: "f s = Returned (ok, s') \<Longrightarrow> and_then f g s = (if ok then g s' else Returned (False, s'))"
  by (simp add: and_then_def)

locale accepting_sink =
  fixes app :: "'s \<Rightarrow> u8 list \<Rightarrow> 's"
  assumes app_Nil: "app st [] = st"
    and app_append: "app st (bs @ cs) = app (app st bs) cs"
begin

lemma advanced_ok:
  assumes "stream_ok app s" and "has_room s bs" and "unat (bytes_written s) + length bs < 2 ^ 64"
  shows "stream_ok app (advanced app s bs)"
  using assms by (auto simp: stream_ok_def advanced_def has_room_def unat_add_no_wrap)

lemma advanced_Nil [simp]: "advanced app s [] = s"
  by (simp add: advanced_def app_Nil)

lemma advanced_append: "advanced app (advanced app s bs) cs = advanced app s (bs @ cs)"
  by (simp add: advanced_def app_append)

lemma has_room_advanced:
  "has_room s bs \<Longrightarrow> unat (bytes_written s) + length bs < 2 ^ 64 \<Longrightarrow> has_room (advanced app s bs) cs \<longleftrightarrow> has_room s (bs @ cs)"
  by (auto simp: has_room_def advanced_def unat_add_no_wrap)

lemma kept_advanced:
  assumes "kept_within app (advanced app s bs) st" and "has_room s bs" and "unat (bytes_written s) + length bs < 2 ^ 64"
    and "callback s \<noteq> None"
  shows "kept_within app s st"
proof -
  obtain cs where cs: "st = app (app (out_state s) bs) cs"
    "unat (bytes_written s + of_nat (length bs)) + length cs \<le> unat (max_size s)"
    using assms(1,4) by (auto simp: kept_within_def advanced_def)
  then show ?thesis using assms(3) unfolding kept_within_def
    by (intro exI [of _ "bs @ cs"]) (simp add: app_append unat_add_no_wrap)
qed

lemma writes_nothing: "writes app encode_nothing []"
  by (auto simp: writes_def encode_nothing_def has_room_def stream_ok_def)

lemma writes_then:
  assumes f: "writes app f bs" and g: "writes app g cs"
  shows "writes app (and_then f g) (bs @ cs)"
  unfolding writes_def
proof (intro allI impI, elim conjE)
  fix s :: "'s pb_ostream" assume ok: "stream_ok app s" and small: "unat (bytes_written s) + length (bs @ cs) < 2 ^ 64"
  then have small1: "unat (bytes_written s) + length bs < 2 ^ 64" by simp
  show "if has_room s (bs @ cs) then and_then f g s = Returned (True, advanced app s (bs @ cs))
    else \<exists>s'. and_then f g s = Returned (False, s') \<and> kept_within app s (out_state s')"
  proof (cases "has_room s bs")
    case room: True
    let ?s1 = "advanced app s bs"
    note first = writes_room [OF f ok small1 room]
    have "unat (bytes_written ?s1) + length cs < 2 ^ 64" using small small1 by (simp add: advanced_def unat_add_no_wrap)
    with g advanced_ok [OF ok room small1] have rest: "if has_room ?s1 cs then g ?s1 = Returned (True, advanced app ?s1 cs)
        else \<exists>s'. g ?s1 = Returned (False, s') \<and> kept_within app ?s1 (out_state s')"
      unfolding writes_def by blast
    show ?thesis
    proof (cases "has_room ?s1 cs")
      case True
      then show ?thesis
        using rest first has_room_advanced [OF room small1] by (simp add: and_then_Returned advanced_append)
    next
      case False
      then have full: "\<not> has_room s (bs @ cs)" using has_room_advanced [OF room small1] by simp
      then have "callback s \<noteq> None" by (auto simp: has_room_def)
      with False rest first full kept_advanced [OF _ room small1] show ?thesis by (auto simp: and_then_Returned)
    qed
  next
    case False
    then obtain s' where "f s = Returned (False, s')" "kept_within app s (out_state s')"
      using writes_full [OF f ok small1] by blast
    then show ?thesis using False has_room_append [of s bs cs] by (auto simp: and_then_Returned)
  qed
qed

lemma writes_pb_write: "unat count = length bs \<Longrightarrow> writes app (pb_write (Some bs) count) bs"
  unfolding writes_def
proof (intro allI impI, elim conjE)
  fix s :: "'s pb_ostream"
  assume count: "unat count = length bs" and ok: "stream_ok app s" and small: "unat (bytes_written s) + length bs < 2 ^ 64"
  have sum: "unat (bytes_written s + count) = unat (bytes_written s) + length bs"
    using small count by (simp add: unat_word_ariths)
  have len: "of_nat (length bs) = count" by (simp flip: count)
  show "if has_room s bs then pb_write (Some bs) count s = Returned (True, advanced app s bs)
    else \<exists>s'. pb_write (Some bs) count s = Returned (False, s') \<and> kept_within app s (out_state s')"
  proof (cases "callback s")
    case None
    then show ?thesis by (simp add: has_room_def pb_write_def advanced_def len)
  next
    case (Some cb)
    then have cb: "cb = (\<lambda>st bs. (True, app st bs))" "unat (bytes_written s) \<le> unat (max_size s)"
      using ok by (auto simp: stream_ok_def)
    have checks: "(bytes_written s + count < bytes_written s) = False"
      "(max_size s < bytes_written s + count) = (\<not> has_room s bs)"
      by (simp_all add: word_less_nat_alt sum has_room_def Some not_le)
    have zero: "\<not> 0 < count \<longleftrightarrow> bs = []" using count by (simp add: word_gt_0 flip: unat_eq_0)
    show ?thesis
    proof (cases "has_room s bs")
      case True
      then show ?thesis using checks zero len
        by (cases "bs = []") (auto simp: pb_write_def Some cb(1) advanced_def app_Nil)
    next
      case False
      then have "bs \<noteq> []" using cb(2) by (auto simp: has_room_def)
      moreover have "kept_within app s (out_state s)"
        using cb(2) unfolding kept_within_def by (intro exI [of _ "[]"]) (simp add: app_Nil)
      ultimately show ?thesis using False checks zero
        by (simp add: pb_write_def Some pb_error_def)
    qed
  qed
qed

end

end
