(* ===== verification/Pb_Encode_Facts.thy ===== *)
theory Pb_Encode_Facts
  imports Pb_Encode_Spec
begin

text \<open>
  The proof that the encoder writes the wire format: numbers and tags, the encoders of fields,
  arrays, messages, and the buffer as the sink.
\<close>

section \<open>Numbers\<close>

lemma unat_ucast_u32 [simp]: "unat (ucast (w :: u32) :: u64) = unat w"
  by (simp add: unsigned_ucast_eq take_bit_nat_eq_self_iff order_less_trans [OF unsigned_less])

lemma unat_drop_bit_7: "unat (drop_bit 7 v :: u64) = unat v div 128"
  using unat_drop_bit_eq [of 7 v] drop_bit_eq_div [of 7 "unat v"] by simp

lemma low_group:
  fixes v :: u64
  shows "(ucast (v AND 0x7F) OR 0x80 :: u8) = of_nat (128 + unat v mod 128)"
    and "((ucast (v AND 0x7F) OR 0x80) AND 0x7F :: u8) = of_nat (unat v mod 128)"
proof -
  have bytes: "\<forall>k \<in> set [0..<128]. (of_nat k OR 0x80 :: u8) = of_nat (128 + k) \<and> ((of_nat k OR 0x80) AND 0x7F :: u8) = of_nat k"
    by code_simp
  have "v AND 0x7F = of_nat (unat v mod 128)"
  proof -
    have "v AND 0x7F = take_bit 7 v" by (simp add: take_bit_eq_mask mask_eq_exp_minus_1)
    moreover have "unat (take_bit 7 v) = unat v mod 128"
      using unsigned_take_bit_eq [of 7 v] by (simp add: take_bit_eq_mod)
    ultimately show ?thesis by (metis of_nat_unat ucast_id)
  qed
  moreover have "unat v mod 128 \<in> set [0..<128]" by simp
  moreover have "(ucast (of_nat k :: u64) :: u8) = of_nat k" if "k < 128" for k
    using that by (simp add: unsigned_of_nat take_bit_nat_eq_self)
  ultimately show "(ucast (v AND 0x7F) OR 0x80 :: u8) = of_nat (128 + unat v mod 128)"
    "((ucast (v AND 0x7F) OR 0x80) AND 0x7F :: u8) = of_nat (unat v mod 128)"
    using bytes by (metis atLeastLessThan_iff set_upt)+
qed

lemma varint_loop_uleb:
  "v \<noteq> 0 \<Longrightarrow> butlast (varint_loop v) @ [last (varint_loop v) AND 0x7F] = uleb128_encode (unat v)"
proof (induction v rule: varint_loop.induct)
  case (1 v)
  have loop: "varint_loop v = (ucast (v AND 0x7F) OR 0x80) # varint_loop (drop_bit 7 v)"
    using "1.prems" by (subst varint_loop.simps) simp
  show ?case
  proof (cases "drop_bit 7 v = 0")
    case True
    then have "unat v div 128 = 0" using unat_drop_bit_7 [of v] by simp
    then have "unat v < 128" by (simp add: div_eq_0_iff)
    moreover have "varint_loop (drop_bit 7 v) = []" using True by (subst varint_loop.simps) simp
    ultimately show ?thesis using low_group(2) [of v] by (subst uleb128_encode.simps) (simp add: loop)
  next
    case False
    then have "unat (drop_bit 7 v) \<noteq> 0" by (simp only: unat_eq_0 not_False_eq_True)
    then have "unat v div 128 \<noteq> 0" by (simp only: unat_drop_bit_7 not_False_eq_True)
    then have big: "\<not> unat v < 128" by simp
    have "varint_loop (drop_bit 7 v) \<noteq> []" using False by (subst varint_loop.simps) simp
    with "1.IH" [OF "1.prems" False] big show ?thesis
      by (subst uleb128_encode.simps) (simp add: loop low_group(1) unat_drop_bit_7)
  qed
qed

lemma uleb_length: "n < 128 ^ k \<Longrightarrow> 0 < k \<Longrightarrow> length (uleb128_encode n) \<le> k"
proof (induction k arbitrary: n)
  case (Suc k)
  show ?case
  proof (cases "n < 128")
    case True
    then show ?thesis by (subst uleb128_encode.simps) simp
  next
    case False
    then have "k \<noteq> 0" using Suc.prems(1) by (cases k) auto
    moreover have "n div 128 < 128 ^ k" using Suc.prems(1) by (simp add: div_less_iff_less_mult mult.commute)
    ultimately have "length (uleb128_encode (n div 128)) \<le> k" using Suc.IH by simp
    then show ?thesis using False by (subst uleb128_encode.simps) simp
  qed
qed simp

text \<open>The buffer of ten bytes is large enough.\<close>

lemma varint_length: "length (uleb128_encode (unat (v :: u64))) \<le> 10"
proof (rule uleb_length)
  have "unat v < 2 ^ 64" using unsigned_less [of v, where 'a = nat] by simp
  then show "unat v < 128 ^ 10" by simp
qed simp

lemma uleb_not_Nil: "uleb128_encode n \<noteq> []"
  by (subst uleb128_encode.simps) simp

lemma encode_varint_bytes:
  "\<exists>count. unat count = length (uleb128_encode (unat v)) \<and> pb_encode_varint v = pb_write (Some (uleb128_encode (unat v))) count"
proof (cases "v \<le> 0x7F")
  case True
  then have "unat v < 128" by (simp add: word_le_nat_alt)
  moreover from this have "(ucast v :: u8) = of_nat (unat v)" by simp
  ultimately have "uleb128_encode (unat v) = [ucast v]" by (subst uleb128_encode.simps) simp
  then show ?thesis using True by (intro exI [of _ 1]) (simp add: pb_encode_varint_def)
next
  case False
  then have "v \<noteq> 0" by auto
  have "pb_encode_varint v = pb_write (Some (uleb128_encode (unat v))) (of_nat (length (uleb128_encode (unat v))))"
    using False by (simp only: pb_encode_varint_def Let_def if_False varint_loop_uleb [OF \<open>v \<noteq> 0\<close>])
  then show ?thesis using varint_length [of v]
    by (intro exI [of _ "of_nat (length (uleb128_encode (unat v)))"]) (simp add: unat_of_nat)
qed

lemma tag_word:
  assumes "w < 8"
  shows "unat (push_bit 3 (ucast (t :: u32)) OR ucast (of_nat w :: u32) :: u64) = 8 * unat t + w"
proof -
  have "unat t < 2 ^ 32" using unsigned_less [of t, where 'a = nat] by simp
  then have p: "unat (push_bit 3 (ucast t) :: u64) = 8 * unat t"
    by (simp add: push_bit_eq_mult unat_word_ariths)
  have u: "(ucast (of_nat w :: u32) :: u64) = of_nat w"
    using assms by (simp add: unsigned_of_nat take_bit_nat_eq_self)
  have "push_bit 3 (ucast t) AND (of_nat w :: u64) = 0"
  proof (rule bit_eqI)
    fix n
    have "\<not> bit (of_nat w :: u64) n" if "3 \<le> n"
    proof -
      have "2 ^ 3 \<le> (2 :: nat) ^ n" using that by (intro power_increasing) simp_all
      then have "w < 2 ^ n" using assms by simp
      then have "\<not> bit w n" by (simp add: bit_iff_odd)
      then show ?thesis by (simp add: bit_simps)
    qed
    then show "bit (push_bit 3 (ucast t) AND (of_nat w :: u64)) n = bit 0 n" by (auto simp: bit_simps)
  qed
  then have "push_bit 3 (ucast t) OR (of_nat w :: u64) = push_bit 3 (ucast t) + of_nat w"
    by (simp add: disjunctive_add bit_eq_iff bit_simps)
  then show ?thesis using p assms \<open>unat t < 2 ^ 32\<close> by (simp add: u unat_word_ariths unat_of_nat)
qed

lemma byte_of_word:
  fixes w :: "'a::len word"
  shows "(ucast (drop_bit k w AND 0xFF) :: u8) = of_nat (unat w div 2 ^ k mod 256)"
proof (rule bit_word_eqI)
  fix n assume n: "n < LENGTH(8)"
  have "bit (0xFF :: 'a word) n = bit (mask 8 :: 'a word) n" by (simp add: mask_eq_exp_minus_1)
  moreover have "unat w div 2 ^ k mod 256 = take_bit 8 (drop_bit k (unat w))"
    by (simp add: take_bit_eq_mod drop_bit_eq_div)
  ultimately show "bit (ucast (drop_bit k w AND 0xFF) :: u8) n = bit (of_nat (unat w div 2 ^ k mod 256) :: u8) n"
    using n by (auto simp: bit_simps dest: bit_imp_le_length)
qed

lemma fixed_bytes:
  "[ucast (v32 AND 0xFF), ucast (drop_bit 8 v32 AND 0xFF), ucast (drop_bit 16 v32 AND 0xFF), ucast (drop_bit 24 v32 AND 0xFF)]
     = le_bytes 4 (unat (v32 :: u32))"
  "[ucast (v64 AND 0xFF), ucast (drop_bit 8 v64 AND 0xFF), ucast (drop_bit 16 v64 AND 0xFF), ucast (drop_bit 24 v64 AND 0xFF),
    ucast (drop_bit 32 v64 AND 0xFF), ucast (drop_bit 40 v64 AND 0xFF), ucast (drop_bit 48 v64 AND 0xFF),
    ucast (drop_bit 56 v64 AND 0xFF)] = le_bytes 8 (unat (v64 :: u64))"
proof -
  have le: "le_bytes n v = map (\<lambda>i. of_nat (v div 256 ^ i mod 256)) [0..<n]" for n v
  proof (induction n arbitrary: v)
    case (Suc n)
    have "[0..<Suc n] = 0 # map Suc [0..<n]" by (simp only: map_Suc_upt) (simp add: upt_conv_Cons del: upt_Suc)
    then show ?case using Suc [of "v div 256"] by (simp add: div_mult2_eq del: upt_Suc)
  qed simp
  have b: "(ucast (drop_bit k w AND 0xFF) :: u8) = of_nat (unat w div 256 ^ i mod 256)" if "k = 8 * i"
    for k i and w :: "'a::len word"
    using byte_of_word [of k w] by (simp add: that power_mult)
  have b0: "(ucast (w AND 0xFF) :: u8) = of_nat (unat w div 256 ^ 0 mod 256)" for w :: "'a::len word"
    using b [of 0 0 w] by simp
  have upts: "[0..<4] = [0, 1, 2, 3]" "[0..<8] = [0, 1, 2, 3, 4, 5, 6, 7]" by code_simp+
  show "[ucast (v32 AND 0xFF), ucast (drop_bit 8 v32 AND 0xFF), ucast (drop_bit 16 v32 AND 0xFF), ucast (drop_bit 24 v32 AND 0xFF)]
     = le_bytes 4 (unat (v32 :: u32))"
    by (simp only: le upts list.map list.inject simp_thms, intro conjI; (rule b0 | rule b, simp))
  show "[ucast (v64 AND 0xFF), ucast (drop_bit 8 v64 AND 0xFF), ucast (drop_bit 16 v64 AND 0xFF), ucast (drop_bit 24 v64 AND 0xFF),
    ucast (drop_bit 32 v64 AND 0xFF), ucast (drop_bit 40 v64 AND 0xFF), ucast (drop_bit 48 v64 AND 0xFF),
    ucast (drop_bit 56 v64 AND 0xFF)] = le_bytes 8 (unat (v64 :: u64))"
    by (simp only: le upts list.map list.inject simp_thms, intro conjI; (rule b0 | rule b, simp))
qed

context accepting_sink
begin

lemma writes_varint: "writes app (pb_encode_varint v) (uleb128_encode (unat v))"
  using encode_varint_bytes [of v] writes_pb_write by metis

lemma writes_varint_nat: "n < 2 ^ 64 \<Longrightarrow> writes app (pb_encode_varint (of_nat n)) (uleb128_encode n)"
  using writes_varint [of "of_nat n"] by (simp add: unat_of_nat)

lemma writes_svarint: "writes app (pb_encode_svarint v) (uleb128_encode (unat (of_int (zigzag (sint v)) :: u64)))"
proof -
  have "(if v <s 0 then NOT (push_bit 1 v) else push_bit 1 v) = (of_int (zigzag (sint v)) :: u64)"
  proof -
    have "of_int (- 2 * sint v - 1) = NOT (push_bit 1 v)" by (simp add: not_eq_complement push_bit_eq_mult)
    moreover have "of_int (2 * sint v) = push_bit 1 v" by (simp add: push_bit_eq_mult)
    ultimately show ?thesis by (simp add: zigzag_def word_sless_alt)
  qed
  then show ?thesis using writes_varint [of "of_int (zigzag (sint v))"] by (simp only: pb_encode_svarint_def)
qed

lemma writes_tag: "w < 8 \<Longrightarrow> writes app (pb_encode_tag (of_nat w) t) (uleb128_encode (8 * unat t + w))"
  using writes_varint [of "push_bit 3 (ucast t) OR ucast (of_nat w :: u32)"] tag_word [of w t]
  by (simp add: pb_encode_tag_def)

lemma writes_string:
  assumes "unat sz = length bs" and "buf = Some bs \<or> sz = 0"
  shows "writes app (pb_encode_string buf sz) (delimited bs)"
proof -
  have "writes app (pb_write buf sz) bs"
  proof (cases "buf = Some bs")
    case True
    then show ?thesis using writes_pb_write assms(1) by simp
  next
    case False
    then have "sz = 0" "bs = []" using assms by auto
    then have "pb_write buf sz = (encode_nothing :: 's pb_encoder)"
      by (auto simp: pb_write_def encode_nothing_def fun_eq_iff split: option.splits)
    then show ?thesis using \<open>bs = []\<close> writes_nothing by simp
  qed
  then show ?thesis
    using writes_then [OF writes_varint [of sz]] by (simp add: pb_encode_string_def delimited_def assms(1))
qed

text \<open>Both passes of a submessage, from what \<open>pb_encode\<close> writes.\<close>

lemma sizing_ok: "stream_ok app (PB_OSTREAM_SIZING P)" "has_room (PB_OSTREAM_SIZING P) bs"
  "advanced app (PB_OSTREAM_SIZING P) bs = (PB_OSTREAM_SIZING P)\<lparr>bytes_written := of_nat (length bs)\<rparr>"
  by (simp_all add: stream_ok_def has_room_def advanced_def PB_OSTREAM_SIZING_def)

lemma sizing_pass:
  "writes app f bs \<Longrightarrow> length bs < 2 ^ 64 \<Longrightarrow>
     f (PB_OSTREAM_SIZING P) = Returned (True, (PB_OSTREAM_SIZING P)\<lparr>bytes_written := of_nat (length bs)\<rparr>)"
  using writes_room [OF _ sizing_ok(1) _ sizing_ok(2), of f bs] by (simp add: sizing_ok(3)) (simp add: PB_OSTREAM_SIZING_def)

lemma writes_cong:
  assumes "\<And>s. stream_ok app s \<Longrightarrow> unat (bytes_written s) + length bs < 2 ^ 64 \<Longrightarrow> f s = g s" and "writes app g bs"
  shows "writes app f bs"
  using assms unfolding writes_def by simp

lemma writes_second_pass:
  assumes "writes app (enc tbl src) bs" and "length bs < 2 ^ 64"
  shows "writes app (\<lambda>s. if callback s = None then pb_write None (of_nat (length bs)) s
      else if max_size s < bytes_written s + of_nat (length bs) then pb_error ''stream full'' s
      else bind_result (enc tbl src \<lparr>callback = callback s, out_state = out_state s, max_size = of_nat (length bs),
                                      bytes_written = 0, errmsg = None\<rparr>) (\<lambda>(status, sub).
        let s = s\<lparr>bytes_written := bytes_written s + bytes_written sub, out_state := out_state sub, errmsg := errmsg sub\<rparr> in
        if bytes_written sub \<noteq> of_nat (length bs) then pb_error ''submsg size changed'' s else Returned (status, s))) bs"
    (is "writes app ?second bs")
  unfolding writes_def
proof (intro allI impI, elim conjE)
  fix s :: "'s pb_ostream"
  assume ok: "stream_ok app s" and small: "unat (bytes_written s) + length bs < 2 ^ 64"
  show "if has_room s bs then ?second s = Returned (True, advanced app s bs)
    else \<exists>s'. ?second s = Returned (False, s') \<and> kept_within app s (out_state s')"
  proof (cases "callback s")
    case None
    then show ?thesis by (simp add: has_room_def pb_write_def advanced_def)
  next
    case (Some cb)
    then have cb: "callback s = Some (\<lambda>st bs. (True, app st bs))" "unat (bytes_written s) \<le> unat (max_size s)" "errmsg s = None"
      using ok by (auto simp: stream_ok_def)
    have check: "max_size s < bytes_written s + of_nat (length bs) \<longleftrightarrow> \<not> has_room s bs"
      using small by (simp add: word_less_nat_alt unat_add_no_wrap has_room_def Some not_le)
    show ?thesis
    proof (cases "has_room s bs")
      case True
      let ?sub = "\<lparr>callback = callback s, out_state = out_state s, max_size = of_nat (length bs), bytes_written = 0, errmsg = None\<rparr>"
      have "stream_ok app ?sub" "has_room ?sub bs" "unat (bytes_written ?sub) + length bs < 2 ^ 64"
        using cb(1) assms(2) by (simp_all add: stream_ok_def has_room_def unat_of_nat)
      from writes_room [OF assms(1) this(1,3,2)]
      have "enc tbl src ?sub = Returned (True, advanced app ?sub bs)" .
      then show ?thesis using True check cb by (simp add: advanced_def)
    next
      case False
      have "kept_within app s (out_state s)"
        using cb(2) unfolding kept_within_def by (intro exI [of _ "[]"]) (simp add: app_Nil)
      then show ?thesis using False check Some by (simp add: pb_error_def)
    qed
  qed
qed

lemma writes_submessage:
  assumes "writes app (enc tbl src) bs" and "length bs < 2 ^ 64"
  shows "writes app (pb_encode_submessage enc P tbl src) (delimited bs)"
proof -
  let ?sub = "(PB_OSTREAM_SIZING P)\<lparr>bytes_written := of_nat (length bs)\<rparr>"
  have n: "bytes_written ?sub = of_nat (length bs)" by simp
  show ?thesis
    unfolding pb_encode_submessage_def sizing_pass [OF assms] bind_result.simps prod.case not_True_eq_False if_False Let_def n delimited_def
    by (rule writes_then [OF writes_varint_nat [OF assms(2)]
        writes_second_pass [where enc = enc and tbl = tbl and src = src, OF assms, unfolded Let_def]])
qed

section \<open>Values\<close>

text \<open>What is known of the messages one level deeper.\<close>

definition deeper ::
  "'s pb_program \<Rightarrow> (pb_field_t list \<Rightarrow> u64 \<Rightarrow> 's pb_encoder) \<Rightarrow>
     (pb_field_t list \<Rightarrow> u64 \<Rightarrow> (u32 \<times> wire_value) list option) \<Rightarrow> bool" where
  "deeper P enc sub \<longleftrightarrow> (\<forall>p a es. sub (pb_tables P p) a = Some es \<longrightarrow> length (wire es) < 2 ^ 64 \<longrightarrow>
     writes app (enc (pb_tables P p) a) (wire es))"

lemma value_writes:
  assumes "value_at sub P field a = Some v" and "deeper P enc sub" and "length (wire_body v) < 2 ^ 64"
  shows "writes app ((PB_ENCODERS enc P ! unat (PB_LTYPE (pb_type field))) field a) (wire_body v) \<and>
    writes app (pb_encode_tag_for_field field) (uleb128_encode (8 * unat (pb_tag field) + wire_type v))"
proof -
  let ?lt = "PB_LTYPE (pb_type field)"
  have le: "length bs \<le> length (delimited bs)" for bs by (simp add: delimited_def)
  have tag: "(pb_encode_tag_for_field field :: 's pb_encoder) = pb_encode_tag (of_nat w) (pb_tag field) \<Longrightarrow> w < 8 \<Longrightarrow> wire_type v = w \<Longrightarrow>
      writes app (pb_encode_tag_for_field field) (uleb128_encode (8 * unat (pb_tag field) + wire_type v))" for w
    using writes_tag [of w "pb_tag field"] by simp
  note defs = value_at_def Let_def PB_ENCODERS_def pb_encode_tag_for_field_def
  consider "?lt = 0" | "?lt = 1" | "?lt = 2" | "?lt = 3" | "?lt = 4" | "?lt = 5" | "?lt = 6" | "?lt = 7" | "?lt = 8" | "?lt = 10"
    using assms(1) by (simp add: value_at_def Let_def split: if_splits)
  then show ?thesis
  proof cases
    case 1
    then obtain b where b: "safe_read_bool (pb_mem P) a = Some b" "v = Varint (if b then 1 else 0)"
      using assms(1) by (auto simp: value_at_def)
    then show ?thesis using 1 tag [of 0] writes_varint [of "if b then 1 else 0"]
      by (simp add: PB_ENCODERS_def pb_enc_bool_def [abs_def] pb_encode_tag_for_field_def)
  next
    case 2
    then obtain x where x: "read_signed (pb_mem P) (data_size field) a = Some (Some x)" "v = Varint x"
      using assms(1) by (auto simp: value_at_def bind_eq_Some_conv)
    then show ?thesis using 2 tag [of 0] writes_varint [of x]
      by (simp add: PB_ENCODERS_def pb_enc_varint_def [abs_def] pb_encode_tag_for_field_def)
  next
    case 3
    then obtain x where x: "read_unsigned (pb_mem P) (data_size field) a = Some (Some x)" "v = Varint x"
      using assms(1) by (auto simp: value_at_def bind_eq_Some_conv)
    then show ?thesis using 3 tag [of 0] writes_varint [of x]
      by (simp add: PB_ENCODERS_def pb_enc_uvarint_def [abs_def] pb_encode_tag_for_field_def)
  next
    case 4
    then obtain x where x: "read_signed (pb_mem P) (data_size field) a = Some (Some x)" "v = Varint (of_int (zigzag (sint x)))"
      using assms(1) by (auto simp: value_at_def bind_eq_Some_conv)
    then show ?thesis using 4 tag [of 0] writes_svarint [of x]
      by (simp add: PB_ENCODERS_def pb_enc_svarint_def [abs_def] pb_encode_tag_for_field_def)
  next
    case 5
    then obtain w where w: "read_word (pb_mem P) a 4 = Some w" "v = Fixed32 w"
      using assms(1) by (auto simp: value_at_def)
    have "writes app (pb_encode_fixed32 P a) (le_bytes 4 (unat w))"
      using writes_pb_write [of 4 "le_bytes 4 (unat w)"] by (simp add: pb_encode_fixed32_def [abs_def] w(1) fixed_bytes(1))
    with 5 w(2) tag [of 5] show ?thesis
      by (simp add: PB_ENCODERS_def pb_enc_fixed32_def pb_encode_tag_for_field_def)
  next
    case 6
    then obtain w where w: "read_word (pb_mem P) a 8 = Some w" "v = Fixed64 w"
      using assms(1) by (auto simp: value_at_def)
    have "writes app (pb_encode_fixed64 P a) (le_bytes 8 (unat w))"
      using writes_pb_write [of 8 "le_bytes 8 (unat w)"] by (simp add: pb_encode_fixed64_def [abs_def] w(1) fixed_bytes(2))
    with 6 w(2) tag [of 1] show ?thesis
      by (simp add: PB_ENCODERS_def pb_enc_fixed64_def pb_encode_tag_for_field_def)
  next
    case 7
    have "writes app (pb_enc_bytes P field a) (wire_body v) \<and> wire_type v = 2"
    proof (cases "a = 0")
      case True
      then have "v = Bytes []" using 7 assms(1) by (simp add: value_at_def)
      then show ?thesis using True writes_string [of 0 "[]" None] by (simp add: pb_enc_bytes_def [abs_def])
    next
      case False
      then obtain sz bs where sz: "read_word (pb_mem P) a 4 = Some (sz :: u32)" "load (pb_mem P) (a + 4) (unat sz) = Some bs"
        "\<not> (PB_ATYPE (pb_type field) = PB_ATYPE_STATIC \<and> ucast (data_size field) - 4 < (ucast sz :: u64))" "v = Bytes bs"
        using 7 assms(1) by (auto simp: value_at_def Let_def bind_eq_Some_conv split: if_splits)
      have "unat (ucast sz :: u64) = length bs"
        using load_length [OF sz(2)] by simp
      moreover have "pb_enc_bytes P field a = pb_encode_string (Some bs) (ucast sz)"
        by (rule ext) (simp only: pb_enc_bytes_def False sz(1,2) from_option_simps bind_result.simps sz(3) if_False)
      ultimately show ?thesis using sz(4) writes_string [of "ucast sz" bs "Some bs"] by simp
    qed
    with 7 tag [of 2] show ?thesis by (simp add: PB_ENCODERS_def pb_encode_tag_for_field_def)
  next
    case 8
    have "writes app (pb_enc_string P field a) (wire_body v) \<and> wire_type v = 2"
    proof (cases "a = 0")
      case True
      then have "v = Bytes []" using 8 assms(1) by (simp add: value_at_def)
      then show ?thesis using True writes_string [of 0 "[]" "Some []"] by (simp add: pb_enc_string_def [abs_def] Let_def)
    next
      case False
      then obtain sz bs where sz: "string_loop (pb_mem P) a 0 (if PB_ATYPE (pb_type field) = PB_ATYPE_POINTER then - 1
          else ucast (data_size field)) = Some sz" "load (pb_mem P) a (unat sz) = Some bs" "v = Bytes bs"
        using 8 assms(1) by (auto simp: value_at_def Let_def bind_eq_Some_conv split del: if_split)
      then show ?thesis using False load_length [OF sz(2)] writes_string [of sz bs "Some bs"]
        by (simp add: pb_enc_string_def [abs_def] Let_def split del: if_split)
    qed
    with 8 tag [of 2] show ?thesis by (simp add: PB_ENCODERS_def pb_encode_tag_for_field_def)
  next
    case 9
    then obtain es where es: "pb_ptr field \<noteq> 0" "sub (pb_tables P (pb_ptr field)) a = Some es" "v = Message es"
      using assms(1) by (auto simp: value_at_def split: if_splits)
    have "length (wire es) < 2 ^ 64"
      using assms(3) le [of "wire es"] by (simp add: es(3) wire_def)
    with assms(2) es(2) have "writes app (enc (pb_tables P (pb_ptr field)) a) (wire es)" unfolding deeper_def by blast
    from writes_submessage [where enc = enc, OF this \<open>length (wire es) < 2 ^ 64\<close>, of P] 9 es(1,3) tag [of 2] show ?thesis
      by (simp add: PB_ENCODERS_def pb_encode_tag_for_field_def pb_enc_submessage_def wire_def)
  next
    case 10
    then obtain bs where bs: "load (pb_mem P) a (unat (data_size field)) = Some bs" "v = Bytes bs"
      using assms(1) by (auto simp: value_at_def)
    have "unat (ucast (data_size field) :: u64) = length bs"
      using load_length [OF bs(1)] by simp
    then show ?thesis using 10 bs tag [of 2] writes_string [of "ucast (data_size field)" bs "Some bs"]
      by (simp add: PB_ENCODERS_def pb_encode_tag_for_field_def pb_enc_fixed_length_bytes_def)
  qed
qed

section \<open>Arrays\<close>

lemma entries_loop_writes:
  "values_at val field n p = Some vs \<Longrightarrow> (\<And>q v. val q = Some v \<Longrightarrow> v \<in> set vs \<Longrightarrow> writes app (f q) (g v)) \<Longrightarrow>
     writes app (entries_loop field f n p) (concat (map g vs))"
proof (induction n arbitrary: p vs)
  case 0
  then show ?case using writes_nothing by simp
next
  case (Suc n)
  then obtain v ws where v: "val p = Some v" "values_at val field n (p + ucast (data_size field)) = Some ws" "vs = v # ws"
    by (auto simp: bind_eq_Some_conv)
  then have "writes app (entries_loop field f n (p + ucast (data_size field))) (concat (map g ws))"
    using Suc by simp
  then show ?case using writes_then [of "f p" "g v"] Suc.prems(2) [OF v(1)] v(3) by simp
qed

lemma values_at_length: "values_at val field n p = Some vs \<Longrightarrow> length vs = n"
  by (induction n arbitrary: p vs) (auto simp: bind_eq_Some_conv)

lemma values_at_mem: "values_at val field n p = Some vs \<Longrightarrow> v \<in> set vs \<Longrightarrow> \<exists>q. val q = Some v"
  by (induction n arbitrary: p vs) (auto simp: bind_eq_Some_conv)

lemma writes_sized:
  assumes "writes app f bs"
  shows "writes app (\<lambda>s. if callback s = None then pb_write None (of_nat (length bs)) s else f s) bs"
  using assms unfolding writes_def by (auto simp: has_room_def pb_write_def advanced_def)

lemma length_le_concat: "x \<in> set xs \<Longrightarrow> length (f x) \<le> length (concat (map f xs))"
  by (induction xs) auto

lemma length_concat_const: "(\<And>x. x \<in> set xs \<Longrightarrow> length (f x) = k) \<Longrightarrow> length (concat (map f xs)) = k * length xs"
  by (induction xs) auto

lemma packed_writes:
  assumes vs: "values_at (value_at sub P field) field (unat count) data = Some vs"
    and lt: "PB_LTYPE (pb_type field) \<le> PB_LTYPE_LAST_PACKABLE" and enc: "deeper P enc sub"
    and count: "count \<noteq> 0" "PB_ATYPE (pb_type field) \<noteq> PB_ATYPE_POINTER \<longrightarrow> \<not> array_size field < count"
    and small: "length (wire [(pb_tag field, Packed vs)]) < 2 ^ 64"
  shows "writes app (encode_array P field data (ucast count) (PB_ENCODERS enc P ! unat (PB_LTYPE (pb_type field))))
    (wire [(pb_tag field, Packed vs)])"
proof -
  let ?func = "PB_ENCODERS enc P ! unat (PB_LTYPE (pb_type field)) :: pb_field_t \<Rightarrow> u64 \<Rightarrow> 's pb_encoder"
  let ?loop = "entries_loop field (?func field) (unat count) data"
  define body where "body = concat (map wire_body vs)"
  have wire: "wire [(pb_tag field, Packed vs)] = uleb128_encode (8 * unat (pb_tag field) + 2) @ uleb128_encode (length body) @ body"
    by (simp add: wire_def body_def delimited_def)
  then have len: "length body < 2 ^ 64" using small by simp
  have loop: "writes app ?loop body"
    unfolding body_def
  proof (rule entries_loop_writes [OF vs])
    fix q v assume "value_at sub P field q = Some v" "v \<in> set vs"
    moreover from this(2) have "length (wire_body v) < 2 ^ 64"
      using length_le_concat [of v vs wire_body] len by (simp add: body_def)
    ultimately show "writes app (?func field q) (wire_body v)" using value_writes [OF _ enc] by blast
  qed
  have fixed: "length (wire_body v) = (if PB_LTYPE (pb_type field) = 4 then 4 else 8)"
    if "v \<in> set vs" "PB_LTYPE (pb_type field) = 4 \<or> PB_LTYPE (pb_type field) = 5" for v
    using values_at_mem [OF vs that(1)] that(2) by (auto simp: value_at_def)
  have size4: "4 * ucast count = (of_nat (length body) :: u64)" if "PB_LTYPE (pb_type field) = 4"
  proof -
    have "length body = 4 * unat count"
      using length_concat_const [of vs wire_body 4] fixed that values_at_length [OF vs] by (simp add: body_def)
    then show ?thesis by simp
  qed
  have size8: "8 * ucast count = (of_nat (length body) :: u64)" if "PB_LTYPE (pb_type field) = 5"
  proof -
    have "length body = 8 * unat count"
      using length_concat_const [of vs wire_body 8] fixed that values_at_length [OF vs] by (simp add: body_def)
    then show ?thesis by simp
  qed
  have sizing: "(if PB_LTYPE (pb_type field) = PB_LTYPE_FIXED32 then Returned (True, 4 * ucast count)
      else if PB_LTYPE (pb_type field) = PB_LTYPE_FIXED64 then Returned (True, 8 * ucast count)
      else bind_result (?loop (PB_OSTREAM_SIZING P)) (\<lambda>(ok, sizestream). Returned (ok, bytes_written sizestream))) =
      Returned (True, of_nat (length body))"
    using sizing_pass [OF loop len] size4 size8 by simp
  have "encode_array P field data (ucast count) ?func =
      and_then (pb_encode_tag PB_WT_STRING (pb_tag field)) (and_then (pb_encode_varint (of_nat (length body)))
        (\<lambda>s. if callback s = None then pb_write None (of_nat (length body)) s else ?loop s))"
  proof (rule ext)
    fix s :: "'s pb_ostream"
    have c: "(ucast count :: u64) = 0 \<longleftrightarrow> False" using count(1) by (simp flip: unat_eq_0)
    have m: "(PB_ATYPE (pb_type field) \<noteq> PB_ATYPE_POINTER \<and> ucast (array_size field) < (ucast count :: u64)) \<longleftrightarrow> False"
      using count(2) by (auto simp: word_less_nat_alt)
    show "encode_array P field data (ucast count) ?func s =
      and_then (pb_encode_tag PB_WT_STRING (pb_tag field)) (and_then (pb_encode_varint (of_nat (length body)))
        (\<lambda>s. if callback s = None then pb_write None (of_nat (length body)) s else ?loop s)) s"
      unfolding encode_array_def c m if_False lt [THEN eqTrueI] if_True unat_ucast_u32 sizing
      by (simp add: fun_eq_iff)
  qed
  then show ?thesis
    using writes_then [OF writes_tag [of 2 "pb_tag field"] writes_then [OF writes_varint_nat [OF len] writes_sized [OF loop]]]
    by (simp add: wire)
qed

lemma unpacked_writes:
  assumes vs: "values_at (\<lambda>p. if PB_ATYPE (pb_type field) = PB_ATYPE_POINTER \<and>
        (PB_LTYPE (pb_type field) = PB_LTYPE_STRING \<or> PB_LTYPE (pb_type field) = PB_LTYPE_BYTES)
      then Option.bind (read_word (pb_mem P) p 8) (value_at sub P field) else value_at sub P field p) field (unat count) data = Some vs"
    and lt: "\<not> PB_LTYPE (pb_type field) \<le> PB_LTYPE_LAST_PACKABLE" and enc: "deeper P enc sub"
    and count: "count \<noteq> 0" "PB_ATYPE (pb_type field) \<noteq> PB_ATYPE_POINTER \<longrightarrow> \<not> array_size field < count"
    and small: "length (wire (map (Pair (pb_tag field)) vs)) < 2 ^ 64"
  shows "writes app (encode_array P field data (ucast count) (PB_ENCODERS enc P ! unat (PB_LTYPE (pb_type field))))
    (wire (map (Pair (pb_tag field)) vs))"
proof -
  let ?func = "PB_ENCODERS enc P ! unat (PB_LTYPE (pb_type field)) :: pb_field_t \<Rightarrow> u64 \<Rightarrow> 's pb_encoder"
  let ?indirect = "PB_ATYPE (pb_type field) = PB_ATYPE_POINTER \<and>
    (PB_LTYPE (pb_type field) = PB_LTYPE_STRING \<or> PB_LTYPE (pb_type field) = PB_LTYPE_BYTES)"
  let ?entry = "\<lambda>p. and_then (pb_encode_tag_for_field field) (\<lambda>s. if ?indirect
    then bind_result (from_option (read_word (pb_mem P) p 8)) (\<lambda>q. ?func field q s) else ?func field p s)"
  have "writes app (entries_loop field ?entry (unat count) data) (concat (map (\<lambda>v. wire_entry (pb_tag field, v)) vs))"
  proof (rule entries_loop_writes [OF vs])
    fix q v
    assume v: "(if ?indirect then Option.bind (read_word (pb_mem P) q 8) (value_at sub P field) else value_at sub P field q) = Some v"
      "v \<in> set vs"
    have "length (wire_entry (pb_tag field, v)) < 2 ^ 64"
      using length_le_concat [OF v(2), of "\<lambda>v. wire_entry (pb_tag field, v)"] small by (simp add: wire_def comp_def)
    then have len: "length (wire_body v) < 2 ^ 64" by simp
    obtain a where a: "value_at sub P field a = Some v" "?indirect \<longrightarrow> read_word (pb_mem P) q 8 = Some a" "\<not> ?indirect \<longrightarrow> a = q"
      using v(1) by (cases ?indirect) (auto simp: bind_eq_Some_conv)
    have "(\<lambda>s. if ?indirect then bind_result (from_option (read_word (pb_mem P) q 8)) (\<lambda>q. ?func field q s) else ?func field q s)
        = ?func field a"
      using a(2,3) by (cases ?indirect) auto
    then show "writes app (?entry q) (wire_entry (pb_tag field, v))"
      using value_writes [OF a(1) enc len] writes_then by simp
  qed
  moreover have "encode_array P field data (ucast count) ?func = entries_loop field ?entry (unat count) data"
  proof (rule ext)
    fix s :: "'s pb_ostream"
    have c: "(ucast count :: u64) = 0 \<longleftrightarrow> False" using count(1) by (simp flip: unat_eq_0)
    have m: "(PB_ATYPE (pb_type field) \<noteq> PB_ATYPE_POINTER \<and> ucast (array_size field) < (ucast count :: u64)) \<longleftrightarrow> False"
      using count(2) by (auto simp: word_less_nat_alt)
    show "encode_array P field data (ucast count) ?func s = entries_loop field ?entry (unat count) data s"
      unfolding encode_array_def c m if_False if_not_P [OF lt] unat_ucast_u32 ..
  qed
  ultimately show ?thesis by (simp add: wire_def comp_def)
qed

lemma array_writes:
  assumes "array_entries (value_at sub P field) P field data count = Some es" and "deeper P enc sub" and "length (wire es) < 2 ^ 64"
  shows "writes app (encode_array P field data (ucast count) (PB_ENCODERS enc P ! unat (PB_LTYPE (pb_type field)))) (wire es)"
proof (cases "count = 0")
  case True
  then have "es = []" using assms(1) by (simp add: array_entries_def)
  moreover have "encode_array P field data (ucast count) f = (encode_nothing :: 's pb_encoder)" for f
    using True by (simp add: fun_eq_iff encode_array_def encode_nothing_def)
  ultimately show ?thesis using writes_nothing by (simp add: wire_def)
next
  case False
  have fits: "PB_ATYPE (pb_type field) \<noteq> PB_ATYPE_POINTER \<longrightarrow> \<not> array_size field < count"
    using assms(1) False by (auto simp: array_entries_def)
  show ?thesis
  proof (cases "PB_LTYPE (pb_type field) \<le> PB_LTYPE_LAST_PACKABLE")
    case True
    then obtain vs where "values_at (value_at sub P field) field (unat count) data = Some vs" "es = [(pb_tag field, Packed vs)]"
      using assms(1) False fits by (auto simp: array_entries_def)
    then show ?thesis using packed_writes [OF _ True assms(2) False fits] assms(3) by simp
  next
    case unpacked: False
    then obtain vs where "values_at (\<lambda>p. if PB_ATYPE (pb_type field) = PB_ATYPE_POINTER \<and>
        (PB_LTYPE (pb_type field) = PB_LTYPE_STRING \<or> PB_LTYPE (pb_type field) = PB_LTYPE_BYTES)
      then Option.bind (read_word (pb_mem P) p 8) (value_at sub P field) else value_at sub P field p) field (unat count) data = Some vs"
      "es = map (Pair (pb_tag field)) vs"
      using assms(1) False fits unfolding array_entries_def by (auto split del: if_split simp: if_not_P)
    then show ?thesis using unpacked_writes [OF _ unpacked assms(2) False fits] assms(3) by simp
  qed
qed

section \<open>Fields and messages\<close>

lemma one_field_writes:
  assumes "map_option (\<lambda>v. [(pb_tag field, v)]) (value_at sub P field data) = Some es" and "deeper P enc sub"
    and "length (wire es) < 2 ^ 64"
  shows "writes app (and_then (pb_encode_tag_for_field field)
    ((PB_ENCODERS enc P ! unat (PB_LTYPE (pb_type field))) field data)) (wire es)"
proof -
  obtain v where v: "value_at sub P field data = Some v" "es = [(pb_tag field, v)]" using assms(1) by blast
  then have "length (wire_body v) < 2 ^ 64" using assms(3) by (simp add: wire_def)
  from value_writes [OF v(1) assms(2) this] show ?thesis using writes_then by (simp add: v(2) wire_def)
qed

lemma skipped_field_writes: "es = [] \<Longrightarrow> writes app (Returned \<circ> Pair True) (wire es)"
  using writes_nothing by (simp add: wire_def encode_nothing_def [abs_def] comp_def)

text \<open>What \<open>encode_basic_field\<close> does once the default check and the pointer are known.\<close>

lemma basic_field_cases:
  assumes lt: "\<not> PB_LTYPES_COUNT \<le> PB_LTYPE (pb_type field)"
    and def: "size_offset field = 0 \<and> PB_HTYPE (pb_type field) = PB_HTYPE_OPTIONAL \<longrightarrow>
      pb_check_proto3_default_value n P field a = Returned is_default"
    and ptr: "(if PB_ATYPE (pb_type field) = PB_ATYPE_POINTER then read_word (pb_mem P) a 8 else Some a) = Some data"
  shows "encode_basic_field n enc P field a s =
    (let t = pb_type field; env = pb_mem P; member = a + scast (size_offset field);
         func = PB_ENCODERS enc P ! unat (PB_LTYPE t);
         field_value = and_then (pb_encode_tag_for_field field) (func field data);
         read_count = from_option (if size_offset field = 0 then None else (read_word env member 4 :: u32 option)) in
     if PB_HTYPE t = PB_HTYPE_REQUIRED then (if data = 0 then pb_error ''missing required field'' s else field_value s)
     else if PB_HTYPE t = PB_HTYPE_OPTIONAL
     then bind_result (if size_offset field \<noteq> 0 then from_option (safe_read_bool env member)
            else Returned (if PB_ATYPE t = PB_ATYPE_POINTER then data \<noteq> 0 else \<not> is_default))
       (\<lambda>present. if present then field_value s else Returned (True, s))
     else if PB_HTYPE t = PB_HTYPE_REPEATED
     then bind_result (if size_offset field \<noteq> 0 then read_count else Returned (array_size field))
       (\<lambda>count. encode_array P field data (ucast count) func s)
     else bind_result read_count (\<lambda>which. if which = pb_tag field then field_value s else Returned (True, s)))"
  using lt def ptr
  by (cases "size_offset field = 0"; cases "PB_HTYPE (pb_type field) = PB_HTYPE_OPTIONAL";
      cases "PB_ATYPE (pb_type field) = PB_ATYPE_POINTER")
    (simp_all add: encode_basic_field_def Let_def cong: if_cong)

lemma basic_field_writes:
  assumes es: "field_entries n sub P field a = Some es" and enc: "deeper P enc sub" and small: "length (wire es) < 2 ^ 64"
    and basic: "PB_LTYPE (pb_type field) \<noteq> PB_LTYPE_EXTENSION" "PB_ATYPE (pb_type field) \<noteq> PB_ATYPE_CALLBACK"
  shows "writes app (encode_basic_field n enc P field a) (wire es)"
proof -
  let ?t = "pb_type field" and ?env = "pb_mem P" and ?member = "a + scast (size_offset field)"
  have lt: "\<not> PB_LTYPES_COUNT \<le> PB_LTYPE ?t" using es basic by (auto simp: field_entries_def Let_def)
  obtain is_default data where
    def: "(if size_offset field = 0 \<and> PB_HTYPE ?t = PB_HTYPE_OPTIONAL
       then (case pb_check_proto3_default_value n P field a of Returned b \<Rightarrow> Some b | _ \<Rightarrow> None) else Some False) = Some is_default"
    and ptr: "(if PB_ATYPE ?t = PB_ATYPE_POINTER then read_word ?env a 8 else Some a) = Some data"
    and rest: "(let one = map_option (\<lambda>v. [(pb_tag field, v)]) (value_at sub P field data) in
        if PB_HTYPE ?t = PB_HTYPE_REQUIRED then (if data = 0 then None else one)
        else if PB_HTYPE ?t = PB_HTYPE_OPTIONAL then do {
          present \<leftarrow> (if size_offset field \<noteq> 0 then safe_read_bool ?env ?member
                      else Some (if PB_ATYPE ?t = PB_ATYPE_POINTER then data \<noteq> 0 else \<not> is_default));
          if present then one else Some [] }
        else if PB_HTYPE ?t = PB_HTYPE_REPEATED then do {
          count \<leftarrow> (if size_offset field \<noteq> 0 then read_word ?env ?member 4 else Some (array_size field));
          array_entries (value_at sub P field) P field data count }
        else if size_offset field = 0 then None
        else do { which \<leftarrow> read_word ?env ?member 4; if which = pb_tag field then one else Some [] }) = Some es"
  proof -
    from es basic lt obtain is_default where d: "(if size_offset field = 0 \<and> PB_HTYPE ?t = PB_HTYPE_OPTIONAL
       then (case pb_check_proto3_default_value n P field a of Returned b \<Rightarrow> Some b | _ \<Rightarrow> None) else Some False) = Some is_default"
      unfolding field_entries_def Let_def by (auto simp: bind_eq_Some_conv split del: if_split simp: if_not_P split: if_split_asm)
    from es basic lt d obtain data where "(if PB_ATYPE ?t = PB_ATYPE_POINTER then read_word ?env a 8 else Some a) = Some data"
      unfolding field_entries_def Let_def by (auto simp: bind_eq_Some_conv split del: if_split split: if_split_asm)
    with es basic lt d show thesis
      using that unfolding field_entries_def Let_def by (auto simp: bind_eq_Some_conv split del: if_split split: if_split_asm)
  qed
  have check: "size_offset field = 0 \<and> PB_HTYPE ?t = PB_HTYPE_OPTIONAL \<longrightarrow>
      pb_check_proto3_default_value n P field a = Returned is_default"
    using def by (auto split: loop_result.splits)
  let ?func = "PB_ENCODERS enc P ! unat (PB_LTYPE ?t) :: pb_field_t \<Rightarrow> u64 \<Rightarrow> 's pb_encoder"
  let ?one = "and_then (pb_encode_tag_for_field field) (?func field data)"
  note cases = basic_field_cases [OF lt check ptr, of enc, unfolded Let_def]
  show ?thesis
  proof (cases "PB_HTYPE ?t = PB_HTYPE_REQUIRED")
    case True
    then have "data \<noteq> 0" "map_option (\<lambda>v. [(pb_tag field, v)]) (value_at sub P field data) = Some es"
      using rest by (auto simp: Let_def split: if_splits)
    moreover have "encode_basic_field n enc P field a = ?one"
      using \<open>data \<noteq> 0\<close> by (intro ext) (simp only: cases True simp_thms if_True if_False)
    ultimately show ?thesis using one_field_writes [OF _ enc small] by simp
  next
    case not_required: False
    show ?thesis
    proof (cases "PB_HTYPE ?t = PB_HTYPE_OPTIONAL")
      case True
      then obtain present where present: "(if size_offset field \<noteq> 0 then safe_read_bool ?env ?member
          else Some (if PB_ATYPE ?t = PB_ATYPE_POINTER then data \<noteq> 0 else \<not> is_default)) = Some present"
        "(if present then map_option (\<lambda>v. [(pb_tag field, v)]) (value_at sub P field data) else Some []) = Some es"
        using rest not_required unfolding Let_def by (auto simp: bind_eq_Some_conv split del: if_split)
      have "(if size_offset field \<noteq> 0 then from_option (safe_read_bool ?env ?member)
          else Returned (if PB_ATYPE ?t = PB_ATYPE_POINTER then data \<noteq> 0 else \<not> is_default)) = Returned present"
        using present(1) by (cases "size_offset field = 0") simp_all
      then have enc_eq: "encode_basic_field n enc P field a = (if present then ?one else Returned \<circ> Pair True)"
        using not_required True by (intro ext) (simp only: cases simp_thms if_True if_False bind_result.simps comp_apply if_distrib [of "\<lambda>f. f _"])
      show ?thesis
      proof (cases present)
        case True
        then show ?thesis using present(2) one_field_writes [OF _ enc small] by (simp add: enc_eq)
      next
        case False
        then show ?thesis using present(2) skipped_field_writes [of es] by (simp add: enc_eq)
      qed
    next
      case not_optional: False
      show ?thesis
      proof (cases "PB_HTYPE ?t = PB_HTYPE_REPEATED")
        case True
        then obtain count where count: "(if size_offset field \<noteq> 0 then read_word ?env ?member 4 else Some (array_size field)) = Some count"
          "array_entries (value_at sub P field) P field data count = Some es"
          using rest not_required not_optional unfolding Let_def by (auto simp: bind_eq_Some_conv split del: if_split)
        have "(if size_offset field \<noteq> 0 then from_option (if size_offset field = 0 then None else read_word ?env ?member 4)
            else Returned (array_size field)) = Returned count"
          using count(1) by (cases "size_offset field = 0") simp_all
        then have "encode_basic_field n enc P field a = encode_array P field data (ucast count) ?func"
          using not_required not_optional True by (intro ext) (simp only: cases if_False if_True simp_thms bind_result.simps)
        then show ?thesis using array_writes [OF count(2) enc small] by simp
      next
        case False
        then obtain w where w: "size_offset field \<noteq> 0" "read_word ?env ?member 4 = Some w"
          "(if w = pb_tag field then map_option (\<lambda>v. [(pb_tag field, v)]) (value_at sub P field data) else Some []) = Some es"
          using rest not_required not_optional unfolding Let_def by (auto simp: bind_eq_Some_conv split: if_split_asm)
        have enc_eq: "encode_basic_field n enc P field a = (if w = pb_tag field then ?one else Returned \<circ> Pair True)"
          using not_required not_optional False w(1,2)
          by (intro ext) (simp only: cases if_False from_option_simps bind_result.simps comp_apply if_distrib [of "\<lambda>f. f _"])
        show ?thesis
        proof (cases "w = pb_tag field")
          case True
          then show ?thesis using w(3) one_field_writes [OF _ enc small] by (simp add: enc_eq)
        next
          case False
          then show ?thesis using w(3) skipped_field_writes [of es] by (simp add: enc_eq)
        qed
      qed
    qed
  qed
qed

text \<open>A field of a message: the branch of \<open>pb_encode\<close> for it.\<close>

lemma field_writes:
  assumes es: "field_entries n sub P field a = Some es" and enc: "deeper P enc sub" and small: "length (wire es) < 2 ^ 64"
  shows "writes app (if PB_LTYPE (pb_type field) = PB_LTYPE_EXTENSION then encode_extension_field n enc P a
    else encode_field n enc P field a) (wire es)"
proof (cases "PB_LTYPE (pb_type field) = PB_LTYPE_EXTENSION \<or> PB_ATYPE (pb_type field) = PB_ATYPE_CALLBACK")
  case True
  then have null: "read_word (pb_mem P) a 8 = Some (0 :: u64)" "es = []"
    using es by (auto simp: field_entries_def Let_def split: option.splits if_splits)
  have "extension_loop k n enc P 0 s = Returned (True, s)" for k s by (cases k) simp_all
  then have "(if PB_LTYPE (pb_type field) = PB_LTYPE_EXTENSION then encode_extension_field n enc P a
      else encode_field n enc P field a) = (Returned \<circ> Pair True :: 's pb_encoder)"
    using True null(1) by (auto simp: encode_extension_field_def encode_field_def encode_callback_field_def fun_eq_iff)
  then show ?thesis using skipped_field_writes [OF null(2)] by simp
next
  case False
  then have "PB_ATYPE (pb_type field) = PB_ATYPE_STATIC \<or> PB_ATYPE (pb_type field) = PB_ATYPE_POINTER"
    using es by (auto simp: field_entries_def Let_def split: if_splits)
  then show ?thesis using False basic_field_writes [OF es enc small] by (simp add: encode_field_def)
qed

lemma fields_loop_writes:
  assumes ok: "table_ok tbl" and enc: "deeper P enc sub"
  shows "i < length tbl \<Longrightarrow> those (map (\<lambda>i. field_entries n sub P (tbl ! i) (pData (iter_at tbl src i))) [i..<length tbl]) = Some ess \<Longrightarrow>
    length (wire (concat ess)) < 2 ^ 64 \<Longrightarrow> writes app (fields_loop n enc P (iter_at tbl src i)) (wire (concat ess))"
proof (induction "length tbl - i" arbitrary: i ess)
  case (Suc k)
  let ?field = "tbl ! i" and ?a = "pData (iter_at tbl src i)"
  have "[i..<length tbl] = i # [i + 1..<length tbl]" using Suc.prems(1) by (simp add: upt_conv_Cons)
  with Suc.prems(2) obtain es rest where es: "field_entries n sub P ?field ?a = Some es"
    "those (map (\<lambda>i. field_entries n sub P (tbl ! i) (pData (iter_at tbl src i))) [i + 1..<length tbl]) = Some rest" "ess = es # rest"
    by (auto split: option.splits)
  have wire: "wire (concat ess) = wire es @ wire (concat rest)" by (simp add: es(3) wire_def)
  let ?one = "if PB_LTYPE (pb_type ?field) = PB_LTYPE_EXTENSION then encode_extension_field n enc P ?a
    else encode_field n enc P ?field ?a"
  have one: "writes app ?one (wire es)"
    by (rule field_writes [OF es(1) enc]) (use Suc.prems(3) in \<open>simp add: wire\<close>)
  let ?more = "if i + 1 < length tbl then fields_loop n enc P (iter_at tbl src (i + 1)) else Returned \<circ> Pair True"
  have more: "writes app ?more (wire (concat rest))"
  proof (cases "i + 1 < length tbl")
    case True
    then have "k = length tbl - (i + 1)" using Suc.hyps(2) by simp
    from Suc.hyps(1) [OF this True es(2)] show ?thesis using Suc.prems(3) True by (simp add: wire)
  next
    case False
    then have "[i + 1..<length tbl] = []" by simp
    with es(2) have "rest = []" by (simp only: list.map those.simps option.inject)
    then show ?thesis using False skipped_field_writes [of "[]"] by simp
  qed
  have "fields_loop n enc P (iter_at tbl src i) = and_then ?one ?more"
  proof (rule ext)
    fix s :: "'s pb_ostream"
    show "fields_loop n enc P (iter_at tbl src i) s = and_then ?one ?more s"
      by (subst fields_loop.simps)
        (cases "i + 1 < length tbl"; simp add: iter_at_field [OF ok Suc.prems(1)] next_iter_at [OF ok Suc.prems(1)] comp_def del: iter_at.simps)
  qed
  then show ?case using writes_then [OF one more] by (simp only: wire)
qed simp

theorem encode_writes:
  assumes "contents n P tbl src = Some es" and "table_ok tbl" and "\<And>p. table_ok (pb_tables P p)" and "length (wire es) < 2 ^ 64"
  shows "writes app (pb_encode n P tbl src) (wire es)"
  using assms(1,2,4)
proof (induction n arbitrary: tbl src es)
  case (Suc n)
  have deeper: "deeper P (pb_encode n P) (contents n P)"
    using Suc.IH assms(3) by (simp add: deeper_def)
  obtain ess where ess: "es = concat ess"
    "those (map (\<lambda>i. field_entries n (contents n P) P (tbl ! i) (pData (iter_at tbl src i))) [0..<length tbl]) = Some ess"
    using Suc.prems(1) by auto
  show ?case
  proof (cases "tbl = []")
    case True
    then have "es = []" using ess by simp
    moreover have "pb_encode (Suc n) P tbl src = (Returned \<circ> Pair True :: 's pb_encoder)"
      using begin_more [OF Suc.prems(2), of src] True by (auto simp: fun_eq_iff split: prod.splits)
    ultimately show ?thesis using skipped_field_writes [of es] by (simp only:)
  next
    case False
    have begin_at: "pb_field_iter_begin tbl src = (True, iter_at tbl src 0)"
      using begin_more [OF Suc.prems(2), of src] False by (simp add: prod_eq_iff)
    have "pb_encode (Suc n) P tbl src = (fields_loop n (pb_encode n P) P (iter_at tbl src 0) :: 's pb_encoder)"
      by (rule ext) (simp only: pb_encode.simps begin_at prod.case not_True_eq_False if_False)
    then show ?thesis
      using fields_loop_writes [OF Suc.prems(2) deeper _ ess(2)] False Suc.prems(3) by (simp add: ess(1) del: iter_at.simps)
  qed
qed simp

end

section \<open>The buffer as the sink\<close>

definition to_buffer :: "u64 \<times> (u64 \<Rightarrow> u8 option) \<Rightarrow> u8 list \<Rightarrow> u64 \<times> (u64 \<Rightarrow> u8 option)" where
  "to_buffer st bs = snd (buf_write st bs)"

lemma store_append: "store m a (bs @ cs) = store (store m a bs) (a + of_nat (length bs)) cs"
proof (induction bs arbitrary: m a)
  case (Cons b bs)
  have "a + 1 + of_nat (length bs) = a + of_nat (length (b # bs))" by simp
  then show ?case using Cons [of "m(a \<mapsto> b)" "a + 1"] by (simp only: append_Cons store.simps)
qed simp

interpretation buffer: accepting_sink to_buffer
proof
  show "to_buffer st [] = st" for st by (cases st) (simp add: to_buffer_def buf_write_def)
  show "to_buffer st (bs @ cs) = to_buffer (to_buffer st bs) cs" for st bs cs
    by (cases st) (simp add: to_buffer_def buf_write_def store_append add.assoc)
qed

lemma from_buffer_ok: "stream_ok to_buffer (pb_ostream_from_buffer buf bufsize m)"
proof -
  have "buf_write = (\<lambda>st bs. (True, to_buffer st bs))" by (auto simp: to_buffer_def buf_write_def fun_eq_iff)
  then show ?thesis by (simp add: stream_ok_def pb_ostream_from_buffer_def)
qed

end
