(* ===== verification/Pb_Report.thy ===== *)
theory Pb_Report
  imports Pb_Encode_Facts
begin

text \<open>
  The message Crashlytics sends: \<open>google_crashlytics_Report\<close> with its descriptor tables
  (Crashlytics/Protogen/nanopb/crashlytics.nanopb.c) over the macros of pb.h, the structure in memory
  as the compiler lays it out on a 64-bit platform, and the message it is encoded to.
\<close>

section \<open>The descriptor tables\<close>

text \<open>The macros take the offset from the end of the previous member and the sizes the compiler knows.\<close>

definition PB_SINGULAR_STATIC :: "u32 \<Rightarrow> u32 \<Rightarrow> u32 \<Rightarrow> u8 \<Rightarrow> u64 \<Rightarrow> pb_field_t" where
  "PB_SINGULAR_STATIC t fd membersize ltype p =
     \<lparr>pb_tag = t, pb_type = PB_ATYPE_STATIC OR PB_HTYPE_OPTIONAL OR ltype, data_offset = fd, size_offset = 0,
      data_size = membersize, array_size = 0, pb_ptr = p\<rparr>"

definition PB_SINGULAR_POINTER :: "u32 \<Rightarrow> u32 \<Rightarrow> u32 \<Rightarrow> u8 \<Rightarrow> u64 \<Rightarrow> pb_field_t" where
  "PB_SINGULAR_POINTER t fd membersize ltype p =
     \<lparr>pb_tag = t, pb_type = PB_ATYPE_POINTER OR PB_HTYPE_OPTIONAL OR ltype, data_offset = fd, size_offset = 0,
      data_size = membersize, array_size = 0, pb_ptr = p\<rparr>"

definition PB_REPEATED_POINTER :: "u32 \<Rightarrow> u32 \<Rightarrow> u32 \<Rightarrow> u32 \<Rightarrow> u8 \<Rightarrow> u64 \<Rightarrow> pb_field_t" where
  "PB_REPEATED_POINTER t fd delta membersize ltype p =
     \<lparr>pb_tag = t, pb_type = PB_ATYPE_POINTER OR PB_HTYPE_REPEATED OR ltype, data_offset = fd, size_offset = delta,
      data_size = membersize, array_size = 0, pb_ptr = p\<rparr>"

text \<open>
  \<open>pb_bytes_array_t\<close> has 8 bytes, the enumeration 4, the payload 16 and a file 16. The tables of the
  submessages are at the addresses given.
\<close>

definition google_crashlytics_FilesPayload_File_fields :: "pb_field_t list" where
  "google_crashlytics_FilesPayload_File_fields =
     [PB_SINGULAR_POINTER 1 0 8 PB_LTYPE_BYTES 0, PB_SINGULAR_POINTER 2 0 8 PB_LTYPE_BYTES 0]"

definition google_crashlytics_FilesPayload_fields :: "u64 \<Rightarrow> pb_field_t list" where
  "google_crashlytics_FilesPayload_fields file_table =
     [PB_REPEATED_POINTER 1 8 (- 8) 16 PB_LTYPE_SUBMESSAGE file_table]"

definition google_crashlytics_Report_fields :: "u64 \<Rightarrow> pb_field_t list" where
  "google_crashlytics_Report_fields payload_table =
     [PB_SINGULAR_POINTER 1 0 8 PB_LTYPE_BYTES 0,
      PB_SINGULAR_POINTER 3 0 8 PB_LTYPE_BYTES 0,
      PB_SINGULAR_STATIC 4 0 4 PB_LTYPE_UVARINT 0,
      PB_SINGULAR_POINTER 5 4 8 PB_LTYPE_BYTES 0,
      PB_SINGULAR_POINTER 6 0 8 PB_LTYPE_BYTES 0,
      PB_SINGULAR_POINTER 7 0 8 PB_LTYPE_BYTES 0,
      PB_SINGULAR_STATIC 10 0 16 PB_LTYPE_SUBMESSAGE payload_table,
      PB_SINGULAR_POINTER 16 0 8 PB_LTYPE_BYTES 0,
      PB_SINGULAR_POINTER 17 0 8 PB_LTYPE_BYTES 0,
      PB_SINGULAR_POINTER 19 0 8 PB_LTYPE_BYTES 0]"

section \<open>The report and its memory\<close>

text \<open>\<open>None\<close> is a \<open>NULL\<close> pointer.\<close>

record report_file =
  filename :: "u8 list option"
  file_contents :: "u8 list option"

record crashlytics_report =
  sdk_version :: "u8 list option"
  gmp_app_id :: "u8 list option"
  platform :: u32
  installation_uuid :: "u8 list option"
  build_version :: "u8 list option"
  display_version :: "u8 list option"
  apple_payload :: "report_file list"
  firebase_installation_id :: "u8 list option"
  app_quality_session_id :: "u8 list option"
  firebase_authentication_token :: "u8 list option"

definition opt_bytes_at :: "cls_env \<Rightarrow> u64 \<Rightarrow> u8 list option \<Rightarrow> bool" where
  "opt_bytes_at env a b \<longleftrightarrow> (case b of
     None \<Rightarrow> read_word env a 8 = Some (0 :: u64)
   | Some bs \<Rightarrow> \<exists>p :: u64. read_word env a 8 = Some p \<and> p \<noteq> 0 \<and> length bs < 2 ^ 32 \<and>
       read_word env p 4 = Some (of_nat (length bs) :: u32) \<and> load env (p + 4) (length bs) = Some bs)"

definition file_at :: "cls_env \<Rightarrow> u64 \<Rightarrow> report_file \<Rightarrow> bool" where
  "file_at env a f \<longleftrightarrow> opt_bytes_at env a (filename f) \<and> opt_bytes_at env (a + 8) (file_contents f)"

primrec files_at :: "cls_env \<Rightarrow> u64 \<Rightarrow> report_file list \<Rightarrow> bool" where
  "files_at env a [] \<longleftrightarrow> True"
| "files_at env a (f # fs) \<longleftrightarrow> file_at env a f \<and> files_at env (a + 16) fs"

text \<open>No file lies at address 0, which the iterator would take for a missing structure.\<close>

definition files_clear :: "u64 \<Rightarrow> nat \<Rightarrow> bool" where
  "files_clear q n \<longleftrightarrow> (\<forall>i < n. q + 16 * of_nat i \<noteq> 0)"

definition report_at :: "cls_env \<Rightarrow> u64 \<Rightarrow> crashlytics_report \<Rightarrow> bool" where
  "report_at env a r \<longleftrightarrow> a \<noteq> 0 \<and> a + 48 \<noteq> 0 \<and>
     opt_bytes_at env a (sdk_version r) \<and> opt_bytes_at env (a + 8) (gmp_app_id r) \<and>
     read_word env (a + 16) 4 = Some (platform r) \<and> opt_bytes_at env (a + 24) (installation_uuid r) \<and>
     opt_bytes_at env (a + 32) (build_version r) \<and> opt_bytes_at env (a + 40) (display_version r) \<and>
     length (apple_payload r) < 2 ^ 32 \<and> read_word env (a + 48) 4 = Some (of_nat (length (apple_payload r)) :: u32) \<and>
     (\<exists>q. read_word env (a + 56) 8 = Some q \<and> files_at env q (apple_payload r) \<and> files_clear q (length (apple_payload r))) \<and>
     opt_bytes_at env (a + 64) (firebase_installation_id r) \<and> opt_bytes_at env (a + 72) (app_quality_session_id r) \<and>
     opt_bytes_at env (a + 80) (firebase_authentication_token r)"

section \<open>The message\<close>

definition opt_bytes :: "u32 \<Rightarrow> u8 list option \<Rightarrow> (u32 \<times> wire_value) list" where
  "opt_bytes t b = (case b of None \<Rightarrow> [] | Some bs \<Rightarrow> [(t, Bytes bs)])"

definition file_entries :: "report_file \<Rightarrow> (u32 \<times> wire_value) list" where
  "file_entries f = opt_bytes 1 (filename f) @ opt_bytes 2 (file_contents f)"

definition report_entries :: "crashlytics_report \<Rightarrow> (u32 \<times> wire_value) list" where
  "report_entries r =
     opt_bytes 1 (sdk_version r) @ opt_bytes 3 (gmp_app_id r) @
     (if platform r = 0 then [] else [(4, Varint (ucast (platform r)))]) @
     opt_bytes 5 (installation_uuid r) @ opt_bytes 6 (build_version r) @ opt_bytes 7 (display_version r) @
     (if apple_payload r = [] then []
      else [(10, Message (map (\<lambda>f. (1, Message (file_entries f))) (apple_payload r)))]) @
     opt_bytes 16 (firebase_installation_id r) @ opt_bytes 17 (app_quality_session_id r) @
     opt_bytes 19 (firebase_authentication_token r)"

section \<open>What the structure stands for\<close>

lemma bytes_pointer_field [simp]:
  fixes t fd p
  defines "f \<equiv> PB_SINGULAR_POINTER t fd 8 PB_LTYPE_BYTES p"
  shows "PB_ATYPE (pb_type f) = PB_ATYPE_POINTER" "PB_HTYPE (pb_type f) = PB_HTYPE_OPTIONAL"
    "PB_LTYPE (pb_type f) = PB_LTYPE_BYTES" "pb_tag f = t" "size_offset f = 0" "data_size f = 8" "data_offset f = fd" "pb_ptr f = p"
  by (simp_all add: f_def PB_SINGULAR_POINTER_def PB_ATYPE_def PB_HTYPE_def PB_LTYPE_def)

lemma enum_field [simp]:
  fixes t fd p
  defines "f \<equiv> PB_SINGULAR_STATIC t fd 4 PB_LTYPE_UVARINT p"
  shows "PB_ATYPE (pb_type f) = PB_ATYPE_STATIC" "PB_HTYPE (pb_type f) = PB_HTYPE_OPTIONAL"
    "PB_LTYPE (pb_type f) = PB_LTYPE_UVARINT" "pb_tag f = t" "size_offset f = 0" "data_size f = 4" "data_offset f = fd" "pb_ptr f = p"
  by (simp_all add: f_def PB_SINGULAR_STATIC_def PB_ATYPE_def PB_HTYPE_def PB_LTYPE_def)

lemma payload_field [simp]:
  fixes t fd p
  defines "f \<equiv> PB_SINGULAR_STATIC t fd 16 PB_LTYPE_SUBMESSAGE p"
  shows "PB_ATYPE (pb_type f) = PB_ATYPE_STATIC" "PB_HTYPE (pb_type f) = PB_HTYPE_OPTIONAL"
    "PB_LTYPE (pb_type f) = PB_LTYPE_SUBMESSAGE" "pb_tag f = t" "size_offset f = 0" "data_size f = 16" "data_offset f = fd" "pb_ptr f = p"
  by (simp_all add: f_def PB_SINGULAR_STATIC_def PB_ATYPE_def PB_HTYPE_def PB_LTYPE_def)

lemma files_field [simp]:
  fixes t fd d p
  defines "f \<equiv> PB_REPEATED_POINTER t fd d 16 PB_LTYPE_SUBMESSAGE p"
  shows "PB_ATYPE (pb_type f) = PB_ATYPE_POINTER" "PB_HTYPE (pb_type f) = PB_HTYPE_REPEATED"
    "PB_LTYPE (pb_type f) = PB_LTYPE_SUBMESSAGE" "pb_tag f = t" "size_offset f = d" "data_size f = 16" "data_offset f = fd" "pb_ptr f = p"
  by (simp_all add: f_def PB_REPEATED_POINTER_def PB_ATYPE_def PB_HTYPE_def PB_LTYPE_def)

lemma opt_bytes_at_pointer:
  assumes "opt_bytes_at env a b"
  obtains q :: u64 where "read_word env a 8 = Some q" "q = 0 \<longleftrightarrow> b = None"
    "\<And>bs. b = Some bs \<Longrightarrow> length bs < 2 ^ 32 \<and> read_word env q 4 = Some (of_nat (length bs) :: u32) \<and> load env (q + 4) (length bs) = Some bs"
  using assms by (cases b) (auto simp: opt_bytes_at_def)

lemma bytes_field:
  assumes "opt_bytes_at (pb_mem P) a b"
  shows "field_entries (Suc n) sub P (PB_SINGULAR_POINTER t fd 8 PB_LTYPE_BYTES 0) a = Some (opt_bytes t b)"
proof -
  obtain q :: u64 where q: "read_word (pb_mem P) a 8 = Some q" "q = 0 \<longleftrightarrow> b = None"
    "\<And>bs. b = Some bs \<Longrightarrow> length bs < 2 ^ 32 \<and> read_word (pb_mem P) q 4 = Some (of_nat (length bs) :: u32) \<and>
       load (pb_mem P) (q + 4) (length bs) = Some bs"
    using opt_bytes_at_pointer [OF assms] by blast
  have check: "pb_check_proto3_default_value (Suc n) P (PB_SINGULAR_POINTER t fd 8 PB_LTYPE_BYTES 0) a = Returned (q = 0)"
    by (simp add: Let_def q(1) word_less_nat_alt)
  show ?thesis
  proof (cases b)
    case None
    then show ?thesis using q(1,2) check by (simp add: field_entries_def Let_def opt_bytes_def del: pb_check_proto3_default_value.simps)
  next
    case (Some bs)
    note facts = q(3) [OF Some]
    then have n: "unat (of_nat (length bs) :: u32) = length bs" by (simp add: unat_of_nat)
    show ?thesis using q(1,2) Some check facts n
      by (simp add: field_entries_def Let_def opt_bytes_def value_at_def del: pb_check_proto3_default_value.simps)
  qed
qed

lemma zero_bytes_load: "load env a n = Some bs \<Longrightarrow> zero_bytes_loop env n a = Returned (list_all (\<lambda>b. b = 0) bs)"
  by (induction n arbitrary: a bs) (auto simp: bind_eq_Some_conv)

lemma le_nat_zero: "le_nat bs = 0 \<longleftrightarrow> list_all (\<lambda>b. b = 0) bs"
  by (induction bs) (auto simp: unat_eq_0)

lemma enum_entries:
  assumes "read_word (pb_mem P) a 4 = Some (w :: u32)"
  shows "field_entries (Suc n) sub P (PB_SINGULAR_STATIC t fd 4 PB_LTYPE_UVARINT 0) a =
    Some (if w = 0 then [] else [(t, Varint (ucast w))])"
proof -
  obtain bs where bs: "load (pb_mem P) a 4 = Some bs" "w = le_word bs" using assms by (auto simp: read_word_def)
  have "le_nat bs < 2 ^ 32" using le_nat_bound [of bs] load_length [OF bs(1)] by simp
  then have "w = 0 \<longleftrightarrow> list_all (\<lambda>b. b = 0) bs"
    using le_nat_zero [of bs] by (simp add: bs(2) le_word_def word_of_nat_eq_0_iff) (metis dvd_imp_le gr0I linorder_not_le dvd_0_right)
  then have "pb_check_proto3_default_value (Suc n) P (PB_SINGULAR_STATIC t fd 4 PB_LTYPE_UVARINT 0) a = Returned (w = 0)"
    using zero_bytes_load [OF bs(1)] by (simp add: Let_def)
  then show ?thesis using assms
    by (simp add: field_entries_def Let_def value_at_def read_unsigned_def del: pb_check_proto3_default_value.simps)
qed

lemma File_fields_ok: "table_ok google_crashlytics_FilesPayload_File_fields"
  by (simp add: table_ok_def google_crashlytics_FilesPayload_File_fields_def)

lemma file_contents_at:
  assumes "file_at (pb_mem P) a f" and "a \<noteq> 0"
  shows "contents (Suc (Suc n)) P google_crashlytics_FilesPayload_File_fields a = Some (file_entries f)"
proof -
  let ?T = google_crashlytics_FilesPayload_File_fields
  have at0: "pData (iter_at ?T a 0) = a"
    using first_pData [of ?T a] assms(2) by (simp add: google_crashlytics_FilesPayload_File_fields_def)
  have at1: "pData (iter_at ?T a 1) = a + 8"
    using next_pData [OF File_fields_ok, of 1 0 a] at0 by (simp add: google_crashlytics_FilesPayload_File_fields_def member_size_def)
  have e: "field_entries (Suc n) sub P (?T ! 0) a = Some (opt_bytes 1 (filename f))"
    "field_entries (Suc n) sub P (?T ! 1) (a + 8) = Some (opt_bytes 2 (file_contents f))" for sub
    using assms(1) bytes_field by (auto simp: file_at_def google_crashlytics_FilesPayload_File_fields_def)
  have "[0..<length ?T] = [0, 1]" by (simp add: google_crashlytics_FilesPayload_File_fields_def upt_rec)
  then show ?thesis by (simp only: contents.simps list.map at0 at1 e) (simp add: file_entries_def)
qed

text \<open>The array of files, and the payload that holds it.\<close>

lemma files_values:
  assumes "pb_tables P ft = google_crashlytics_FilesPayload_File_fields" and "ft \<noteq> 0"
  shows "files_at (pb_mem P) q fs \<Longrightarrow> files_clear q (length fs) \<Longrightarrow>
    values_at (value_at (contents (Suc (Suc n)) P) P (PB_REPEATED_POINTER 1 8 (- 8) 16 PB_LTYPE_SUBMESSAGE ft))
      (PB_REPEATED_POINTER 1 8 (- 8) 16 PB_LTYPE_SUBMESSAGE ft) (length fs) q =
      Some (map (\<lambda>f. Message (file_entries f)) fs)"
proof (induction fs arbitrary: q)
  case (Cons f fs)
  note clear = Cons.prems(2) [unfolded files_clear_def, rule_format]
  have "q \<noteq> 0" using clear [of 0] by simp
  have "file_at (pb_mem P) q f" using Cons.prems(1) by simp
  note file_contents_at [OF this \<open>q \<noteq> 0\<close>, of n]
  then have "value_at (contents (Suc (Suc n)) P) P (PB_REPEATED_POINTER 1 8 (- 8) 16 PB_LTYPE_SUBMESSAGE ft) q =
      Some (Message (file_entries f))"
    using assms by (simp add: value_at_def Let_def del: contents.simps)
  moreover have "files_clear (q + 16) (length fs)"
    unfolding files_clear_def
  proof (intro allI impI)
    fix i assume "i < length fs"
    then have "q + 16 * of_nat (Suc i) \<noteq> 0" using clear [of "Suc i"] by simp
    moreover have "q + 16 + 16 * of_nat i = q + 16 * of_nat (Suc i)" by (simp add: distrib_left)
    ultimately show "q + 16 + 16 * of_nat i \<noteq> 0" by (simp only: not_False_eq_True)
  qed
  ultimately show ?case using Cons.IH [of "q + 16"] Cons.prems(1) by (simp del: contents.simps)
qed simp

lemma payload_at:
  assumes tables: "pb_tables P pt = google_crashlytics_FilesPayload_fields ft"
      "pb_tables P ft = google_crashlytics_FilesPayload_File_fields" "pt \<noteq> 0" "ft \<noteq> 0"
    and count: "read_word (pb_mem P) a 4 = Some (of_nat (length fs) :: u32)" "length fs < 2 ^ 32" and "a \<noteq> 0"
    and files: "read_word (pb_mem P) (a + 8) 8 = Some q" "files_at (pb_mem P) q fs" "files_clear q (length fs)"
  shows "field_entries (Suc (Suc m)) (contents (Suc (Suc (Suc n))) P) P (PB_SINGULAR_STATIC t fd 16 PB_LTYPE_SUBMESSAGE pt) a =
    Some (if fs = [] then [] else [(t, Message (map (\<lambda>f. (1, Message (file_entries f))) fs))])"
proof -
  let ?T = "google_crashlytics_FilesPayload_fields ft" and ?f = "PB_REPEATED_POINTER 1 8 (- 8) 16 PB_LTYPE_SUBMESSAGE ft"
  have T: "table_ok ?T" "?T ! 0 = ?f" "length ?T = 1" "?T \<noteq> []"
    by (simp_all add: table_ok_def google_crashlytics_FilesPayload_fields_def)
  have at0: "pData (iter_at ?T a 0) = a + 8" using first_pData [of ?T a] assms(7) T(2,4) by simp
  have off: "scast (- 8 :: u32) = (- 8 :: u64)" by code_simp
  have zero: "(of_nat (length fs) :: u32) = 0 \<longleftrightarrow> fs = []" using count(2) by (auto simp: word_of_nat_eq_0_iff dest: dvd_imp_le)
  have n: "unat (of_nat (length fs) :: u32) = length fs" using count(2) by (simp add: unat_of_nat)
  have "pb_field_iter_begin ?T a = (True, iter_at ?T a 0)" using begin_more [OF T(1), of a] T(4) by (simp add: prod_eq_iff)
  moreover have "it_field (iter_at ?T a 0) = ?f" using iter_at_field [OF T(1), of 0 a] T by simp
  moreover have "pb_field_iter_next (iter_at ?T a 0) = (False, iter_at ?T a 0)" using next_iter_at [OF T(1), of 0 a] T(3) by simp
  ultimately have check: "pb_check_proto3_default_value (Suc (Suc m)) P (PB_SINGULAR_STATIC t fd 16 PB_LTYPE_SUBMESSAGE pt) a =
      Returned (fs = [])"
    using count(1) zero tables(1)
    by (simp add: Let_def all_default_loop.simps at0 off del: iter_at.simps)
  show ?thesis
  proof (cases "fs = []")
    case True
    then show ?thesis using check by (simp add: field_entries_def Let_def del: pb_check_proto3_default_value.simps contents.simps)
  next
    case False
    have e: "field_entries (Suc (Suc n)) (contents (Suc (Suc n)) P) P ?f (a + 8) = Some (map (\<lambda>f. (1, Message (file_entries f))) fs)"
      using files_values [OF tables(2,4) files(2,3), of n] files(1) count(1) zero False n
      by (simp add: field_entries_def Let_def off array_entries_def del: contents.simps)
    have "[0..<length ?T] = [0]" by (simp add: T(3))
    then have "contents (Suc (Suc (Suc n))) P ?T a = Some (map (\<lambda>f. (1, Message (file_entries f))) fs)"
      by (simp only: contents.simps(2) [of "Suc (Suc n)"] list.map at0 T(2) e) simp
    then show ?thesis using check False tables(1,3)
      by (simp add: field_entries_def Let_def value_at_def del: pb_check_proto3_default_value.simps contents.simps)
  qed
qed

definition report_tables :: "'s pb_program \<Rightarrow> u64 \<Rightarrow> bool" where
  "report_tables P pt \<longleftrightarrow> pt \<noteq> 0 \<and> (\<exists>ft. ft \<noteq> 0 \<and> pb_tables P pt = google_crashlytics_FilesPayload_fields ft \<and>
     pb_tables P ft = google_crashlytics_FilesPayload_File_fields)"

lemma Report_fields_ok: "table_ok (google_crashlytics_Report_fields pt)"
  by (simp add: table_ok_def google_crashlytics_Report_fields_def)

lemma report_contents:
  assumes tables: "report_tables P pt" and r: "report_at (pb_mem P) a r"
  shows "contents (Suc (Suc (Suc (Suc n)))) P (google_crashlytics_Report_fields pt) a = Some (report_entries r)"
proof -
  let ?T = "google_crashlytics_Report_fields pt"
  note T = google_crashlytics_Report_fields_def
  have len: "length ?T = 10" "?T \<noteq> []" by (simp_all add: T)
  have nth: "?T ! 0 = PB_SINGULAR_POINTER 1 0 8 PB_LTYPE_BYTES 0" "?T ! 1 = PB_SINGULAR_POINTER 3 0 8 PB_LTYPE_BYTES 0"
    "?T ! 2 = PB_SINGULAR_STATIC 4 0 4 PB_LTYPE_UVARINT 0" "?T ! 3 = PB_SINGULAR_POINTER 5 4 8 PB_LTYPE_BYTES 0"
    "?T ! 4 = PB_SINGULAR_POINTER 6 0 8 PB_LTYPE_BYTES 0" "?T ! 5 = PB_SINGULAR_POINTER 7 0 8 PB_LTYPE_BYTES 0"
    "?T ! 6 = PB_SINGULAR_STATIC 10 0 16 PB_LTYPE_SUBMESSAGE pt" "?T ! 7 = PB_SINGULAR_POINTER 16 0 8 PB_LTYPE_BYTES 0"
    "?T ! 8 = PB_SINGULAR_POINTER 17 0 8 PB_LTYPE_BYTES 0" "?T ! 9 = PB_SINGULAR_POINTER 19 0 8 PB_LTYPE_BYTES 0"
    by (simp_all add: T)
  have "a \<noteq> 0" using r by (simp add: report_at_def)
  have upt10: "[0..<10 :: nat] = [0, 1, 2, 3, 4, 5, 6, 7, 8, 9]" by code_simp
  have "map (\<lambda>i. pData (iter_at ?T a i)) [0..<length ?T] = [a, a + 8, a + 16, a + 24, a + 32, a + 40, a + 48, a + 64, a + 72, a + 80]"
    unfolding T
    by (subst iter_at_addresses) (use \<open>a \<noteq> 0\<close> in \<open>simp_all add: table_ok_def member_size_def Let_def\<close>)
  then have at: "pData (iter_at ?T a 0) = a" "pData (iter_at ?T a 1) = a + 8" "pData (iter_at ?T a 2) = a + 16"
    "pData (iter_at ?T a 3) = a + 24" "pData (iter_at ?T a 4) = a + 32" "pData (iter_at ?T a 5) = a + 40"
    "pData (iter_at ?T a 6) = a + 48" "pData (iter_at ?T a 7) = a + 64" "pData (iter_at ?T a 8) = a + 72"
    "pData (iter_at ?T a 9) = a + 80"
    unfolding len upt10 by (simp_all only: list.map list.inject)
  obtain ft where ft: "pt \<noteq> 0" "ft \<noteq> 0" "pb_tables P pt = google_crashlytics_FilesPayload_fields ft"
    "pb_tables P ft = google_crashlytics_FilesPayload_File_fields" using tables unfolding report_tables_def by blast
  obtain q where q: "read_word (pb_mem P) (a + 56) 8 = Some q" "files_at (pb_mem P) q (apple_payload r)"
    "files_clear q (length (apple_payload r))" using r unfolding report_at_def by blast
  have r': "opt_bytes_at (pb_mem P) a (sdk_version r)" "opt_bytes_at (pb_mem P) (a + 8) (gmp_app_id r)"
    "read_word (pb_mem P) (a + 16) 4 = Some (platform r)" "opt_bytes_at (pb_mem P) (a + 24) (installation_uuid r)"
    "opt_bytes_at (pb_mem P) (a + 32) (build_version r)" "opt_bytes_at (pb_mem P) (a + 40) (display_version r)"
    "read_word (pb_mem P) (a + 48) 4 = Some (of_nat (length (apple_payload r)) :: u32)" "length (apple_payload r) < 2 ^ 32"
    "opt_bytes_at (pb_mem P) (a + 64) (firebase_installation_id r)"
    "opt_bytes_at (pb_mem P) (a + 72) (app_quality_session_id r)"
    "opt_bytes_at (pb_mem P) (a + 80) (firebase_authentication_token r)"
    using r by (simp_all add: report_at_def)
  let ?E = "\<lambda>i b. field_entries (Suc (Suc (Suc n))) (contents (Suc (Suc (Suc n))) P) P (?T ! i) b"
  have e: "?E 0 a = Some (opt_bytes 1 (sdk_version r))" "?E 1 (a + 8) = Some (opt_bytes 3 (gmp_app_id r))"
    "?E 2 (a + 16) = Some (if platform r = 0 then [] else [(4, Varint (ucast (platform r)))])"
    "?E 3 (a + 24) = Some (opt_bytes 5 (installation_uuid r))" "?E 4 (a + 32) = Some (opt_bytes 6 (build_version r))"
    "?E 5 (a + 40) = Some (opt_bytes 7 (display_version r))"
    "?E 7 (a + 64) = Some (opt_bytes 16 (firebase_installation_id r))"
    "?E 8 (a + 72) = Some (opt_bytes 17 (app_quality_session_id r))"
    "?E 9 (a + 80) = Some (opt_bytes 19 (firebase_authentication_token r))"
    by (simp_all only: nth bytes_field [OF r'(1)] bytes_field [OF r'(2)] enum_entries [OF r'(3)] bytes_field [OF r'(4)]
      bytes_field [OF r'(5)] bytes_field [OF r'(6)] bytes_field [OF r'(9)] bytes_field [OF r'(10)] bytes_field [OF r'(11)])
  have word: "a + 48 \<noteq> 0" using r by (simp add: report_at_def)
  have "?E 6 (a + 48) = Some (if apple_payload r = [] then []
      else [(10, Message (map (\<lambda>f. (1, Message (file_entries f))) (apple_payload r)))])"
  proof -
    have "read_word (pb_mem P) (a + 48 + 8) 8 = Some q" using q(1) by (simp add: add.assoc)
    from payload_at [OF ft(3,4,1,2) r'(7,8) word this q(2,3)] show ?thesis by (simp only: nth)
  qed
  note e = e this
  have upt: "[0..<length ?T] = [0, 1, 2, 3, 4, 5, 6, 7, 8, 9]" unfolding len by (rule upt10)
  show ?thesis
    by (simp only: contents.simps(2) [of "Suc (Suc (Suc n))"] upt list.map at e)
      (simp add: report_entries_def)
qed

end
