(* ===== verification/Pb_Properties.thy ===== *)
theory Pb_Properties
  imports Pb_Report
begin

text \<open>
  The properties of nanopb: what the encoder writes, and the message of a crash report.
\<close>

section \<open>Encoding\<close>

text \<open>
  C6. \<open>pb_encode\<close> writes the protocol buffers wire format. For every structure in memory that stands
  for a message of less than 2^64 bytes, whatever its descriptor tables: the size computed in advance
  is the length of the wire format; encoding into a buffer with that much room returns true and
  puts exactly the wire format there, and so does the delimited form after the length; into a
  smaller buffer it returns false, and has written only inside the buffer.
\<close>

theorem message_encoding:
  assumes "contents n P tbl src = Some es" and "table_ok tbl" and "\<forall>p. table_ok (pb_tables P p)"
    and "length (delimited (wire es)) < 2 ^ 64"
  shows "pb_get_encoded_size n P tbl src = Returned (True, of_nat (length (wire es))) \<and>
    (length (wire es) \<le> unat bufsize \<longrightarrow> (\<exists>s. pb_encode n P tbl src (pb_ostream_from_buffer buf bufsize m) = Returned (True, s) \<and>
       out_state s = (buf + of_nat (length (wire es)), store m buf (wire es)) \<and> bytes_written s = of_nat (length (wire es)))) \<and>
    (length (delimited (wire es)) \<le> unat bufsize \<longrightarrow>
       (\<exists>s. pb_encode_delimited n P tbl src (pb_ostream_from_buffer buf bufsize m) = Returned (True, s) \<and>
         snd (out_state s) = store m buf (delimited (wire es)))) \<and>
    (unat bufsize < length (wire es) \<longrightarrow> (\<exists>s cs. pb_encode n P tbl src (pb_ostream_from_buffer buf bufsize m) = Returned (False, s) \<and>
       snd (out_state s) = store m buf cs \<and> length cs \<le> unat bufsize))"
proof -
  have len: "length (wire es) < 2 ^ 64" using assms(4) by (simp add: delimited_def)
  have enc: "writes to_buffer (pb_encode n P tbl src) (wire es)"
    using buffer.encode_writes [OF assms(1,2) _ len] assms(3) by blast
  have sub: "writes to_buffer (pb_encode_delimited n P tbl src) (delimited (wire es))"
    unfolding pb_encode_delimited_def by (rule buffer.writes_submessage [where enc = "pb_encode n P", OF enc len])
  have start: "bytes_written (pb_ostream_from_buffer buf bufsize m) = 0" "max_size (pb_ostream_from_buffer buf bufsize m) = bufsize"
    "callback (pb_ostream_from_buffer buf bufsize m) = Some buf_write" "out_state (pb_ostream_from_buffer buf bufsize m) = (buf, m)"
    by (simp_all add: pb_ostream_from_buffer_def)
  have room: "has_room (pb_ostream_from_buffer buf bufsize m) bs \<longleftrightarrow> length bs \<le> unat bufsize" for bs
    using start(3) by (simp add: has_room_def start(1,2))
  have adv: "out_state (advanced to_buffer (pb_ostream_from_buffer buf bufsize m) bs) = (buf + of_nat (length bs), store m buf bs)"
    "bytes_written (advanced to_buffer (pb_ostream_from_buffer buf bufsize m) bs) = of_nat (length bs)" for bs
    using start(3) by (simp_all add: advanced_def start(1,4) to_buffer_def buf_write_def)
  have "pb_get_encoded_size n P tbl src = Returned (True, of_nat (length (wire es)))"
    using buffer.sizing_pass [OF enc len] by (simp add: pb_get_encoded_size_def)
  moreover have "\<exists>s. pb_encode n P tbl src (pb_ostream_from_buffer buf bufsize m) = Returned (True, s) \<and>
       out_state s = (buf + of_nat (length (wire es)), store m buf (wire es)) \<and> bytes_written s = of_nat (length (wire es))"
    if "length (wire es) \<le> unat bufsize"
    using writes_room [OF enc from_buffer_ok, of buf bufsize m] that len adv by (simp add: room start(1))
  moreover have "\<exists>s. pb_encode_delimited n P tbl src (pb_ostream_from_buffer buf bufsize m) = Returned (True, s) \<and>
       snd (out_state s) = store m buf (delimited (wire es))" if "length (delimited (wire es)) \<le> unat bufsize"
    using writes_room [OF sub from_buffer_ok, of buf bufsize m] that assms(4) adv by (simp add: room start(1))
  moreover have "\<exists>s cs. pb_encode n P tbl src (pb_ostream_from_buffer buf bufsize m) = Returned (False, s) \<and>
       snd (out_state s) = store m buf cs \<and> length cs \<le> unat bufsize" if "unat bufsize < length (wire es)"
  proof -
    have "\<not> has_room (pb_ostream_from_buffer buf bufsize m) (wire es)" using that by (simp add: room)
    from writes_full [OF enc from_buffer_ok _ this] len obtain s where
      s: "pb_encode n P tbl src (pb_ostream_from_buffer buf bufsize m) = Returned (False, s)"
      "kept_within to_buffer (pb_ostream_from_buffer buf bufsize m) (out_state s)" by (auto simp: start(1))
    then show ?thesis by (auto simp: kept_within_def start to_buffer_def buf_write_def)
  qed
  ultimately show ?thesis by blast
qed

text \<open>
  C7. The report Crashlytics sends: for every report in memory, laid out as the structure
  \<open>google_crashlytics_Report\<close>, encoding with its descriptor tables into a buffer with room writes the
  wire format of exactly this message: each string that is not \<open>NULL\<close> under its tag, the platform
  unless it is unknown, and the files of the payload, in the order of the tags, nested two deep. A
  depth of four is enough.
\<close>

theorem crashlytics_report_encoding:
  assumes "report_tables P pt" and "report_at (pb_mem P) a r" and "\<forall>p. table_ok (pb_tables P p)"
    and "length (wire (report_entries r)) \<le> unat bufsize"
  shows "\<exists>s. pb_encode (4 + n) P (google_crashlytics_Report_fields pt) a (pb_ostream_from_buffer buf bufsize m) = Returned (True, s) \<and>
    out_state s = (buf + of_nat (length (wire (report_entries r))), store m buf (wire (report_entries r))) \<and>
    bytes_written s = of_nat (length (wire (report_entries r)))"
proof -
  let ?bs = "wire (report_entries r)" and ?s = "pb_ostream_from_buffer buf bufsize m"
  have four: "4 + n = Suc (Suc (Suc (Suc n)))" by simp
  have len: "length ?bs < 2 ^ 64" using assms(4) unsigned_less [of bufsize, where 'a = nat] by simp
  have "writes to_buffer (pb_encode (4 + n) P (google_crashlytics_Report_fields pt) a) ?bs"
    using buffer.encode_writes [OF report_contents [OF assms(1,2), of n] Report_fields_ok _ len] assms(3) unfolding four by blast
  from writes_room [OF this from_buffer_ok, of buf bufsize m] show ?thesis
    using len assms(4) by (simp add: has_room_def advanced_def to_buffer_def buf_write_def pb_ostream_from_buffer_def)
qed

lemma read_word_mapped:
  "v < 256 ^ n \<Longrightarrow> n < 2 ^ 64 \<Longrightarrow> read_word (env_of ((a, le_bytes n v) # rs)) a n = Some (of_nat v)"
  using load_mapped_here [of n "le_bytes n v" a rs] by (simp add: read_word_def le_word_le_bytes)

lemma read_word_mapped_skip:
  "length bs \<le> unat (a - b) \<Longrightarrow> unat (a - b) + n \<le> 2 ^ 64 \<Longrightarrow> read_word (env_of ((b, bs) # rs)) a n = read_word (env_of rs) a n"
  by (simp add: read_word_def load_mapped_skip)

text \<open>A report of version "9" for platform 1 with one file; its memory and the 16 bytes it is encoded to.\<close>

definition demo_report :: crashlytics_report where
  "demo_report = \<lparr>sdk_version = Some [0x39], gmp_app_id = None, platform = 1, installation_uuid = None, build_version = None,
     display_version = None, apple_payload = [\<lparr>filename = Some [0x61], file_contents = Some [1, 2]\<rparr>],
     firebase_installation_id = None, app_quality_session_id = None, firebase_authentication_token = None\<rparr>"

definition demo_report_memory :: cls_env where
  "demo_report_memory = env_of
     [(0x1000, le_bytes 8 0x2000), (0x1008, le_bytes 8 0), (0x1010, le_bytes 4 1), (0x1018, le_bytes 8 0),
      (0x1020, le_bytes 8 0), (0x1028, le_bytes 8 0), (0x1030, le_bytes 4 1), (0x1038, le_bytes 8 0x3000),
      (0x1040, le_bytes 8 0), (0x1048, le_bytes 8 0), (0x1050, le_bytes 8 0),
      (0x2000, le_bytes 4 1), (0x2004, [0x39]), (0x3000, le_bytes 8 0x4000), (0x3008, le_bytes 8 0x5000),
      (0x4000, le_bytes 4 1), (0x4004, [0x61]), (0x5000, le_bytes 4 2), (0x5004, [1, 2])]"

lemma demo_report_at: "report_at demo_report_memory 0x1000 demo_report"
proof -
  show ?thesis
    unfolding report_at_def demo_report_def demo_report_memory_def
    by (simp add: opt_bytes_at_def file_at_def files_clear_def numeral_2_eq_2 [symmetric] read_word_mapped read_word_mapped_skip
      load_mapped_here load_mapped_skip Suc_le_eq del: le_bytes.simps load.simps)
qed

definition demo_program :: "(u64 \<times> (u64 \<Rightarrow> u8 option)) pb_program" where
  "demo_program = \<lparr>pb_mem = demo_report_memory,
     pb_tables = (\<lambda>p. if p = 0x100 then google_crashlytics_FilesPayload_fields 0x200
                      else if p = 0x200 then google_crashlytics_FilesPayload_File_fields else []),
     field_encoder = (\<lambda>_ _ _ _. Faulted), extension_encoder = (\<lambda>_ _ _. Faulted), null_state = (0, \<lambda>_. None)\<rparr>"

lemma demo_tables: "report_tables demo_program 0x100" "\<forall>p. table_ok (pb_tables demo_program p)" "pb_mem demo_program = demo_report_memory"
  by (auto simp: report_tables_def demo_program_def table_ok_def google_crashlytics_FilesPayload_fields_def
    google_crashlytics_FilesPayload_File_fields_def PB_REPEATED_POINTER_def PB_SINGULAR_POINTER_def)

lemma demo_report_wire: "wire (report_entries demo_report) =
    [0x0A, 1, 0x39, 0x20, 1, 0x52, 9, 0x0A, 7, 0x0A, 1, 0x61, 0x12, 2, 1, 2]"
  by code_simp

lemma crashlytics_report_encoding_witness:
  "\<exists>s. pb_encode 4 demo_program (google_crashlytics_Report_fields 0x100) 0x1000 (pb_ostream_from_buffer 0x8000 16 (\<lambda>_. None)) =
      Returned (True, s) \<and>
    out_state s = (0x8010, store (\<lambda>_. None) 0x8000 [0x0A, 1, 0x39, 0x20, 1, 0x52, 9, 0x0A, 7, 0x0A, 1, 0x61, 0x12, 2, 1, 2]) \<and>
    bytes_written s = 16"
  using crashlytics_report_encoding [of demo_program "0x100" "0x1000" demo_report 16 0 "0x8000" "\<lambda>_. None"]
  by (simp add: demo_tables demo_report_at demo_report_wire del: pb_encode.simps)

lemma message_encoding_witness:
  "pb_get_encoded_size 4 demo_program (google_crashlytics_Report_fields 0x100) 0x1000 = Returned (True, 16)"
proof -
  have four: "4 = Suc (Suc (Suc (Suc 0)))" by simp
  have "contents 4 demo_program (google_crashlytics_Report_fields 0x100) 0x1000 = Some (report_entries demo_report)"
    using report_contents [OF demo_tables(1), of "0x1000" demo_report 0] by (simp only: demo_tables(3) demo_report_at four simp_thms)
  moreover have "length (delimited (wire (report_entries demo_report))) < 2 ^ 64"
    by (simp add: demo_report_wire delimited_def uleb128_encode.simps)
  ultimately show ?thesis
    using message_encoding [OF _ Report_fields_ok demo_tables(2)] by (simp add: demo_report_wire del: contents.simps)
qed

end
