(* ===== verification/Pb_Istream.thy ===== *)
theory Pb_Istream
  imports Pb_Encode
begin

text \<open>
  The input streams of pb_decode.c and what is read from them without a descriptor: bytes, variable
  length numbers, tags, skipped fields and substreams. None of it touches the memory messages are
  decoded to.

  A reader returns the value it read, or \<open>None\<close> where the C function returns false, with the stream
  as it is then. The outer \<open>None\<close> is a read past the end of the buffer a stream was made for, or the
  use of a byte that a callback has not delivered.
\<close>

section \<open>Streams\<close>

text \<open>
  The state of a buffer stream is a pointer into a buffer nobody writes to while it is decoded: the
  bytes from there on. The state of any other stream belongs to its callback, which returns its
  status and the bytes it put into the destination. \<open>buf == NULL\<close> is \<open>\<not> wanted\<close>.
\<close>

datatype 's pb_source = From_buffer "u8 list" | From_callback "'s \<Rightarrow> u64 \<Rightarrow> bool \<times> u8 list \<times> 's" 's

record 's pb_istream =
  in_source :: "'s pb_source"
  bytes_left :: u64
  in_errmsg :: "string option"

definition in_error :: "string \<Rightarrow> 's pb_istream \<Rightarrow> 's pb_istream" where
  "in_error msg s = s\<lparr>in_errmsg := (case in_errmsg s of None \<Rightarrow> Some msg | Some m \<Rightarrow> Some m)\<rparr>"

definition buf_read :: "bool \<Rightarrow> u64 \<Rightarrow> u8 list \<Rightarrow> (u8 list \<times> u8 list) option" where
  "buf_read wanted count source =
    (if wanted
     then (if length source < unat count then None else Some (take (unat count) source, drop (unat count) source))
     else Some ([], drop (unat count) source))"

text \<open>The call \<open>stream->callback(stream, buf, count)\<close>.\<close>

definition call_source :: "bool \<Rightarrow> u64 \<Rightarrow> 's pb_source \<Rightarrow> (bool \<times> u8 list \<times> 's pb_source) option" where
  "call_source wanted count source =
    (case source of
       From_buffer buf \<Rightarrow> map_option (\<lambda>(bs, rest). (True, bs, From_buffer rest)) (buf_read wanted count buf)
     | From_callback cb st \<Rightarrow> (case cb st count of (ok, bs, st) \<Rightarrow> Some (ok, bs, From_callback cb st)))"

text \<open>\<open>pb_read\<close> without the skipping of input bytes: into a destination, or from a buffer stream.\<close>

definition read_some :: "bool \<Rightarrow> u64 \<Rightarrow> 's pb_istream \<Rightarrow> (bool \<times> u8 list \<times> 's pb_istream) option" where
  "read_some wanted count s =
    (if count = 0 then Some (True, [], s)
     else if bytes_left s < count then Some (False, [], in_error ''end-of-stream'' s)
     else do {
       (ok, bs, source) \<leftarrow> call_source wanted count (in_source s);
       let s = s\<lparr>in_source := source\<rparr>;
       if \<not> ok then Some (False, bs, in_error ''io error'' s)
       else Some (True, bs, s\<lparr>bytes_left := bytes_left s - count\<rparr>) })"

function skip_loop :: "u64 \<Rightarrow> 's pb_istream \<Rightarrow> (bool \<times> u8 list \<times> 's pb_istream) option" where
  "skip_loop count s =
    (if 16 < count then
       (case read_some True 16 s of
          None \<Rightarrow> None
        | Some (ok, bs, s) \<Rightarrow> if ok then skip_loop (count - 16) s else Some (False, [], s))
     else map_option (\<lambda>(ok, bs, s). (ok, [], s)) (read_some True count s))"
  by auto

termination skip_loop
proof (relation "measure (\<lambda>(count, s). unat count)")
  fix count :: u64 and s s2 :: "'s pb_istream" assume "16 < count"
  then have "unat (count - 16) < unat count" by (simp add: unat_sub word_less_nat_alt word_le_nat_alt)
  then show "((count - 16, s2), count, s) \<in> measure (\<lambda>(count, s). unat count)" by simp
qed simp

declare skip_loop.simps [simp del]

definition pb_read :: "bool \<Rightarrow> u64 \<Rightarrow> 's pb_istream \<Rightarrow> (bool \<times> u8 list \<times> 's pb_istream) option" where
  "pb_read wanted count s =
    (if count = 0 then Some (True, [], s)
     else if \<not> wanted \<and> (case in_source s of From_buffer _ \<Rightarrow> False | _ \<Rightarrow> True) then skip_loop count s
     else read_some wanted count s)"

text \<open>The byte at the beginning of what was delivered.\<close>

definition pb_readbyte :: "'s pb_istream \<Rightarrow> (u8 option \<times> 's pb_istream) option" where
  "pb_readbyte s =
    (if bytes_left s = 0 then Some (None, in_error ''end-of-stream'' s)
     else do {
       (ok, bs, source) \<leftarrow> call_source True 1 (in_source s);
       let s = s\<lparr>in_source := source\<rparr>;
       if \<not> ok then Some (None, in_error ''io error'' s)
       else (case bs of [] \<Rightarrow> None | b # _ \<Rightarrow> Some (Some b, s\<lparr>bytes_left := bytes_left s - 1\<rparr>)) })"

definition pb_istream_from_buffer :: "u8 list \<Rightarrow> u64 \<Rightarrow> 's pb_istream" where
  "pb_istream_from_buffer buf bufsize = \<lparr>in_source = From_buffer buf, bytes_left = bufsize, in_errmsg = None\<rparr>"

text \<open>\<open>if (!r) return false;\<close> before \<open>f\<close>.\<close>

definition read_then ::
  "('a option \<times> 's pb_istream) option \<Rightarrow> ('a \<Rightarrow> 's pb_istream \<Rightarrow> ('b option \<times> 's pb_istream) option) \<Rightarrow>
     ('b option \<times> 's pb_istream) option" where
  "read_then r f = do { (v, s) \<leftarrow> r; (case v of None \<Rightarrow> Some (None, s) | Some x \<Rightarrow> f x s) }"

lemma unat_minus_one_less: "(x :: u64) \<noteq> 0 \<Longrightarrow> unat (x - 1) < unat x"
  by (metis measure_unat)

lemma readbyte_decreases: "pb_readbyte s = Some (Some b, s') \<Longrightarrow> unat (bytes_left s') < unat (bytes_left s)"
  by (auto simp: pb_readbyte_def bind_eq_Some_conv Let_def unat_minus_one_less split: if_splits list.splits)

lemma pb_read_decreases:
  assumes "pb_read True count s = Some (True, bs, s')" and "count \<noteq> 0"
  shows "unat (bytes_left s') < unat (bytes_left s)"
proof -
  have "0 < unat count" using assms(2) by (simp add: unat_gt_0)
  moreover have "unat count \<le> unat (bytes_left s) \<and> bytes_left s' = bytes_left s - count"
    using assms by (auto simp: pb_read_def read_some_def bind_eq_Some_conv Let_def word_le_nat_alt not_less split: if_splits)
  ultimately show ?thesis by (simp add: unat_sub word_le_nat_alt)
qed

section \<open>Variable length numbers\<close>

text \<open>\<open>uint_fast8_t\<close> has 8 bits on the platforms of the SDK, so \<open>bitpos\<close> wraps around at 256.\<close>

function varint32_loop ::
  "u8 \<Rightarrow> u32 \<Rightarrow> 's pb_istream \<Rightarrow> ((u32 \<times> u8 \<times> u8) option \<times> 's pb_istream) option" where
  "varint32_loop bitpos result s =
    (case pb_readbyte s of
       None \<Rightarrow> None
     | Some (None, s) \<Rightarrow> Some (None, s)
     | Some (Some byte, s) \<Rightarrow>
        if 32 \<le> bitpos \<and> byte AND 0x7F \<noteq> 0 \<and>
           (drop_bit 31 result = 0 \<or> byte \<noteq> (if bitpos < 63 then 0xFF else 0x01))
        then Some (None, in_error ''varint overflow'' s)
        else
          let result = (if 32 \<le> bitpos then result else result OR push_bit (unat bitpos) (ucast (byte AND 0x7F)));
              bitpos = bitpos + 7 in
          if byte AND 0x80 \<noteq> 0 then varint32_loop bitpos result s else Some (Some (result, bitpos, byte), s))"
  by auto

termination varint32_loop
  by (relation "measure (\<lambda>(bitpos, result, s). unat (bytes_left s))") (auto dest: readbyte_decreases)

declare varint32_loop.simps [simp del]

text \<open>The value, and whether \<open>*eof\<close> is set.\<close>

definition pb_decode_varint32_eof :: "'s pb_istream \<Rightarrow> (u32 option \<times> bool \<times> 's pb_istream) option" where
  "pb_decode_varint32_eof s = do {
     (first, s) \<leftarrow> pb_readbyte s;
     (case first of
        None \<Rightarrow> Some (None, bytes_left s = 0, s)
      | Some byte \<Rightarrow>
         if byte AND 0x80 = 0 then Some (Some (ucast byte), False, s)
         else do {
           (r, s) \<leftarrow> varint32_loop 7 (ucast (byte AND 0x7F)) s;
           (case r of
              None \<Rightarrow> Some (None, False, s)
            | Some (result, bitpos, byte) \<Rightarrow>
               if bitpos = 35 \<and> byte AND 0x70 \<noteq> 0 then Some (None, False, in_error ''varint overflow'' s)
               else Some (Some result, False, s)) }) }"

definition pb_decode_varint32 :: "'s pb_istream \<Rightarrow> (u32 option \<times> 's pb_istream) option" where
  "pb_decode_varint32 s = map_option (\<lambda>(v, eof, s). (v, s)) (pb_decode_varint32_eof s)"

function varint64_loop :: "u8 \<Rightarrow> u64 \<Rightarrow> 's pb_istream \<Rightarrow> (u64 option \<times> 's pb_istream) option" where
  "varint64_loop bitpos result s =
    (if 64 \<le> bitpos then Some (None, in_error ''varint overflow'' s)
     else (case pb_readbyte s of
       None \<Rightarrow> None
     | Some (None, s) \<Rightarrow> Some (None, s)
     | Some (Some byte, s) \<Rightarrow>
        let result = result OR push_bit (unat bitpos) (ucast (byte AND 0x7F)); bitpos = bitpos + 7 in
        if byte AND 0x80 \<noteq> 0 then varint64_loop bitpos result s else Some (Some result, s)))"
  by auto

termination varint64_loop
  by (relation "measure (\<lambda>(bitpos, result, s). unat (bytes_left s))") (auto dest: readbyte_decreases)

declare varint64_loop.simps [simp del]

definition pb_decode_varint :: "'s pb_istream \<Rightarrow> (u64 option \<times> 's pb_istream) option" where
  "pb_decode_varint = varint64_loop 0 0"

definition pb_decode_svarint :: "'s pb_istream \<Rightarrow> (u64 option \<times> 's pb_istream) option" where
  "pb_decode_svarint s = read_then (pb_decode_varint s) (\<lambda>value s.
     Some (Some (if value AND 1 \<noteq> 0 then NOT (drop_bit 1 value) else drop_bit 1 value), s))"

section \<open>Tags and skipping\<close>

function pb_skip_varint :: "'s pb_istream \<Rightarrow> (unit option \<times> 's pb_istream) option" where
  "pb_skip_varint s =
    (case pb_read True 1 s of
       None \<Rightarrow> None
     | Some (ok, bs, s) \<Rightarrow>
        if \<not> ok then Some (None, s)
        else (case bs of [] \<Rightarrow> None | byte # _ \<Rightarrow> if byte AND 0x80 \<noteq> 0 then pb_skip_varint s else Some (Some (), s)))"
  by auto

termination pb_skip_varint
  by (relation "measure (\<lambda>s. unat (bytes_left s))") (auto dest: pb_read_decreases)

declare pb_skip_varint.simps [simp del]

text \<open>\<open>pb_read(stream, NULL, count)\<close>.\<close>

definition skip_bytes :: "u64 \<Rightarrow> 's pb_istream \<Rightarrow> (unit option \<times> 's pb_istream) option" where
  "skip_bytes count s = map_option (\<lambda>(ok, bs, s). (if ok then Some () else None, s)) (pb_read False count s)"

definition pb_skip_string :: "'s pb_istream \<Rightarrow> (unit option \<times> 's pb_istream) option" where
  "pb_skip_string s = read_then (pb_decode_varint32 s) (\<lambda>len. skip_bytes (ucast len))"

text \<open>The tag and the wire type, and \<open>*eof\<close>.\<close>

definition pb_decode_tag :: "'s pb_istream \<Rightarrow> ((u32 \<times> u32) option \<times> bool \<times> 's pb_istream) option" where
  "pb_decode_tag s = do {
     (temp, eof, s) \<leftarrow> pb_decode_varint32_eof s;
     (case temp of
        None \<Rightarrow> Some (None, eof, s)
      | Some temp \<Rightarrow> if temp = 0 then Some (None, True, s) else Some (Some (drop_bit 3 temp, temp AND 7), eof, s)) }"

definition pb_skip_field :: "u32 \<Rightarrow> 's pb_istream \<Rightarrow> (unit option \<times> 's pb_istream) option" where
  "pb_skip_field wire_type s =
    (if wire_type = PB_WT_VARINT then pb_skip_varint s
     else if wire_type = PB_WT_64BIT then skip_bytes 8 s
     else if wire_type = PB_WT_STRING then pb_skip_string s
     else if wire_type = PB_WT_32BIT then skip_bytes 4 s
     else Some (None, in_error ''invalid wire_type'' s))"

text \<open>The bytes of a varint, at most as many as the first argument.\<close>

primrec raw_varint_loop :: "nat \<Rightarrow> u8 list \<Rightarrow> 's pb_istream \<Rightarrow> (u8 list option \<times> 's pb_istream) option" where
  "raw_varint_loop 0 buf s = Some (None, s)"
| "raw_varint_loop (Suc n) buf s = do {
     (ok, bs, s) \<leftarrow> pb_read True 1 s;
     if \<not> ok then Some (None, s)
     else (case bs of
        [] \<Rightarrow> None
      | b # _ \<Rightarrow> if b AND 0x80 \<noteq> 0 then raw_varint_loop n (buf @ [b]) s else Some (Some (buf @ [b]), s)) }"

definition read_raw_value :: "u32 \<Rightarrow> nat \<Rightarrow> 's pb_istream \<Rightarrow> (u8 list option \<times> 's pb_istream) option" where
  "read_raw_value wire_type limit s =
    (if wire_type = PB_WT_VARINT then raw_varint_loop limit [] s
     else if wire_type = PB_WT_64BIT
     then map_option (\<lambda>(ok, bs, s). (if ok then Some bs else None, s)) (pb_read True 8 s)
     else if wire_type = PB_WT_32BIT
     then map_option (\<lambda>(ok, bs, s). (if ok then Some bs else None, s)) (pb_read True 4 s)
     else Some (None, in_error ''invalid wire_type'' s))"

section \<open>Substreams\<close>

definition pb_make_string_substream :: "'s pb_istream \<Rightarrow> ('s pb_istream option \<times> 's pb_istream) option" where
  "pb_make_string_substream s = read_then (pb_decode_varint32 s) (\<lambda>sz s.
     if bytes_left s < ucast sz then Some (None, in_error ''parent stream too short'' s)
     else Some (Some (s\<lparr>bytes_left := ucast sz\<rparr>), s\<lparr>bytes_left := bytes_left s - ucast sz\<rparr>))"

definition pb_close_string_substream :: "'s pb_istream \<Rightarrow> 's pb_istream \<Rightarrow> (unit option \<times> 's pb_istream) option" where
  "pb_close_string_substream s sub =
    (case (if bytes_left sub \<noteq> 0 then skip_bytes (bytes_left sub) sub else Some (Some (), sub)) of
       None \<Rightarrow> None
     | Some (None, sub) \<Rightarrow> Some (None, s)
     | Some (Some _, sub) \<Rightarrow> Some (Some (), s\<lparr>in_source := in_source sub, in_errmsg := in_errmsg sub\<rparr>))"

end
