(* ===== verification/Pb_Istream_Facts.thy ===== *)
theory Pb_Istream_Facts
  imports Pb_Istream Pb_Encode_Facts
begin

text \<open>
  What the readers of pb_decode.c do on a stream that delivers what it promises: none of them reads
  past the bytes left or past a buffer, whatever the bytes are; and numbers, tags and whole fields in
  the wire format are read, or skipped, exactly.
\<close>

section \<open>Interface: a source of bytes\<close>

text \<open>
  \<open>pending\<close> is what a source will deliver; a source keeps the rules of pb_decode.h when it delivers
  its bytes in order. Only a buffer is ever asked to skip.
\<close>

definition is_buffer :: "'s pb_source \<Rightarrow> bool" where
  "is_buffer src \<longleftrightarrow> (case src of From_buffer _ \<Rightarrow> True | _ \<Rightarrow> False)"

definition in_ok :: "('s pb_source \<Rightarrow> bool) \<Rightarrow> ('s pb_source \<Rightarrow> u8 list) \<Rightarrow> 's pb_istream \<Rightarrow> bool" where
  "in_ok valid pending s \<longleftrightarrow> valid (in_source s) \<and> unat (bytes_left s) \<le> length (pending (in_source s))"

text \<open>The bytes up to the limit of the stream, and the stream after \<open>k\<close> of them.\<close>

definition front :: "('s pb_source \<Rightarrow> u8 list) \<Rightarrow> 's pb_istream \<Rightarrow> u8 list" where
  "front pending s = take (unat (bytes_left s)) (pending (in_source s))"

definition moved ::
  "('s pb_source \<Rightarrow> bool) \<Rightarrow> ('s pb_source \<Rightarrow> u8 list) \<Rightarrow> nat \<Rightarrow> 's pb_istream \<Rightarrow> 's pb_istream \<Rightarrow> bool" where
  "moved valid pending k s s' \<longleftrightarrow> valid (in_source s') \<and> k \<le> unat (bytes_left s) \<and>
     unat (bytes_left s') = unat (bytes_left s) - k \<and> pending (in_source s') = drop k (pending (in_source s))"

definition later :: "('s pb_source \<Rightarrow> bool) \<Rightarrow> ('s pb_source \<Rightarrow> u8 list) \<Rightarrow> 's pb_istream \<Rightarrow> 's pb_istream \<Rightarrow> bool" where
  "later valid pending s s' \<longleftrightarrow> (\<exists>k. moved valid pending k s s')"

text \<open>\<open>r\<close> reads the value \<open>v\<close> from the bytes \<open>bs\<close>; and \<open>r\<close> never goes wrong.\<close>

definition reads ::
  "('s pb_source \<Rightarrow> bool) \<Rightarrow> ('s pb_source \<Rightarrow> u8 list) \<Rightarrow> ('s pb_istream \<Rightarrow> ('a option \<times> 's pb_istream) option) \<Rightarrow>
     u8 list \<Rightarrow> 'a \<Rightarrow> bool" where
  "reads valid pending r bs v \<longleftrightarrow> (\<forall>s. in_ok valid pending s \<and> take (length bs) (front pending s) = bs \<longrightarrow>
     (\<exists>s'. r s = Some (Some v, s') \<and> moved valid pending (length bs) s s'))"

definition safe_reader ::
  "('s pb_source \<Rightarrow> bool) \<Rightarrow> ('s pb_source \<Rightarrow> u8 list) \<Rightarrow> ('s pb_istream \<Rightarrow> ('a option \<times> 's pb_istream) option) \<Rightarrow> bool" where
  "safe_reader valid pending r \<longleftrightarrow> (\<forall>s. in_ok valid pending s \<longrightarrow> (\<exists>v s'. r s = Some (v, s') \<and> later valid pending s s'))"

lemma in_error_simps [simp]:
  "in_source (in_error msg s) = in_source s" "bytes_left (in_error msg s) = bytes_left s"
  by (simp_all add: in_error_def)

locale byte_source =
  fixes valid :: "'s pb_source \<Rightarrow> bool" and pending :: "'s pb_source \<Rightarrow> u8 list"
  assumes delivers: "valid src \<Longrightarrow> unat count \<le> length (pending src) \<Longrightarrow> wanted \<or> is_buffer src \<Longrightarrow>
    \<exists>src'. call_source wanted count src = Some (True, if wanted then take (unat count) (pending src) else [], src') \<and>
      valid src' \<and> pending src' = drop (unat count) (pending src)"
begin

lemma moved_ok: "in_ok valid pending s \<Longrightarrow> moved valid pending k s s' \<Longrightarrow> in_ok valid pending s'"
  by (auto simp: in_ok_def moved_def)

lemma later_ok: "in_ok valid pending s \<Longrightarrow> later valid pending s s' \<Longrightarrow> in_ok valid pending s'"
  using moved_ok by (auto simp: later_def)

lemma moved_front: "moved valid pending k s s' \<Longrightarrow> front pending s' = drop k (front pending s)"
  by (auto simp: front_def moved_def drop_take)

lemma moved_trans: "moved valid pending k s s' \<Longrightarrow> moved valid pending l s' s'' \<Longrightarrow> moved valid pending (k + l) s s''"
  by (auto simp: moved_def add.commute)

lemma moved_later: "moved valid pending k s s' \<Longrightarrow> later valid pending s s'"
  by (auto simp: later_def)

lemma later_trans: "later valid pending s s' \<Longrightarrow> later valid pending s' s'' \<Longrightarrow> later valid pending s s''"
  unfolding later_def using moved_trans by blast

lemma later_refl: "in_ok valid pending s \<Longrightarrow> later valid pending s s"
  unfolding later_def moved_def in_ok_def by (intro exI [of _ 0]) simp

lemma later_error: "later valid pending s (in_error msg s') \<longleftrightarrow> later valid pending s s'"
  by (simp add: later_def moved_def)

lemma moved_error: "moved valid pending k s (in_error msg s') \<longleftrightarrow> moved valid pending k s s'"
  by (simp add: moved_def)

lemma front_length: "in_ok valid pending s \<Longrightarrow> length (front pending s) = unat (bytes_left s)"
  by (simp add: front_def in_ok_def)

lemma moved_bytes_left: "moved valid pending k s s' \<Longrightarrow> bytes_left s' = bytes_left s - of_nat k"
proof -
  assume m: "moved valid pending k s s'"
  then have "unat (of_nat k :: u64) = k" using unsigned_less [of "bytes_left s", where 'a = nat] by (simp add: moved_def unat_of_nat)
  then have "unat (bytes_left s - of_nat k) = unat (bytes_left s) - k"
    using m by (simp add: moved_def unat_sub word_le_nat_alt)
  then show ?thesis using m by (simp add: moved_def word_unat_eq_iff)
qed

text \<open>The call of a source, and the two ways to read bytes.\<close>

lemma call_source_moves:
  assumes "in_ok valid pending s" and "unat count \<le> unat (bytes_left s)" and "wanted \<or> is_buffer (in_source s)"
  obtains src where "call_source wanted count (in_source s) =
      Some (True, if wanted then take (unat count) (pending (in_source s)) else [], src)"
    "moved valid pending (unat count) s (s\<lparr>in_source := src, bytes_left := bytes_left s - count\<rparr>)"
proof -
  have "valid (in_source s)" "unat count \<le> length (pending (in_source s))" using assms(1,2) by (auto simp: in_ok_def)
  from delivers [OF this assms(3)] obtain src where
    "call_source wanted count (in_source s) = Some (True, if wanted then take (unat count) (pending (in_source s)) else [], src)"
    "valid src" "pending src = drop (unat count) (pending (in_source s))" by blast
  then show thesis using assms(2) by (intro that) (auto simp: moved_def unat_sub word_le_nat_alt)
qed

lemma readbyte_reads:
  assumes "in_ok valid pending s" and "bytes_left s \<noteq> 0"
  shows "\<exists>s'. pb_readbyte s = Some (Some (hd (pending (in_source s))), s') \<and> moved valid pending 1 s s'"
proof -
  have one: "unat (1 :: u64) \<le> unat (bytes_left s)" using assms(2) by (simp add: Suc_le_eq unat_gt_0)
  obtain src where src: "call_source True 1 (in_source s) = Some (True, take 1 (pending (in_source s)), src)"
    "moved valid pending 1 s (s\<lparr>in_source := src, bytes_left := bytes_left s - 1\<rparr>)"
    using call_source_moves [OF assms(1) one, of True] by auto
  have "pending (in_source s) \<noteq> []" using one assms(1) by (auto simp: in_ok_def)
  then show ?thesis using src assms(2) by (cases "pending (in_source s)") (auto simp: pb_readbyte_def)
qed

lemma readbyte_safe: "safe_reader valid pending pb_readbyte"
  unfolding safe_reader_def
proof (intro allI impI)
  fix s assume ok: "in_ok valid pending s"
  show "\<exists>v s'. pb_readbyte s = Some (v, s') \<and> later valid pending s s'"
  proof (cases "bytes_left s = 0")
    case True
    then show ?thesis using later_refl [OF ok] by (auto simp: pb_readbyte_def later_error)
  next
    case False
    then show ?thesis using readbyte_reads [OF ok] moved_later by blast
  qed
qed

lemma read_some_moves:
  assumes "in_ok valid pending s" and "wanted \<or> is_buffer (in_source s)"
  shows "if unat count \<le> unat (bytes_left s)
    then \<exists>s'. read_some wanted count s = Some (True, if wanted then take (unat count) (front pending s) else [], s') \<and>
      moved valid pending (unat count) s s'
    else read_some wanted count s = Some (False, [], in_error ''end-of-stream'' s)"
proof (cases "unat count \<le> unat (bytes_left s)")
  case True
  have none: "moved valid pending 0 s s" using assms(1) by (auto simp: moved_def in_ok_def)
  obtain src where "call_source wanted count (in_source s) = Some (True, if wanted then take (unat count) (pending (in_source s)) else [], src)"
    "moved valid pending (unat count) s (s\<lparr>in_source := src, bytes_left := bytes_left s - count\<rparr>)"
    using call_source_moves [OF assms(1) True assms(2)] by blast
  moreover have "\<not> bytes_left s < count" using True by (simp add: word_less_nat_alt)
  moreover have "take (unat count) (front pending s) = take (unat count) (pending (in_source s))"
    using True by (simp add: front_def min_def)
  ultimately show ?thesis using True none by (cases "count = 0") (auto simp: read_some_def)
next
  case False
  then show ?thesis by (auto simp: read_some_def word_less_nat_alt)
qed

lemma skip_loop_moves:
  "in_ok valid pending s \<Longrightarrow>
    if unat count \<le> unat (bytes_left s) then \<exists>s'. skip_loop count s = Some (True, [], s') \<and> moved valid pending (unat count) s s'
    else \<exists>s'. skip_loop count s = Some (False, [], s') \<and> later valid pending s s'"
proof (induction count s rule: skip_loop.induct)
  case (1 count s)
  note ok = "1.prems"
  show ?case
  proof (cases "16 < count")
    case True
    then have big: "16 < unat count" by (simp add: word_less_nat_alt)
    note step = read_some_moves [OF ok, of True 16, simplified]
    show ?thesis
    proof (cases "16 \<le> unat (bytes_left s)")
      case True
      then obtain s1 bs where s1: "read_some True 16 s = Some (True, bs, s1)" "moved valid pending 16 s s1"
        using step by auto
      have loop: "skip_loop count s = skip_loop (count - 16) s1"
        by (subst skip_loop.simps) (simp add: \<open>16 < count\<close> s1(1))
      have left: "unat (bytes_left s1) = unat (bytes_left s) - 16" using s1(2) by (simp add: moved_def)
      have count: "unat (count - 16) = unat count - 16" using big by (simp add: unat_sub word_le_nat_alt)
      have IH: "if unat count - 16 \<le> unat (bytes_left s) - 16
        then \<exists>s'. skip_loop (count - 16) s1 = Some (True, [], s') \<and> moved valid pending (unat count - 16) s1 s'
        else \<exists>s'. skip_loop (count - 16) s1 = Some (False, [], s') \<and> later valid pending s1 s'"
        using "1.IH" [OF \<open>16 < count\<close> s1(1) refl refl TrueI moved_ok [OF ok s1(2)]] by (simp only: left count)
      show ?thesis
      proof (cases "unat count \<le> unat (bytes_left s)")
        case True
        then obtain s2 where "skip_loop (count - 16) s1 = Some (True, [], s2)" "moved valid pending (unat count - 16) s1 s2"
          using IH big by (auto split: if_splits)
        then show ?thesis using moved_trans [OF s1(2)] big True loop by fastforce
      next
        case False
        then obtain s2 where "skip_loop (count - 16) s1 = Some (False, [], s2)" "later valid pending s1 s2"
          using IH big by (auto split: if_splits)
        then show ?thesis using later_trans [OF moved_later [OF s1(2)]] False loop by auto
      qed
    next
      case False
      then show ?thesis using step big later_refl [OF ok]
        by (subst (1 2) skip_loop.simps) (auto simp: \<open>16 < count\<close> later_error)
    qed
  next
    case False
    note step = read_some_moves [OF ok, of True count, simplified]
    show ?thesis using step later_refl [OF ok]
      by (subst (1 2) skip_loop.simps) (auto simp: False later_error split: if_splits)
  qed
qed

lemma pb_read_moves:
  assumes "in_ok valid pending s"
  shows "if unat count \<le> unat (bytes_left s)
    then \<exists>s'. pb_read wanted count s = Some (True, if wanted then take (unat count) (front pending s) else [], s') \<and>
      moved valid pending (unat count) s s'
    else \<exists>s'. pb_read wanted count s = Some (False, [], s') \<and> later valid pending s s'"
proof (cases "\<not> wanted \<and> \<not> is_buffer (in_source s)")
  case True
  have none: "moved valid pending 0 s s" using assms by (auto simp: moved_def in_ok_def)
  have "pb_read wanted count s = (if count = 0 then Some (True, [], s) else skip_loop count s)"
    using True by (auto simp: pb_read_def is_buffer_def split: pb_source.splits)
  then show ?thesis using True skip_loop_moves [OF assms, of count] none by auto
next
  case False
  have none: "moved valid pending 0 s s" using assms by (auto simp: moved_def in_ok_def)
  have "pb_read wanted count s = (if count = 0 then Some (True, [], s) else read_some wanted count s)"
    using False by (auto simp: pb_read_def is_buffer_def split: pb_source.splits)
  then show ?thesis using False read_some_moves [OF assms, of wanted count] later_refl [OF assms] none
    by (auto simp: later_error)
qed

end

section \<open>Numbers\<close>

lemma varint_byte:
  assumes "v < 128"
  shows "(of_nat v :: u8) AND 0x7F = of_nat v" "(of_nat v :: u8) AND 0x80 = 0"
    "(of_nat (128 + v) :: u8) AND 0x7F = of_nat v" "(of_nat (128 + v) :: u8) AND 0x80 \<noteq> 0"
proof -
  have "\<forall>v \<in> set [0..<128]. (of_nat v :: u8) AND 0x7F = of_nat v \<and> (of_nat v :: u8) AND 0x80 = 0 \<and>
      (of_nat (128 + v) :: u8) AND 0x7F = of_nat v \<and> (of_nat (128 + v) :: u8) AND 0x80 \<noteq> 0"
    by code_simp
  moreover have "v \<in> set [0..<128]" using assms by simp
  ultimately show "(of_nat v :: u8) AND 0x7F = of_nat v" "(of_nat v :: u8) AND 0x80 = 0"
    "(of_nat (128 + v) :: u8) AND 0x7F = of_nat v" "(of_nat (128 + v) :: u8) AND 0x80 \<noteq> 0" by blast+
qed

lemma ucast_small_byte: "v < 128 \<Longrightarrow> ucast (of_nat v :: u8) = (of_nat v :: 'a::len word)"
  by (simp add: unsigned_of_nat take_bit_nat_eq_self)

lemma uleb128_cases:
  obtains "n < 128" "uleb128_encode n = [of_nat n]"
  | "\<not> n < 128" "uleb128_encode n = of_nat (128 + n mod 128) # uleb128_encode (n div 128)" "1 \<le> n div 128"
proof (cases "n < 128")
  case True
  then show thesis by (intro that(1)) (simp_all add: uleb128_encode.simps)
next
  case False
  then show thesis by (intro that(2)) (simp_all add: uleb128_encode.simps [of n])
qed

text \<open>The value of the groups read so far and the group at position \<open>k\<close>.\<close>

lemma add_group:
  assumes "v < 128" and "a < 2 ^ k"
  shows "(of_nat a :: 'a::len word) OR push_bit k (of_nat v) = of_nat (a + v * 2 ^ k)"
  using or_shifted [OF assms(2), of v] by (simp add: push_bit_eq_mult)

lemma group_bound:
  assumes "a < 2 ^ (7 * j)" and "v < (128 :: nat)"
  shows "a + v * 2 ^ (7 * j) < 2 ^ (7 * Suc j)"
proof -
  have "v * 2 ^ (7 * j) \<le> 127 * 2 ^ (7 * j)" using assms(2) by simp
  then have "a + v * 2 ^ (7 * j) < 128 * 2 ^ (7 * j)" using assms(1) by linarith
  then show ?thesis by (simp add: power_add)
qed

lemma group_sum: "a + n mod 128 * 2 ^ (7 * j) + n div 128 * 2 ^ (7 * Suc j) = a + n * 2 ^ (7 * j)" for n :: nat
proof -
  have "n * 2 ^ (7 * j) = (128 * (n div 128) + n mod 128) * 2 ^ (7 * j)" by simp
  then show ?thesis by (simp only: distrib_right power_add mult_Suc_right) simp
qed

context byte_source
begin

lemma reads_byte:
  assumes "in_ok valid pending s" and "take (Suc (length bs)) (front pending s) = b # bs"
  shows "\<exists>s'. pb_readbyte s = Some (Some b, s') \<and> moved valid pending 1 s s' \<and> in_ok valid pending s' \<and>
    take (length bs) (front pending s') = bs"
proof -
  obtain rest where rest: "front pending s = b # rest" "take (length bs) rest = bs"
    using assms(2) by (cases "front pending s") auto
  then have left: "bytes_left s \<noteq> 0" by (auto simp: front_def)
  have "hd (pending (in_source s)) = b" using rest(1) by (cases "pending (in_source s)") (auto simp: front_def take_Cons split: nat.splits)
  then obtain s' where s': "pb_readbyte s = Some (Some b, s')" "moved valid pending 1 s s'"
    using readbyte_reads [OF assms(1) left] by auto
  then show ?thesis using moved_ok [OF assms(1)] moved_front [OF s'(2)] rest by auto
qed

lemma varint64_loop_reads:
  "in_ok valid pending s \<Longrightarrow> take (length (uleb128_encode n)) (front pending s) = uleb128_encode n \<Longrightarrow> unat p = 7 * j \<Longrightarrow> j \<le> 9 \<Longrightarrow>
    a < 2 ^ (7 * j) \<Longrightarrow> n * 2 ^ (7 * j) < 2 ^ 64 \<Longrightarrow>
    \<exists>s'. varint64_loop p (of_nat a) s = Some (Some (of_nat (a + n * 2 ^ (7 * j))), s') \<and>
      moved valid pending (length (uleb128_encode n)) s s'"
proof (induction n arbitrary: j p a s rule: less_induct)
  case (less n)
  note pos = less.prems(3)
  then have small: "\<not> (64 :: u8) \<le> p" using less.prems(4) by (simp add: word_le_nat_alt)
  show ?case
  proof (cases n rule: uleb128_cases)
    case 1
    obtain s1 where "pb_readbyte s = Some (Some (of_nat n), s1)" "moved valid pending 1 s s1"
      using reads_byte [OF less.prems(1), of "[]" "of_nat n"] less.prems(2) by (auto simp: 1(2))
    then show ?thesis using small varint_byte [OF 1(1)]
      by (subst varint64_loop.simps)
        (simp add: Let_def ucast_small_byte [OF 1(1)] pos add_group [OF 1(1) less.prems(5)] 1(2))
  next
    case 2
    let ?v = "n mod 128" and ?m = "n div 128"
    obtain s1 where s1: "pb_readbyte s = Some (Some (of_nat (128 + ?v)), s1)" "moved valid pending 1 s s1"
      "in_ok valid pending s1" "take (length (uleb128_encode ?m)) (front pending s1) = uleb128_encode ?m"
      using reads_byte [OF less.prems(1)] less.prems(2) by (auto simp: 2(2))
    have v: "?v < 128" by simp
    have m: "?m < n" using 2(1) by simp
    have bound: "?m * 2 ^ (7 * Suc j) < 2 ^ 64"
      using less.prems(6) group_sum [of 0 n j] by linarith
    have j: "Suc j \<le> 9"
    proof (rule ccontr)
      assume "\<not> Suc j \<le> 9"
      then have "j = 9" using less.prems(4) by simp
      then show False using bound 2(3) by simp
    qed
    have step: "varint64_loop p (of_nat a) s = varint64_loop (p + 7) (of_nat (a + ?v * 2 ^ (7 * j))) s1"
      using small varint_byte [OF v] s1(1)
      by (subst varint64_loop.simps)
        (simp add: Let_def ucast_small_byte [OF v] pos add_group [OF v less.prems(5)])
    have next_pos: "unat (p + 7) = 7 * Suc j" using pos j by (simp add: unat_word_ariths)
    obtain s2 where "varint64_loop (p + 7) (of_nat (a + ?v * 2 ^ (7 * j))) s1 =
        Some (Some (of_nat (a + n * 2 ^ (7 * j))), s2)" "moved valid pending (length (uleb128_encode ?m)) s1 s2"
      using less.IH [OF m s1(3,4) next_pos j group_bound [OF less.prems(5) v] bound] unfolding group_sum by blast
    then show ?thesis using step moved_trans [OF s1(2)] 2(2) by (intro exI [of _ s2]) auto
  qed
qed

lemma reads_varint: "reads valid pending pb_decode_varint (uleb128_encode (unat v)) v"
  unfolding reads_def pb_decode_varint_def
  using varint64_loop_reads [where j = 0 and p = 0 and a = 0 and n = "unat v"] unsigned_less [of v, where 'a = nat]
  by simp

lemma varint32_loop_reads:
  "in_ok valid pending s \<Longrightarrow> take (length (uleb128_encode n)) (front pending s) = uleb128_encode n \<Longrightarrow> unat p = 7 * j \<Longrightarrow> j \<le> 4 \<Longrightarrow>
    a < 2 ^ (7 * j) \<Longrightarrow> n * 2 ^ (7 * j) < 2 ^ 32 \<Longrightarrow>
    \<exists>s' q b. varint32_loop p (of_nat a) s = Some (Some (of_nat (a + n * 2 ^ (7 * j)), q, b), s') \<and>
      moved valid pending (length (uleb128_encode n)) s s' \<and> (q = 35 \<longrightarrow> b AND 0x70 = 0)"
proof (induction n arbitrary: j p a s rule: less_induct)
  case (less n)
  note pos = less.prems(3)
  then have small: "\<not> (32 :: u8) \<le> p" using less.prems(4) by (simp add: word_le_nat_alt)
  show ?case
  proof (cases n rule: uleb128_cases)
    case 1
    obtain s1 where "pb_readbyte s = Some (Some (of_nat n), s1)" "moved valid pending 1 s s1"
      using reads_byte [OF less.prems(1), of "[]" "of_nat n"] less.prems(2) by (auto simp: 1(2))
    moreover have "(of_nat n :: u8) AND 0x70 = 0" if "p + 7 = 35"
    proof -
      have "unat (p + 7) = 35" using that by simp
      then have "j = 4" using pos less.prems(4) by (simp add: unat_word_ariths)
      then have "n \<in> set [0..<16]" using less.prems(6) by simp
      moreover have "\<forall>n \<in> set [0..<16]. (of_nat n :: u8) AND 0x70 = 0" by code_simp
      ultimately show ?thesis by blast
    qed
    ultimately show ?thesis using small varint_byte [OF 1(1)]
      by (subst varint32_loop.simps)
        (simp add: Let_def ucast_small_byte [OF 1(1)] pos add_group [OF 1(1) less.prems(5)] 1(2))
  next
    case 2
    let ?v = "n mod 128" and ?m = "n div 128"
    obtain s1 where s1: "pb_readbyte s = Some (Some (of_nat (128 + ?v)), s1)" "moved valid pending 1 s s1"
      "in_ok valid pending s1" "take (length (uleb128_encode ?m)) (front pending s1) = uleb128_encode ?m"
      using reads_byte [OF less.prems(1)] less.prems(2) by (auto simp: 2(2))
    have v: "?v < 128" by simp
    have m: "?m < n" using 2(1) by simp
    have bound: "?m * 2 ^ (7 * Suc j) < 2 ^ 32"
      using less.prems(6) group_sum [of 0 n j] by linarith
    have j: "Suc j \<le> 4"
    proof (rule ccontr)
      assume "\<not> Suc j \<le> 4"
      then have "j = 4" using less.prems(4) by simp
      then show False using bound 2(3) by simp
    qed
    have step: "varint32_loop p (of_nat a) s = varint32_loop (p + 7) (of_nat (a + ?v * 2 ^ (7 * j))) s1"
      using small varint_byte [OF v] s1(1)
      by (subst varint32_loop.simps)
        (simp add: Let_def ucast_small_byte [OF v] pos add_group [OF v less.prems(5)])
    have next_pos: "unat (p + 7) = 7 * Suc j" using pos j by (simp add: unat_word_ariths)
    obtain s2 q b where "varint32_loop (p + 7) (of_nat (a + ?v * 2 ^ (7 * j))) s1 =
        Some (Some (of_nat (a + n * 2 ^ (7 * j)), q, b), s2)" "moved valid pending (length (uleb128_encode ?m)) s1 s2"
      "q = 35 \<longrightarrow> b AND 0x70 = 0"
      using less.IH [OF m s1(3,4) next_pos j group_bound [OF less.prems(5) v] bound] unfolding group_sum by blast
    then show ?thesis using step moved_trans [OF s1(2)] 2(2) by (intro exI [of _ s2] exI [of _ q] exI [of _ b]) auto
  qed
qed

lemma varint32_eof_reads:
  assumes "in_ok valid pending s" and "take (length (uleb128_encode n)) (front pending s) = uleb128_encode n" and "n < 2 ^ 32"
  shows "\<exists>s'. pb_decode_varint32_eof s = Some (Some (of_nat n), False, s') \<and>
    moved valid pending (length (uleb128_encode n)) s s'"
proof (cases n rule: uleb128_cases)
  case 1
  obtain s1 where "pb_readbyte s = Some (Some (of_nat n), s1)" "moved valid pending 1 s s1"
    using reads_byte [OF assms(1), of "[]" "of_nat n"] assms(2) by (auto simp: 1(2))
  then show ?thesis using varint_byte [OF 1(1)]
    by (simp add: pb_decode_varint32_eof_def ucast_small_byte [OF 1(1)] 1(2))
next
  case 2
  let ?v = "n mod 128" and ?m = "n div 128"
  obtain s1 where s1: "pb_readbyte s = Some (Some (of_nat (128 + ?v)), s1)" "moved valid pending 1 s s1"
    "in_ok valid pending s1" "take (length (uleb128_encode ?m)) (front pending s1) = uleb128_encode ?m"
    using reads_byte [OF assms(1)] assms(2) by (auto simp: 2(2))
  have v: "?v < 128" by simp
  have bound: "?m * 2 ^ (7 * 1) < 2 ^ 32" using assms(3) group_sum [of 0 n 0] by simp
  obtain s2 q b where "varint32_loop 7 (of_nat ?v) s1 = Some (Some (of_nat n, q, b), s2)"
    "moved valid pending (length (uleb128_encode ?m)) s1 s2" "q = 35 \<longrightarrow> b AND 0x70 = 0"
    using varint32_loop_reads [OF s1(3,4), of 7 1 ?v] bound by auto
  then show ?thesis using s1 varint_byte [OF v] moved_trans [OF s1(2)]
    by (intro exI [of _ s2]) (simp add: pb_decode_varint32_eof_def ucast_small_byte [OF v] 2(2))
qed

lemma reads_varint32: "n < 2 ^ 32 \<Longrightarrow> reads valid pending pb_decode_varint32 (uleb128_encode n) (of_nat n)"
  using varint32_eof_reads by (fastforce simp: reads_def pb_decode_varint32_def)

lemma reads_then:
  assumes "reads valid pending r bs v" and "reads valid pending (f v) cs w"
  shows "reads valid pending (\<lambda>s. read_then (r s) f) (bs @ cs) w"
  unfolding reads_def
proof (intro allI impI, elim conjE)
  fix s assume ok: "in_ok valid pending s" and bytes: "take (length (bs @ cs)) (front pending s) = bs @ cs"
  have "take (length bs) (front pending s) = bs" using arg_cong [OF bytes, of "take (length bs)"] by (simp add: min_def)
  with assms(1) ok obtain s1 where s1: "r s = Some (Some v, s1)" "moved valid pending (length bs) s s1"
    unfolding reads_def by blast
  have "take (length cs) (front pending s1) = cs"
    using arg_cong [OF bytes, of "drop (length bs)"] by (simp add: moved_front [OF s1(2)] drop_take)
  with assms(2) moved_ok [OF ok s1(2)] obtain s2 where "f v s1 = Some (Some w, s2)" "moved valid pending (length cs) s1 s2"
    unfolding reads_def by blast
  then show "\<exists>s'. read_then (r s) f = Some (Some w, s') \<and> moved valid pending (length (bs @ cs)) s s'"
    using s1 moved_trans [OF s1(2)] by (intro exI [of _ s2]) (simp add: read_then_def)
qed

lemma reads_skip: "unat count = length bs \<Longrightarrow> reads valid pending (skip_bytes count) bs ()"
  unfolding reads_def
proof (intro allI impI, elim conjE)
  fix s assume count: "unat count = length bs" and ok: "in_ok valid pending s" and bytes: "take (length bs) (front pending s) = bs"
  have "length bs \<le> length (front pending s)" using arg_cong [OF bytes, of length] by simp
  then have "unat count \<le> unat (bytes_left s)" using count by (simp add: front_length [OF ok])
  then show "\<exists>s'. skip_bytes count s = Some (Some (), s') \<and> moved valid pending (length bs) s s'"
    using pb_read_moves [OF ok, of count False] count by (auto simp: skip_bytes_def)
qed

lemma reads_skip_varint: "reads valid pending pb_skip_varint (uleb128_encode n) ()"
proof (induction n rule: less_induct)
  case (less n)
  have one: "take 1 (front pending s) = [b]" if "take (length (b # bs)) (front pending s) = b # bs" for s b bs
    using that by (cases "front pending s") auto
  show ?case
    unfolding reads_def
  proof (intro allI impI, elim conjE)
    fix s assume ok: "in_ok valid pending s" and bytes: "take (length (uleb128_encode n)) (front pending s) = uleb128_encode n"
    show "\<exists>s'. pb_skip_varint s = Some (Some (), s') \<and> moved valid pending (length (uleb128_encode n)) s s'"
    proof -
      obtain b bs where enc: "uleb128_encode n = b # bs" by (cases "uleb128_encode n") (auto simp: uleb_not_Nil)
      have first: "take 1 (front pending s) = [b]" using one bytes enc by simp
      then have "front pending s \<noteq> []" by auto
      then have "1 \<le> unat (bytes_left s)" by (simp add: Suc_le_eq flip: front_length [OF ok])
      then obtain s1 where s1: "pb_read True 1 s = Some (True, [b], s1)" "moved valid pending 1 s s1"
        using pb_read_moves [OF ok, of 1 True] first by auto
      show ?thesis
      proof (cases n rule: uleb128_cases)
        case 1
        then show ?thesis using s1 enc varint_byte [OF 1(1)] by (subst pb_skip_varint.simps) auto
      next
        case 2
        then have bs: "bs = uleb128_encode (n div 128)" "b = of_nat (128 + n mod 128)" using enc by auto
        have cont: "b AND 0x80 \<noteq> 0" unfolding bs(2) by (rule varint_byte(4)) simp
        have less_n: "n div 128 < n" using 2(1) by simp
        have "take (length bs) (front pending s1) = bs"
          using arg_cong [OF bytes, of "drop 1"] by (simp add: moved_front [OF s1(2)] drop_take enc)
        then obtain s2 where "pb_skip_varint s1 = Some (Some (), s2)" "moved valid pending (length bs) s1 s2"
          using less.IH [OF less_n] moved_ok [OF ok s1(2)] unfolding reads_def bs(1) by blast
        then show ?thesis using s1(1) cont moved_trans [OF s1(2)] enc
          by (subst pb_skip_varint.simps) (auto intro!: exI [of _ s2])
      qed
    qed
  qed
qed

lemma reads_skip_string:
  assumes "length bs < 2 ^ 32"
  shows "reads valid pending pb_skip_string (delimited bs) ()"
proof -
  have "unat (ucast (of_nat (length bs) :: u32) :: u64) = length bs" using assms by (simp add: unat_of_nat)
  from reads_then [where f = "\<lambda>len. skip_bytes (ucast len)", OF reads_varint32 [OF assms] reads_skip [OF this]] show ?thesis
    by (simp add: pb_skip_string_def [abs_def] delimited_def)
qed

text \<open>A field in the wire format, with a number of bytes that 32 bits hold, is skipped exactly.\<close>

lemma reads_skip_field:
  assumes "length (wire_body v) < 2 ^ 32"
  shows "reads valid pending (pb_skip_field (of_nat (wire_type v))) (wire_body v) ()"
proof -
  have sub: "length bs < 2 ^ 32" if "wire_body v = delimited bs" for bs
    using assms unfolding that by (simp add: delimited_def)
  show ?thesis
    by (cases v) (use reads_skip_varint reads_skip [of 8] reads_skip [of 4] reads_skip_string [OF sub] in
      \<open>simp_all add: pb_skip_field_def [abs_def]\<close>)
qed

lemma tag_of_word:
  assumes "w < 8" and "t < 2 ^ 29"
  shows "drop_bit 3 (of_nat (8 * t + w) :: u32) = of_nat t" "(of_nat (8 * t + w) :: u32) AND 7 = of_nat w"
proof -
  have n: "unat (of_nat (8 * t + w) :: u32) = 8 * t + w" using assms by (subst unat_of_nat) simp
  have "unat (drop_bit 3 (of_nat (8 * t + w) :: u32)) = t"
    using assms(1) by (simp only: unat_drop_bit_eq n) (simp add: drop_bit_eq_div)
  then show "drop_bit 3 (of_nat (8 * t + w) :: u32) = of_nat t" by (metis of_nat_unat ucast_id)
  have "unat ((of_nat (8 * t + w) :: u32) AND 7) = w"
  proof -
    have "(of_nat (8 * t + w) :: u32) AND 7 = take_bit 3 (of_nat (8 * t + w))" by (simp add: take_bit_eq_mask mask_eq_exp_minus_1)
    moreover have "unat (take_bit 3 (of_nat (8 * t + w) :: u32)) = (8 * t + w) mod 8"
      by (simp only: unsigned_take_bit_eq n) (simp add: take_bit_eq_mod)
    ultimately show ?thesis using assms(1) by (simp only:) simp
  qed
  then show "(of_nat (8 * t + w) :: u32) AND 7 = of_nat w" by (metis of_nat_unat ucast_id)
qed

lemma tag_reads:
  assumes "in_ok valid pending s" and "w < 8" and "t \<noteq> 0" and "unat t < 2 ^ 29"
    and "take (length (uleb128_encode (8 * unat t + w))) (front pending s) = uleb128_encode (8 * unat t + w)"
  shows "\<exists>s'. pb_decode_tag s = Some (Some (t, of_nat w), False, s') \<and>
    moved valid pending (length (uleb128_encode (8 * unat t + w))) s s'"
proof -
  have n: "8 * unat t + w < 2 ^ 32" using assms(2,4) by simp
  obtain s' where s': "pb_decode_varint32_eof s = Some (Some (of_nat (8 * unat t + w)), False, s')"
    "moved valid pending (length (uleb128_encode (8 * unat t + w))) s s'"
    using varint32_eof_reads [OF assms(1,5) n] by blast
  have "unat (of_nat (8 * unat t + w) :: u32) \<noteq> 0"
    using n assms(3) by (subst unat_of_nat) (simp add: unat_eq_0)
  then have "(of_nat (8 * unat t + w) :: u32) \<noteq> 0" by (metis unat_0)
  then show ?thesis using s' tag_of_word [OF assms(2,4)]
    by (intro exI [of _ s']) (simp add: pb_decode_tag_def del: of_nat_add of_nat_mult)
qed

end

section \<open>Readers never go wrong\<close>

text \<open>A reader that, moreover, has taken a byte when it delivers a value.\<close>

definition taking_reader ::
  "('s pb_source \<Rightarrow> bool) \<Rightarrow> ('s pb_source \<Rightarrow> u8 list) \<Rightarrow> ('s pb_istream \<Rightarrow> ('a option \<times> 's pb_istream) option) \<Rightarrow> bool" where
  "taking_reader valid pending r \<longleftrightarrow> (\<forall>s. in_ok valid pending s \<longrightarrow> (\<exists>v s'. r s = Some (v, s') \<and> later valid pending s s' \<and>
     (v \<noteq> None \<longrightarrow> unat (bytes_left s') < unat (bytes_left s))))"

context byte_source
begin

lemma taking_safe: "taking_reader valid pending r \<Longrightarrow> safe_reader valid pending r"
  unfolding taking_reader_def safe_reader_def by blast

lemma safe_readerE:
  assumes "safe_reader valid pending r" and "in_ok valid pending s"
  obtains v s' where "r s = Some (v, s')" "later valid pending s s'" "in_ok valid pending s'"
  using assms later_ok unfolding safe_reader_def by blast

lemma taking_readerE:
  assumes "taking_reader valid pending r" and "in_ok valid pending s"
  obtains v s' where "r s = Some (v, s')" "later valid pending s s'" "in_ok valid pending s'"
    "v \<noteq> None \<Longrightarrow> unat (bytes_left s') < unat (bytes_left s)"
  using assms later_ok unfolding taking_reader_def by blast

lemma later_shrinks: "later valid pending s s' \<Longrightarrow> unat (bytes_left s') \<le> unat (bytes_left s)"
  by (auto simp: later_def moved_def)

lemma readbyte_taking: "taking_reader valid pending pb_readbyte"
  using readbyte_safe readbyte_decreases unfolding taking_reader_def safe_reader_def by fastforce

lemma safe_then:
  assumes "safe_reader valid pending r" and "\<And>v. safe_reader valid pending (f v)"
  shows "safe_reader valid pending (\<lambda>s. read_then (r s) f)"
  unfolding safe_reader_def
proof (intro allI impI)
  fix s assume "in_ok valid pending s"
  with assms(1) obtain v s1 where s1: "r s = Some (v, s1)" "later valid pending s s1" "in_ok valid pending s1"
    by (rule safe_readerE)
  show "\<exists>v s'. read_then (r s) f = Some (v, s') \<and> later valid pending s s'"
  proof (cases v)
    case None
    then show ?thesis using s1 by (simp add: read_then_def)
  next
    case (Some x)
    obtain w s2 where "f x s1 = Some (w, s2)" "later valid pending s1 s2" using assms(2) s1(3) by (rule safe_readerE)
    then show ?thesis using Some s1 later_trans by (auto simp: read_then_def)
  qed
qed

lemma varint64_loop_taking: "taking_reader valid pending (varint64_loop p a)"
  unfolding taking_reader_def
proof (intro allI impI)
  fix s assume "in_ok valid pending s"
  then show "\<exists>v s'. varint64_loop p a s = Some (v, s') \<and> later valid pending s s' \<and>
     (v \<noteq> None \<longrightarrow> unat (bytes_left s') < unat (bytes_left s))"
  proof (induction "unat (bytes_left s)" arbitrary: p a s rule: less_induct)
    case less
    show ?case
    proof (cases "64 \<le> p")
      case True
      then show ?thesis using later_refl [OF less.prems] by (subst varint64_loop.simps) (auto simp: later_error)
    next
      case False
      obtain v s1 where s1: "pb_readbyte s = Some (v, s1)" "later valid pending s s1" "in_ok valid pending s1"
        "v \<noteq> None \<Longrightarrow> unat (bytes_left s1) < unat (bytes_left s)"
        using readbyte_taking less.prems by (rule taking_readerE) blast
      show ?thesis
      proof (cases v)
        case None
        then show ?thesis using s1 False by (subst varint64_loop.simps) auto
      next
        case (Some b)
        note fewer = s1(4) [unfolded Some, simplified]
        let ?a = "a OR push_bit (unat p) (ucast (b AND 0x7F))"
        obtain w s2 where s2: "varint64_loop (p + 7) ?a s1 = Some (w, s2)" "later valid pending s1 s2"
          using less.hyps [OF fewer s1(3)] by blast
        have "unat (bytes_left s2) < unat (bytes_left s)" using later_shrinks [OF s2(2)] fewer by simp
        then show ?thesis using s1 s2 Some False fewer later_trans [OF s1(2) s2(2)]
          by (subst varint64_loop.simps) (simp add: Let_def)
      qed
    qed
  qed
qed

lemma varint32_loop_taking: "taking_reader valid pending (varint32_loop p a)"
  unfolding taking_reader_def
proof (intro allI impI)
  fix s assume "in_ok valid pending s"
  then show "\<exists>v s'. varint32_loop p a s = Some (v, s') \<and> later valid pending s s' \<and>
     (v \<noteq> None \<longrightarrow> unat (bytes_left s') < unat (bytes_left s))"
  proof (induction "unat (bytes_left s)" arbitrary: p a s rule: less_induct)
    case less
    obtain v s1 where s1: "pb_readbyte s = Some (v, s1)" "later valid pending s s1" "in_ok valid pending s1"
      "v \<noteq> None \<Longrightarrow> unat (bytes_left s1) < unat (bytes_left s)"
      using readbyte_taking less.prems by (rule taking_readerE) blast
    show ?case
    proof (cases v)
      case None
      then show ?thesis using s1 by (subst varint32_loop.simps) auto
    next
      case (Some b)
      note fewer = s1(4) [unfolded Some, simplified]
      let ?a = "if 32 \<le> p then a else a OR push_bit (unat p) (ucast (b AND 0x7F))"
      obtain w s2 where s2: "varint32_loop (p + 7) ?a s1 = Some (w, s2)" "later valid pending s1 s2"
        using less.hyps [OF fewer s1(3)] by blast
      have "unat (bytes_left s2) < unat (bytes_left s)" using later_shrinks [OF s2(2)] fewer by simp
      have "varint32_loop p a s =
          (if 32 \<le> p \<and> b AND 0x7F \<noteq> 0 \<and> (drop_bit 31 a = 0 \<or> b \<noteq> (if p < 63 then 0xFF else 0x01))
           then Some (None, in_error ''varint overflow'' s1)
           else if b AND 0x80 \<noteq> 0 then Some (w, s2) else Some (Some (?a, p + 7, b), s1))"
        using s1(1) Some s2(1) by (subst varint32_loop.simps) (simp only: option.case prod.case Let_def)
      then show ?thesis using s1(2) s2 fewer \<open>unat (bytes_left s2) < unat (bytes_left s)\<close> later_trans [OF s1(2) s2(2)]
        by (simp only:) (auto simp: later_error)
    qed
  qed
qed

lemma varint32_eof_taking:
  assumes "in_ok valid pending s"
  shows "\<exists>v eof s'. pb_decode_varint32_eof s = Some (v, eof, s') \<and> later valid pending s s' \<and>
    (v \<noteq> None \<longrightarrow> unat (bytes_left s') < unat (bytes_left s))"
proof -
  obtain v s1 where s1: "pb_readbyte s = Some (v, s1)" "later valid pending s s1" "in_ok valid pending s1"
    "v \<noteq> None \<Longrightarrow> unat (bytes_left s1) < unat (bytes_left s)"
    using readbyte_taking assms by (rule taking_readerE) blast
  show ?thesis
  proof (cases v)
    case None
    then show ?thesis using s1 by (simp add: pb_decode_varint32_eof_def)
  next
    case (Some b)
    note fewer = s1(4) [unfolded Some, simplified]
    obtain w s2 where s2: "varint32_loop 7 (ucast (b AND 0x7F)) s1 = Some (w, s2)" "later valid pending s1 s2"
      using varint32_loop_taking s1(3) by (rule taking_readerE) blast
    have "unat (bytes_left s2) < unat (bytes_left s)" using later_shrinks [OF s2(2)] fewer by simp
    then show ?thesis using s1 s2 Some fewer later_trans [OF s1(2) s2(2)]
      by (cases w) (auto simp: pb_decode_varint32_eof_def later_error split: prod.split)
  qed
qed

lemma varint32_taking: "taking_reader valid pending pb_decode_varint32"
  using varint32_eof_taking unfolding taking_reader_def pb_decode_varint32_def by fastforce

lemma varint_taking: "taking_reader valid pending pb_decode_varint"
  unfolding pb_decode_varint_def by (rule varint64_loop_taking)

lemma svarint_taking: "taking_reader valid pending pb_decode_svarint"
  unfolding taking_reader_def
proof (intro allI impI)
  fix s assume "in_ok valid pending s"
  with varint_taking obtain v s1 where "pb_decode_varint s = Some (v, s1)" "later valid pending s s1"
    "v \<noteq> None \<Longrightarrow> unat (bytes_left s1) < unat (bytes_left s)" by (rule taking_readerE) blast
  then show "\<exists>v s'. pb_decode_svarint s = Some (v, s') \<and> later valid pending s s' \<and>
     (v \<noteq> None \<longrightarrow> unat (bytes_left s') < unat (bytes_left s))"
    by (cases v) (simp_all add: pb_decode_svarint_def read_then_def)
qed

lemma tag_taking:
  assumes "in_ok valid pending s"
  shows "\<exists>v eof s'. pb_decode_tag s = Some (v, eof, s') \<and> later valid pending s s' \<and>
    (v \<noteq> None \<longrightarrow> unat (bytes_left s') < unat (bytes_left s))"
  using varint32_eof_taking [OF assms] by (auto simp: pb_decode_tag_def split: option.split)

lemma skip_bytes_safe: "safe_reader valid pending (skip_bytes count)"
  unfolding safe_reader_def
proof (intro allI impI)
  fix s assume "in_ok valid pending s"
  from pb_read_moves [OF this, of count False] show "\<exists>v s'. skip_bytes count s = Some (v, s') \<and> later valid pending s s'"
    using moved_later by (fastforce simp: skip_bytes_def split: if_splits)
qed

lemma read_byte_cases:
  assumes "in_ok valid pending s"
  obtains b s' where "pb_read True 1 s = Some (True, [b], s')" "later valid pending s s'" "in_ok valid pending s'"
      "unat (bytes_left s') < unat (bytes_left s)"
    | s' where "pb_read True 1 s = Some (False, [], s')" "later valid pending s s'"
proof (cases "1 \<le> unat (bytes_left s)")
  case True
  obtain s' where s': "pb_read True 1 s = Some (True, take 1 (front pending s), s')" "moved valid pending 1 s s'"
    using pb_read_moves [OF assms, of 1 True] True by auto
  have "front pending s \<noteq> []" using True front_length [OF assms] by auto
  then obtain b where "take 1 (front pending s) = [b]" by (cases "front pending s") auto
  then show thesis using that(1) [of b s'] s' moved_later moved_ok [OF assms] True by (auto simp: moved_def)
next
  case False
  then show thesis using that(2) pb_read_moves [OF assms, of 1 True] by auto
qed

lemma skip_varint_safe: "safe_reader valid pending pb_skip_varint"
  unfolding safe_reader_def
proof (intro allI impI)
  fix s assume "in_ok valid pending s"
  then show "\<exists>v s'. pb_skip_varint s = Some (v, s') \<and> later valid pending s s'"
  proof (induction "unat (bytes_left s)" arbitrary: s rule: less_induct)
    case less
    show ?case
    using less.prems
    proof (cases rule: read_byte_cases)
      case (1 b s1)
      then show ?thesis using less.hyps [OF 1(4,3)] later_trans [OF 1(2)]
        by (subst pb_skip_varint.simps) (cases "b AND 0x80 = 0"; auto)
    next
      case (2 s1)
      then show ?thesis by (subst pb_skip_varint.simps) simp
    qed
  qed
qed

lemma skip_string_safe: "safe_reader valid pending pb_skip_string"
  unfolding pb_skip_string_def [abs_def]
  by (rule safe_then [OF taking_safe [OF varint32_taking] skip_bytes_safe])

lemma skip_field_safe: "safe_reader valid pending (pb_skip_field w)"
  unfolding pb_skip_field_def [abs_def]
  using skip_varint_safe skip_bytes_safe skip_string_safe later_refl
  by (auto simp: safe_reader_def later_error)

lemma raw_varint_loop_safe: "in_ok valid pending s \<Longrightarrow> \<exists>v s'. raw_varint_loop n buf s = Some (v, s') \<and> later valid pending s s' \<and>
    (\<forall>bs. v = Some bs \<longrightarrow> length bs \<le> length buf + n)"
proof (induction n arbitrary: buf s)
  case 0
  then show ?case by (simp add: later_refl)
next
  case (Suc n)
  show ?case
    using Suc.prems
  proof (cases rule: read_byte_cases)
    case (1 b s1)
    obtain v s2 where "raw_varint_loop n (buf @ [b]) s1 = Some (v, s2)" "later valid pending s1 s2"
      "\<forall>bs. v = Some bs \<longrightarrow> length bs \<le> length (buf @ [b]) + n" using Suc.IH [OF 1(3)] by blast
    then show ?thesis using 1 later_trans [OF 1(2)] by auto
  next
    case (2 s1)
    then show ?thesis by simp
  qed
qed

end

section \<open>Substreams\<close>

text \<open>
  What is left of a stream after a failure: it may have given bytes to a substream that was never
  closed, so its source is ahead of its limit, but never behind it.
\<close>

definition weaker :: "('s pb_source \<Rightarrow> bool) \<Rightarrow> ('s pb_source \<Rightarrow> u8 list) \<Rightarrow> 's pb_istream \<Rightarrow> 's pb_istream \<Rightarrow> bool" where
  "weaker valid pending s s' \<longleftrightarrow> valid (in_source s') \<and> unat (bytes_left s') \<le> unat (bytes_left s) \<and>
     length (pending (in_source s)) + unat (bytes_left s') \<le> length (pending (in_source s')) + unat (bytes_left s)"

context byte_source
begin

lemma weaker_ok: "in_ok valid pending s \<Longrightarrow> weaker valid pending s s' \<Longrightarrow> in_ok valid pending s'"
  by (auto simp: in_ok_def weaker_def)

lemma weaker_trans: "weaker valid pending s s' \<Longrightarrow> weaker valid pending s' s'' \<Longrightarrow> weaker valid pending s s''"
  by (auto simp: weaker_def)

lemma later_weaker: "in_ok valid pending s \<Longrightarrow> later valid pending s s' \<Longrightarrow> weaker valid pending s s'"
  by (auto simp: later_def moved_def weaker_def in_ok_def)

lemma weaker_refl: "in_ok valid pending s \<Longrightarrow> weaker valid pending s s"
  by (simp add: weaker_def in_ok_def)

lemma weaker_error [simp]: "weaker valid pending s (in_error msg s') \<longleftrightarrow> weaker valid pending s s'"
  by (simp add: weaker_def)

lemma weaker_shrinks: "weaker valid pending s s' \<Longrightarrow> unat (bytes_left s') \<le> unat (bytes_left s)"
  by (simp add: weaker_def)

text \<open>A substream is the front of the stream \<open>s1\<close> after the length; closing it leaves \<open>s1\<close> behind that.\<close>

lemma make_substream_safe:
  assumes "in_ok valid pending s"
  obtains s' where "pb_make_string_substream s = Some (None, s')" "later valid pending s s'"
  | s1 sz where "pb_make_string_substream s = Some (Some (s1\<lparr>bytes_left := sz\<rparr>), s1\<lparr>bytes_left := bytes_left s1 - sz\<rparr>)"
      "later valid pending s s1" "unat (bytes_left s1) < unat (bytes_left s)" "unat sz \<le> unat (bytes_left s1)" "in_ok valid pending s1"
proof -
  obtain v s1 where s1: "pb_decode_varint32 s = Some (v, s1)" "later valid pending s s1" "in_ok valid pending s1"
    "v \<noteq> None \<Longrightarrow> unat (bytes_left s1) < unat (bytes_left s)"
    using varint32_taking assms by (rule taking_readerE) blast
  show thesis
  proof (cases v)
    case None
    then show thesis using that(1) s1 by (simp add: pb_make_string_substream_def read_then_def)
  next
    case (Some sz)
    show thesis
    proof (cases "bytes_left s1 < ucast sz")
      case True
      then show thesis using that(1) [of "in_error ''parent stream too short'' s1"] s1 Some
        by (simp add: pb_make_string_substream_def read_then_def later_error)
    next
      case False
      then show thesis using that(2) [of "ucast sz" s1] s1 Some
        by (simp add: pb_make_string_substream_def read_then_def word_less_nat_alt)
    qed
  qed
qed

lemma substream_ok:
  assumes "in_ok valid pending s1" and "unat sz \<le> unat (bytes_left s1)"
  shows "in_ok valid pending (s1\<lparr>bytes_left := sz\<rparr>)" "weaker valid pending s1 (s1\<lparr>bytes_left := bytes_left s1 - sz\<rparr>)"
  using assms by (auto simp: in_ok_def weaker_def unat_sub word_le_nat_alt)

lemma close_substream:
  assumes "in_ok valid pending s1" and "unat sz \<le> unat (bytes_left s1)" and "weaker valid pending (s1\<lparr>bytes_left := sz\<rparr>) sub"
  shows "\<exists>s2. pb_close_string_substream (s1\<lparr>bytes_left := bytes_left s1 - sz\<rparr>) sub = Some (Some (), s2) \<and>
    weaker valid pending s1 s2 \<and> (later valid pending (s1\<lparr>bytes_left := sz\<rparr>) sub \<longrightarrow> moved valid pending (unat sz) s1 s2)"
proof -
  let ?s = "s1\<lparr>bytes_left := bytes_left s1 - sz\<rparr>"
  have rest: "unat (bytes_left s1 - sz) = unat (bytes_left s1) - unat sz" using assms(2) by (simp add: unat_sub word_le_nat_alt)
  have sub_ok: "in_ok valid pending sub" using weaker_ok [OF substream_ok(1) [OF assms(1,2)] assms(3)] .
  then obtain sub' where sub': "pb_read False (bytes_left sub) sub = Some (True, [], sub')" "moved valid pending (unat (bytes_left sub)) sub sub'"
    using pb_read_moves [OF sub_ok, of "bytes_left sub" False] by auto
  have none: "moved valid pending 0 sub sub" using sub_ok by (auto simp: moved_def in_ok_def)
  define last_sub where "last_sub = (if bytes_left sub \<noteq> 0 then sub' else sub)"
  have moved_last: "moved valid pending (unat (bytes_left sub)) sub last_sub" using sub'(2) none by (auto simp: last_sub_def)
  have close: "pb_close_string_substream ?s sub = Some (Some (), ?s\<lparr>in_source := in_source last_sub, in_errmsg := in_errmsg last_sub\<rparr>)"
    using sub'(1) by (simp add: pb_close_string_substream_def skip_bytes_def last_sub_def)
  have "weaker valid pending s1 (?s\<lparr>in_source := in_source last_sub, in_errmsg := in_errmsg last_sub\<rparr>)"
    using moved_last assms sub_ok by (auto simp: weaker_def moved_def in_ok_def rest)
  moreover have "moved valid pending (unat sz) s1 (?s\<lparr>in_source := in_source last_sub, in_errmsg := in_errmsg last_sub\<rparr>)"
    if "later valid pending (s1\<lparr>bytes_left := sz\<rparr>) sub"
    using that moved_last assms(2) by (auto simp: later_def moved_def rest)
  ultimately show ?thesis using close by blast
qed

lemma moved_later_trans: "later valid pending s s1 \<Longrightarrow> moved valid pending k s1 s2 \<Longrightarrow> later valid pending s s2"
  using later_trans moved_later by blast

text \<open>Signed numbers undo the numbering of the encoder.\<close>

lemma reads_svarint: "reads valid pending pb_decode_svarint (uleb128_encode (unat v)) (if v AND 1 \<noteq> 0 then NOT (drop_bit 1 v) else drop_bit 1 v)"
  using reads_varint [of v] unfolding reads_def pb_decode_svarint_def read_then_def by fastforce

end

text \<open>A buffer is such a source.\<close>

definition buffer_bytes :: "'s pb_source \<Rightarrow> u8 list" where
  "buffer_bytes src = (case src of From_buffer bs \<Rightarrow> bs | _ \<Rightarrow> [])"

interpretation buffer_source: byte_source is_buffer buffer_bytes
  by unfold_locales (auto simp: is_buffer_def buffer_bytes_def call_source_def buf_read_def split: pb_source.splits)

lemma from_buffer_ready:
  "unat n \<le> length buf \<Longrightarrow> in_ok is_buffer buffer_bytes (pb_istream_from_buffer buf n) \<and>
     front buffer_bytes (pb_istream_from_buffer buf n) = take (unat n) buf"
  by (simp add: in_ok_def front_def pb_istream_from_buffer_def is_buffer_def buffer_bytes_def)

end
