(* ===== verification/Pb_Defaults.thy ===== *)
theory Pb_Defaults
  imports Pb_Istream
begin

text \<open>
  The part of pb_decode.c of nanopb, with \<open>PB_ENABLE_MALLOC\<close>, that works on the memory of a message
  alone: setting it to its default values and releasing what it owns; and the parameters of the
  decoder. Mutual recursion through submessages and extensions is on the depth of the nesting, as in
  the encoder.
\<close>

section \<open>Memory and parameters\<close>

type_synonym memory = "u64 \<Rightarrow> u8 option"

type_synonym 's pb_decoder = "'s pb_istream \<Rightarrow> memory \<Rightarrow> (bool \<times> 's pb_istream \<times> memory) loop_result"

definition memory_env :: "memory \<Rightarrow> cls_env" where
  "memory_env m = \<lparr>mem = m, vm_read = (\<lambda>_ _. None)\<rparr>"

definition peek :: "memory \<Rightarrow> u64 \<Rightarrow> nat \<Rightarrow> 'a::len word loop_result" where
  "peek m a n = from_option (read_word (memory_env m) a n)"

text \<open>Writing faults at an address that is not mapped.\<close>

primrec poke :: "memory \<Rightarrow> u64 \<Rightarrow> u8 list \<Rightarrow> memory option" where
  "poke m a [] = Some m"
| "poke m a (b # bs) = (if m a = None then None else poke (m(a \<mapsto> b)) (a + 1) bs)"

definition put :: "memory \<Rightarrow> u64 \<Rightarrow> nat \<Rightarrow> 'a::len word \<Rightarrow> memory option" where
  "put m a n w = poke m a (le_bytes n (unat w))"

definition memset_zero :: "memory \<Rightarrow> u64 \<Rightarrow> nat \<Rightarrow> memory option" where
  "memset_zero m a n = poke m a (replicate n 0)"

text \<open>
  The descriptor tables by their address, the callback functions of fields and extensions, the
  allocator of the C library, and the address of the local variable \<open>fixed_count_size\<close> in the
  activation of \<open>pb_decode_noinit\<close> with a given depth left. \<open>callback_rounds\<close> bounds how often the
  callback of a field is called for one value.
\<close>

record 's pb_receiver =
  dec_tables :: "u64 \<Rightarrow> pb_field_t list"
  field_decoder :: "u64 \<Rightarrow> pb_field_t \<Rightarrow> u64 \<Rightarrow> 's pb_decoder"
  extension_decoder :: "u64 \<Rightarrow> u64 \<Rightarrow> u32 \<Rightarrow> u32 \<Rightarrow> 's pb_decoder"
  pb_realloc :: "memory \<Rightarrow> u64 \<Rightarrow> u64 \<Rightarrow> (u64 \<times> memory) option"
  pb_free :: "memory \<Rightarrow> u64 \<Rightarrow> memory option"
  count_local :: "nat \<Rightarrow> u64"
  callback_rounds :: nat

definition dec_error :: "string \<Rightarrow> 's pb_decoder" where
  "dec_error msg s m = Returned (False, in_error msg s, m)"

definition dec_then :: "(bool \<times> 's pb_istream \<times> memory) loop_result \<Rightarrow> 's pb_decoder \<Rightarrow>
    (bool \<times> 's pb_istream \<times> memory) loop_result" where
  "dec_then r f = bind_result r (\<lambda>(ok, s, m). if ok then f s m else Returned (False, s, m))"

definition with_value ::
  "('a option \<times> 's pb_istream) option \<Rightarrow> memory \<Rightarrow> ('a \<Rightarrow> 's pb_decoder) \<Rightarrow> (bool \<times> 's pb_istream \<times> memory) loop_result" where
  "with_value r m f = bind_result (from_option r) (\<lambda>(v, s).
     case v of None \<Rightarrow> Returned (False, s, m) | Some x \<Rightarrow> f x s m)"

definition written :: "memory option \<Rightarrow> 's pb_istream \<Rightarrow> (bool \<times> 's pb_istream \<times> memory) loop_result" where
  "written r s = bind_result (from_option r) (\<lambda>m. Returned (True, s, m))"

section \<open>Default values\<close>

definition iter_from_extension :: "'s pb_receiver \<Rightarrow> u64 \<Rightarrow> memory \<Rightarrow> pb_field_iter_t loop_result" where
  "iter_from_extension R ext m =
    bind_result (peek m ext 8) (\<lambda>ext_type :: u64.
    bind_result (peek m (ext_type + 16) 8) (\<lambda>arg :: u64.
      (case dec_tables R arg of
         [] \<Rightarrow> Faulted
       | field # fs \<Rightarrow>
          bind_result (peek m (ext + 8) 8) (\<lambda>dest.
            let it = (snd (pb_field_iter_begin (field # fs) dest))\<lparr>pData := dest, pSize := ext + 24\<rparr> in
            Returned (if PB_ATYPE (pb_type field) = PB_ATYPE_POINTER then it\<lparr>pData := ext + 8\<rparr> else it)))))"

text \<open>The loop over the extensions, whose list may be circular, takes the first argument as fuel.\<close>

primrec extensions_default ::
  "nat \<Rightarrow> (pb_field_iter_t \<Rightarrow> memory \<Rightarrow> memory loop_result) \<Rightarrow> 's pb_receiver \<Rightarrow> u64 \<Rightarrow> memory \<Rightarrow> memory loop_result" where
  "extensions_default 0 set_field R ext m = (if ext \<noteq> 0 then Out_of_fuel else Returned m)"
| "extensions_default (Suc k) set_field R ext m =
    (if ext \<noteq> 0 then
       bind_result (from_option (poke m (ext + 24) [0])) (\<lambda>m.
       bind_result (iter_from_extension R ext m) (\<lambda>it.
       bind_result (set_field it m) (\<lambda>m.
       bind_result (peek m (ext + 16) 8) (\<lambda>rest. extensions_default k set_field R rest m))))
     else Returned m)"

text \<open>The \<open>do\<close> loop over the fields of a message, of the defaults and of releasing.\<close>

function each_field ::
  "(pb_field_iter_t \<Rightarrow> memory \<Rightarrow> memory loop_result) \<Rightarrow> pb_field_iter_t \<Rightarrow> memory \<Rightarrow> memory loop_result" where
  "each_field set_field it m =
    bind_result (set_field it m) (\<lambda>m.
      case pb_field_iter_next it of (again, it') \<Rightarrow> if again then each_field set_field it' m else Returned m)"
  by auto

termination each_field
  by (relation "measure (\<lambda>(set_field, it, m). length (it_start it) - it_pos it)") (auto dest: next_more_decreases)

declare each_field.simps [simp del]

text \<open>\<open>pb_message_set_to_defaults\<close>, given \<open>pb_field_set_to_default\<close>.\<close>

definition message_defaults ::
  "(pb_field_iter_t \<Rightarrow> memory \<Rightarrow> memory loop_result) \<Rightarrow> pb_field_t list \<Rightarrow> u64 \<Rightarrow> memory \<Rightarrow> memory loop_result" where
  "message_defaults set_field tbl dest m =
    (case pb_field_iter_begin tbl dest of (again, it) \<Rightarrow> if \<not> again then Returned m else each_field set_field it m)"

primrec pb_field_set_to_default :: "nat \<Rightarrow> 's pb_receiver \<Rightarrow> pb_field_iter_t \<Rightarrow> memory \<Rightarrow> memory loop_result" where
  "pb_field_set_to_default 0 R it m = Out_of_fuel"
| "pb_field_set_to_default (Suc n) R it m =
    (let field = it_field it; t = pb_type field in
     if PB_LTYPE t = PB_LTYPE_EXTENSION
     then bind_result (peek m (pData it) 8) (\<lambda>ext. extensions_default n (pb_field_set_to_default n R) R ext m)
     else if PB_ATYPE t = PB_ATYPE_STATIC then
       bind_result
         (if PB_HTYPE t = PB_HTYPE_OPTIONAL \<and> pSize it \<noteq> pData it
          then bind_result (from_option (poke m (pSize it) [0])) (\<lambda>m. Returned (True, m))
          else if PB_HTYPE t = PB_HTYPE_REPEATED \<or> PB_HTYPE t = PB_HTYPE_ONEOF
          then bind_result (from_option (put m (pSize it) 4 (0 :: u32))) (\<lambda>m. Returned (False, m))
          else Returned (True, m)) (\<lambda>(init_data, m).
         if init_data then
           (if PB_LTYPE t = PB_LTYPE_SUBMESSAGE
            then message_defaults (pb_field_set_to_default n R) (dec_tables R (pb_ptr field)) (pData it) m
            else if pb_ptr field \<noteq> 0
            then bind_result (from_option (load (memory_env m) (pb_ptr field) (unat (data_size field)))) (\<lambda>bs.
                   from_option (poke m (pData it) bs))
            else from_option (memset_zero m (pData it) (unat (data_size field))))
         else Returned m)
     else if PB_ATYPE t = PB_ATYPE_POINTER then
       bind_result (from_option (put m (pData it) 8 (0 :: u64))) (\<lambda>m.
         if PB_HTYPE t = PB_HTYPE_REPEATED \<or> PB_HTYPE t = PB_HTYPE_ONEOF
         then from_option (put m (pSize it) 4 (0 :: u32)) else Returned m)
     else Returned m)"

definition pb_message_set_to_defaults ::
  "nat \<Rightarrow> 's pb_receiver \<Rightarrow> pb_field_t list \<Rightarrow> u64 \<Rightarrow> memory \<Rightarrow> memory loop_result" where
  "pb_message_set_to_defaults n R = message_defaults (pb_field_set_to_default n R)"

section \<open>Releasing\<close>

primrec extensions_release ::
  "nat \<Rightarrow> (pb_field_iter_t \<Rightarrow> memory \<Rightarrow> memory loop_result) \<Rightarrow> 's pb_receiver \<Rightarrow> u64 \<Rightarrow> memory \<Rightarrow> memory loop_result" where
  "extensions_release 0 release_field R ext m = (if ext \<noteq> 0 then Out_of_fuel else Returned m)"
| "extensions_release (Suc k) release_field R ext m =
    (if ext \<noteq> 0 then
       bind_result (iter_from_extension R ext m) (\<lambda>it.
       bind_result (release_field it m) (\<lambda>m.
       bind_result (peek m (ext + 16) 8) (\<lambda>rest. extensions_release k release_field R rest m)))
     else Returned m)"

text \<open>\<open>pb_release\<close>, given \<open>pb_release_single_field\<close>.\<close>

definition message_release ::
  "(pb_field_iter_t \<Rightarrow> memory \<Rightarrow> memory loop_result) \<Rightarrow> pb_field_t list \<Rightarrow> u64 \<Rightarrow> memory \<Rightarrow> memory loop_result" where
  "message_release release_field tbl dest m =
    (if dest = 0 then Returned m
     else case pb_field_iter_begin tbl dest of (again, it) \<Rightarrow>
       if \<not> again then Returned m else each_field release_field it m)"

text \<open>The loops over the entries of an array: of submessages, and of pointers.\<close>

primrec items_release :: "(u64 \<Rightarrow> memory \<Rightarrow> memory loop_result) \<Rightarrow> u64 \<Rightarrow> nat \<Rightarrow> u64 \<Rightarrow> memory \<Rightarrow> memory loop_result" where
  "items_release release_item sz 0 item m = Returned m"
| "items_release release_item sz (Suc count) item m =
    bind_result (release_item item m) (\<lambda>m. items_release release_item sz count (item + sz) m)"

definition free_pointer :: "'s pb_receiver \<Rightarrow> u64 \<Rightarrow> memory \<Rightarrow> memory loop_result" where
  "free_pointer R item m =
    bind_result (peek m item 8) (\<lambda>p :: u64.
    bind_result (from_option (pb_free R m p)) (\<lambda>m. from_option (put m item 8 (0 :: u64))))"

primrec pb_release_single_field :: "nat \<Rightarrow> 's pb_receiver \<Rightarrow> pb_field_iter_t \<Rightarrow> memory \<Rightarrow> memory loop_result" where
  "pb_release_single_field 0 R it m = Out_of_fuel"
| "pb_release_single_field (Suc n) R it m =
    (let field = it_field it; t = pb_type field in
     bind_result
       (if PB_HTYPE t = PB_HTYPE_ONEOF
        then bind_result (peek m (pSize it) 4) (\<lambda>which :: u32. Returned (which = pb_tag field))
        else Returned True) (\<lambda>is_current.
     if \<not> is_current then Returned m else
     bind_result
       (if PB_LTYPE t = PB_LTYPE_EXTENSION
        then bind_result (peek m (pData it) 8) (\<lambda>ext. extensions_release n (pb_release_single_field n R) R ext m)
        else if PB_LTYPE t = PB_LTYPE_SUBMESSAGE \<and> PB_ATYPE t \<noteq> PB_ATYPE_CALLBACK then
          bind_result (if PB_ATYPE t = PB_ATYPE_POINTER then peek m (pData it) 8 else Returned (pData it)) (\<lambda>item.
          bind_result
            (if PB_HTYPE t = PB_HTYPE_REPEATED then
               bind_result (if PB_ATYPE t = PB_ATYPE_STATIC \<and> pSize it = pData it then Returned (array_size field)
                            else peek m (pSize it) 4) (\<lambda>count.
                 Returned (if PB_ATYPE t = PB_ATYPE_STATIC \<and> array_size field < count then array_size field else count))
             else Returned 1) (\<lambda>count.
          if item \<noteq> 0
          then items_release (message_release (pb_release_single_field n R) (dec_tables R (pb_ptr field)))
                 (ucast (data_size field)) (unat count) item m
          else Returned m))
        else Returned m) (\<lambda>m.
     if PB_ATYPE t = PB_ATYPE_POINTER then
       bind_result
         (if PB_HTYPE t = PB_HTYPE_REPEATED \<and> (PB_LTYPE t = PB_LTYPE_STRING \<or> PB_LTYPE t = PB_LTYPE_BYTES)
          then bind_result (peek m (pData it) 8) (\<lambda>item.
               bind_result (peek m (pSize it) 4) (\<lambda>count :: u32. items_release (free_pointer R) 8 (unat count) item m))
          else Returned m) (\<lambda>m.
       bind_result (if PB_HTYPE t = PB_HTYPE_REPEATED then from_option (put m (pSize it) 4 (0 :: u32)) else Returned m)
         (free_pointer R (pData it)))
     else Returned m)))"

definition pb_release :: "nat \<Rightarrow> 's pb_receiver \<Rightarrow> pb_field_t list \<Rightarrow> u64 \<Rightarrow> memory \<Rightarrow> memory loop_result" where
  "pb_release n R = message_release (pb_release_single_field n R)"

text \<open>The iterator is moved to the old field of the union and back.\<close>

definition pb_release_union_field ::
  "nat \<Rightarrow> 's pb_receiver \<Rightarrow> pb_field_iter_t \<Rightarrow> 's pb_istream \<Rightarrow> memory \<Rightarrow>
     (bool \<times> pb_field_iter_t \<times> 's pb_istream \<times> memory) loop_result" where
  "pb_release_union_field n R it s m =
    bind_result (peek m (pSize it) 4) (\<lambda>old_tag :: u32.
    let new_tag = pb_tag (it_field it) in
    if old_tag = 0 \<or> old_tag = new_tag then Returned (True, it, s, m)
    else bind_result (pb_field_iter_find old_tag it) (\<lambda>(found, it).
      if \<not> found then Returned (False, it, in_error ''invalid union tag'' s, m)
      else bind_result (pb_release_single_field n R it m) (\<lambda>m.
        bind_result (pb_field_iter_find new_tag it) (\<lambda>(found, it).
          if \<not> found then Returned (False, it, in_error ''iterator error'' s, m)
          else bind_result (if PB_ATYPE (pb_type (it_field it)) = PB_ATYPE_POINTER
                            then from_option (put m (pData it) 8 (0 :: u64)) else Returned m)
            (\<lambda>m. Returned (True, it, s, m))))))"

end
