(* ===== verification/Pb_Memory_Facts.thy ===== *)
theory Pb_Memory_Facts
  imports Pb_Defaults
begin

text \<open>
  The memory of the decoder: what a write does to it, and the updates that only write inside a region
  and do not fault while a region is mapped.
\<close>

section \<open>Regions\<close>

text \<open>The \<open>n\<close> cells from \<open>a\<close> on, around the end of the address space.\<close>

definition cells :: "u64 \<Rightarrow> nat \<Rightarrow> u64 set" where
  "cells a n = {x. unat (x - a) < n}"

lemma cells_0 [simp]: "cells a 0 = {}"
  by (simp add: cells_def)

lemma unat_minus_Suc: "x \<noteq> a \<Longrightarrow> unat (x - a) = Suc (unat (x - (a + 1)))" for x a :: u64
proof -
  assume "x \<noteq> a"
  then have "x - a \<noteq> 0" by simp
  then have "unat (x - a) = Suc (unat (x - a - 1))" by (simp add: unat_minus_one unat_gt_0)
  then show ?thesis by (simp add: algebra_simps)
qed

lemma cells_Suc: "n < 2 ^ 64 \<Longrightarrow> cells a (Suc n) = insert a (cells (a + 1) n)"
proof (rule set_eqI)
  fix x assume "n < 2 ^ 64"
  show "x \<in> cells a (Suc n) \<longleftrightarrow> x \<in> insert a (cells (a + 1) n)"
    by (cases "x = a") (simp_all add: cells_def unat_minus_Suc)
qed

lemma cells_tail: "cells (a + 1) n \<subseteq> cells a (Suc n)"
proof
  fix x assume "x \<in> cells (a + 1) n"
  then show "x \<in> cells a (Suc n)" by (cases "x = a") (simp_all add: cells_def unat_minus_Suc)
qed

lemma cells_head [simp]: "0 < n \<Longrightarrow> a \<in> cells a n"
  by (simp add: cells_def)

lemma cells_within: "unat k + n \<le> sz \<Longrightarrow> cells (a + k) n \<subseteq> cells a sz"
proof
  fix x assume le: "unat k + n \<le> sz" and "x \<in> cells (a + k) n"
  then have "unat (x - (a + k)) < n" by (simp add: cells_def)
  moreover have "unat ((x - (a + k)) + k) \<le> unat (x - (a + k)) + unat k"
    by (simp only: unat_word_ariths mod_less_eq_dividend)
  then have "unat (x - a) \<le> unat (x - (a + k)) + unat k" by simp
  ultimately show "x \<in> cells a sz" using le by (simp add: cells_def)
qed

lemma cells_mono: "n \<le> n' \<Longrightarrow> cells a n \<subseteq> cells a n'"
  by (auto simp: cells_def)

text \<open>Two parts of a structure, one behind the other.\<close>

lemma unat_sum: "unat (x :: u64) + unat y < 2 ^ 64 \<Longrightarrow> unat (x + y) = unat x + unat y"
  by (simp add: unat_word_ariths)

lemma cells_apart:
  assumes "unat k + n \<le> unat l" and "unat l + n' \<le> 2 ^ 64"
  shows "cells (a + k) n \<inter> cells (a + l) n' = {}"
proof -
  have False if x: "unat (x - (a + k)) < n" "unat (x - (a + l)) < n'" for x
  proof -
    have "unat l < 2 ^ 64" using unsigned_less [of l, where 'a = nat] by simp
    then have "unat (x - (a + k)) + unat k < 2 ^ 64" using x(1) assms(1) by linarith
    note k = unat_sum [OF this]
    have "unat (x - (a + l)) + unat l < 2 ^ 64" using x(2) assms(2) by linarith
    note l = unat_sum [OF this]
    have "x - (a + k) + k = x - (a + l) + l" by simp
    then have "unat (x - (a + k)) + unat k = unat (x - (a + l)) + unat l" using k l by metis
    then show False using x(1) assms(1) by linarith
  qed
  then show ?thesis by (auto simp: cells_def)
qed

section \<open>Writes\<close>

definition overwrite :: "memory \<Rightarrow> u64 \<Rightarrow> u8 list \<Rightarrow> memory" where
  "overwrite m a bs = (\<lambda>x. if unat (x - a) < length bs then Some (bs ! unat (x - a)) else m x)"

lemma poke_overwrite:
  "cells a (length bs) \<subseteq> dom m \<Longrightarrow> length bs \<le> 2 ^ 64 \<Longrightarrow> poke m a bs = Some (overwrite m a bs)"
proof (induction bs arbitrary: m a)
  case Nil
  then show ?case by (simp add: overwrite_def)
next
  case (Cons b bs)
  have small: "length bs < 2 ^ 64" using Cons.prems(2) by simp
  have "a \<in> dom m" using Cons.prems(1) by (rule subsetD) simp
  moreover have "cells (a + 1) (length bs) \<subseteq> dom (m(a \<mapsto> b))"
    using Cons.prems(1) cells_tail [of a "length bs"] by auto
  then have "poke (m(a \<mapsto> b)) (a + 1) bs = Some (overwrite (m(a \<mapsto> b)) (a + 1) bs)"
    by (rule Cons.IH) (use small in simp)
  moreover have "overwrite (m(a \<mapsto> b)) (a + 1) bs = overwrite m a (b # bs)"
  proof
    fix x
    have far: "unat (a - (a + 1)) = 2 ^ 64 - 1" by (simp add: unsigned_minus_1_eq_mask mask_eq_exp_minus_1)
    show "overwrite (m(a \<mapsto> b)) (a + 1) bs x = overwrite m a (b # bs) x"
    proof (cases "x = a")
      case True
      then show ?thesis using far small by (simp add: overwrite_def)
    next
      case False
      then show ?thesis by (simp add: overwrite_def unat_minus_Suc)
    qed
  qed
  ultimately show ?case by auto
qed

lemma load_memory_cong: "(\<And>x. x \<in> cells a n \<Longrightarrow> m x = m' x) \<Longrightarrow> load (memory_env m) a n = load (memory_env m') a n"
proof (induction n arbitrary: a)
  case (Suc n)
  have "m a = m' a" using Suc.prems [of a] by simp
  moreover have "load (memory_env m) (a + 1) n = load (memory_env m') (a + 1) n"
    using Suc.prems cells_tail [of a n] by (intro Suc.IH) auto
  ultimately show ?case by (simp add: memory_env_def)
qed simp

lemma load_mapped: "cells a n \<subseteq> dom m \<Longrightarrow> \<exists>bs. load (memory_env m) a n = Some bs \<and> length bs = n"
proof (induction n arbitrary: a)
  case (Suc n)
  have "a \<in> dom m" using Suc.prems by (rule subsetD) simp
  moreover obtain bs where "load (memory_env m) (a + 1) n = Some bs" "length bs = n"
    using Suc.IH [of "a + 1"] Suc.prems cells_tail [of a n] by auto
  ultimately show ?case by (auto simp: memory_env_def)
qed simp

lemma load_overwrite: "length bs \<le> 2 ^ 64 \<Longrightarrow> n = length bs \<Longrightarrow> load (memory_env (overwrite m a bs)) a n = Some bs"
proof -
  assume small: "length bs \<le> 2 ^ 64" and n: "n = length bs"
  have "load (memory_env (overwrite m a bs)) (a + of_nat k) n = Some (drop k bs)" if "k + n = length bs" for k n
    using that
  proof (induction n arbitrary: k)
    case (Suc n)
    have "unat (of_nat k :: u64) = k" using Suc.prems small by (simp add: unat_of_nat)
    then have "overwrite m a bs (a + of_nat k) = Some (bs ! k)" using Suc.prems by (simp add: overwrite_def)
    moreover have "load (memory_env (overwrite m a bs)) (a + of_nat k + 1) n = Some (drop (Suc k) bs)"
      using Suc.IH [of "Suc k"] Suc.prems by (simp add: algebra_simps)
    ultimately show ?case using Suc.prems by (simp add: memory_env_def Cons_nth_drop_Suc)
  qed simp
  from this [of 0 "length bs"] show ?thesis by (simp add: n)
qed

lemma load_overwrite_apart:
  "cells a n \<inter> cells b (length bs) = {} \<Longrightarrow> load (memory_env (overwrite m b bs)) a n = load (memory_env m) a n"
  by (rule load_memory_cong) (auto simp: overwrite_def cells_def)

section \<open>Safe updates\<close>

text \<open>\<open>A\<close> is mapped and stays so; only cells of \<open>W\<close> change.\<close>

definition changes :: "u64 set \<Rightarrow> memory \<Rightarrow> memory \<Rightarrow> bool" where
  "changes W m m' \<longleftrightarrow> dom m' = dom m \<and> (\<forall>x. x \<notin> W \<longrightarrow> m' x = m x)"

definition safe_update :: "u64 set \<Rightarrow> u64 set \<Rightarrow> (memory \<Rightarrow> memory loop_result) \<Rightarrow> bool" where
  "safe_update A W g \<longleftrightarrow> (\<forall>m. A \<subseteq> dom m \<longrightarrow> (\<exists>m'. g m = Returned m' \<and> changes W m m'))"

lemma changes_refl [simp]: "changes W m m"
  by (simp add: changes_def)

lemma changes_trans: "changes W m m' \<Longrightarrow> changes W m' m'' \<Longrightarrow> changes W m m''"
  by (simp add: changes_def)

lemma changes_mono: "changes W m m' \<Longrightarrow> W \<subseteq> W' \<Longrightarrow> changes W' m m'"
  unfolding changes_def by blast

lemma changes_dom: "changes W m m' \<Longrightarrow> A \<subseteq> dom m \<Longrightarrow> A \<subseteq> dom m'"
  by (simp add: changes_def)

lemma safe_updateE:
  assumes "safe_update A W g" and "A \<subseteq> dom m"
  obtains m' where "g m = Returned m'" "changes W m m'" "A \<subseteq> dom m'"
proof -
  obtain m' where m': "g m = Returned m'" "changes W m m'" using assms unfolding safe_update_def by auto
  show thesis by (rule that [OF m' changes_dom [OF m'(2) assms(2)]])
qed

lemma safe_update_mono: "safe_update A W g \<Longrightarrow> A \<subseteq> A' \<Longrightarrow> W \<subseteq> W' \<Longrightarrow> safe_update A' W' g"
  unfolding safe_update_def
proof (intro allI impI)
  fix m :: memory
  assume g: "\<forall>m. A \<subseteq> dom m \<longrightarrow> (\<exists>m'. g m = Returned m' \<and> changes W m m')" and "A \<subseteq> A'" and W: "W \<subseteq> W'" and "A' \<subseteq> dom m"
  then have "A \<subseteq> dom m" by (simp only: order_trans [of A A' "dom m"])
  then obtain m' where "g m = Returned m'" "changes W m m'" using g by auto
  then show "\<exists>m'. g m = Returned m' \<and> changes W' m m'" using changes_mono [OF _ W] by auto
qed

lemma safe_nothing: "safe_update A W Returned"
  by (simp add: safe_update_def)

lemma safe_update_if:
  "(c \<Longrightarrow> safe_update A W f) \<Longrightarrow> (\<not> c \<Longrightarrow> safe_update A W g) \<Longrightarrow> safe_update A W (\<lambda>m. if c then f m else g m)"
  by (cases c) simp_all

lemma safe_update_bind:
  assumes "safe_update A W f" and "safe_update A W g"
  shows "safe_update A W (\<lambda>m. bind_result (f m) g)"
  unfolding safe_update_def
proof (intro allI impI)
  fix m :: memory assume "A \<subseteq> dom m"
  with assms(1) obtain m1 where m1: "f m = Returned m1" "changes W m m1" "A \<subseteq> dom m1" by (rule safe_updateE)
  obtain m2 where "g m1 = Returned m2" "changes W m1 m2" using assms(2) m1(3) by (rule safe_updateE)
  then show "\<exists>m'. bind_result (f m) g = Returned m' \<and> changes W m m'" using m1 changes_trans by auto
qed

text \<open>Writes and reads inside the region.\<close>

lemma poke_safe:
  assumes "cells a (length bs) \<subseteq> W" and "W \<subseteq> dom m" and "length bs \<le> 2 ^ 64"
  shows "poke m a bs = Some (overwrite m a bs)" "changes W m (overwrite m a bs)"
proof -
  show "poke m a bs = Some (overwrite m a bs)" using assms by (intro poke_overwrite order_trans [OF assms(1,2)])
  show "changes W m (overwrite m a bs)"
    using assms(1,2) by (auto simp: changes_def overwrite_def cells_def dom_def split: if_splits)
qed

lemma safe_poke:
  assumes "cells a (length bs) \<subseteq> W" and "W \<subseteq> A" and "length bs \<le> 2 ^ 64"
  shows "safe_update A W (\<lambda>m. from_option (poke m a bs))"
  unfolding safe_update_def
proof (intro allI impI)
  fix m :: memory assume "A \<subseteq> dom m"
  then have "W \<subseteq> dom m" using assms(2) by blast
  from poke_safe [OF assms(1) this assms(3)] show "\<exists>m'. from_option (poke m a bs) = Returned m' \<and> changes W m m'" by simp
qed

lemma safe_put: "cells a n \<subseteq> W \<Longrightarrow> W \<subseteq> A \<Longrightarrow> n \<le> 8 \<Longrightarrow> safe_update A W (\<lambda>m. from_option (put m a n w))"
  unfolding put_def by (rule safe_poke) simp_all

lemma safe_memset: "cells a n \<subseteq> W \<Longrightarrow> W \<subseteq> A \<Longrightarrow> n \<le> 2 ^ 64 \<Longrightarrow> safe_update A W (\<lambda>m. from_option (memset_zero m a n))"
  unfolding memset_zero_def by (rule safe_poke) simp_all

lemma peek_safe:
  assumes "cells a n \<subseteq> A" and "A \<subseteq> dom m"
  shows "\<exists>w. peek m a n = Returned w"
  using load_mapped [of a n m] assms by (auto simp: peek_def read_word_def)

lemma safe_read:
  fixes g :: "'a::len word \<Rightarrow> memory \<Rightarrow> memory loop_result"
  assumes "cells a n \<subseteq> A" and "\<And>w. safe_update A W (g w)"
  shows "safe_update A W (\<lambda>m. bind_result (peek m a n) (\<lambda>w. g w m))"
  unfolding safe_update_def
proof (intro allI impI)
  fix m :: memory assume A: "A \<subseteq> dom m"
  then obtain w :: "'a word" where "peek m a n = Returned w" using peek_safe [OF assms(1)] by blast
  then show "\<exists>m'. bind_result (peek m a n) (\<lambda>w. g w m) = Returned m' \<and> changes W m m'"
    using assms(2) [of w] A unfolding safe_update_def by simp
qed

end
