(* ===== verification/Pb_Decode.thy ===== *)
theory Pb_Decode
  imports Pb_Defaults
begin

text \<open>
  pb_decode.c of nanopb with \<open>PB_ENABLE_MALLOC\<close>: the decoders of the types, static, pointer and
  callback fields, extensions, and messages. They read from a stream and write to the memory the
  message is decoded to. A submessage is decoded by \<open>pb_decode_noinit\<close> again, which the decoders of
  fields take as their argument.
\<close>

section \<open>Allocation\<close>

definition allocate_field :: "'s pb_receiver \<Rightarrow> u64 \<Rightarrow> u64 \<Rightarrow> u64 \<Rightarrow> 's pb_decoder" where
  "allocate_field R data sz n s m =
    bind_result (peek m data 8) (\<lambda>ptr :: u64.
    if sz = 0 \<or> n = 0 then dec_error ''invalid size'' s m
    else if (0x100000000 \<le> sz \<or> 0x100000000 \<le> n) \<and> (- 1 :: u64) div n < sz then dec_error ''size too large'' s m
    else bind_result (from_option (pb_realloc R m ptr (n * sz))) (\<lambda>(ptr, m).
      if ptr = 0 then dec_error ''realloc failed'' s m else written (put m data 8 ptr) s))"

definition initialize_pointer_field :: "nat \<Rightarrow> 's pb_receiver \<Rightarrow> u64 \<Rightarrow> pb_field_t \<Rightarrow> memory \<Rightarrow> memory loop_result" where
  "initialize_pointer_field n R item field m =
    (if PB_LTYPE (pb_type field) = PB_LTYPE_STRING \<or> PB_LTYPE (pb_type field) = PB_LTYPE_BYTES
     then from_option (put m item 8 (0 :: u64))
     else if PB_LTYPE (pb_type field) = PB_LTYPE_SUBMESSAGE
     then bind_result (from_option (memset_zero m item (unat (data_size field))))
            (pb_message_set_to_defaults n R (dec_tables R (pb_ptr field)) item)
     else Returned m)"

section \<open>Decoders of the types\<close>

text \<open>\<open>pb_read\<close> to an address: what was delivered is in memory also when the status is false.\<close>

definition read_to :: "u64 \<Rightarrow> u64 \<Rightarrow> 's pb_decoder" where
  "read_to dest count s m =
    bind_result (from_option (pb_read True count s)) (\<lambda>(ok, bs, s).
    bind_result (from_option (poke m dest bs)) (\<lambda>m. Returned (ok, s, m)))"

definition pb_decode_fixed32 :: "u64 \<Rightarrow> 's pb_decoder" where
  "pb_decode_fixed32 dest s m =
    bind_result (from_option (pb_read True 4 s)) (\<lambda>(ok, bs, s).
    if \<not> ok then Returned (False, s, m)
    else (case bs of
       [b0, b1, b2, b3] \<Rightarrow>
         written (put m dest 4 (ucast b0 OR push_bit 8 (ucast b1) OR push_bit 16 (ucast b2) OR push_bit 24 (ucast b3) :: u32)) s
     | _ \<Rightarrow> Faulted))"

definition pb_decode_fixed64 :: "u64 \<Rightarrow> 's pb_decoder" where
  "pb_decode_fixed64 dest s m =
    bind_result (from_option (pb_read True 8 s)) (\<lambda>(ok, bs, s).
    if \<not> ok then Returned (False, s, m)
    else (case bs of
       [b0, b1, b2, b3, b4, b5, b6, b7] \<Rightarrow>
         written (put m dest 8 (ucast b0 OR push_bit 8 (ucast b1) OR push_bit 16 (ucast b2) OR push_bit 24 (ucast b3) OR
           push_bit 32 (ucast b4) OR push_bit 40 (ucast b5) OR push_bit 48 (ucast b6) OR push_bit 56 (ucast b7) :: u64)) s
     | _ \<Rightarrow> Faulted))"

definition pb_dec_bool :: "u64 \<Rightarrow> 's pb_decoder" where
  "pb_dec_bool dest s m = with_value (pb_decode_varint32 s) m (\<lambda>value s m.
     written (poke m dest [if value \<noteq> 0 then 1 else 0]) s)"

definition pb_decode_bool :: "u64 \<Rightarrow> 's pb_decoder" where
  "pb_decode_bool dest = pb_dec_bool dest"

text \<open>
  The assignments that cast a value to the size of the field, and the value as it is then; \<open>None\<close> is a
  size that is rejected.
\<close>

definition put_signed :: "u32 \<Rightarrow> memory \<Rightarrow> u64 \<Rightarrow> u64 \<Rightarrow> (memory option \<times> u64) option" where
  "put_signed sz m dest v =
    (if sz = 8 then Some (put m dest 8 v, v)
     else if sz = 4 then Some (put m dest 4 (ucast v :: u32), scast (ucast v :: u32))
     else if sz = 2 then Some (put m dest 2 (ucast v :: u16), scast (ucast v :: u16))
     else if sz = 1 then Some (put m dest 1 (ucast v :: u8), scast (ucast v :: u8))
     else None)"

definition put_unsigned :: "u32 \<Rightarrow> memory \<Rightarrow> u64 \<Rightarrow> u64 \<Rightarrow> (memory option \<times> u64) option" where
  "put_unsigned sz m dest v =
    (if sz = 8 then Some (put m dest 8 v, v)
     else if sz = 4 then Some (put m dest 4 (ucast v :: u32), ucast (ucast v :: u32))
     else if sz = 2 then Some (put m dest 2 (ucast v :: u16), ucast (ucast v :: u16))
     else if sz = 1 then Some (put m dest 1 (ucast v :: u8), ucast (ucast v :: u8))
     else None)"

definition check_clamped :: "(memory option \<times> u64) option \<Rightarrow> u64 \<Rightarrow> 's pb_decoder" where
  "check_clamped r v s m =
    (case r of
       None \<Rightarrow> dec_error ''invalid data_size'' s m
     | Some (m, clamped) \<Rightarrow> bind_result (from_option m) (\<lambda>m.
         if clamped \<noteq> v then dec_error ''integer too large'' s m else Returned (True, s, m)))"

definition pb_dec_varint :: "pb_field_t \<Rightarrow> u64 \<Rightarrow> 's pb_decoder" where
  "pb_dec_varint field dest s m = with_value (pb_decode_varint s) m (\<lambda>value s m.
     let svalue = (if data_size field = 8 then value else scast (ucast value :: u32)) in
     check_clamped (put_signed (data_size field) m dest svalue) svalue s m)"

definition pb_dec_uvarint :: "pb_field_t \<Rightarrow> u64 \<Rightarrow> 's pb_decoder" where
  "pb_dec_uvarint field dest s m = with_value (pb_decode_varint s) m (\<lambda>value s m.
     check_clamped (put_unsigned (data_size field) m dest value) value s m)"

definition pb_dec_svarint :: "pb_field_t \<Rightarrow> u64 \<Rightarrow> 's pb_decoder" where
  "pb_dec_svarint field dest s m = with_value (pb_decode_svarint s) m (\<lambda>value s m.
     check_clamped (put_signed (data_size field) m dest value) value s m)"

definition pb_dec_fixed32 :: "u64 \<Rightarrow> 's pb_decoder" where
  "pb_dec_fixed32 dest = pb_decode_fixed32 dest"

definition pb_dec_fixed64 :: "u64 \<Rightarrow> 's pb_decoder" where
  "pb_dec_fixed64 dest = pb_decode_fixed64 dest"

text \<open>\<open>PB_BYTES_ARRAY_T_ALLOCSIZE\<close> adds the 4 bytes of the size.\<close>

definition pb_dec_bytes :: "'s pb_receiver \<Rightarrow> pb_field_t \<Rightarrow> u64 \<Rightarrow> 's pb_decoder" where
  "pb_dec_bytes R field dest s m = with_value (pb_decode_varint32 s) m (\<lambda>sz s m.
     let alloc_size = ucast sz + 4 :: u64 in
     if PB_SIZE_MAX < sz then dec_error ''bytes overflow'' s m
     else if alloc_size < ucast sz then dec_error ''size too large'' s m
     else if PB_ATYPE (pb_type field) = PB_ATYPE_POINTER then
       (if bytes_left s < ucast sz then dec_error ''end-of-stream'' s m
        else dec_then (allocate_field R dest alloc_size 1 s m) (\<lambda>s m.
          bind_result (peek m dest 8) (\<lambda>bdest.
          bind_result (from_option (put m bdest 4 sz)) (\<lambda>m. read_to (bdest + 4) (ucast sz) s m))))
     else if ucast (data_size field) < alloc_size then dec_error ''bytes overflow'' s m
     else bind_result (from_option (put m dest 4 sz)) (\<lambda>m. read_to (dest + 4) (ucast sz) s m))"

text \<open>The size of the string and its terminator is computed in 32 bits.\<close>

definition pb_dec_string :: "'s pb_receiver \<Rightarrow> pb_field_t \<Rightarrow> u64 \<Rightarrow> 's pb_decoder" where
  "pb_dec_string R field dest s m = with_value (pb_decode_varint32 s) m (\<lambda>sz s m.
     let alloc_size = ucast (sz + 1) :: u64;
         finish = (\<lambda>dest s m. bind_result (read_to dest (ucast sz) s m) (\<lambda>(ok, s, m).
           bind_result (from_option (poke m (dest + ucast sz) [0])) (\<lambda>m. Returned (ok, s, m)))) in
     if alloc_size < ucast sz then dec_error ''size too large'' s m
     else if PB_ATYPE (pb_type field) = PB_ATYPE_POINTER then
       (if bytes_left s < ucast sz then dec_error ''end-of-stream'' s m
        else dec_then (allocate_field R dest alloc_size 1 s m) (\<lambda>s m.
          bind_result (peek m dest 8) (\<lambda>dest. finish dest s m)))
     else if ucast (data_size field) < alloc_size then dec_error ''string overflow'' s m
     else finish dest s m)"

text \<open>\<open>pb_decode\<close>, given \<open>pb_decode_noinit\<close> of the same depth.\<close>

definition decode_message ::
  "(pb_field_t list \<Rightarrow> u64 \<Rightarrow> 's pb_decoder) \<Rightarrow> nat \<Rightarrow> 's pb_receiver \<Rightarrow> pb_field_t list \<Rightarrow> u64 \<Rightarrow> 's pb_decoder" where
  "decode_message noinit n R tbl dest s m =
    bind_result (pb_message_set_to_defaults n R tbl dest m) (\<lambda>m.
    bind_result (noinit tbl dest s m) (\<lambda>(status, s, m).
      if \<not> status then bind_result (pb_release n R tbl dest m) (\<lambda>m. Returned (False, s, m))
      else Returned (True, s, m)))"

text \<open>A decoder on the substream of a length-delimited value, and the status of both.\<close>

definition on_substream :: "'s pb_decoder \<Rightarrow> 's pb_decoder" where
  "on_substream f s m = with_value (pb_make_string_substream s) m (\<lambda>sub s m.
     bind_result (f sub m) (\<lambda>(status, sub, m).
     with_value (pb_close_string_substream s sub) m (\<lambda>_ s m. Returned (status, s, m))))"

text \<open>Without a descriptor of the submessage the function fails before it closes the substream.\<close>

definition pb_dec_submessage ::
  "(pb_field_t list \<Rightarrow> u64 \<Rightarrow> 's pb_decoder) \<Rightarrow> nat \<Rightarrow> 's pb_receiver \<Rightarrow> pb_field_t \<Rightarrow> u64 \<Rightarrow> 's pb_decoder" where
  "pb_dec_submessage noinit n R field dest s m =
    (if pb_ptr field = 0
     then with_value (pb_make_string_substream s) m (\<lambda>sub. dec_error ''invalid field descriptor'')
     else on_substream
       (if PB_HTYPE (pb_type field) = PB_HTYPE_REPEATED
        then decode_message noinit n R (dec_tables R (pb_ptr field)) dest
        else noinit (dec_tables R (pb_ptr field)) dest) s m)"

definition pb_dec_fixed_length_bytes :: "pb_field_t \<Rightarrow> u64 \<Rightarrow> 's pb_decoder" where
  "pb_dec_fixed_length_bytes field dest s m = with_value (pb_decode_varint32 s) m (\<lambda>sz s m.
     if PB_SIZE_MAX < sz then dec_error ''bytes overflow'' s m
     else if sz = 0 then written (memset_zero m dest (unat (data_size field))) s
     else if sz \<noteq> data_size field then dec_error ''incorrect fixed length bytes size'' s m
     else read_to dest (ucast (data_size field)) s m)"

text \<open>
  The table \<open>PB_DECODERS\<close>: the entry of the extensions is \<open>NULL\<close>, whose call faults, and reading past
  the end of the table is not defined.
\<close>

definition PB_DECODERS ::
  "(pb_field_t list \<Rightarrow> u64 \<Rightarrow> 's pb_decoder) \<Rightarrow> nat \<Rightarrow> 's pb_receiver \<Rightarrow> (pb_field_t \<Rightarrow> u64 \<Rightarrow> 's pb_decoder) list" where
  "PB_DECODERS noinit n R =
     [\<lambda>_. pb_dec_bool, pb_dec_varint, pb_dec_uvarint, pb_dec_svarint, \<lambda>_. pb_dec_fixed32, \<lambda>_. pb_dec_fixed64,
      pb_dec_bytes R, pb_dec_string R, pb_dec_submessage noinit n R, (\<lambda>_ _ _ _. Faulted), pb_dec_fixed_length_bytes]"

section \<open>Static fields\<close>

text \<open>The address of an entry: the product is computed in 32 bits.\<close>

definition item_address :: "u64 \<Rightarrow> pb_field_t \<Rightarrow> u32 \<Rightarrow> u64" where
  "item_address base field i = base + ucast (data_size field * i)"

text \<open>
  The loop over a packed array. Each entry takes at least a byte of the substream, so that the bytes
  left bound it; the status is false when an entry cannot be decoded.
\<close>

primrec static_packed_loop :: "nat \<Rightarrow> (u64 \<Rightarrow> 's pb_decoder) \<Rightarrow> pb_field_iter_t \<Rightarrow> 's pb_decoder" where
  "static_packed_loop 0 func it sub m = (if bytes_left sub \<noteq> 0 then Out_of_fuel else Returned (True, sub, m))"
| "static_packed_loop (Suc k) func it sub m =
    (if bytes_left sub = 0 then Returned (True, sub, m)
     else bind_result (peek m (pSize it) 4) (\<lambda>sz.
       if \<not> sz < array_size (it_field it) then Returned (True, sub, m)
       else bind_result (func (item_address (pData it) (it_field it) sz) sub m) (\<lambda>(ok, sub, m).
         if \<not> ok then Returned (False, sub, m)
         else bind_result (peek m (pSize it) 4) (\<lambda>sz.
           bind_result (from_option (put m (pSize it) 4 (sz + 1 :: u32))) (\<lambda>m.
             static_packed_loop k func it sub m)))))"

definition decode_static_field ::
  "(pb_field_t list \<Rightarrow> u64 \<Rightarrow> 's pb_decoder) \<Rightarrow> nat \<Rightarrow> 's pb_receiver \<Rightarrow> u32 \<Rightarrow> pb_field_iter_t \<Rightarrow> 's pb_decoder" where
  "decode_static_field noinit n R wire_type it s m =
    (let field = it_field it; t = pb_type field in
     if PB_LTYPES_COUNT \<le> PB_LTYPE t then Faulted
     else let func = (PB_DECODERS noinit n R ! unat (PB_LTYPE t)) field in
       if PB_HTYPE t = PB_HTYPE_REQUIRED then func (pData it) s m
       else if PB_HTYPE t = PB_HTYPE_OPTIONAL then
         bind_result (from_option (if pSize it \<noteq> pData it then poke m (pSize it) [1] else Some m)) (\<lambda>m.
           func (pData it) s m)
       else if PB_HTYPE t = PB_HTYPE_REPEATED then
         (if wire_type = PB_WT_STRING \<and> PB_LTYPE t \<le> PB_LTYPE_LAST_PACKABLE then
            with_value (pb_make_string_substream s) m (\<lambda>sub s m.
              bind_result (static_packed_loop (unat (bytes_left sub)) func it sub m) (\<lambda>(status, sub, m).
                if bytes_left sub \<noteq> 0 then dec_error ''array overflow'' s m
                else with_value (pb_close_string_substream s sub) m (\<lambda>_ s m. Returned (status, s, m))))
          else
            bind_result (peek m (pSize it) 4) (\<lambda>sz.
            bind_result (from_option (put m (pSize it) 4 (sz + 1 :: u32))) (\<lambda>m.
              if array_size field \<le> sz then dec_error ''array overflow'' s m
              else func (item_address (pData it) field sz) s m)))
       else
         bind_result (if PB_LTYPE t = PB_LTYPE_SUBMESSAGE then
             bind_result (peek m (pSize it) 4) (\<lambda>which.
               if which \<noteq> pb_tag field
               then bind_result (from_option (memset_zero m (pData it) (unat (data_size field))))
                      (pb_message_set_to_defaults n R (dec_tables R (pb_ptr field)) (pData it))
               else Returned m)
           else Returned m) (\<lambda>m.
         bind_result (from_option (put m (pSize it) 4 (pb_tag field))) (\<lambda>m. func (pData it) s m)))"

section \<open>Pointer fields\<close>

text \<open>
  The loop over a packed array that grows: \<open>allocated\<close> entries have storage, and more is asked for by
  guessing from the bytes left. The error about too many entries is set in the outer stream, which the
  loop returns as well.
\<close>

primrec pointer_packed_loop ::
  "nat \<Rightarrow> (u64 \<Rightarrow> 's pb_decoder) \<Rightarrow> nat \<Rightarrow> 's pb_receiver \<Rightarrow> pb_field_iter_t \<Rightarrow> u64 \<Rightarrow> 's pb_istream \<Rightarrow> 's pb_istream \<Rightarrow>
     memory \<Rightarrow> (bool \<times> 's pb_istream \<times> 's pb_istream \<times> memory) loop_result" where
  "pointer_packed_loop 0 func n R it allocated sub s m =
    (if bytes_left sub \<noteq> 0 then Out_of_fuel else Returned (True, sub, s, m))"
| "pointer_packed_loop (Suc k) func n R it allocated sub s m =
    (let field = it_field it in
     if bytes_left sub = 0 then Returned (True, sub, s, m)
     else bind_result (peek m (pSize it) 4) (\<lambda>sz.
       if sz = PB_SIZE_MAX
       then Returned (False, sub, s\<lparr>in_errmsg := Some ''too many array entries''\<rparr>, m)
       else bind_result
         (if allocated < ucast sz + 1 then
            (if data_size field = 0 then Faulted
             else let remain = (bytes_left sub - 1) div ucast (data_size field) + 1;
                      allocated = (if remain < ucast PB_SIZE_MAX - allocated then allocated + remain else allocated + 1)
               in bind_result (allocate_field R (pData it) (ucast (data_size field)) allocated sub m)
                    (\<lambda>r. Returned (r, allocated)))
          else Returned ((True, sub, m), allocated)) (\<lambda>((ok, sub, m), allocated).
       if \<not> ok then Returned (False, sub, s, m)
       else bind_result (peek m (pData it) 8) (\<lambda>base.
       bind_result (peek m (pSize it) 4) (\<lambda>sz :: u32.
       let item = item_address base field sz in
       if item = 0 then Returned (False, sub, s, m)
       else bind_result (initialize_pointer_field n R item field m) (\<lambda>m.
       bind_result (func item sub m) (\<lambda>(ok, sub, m).
       if \<not> ok then Returned (False, sub, s, m)
       else bind_result (peek m (pSize it) 4) (\<lambda>sz.
       bind_result (from_option (put m (pSize it) 4 (sz + 1 :: u32))) (\<lambda>m.
         pointer_packed_loop k func n R it allocated sub s m)))))))))"

definition decode_pointer_field ::
  "(pb_field_t list \<Rightarrow> u64 \<Rightarrow> 's pb_decoder) \<Rightarrow> nat \<Rightarrow> 's pb_receiver \<Rightarrow> u32 \<Rightarrow> pb_field_iter_t \<Rightarrow> 's pb_decoder" where
  "decode_pointer_field noinit n R wire_type it s m =
    (let field = it_field it; t = pb_type field in
     if PB_LTYPES_COUNT \<le> PB_LTYPE t then Faulted
     else let func = (PB_DECODERS noinit n R ! unat (PB_LTYPE t)) field in
       if PB_HTYPE t = PB_HTYPE_REPEATED then
         (if wire_type = PB_WT_STRING \<and> PB_LTYPE t \<le> PB_LTYPE_LAST_PACKABLE then
            bind_result (peek m (pSize it) 4) (\<lambda>sz :: u32.
            with_value (pb_make_string_substream s) m (\<lambda>sub s m.
              bind_result (pointer_packed_loop (unat (bytes_left sub)) func n R it (ucast sz) sub s m) (\<lambda>(status, sub, s, m).
                with_value (pb_close_string_substream s sub) m (\<lambda>_ s m. Returned (status, s, m)))))
          else
            bind_result (peek m (pSize it) 4) (\<lambda>sz.
              if sz = PB_SIZE_MAX then dec_error ''too many array entries'' s m
              else dec_then (allocate_field R (pData it) (ucast (data_size field)) (ucast (sz + 1)) s m) (\<lambda>s m.
                bind_result (peek m (pData it) 8) (\<lambda>base.
                bind_result (peek m (pSize it) 4) (\<lambda>sz.
                let item = item_address base field sz in
                bind_result (from_option (put m (pSize it) 4 (sz + 1 :: u32))) (\<lambda>m.
                bind_result (initialize_pointer_field n R item field m) (\<lambda>m. func item s m)))))))
       else
         bind_result (if PB_LTYPE t = PB_LTYPE_SUBMESSAGE
            then bind_result (peek m (pData it) 8) (\<lambda>p :: u64.
                   if p \<noteq> 0 then pb_release_single_field n R it m else Returned m)
            else Returned m) (\<lambda>m.
         bind_result (if PB_HTYPE t = PB_HTYPE_ONEOF then from_option (put m (pSize it) 4 (pb_tag field)) else Returned m) (\<lambda>m.
           if PB_LTYPE t = PB_LTYPE_STRING \<or> PB_LTYPE t = PB_LTYPE_BYTES then func (pData it) s m
           else dec_then (allocate_field R (pData it) (ucast (data_size field)) 1 s m) (\<lambda>s m.
             bind_result (peek m (pData it) 8) (\<lambda>p.
             bind_result (initialize_pointer_field n R p field m) (\<lambda>m. func p s m))))))"

section \<open>Callback fields\<close>

primrec callback_loop :: "nat \<Rightarrow> 's pb_decoder \<Rightarrow> 's pb_decoder" where
  "callback_loop 0 f sub m = Out_of_fuel"
| "callback_loop (Suc k) f sub m =
    bind_result (f sub m) (\<lambda>(ok, sub, m).
      if ok \<and> bytes_left sub \<noteq> 0 then callback_loop k f sub m else Returned (ok, sub, m))"

definition decode_callback_field :: "'s pb_receiver \<Rightarrow> u32 \<Rightarrow> pb_field_iter_t \<Rightarrow> 's pb_decoder" where
  "decode_callback_field R wire_type it s m =
    bind_result (if pData it = 0 then Returned 0 else peek m (pData it) 8) (\<lambda>decode :: u64.
    if decode = 0 then with_value (pb_skip_field wire_type s) m (\<lambda>_ s m. Returned (True, s, m))
    else let f = field_decoder R decode (it_field it) (pData it + 8) in
      if wire_type = PB_WT_STRING then
        with_value (pb_make_string_substream s) m (\<lambda>sub s m.
          bind_result (callback_loop (callback_rounds R) f sub m) (\<lambda>(ok, sub, m).
            if \<not> ok then dec_error ''callback failed'' s m
            else with_value (pb_close_string_substream s sub) m (\<lambda>_ s m. Returned (True, s, m))))
      else with_value (read_raw_value wire_type 10 s) m (\<lambda>buffer s m.
        bind_result (f (pb_istream_from_buffer buffer (of_nat (length buffer))) m) (\<lambda>(ok, sub, m). Returned (ok, s, m))))"

section \<open>Fields and extensions\<close>

text \<open>The iterator can have been moved by the release of a union, and is returned.\<close>

definition decode_field ::
  "(pb_field_t list \<Rightarrow> u64 \<Rightarrow> 's pb_decoder) \<Rightarrow> nat \<Rightarrow> 's pb_receiver \<Rightarrow> u32 \<Rightarrow> pb_field_iter_t \<Rightarrow> 's pb_istream \<Rightarrow> memory \<Rightarrow>
     (bool \<times> pb_field_iter_t \<times> 's pb_istream \<times> memory) loop_result" where
  "decode_field noinit n R wire_type it s m =
    bind_result (if PB_HTYPE (pb_type (it_field it)) = PB_HTYPE_ONEOF then pb_release_union_field n R it s m
                 else Returned (True, it, s, m)) (\<lambda>(ok, it, s, m).
    if \<not> ok then Returned (False, it, s, m)
    else let at = PB_ATYPE (pb_type (it_field it)) in
      bind_result
        (if at = PB_ATYPE_STATIC then decode_static_field noinit n R wire_type it s m
         else if at = PB_ATYPE_POINTER then decode_pointer_field noinit n R wire_type it s m
         else if at = PB_ATYPE_CALLBACK then decode_callback_field R wire_type it s m
         else dec_error ''invalid field type'' s m) (\<lambda>(ok, s, m). Returned (ok, it, s, m)))"

definition default_extension_decoder ::
  "(pb_field_t list \<Rightarrow> u64 \<Rightarrow> 's pb_decoder) \<Rightarrow> nat \<Rightarrow> 's pb_receiver \<Rightarrow> u64 \<Rightarrow> u32 \<Rightarrow> u32 \<Rightarrow> 's pb_decoder" where
  "default_extension_decoder noinit n R extension tag wire_type s m =
    bind_result (peek m extension 8) (\<lambda>ext_type :: u64.
    bind_result (peek m (ext_type + 16) 8) (\<lambda>arg.
      (case dec_tables R arg of
         [] \<Rightarrow> Faulted
       | field # _ \<Rightarrow>
          if pb_tag field \<noteq> tag then Returned (True, s, m)
          else bind_result (iter_from_extension R extension m) (\<lambda>it.
            bind_result (from_option (poke m (extension + 24) [1])) (\<lambda>m.
            bind_result (decode_field noinit n R wire_type it s m) (\<lambda>(ok, it, s, m). Returned (ok, s, m)))))))"

text \<open>\<open>pos\<close> is what was left before: an extension that read something ends the loop.\<close>

primrec decode_extension_loop ::
  "nat \<Rightarrow> (pb_field_t list \<Rightarrow> u64 \<Rightarrow> 's pb_decoder) \<Rightarrow> nat \<Rightarrow> 's pb_receiver \<Rightarrow> u32 \<Rightarrow> u32 \<Rightarrow> u64 \<Rightarrow> u64 \<Rightarrow> 's pb_decoder" where
  "decode_extension_loop 0 noinit n R tag wire_type pos extension s m =
    (if extension \<noteq> 0 \<and> pos = bytes_left s then Out_of_fuel else Returned (True, s, m))"
| "decode_extension_loop (Suc k) noinit n R tag wire_type pos extension s m =
    (if extension \<noteq> 0 \<and> pos = bytes_left s then
       bind_result (peek m extension 8) (\<lambda>ext_type.
       bind_result (peek m ext_type 8) (\<lambda>decode :: u64.
       dec_then (if decode \<noteq> 0 then extension_decoder R decode extension tag wire_type s m
                 else default_extension_decoder noinit n R extension tag wire_type s m) (\<lambda>s m.
         bind_result (peek m (extension + 16) 8) (\<lambda>rest.
           decode_extension_loop k noinit n R tag wire_type pos rest s m))))
     else Returned (True, s, m))"

definition decode_extension ::
  "(pb_field_t list \<Rightarrow> u64 \<Rightarrow> 's pb_decoder) \<Rightarrow> nat \<Rightarrow> 's pb_receiver \<Rightarrow> u32 \<Rightarrow> u32 \<Rightarrow> pb_field_iter_t \<Rightarrow> 's pb_decoder" where
  "decode_extension noinit n R tag wire_type it s m =
    bind_result (peek m (pData it) 8) (\<lambda>extension.
      decode_extension_loop n noinit n R tag wire_type (bytes_left s) extension s m)"

primrec find_extension_loop :: "nat \<Rightarrow> nat \<Rightarrow> pb_field_iter_t \<Rightarrow> (bool \<times> pb_field_iter_t) loop_result" where
  "find_extension_loop 0 first it = Out_of_fuel"
| "find_extension_loop (Suc k) first it =
    (if PB_LTYPE (pb_type (it_field it)) = PB_LTYPE_EXTENSION then Returned (True, it)
     else let it = snd (pb_field_iter_next it) in
       if it_pos it \<noteq> first then find_extension_loop k first it else Returned (False, it))"

definition find_extension_field :: "pb_field_iter_t \<Rightarrow> (bool \<times> pb_field_iter_t) loop_result" where
  "find_extension_field it = find_extension_loop (length (it_start it) + 1) (it_pos it) it"

section \<open>Messages\<close>

text \<open>
  What \<open>pb_decode_noinit\<close> keeps between fields: the iterator, the start of the range of extensions, the
  required fields seen, and the position of the field whose entries the local count counts.
\<close>

record decode_state =
  dec_iter :: pb_field_iter_t
  extension_range_start :: u32
  fields_seen :: "u32 list"
  fixed_count_field :: "nat option"

definition PB_MAX_REQUIRED_FIELDS :: u32 where "PB_MAX_REQUIRED_FIELDS = 64"

text \<open>Lines 966 to 995: a tag that is not in the table.\<close>

definition decode_unknown ::
  "(pb_field_t list \<Rightarrow> u64 \<Rightarrow> 's pb_decoder) \<Rightarrow> nat \<Rightarrow> 's pb_receiver \<Rightarrow> u32 \<Rightarrow> u32 \<Rightarrow> decode_state \<Rightarrow> 's pb_istream \<Rightarrow> memory \<Rightarrow>
     (bool \<times> decode_state \<times> 's pb_istream \<times> memory) loop_result" where
  "decode_unknown noinit n R tag wire_type d s m =
    (let skip = (\<lambda>d s m. bind_result (with_value (pb_skip_field wire_type s) m (\<lambda>_ s m. Returned (True, s, m)))
           (\<lambda>(ok, s, m). Returned (ok, d, s, m))) in
     if tag < extension_range_start d then skip d s m
     else bind_result (find_extension_field (dec_iter d)) (\<lambda>(found, it).
       let d = d\<lparr>dec_iter := it, extension_range_start := (if \<not> found then - 1 else pb_tag (it_field it))\<rparr> in
       if tag < extension_range_start d then skip d s m
       else bind_result (decode_extension noinit n R tag wire_type it s m) (\<lambda>(ok, s', m).
         if \<not> ok then Returned (False, d, s', m)
         else if bytes_left s \<noteq> bytes_left s' then Returned (True, d, s', m)
         else skip d s' m)))"

text \<open>Lines 1000 to 1029: a tag of the table.\<close>

definition decode_known ::
  "(pb_field_t list \<Rightarrow> u64 \<Rightarrow> 's pb_decoder) \<Rightarrow> nat \<Rightarrow> 's pb_receiver \<Rightarrow> u32 \<Rightarrow> decode_state \<Rightarrow> 's pb_istream \<Rightarrow> memory \<Rightarrow>
     (bool \<times> decode_state \<times> 's pb_istream \<times> memory) loop_result" where
  "decode_known noinit n R wire_type d s m =
    (let it = dec_iter d; field = it_field it; local = count_local R n in
     bind_result
       (if PB_HTYPE (pb_type field) = PB_HTYPE_REPEATED \<and> pSize it = pData it then
          (if fixed_count_field d \<noteq> Some (it_pos it) then
             bind_result
               (case fixed_count_field d of
                  None \<Rightarrow> Returned True
                | Some i \<Rightarrow> bind_result (peek m local 4) (\<lambda>c. Returned (c = array_size (it_start it ! i)))) (\<lambda>complete.
               if \<not> complete then Returned (False, d, m)
               else bind_result (from_option (put m local 4 (0 :: u32))) (\<lambda>m.
                 Returned (True, d\<lparr>fixed_count_field := Some (it_pos it), dec_iter := it\<lparr>pSize := local\<rparr>\<rparr>, m)))
           else Returned (True, d\<lparr>dec_iter := it\<lparr>pSize := local\<rparr>\<rparr>, m))
        else Returned (True, d, m)) (\<lambda>(ok, d, m).
     if \<not> ok then Returned (False, d, in_error ''wrong size for fixed count field'' s, m)
     else
       let i = required_field_index it;
           d = (if PB_HTYPE (pb_type field) = PB_HTYPE_REQUIRED \<and> i < PB_MAX_REQUIRED_FIELDS
                then let w = unat (drop_bit 5 i) in
                  d\<lparr>fields_seen := (fields_seen d)[w := fields_seen d ! w OR push_bit (unat (i AND 31)) 1]\<rparr>
                else d) in
       bind_result (decode_field noinit n R wire_type (dec_iter d) s m) (\<lambda>(ok, it, s, m).
         Returned (ok, d\<lparr>dec_iter := it\<rparr>, s, m))))"

text \<open>
  The loop over the fields of the stream. A tag takes at least a byte, and the bytes left at the
  beginning are the fuel. The first component is false when the function returns false.
\<close>

primrec decode_loop ::
  "nat \<Rightarrow> (pb_field_t list \<Rightarrow> u64 \<Rightarrow> 's pb_decoder) \<Rightarrow> nat \<Rightarrow> 's pb_receiver \<Rightarrow> decode_state \<Rightarrow> 's pb_istream \<Rightarrow> memory \<Rightarrow>
     (bool \<times> decode_state \<times> 's pb_istream \<times> memory) loop_result" where
  "decode_loop 0 noinit n R d s m = (if bytes_left s \<noteq> 0 then Out_of_fuel else Returned (True, d, s, m))"
| "decode_loop (Suc k) noinit n R d s m =
    (if bytes_left s = 0 then Returned (True, d, s, m)
     else bind_result (from_option (pb_decode_tag s)) (\<lambda>(r, eof, s).
       (case r of
          None \<Rightarrow> Returned (eof, d, s, m)
        | Some (tag, wire_type) \<Rightarrow>
           bind_result (pb_field_iter_find tag (dec_iter d)) (\<lambda>(found, it).
           bind_result ((if \<not> found then decode_unknown noinit n R tag wire_type else decode_known noinit n R wire_type)
             (d\<lparr>dec_iter := it\<rparr>) s m) (\<lambda>(ok, d, s, m).
             if ok then decode_loop k noinit n R d s m else Returned (False, d, s, m))))))"

text \<open>The loop to the last field: its required field index and type, and the iterator after it.\<close>

function last_field_loop :: "pb_field_iter_t \<Rightarrow> u32 \<times> u8 \<times> pb_field_iter_t" where
  "last_field_loop it =
    (case pb_field_iter_next it of (again, it') \<Rightarrow>
       if again then last_field_loop it' else (required_field_index it, pb_type (it_field it), it'))"
  by auto

termination last_field_loop
  by (relation "measure (\<lambda>it. length (it_start it) - it_pos it)") (auto dest: next_more_decreases)

declare last_field_loop.simps [simp del]

definition required_seen :: "pb_field_iter_t \<Rightarrow> u32 list \<Rightarrow> bool" where
  "required_seen it seen =
    (case last_field_loop it of (count, last_type, it) \<Rightarrow>
      let count = (if PB_HTYPE last_type = PB_HTYPE_REQUIRED \<and> pb_tag (it_field it) \<noteq> 0 then count + 1 else count);
          count = (if PB_MAX_REQUIRED_FIELDS < count then PB_MAX_REQUIRED_FIELDS else count) in
      list_all (\<lambda>i. seen ! i = - 1) [0..<unat (drop_bit 5 count)] \<and>
      (count AND 31 \<noteq> 0 \<longrightarrow> seen ! unat (drop_bit 5 count) = drop_bit (32 - unat (count AND 31)) (- 1)))"

primrec pb_decode_noinit :: "nat \<Rightarrow> 's pb_receiver \<Rightarrow> pb_field_t list \<Rightarrow> u64 \<Rightarrow> 's pb_decoder" where
  "pb_decode_noinit 0 R tbl dest s m = Out_of_fuel"
| "pb_decode_noinit (Suc n) R tbl dest s m =
    bind_result (from_option (put m (count_local R n) 4 (0 :: u32))) (\<lambda>m.
    bind_result (decode_loop (unat (bytes_left s)) (pb_decode_noinit n R) n R
      \<lparr>dec_iter = snd (pb_field_iter_begin tbl dest), extension_range_start = 0, fields_seen = [0, 0],
       fixed_count_field = None\<rparr> s m) (\<lambda>(ok, d, s, m).
    if \<not> ok then Returned (False, s, m)
    else bind_result
      (case fixed_count_field d of
         None \<Rightarrow> Returned True
       | Some i \<Rightarrow> bind_result (peek m (count_local R n) 4) (\<lambda>c. Returned (c = array_size (tbl ! i)))) (\<lambda>complete.
      if \<not> complete then dec_error ''wrong size for fixed count field'' s m
      else if \<not> required_seen (dec_iter d) (fields_seen d) then dec_error ''missing required field'' s m
      else Returned (True, s, m))))"

definition pb_decode :: "nat \<Rightarrow> 's pb_receiver \<Rightarrow> pb_field_t list \<Rightarrow> u64 \<Rightarrow> 's pb_decoder" where
  "pb_decode n R = decode_message (pb_decode_noinit n R) n R"

definition pb_decode_delimited_noinit :: "nat \<Rightarrow> 's pb_receiver \<Rightarrow> pb_field_t list \<Rightarrow> u64 \<Rightarrow> 's pb_decoder" where
  "pb_decode_delimited_noinit n R tbl dest = on_substream (pb_decode_noinit n R tbl dest)"

definition pb_decode_delimited :: "nat \<Rightarrow> 's pb_receiver \<Rightarrow> pb_field_t list \<Rightarrow> u64 \<Rightarrow> 's pb_decoder" where
  "pb_decode_delimited n R tbl dest = on_substream (pb_decode n R tbl dest)"

definition pb_decode_nullterminated :: "nat \<Rightarrow> 's pb_receiver \<Rightarrow> pb_field_t list \<Rightarrow> u64 \<Rightarrow> 's pb_decoder" where
  "pb_decode_nullterminated n R = pb_decode n R"

end
