(* ===== verification/Pb_Static.thy ===== *)
theory Pb_Static
  imports Pb_Istream_Facts Pb_Memory_Facts Pb_Decode
begin

text \<open>
  Messages without pointers, callbacks and extensions: the layout their descriptor tables must have,
  and that setting their defaults and releasing them only touches the structure.
\<close>

section \<open>Offsets\<close>

text \<open>An iterator over a structure at another address.\<close>

definition shifted :: "u64 \<Rightarrow> pb_field_iter_t \<Rightarrow> pb_field_iter_t" where
  "shifted e it = it\<lparr>dest_struct := dest_struct it + e, pData := pData it + e, pSize := pSize it + e\<rparr>"

lemma shifted_simps [simp]:
  "it_start (shifted e it) = it_start it" "it_pos (shifted e it) = it_pos it" "it_field (shifted e it) = it_field it"
  "dest_struct (shifted e it) = dest_struct it + e" "pData (shifted e it) = pData it + e" "pSize (shifted e it) = pSize it + e"
  "required_field_index (shifted e it) = required_field_index it"
  by (simp_all add: shifted_def it_field_def)

lemma begin_shifted:
  "d \<noteq> 0 \<Longrightarrow> d + e \<noteq> 0 \<Longrightarrow> pb_field_iter_begin tbl (d + e) = (fst (pb_field_iter_begin tbl d), shifted e (snd (pb_field_iter_begin tbl d)))"
  by (simp add: pb_field_iter_begin_def shifted_def it_field_def Let_def)

lemma next_shifted:
  assumes "dest_struct it \<noteq> 0" and "dest_struct it + e \<noteq> 0"
  shows "pb_field_iter_next (shifted e it) = (fst (pb_field_iter_next it), shifted e (snd (pb_field_iter_next it)))"
proof -
  have field: "it_field ((shifted e it)\<lparr>it_pos := k\<rparr>) = it_field (it\<lparr>it_pos := k\<rparr>)" for k
    by (simp add: shifted_def it_field_def)
  show ?thesis
    unfolding pb_field_iter_next_def Let_def shifted_simps field
    using begin_shifted [OF assms, of "it_start it"]
    by (simp add: shifted_def)
qed

lemma next_dest_struct: "dest_struct (snd (pb_field_iter_next it)) = dest_struct it"
  by (simp add: pb_field_iter_next_def Let_def)

lemma iter_at_dest [simp]: "dest_struct (iter_at tbl dest i) = dest"
  by (induction i) (simp_all add: next_dest_struct)

lemma iter_at_shifted: "d \<noteq> 0 \<Longrightarrow> d + e \<noteq> 0 \<Longrightarrow> iter_at tbl (d + e) i = shifted e (iter_at tbl d i)"
  by (induction i) (simp_all add: begin_shifted next_shifted)

definition member_offset :: "pb_field_t list \<Rightarrow> nat \<Rightarrow> u64" where
  "member_offset tbl i = pData (iter_at tbl 1 i) - 1"

definition count_offset :: "pb_field_t list \<Rightarrow> nat \<Rightarrow> u64" where
  "count_offset tbl i = pSize (iter_at tbl 1 i) - 1"

lemma iter_at_offsets:
  assumes "dest \<noteq> 0"
  shows "pData (iter_at tbl dest i) = dest + member_offset tbl i" "pSize (iter_at tbl dest i) = dest + count_offset tbl i"
  using iter_at_shifted [of 1 "dest - 1" tbl i] assms
  by (simp_all add: member_offset_def count_offset_def del: iter_at.simps)

section \<open>Static layouts\<close>

lemma htype_cases:
  obtains "PB_HTYPE t = PB_HTYPE_REQUIRED" | "PB_HTYPE t = PB_HTYPE_OPTIONAL"
  | "PB_HTYPE t = PB_HTYPE_REPEATED" | "PB_HTYPE t = PB_HTYPE_ONEOF"
proof -
  have "\<forall>k \<in> set [0..<256]. (of_nat k :: u8) AND 0x30 \<in> {0, 0x10, 0x20, 0x30}" by code_simp
  moreover have "unat t \<in> set [0..<256]" using unsigned_less [of t, where 'a = nat] by simp
  ultimately have "(of_nat (unat t) :: u8) AND 0x30 \<in> {0, 0x10, 0x20, 0x30}" by blast
  then show thesis using that by (auto simp: PB_HTYPE_def)
qed

definition entry_count :: "pb_field_t \<Rightarrow> nat" where
  "entry_count f = (if PB_HTYPE (pb_type f) = PB_HTYPE_REPEATED then unat (array_size f) else 1)"

text \<open>
  The member of the field is large enough for what its decoder writes. A submessage has a table that
  fits; a default value is mapped, in \<open>D\<close>.
\<close>

definition type_fits :: "(pb_field_t list \<Rightarrow> nat \<Rightarrow> bool) \<Rightarrow> (u64 \<Rightarrow> pb_field_t list) \<Rightarrow> u64 set \<Rightarrow> pb_field_t \<Rightarrow> bool" where
  "type_fits sub tables D f \<longleftrightarrow>
    (let lt = PB_LTYPE (pb_type f); ds = unat (data_size f) in
     lt < PB_LTYPES_COUNT \<and> lt \<noteq> PB_LTYPE_EXTENSION \<and>
     (if lt = PB_LTYPE_SUBMESSAGE then pb_ptr f \<noteq> 0 \<and> 0 < ds \<and> sub (tables (pb_ptr f)) ds
      else (pb_ptr f = 0 \<or> cells (pb_ptr f) ds \<subseteq> D) \<and>
        (if lt = PB_LTYPE_BOOL then 1 \<le> ds else if lt = PB_LTYPE_FIXED32 then 4 \<le> ds
         else if lt = PB_LTYPE_FIXED64 then 8 \<le> ds else True)))"

definition static_field ::
  "(pb_field_t list \<Rightarrow> nat \<Rightarrow> bool) \<Rightarrow> (u64 \<Rightarrow> pb_field_t list) \<Rightarrow> u64 set \<Rightarrow> pb_field_t list \<Rightarrow> nat \<Rightarrow> nat \<Rightarrow> bool" where
  "static_field sub tables D tbl sz i \<longleftrightarrow>
    (let f = tbl ! i; ht = PB_HTYPE (pb_type f) in
     PB_ATYPE (pb_type f) = PB_ATYPE_STATIC \<and> type_fits sub tables D f \<and>
     unat (member_offset tbl i) + unat (data_size f) * entry_count f \<le> sz \<and>
     (ht = PB_HTYPE_OPTIONAL \<longrightarrow> count_offset tbl i = member_offset tbl i \<or> unat (count_offset tbl i) + 1 \<le> sz) \<and>
     (ht = PB_HTYPE_REPEATED \<or> ht = PB_HTYPE_ONEOF \<longrightarrow> unat (count_offset tbl i) + 4 \<le> sz))"

text \<open>A structure of \<open>sz\<close> bytes with submessages nested less than \<open>d\<close> deep.\<close>

primrec static_table :: "nat \<Rightarrow> (u64 \<Rightarrow> pb_field_t list) \<Rightarrow> u64 set \<Rightarrow> pb_field_t list \<Rightarrow> nat \<Rightarrow> bool" where
  "static_table 0 tables D tbl sz = False"
| "static_table (Suc d) tables D tbl sz \<longleftrightarrow> table_ok tbl \<and> tbl \<noteq> [] \<and> sz < 2 ^ 32 \<and>
     list_all (static_field (static_table d tables D) tables D tbl sz) [0..<length tbl]"

lemma static_tableD:
  assumes "static_table d tables D tbl sz"
  obtains d' where "d = Suc d'" "table_ok tbl" "tbl \<noteq> []" "sz < 2 ^ 32"
    "\<And>i. i < length tbl \<Longrightarrow> static_field (static_table d' tables D) tables D tbl sz i"
  using assms by (cases d) (auto simp: list_all_iff)

text \<open>The cells of the members, and of the entries of an array.\<close>

lemma member_cells:
  assumes "static_field sub tables D tbl sz i" and "dest \<noteq> 0"
  shows "cells (pData (iter_at tbl dest i)) (unat (data_size (tbl ! i)) * entry_count (tbl ! i)) \<subseteq> cells dest sz"
    "PB_HTYPE (pb_type (tbl ! i)) \<noteq> PB_HTYPE_REPEATED \<Longrightarrow>
      cells (pData (iter_at tbl dest i)) (unat (data_size (tbl ! i))) \<subseteq> cells dest sz"
    "PB_HTYPE (pb_type (tbl ! i)) = PB_HTYPE_OPTIONAL \<Longrightarrow> pSize (iter_at tbl dest i) \<noteq> pData (iter_at tbl dest i) \<Longrightarrow>
      cells (pSize (iter_at tbl dest i)) 1 \<subseteq> cells dest sz"
    "PB_HTYPE (pb_type (tbl ! i)) = PB_HTYPE_REPEATED \<or> PB_HTYPE (pb_type (tbl ! i)) = PB_HTYPE_ONEOF \<Longrightarrow>
      cells (pSize (iter_at tbl dest i)) 4 \<subseteq> cells dest sz"
  using assms cells_within [of "member_offset tbl i" _ sz dest] cells_within [of "count_offset tbl i" _ sz dest]
  by (auto simp: static_field_def Let_def iter_at_offsets [OF assms(2)] entry_count_def simp del: iter_at.simps)

lemma item_cells:
  assumes "static_field sub tables D tbl sz i" and "dest \<noteq> 0" and "sz < 2 ^ 32"
    and "PB_HTYPE (pb_type (tbl ! i)) = PB_HTYPE_REPEATED" and "k < array_size (tbl ! i)"
  shows "cells (item_address (pData (iter_at tbl dest i)) (tbl ! i) k) (unat (data_size (tbl ! i))) \<subseteq> cells dest sz"
proof -
  let ?ds = "unat (data_size (tbl ! i))"
  have extent: "unat (member_offset tbl i) + ?ds * unat (array_size (tbl ! i)) \<le> sz"
    using assms(1,4) by (simp add: static_field_def Let_def entry_count_def)
  have "?ds * Suc (unat k) \<le> ?ds * unat (array_size (tbl ! i))"
    using assms(5) by (intro mult_le_mono2) (simp add: word_less_nat_alt)
  then have item: "?ds * unat k + ?ds \<le> ?ds * unat (array_size (tbl ! i))" by simp
  then have "?ds * unat k < 2 ^ 32 \<or> ?ds = 0" using extent assms(3) by linarith
  then have "unat (data_size (tbl ! i) * k) = ?ds * unat k" by (auto simp: unat_word_ariths)
  then have "unat (ucast (data_size (tbl ! i) * k) :: u64) = ?ds * unat k" by simp
  then have "cells (pData (iter_at tbl dest i) + ucast (data_size (tbl ! i) * k)) ?ds \<subseteq>
      cells (pData (iter_at tbl dest i)) (?ds * unat (array_size (tbl ! i)))"
    using item by (intro cells_within) simp
  then show ?thesis using member_cells(1) [OF assms(1,2)] assms(4) by (simp add: item_address_def entry_count_def del: iter_at.simps)
qed

section \<open>Defaults and releasing\<close>

lemma each_field_safe:
  assumes "table_ok tbl" and "\<And>j. j < length tbl \<Longrightarrow> safe_update A W (g (iter_at tbl dest j))"
  shows "i < length tbl \<Longrightarrow> safe_update A W (each_field g (iter_at tbl dest i))"
proof (induction "length tbl - i" arbitrary: i rule: less_induct)
  case less
  note next_step = next_iter_at [OF assms(1) less.prems, of dest]
  have eq: "each_field g (iter_at tbl dest i) = (\<lambda>m. bind_result (g (iter_at tbl dest i) m)
      (if i + 1 < length tbl then each_field g (iter_at tbl dest (i + 1)) else Returned))"
    by (rule ext) (subst each_field.simps, simp only: next_step split: if_split, simp)
  show ?case
  proof (cases "i + 1 < length tbl")
    case True
    then have "safe_update A W (each_field g (iter_at tbl dest (i + 1)))" using less.hyps [of "i + 1"] by (simp del: iter_at.simps)
    then show ?thesis unfolding eq using True safe_update_bind [OF assms(2) [OF less.prems]] by (simp del: iter_at.simps)
  next
    case False
    then show ?thesis unfolding eq using safe_update_bind [OF assms(2) [OF less.prems] safe_nothing] by (simp del: iter_at.simps)
  qed
qed

lemma message_defaults_safe:
  assumes "table_ok tbl" and "\<And>j. j < length tbl \<Longrightarrow> safe_update A W (g (iter_at tbl dest j))"
  shows "safe_update A W (message_defaults g tbl dest)" "safe_update A W (message_release g tbl dest)"
proof -
  have "safe_update A W (each_field g (iter_at tbl dest 0))" if "tbl \<noteq> []"
    using each_field_safe [where g = g and dest = dest and i = 0, OF assms] that by blast
  moreover have "pb_field_iter_begin tbl dest = (tbl \<noteq> [], iter_at tbl dest 0)"
    using begin_more [OF assms(1), of dest] by (simp add: prod_eq_iff)
  ultimately show "safe_update A W (message_defaults g tbl dest)" "safe_update A W (message_release g tbl dest)"
    by (auto simp: message_defaults_def [abs_def] message_release_def [abs_def] intro!: safe_update_if safe_nothing
      simp del: iter_at.simps)
qed

text \<open>The part of the address space a static message may use: its structure, and its defaults to read.\<close>

lemma defaults_safe:
  "static_table d (dec_tables R) D tbl sz \<Longrightarrow> d \<le> n \<Longrightarrow> 0 \<notin> cells dest sz \<Longrightarrow> dest \<noteq> 0 \<Longrightarrow> cells dest sz \<subseteq> A \<Longrightarrow> D \<subseteq> A \<Longrightarrow>
    safe_update A (cells dest sz) (pb_message_set_to_defaults n R tbl dest)"
proof (induction d arbitrary: n tbl sz dest)
  case (Suc d)
  let ?W = "cells dest sz"
  obtain ok: "table_ok tbl" "sz < 2 ^ 32" and fields: "\<And>i. i < length tbl \<Longrightarrow> static_field (static_table d (dec_tables R) D) (dec_tables R) D tbl sz i"
    using Suc.prems(1) by (auto simp: list_all_iff)
  obtain n' where n: "n = Suc n'" "d \<le> n'" using Suc.prems(2) by (cases n) auto
  have "safe_update A ?W (pb_field_set_to_default n R (iter_at tbl dest i))" if i: "i < length tbl" for i
  proof -
    note it = iter_at_field [OF ok(1) i, of dest]
    let ?f = "tbl ! i" and ?it = "iter_at tbl dest i"
    note field = fields [OF i]
    note within = member_cells [OF field Suc.prems(4)]
    have f: "PB_ATYPE (pb_type ?f) = PB_ATYPE_STATIC" "PB_LTYPE (pb_type ?f) \<noteq> PB_LTYPE_EXTENSION"
      "type_fits (static_table d (dec_tables R) D) (dec_tables R) D ?f"
      using field by (auto simp: static_field_def type_fits_def Let_def)
    have data: "safe_update A ?W (\<lambda>m.
        if PB_LTYPE (pb_type ?f) = PB_LTYPE_SUBMESSAGE
        then message_defaults (pb_field_set_to_default n' R) (dec_tables R (pb_ptr ?f)) (pData ?it) m
        else if pb_ptr ?f \<noteq> 0
        then bind_result (from_option (load (memory_env m) (pb_ptr ?f) (unat (data_size ?f)))) (\<lambda>bs. from_option (poke m (pData ?it) bs))
        else from_option (memset_zero m (pData ?it) (unat (data_size ?f))))"
      if "PB_HTYPE (pb_type ?f) \<noteq> PB_HTYPE_REPEATED"
    proof -
      note cells = within(2) [OF that]
      consider (message) "PB_LTYPE (pb_type ?f) = PB_LTYPE_SUBMESSAGE" "0 < unat (data_size ?f)"
          "static_table d (dec_tables R) D (dec_tables R (pb_ptr ?f)) (unat (data_size ?f))"
        | (copy) "PB_LTYPE (pb_type ?f) \<noteq> PB_LTYPE_SUBMESSAGE" "pb_ptr ?f \<noteq> 0" "cells (pb_ptr ?f) (unat (data_size ?f)) \<subseteq> D"
        | (zero) "PB_LTYPE (pb_type ?f) \<noteq> PB_LTYPE_SUBMESSAGE" "pb_ptr ?f = 0"
        using f(3) by (fastforce simp: type_fits_def Let_def split: if_splits)
      then show ?thesis
      proof cases
        case message
        have "pData ?it \<noteq> 0" "0 \<notin> cells (pData ?it) (unat (data_size ?f))"
          using cells Suc.prems(3) cells_head [OF message(2), of "pData ?it"] by auto
        then have "safe_update A (cells (pData ?it) (unat (data_size ?f)))
            (pb_message_set_to_defaults n' R (dec_tables R (pb_ptr ?f)) (pData ?it))"
          using cells Suc.prems(5,6) by (intro Suc.IH [OF message(3) n(2)]) auto
        from safe_update_mono [OF this order_refl cells] show ?thesis
          using message(1) by (simp add: pb_message_set_to_defaults_def [abs_def])
      next
        case copy
        have "\<exists>m'. bind_result (from_option (load (memory_env m) (pb_ptr ?f) (unat (data_size ?f))))
            (\<lambda>bs. from_option (poke m (pData ?it) bs)) = Returned m' \<and> changes ?W m m'" if A: "A \<subseteq> dom m" for m
        proof -
          have "cells (pb_ptr ?f) (unat (data_size ?f)) \<subseteq> dom m" using copy(3) Suc.prems(6) A by blast
          then obtain bs where bs: "load (memory_env m) (pb_ptr ?f) (unat (data_size ?f)) = Some bs" "length bs = unat (data_size ?f)"
            using load_mapped by blast
          have "unat (data_size ?f) \<le> 2 ^ 64" using unsigned_less [of "data_size ?f", where 'a = nat] by simp
          moreover have "?W \<subseteq> dom m" using Suc.prems(5) A by blast
          ultimately show ?thesis using poke_safe [of "pData ?it" bs ?W m] cells bs by simp
        qed
        then show ?thesis using copy(1,2) by (simp add: safe_update_def del: iter_at.simps)
      next
        case zero
        have "unat (data_size ?f) \<le> 2 ^ 64" using unsigned_less [of "data_size ?f", where 'a = nat] by simp
        then show ?thesis using zero safe_memset [OF cells Suc.prems(5)] by (simp del: iter_at.simps)
      qed
    qed
    have eq: "pb_field_set_to_default n R ?it = (\<lambda>m. 
        bind_result
         (if PB_HTYPE (pb_type ?f) = PB_HTYPE_OPTIONAL \<and> pSize ?it \<noteq> pData ?it then from_option (poke m (pSize ?it) [0])
          else if PB_HTYPE (pb_type ?f) = PB_HTYPE_REPEATED \<or> PB_HTYPE (pb_type ?f) = PB_HTYPE_ONEOF
          then from_option (put m (pSize ?it) 4 (0 :: u32)) else Returned m) (\<lambda>m.
        if PB_HTYPE (pb_type ?f) = PB_HTYPE_REPEATED \<or> PB_HTYPE (pb_type ?f) = PB_HTYPE_ONEOF then Returned m
        else if PB_LTYPE (pb_type ?f) = PB_LTYPE_SUBMESSAGE
        then message_defaults (pb_field_set_to_default n' R) (dec_tables R (pb_ptr ?f)) (pData ?it) m
        else if pb_ptr ?f \<noteq> 0
        then bind_result (from_option (load (memory_env m) (pb_ptr ?f) (unat (data_size ?f)))) (\<lambda>bs. from_option (poke m (pData ?it) bs))
        else from_option (memset_zero m (pData ?it) (unat (data_size ?f)))))"
      unfolding n(1) using f(1,2) by (intro ext) (simp add: Let_def it del: iter_at.simps, auto simp: bind_result_def from_option_def
        split: option.split loop_result.split simp del: iter_at.simps)
    have flag: "safe_update A ?W (\<lambda>m.
        if PB_HTYPE (pb_type ?f) = PB_HTYPE_OPTIONAL \<and> pSize ?it \<noteq> pData ?it then from_option (poke m (pSize ?it) [0])
        else if PB_HTYPE (pb_type ?f) = PB_HTYPE_REPEATED \<or> PB_HTYPE (pb_type ?f) = PB_HTYPE_ONEOF
        then from_option (put m (pSize ?it) 4 (0 :: u32)) else Returned m)"
    proof (intro safe_update_if safe_nothing)
      assume "PB_HTYPE (pb_type ?f) = PB_HTYPE_OPTIONAL \<and> pSize ?it \<noteq> pData ?it"
      then show "safe_update A ?W (\<lambda>m. from_option (poke m (pSize ?it) [0]))"
        using within(3) Suc.prems(5) by (intro safe_poke) (simp_all del: iter_at.simps)
    next
      assume "PB_HTYPE (pb_type ?f) = PB_HTYPE_REPEATED \<or> PB_HTYPE (pb_type ?f) = PB_HTYPE_ONEOF"
      then show "safe_update A ?W (\<lambda>m. from_option (put m (pSize ?it) 4 (0 :: u32)))"
        using within(4) Suc.prems(5) by (intro safe_put) simp_all
    qed
    show ?thesis
      unfolding eq by (rule safe_update_bind [OF flag])
        (cases "PB_HTYPE (pb_type ?f) = PB_HTYPE_REPEATED \<or> PB_HTYPE (pb_type ?f) = PB_HTYPE_ONEOF",
         use data safe_nothing in \<open>simp_all del: iter_at.simps\<close>)
  qed
  then show ?case unfolding pb_message_set_to_defaults_def by (rule message_defaults_safe(1) [OF ok(1)])
qed simp

text \<open>Releasing a static message reads its counts and changes nothing.\<close>

lemma bind_result_right: "bind_result r Returned = r"
  by (cases r) simp_all

lemma unat_scaled:
  assumes "k * unat w < 2 ^ 64"
  shows "unat (of_nat k * ucast (w :: u32) :: u64) = k * unat w"
proof -
  have "of_nat k * ucast w = (of_nat (k * unat w) :: u64)" by (metis of_nat_unat of_nat_mult)
  then show ?thesis using assms by (simp only: unat_of_nat_u64)
qed

lemma items_release_safe:
  "(\<And>k. k < count \<Longrightarrow> safe_update A W (g (item + of_nat k * sz))) \<Longrightarrow> safe_update A W (items_release g sz count item)"
proof (induction count arbitrary: item)
  case 0
  then show ?case using safe_nothing by (simp add: safe_update_def)
next
  case (Suc count)
  have "safe_update A W (items_release g sz count (item + sz))"
  proof (rule Suc.IH)
    fix k assume "k < count"
    then show "safe_update A W (g (item + sz + of_nat k * sz))" using Suc.prems [of "Suc k"] by (simp add: algebra_simps)
  qed
  then have "safe_update A W (\<lambda>m. bind_result (g item m) (items_release g sz count (item + sz)))"
    using safe_update_bind Suc.prems [of 0] by simp
  then show ?case by (simp add: safe_update_def)
qed

lemma release_safe:
  "static_table d (dec_tables R) D tbl sz \<Longrightarrow> d \<le> n \<Longrightarrow> 0 \<notin> cells dest sz \<Longrightarrow> dest \<noteq> 0 \<Longrightarrow> cells dest sz \<subseteq> A \<Longrightarrow>
    (\<forall>j < length tbl. safe_update A {} (pb_release_single_field n R (iter_at tbl dest j))) \<and>
    safe_update A {} (pb_release n R tbl dest)"
proof (induction d arbitrary: n tbl sz dest)
  case (Suc d)
  obtain ok: "table_ok tbl" "sz < 2 ^ 32" and fields: "\<And>i. i < length tbl \<Longrightarrow> static_field (static_table d (dec_tables R) D) (dec_tables R) D tbl sz i"
    using Suc.prems(1) by (auto simp: list_all_iff)
  obtain n' where n: "n = Suc n'" "d \<le> n'" using Suc.prems(2) by (cases n) auto
  have "safe_update A {} (pb_release_single_field n R (iter_at tbl dest i))" if i: "i < length tbl" for i
  proof -
    note it = iter_at_field [OF ok(1) i, of dest]
    let ?f = "tbl ! i" and ?it = "iter_at tbl dest i"
    let ?ds = "unat (data_size ?f)"
    note field = fields [OF i]
    note within = member_cells [OF field Suc.prems(4)]
    have f: "PB_ATYPE (pb_type ?f) = PB_ATYPE_STATIC" "PB_LTYPE (pb_type ?f) \<noteq> PB_LTYPE_EXTENSION"
      "type_fits (static_table d (dec_tables R) D) (dec_tables R) D ?f"
      "unat (member_offset tbl i) + ?ds * entry_count ?f \<le> sz"
      using field by (auto simp: static_field_def type_fits_def Let_def)
    let ?release = "message_release (pb_release_single_field n' R) (dec_tables R (pb_ptr ?f))"
    have items: "safe_update A {} (items_release ?release (ucast (data_size ?f)) count (pData ?it))"
      if sub: "PB_LTYPE (pb_type ?f) = PB_LTYPE_SUBMESSAGE" and count: "count \<le> entry_count ?f" for count
    proof (rule items_release_safe)
      fix k assume k: "k < count"
      have t: "0 < ?ds" "static_table d (dec_tables R) D (dec_tables R (pb_ptr ?f)) ?ds"
        using f(3) sub by (auto simp: type_fits_def Let_def)
      have "?ds * Suc k \<le> ?ds * entry_count ?f" using k count by (intro mult_le_mono2) simp
      then have item: "k * ?ds + ?ds \<le> ?ds * entry_count ?f" by (simp add: mult.commute)
      moreover have "(2 :: nat) ^ 32 < 2 ^ 64" by simp
      ultimately have "k * ?ds < 2 ^ 64" using f(4) ok(2) by linarith
      then have off: "unat (of_nat k * ucast (data_size ?f) :: u64) = k * ?ds" by (rule unat_scaled)
      then have cells: "cells (pData ?it + of_nat k * ucast (data_size ?f)) ?ds \<subseteq> cells dest sz"
        using cells_within [of "of_nat k * ucast (data_size ?f)" ?ds "?ds * entry_count ?f" "pData ?it"] item within(1)
        by (simp del: iter_at.simps)
      then have "0 \<notin> cells (pData ?it + of_nat k * ucast (data_size ?f)) ?ds" "pData ?it + of_nat k * ucast (data_size ?f) \<noteq> 0"
        using Suc.prems(3) cells_head [OF t(1), of "pData ?it + of_nat k * ucast (data_size ?f)"] by auto
      then show "safe_update A {} (?release (pData ?it + of_nat k * ucast (data_size ?f)))"
        using Suc.IH [OF t(2) n(2), of "pData ?it + of_nat k * ucast (data_size ?f)"] cells Suc.prems(5)
        by (simp add: pb_release_def del: iter_at.simps)
    qed
    let ?body = "\<lambda>m. if PB_LTYPE (pb_type ?f) = PB_LTYPE_SUBMESSAGE then
        bind_result (if PB_HTYPE (pb_type ?f) = PB_HTYPE_REPEATED then
             bind_result (if pSize ?it = pData ?it then Returned (array_size ?f) else peek m (pSize ?it) 4) (\<lambda>count.
               Returned (if array_size ?f < count then array_size ?f else count))
             else Returned 1) (\<lambda>count.
          if pData ?it \<noteq> 0 then items_release ?release (ucast (data_size ?f)) (unat count) (pData ?it) m else Returned m)
        else Returned m"
    have body: "safe_update A {} ?body"
      unfolding safe_update_def
    proof (intro allI impI)
      fix m :: memory assume A: "A \<subseteq> dom m"
      show "\<exists>m'. ?body m = Returned m' \<and> changes {} m m'"
      proof (cases "PB_LTYPE (pb_type ?f) = PB_LTYPE_SUBMESSAGE")
        case sub: True
        obtain count where count: "unat (count :: u32) \<le> entry_count ?f"
          "(if PB_HTYPE (pb_type ?f) = PB_HTYPE_REPEATED then
             bind_result (if pSize ?it = pData ?it then Returned (array_size ?f) else peek m (pSize ?it) 4) (\<lambda>count.
               Returned (if array_size ?f < count then array_size ?f else count))
             else Returned 1) = Returned count"
        proof (cases "PB_HTYPE (pb_type ?f) = PB_HTYPE_REPEATED")
          case True
          have "cells (pSize ?it) 4 \<subseteq> A" using within(4) True Suc.prems(5) by (simp del: iter_at.simps)
          then obtain c :: u32 where "peek m (pSize ?it) 4 = Returned c" using peek_safe A by blast
          then show thesis
            using that [of "if pSize ?it = pData ?it then array_size ?f else if array_size ?f < c then array_size ?f else c"] True
            by (auto simp: entry_count_def word_le_nat_alt not_less simp del: iter_at.simps)
        next
          case False
          then show thesis using that [of 1] by (simp add: entry_count_def)
        qed
        show ?thesis
          using items [OF sub count(1)] A sub
          unfolding safe_update_def by (simp only: count(2) bind_result.simps if_True) (simp del: iter_at.simps)
      qed (simp del: iter_at.simps)
    qed
    have eq: "pb_release_single_field n R ?it = (\<lambda>m.
        bind_result (if PB_HTYPE (pb_type ?f) = PB_HTYPE_ONEOF
          then bind_result (peek m (pSize ?it) 4) (\<lambda>which :: u32. Returned (which = pb_tag ?f)) else Returned True)
        (\<lambda>is_current. if \<not> is_current then Returned m else ?body m))"
      unfolding n(1) using f(1,2) by (intro ext) (simp add: Let_def it bind_result_right del: iter_at.simps cong: if_cong)
    show ?thesis
      unfolding safe_update_def eq
    proof (intro allI impI)
      fix m :: memory assume A: "A \<subseteq> dom m"
      with body obtain m' where m': "?body m = Returned m'" "changes {} m m'" by (rule safe_updateE)
      show "\<exists>m'. bind_result (if PB_HTYPE (pb_type ?f) = PB_HTYPE_ONEOF
          then bind_result (peek m (pSize ?it) 4) (\<lambda>which :: u32. Returned (which = pb_tag ?f)) else Returned True)
        (\<lambda>is_current. if \<not> is_current then Returned m else ?body m) = Returned m' \<and> changes {} m m'"
      proof (cases "PB_HTYPE (pb_type ?f) = PB_HTYPE_ONEOF")
        case True
        have "cells (pSize ?it) 4 \<subseteq> A" using within(4) True Suc.prems(5) by (simp del: iter_at.simps)
        then obtain c :: u32 where "peek m (pSize ?it) 4 = Returned c" using peek_safe A by blast
        then show ?thesis using True m' by (cases "c = pb_tag ?f") (simp_all del: iter_at.simps)
      next
        case False
        then show ?thesis using m' by (simp del: iter_at.simps)
      qed
    qed
  qed
  then show ?case unfolding pb_release_def using message_defaults_safe(2) [where g = "pb_release_single_field n R" and dest = dest, OF ok(1)] by blast
qed simp

end
