(* ===== verification/Pb_Decode_Facts.thy ===== *)
theory Pb_Decode_Facts
  imports Pb_Static
begin

text \<open>
  Decoding into a static message is safe: for any bytes of any source that keeps the rules, the
  decoder returns, reads no further than it may, and writes only to the structure and to its local
  counts.
\<close>

section \<open>Safe decoders\<close>

text \<open>\<open>strict\<close>: a decoder that succeeds has taken a byte.\<close>

definition safe_decoder ::
  "('s pb_source \<Rightarrow> bool) \<Rightarrow> ('s pb_source \<Rightarrow> u8 list) \<Rightarrow> bool \<Rightarrow> u64 set \<Rightarrow> u64 set \<Rightarrow> 's pb_decoder \<Rightarrow> bool" where
  "safe_decoder valid pending strict A W f \<longleftrightarrow> (\<forall>s m. in_ok valid pending s \<and> A \<subseteq> dom m \<longrightarrow>
     (\<exists>ok s' m'. f s m = Returned (ok, s', m') \<and> changes W m m' \<and> weaker valid pending s s' \<and>
       (ok \<longrightarrow> later valid pending s s' \<and> (strict \<longrightarrow> unat (bytes_left s') < unat (bytes_left s)))))"

context byte_source
begin

lemma safe_decoderI:
  assumes "\<And>s m. in_ok valid pending s \<Longrightarrow> A \<subseteq> dom m \<Longrightarrow>
     \<exists>ok s' m'. f s m = Returned (ok, s', m') \<and> changes W m m' \<and> weaker valid pending s s' \<and>
       (ok \<longrightarrow> later valid pending s s' \<and> (strict \<longrightarrow> unat (bytes_left s') < unat (bytes_left s)))"
  shows "safe_decoder valid pending strict A W f"
  unfolding safe_decoder_def using assms by simp

lemma safe_decoderE:
  assumes "safe_decoder valid pending strict A W f" and "in_ok valid pending s" and "A \<subseteq> dom m"
  obtains ok s' m' where "f s m = Returned (ok, s', m')" "changes W m m'" "weaker valid pending s s'" "A \<subseteq> dom m'"
    "in_ok valid pending s'" "ok \<Longrightarrow> later valid pending s s'" "ok \<Longrightarrow> strict \<Longrightarrow> unat (bytes_left s') < unat (bytes_left s)"
proof -
  obtain ok s' m' where r: "f s m = Returned (ok, s', m')" "changes W m m'" "weaker valid pending s s'"
    "ok \<longrightarrow> later valid pending s s' \<and> (strict \<longrightarrow> unat (bytes_left s') < unat (bytes_left s))"
    using assms unfolding safe_decoder_def by metis
  show thesis
    by (rule that [OF r(1-3) changes_dom [OF r(2) assms(3)] weaker_ok [OF assms(2) r(3)]]) (use r(4) in simp_all)
qed

lemma sd_mono:
  assumes "safe_decoder valid pending strict A W f" and "strict' \<Longrightarrow> strict" and "A \<subseteq> A'" and "W \<subseteq> W'"
  shows "safe_decoder valid pending strict' A' W' f"
proof (rule safe_decoderI)
  fix s and m :: memory assume s: "in_ok valid pending s" and "A' \<subseteq> dom m"
  then have m: "A \<subseteq> dom m" using assms(3) by (simp only: order_trans [of A A' "dom m"])
  from assms(1) s m show "\<exists>ok s' m'. f s m = Returned (ok, s', m') \<and> changes W' m m' \<and> weaker valid pending s s' \<and>
       (ok \<longrightarrow> later valid pending s s' \<and> (strict' \<longrightarrow> unat (bytes_left s') < unat (bytes_left s)))"
    by (rule safe_decoderE) (use assms(2) changes_mono [OF _ assms(4)] in auto)
qed

lemma sd_strict: "safe_decoder valid pending True A W f \<Longrightarrow> safe_decoder valid pending strict A W f"
  by (erule sd_mono) simp_all

lemma sd_lax: "safe_decoder valid pending strict A W f \<Longrightarrow> safe_decoder valid pending False A W f"
  by (erule sd_mono) simp_all

lemma sd_error: "safe_decoder valid pending strict A W (dec_error msg)"
  by (rule safe_decoderI) (auto simp: dec_error_def weaker_refl)

lemma sd_done: "safe_decoder valid pending False A W (\<lambda>s m. Returned (True, s, m))"
  by (rule safe_decoderI) (auto simp: weaker_refl later_refl)

lemma sd_fail: "safe_decoder valid pending strict A W (\<lambda>s m. Returned (False, s, m))"
  by (rule safe_decoderI) (auto simp: weaker_refl)

lemma sd_if:
  "(c \<Longrightarrow> safe_decoder valid pending strict A W f) \<Longrightarrow> (\<not> c \<Longrightarrow> safe_decoder valid pending strict A W g) \<Longrightarrow>
    safe_decoder valid pending strict A W (\<lambda>s m. if c then f s m else g s m)"
  by (cases c) simp_all

text \<open>Conditions on the stream.\<close>

lemma sd_if_stream:
  assumes "safe_decoder valid pending strict A W f" and "safe_decoder valid pending strict A W g"
  shows "safe_decoder valid pending strict A W (\<lambda>s m. if c s then f s m else g s m)"
  using assms unfolding safe_decoder_def by simp

lemma sd_update:
  assumes "safe_update A W g" and "safe_decoder valid pending strict A W f"
  shows "safe_decoder valid pending strict A W (\<lambda>s m. bind_result (g m) (f s))"
proof (rule safe_decoderI)
  fix s and m :: memory assume s: "in_ok valid pending s" and m: "A \<subseteq> dom m"
  from assms(1) m obtain m1 where m1: "g m = Returned m1" "changes W m m1" "A \<subseteq> dom m1" by (rule safe_updateE)
  from assms(2) s m1(3) show "\<exists>ok s' m'. bind_result (g m) (f s) = Returned (ok, s', m') \<and> changes W m m' \<and> weaker valid pending s s' \<and>
       (ok \<longrightarrow> later valid pending s s' \<and> (strict \<longrightarrow> unat (bytes_left s') < unat (bytes_left s)))"
    by (rule safe_decoderE) (use m1(1) changes_trans [OF m1(2)] in auto)
qed

lemma sd_peek:
  fixes f :: "'a::len word \<Rightarrow> 's pb_decoder"
  assumes "cells a n \<subseteq> A" and "\<And>w. safe_decoder valid pending strict A W (f w)"
  shows "safe_decoder valid pending strict A W (\<lambda>s m. bind_result (peek m a n) (\<lambda>w. f w s m))"
proof (rule safe_decoderI)
  fix s and m :: memory assume s: "in_ok valid pending s" and m: "A \<subseteq> dom m"
  obtain w :: "'a word" where w: "peek m a n = Returned w" using peek_safe [OF assms(1) m] by blast
  from assms(2) [of w] s m show "\<exists>ok s' m'. bind_result (peek m a n) (\<lambda>w. f w s m) = Returned (ok, s', m') \<and> changes W m m' \<and>
       weaker valid pending s s' \<and> (ok \<longrightarrow> later valid pending s s' \<and> (strict \<longrightarrow> unat (bytes_left s') < unat (bytes_left s)))"
    by (rule safe_decoderE) (use w in auto)
qed

lemma sd_written: "safe_update A W (\<lambda>m. from_option (g m)) \<Longrightarrow> safe_decoder valid pending False A W (\<lambda>s m. written (g m) s)"
  using sd_update [OF _ sd_done, of A W "\<lambda>m. from_option (g m)"] by (simp add: written_def)

lemma sd_value:
  assumes "safe_reader valid pending r" and "\<And>x. safe_decoder valid pending strict A W (f x)"
  shows "safe_decoder valid pending strict A W (\<lambda>s m. with_value (r s) m f)"
proof (rule safe_decoderI)
  fix s and m :: memory assume s: "in_ok valid pending s" and m: "A \<subseteq> dom m"
  obtain v s1 where s1: "r s = Some (v, s1)" "later valid pending s s1" "in_ok valid pending s1"
    using assms(1) s by (rule safe_readerE)
  show "\<exists>ok s' m'. with_value (r s) m f = Returned (ok, s', m') \<and> changes W m m' \<and> weaker valid pending s s' \<and>
       (ok \<longrightarrow> later valid pending s s' \<and> (strict \<longrightarrow> unat (bytes_left s') < unat (bytes_left s)))"
  proof (cases v)
    case None
    then show ?thesis using s1 later_weaker [OF s] by (auto simp: with_value_def)
  next
    case (Some x)
    from assms(2) [of x] s1(3) m show ?thesis
      by (rule safe_decoderE)
        (use s1 Some weaker_trans [OF later_weaker [OF s s1(2)]] later_trans [OF s1(2)] later_shrinks [OF s1(2)] in
          \<open>auto simp: with_value_def\<close>)
  qed
qed

lemma sd_taking:
  assumes "taking_reader valid pending r" and "\<And>x. safe_decoder valid pending False A W (f x)"
  shows "safe_decoder valid pending strict A W (\<lambda>s m. with_value (r s) m f)"
proof (rule sd_strict, rule safe_decoderI)
  fix s and m :: memory assume s: "in_ok valid pending s" and m: "A \<subseteq> dom m"
  obtain v s1 where s1: "r s = Some (v, s1)" "later valid pending s s1" "in_ok valid pending s1"
    "v \<noteq> None \<Longrightarrow> unat (bytes_left s1) < unat (bytes_left s)"
    using assms(1) s by (rule taking_readerE) blast
  show "\<exists>ok s' m'. with_value (r s) m f = Returned (ok, s', m') \<and> changes W m m' \<and> weaker valid pending s s' \<and>
       (ok \<longrightarrow> later valid pending s s' \<and> (True \<longrightarrow> unat (bytes_left s') < unat (bytes_left s)))"
  proof (cases v)
    case None
    then show ?thesis using s1 later_weaker [OF s] by (auto simp: with_value_def)
  next
    case (Some x)
    have fewer: "unat (bytes_left s1) < unat (bytes_left s)" using s1(4) Some by simp
    from assms(2) [of x] s1(3) m obtain ok s2 m2 where r: "f x s1 m = Returned (ok, s2, m2)" "changes W m m2"
      "weaker valid pending s1 s2" "ok \<Longrightarrow> later valid pending s1 s2" by (rule safe_decoderE) blast
    have "unat (bytes_left s2) < unat (bytes_left s)" using weaker_shrinks [OF r(3)] fewer by simp
    then show ?thesis using s1(1) Some r(1,2,4) weaker_trans [OF later_weaker [OF s s1(2)] r(3)] later_trans [OF s1(2)]
      by (auto simp: with_value_def)
  qed
qed

lemma sd_then:
  assumes "safe_decoder valid pending strict A W f" and "safe_decoder valid pending False A W g"
  shows "safe_decoder valid pending strict A W (\<lambda>s m. dec_then (f s m) g)"
proof (rule safe_decoderI)
  fix s and m :: memory assume s: "in_ok valid pending s" and m: "A \<subseteq> dom m"
  obtain ok s1 m1 where r1: "f s m = Returned (ok, s1, m1)" "changes W m m1" "weaker valid pending s s1" "A \<subseteq> dom m1"
    "in_ok valid pending s1" "ok \<Longrightarrow> later valid pending s s1" "ok \<Longrightarrow> strict \<Longrightarrow> unat (bytes_left s1) < unat (bytes_left s)"
    using assms(1) s m by (rule safe_decoderE) blast
  show "\<exists>ok s' m'. dec_then (f s m) g = Returned (ok, s', m') \<and> changes W m m' \<and> weaker valid pending s s' \<and>
       (ok \<longrightarrow> later valid pending s s' \<and> (strict \<longrightarrow> unat (bytes_left s') < unat (bytes_left s)))"
  proof (cases ok)
    case False
    then show ?thesis using r1 by (auto simp: dec_then_def)
  next
    case True
    obtain ok2 s2 m2 where r2: "g s1 m1 = Returned (ok2, s2, m2)" "changes W m1 m2" "weaker valid pending s1 s2"
      "ok2 \<Longrightarrow> later valid pending s1 s2" using assms(2) r1(5,4) by (rule safe_decoderE) blast
    have "later valid pending s s2 \<and> (strict \<longrightarrow> unat (bytes_left s2) < unat (bytes_left s))" if ok2
      using later_trans [OF r1(6) [OF True] r2(4) [OF that]] later_shrinks [OF r2(4) [OF that]] r1(7) [OF True] by auto
    then show ?thesis using True r1(1) r2(1) changes_trans [OF r1(2) r2(2)] weaker_trans [OF r1(3) r2(3)]
      by (auto simp: dec_then_def)
  qed
qed

text \<open>A decoder on a substream, given the stream before the length.\<close>

lemma sd_substream:
  assumes "safe_decoder valid pending False A W f"
  shows "safe_decoder valid pending strict A W (on_substream f)"
proof (rule sd_strict, rule safe_decoderI)
  fix s and m :: memory assume s: "in_ok valid pending s" and m: "A \<subseteq> dom m"
  show "\<exists>ok s' m'. on_substream f s m = Returned (ok, s', m') \<and> changes W m m' \<and> weaker valid pending s s' \<and>
       (ok \<longrightarrow> later valid pending s s' \<and> (True \<longrightarrow> unat (bytes_left s') < unat (bytes_left s)))"
    using s
  proof (cases rule: make_substream_safe)
    case (1 s')
    then show ?thesis using later_weaker [OF s] by (auto simp: on_substream_def with_value_def)
  next
    case (2 s1 sz)
    let ?sub = "s1\<lparr>bytes_left := sz\<rparr>"
    obtain ok sub m1 where r: "f ?sub m = Returned (ok, sub, m1)" "changes W m m1" "weaker valid pending ?sub sub"
      "ok \<Longrightarrow> later valid pending ?sub sub" using assms substream_ok(1) [OF 2(5,4)] m by (rule safe_decoderE) blast
    obtain s2 where s2: "pb_close_string_substream (s1\<lparr>bytes_left := bytes_left s1 - sz\<rparr>) sub = Some (Some (), s2)"
      "weaker valid pending s1 s2" "later valid pending ?sub sub \<longrightarrow> moved valid pending (unat sz) s1 s2"
      using close_substream [OF 2(5,4) r(3)] by blast
    have "on_substream f s m = Returned (ok, s2, m1)" using 2(1) r(1) s2(1) by (simp add: on_substream_def with_value_def)
    moreover have "unat (bytes_left s2) < unat (bytes_left s)" using weaker_shrinks [OF s2(2)] 2(3) by simp
    ultimately show ?thesis
      using r(2,4) s2(3) weaker_trans [OF later_weaker [OF s 2(2)] s2(2)] moved_later_trans [OF 2(2)] by auto
  qed
qed

section \<open>The decoders of the types\<close>

lemma sd_read_to:
  assumes "cells dest (unat count) \<subseteq> W" and "W \<subseteq> A"
  shows "safe_decoder valid pending False A W (read_to dest count)"
proof (rule safe_decoderI)
  fix s and m :: memory assume s: "in_ok valid pending s" and m: "A \<subseteq> dom m"
  note read = pb_read_moves [OF s, of count True]
  have none: "poke m dest [] = Some m" by simp
  show "\<exists>ok s' m'. read_to dest count s m = Returned (ok, s', m') \<and> changes W m m' \<and> weaker valid pending s s' \<and>
       (ok \<longrightarrow> later valid pending s s' \<and> (False \<longrightarrow> unat (bytes_left s') < unat (bytes_left s)))"
  proof (cases "unat count \<le> unat (bytes_left s)")
    case True
    then obtain s' where s': "pb_read True count s = Some (True, take (unat count) (front pending s), s')"
      "moved valid pending (unat count) s s'" using read by auto
    have "length (take (unat count) (front pending s)) = unat count" using True by (simp add: front_length [OF s])
    moreover have "W \<subseteq> dom m" using assms(2) m by (rule order_trans)
    moreover have "unat count \<le> 2 ^ 64" using unsigned_less [of count, where 'a = nat] by simp
    ultimately obtain m' where "poke m dest (take (unat count) (front pending s)) = Some m'" "changes W m m'"
      using poke_safe [of dest "take (unat count) (front pending s)" W m] assms(1) by auto
    then show ?thesis using s' moved_later [OF s'(2)] later_weaker [OF s] by (auto simp: read_to_def)
  next
    case False
    then obtain s' where "pb_read True count s = Some (False, [], s')" "later valid pending s s'" using read by auto
    then show ?thesis using later_weaker [OF s] by (auto simp: read_to_def)
  qed
qed

lemma read_fixed:
  assumes "in_ok valid pending s" and "0 < unat count"
  obtains bs s' where "pb_read True count s = Some (True, bs, s')" "length bs = unat count" "moved valid pending (unat count) s s'"
      "unat (bytes_left s') < unat (bytes_left s)"
    | s' where "pb_read True count s = Some (False, [], s')" "later valid pending s s'"
proof (cases "unat count \<le> unat (bytes_left s)")
  case True
  then obtain s' where s': "pb_read True count s = Some (True, take (unat count) (front pending s), s')"
    "moved valid pending (unat count) s s'" using pb_read_moves [OF assms(1), of count True] by auto
  have "length (take (unat count) (front pending s)) = unat count" using True by (simp add: front_length [OF assms(1)])
  moreover have "unat (bytes_left s') < unat (bytes_left s)" using s'(2) assms(2) by (simp add: moved_def)
  ultimately show thesis using that(1) s' by blast
next
  case False
  then show thesis using that(2) pb_read_moves [OF assms(1), of count True] by auto
qed

lemma sd_fixed32:
  assumes "cells dest 4 \<subseteq> W" and "W \<subseteq> A"
  shows "safe_decoder valid pending strict A W (pb_decode_fixed32 dest)"
proof (rule sd_strict, rule safe_decoderI)
  fix s and m :: memory assume s: "in_ok valid pending s" and m: "A \<subseteq> dom m"
  have pos: "0 < unat (4 :: u64)" by simp
  show "\<exists>ok s' m'. pb_decode_fixed32 dest s m = Returned (ok, s', m') \<and> changes W m m' \<and> weaker valid pending s s' \<and>
       (ok \<longrightarrow> later valid pending s s' \<and> (True \<longrightarrow> unat (bytes_left s') < unat (bytes_left s)))"
    using s pos
  proof (cases rule: read_fixed)
    case (1 bs s')
    then have "length bs = Suc (Suc (Suc (Suc 0)))" by simp
    then obtain b0 b1 b2 b3 where bs: "bs = [b0, b1, b2, b3]" by (auto simp: length_Suc_conv)
    from safe_put [OF assms] m obtain m' where
      "from_option (put m dest 4 (ucast b0 OR push_bit 8 (ucast b1) OR push_bit 16 (ucast b2) OR push_bit 24 (ucast b3) :: u32)) = Returned m'"
      "changes W m m'" by (rule safe_updateE) simp
    then have "pb_decode_fixed32 dest s m = Returned (True, s', m')" using 1(1) bs by (simp add: pb_decode_fixed32_def written_def)
    then show ?thesis using 1(4) \<open>changes W m m'\<close> moved_later [OF 1(3)] later_weaker [OF s] by auto
  next
    case (2 s')
    then show ?thesis using later_weaker [OF s] by (auto simp: pb_decode_fixed32_def)
  qed
qed

lemma sd_fixed64:
  assumes "cells dest 8 \<subseteq> W" and "W \<subseteq> A"
  shows "safe_decoder valid pending strict A W (pb_decode_fixed64 dest)"
proof (rule sd_strict, rule safe_decoderI)
  fix s and m :: memory assume s: "in_ok valid pending s" and m: "A \<subseteq> dom m"
  have pos: "0 < unat (8 :: u64)" by simp
  show "\<exists>ok s' m'. pb_decode_fixed64 dest s m = Returned (ok, s', m') \<and> changes W m m' \<and> weaker valid pending s s' \<and>
       (ok \<longrightarrow> later valid pending s s' \<and> (True \<longrightarrow> unat (bytes_left s') < unat (bytes_left s)))"
    using s pos
  proof (cases rule: read_fixed)
    case (1 bs s')
    then have "length bs = Suc (Suc (Suc (Suc (Suc (Suc (Suc (Suc 0)))))))" by simp
    then obtain b0 b1 b2 b3 b4 b5 b6 b7 where bs: "bs = [b0, b1, b2, b3, b4, b5, b6, b7]" by (auto simp: length_Suc_conv)
    from safe_put [OF assms] m obtain m' where
      "from_option (put m dest 8 (ucast b0 OR push_bit 8 (ucast b1) OR push_bit 16 (ucast b2) OR push_bit 24 (ucast b3) OR
           push_bit 32 (ucast b4) OR push_bit 40 (ucast b5) OR push_bit 48 (ucast b6) OR push_bit 56 (ucast b7) :: u64)) = Returned m'"
      "changes W m m'" by (rule safe_updateE) simp
    then have "pb_decode_fixed64 dest s m = Returned (True, s', m')" using 1(1) bs by (simp add: pb_decode_fixed64_def written_def)
    then show ?thesis using 1(4) \<open>changes W m m'\<close> moved_later [OF 1(3)] later_weaker [OF s] by auto
  next
    case (2 s')
    then show ?thesis using later_weaker [OF s] by (auto simp: pb_decode_fixed64_def)
  qed
qed

lemma sd_after:
  assumes "safe_decoder valid pending strict A W f" and "safe_update A W g"
  shows "safe_decoder valid pending strict A W (\<lambda>s m. bind_result (f s m) (\<lambda>(ok, s, m). bind_result (g m) (\<lambda>m. Returned (ok, s, m))))"
proof (rule safe_decoderI)
  fix s and m :: memory assume s: "in_ok valid pending s" and m: "A \<subseteq> dom m"
  obtain ok s1 m1 where r: "f s m = Returned (ok, s1, m1)" "changes W m m1" "weaker valid pending s s1" "A \<subseteq> dom m1"
    "ok \<Longrightarrow> later valid pending s s1" "ok \<Longrightarrow> strict \<Longrightarrow> unat (bytes_left s1) < unat (bytes_left s)"
    using assms(1) s m by (rule safe_decoderE) blast
  from assms(2) r(4) obtain m2 where "g m1 = Returned m2" "changes W m1 m2" by (rule safe_updateE)
  then show "\<exists>ok s' m'. bind_result (f s m) (\<lambda>(ok, s, m). bind_result (g m) (\<lambda>m. Returned (ok, s, m))) = Returned (ok, s', m') \<and>
      changes W m m' \<and> weaker valid pending s s' \<and>
       (ok \<longrightarrow> later valid pending s s' \<and> (strict \<longrightarrow> unat (bytes_left s') < unat (bytes_left s)))"
    using r changes_trans [OF r(2)] by auto
qed

lemma sd_check_clamped:
  assumes "cells dest (unat sz) \<subseteq> W" and "W \<subseteq> A"
  shows "safe_decoder valid pending False A W (\<lambda>s m. check_clamped (put_signed sz m dest v) w s m)"
    "safe_decoder valid pending False A W (\<lambda>s m. check_clamped (put_unsigned sz m dest v) w s m)"
proof -
  have store: "safe_decoder valid pending False A W (\<lambda>s m. check_clamped (Some (put m dest n x, c)) w s m)"
    if "n = unat sz" "n \<le> 8" for n c and x :: "'z::len word"
    unfolding check_clamped_def option.case prod.case
    by (rule sd_update [OF safe_put]) (use that assms in \<open>auto intro!: sd_if sd_error sd_done\<close>)
  have none: "safe_decoder valid pending False A W (check_clamped None w)"
    using sd_error by (simp add: check_clamped_def [abs_def])
  show "safe_decoder valid pending False A W (\<lambda>s m. check_clamped (put_signed sz m dest v) w s m)"
    "safe_decoder valid pending False A W (\<lambda>s m. check_clamped (put_unsigned sz m dest v) w s m)"
    unfolding put_signed_def put_unsigned_def if_distrib [where f = check_clamped] if_distribR
    by (intro sd_if none store; simp)+
qed

lemma sd_bytes:
  assumes "PB_ATYPE (pb_type f) = PB_ATYPE_STATIC" and "cells dest (unat (data_size f)) \<subseteq> W" and "W \<subseteq> A"
  shows "safe_decoder valid pending strict A W (pb_dec_bytes R f dest)"
  unfolding pb_dec_bytes_def [abs_def]
proof (rule sd_taking [OF varint32_taking])
  fix sz :: u32
  have inside: "safe_decoder valid pending False A W (\<lambda>s m. bind_result (from_option (put m dest 4 sz)) (\<lambda>m. read_to (dest + 4) (ucast sz) s m))"
    if "\<not> ucast (data_size f) < (ucast sz + 4 :: u64)"
  proof -
    have "unat (ucast sz + 4 :: u64) = unat sz + 4"
      using unsigned_less [of sz, where 'a = nat] by (subst unat_sum) simp_all
    then have le: "unat sz + 4 \<le> unat (data_size f)" using that by (simp add: word_less_nat_alt)
    have "cells dest 4 \<subseteq> W" using cells_mono [of 4 "unat (data_size f)" dest] assms(2) le by auto
    moreover have "cells (dest + 4) (unat (ucast sz :: u64)) \<subseteq> W" using cells_within [of 4 "unat sz" "unat (data_size f)" dest] assms(2) le by auto
    ultimately show ?thesis using assms(3) by (intro sd_update [OF safe_put sd_read_to]) simp_all
  qed
  show "safe_decoder valid pending False A W (\<lambda>s m.
     let alloc_size = ucast sz + 4 :: u64 in
     if PB_SIZE_MAX < sz then dec_error ''bytes overflow'' s m
     else if alloc_size < ucast sz then dec_error ''size too large'' s m
     else if PB_ATYPE (pb_type f) = PB_ATYPE_POINTER then
       (if bytes_left s < ucast sz then dec_error ''end-of-stream'' s m
        else dec_then (allocate_field R dest alloc_size 1 s m) (\<lambda>s m.
          bind_result (peek m dest 8) (\<lambda>bdest.
          bind_result (from_option (put m bdest 4 sz)) (\<lambda>m. read_to (bdest + 4) (ucast sz) s m))))
     else if ucast (data_size f) < alloc_size then dec_error ''bytes overflow'' s m
     else bind_result (from_option (put m dest 4 sz)) (\<lambda>m. read_to (dest + 4) (ucast sz) s m))"
    unfolding Let_def assms(1) by (intro sd_if sd_error inside) simp_all
qed

lemma sd_string:
  assumes "PB_ATYPE (pb_type f) = PB_ATYPE_STATIC" and "cells dest (unat (data_size f)) \<subseteq> W" and "W \<subseteq> A"
  shows "safe_decoder valid pending strict A W (pb_dec_string R f dest)"
  unfolding pb_dec_string_def [abs_def]
proof (rule sd_taking [OF varint32_taking])
  fix sz :: u32
  let ?finish = "\<lambda>dest s m. bind_result (read_to dest (ucast sz) s m) (\<lambda>(ok, s, m).
           bind_result (from_option (poke m (dest + ucast sz) [0])) (\<lambda>m. Returned (ok, s, m)))"
  have inside: "safe_decoder valid pending False A W (?finish dest)"
    if "\<not> ucast (data_size f) < (ucast (sz + 1) :: u64)" "\<not> (ucast (sz + 1) :: u64) < ucast sz"
  proof -
    have "sz + 1 \<noteq> 0"
    proof
      assume "sz + 1 = 0"
      then have "sz = - 1" by (simp add: eq_neg_iff_add_eq_0)
      moreover have "(0 :: u64) < ucast (- 1 :: u32)" by code_simp
      ultimately show False using that(2) by simp
    qed
    then have "unat (sz + 1) = unat sz + 1" by (simp add: unatSuc add.commute)
    then have le: "unat sz + 1 \<le> unat (data_size f)" using that(1) by (simp add: word_less_nat_alt)
    have "cells dest (unat (ucast sz :: u64)) \<subseteq> W" using cells_mono [of "unat sz" "unat (data_size f)" dest] assms(2) le by auto
    moreover have "cells (dest + ucast sz) 1 \<subseteq> W" using cells_within [of "ucast sz" 1 "unat (data_size f)" dest] assms(2) le by auto
    ultimately show ?thesis using sd_after [OF sd_read_to safe_poke [where bs = "[0]"]] assms(3) by simp
  qed
  show "safe_decoder valid pending False A W (\<lambda>s m.
     let alloc_size = ucast (sz + 1) :: u64; finish = ?finish in
     if alloc_size < ucast sz then dec_error ''size too large'' s m
     else if PB_ATYPE (pb_type f) = PB_ATYPE_POINTER then
       (if bytes_left s < ucast sz then dec_error ''end-of-stream'' s m
        else dec_then (allocate_field R dest alloc_size 1 s m) (\<lambda>s m.
          bind_result (peek m dest 8) (\<lambda>dest. finish dest s m)))
     else if ucast (data_size f) < alloc_size then dec_error ''string overflow'' s m
     else finish dest s m)"
    unfolding Let_def assms(1) by (intro sd_if sd_error inside) simp_all
qed

lemma sd_fixed_length_bytes:
  assumes "cells dest (unat (data_size f)) \<subseteq> W" and "W \<subseteq> A"
  shows "safe_decoder valid pending strict A W (pb_dec_fixed_length_bytes f dest)"
  unfolding pb_dec_fixed_length_bytes_def [abs_def]
proof (rule sd_taking [OF varint32_taking])
  fix sz :: u32
  have "unat (data_size f) \<le> 2 ^ 64" using unsigned_less [of "data_size f", where 'a = nat] by simp
  then show "safe_decoder valid pending False A W (\<lambda>s m.
     if PB_SIZE_MAX < sz then dec_error ''bytes overflow'' s m
     else if sz = 0 then written (memset_zero m dest (unat (data_size f))) s
     else if sz \<noteq> data_size f then dec_error ''incorrect fixed length bytes size'' s m
     else read_to dest (ucast (data_size f)) s m)"
    using assms by (intro sd_if sd_error sd_written safe_memset sd_read_to) simp_all
qed

text \<open>Any type of a static member, given that the decoder of submessages is safe.\<close>

lemma sd_type:
  assumes fits: "type_fits sub (dec_tables R) D f" and static: "PB_ATYPE (pb_type f) = PB_ATYPE_STATIC"
    and cells: "cells dest (unat (data_size f)) \<subseteq> W" "W \<subseteq> A"
    and message: "PB_LTYPE (pb_type f) = PB_LTYPE_SUBMESSAGE \<Longrightarrow>
      safe_decoder valid pending False A W (noinit (dec_tables R (pb_ptr f)) dest) \<and>
      safe_decoder valid pending False A W (decode_message noinit n R (dec_tables R (pb_ptr f)) dest)"
  shows "safe_decoder valid pending True A W ((PB_DECODERS noinit n R ! unat (PB_LTYPE (pb_type f))) f dest)"
proof -
  let ?lt = "PB_LTYPE (pb_type f)" and ?ds = "unat (data_size f)"
  have "unat ?lt < 11" "unat ?lt \<noteq> 9" using fits by (auto simp: type_fits_def Let_def word_less_nat_alt word_unat_eq_iff)
  then have "unat ?lt = 0 \<or> unat ?lt = 1 \<or> unat ?lt = 2 \<or> unat ?lt = 3 \<or> unat ?lt = 4 \<or> unat ?lt = 5 \<or> unat ?lt = 6 \<or>
      unat ?lt = 7 \<or> unat ?lt = 8 \<or> unat ?lt = 10" by arith
  then consider "unat ?lt = 0" | "unat ?lt = 1" | "unat ?lt = 2" | "unat ?lt = 3" | "unat ?lt = 4" | "unat ?lt = 5"
    | "unat ?lt = 6" | "unat ?lt = 7" | "unat ?lt = 8" | "unat ?lt = 10" by satx
  then show ?thesis
  proof cases
    case 1
    then have "1 \<le> ?ds" using fits by (auto simp: type_fits_def Let_def word_unat_eq_iff split: if_splits)
    then have "cells dest (length [x]) \<subseteq> W" for x :: u8 using cells_mono [of 1 ?ds dest] cells(1) by auto
    then show ?thesis using 1 cells(2)
      by (auto simp: PB_DECODERS_def pb_dec_bool_def [abs_def] simp del: poke.simps intro!: sd_taking [OF varint32_taking] sd_written safe_poke)
  next
    case 2
    then show ?thesis using sd_check_clamped(1) [OF cells]
      by (auto simp: PB_DECODERS_def pb_dec_varint_def [abs_def] Let_def intro!: sd_taking [OF varint_taking])
  next
    case 3
    then show ?thesis using sd_check_clamped(2) [OF cells]
      by (auto simp: PB_DECODERS_def pb_dec_uvarint_def [abs_def] intro!: sd_taking [OF varint_taking])
  next
    case 4
    then show ?thesis using sd_check_clamped(1) [OF cells]
      by (auto simp: PB_DECODERS_def pb_dec_svarint_def [abs_def] intro!: sd_taking [OF svarint_taking])
  next
    case 5
    then have "4 \<le> ?ds" using fits by (auto simp: type_fits_def Let_def word_unat_eq_iff split: if_splits)
    then have "cells dest 4 \<subseteq> W" using cells_mono [of 4 ?ds dest] cells(1) by auto
    then show ?thesis using 5 sd_fixed32 cells(2) by (simp add: PB_DECODERS_def pb_dec_fixed32_def)
  next
    case 6
    then have "8 \<le> ?ds" using fits by (auto simp: type_fits_def Let_def word_unat_eq_iff split: if_splits)
    then have "cells dest 8 \<subseteq> W" using cells_mono [of 8 ?ds dest] cells(1) by auto
    then show ?thesis using 6 sd_fixed64 cells(2) by (simp add: PB_DECODERS_def pb_dec_fixed64_def)
  next
    case 7
    then show ?thesis using sd_bytes [OF static cells] by (simp add: PB_DECODERS_def)
  next
    case 8
    then show ?thesis using sd_string [OF static cells] by (simp add: PB_DECODERS_def)
  next
    case 9
    then have sub: "?lt = PB_LTYPE_SUBMESSAGE" by (simp add: word_unat_eq_iff)
    then have "pb_ptr f \<noteq> 0" using fits by (simp add: type_fits_def Let_def)
    then show ?thesis using 9 sd_substream message [OF sub] by (simp add: PB_DECODERS_def pb_dec_submessage_def [abs_def])
  next
    case 10
    then show ?thesis using sd_fixed_length_bytes [OF cells] by (simp add: PB_DECODERS_def)
  qed
qed

end

end
