(* ===== verification/Pb_Decode_Safe.thy ===== *)
theory Pb_Decode_Safe
  imports Pb_Decode_Facts
begin

text \<open>
  Decoding fields and messages of a static layout is safe: the composition of the safe decoders of
  types, the counts of arrays and unions, the search for the field of a tag, and the fields that are
  skipped.
\<close>

context byte_source
begin

section \<open>Packed arrays\<close>

lemma packed_loop_safe:
  assumes item: "\<And>c. c < array_size (it_field it) \<Longrightarrow> safe_decoder valid pending True A W (func (item_address (pData it) (it_field it) c))"
    and count: "cells (pSize it) 4 \<subseteq> W" and W: "W \<subseteq> A"
  shows "unat (bytes_left s) \<le> k \<Longrightarrow> in_ok valid pending s \<Longrightarrow> A \<subseteq> dom m \<Longrightarrow>
    \<exists>ok s' m'. static_packed_loop k func it s m = Returned (ok, s', m') \<and> changes W m m' \<and> weaker valid pending s s' \<and>
      (ok \<longrightarrow> later valid pending s s')"
proof (induction k arbitrary: s m)
  case 0
  then have "bytes_left s = 0" by (simp add: unat_eq_0)
  then show ?case using 0 later_refl weaker_refl by auto
next
  case (Suc k)
  have in_A: "cells (pSize it) 4 \<subseteq> A" using count W by (rule order_trans)
  show ?case
  proof (cases "bytes_left s = 0")
    case True
    then show ?thesis using later_refl [OF Suc.prems(2)] weaker_refl [OF Suc.prems(2)] by auto
  next
    case more: False
    obtain c :: u32 where c: "peek m (pSize it) 4 = Returned c" using peek_safe [OF in_A Suc.prems(3)] by blast
    show ?thesis
    proof (cases "c < array_size (it_field it)")
      case False
      then show ?thesis using more c later_refl [OF Suc.prems(2)] weaker_refl [OF Suc.prems(2)] by auto
    next
      case True
      obtain ok s1 m1 where r1: "func (item_address (pData it) (it_field it) c) s m = Returned (ok, s1, m1)" "changes W m m1"
        "weaker valid pending s s1" "A \<subseteq> dom m1" "in_ok valid pending s1" "ok \<Longrightarrow> later valid pending s s1"
        "ok \<Longrightarrow> unat (bytes_left s1) < unat (bytes_left s)"
        using item [OF True] Suc.prems(2,3) by (rule safe_decoderE) blast
      show ?thesis
      proof (cases ok)
        case False
        then show ?thesis using more c True r1 by auto
      next
        case read: True
        obtain c1 :: u32 where c1: "peek m1 (pSize it) 4 = Returned c1" using peek_safe [OF in_A r1(4)] by blast
        from safe_put [OF count W] r1(4) obtain m2 where
          m2: "from_option (put m1 (pSize it) 4 (c1 + 1)) = Returned m2" "changes W m1 m2" "A \<subseteq> dom m2"
          by (rule safe_updateE) simp
        have "unat (bytes_left s1) \<le> k" using r1(7) [OF read] Suc.prems(1) by simp
        from Suc.IH [OF this r1(5) m2(3)] obtain ok2 s2 m3 where r2: "static_packed_loop k func it s1 m2 = Returned (ok2, s2, m3)"
          "changes W m2 m3" "weaker valid pending s1 s2" "ok2 \<longrightarrow> later valid pending s1 s2" by blast
        have "static_packed_loop (Suc k) func it s m = Returned (ok2, s2, m3)"
          using more c True r1(1) read c1 m2(1) r2(1) by simp
        moreover have "changes W m m3" using r1(2) m2(2) r2(2) changes_trans by blast
        ultimately show ?thesis
          using weaker_trans [OF r1(3) r2(3)] later_trans [OF r1(6) [OF read]] r2(4) by auto
      qed
    qed
  qed
qed

lemma sd_packed:
  assumes "safe_decoder valid pending False A W f"
  shows "safe_decoder valid pending strict A W (\<lambda>s m.
    with_value (pb_make_string_substream s) m (\<lambda>sub s m.
      bind_result (f sub m) (\<lambda>(status, sub, m).
        if bytes_left sub \<noteq> 0 then dec_error msg s m
        else with_value (pb_close_string_substream s sub) m (\<lambda>_ s m. Returned (status, s, m)))))"
proof (rule sd_strict, rule safe_decoderI)
  fix s and m :: memory assume s: "in_ok valid pending s" and m: "A \<subseteq> dom m"
  let ?r = "with_value (pb_make_string_substream s) m (\<lambda>sub s m.
      bind_result (f sub m) (\<lambda>(status, sub, m).
        if bytes_left sub \<noteq> 0 then dec_error msg s m
        else with_value (pb_close_string_substream s sub) m (\<lambda>_ s m. Returned (status, s, m))))"
  show "\<exists>ok s' m'. ?r = Returned (ok, s', m') \<and> changes W m m' \<and> weaker valid pending s s' \<and>
       (ok \<longrightarrow> later valid pending s s' \<and> (True \<longrightarrow> unat (bytes_left s') < unat (bytes_left s)))"
    using s
  proof (cases rule: make_substream_safe)
    case (1 s')
    then show ?thesis using later_weaker [OF s] by (auto simp: with_value_def)
  next
    case (2 s1 sz)
    let ?sub = "s1\<lparr>bytes_left := sz\<rparr>"
    obtain ok sub m1 where r: "f ?sub m = Returned (ok, sub, m1)" "changes W m m1" "weaker valid pending ?sub sub"
      "ok \<Longrightarrow> later valid pending ?sub sub" using assms substream_ok(1) [OF 2(5,4)] m by (rule safe_decoderE) blast
    show ?thesis
    proof (cases "bytes_left sub = 0")
      case False
      then have "?r = Returned (False, in_error msg (s1\<lparr>bytes_left := bytes_left s1 - sz\<rparr>), m1)"
        using 2(1) r(1) by (simp add: with_value_def dec_error_def)
      then show ?thesis using r(2) weaker_trans [OF later_weaker [OF s 2(2)] substream_ok(2) [OF 2(5,4)]] by auto
    next
      case True
      obtain s2 where s2: "pb_close_string_substream (s1\<lparr>bytes_left := bytes_left s1 - sz\<rparr>) sub = Some (Some (), s2)"
        "weaker valid pending s1 s2" "later valid pending ?sub sub \<longrightarrow> moved valid pending (unat sz) s1 s2"
        using close_substream [OF 2(5,4) r(3)] by blast
      have "?r = Returned (ok, s2, m1)" using 2(1) r(1) s2(1) True by (simp add: with_value_def)
      moreover have "unat (bytes_left s2) < unat (bytes_left s)" using weaker_shrinks [OF s2(2)] 2(3) by simp
      ultimately show ?thesis
        using r(2,4) s2(3) weaker_trans [OF later_weaker [OF s 2(2)] s2(2)] moved_later_trans [OF 2(2)] by auto
    qed
  qed
qed

end

section \<open>Static fields\<close>

lemma field_of_pSize: "it_field (it\<lparr>pSize := l\<rparr>) = it_field it"
  by (simp add: it_field_def)

text \<open>The cells below an address that the decoder may use for a message.\<close>

definition sub_safe ::
  "('s pb_source \<Rightarrow> bool) \<Rightarrow> ('s pb_source \<Rightarrow> u8 list) \<Rightarrow> nat \<Rightarrow> (u64 \<Rightarrow> pb_field_t list) \<Rightarrow> u64 set \<Rightarrow> u64 set \<Rightarrow> u64 set \<Rightarrow>
     (pb_field_t list \<Rightarrow> u64 \<Rightarrow> 's pb_decoder) \<Rightarrow> bool" where
  "sub_safe valid pending d tables D A W noinit \<longleftrightarrow> (\<forall>tbl dest sz. static_table d tables D tbl sz \<and> dest \<noteq> 0 \<and>
     0 \<notin> cells dest sz \<and> cells dest sz \<subseteq> W \<longrightarrow> safe_decoder valid pending False A W (noinit tbl dest))"

context byte_source
begin

lemma sub_safeD:
  "sub_safe valid pending d tables D A W noinit \<Longrightarrow> static_table d tables D tbl sz \<Longrightarrow> dest \<noteq> 0 \<Longrightarrow> 0 \<notin> cells dest sz \<Longrightarrow>
    cells dest sz \<subseteq> W \<Longrightarrow> safe_decoder valid pending False A W (noinit tbl dest)"
  unfolding sub_safe_def by (elim allE impE) (intro conjI)

lemma sd_decode_message:
  assumes sub: "sub_safe valid pending d (dec_tables R) D A W noinit" and tbl: "static_table d (dec_tables R) D tbl sz" and "d \<le> n"
    and dest: "dest \<noteq> 0" "0 \<notin> cells dest sz" "cells dest sz \<subseteq> W" and "W \<subseteq> A" and "D \<subseteq> A"
  shows "safe_decoder valid pending False A W (decode_message noinit n R tbl dest)"
proof -
  have A: "cells dest sz \<subseteq> A" using dest(3) assms(7) by (rule order_trans)
  have noinit: "safe_decoder valid pending False A W (noinit tbl dest)" using sub_safeD [OF sub tbl dest] .
  have release: "safe_update A W (pb_release n R tbl dest)"
    using release_safe [OF tbl assms(3) dest(2,1) A] safe_update_mono [of A "{}" _ A W] by blast
  have defaults: "safe_update A W (pb_message_set_to_defaults n R tbl dest)"
    by (rule safe_update_mono [OF defaults_safe [OF tbl assms(3) dest(2,1) A assms(8)] order_refl dest(3)])
  have "safe_decoder valid pending False A W (\<lambda>s m. bind_result (noinit tbl dest s m) (\<lambda>(status, s, m).
      if \<not> status then bind_result (pb_release n R tbl dest m) (\<lambda>m. Returned (False, s, m)) else Returned (True, s, m)))"
  proof (rule safe_decoderI)
    fix s and m :: memory assume s: "in_ok valid pending s" and m: "A \<subseteq> dom m"
    obtain ok s1 m1 where r: "noinit tbl dest s m = Returned (ok, s1, m1)" "changes W m m1" "weaker valid pending s s1" "A \<subseteq> dom m1"
      "ok \<Longrightarrow> later valid pending s s1" using noinit s m by (rule safe_decoderE) blast
    from release r(4) obtain m2 where "pb_release n R tbl dest m1 = Returned m2" "changes W m1 m2" by (rule safe_updateE)
    then show "\<exists>ok s' m'. bind_result (noinit tbl dest s m) (\<lambda>(status, s, m).
        if \<not> status then bind_result (pb_release n R tbl dest m) (\<lambda>m. Returned (False, s, m)) else Returned (True, s, m)) =
        Returned (ok, s', m') \<and> changes W m m' \<and> weaker valid pending s s' \<and>
       (ok \<longrightarrow> later valid pending s s' \<and> (False \<longrightarrow> unat (bytes_left s') < unat (bytes_left s)))"
      using r changes_trans [OF r(2)] by (cases ok) auto
  qed
  from sd_update [OF defaults this] show ?thesis by (simp add: decode_message_def [abs_def])
qed

text \<open>
  The iterator of a field: \<open>pSize\<close> is the one of the structure, or the address of the local count for an
  array without a count member.
\<close>

lemma sd_static_field:
  assumes field: "static_field (static_table d (dec_tables R) D) (dec_tables R) D tbl sz i"
    and tbl: "table_ok tbl" "i < length tbl" "sz < 2 ^ 32"
    and sub: "sub_safe valid pending d (dec_tables R) D A W noinit" and "d \<le> n"
    and dest: "dest \<noteq> 0" "0 \<notin> cells dest sz" "cells dest sz \<subseteq> W" and "W \<subseteq> A" and "D \<subseteq> A"
    and it: "it = (iter_at tbl dest i)\<lparr>pSize := l\<rparr>"
    and l: "l = pSize (iter_at tbl dest i) \<or> PB_HTYPE (pb_type (tbl ! i)) = PB_HTYPE_REPEATED \<and> cells l 4 \<subseteq> W"
  shows "safe_decoder valid pending True A W (decode_static_field noinit n R wt it)"
proof -
  let ?f = "tbl ! i" and ?ds = "unat (data_size (tbl ! i))"
  let ?func = "(PB_DECODERS noinit n R ! unat (PB_LTYPE (pb_type ?f))) ?f"
  have f: "it_field it = ?f" using iter_at_field [OF tbl(1,2), of dest] by (simp add: it field_of_pSize del: iter_at.simps)
  have p: "pData it = pData (iter_at tbl dest i)" "pSize it = l" by (simp_all add: it)
  note within = member_cells [OF field dest(1)]
  have fits: "type_fits (static_table d (dec_tables R) D) (dec_tables R) D ?f" "PB_ATYPE (pb_type ?f) = PB_ATYPE_STATIC"
    using field by (auto simp: static_field_def Let_def)
  have submessage: "0 < ?ds \<and> static_table d (dec_tables R) D (dec_tables R (pb_ptr ?f)) ?ds"
    if "PB_LTYPE (pb_type ?f) = PB_LTYPE_SUBMESSAGE" using fits(1) that by (simp add: type_fits_def Let_def)
  have func: "safe_decoder valid pending True A W (?func a)" if a: "cells a ?ds \<subseteq> cells dest sz" for a
  proof (rule sd_type [OF fits _ \<open>W \<subseteq> A\<close>])
    show "cells a ?ds \<subseteq> W" using a dest(3) by (rule order_trans)
    assume "PB_LTYPE (pb_type ?f) = PB_LTYPE_SUBMESSAGE"
    from submessage [OF this] have t: "0 < ?ds" "static_table d (dec_tables R) D (dec_tables R (pb_ptr ?f)) ?ds" by auto
    have "a \<noteq> 0" "0 \<notin> cells a ?ds" using a dest(2) cells_head [OF t(1), of a] by auto
    moreover have "cells a ?ds \<subseteq> W" using a dest(3) by (rule order_trans)
    ultimately show "safe_decoder valid pending False A W (noinit (dec_tables R (pb_ptr ?f)) a) \<and>
        safe_decoder valid pending False A W (decode_message noinit n R (dec_tables R (pb_ptr ?f)) a)"
      by (intro conjI sub_safeD [OF sub t(2)] sd_decode_message [OF sub t(2) \<open>d \<le> n\<close> _ _ _ \<open>W \<subseteq> A\<close> \<open>D \<subseteq> A\<close>])
  qed
  have count: "cells l 4 \<subseteq> W" if "PB_HTYPE (pb_type ?f) = PB_HTYPE_REPEATED \<or> PB_HTYPE (pb_type ?f) = PB_HTYPE_ONEOF"
    using l order_trans [OF within(4) [OF that] dest(3)] by metis
  have lt: "\<not> PB_LTYPES_COUNT \<le> PB_LTYPE (pb_type ?f)" using fits(1) by (simp add: type_fits_def Let_def not_le)
  have count_A: "cells l 4 \<subseteq> A" if "PB_HTYPE (pb_type ?f) = PB_HTYPE_REPEATED \<or> PB_HTYPE (pb_type ?f) = PB_HTYPE_ONEOF"
    using count [OF that] \<open>W \<subseteq> A\<close> by (rule order_trans)
  show ?thesis
  proof (cases rule: htype_cases [of "pb_type ?f"])
    case 1
    then show ?thesis using func within(2) lt by (simp add: decode_static_field_def [abs_def] Let_def f p)
  next
    case 2
    have flag: "safe_update A W (\<lambda>m. from_option (if l \<noteq> pData it then poke m l [1] else Some m))"
    proof (cases "l = pData it")
      case True
      then show ?thesis using safe_nothing by simp
    next
      case False
      then have "l = pSize (iter_at tbl dest i)" "pSize (iter_at tbl dest i) \<noteq> pData (iter_at tbl dest i)" using l 2 p by auto
      then have "cells l (length [1 :: u8]) \<subseteq> W" using order_trans [OF within(3) [OF 2] dest(3)] by simp
      from safe_poke [OF this \<open>W \<subseteq> A\<close>] show ?thesis using False by (simp del: poke.simps)
    qed
    have "safe_decoder valid pending True A W (?func (pData it))" using func within(2) 2 p by simp
    from sd_update [OF flag this] show ?thesis using 2 lt
      by (simp add: decode_static_field_def [abs_def] Let_def f p cong: if_cong)
  next
    case 3
    have item: "safe_decoder valid pending True A W (?func (item_address (pData it) ?f c))" if "c < array_size ?f" for c
      using func item_cells [OF field dest(1) tbl(3) 3 that] p by simp
    note cl = count [OF disjI1 [OF 3]] and clA = count_A [OF disjI1 [OF 3]]
    have loop: "safe_decoder valid pending False A W (\<lambda>s m. static_packed_loop (unat (bytes_left s)) ?func it s m)"
      by (rule safe_decoderI, drule packed_loop_safe [OF _ _ \<open>W \<subseteq> A\<close> order_refl, rotated 2])
        (use item cl in \<open>simp_all add: f p\<close>)
    have single: "safe_decoder valid pending True A W (\<lambda>s m. bind_result (peek m l 4) (\<lambda>sz.
            bind_result (from_option (put m l 4 (sz + 1 :: u32))) (\<lambda>m.
              if array_size ?f \<le> sz then dec_error ''array overflow'' s m
              else ?func (item_address (pData it) ?f sz) s m)))"
      by (intro sd_peek clA sd_update safe_put cl \<open>W \<subseteq> A\<close> sd_if sd_error item) simp_all
    show ?thesis using 3 lt sd_packed [OF loop] single
      by (simp add: decode_static_field_def [abs_def] Let_def f p sd_if cong: if_cong)
  next
    case 4
    note cells = within(2) and cl = count [OF disjI2 [OF 4]] and clA = count_A [OF disjI2 [OF 4]]
    have ds: "cells (pData it) ?ds \<subseteq> cells dest sz" using within(2) 4 p by simp
    have fresh: "safe_update A W (\<lambda>m. bind_result (from_option (memset_zero m (pData it) ?ds))
        (pb_message_set_to_defaults n R (dec_tables R (pb_ptr ?f)) (pData it)))" if lt: "PB_LTYPE (pb_type ?f) = PB_LTYPE_SUBMESSAGE"
    proof (rule safe_update_bind)
      have "?ds \<le> 2 ^ 64" using unsigned_less [of "data_size ?f", where 'a = nat] by simp
      then show "safe_update A W (\<lambda>m. from_option (memset_zero m (pData it) ?ds))"
        using order_trans [OF ds dest(3)] \<open>W \<subseteq> A\<close> by (intro safe_memset)
      from submessage [OF lt] have t: "0 < ?ds" "static_table d (dec_tables R) D (dec_tables R (pb_ptr ?f)) ?ds" by auto
      have "pData it \<noteq> 0" "0 \<notin> cells (pData it) ?ds" using ds dest(2) cells_head [OF t(1), of "pData it"] by auto
      then have "safe_update A (cells (pData it) ?ds) (pb_message_set_to_defaults n R (dec_tables R (pb_ptr ?f)) (pData it))"
        using order_trans [OF order_trans [OF ds dest(3)] \<open>W \<subseteq> A\<close>] \<open>D \<subseteq> A\<close> by (intro defaults_safe [OF t(2) \<open>d \<le> n\<close>])
      then show "safe_update A W (pb_message_set_to_defaults n R (dec_tables R (pb_ptr ?f)) (pData it))"
        using order_trans [OF ds dest(3)] by (rule safe_update_mono [OF _ order_refl])
    qed
    have prepare: "safe_update A W (\<lambda>m. if PB_LTYPE (pb_type ?f) = PB_LTYPE_SUBMESSAGE then
             bind_result (peek m l 4) (\<lambda>which.
               if which \<noteq> pb_tag ?f
               then bind_result (from_option (memset_zero m (pData it) ?ds))
                      (pb_message_set_to_defaults n R (dec_tables R (pb_ptr ?f)) (pData it))
               else Returned m)
           else Returned m)"
      by (intro safe_update_if safe_read clA fresh safe_nothing)
    have tag: "safe_update A W (\<lambda>m. from_option (put m l 4 (pb_tag ?f)))" by (rule safe_put [OF cl \<open>W \<subseteq> A\<close>]) simp
    have "safe_decoder valid pending True A W (\<lambda>s m. bind_result (if PB_LTYPE (pb_type ?f) = PB_LTYPE_SUBMESSAGE then
             bind_result (peek m l 4) (\<lambda>which.
               if which \<noteq> pb_tag ?f
               then bind_result (from_option (memset_zero m (pData it) ?ds))
                      (pb_message_set_to_defaults n R (dec_tables R (pb_ptr ?f)) (pData it))
               else Returned m)
           else Returned m) (\<lambda>m. bind_result (from_option (put m l 4 (pb_tag ?f))) (?func (pData it) s)))"
      by (rule sd_update [OF prepare sd_update [OF tag func [OF ds]]])
    then show ?thesis using 4 lt by (simp add: decode_static_field_def [abs_def] Let_def f p cong: if_cong)
  qed
qed

end

section \<open>Iterators of the decoder\<close>

lemma next_pSize:
  "PB_HTYPE (pb_type (it_field it)) \<noteq> PB_HTYPE_ONEOF \<Longrightarrow> pb_tag (it_field it) \<noteq> 0 \<Longrightarrow>
    pb_field_iter_next (it\<lparr>pSize := l\<rparr>) = pb_field_iter_next it"
proof -
  have moved_field: "it_field (it\<lparr>pSize := l, it_pos := k\<rparr>) = it_field (it\<lparr>it_pos := k\<rparr>)" for k
    by (simp add: it_field_def)
  assume "PB_HTYPE (pb_type (it_field it)) \<noteq> PB_HTYPE_ONEOF" "pb_tag (it_field it) \<noteq> 0"
  then show ?thesis unfolding pb_field_iter_next_def Let_def field_of_pSize by (simp add: moved_field)
qed

lemma find_pSize:
  assumes "table_ok tbl" and "k < length tbl" and "PB_HTYPE (pb_type (tbl ! k)) \<noteq> PB_HTYPE_ONEOF"
  shows "pb_field_iter_find t ((iter_at tbl dest k)\<lparr>pSize := l\<rparr>) =
    (if field_matches tbl t k then Returned (True, (iter_at tbl dest k)\<lparr>pSize := l\<rparr>) else pb_field_iter_find t (iter_at tbl dest k))"
proof -
  note f = iter_at_field [OF assms(1,2), of dest]
  have "pb_field_iter_next ((iter_at tbl dest k)\<lparr>pSize := l\<rparr>) = pb_field_iter_next (iter_at tbl dest k)"
    using assms(3) table_ok_tag [OF assms(1,2)] by (intro next_pSize) (simp_all add: f del: iter_at.simps)
  then show ?thesis
    by (simp add: pb_field_iter_find_def field_of_pSize f field_matches_def iter_at_simps [OF assms(1,2)] del: iter_at.simps)
qed

definition iter_ok :: "pb_field_t list \<Rightarrow> u64 \<Rightarrow> u64 set \<Rightarrow> pb_field_iter_t \<Rightarrow> bool" where
  "iter_ok tbl dest W it \<longleftrightarrow> (\<exists>i l. i < length tbl \<and> it = (iter_at tbl dest i)\<lparr>pSize := l\<rparr> \<and>
     (l = pSize (iter_at tbl dest i) \<or> PB_HTYPE (pb_type (tbl ! i)) = PB_HTYPE_REPEATED \<and> cells l 4 \<subseteq> W))"

lemma iter_okE:
  assumes "iter_ok tbl dest W it"
  obtains i l where "i < length tbl" "it = (iter_at tbl dest i)\<lparr>pSize := l\<rparr>"
    "l = pSize (iter_at tbl dest i) \<or> PB_HTYPE (pb_type (tbl ! i)) = PB_HTYPE_REPEATED \<and> cells l 4 \<subseteq> W"
  using assms unfolding iter_ok_def by blast

lemma iter_at_ok: "i < length tbl \<Longrightarrow> iter_ok tbl dest W (iter_at tbl dest i)"
  unfolding iter_ok_def by (intro exI [of _ i] exI [of _ "pSize (iter_at tbl dest i)"]) simp

lemma find_iter_at_ok:
  assumes "table_ok tbl" and "k < length tbl"
  obtains found j where "pb_field_iter_find t (iter_at tbl dest k) = Returned (found, iter_at tbl dest j)" "j < length tbl"
    "found \<longrightarrow> field_matches tbl t j"
proof (cases "List.find (field_matches tbl t) (map (\<lambda>j. (k + j) mod length tbl) [0..<length tbl])")
  case None
  then show thesis using that [of False k] find_iter_at [OF assms, of t dest] assms(2) by simp
next
  case (Some j)
  then have "field_matches tbl t j" "j \<in> set (map (\<lambda>j. (k + j) mod length tbl) [0..<length tbl])"
    by (auto simp: find_Some_iff)
  moreover have "0 < length tbl" using assms(2) by linarith
  ultimately have "j < length tbl" by (auto intro: mod_less_divisor)
  then show thesis using that [of True j] find_iter_at [OF assms, of t dest] Some \<open>field_matches tbl t j\<close> by simp
qed

lemma find_ok:
  assumes "table_ok tbl" and "iter_ok tbl dest W it"
  obtains found it' where "pb_field_iter_find t it = Returned (found, it')" "iter_ok tbl dest W it'"
proof -
  from assms(2) obtain k l where k: "k < length tbl" and it: "it = (iter_at tbl dest k)\<lparr>pSize := l\<rparr>"
    and l: "l = pSize (iter_at tbl dest k) \<or> PB_HTYPE (pb_type (tbl ! k)) = PB_HTYPE_REPEATED \<and> cells l 4 \<subseteq> W" by (rule iter_okE)
  obtain found j where find: "pb_field_iter_find t (iter_at tbl dest k) = Returned (found, iter_at tbl dest j)" "j < length tbl"
    using find_iter_at_ok [OF assms(1) k] by blast
  show thesis
  proof (cases "l = pSize (iter_at tbl dest k)")
    case True
    then have "it = iter_at tbl dest k" by (simp add: it)
    then show thesis using that find iter_at_ok by blast
  next
    case False
    then have "PB_HTYPE (pb_type (tbl ! k)) \<noteq> PB_HTYPE_ONEOF" using l by auto
    note eq = find_pSize [where dest = dest and l = l and t = t, OF assms(1) k this, folded it]
    show thesis
    proof (cases "field_matches tbl t k")
      case True
      then show thesis using that [of True it] eq assms(2) by simp
    next
      case False
      then show thesis using that [of found "iter_at tbl dest j"] eq find iter_at_ok by simp
    qed
  qed
qed

end
