(* ===== verification/Pb_Decode_Message.thy ===== *)
theory Pb_Decode_Message
  imports Pb_Decode_Safe
begin

text \<open>
  Decoding a whole message of a static layout is safe: a field after the member of a union was
  released, the loop over the fields of the stream with its state, and \<open>pb_decode\<close> for any nesting.
\<close>

section \<open>Safe steps\<close>

lemma if_not: "(if \<not> c then x else y) = (if c then y else x)"
  by simp

text \<open>A decoder that also returns a value, of which \<open>P\<close> holds.\<close>

definition safe_step ::
  "('s pb_source \<Rightarrow> bool) \<Rightarrow> ('s pb_source \<Rightarrow> u8 list) \<Rightarrow> ('x \<Rightarrow> bool) \<Rightarrow> u64 set \<Rightarrow> u64 set \<Rightarrow>
     ('s pb_istream \<Rightarrow> memory \<Rightarrow> (bool \<times> 'x \<times> 's pb_istream \<times> memory) loop_result) \<Rightarrow> bool" where
  "safe_step valid pending P A W f \<longleftrightarrow> (\<forall>s m. in_ok valid pending s \<and> A \<subseteq> dom m \<longrightarrow>
     (\<exists>ok x s' m'. f s m = Returned (ok, x, s', m') \<and> P x \<and> changes W m m' \<and> weaker valid pending s s' \<and>
       (ok \<longrightarrow> later valid pending s s')))"

context byte_source
begin

lemma safe_stepI:
  assumes "\<And>s m. in_ok valid pending s \<Longrightarrow> A \<subseteq> dom m \<Longrightarrow>
    \<exists>ok x s' m'. f s m = Returned (ok, x, s', m') \<and> P x \<and> changes W m m' \<and> weaker valid pending s s' \<and>
      (ok \<longrightarrow> later valid pending s s')"
  shows "safe_step valid pending P A W f"
  unfolding safe_step_def using assms by simp

lemma safe_stepE:
  assumes "safe_step valid pending P A W f" and "in_ok valid pending s" and "A \<subseteq> dom m"
  obtains ok x s' m' where "f s m = Returned (ok, x, s', m')" "P x" "changes W m m'" "weaker valid pending s s'" "A \<subseteq> dom m'"
    "in_ok valid pending s'" "ok \<Longrightarrow> later valid pending s s'"
proof -
  obtain ok x s' m' where r: "f s m = Returned (ok, x, s', m')" "P x" "changes W m m'" "weaker valid pending s s'"
    "ok \<longrightarrow> later valid pending s s'"
    using assms unfolding safe_step_def by metis
  show thesis
    by (rule that [OF r(1-4) changes_dom [OF r(3) assms(3)] weaker_ok [OF assms(2) r(4)]]) (use r(5) in simp_all)
qed

lemma ss_if:
  "(c \<Longrightarrow> safe_step valid pending P A W f) \<Longrightarrow> (\<not> c \<Longrightarrow> safe_step valid pending P A W g) \<Longrightarrow>
    safe_step valid pending P A W (\<lambda>s m. if c then f s m else g s m)"
  by (cases c) simp_all

lemma ss_fail: "P x \<Longrightarrow> safe_step valid pending P A W (\<lambda>s m. Returned (False, x, s, m))"
  by (rule safe_stepI) (auto simp: weaker_refl)

lemma ss_error: "P x \<Longrightarrow> safe_step valid pending P A W (\<lambda>s m. Returned (False, x, in_error msg s, m))"
  by (rule safe_stepI) (auto simp: weaker_refl)

lemma ss_done: "P x \<Longrightarrow> safe_step valid pending P A W (\<lambda>s m. Returned (True, x, s, m))"
  by (rule safe_stepI) (auto simp: weaker_refl later_refl)

lemma ss_decoder:
  assumes "safe_decoder valid pending False A W f" and "P x"
  shows "safe_step valid pending P A W (\<lambda>s m. bind_result (f s m) (\<lambda>(ok, s, m). Returned (ok, x, s, m)))"
proof (rule safe_stepI)
  fix s and m :: memory assume "in_ok valid pending s" "A \<subseteq> dom m"
  with assms(1) show "\<exists>ok x' s' m'. bind_result (f s m) (\<lambda>(ok, s, m). Returned (ok, x, s, m)) = Returned (ok, x', s', m') \<and> P x' \<and>
      changes W m m' \<and> weaker valid pending s s' \<and> (ok \<longrightarrow> later valid pending s s')"
    by (rule safe_decoderE) (use assms(2) in auto)
qed

lemma ss_update:
  assumes "safe_update A W g" and "safe_step valid pending P A W f"
  shows "safe_step valid pending P A W (\<lambda>s m. bind_result (g m) (f s))"
proof (rule safe_stepI)
  fix s and m :: memory assume s: "in_ok valid pending s" and m: "A \<subseteq> dom m"
  from assms(1) m obtain m1 where m1: "g m = Returned m1" "changes W m m1" "A \<subseteq> dom m1" by (rule safe_updateE)
  from assms(2) s m1(3) show "\<exists>ok x s' m'. bind_result (g m) (f s) = Returned (ok, x, s', m') \<and> P x \<and> changes W m m' \<and>
      weaker valid pending s s' \<and> (ok \<longrightarrow> later valid pending s s')"
    by (rule safe_stepE) (use m1(1) changes_trans [OF m1(2)] in auto)
qed

lemma ss_peek:
  fixes f :: "'a::len word \<Rightarrow> 's pb_istream \<Rightarrow> memory \<Rightarrow> (bool \<times> 'x \<times> 's pb_istream \<times> memory) loop_result"
  assumes "cells a n \<subseteq> A" and "\<And>w. safe_step valid pending P A W (f w)"
  shows "safe_step valid pending P A W (\<lambda>s m. bind_result (peek m a n) (\<lambda>w. f w s m))"
proof (rule safe_stepI)
  fix s and m :: memory assume s: "in_ok valid pending s" and m: "A \<subseteq> dom m"
  obtain w :: "'a word" where w: "peek m a n = Returned w" using peek_safe [OF assms(1) m] by blast
  from assms(2) [of w] s m show "\<exists>ok x s' m'. bind_result (peek m a n) (\<lambda>w. f w s m) = Returned (ok, x, s', m') \<and> P x \<and>
      changes W m m' \<and> weaker valid pending s s' \<and> (ok \<longrightarrow> later valid pending s s')"
    by (rule safe_stepE) (use w in auto)
qed

lemma ss_then:
  assumes "safe_step valid pending P A W f" and "\<And>x. P x \<Longrightarrow> safe_step valid pending Q A W (g x)" and "\<And>x. P x \<Longrightarrow> Q (h x)"
  shows "safe_step valid pending Q A W (\<lambda>s m. bind_result (f s m) (\<lambda>(ok, x, s, m). if ok then g x s m else Returned (False, h x, s, m)))"
proof (rule safe_stepI)
  fix s and m :: memory assume s: "in_ok valid pending s" and m: "A \<subseteq> dom m"
  obtain ok x s1 m1 where r1: "f s m = Returned (ok, x, s1, m1)" "P x" "changes W m m1" "weaker valid pending s s1"
    "A \<subseteq> dom m1" "in_ok valid pending s1" "ok \<Longrightarrow> later valid pending s s1" using assms(1) s m by (rule safe_stepE) blast
  show "\<exists>ok y s' m'. bind_result (f s m) (\<lambda>(ok, x, s, m). if ok then g x s m else Returned (False, h x, s, m)) = Returned (ok, y, s', m') \<and>
      Q y \<and> changes W m m' \<and> weaker valid pending s s' \<and> (ok \<longrightarrow> later valid pending s s')"
  proof (cases ok)
    case False
    then show ?thesis using r1 assms(3) by auto
  next
    case True
    obtain ok2 y s2 m2 where r2: "g x s1 m1 = Returned (ok2, y, s2, m2)" "Q y" "changes W m1 m2" "weaker valid pending s1 s2"
      "ok2 \<Longrightarrow> later valid pending s1 s2" using assms(2) [OF r1(2)] r1(6,5) by (rule safe_stepE) blast
    then show ?thesis using True r1(1) changes_trans [OF r1(3)] weaker_trans [OF r1(4)] later_trans [OF r1(7)] by auto
  qed
qed

section \<open>Fields\<close>

lemma ss_release_union:
  assumes tbl: "static_table d (dec_tables R) D tbl sz" and "d \<le> n" and dest: "dest \<noteq> 0" "0 \<notin> cells dest sz" "cells dest sz \<subseteq> A"
    and i: "i < length tbl" "PB_HTYPE (pb_type (tbl ! i)) = PB_HTYPE_ONEOF"
  shows "safe_step valid pending (\<lambda>it. \<exists>j < length tbl. it = iter_at tbl dest j) A W (pb_release_union_field n R (iter_at tbl dest i))"
proof -
  obtain d' where ok: "table_ok tbl" and field: "\<And>i. i < length tbl \<Longrightarrow> static_field (static_table d' (dec_tables R) D) (dec_tables R) D tbl sz i"
    using tbl by (rule static_tableD) blast
  let ?P = "\<lambda>it. \<exists>j < length tbl. it = iter_at tbl dest j"
  have count: "cells (pSize (iter_at tbl dest i)) 4 \<subseteq> A"
    using member_cells(4) [OF field [OF i(1)] dest(1)] i(2) dest(3) by (simp del: iter_at.simps)
  have release: "safe_update A W (pb_release_single_field n R (iter_at tbl dest j))" if "j < length tbl" for j
    using release_safe [OF tbl assms(2) dest(2,1,3)] that safe_update_mono [of A "{}" _ A W] by blast
  have static: "PB_ATYPE (pb_type (it_field (iter_at tbl dest j))) \<noteq> PB_ATYPE_POINTER" if "j < length tbl" for j
    using field [OF that] by (simp add: iter_at_field [OF ok that] static_field_def Let_def del: iter_at.simps)
  have P: "?P (iter_at tbl dest j)" if "j < length tbl" for j using that by blast
  have again: "safe_step valid pending ?P A W (\<lambda>s m. bind_result (pb_field_iter_find t (iter_at tbl dest j)) (\<lambda>(found, it).
          if \<not> found then Returned (False, it, in_error msg s, m)
          else bind_result (if PB_ATYPE (pb_type (it_field it)) = PB_ATYPE_POINTER
                            then from_option (put m (pData it) 8 (0 :: u64)) else Returned m)
            (\<lambda>m. Returned (True, it, s, m))))" if j: "j < length tbl" for t j msg
  proof -
    obtain found k where "pb_field_iter_find t (iter_at tbl dest j) = Returned (found, iter_at tbl dest k)" "k < length tbl"
      using find_iter_at_ok [OF ok j] by blast
    then show ?thesis using static [of k] P [of k] by (cases found) (simp_all add: ss_error ss_done del: iter_at.simps)
  qed
  have other: "safe_step valid pending ?P A W (\<lambda>s m. bind_result (pb_field_iter_find t (iter_at tbl dest i)) (\<lambda>(found, it).
      if \<not> found then Returned (False, it, in_error msg s, m)
      else bind_result (pb_release_single_field n R it m) (\<lambda>m.
        bind_result (pb_field_iter_find t' it) (\<lambda>(found, it).
          if \<not> found then Returned (False, it, in_error msg' s, m)
          else bind_result (if PB_ATYPE (pb_type (it_field it)) = PB_ATYPE_POINTER
                            then from_option (put m (pData it) 8 (0 :: u64)) else Returned m)
            (\<lambda>m. Returned (True, it, s, m))))))" for t t' msg msg'
  proof -
    obtain found k where "pb_field_iter_find t (iter_at tbl dest i) = Returned (found, iter_at tbl dest k)" "k < length tbl"
      using find_iter_at_ok [OF ok i(1)] by blast
    then show ?thesis using P [of k] ss_update [OF release again] by (cases found) (simp_all add: ss_error del: iter_at.simps)
  qed
  show ?thesis
    unfolding pb_release_union_field_def [abs_def] Let_def
    by (intro ss_peek count ss_if ss_done P i(1) other)
qed

lemma ss_field:
  assumes tbl: "static_table (Suc d) (dec_tables R) D tbl sz" and "Suc d \<le> n"
    and sub: "sub_safe valid pending d (dec_tables R) D A W noinit"
    and dest: "dest \<noteq> 0" "0 \<notin> cells dest sz" "cells dest sz \<subseteq> W" and "W \<subseteq> A" and "D \<subseteq> A" and it: "iter_ok tbl dest W it"
  shows "safe_step valid pending (iter_ok tbl dest W) A W (decode_field noinit n R wt it)"
proof -
  from tbl have ok: "table_ok tbl" "sz < 2 ^ 32"
    and field: "\<And>i. i < length tbl \<Longrightarrow> static_field (static_table d (dec_tables R) D) (dec_tables R) D tbl sz i"
    by (auto simp: list_all_iff)
  have in_A: "cells dest sz \<subseteq> A" using dest(3) \<open>W \<subseteq> A\<close> by (rule order_trans)
  have le: "d \<le> n" using assms(2) by simp
  have decode: "safe_step valid pending (iter_ok tbl dest W) A W (\<lambda>s m.
      let at = PB_ATYPE (pb_type (it_field it)) in
      bind_result
        (if at = PB_ATYPE_STATIC then decode_static_field noinit n R wt it s m
         else if at = PB_ATYPE_POINTER then decode_pointer_field noinit n R wt it s m
         else if at = PB_ATYPE_CALLBACK then decode_callback_field R wt it s m
         else dec_error ''invalid field type'' s m) (\<lambda>(ok, s, m). Returned (ok, it, s, m)))"
    if it: "iter_ok tbl dest W it" for it
  proof -
    from it obtain i l where i: "i < length tbl" and it_eq: "it = (iter_at tbl dest i)\<lparr>pSize := l\<rparr>"
      and l: "l = pSize (iter_at tbl dest i) \<or> PB_HTYPE (pb_type (tbl ! i)) = PB_HTYPE_REPEATED \<and> cells l 4 \<subseteq> W" by (rule iter_okE)
    have "it_field it = tbl ! i" by (simp add: it_eq field_of_pSize iter_at_field [OF ok(1) i] del: iter_at.simps)
    then have "PB_ATYPE (pb_type (it_field it)) = PB_ATYPE_STATIC" using field [OF i] by (simp add: static_field_def Let_def)
    moreover note sd_lax [OF sd_static_field [where wt = wt, OF field [OF i] ok(1) i ok(2) sub le dest \<open>W \<subseteq> A\<close> \<open>D \<subseteq> A\<close> it_eq l]]
    ultimately show ?thesis using ss_decoder [where P = "iter_ok tbl dest W", OF _ it] by simp
  qed
  have release: "safe_step valid pending (iter_ok tbl dest W) A W (\<lambda>s m.
      if PB_HTYPE (pb_type (it_field it)) = PB_HTYPE_ONEOF then pb_release_union_field n R it s m else Returned (True, it, s, m))"
  proof (rule ss_if)
    from it obtain i l where i: "i < length tbl" and it_eq: "it = (iter_at tbl dest i)\<lparr>pSize := l\<rparr>"
      and l: "l = pSize (iter_at tbl dest i) \<or> PB_HTYPE (pb_type (tbl ! i)) = PB_HTYPE_REPEATED \<and> cells l 4 \<subseteq> W" by (rule iter_okE)
    have f: "it_field it = tbl ! i" by (simp add: it_eq field_of_pSize iter_at_field [OF ok(1) i] del: iter_at.simps)
    assume union: "PB_HTYPE (pb_type (it_field it)) = PB_HTYPE_ONEOF"
    then have "it = iter_at tbl dest i" using l by (simp add: it_eq f [unfolded it_eq] del: iter_at.simps)
    then show "safe_step valid pending (iter_ok tbl dest W) A W (pb_release_union_field n R it)"
      using ss_release_union [OF tbl assms(2) dest(1,2) in_A i] union f iter_at_ok
      unfolding safe_step_def by metis
  next
    show "safe_step valid pending (iter_ok tbl dest W) A W (\<lambda>s m. Returned (True, it, s, m))" using it by (rule ss_done)
  qed
  have "safe_step valid pending (iter_ok tbl dest W) A W (\<lambda>s m.
    bind_result (if PB_HTYPE (pb_type (it_field it)) = PB_HTYPE_ONEOF then pb_release_union_field n R it s m
                 else Returned (True, it, s, m)) (\<lambda>(ok, it, s, m).
      if ok then let at = PB_ATYPE (pb_type (it_field it)) in
      bind_result
        (if at = PB_ATYPE_STATIC then decode_static_field noinit n R wt it s m
         else if at = PB_ATYPE_POINTER then decode_pointer_field noinit n R wt it s m
         else if at = PB_ATYPE_CALLBACK then decode_callback_field R wt it s m
         else dec_error ''invalid field type'' s m) (\<lambda>(ok, s, m). Returned (ok, it, s, m))
      else Returned (False, it, s, m)))"
    by (rule ss_then [OF release decode]) simp_all
  moreover have "decode_field noinit n R wt it = (\<lambda>s m.
    bind_result (if PB_HTYPE (pb_type (it_field it)) = PB_HTYPE_ONEOF then pb_release_union_field n R it s m
                 else Returned (True, it, s, m)) (\<lambda>(ok, it, s, m).
      if ok then let at = PB_ATYPE (pb_type (it_field it)) in
      bind_result
        (if at = PB_ATYPE_STATIC then decode_static_field noinit n R wt it s m
         else if at = PB_ATYPE_POINTER then decode_pointer_field noinit n R wt it s m
         else if at = PB_ATYPE_CALLBACK then decode_callback_field R wt it s m
         else dec_error ''invalid field type'' s m) (\<lambda>(ok, s, m). Returned (ok, it, s, m))
      else Returned (False, it, s, m)))"
    unfolding decode_field_def [abs_def] by (simp only: if_not)
  ultimately show ?thesis by simp
qed

end

section \<open>The loop over the fields of the stream\<close>

text \<open>No static message has extensions, and the search for them goes once around.\<close>

lemma extension_loop_find:
  assumes "table_ok tbl" and "\<And>i. i < length tbl \<Longrightarrow> PB_LTYPE (pb_type (tbl ! i)) \<noteq> PB_LTYPE_EXTENSION"
  shows "i < length tbl \<Longrightarrow> find_extension_loop n first (iter_at tbl dest i) = find_loop n first 0 (iter_at tbl dest i)"
proof (induction n arbitrary: i)
  case (Suc n)
  have "(i + 1) mod length tbl < length tbl" using Suc.prems by (intro mod_less_divisor) linarith
  then show ?case
    using Suc.IH assms(2) [OF Suc.prems] table_ok_tag [OF assms(1) Suc.prems]
    by (simp add: iter_at_field [OF assms(1) Suc.prems] next_iter_at_mod [OF assms(1) Suc.prems] Let_def del: iter_at.simps)
qed simp

lemma extension_not_found:
  assumes "table_ok tbl" and "\<And>i. i < length tbl \<Longrightarrow> PB_LTYPE (pb_type (tbl ! i)) \<noteq> PB_LTYPE_EXTENSION" and "iter_ok tbl dest W it"
  shows "\<exists>it'. find_extension_field it = Returned (False, it') \<and> iter_ok tbl dest W it'"
proof -
  from assms(3) obtain i l where i: "i < length tbl" and it: "it = (iter_at tbl dest i)\<lparr>pSize := l\<rparr>"
    and l: "l = pSize (iter_at tbl dest i) \<or> PB_HTYPE (pb_type (tbl ! i)) = PB_HTYPE_REPEATED \<and> cells l 4 \<subseteq> W" by (rule iter_okE)
  have same: "find_extension_field it = find_extension_field (iter_at tbl dest i)"
  proof (cases "l = pSize (iter_at tbl dest i)")
    case False
    then have "pb_field_iter_next it = pb_field_iter_next (iter_at tbl dest i)"
      unfolding it using l table_ok_tag [OF assms(1) i]
      by (intro next_pSize) (auto simp: iter_at_field [OF assms(1) i] simp del: iter_at.simps)
    then show ?thesis using assms(2) [OF i]
      by (simp add: find_extension_field_def it field_of_pSize iter_at_field [OF assms(1) i] del: iter_at.simps)
  qed (simp add: it)
  have "find_extension_field (iter_at tbl dest i) = pb_field_iter_find 0 (iter_at tbl dest i)"
    using extension_loop_find [OF assms(1,2) i] by (simp add: find_extension_field_def pb_field_iter_find_def del: iter_at.simps)
  moreover obtain found j where "pb_field_iter_find 0 (iter_at tbl dest i) = Returned (found, iter_at tbl dest j)" "j < length tbl"
    "found \<longrightarrow> field_matches tbl 0 j" using find_iter_at_ok [OF assms(1) i] by blast
  ultimately show ?thesis using same table_ok_tag [OF assms(1)] iter_at_ok by (cases found) (auto simp: field_matches_def)
qed

context byte_source
begin

lemma ss_skip: "P d \<Longrightarrow> safe_step valid pending P A W (\<lambda>s m. bind_result (with_value (pb_skip_field wt s) m (\<lambda>_ s m. Returned (True, s, m)))
           (\<lambda>(ok, s, m). Returned (ok, d, s, m)))"
  by (rule ss_decoder [OF sd_value [OF skip_field_safe sd_done]])

lemma ss_unknown:
  assumes tbl: "static_table (Suc d) (dec_tables R) D tbl sz" and t: "t < - 1" and it: "iter_ok tbl dest W (dec_iter ds)"
  shows "safe_step valid pending (\<lambda>ds. iter_ok tbl dest W (dec_iter ds)) A W (decode_unknown noinit n R t wt ds)"
proof -
  from tbl have ok: "table_ok tbl"
    and field: "\<And>i. i < length tbl \<Longrightarrow> static_field (static_table d (dec_tables R) D) (dec_tables R) D tbl sz i"
    by (auto simp: list_all_iff)
  have "PB_LTYPE (pb_type (tbl ! i)) \<noteq> PB_LTYPE_EXTENSION" if "i < length tbl" for i
    using field [OF that] by (simp add: static_field_def type_fits_def Let_def)
  from extension_not_found [OF ok this it] obtain it' where
    it': "find_extension_field (dec_iter ds) = Returned (False, it')" "iter_ok tbl dest W it'" by blast
  have "decode_unknown noinit n R t wt ds = (\<lambda>s m. bind_result (with_value (pb_skip_field wt s) m (\<lambda>_ s m. Returned (True, s, m)))
      (\<lambda>(ok, s, m). Returned (ok, if t < extension_range_start ds then ds else ds\<lparr>dec_iter := it', extension_range_start := - 1\<rparr>, s, m)))"
    unfolding decode_unknown_def [abs_def] Let_def it'(1) using t by auto
  then show ?thesis by (simp only:) (rule ss_skip, use it it'(2) in simp)
qed

lemma ss_known:
  assumes tbl: "static_table (Suc d) (dec_tables R) D tbl sz" and "Suc d \<le> n"
    and sub: "sub_safe valid pending d (dec_tables R) D A W noinit"
    and dest: "dest \<noteq> 0" "0 \<notin> cells dest sz" "cells dest sz \<subseteq> W" and "W \<subseteq> A" and "D \<subseteq> A"
    and local: "cells (count_local R n) 4 \<subseteq> W" and it: "iter_ok tbl dest W (dec_iter ds)"
  shows "safe_step valid pending (\<lambda>ds. iter_ok tbl dest W (dec_iter ds)) A W (decode_known noinit n R wt ds)"
proof -
  from tbl have ok: "table_ok tbl" by simp
  let ?P = "\<lambda>ds. iter_ok tbl dest W (dec_iter ds)" and ?it = "dec_iter ds" and ?local = "count_local R n"
  let ?counted = "PB_HTYPE (pb_type (it_field ?it)) = PB_HTYPE_REPEATED \<and> pSize ?it = pData ?it"
  have local_A: "cells ?local 4 \<subseteq> A" using local \<open>W \<subseteq> A\<close> by (rule order_trans)
  have moved: "iter_ok tbl dest W (?it\<lparr>pSize := ?local\<rparr>)" if "PB_HTYPE (pb_type (it_field ?it)) = PB_HTYPE_REPEATED"
  proof -
    from it obtain i l where i: "i < length tbl" and it_eq: "?it = (iter_at tbl dest i)\<lparr>pSize := l\<rparr>" by (rule iter_okE)
    have "it_field ?it = tbl ! i" by (simp add: it_eq field_of_pSize iter_at_field [OF ok i] del: iter_at.simps)
    then show ?thesis using that local i unfolding iter_ok_def it_eq
      by (intro exI [of _ i] exI [of _ ?local]) (simp del: iter_at.simps)
  qed
  have finish: "safe_step valid pending ?P A W (\<lambda>s m.
      let i = required_field_index ?it;
           d = (if PB_HTYPE (pb_type (it_field ?it)) = PB_HTYPE_REQUIRED \<and> i < PB_MAX_REQUIRED_FIELDS
                then let w = unat (drop_bit 5 i) in
                  d\<lparr>fields_seen := (fields_seen d)[w := fields_seen d ! w OR push_bit (unat (i AND 31)) 1]\<rparr>
                else d) in
       bind_result (decode_field noinit n R wt (dec_iter d) s m) (\<lambda>(ok, it, s, m).
         Returned (ok, d\<lparr>dec_iter := it\<rparr>, s, m)))" if d: "?P d" for d
  proof -
    have keep: "safe_step valid pending ?P A W (\<lambda>s m. bind_result (decode_field noinit n R wt (dec_iter d) s m) (\<lambda>(ok, it, s, m).
         Returned (ok, d\<lparr>dec_iter := it\<rparr>, s, m)))" if d: "?P d" for d
    proof (rule safe_stepI)
      fix s and m :: memory assume "in_ok valid pending s" "A \<subseteq> dom m"
      with ss_field [where wt = wt, OF tbl assms(2) sub dest \<open>W \<subseteq> A\<close> \<open>D \<subseteq> A\<close> d]
      show "\<exists>ok x s' m'. bind_result (decode_field noinit n R wt (dec_iter d) s m) (\<lambda>(ok, it, s, m).
         Returned (ok, d\<lparr>dec_iter := it\<rparr>, s, m)) = Returned (ok, x, s', m') \<and> ?P x \<and> changes W m m' \<and> weaker valid pending s s' \<and>
         (ok \<longrightarrow> later valid pending s s')" by (rule safe_stepE) auto
    qed
    show ?thesis unfolding Let_def by (rule keep) (use d in simp)
  qed
  let ?prep = "\<lambda>m. if ?counted then
          (if fixed_count_field ds \<noteq> Some (it_pos ?it) then
             bind_result
               (case fixed_count_field ds of
                  None \<Rightarrow> Returned True
                | Some i \<Rightarrow> bind_result (peek m ?local 4) (\<lambda>c. Returned (c = array_size (it_start ?it ! i)))) (\<lambda>complete.
               if \<not> complete then Returned (False, ds, m)
               else bind_result (from_option (put m ?local 4 (0 :: u32))) (\<lambda>m.
                 Returned (True, ds\<lparr>fixed_count_field := Some (it_pos ?it), dec_iter := ?it\<lparr>pSize := ?local\<rparr>\<rparr>, m)))
           else Returned (True, ds\<lparr>dec_iter := ?it\<lparr>pSize := ?local\<rparr>\<rparr>, m))
        else Returned (True, ds, m)"
  have prep: "\<exists>ok d m'. ?prep m = Returned (ok, d, m') \<and> ?P d \<and> changes W m m'" if m: "A \<subseteq> dom m" for m
  proof (cases "?counted \<and> fixed_count_field ds \<noteq> Some (it_pos ?it)")
    case True
    obtain c :: u32 where c: "peek m ?local 4 = Returned c" using peek_safe [OF local_A m] by blast
    obtain complete where complete: "(case fixed_count_field ds of
                  None \<Rightarrow> Returned True
                | Some i \<Rightarrow> bind_result (peek m ?local 4) (\<lambda>c. Returned (c = array_size (it_start ?it ! i)))) = Returned complete"
      using c by (cases "fixed_count_field ds") auto
    have zero: "safe_update A W (\<lambda>m. from_option (put m ?local 4 (0 :: u32)))" by (rule safe_put [OF local \<open>W \<subseteq> A\<close>]) simp
    from zero m obtain m1 where m1: "from_option (put m ?local 4 (0 :: u32)) = Returned m1" "changes W m m1" by (rule safe_updateE)
    then show ?thesis using True complete it moved by (cases complete) auto
  next
    case False
    then show ?thesis using it moved by auto
  qed
  show ?thesis
  proof (rule safe_stepI)
    fix s and m :: memory assume s: "in_ok valid pending s" and m: "A \<subseteq> dom m"
    obtain ok d m1 where m1: "?prep m = Returned (ok, d, m1)" "?P d" "changes W m m1" using prep [OF m] by blast
    have m1A: "A \<subseteq> dom m1" by (rule changes_dom [OF m1(3) m])
    show "\<exists>ok x s' m'. decode_known noinit n R wt ds s m = Returned (ok, x, s', m') \<and> ?P x \<and> changes W m m' \<and>
        weaker valid pending s s' \<and> (ok \<longrightarrow> later valid pending s s')"
    proof (cases ok)
      case False
      then have "decode_known noinit n R wt ds s m = Returned (False, d, in_error ''wrong size for fixed count field'' s, m1)"
        unfolding decode_known_def Let_def m1(1) by simp
      then show ?thesis using m1 weaker_refl [OF s] by auto
    next
      case True
      from finish [OF m1(2)] s m1A obtain ok2 x s2 m2 where r: "(let i = required_field_index ?it;
           d = (if PB_HTYPE (pb_type (it_field ?it)) = PB_HTYPE_REQUIRED \<and> i < PB_MAX_REQUIRED_FIELDS
                then let w = unat (drop_bit 5 i) in
                  d\<lparr>fields_seen := (fields_seen d)[w := fields_seen d ! w OR push_bit (unat (i AND 31)) 1]\<rparr>
                else d) in
       bind_result (decode_field noinit n R wt (dec_iter d) s m1) (\<lambda>(ok, it, s, m).
         Returned (ok, d\<lparr>dec_iter := it\<rparr>, s, m))) = Returned (ok2, x, s2, m2)" "?P x" "changes W m1 m2" "weaker valid pending s s2"
        "ok2 \<Longrightarrow> later valid pending s s2" by (rule safe_stepE) blast
      have "decode_known noinit n R wt ds s m = Returned (ok2, x, s2, m2)"
        using r(1) True unfolding decode_known_def Let_def m1(1) by simp
      then show ?thesis using r(2,4,5) changes_trans [OF m1(3) r(3)] by auto
    qed
  qed
qed

lemma tag_small: "pb_decode_tag s = Some (Some (t, wt), eof, s') \<Longrightarrow> t < - 1"
proof -
  assume "pb_decode_tag s = Some (Some (t, wt), eof, s')"
  then obtain w :: u32 where "t = drop_bit 3 w" by (auto simp: pb_decode_tag_def split: option.splits if_splits bind_splits)
  moreover have "unat (drop_bit 3 w) < 2 ^ 32 - 1"
    using unsigned_less [of w, where 'a = nat] by (simp add: drop_bit_eq_div unat_div)
  ultimately show ?thesis by (simp add: word_less_nat_alt unsigned_minus_1_eq_mask mask_eq_exp_minus_1)
qed

lemma decode_loop_safe:
  assumes tbl: "static_table (Suc d) (dec_tables R) D tbl sz" and "Suc d \<le> n"
    and sub: "sub_safe valid pending d (dec_tables R) D A W noinit"
    and dest: "dest \<noteq> 0" "0 \<notin> cells dest sz" "cells dest sz \<subseteq> W" and "W \<subseteq> A" and "D \<subseteq> A"
    and local: "cells (count_local R n) 4 \<subseteq> W"
  shows "unat (bytes_left s) \<le> k \<Longrightarrow> iter_ok tbl dest W (dec_iter ds) \<Longrightarrow> in_ok valid pending s \<Longrightarrow> A \<subseteq> dom m \<Longrightarrow>
    \<exists>ok ds' s' m'. decode_loop k noinit n R ds s m = Returned (ok, ds', s', m') \<and> iter_ok tbl dest W (dec_iter ds') \<and>
      changes W m m' \<and> weaker valid pending s s' \<and> (ok \<longrightarrow> later valid pending s s')"
proof (induction k arbitrary: ds s m)
  case 0
  then have "bytes_left s = 0" by (simp add: unat_eq_0)
  then show ?case using 0 later_refl weaker_refl by auto
next
  case (Suc k)
  from tbl have ok: "table_ok tbl" by simp
  let ?P = "\<lambda>ds. iter_ok tbl dest W (dec_iter ds)"
  show ?case
  proof (cases "bytes_left s = 0")
    case True
    then show ?thesis using Suc.prems later_refl weaker_refl by auto
  next
    case more: False
    obtain v eof s1 where v: "pb_decode_tag s = Some (v, eof, s1)" "later valid pending s s1"
      "v \<noteq> None \<longrightarrow> unat (bytes_left s1) < unat (bytes_left s)" using tag_taking [OF Suc.prems(3)] by blast
    show ?thesis
    proof (cases v)
      case None
      then show ?thesis using more v Suc.prems(2) later_weaker [OF Suc.prems(3) v(2)] by (auto simp: from_option_def)
    next
      case (Some tw)
      obtain t wt where tw: "tw = (t, wt)" by fastforce
      have t: "t < - 1" using tag_small v(1) Some tw by blast
      have s1: "in_ok valid pending s1" using later_ok [OF Suc.prems(3) v(2)] .
      obtain found it where find: "pb_field_iter_find t (dec_iter ds) = Returned (found, it)" "iter_ok tbl dest W it"
        using find_ok [OF ok Suc.prems(2)] by blast
      have step: "safe_step valid pending ?P A W
          ((if \<not> found then decode_unknown noinit n R t wt else decode_known noinit n R wt) (ds\<lparr>dec_iter := it\<rparr>))"
        using ss_unknown [where ds = "ds\<lparr>dec_iter := it\<rparr>", OF tbl t] find(2)
          ss_known [where ds = "ds\<lparr>dec_iter := it\<rparr>", OF tbl assms(2) sub dest \<open>W \<subseteq> A\<close> \<open>D \<subseteq> A\<close> local]
        by (cases found) simp_all
      from step s1 Suc.prems(4) obtain ok1 ds1 s2 m1 where r1:
        "(if \<not> found then decode_unknown noinit n R t wt else decode_known noinit n R wt) (ds\<lparr>dec_iter := it\<rparr>) s1 m =
          Returned (ok1, ds1, s2, m1)" "?P ds1" "changes W m m1" "weaker valid pending s1 s2" "A \<subseteq> dom m1" "in_ok valid pending s2"
        "ok1 \<Longrightarrow> later valid pending s1 s2" by (rule safe_stepE) blast
      have unfold: "decode_loop (Suc k) noinit n R ds s m =
          (if ok1 then decode_loop k noinit n R ds1 s2 m1 else Returned (False, ds1, s2, m1))"
        using more v(1) Some tw find(1) r1(1) by (simp add: from_option_def)
      note weak = weaker_trans [OF later_weaker [OF Suc.prems(3) v(2)] r1(4)]
      show ?thesis
      proof (cases ok1)
        case False
        then show ?thesis using unfold r1 weak by auto
      next
        case True
        have "unat (bytes_left s2) \<le> k" using weaker_shrinks [OF r1(4)] v(3) Some Suc.prems(1) by simp
        from Suc.IH [OF this r1(2,6,5)] obtain ok2 ds2 s3 m2 where "decode_loop k noinit n R ds1 s2 m1 = Returned (ok2, ds2, s3, m2)"
          "?P ds2" "changes W m1 m2" "weaker valid pending s2 s3" "ok2 \<longrightarrow> later valid pending s2 s3" by blast
        then show ?thesis
          using unfold True changes_trans [OF r1(3)] weaker_trans [OF weak] later_trans [OF later_trans [OF v(2) r1(7) [OF True]]] by auto
      qed
    qed
  qed
qed

section \<open>Messages\<close>

lemma noinit_safe:
  "d < n \<Longrightarrow> (\<And>k. k < n \<Longrightarrow> cells (count_local R k) 4 \<subseteq> W) \<Longrightarrow> W \<subseteq> A \<Longrightarrow> D \<subseteq> A \<Longrightarrow>
    sub_safe valid pending d (dec_tables R) D A W (pb_decode_noinit n R)"
proof (induction d arbitrary: n)
  case 0
  then show ?case by (simp add: sub_safe_def)
next
  case (Suc d)
  obtain n' where n: "n = Suc n'" "d < n'" using Suc.prems(1) by (cases n) auto
  have sub: "sub_safe valid pending d (dec_tables R) D A W (pb_decode_noinit n' R)"
    using Suc.prems(2-4) n by (intro Suc.IH) simp_all
  have local: "cells (count_local R n') 4 \<subseteq> W" using Suc.prems(2) n(1) by simp
  have local_A: "cells (count_local R n') 4 \<subseteq> A" using local Suc.prems(3) by (rule order_trans)
  have "safe_decoder valid pending False A W (pb_decode_noinit n R tbl dest)"
    if tbl: "static_table (Suc d) (dec_tables R) D tbl sz" and dest: "dest \<noteq> 0" "0 \<notin> cells dest sz" "cells dest sz \<subseteq> W" for tbl dest sz
  proof -
    from tbl have "tbl \<noteq> []" by simp
    then have begin_ok: "iter_ok tbl dest W (snd (pb_field_iter_begin tbl dest))" using iter_at_ok [where i = 0 and tbl = tbl and dest = dest and W = W] by simp
    let ?ds = "\<lparr>dec_iter = snd (pb_field_iter_begin tbl dest), extension_range_start = 0, fields_seen = [0, 0], fixed_count_field = None\<rparr>"
    have loop: "safe_decoder valid pending False A W (\<lambda>s m.
        bind_result (decode_loop (unat (bytes_left s)) (pb_decode_noinit n' R) n' R ?ds s m) (\<lambda>(ok, d, s, m).
    if \<not> ok then Returned (False, s, m)
    else bind_result
      (case fixed_count_field d of
         None \<Rightarrow> Returned True
       | Some i \<Rightarrow> bind_result (peek m (count_local R n') 4) (\<lambda>c. Returned (c = array_size (tbl ! i)))) (\<lambda>complete.
      if \<not> complete then dec_error ''wrong size for fixed count field'' s m
      else if \<not> required_seen (dec_iter d) (fields_seen d) then dec_error ''missing required field'' s m
      else Returned (True, s, m))))" (is "safe_decoder valid pending False A W ?f")
    proof (rule safe_decoderI)
      fix s and m :: memory assume s: "in_ok valid pending s" and m: "A \<subseteq> dom m"
      have "Suc d \<le> n'" using n(2) by simp
      then obtain ok ds s1 m1 where r: "decode_loop (unat (bytes_left s)) (pb_decode_noinit n' R) n' R ?ds s m = Returned (ok, ds, s1, m1)"
        "changes W m m1" "weaker valid pending s s1" "ok \<longrightarrow> later valid pending s s1"
        using decode_loop_safe [where ds = ?ds, OF tbl _ sub dest Suc.prems(3,4) local order_refl _ s m] begin_ok by auto
      obtain c :: u32 where c: "peek m1 (count_local R n') 4 = Returned c"
        using peek_safe [OF local_A changes_dom [OF r(2) m]] by blast
      obtain complete where "(case fixed_count_field ds of
         None \<Rightarrow> Returned True
       | Some i \<Rightarrow> bind_result (peek m1 (count_local R n') 4) (\<lambda>c. Returned (c = array_size (tbl ! i)))) = Returned complete"
        using c by (cases "fixed_count_field ds") auto
      then show "\<exists>ok s' m'. ?f s m = Returned (ok, s', m') \<and> changes W m m' \<and> weaker valid pending s s' \<and>
         (ok \<longrightarrow> later valid pending s s' \<and> (False \<longrightarrow> unat (bytes_left s') < unat (bytes_left s)))"
        using r by (cases ok; cases complete; cases "required_seen (dec_iter ds) (fields_seen ds)") (auto simp: dec_error_def)
    qed
    have "safe_update A W (\<lambda>m. from_option (put m (count_local R n') 4 (0 :: u32)))"
      by (rule safe_put [OF local Suc.prems(3)]) simp
    from sd_update [OF this loop] show ?thesis by (simp only: n(1) pb_decode_noinit.simps [abs_def])
  qed
  then show ?case unfolding sub_safe_def by metis
qed

lemma decode_safe:
  assumes "static_table d (dec_tables R) D tbl sz" and "d < n" and "dest \<noteq> 0" and "0 \<notin> cells dest sz"
    and W: "W = cells dest sz \<union> (\<Union>k < n. cells (count_local R k) 4)" and "W \<subseteq> A" and "D \<subseteq> A"
  shows "safe_decoder valid pending False A W (pb_decode n R tbl dest)"
proof -
  have "sub_safe valid pending d (dec_tables R) D A W (pb_decode_noinit n R)"
    by (rule noinit_safe [OF assms(2) _ assms(6,7)]) (auto simp: W)
  then show ?thesis unfolding pb_decode_def
    by (rule sd_decode_message [OF _ assms(1) less_imp_le [OF assms(2)] assms(3,4) _ assms(6,7)]) (simp add: W)
qed

end

end
