(* ===== verification/Pb_Flat.thy ===== *)
theory Pb_Flat
  imports Pb_Decode_Message Pb_Report
begin

text \<open>
  Members of a flat message, of the types of proto3: the bytes a member is to hold for a value of the
  wire format, that the decoder of its type writes exactly these, and that they are read as that value
  again.
\<close>

section \<open>The bytes of a member\<close>

definition unzigzag :: "u64 \<Rightarrow> u64" where
  "unzigzag v = (if v AND 1 \<noteq> 0 then NOT (drop_bit 1 v) else drop_bit 1 v)"

definition number_bytes :: "bool \<Rightarrow> u32 \<Rightarrow> u64 \<Rightarrow> u8 list option" where
  "number_bytes sg sz v =
    (if sz = 8 then Some (le_bytes 8 (unat v))
     else if sz = 4 \<and> v = (if sg then scast (ucast v :: u32) else ucast (ucast v :: u32))
     then Some (le_bytes 4 (unat (ucast v :: u32)))
     else if sz = 2 \<and> v = (if sg then scast (ucast v :: u16) else ucast (ucast v :: u16))
     then Some (le_bytes 2 (unat (ucast v :: u16)))
     else if sz = 1 \<and> v = (if sg then scast (ucast v :: u8) else ucast (ucast v :: u8))
     then Some (le_bytes 1 (unat (ucast v :: u8)))
     else None)"

text \<open>\<open>None\<close>: the value does not fit the member, or is not of its type. A string ends with a zero.\<close>

definition member_bytes :: "pb_field_t \<Rightarrow> wire_value \<Rightarrow> u8 list option" where
  "member_bytes f w =
    (let lt = PB_LTYPE (pb_type f); ds = data_size f in
     case w of
       Varint v \<Rightarrow>
         if lt = PB_LTYPE_BOOL then (if v = 0 then Some [0] else if v = 1 then Some [1] else None)
         else if lt = PB_LTYPE_VARINT then number_bytes True ds v
         else if lt = PB_LTYPE_UVARINT then number_bytes False ds v
         else if lt = PB_LTYPE_SVARINT then number_bytes True ds (unzigzag v)
         else None
     | Fixed32 x \<Rightarrow> if lt = PB_LTYPE_FIXED32 then Some (le_bytes 4 (unat x)) else None
     | Fixed64 x \<Rightarrow> if lt = PB_LTYPE_FIXED64 then Some (le_bytes 8 (unat x)) else None
     | Bytes bs \<Rightarrow>
         if lt = PB_LTYPE_BYTES \<and> length bs + 4 \<le> unat ds then Some (le_bytes 4 (length bs) @ bs)
         else if lt = PB_LTYPE_STRING \<and> length bs < unat ds \<and> list_all (\<lambda>b. b \<noteq> 0) bs then Some (bs @ [0])
         else None
     | _ \<Rightarrow> None)"

definition zero_value :: "pb_field_t \<Rightarrow> wire_value" where
  "zero_value f =
    (let lt = PB_LTYPE (pb_type f) in
     if lt = PB_LTYPE_FIXED32 then Fixed32 0 else if lt = PB_LTYPE_FIXED64 then Fixed64 0
     else if lt = PB_LTYPE_BYTES \<or> lt = PB_LTYPE_STRING then Bytes [] else Varint 0)"

text \<open>A singular member of proto3, whose presence is that it is not zero, and its size.\<close>

definition flat_field :: "pb_field_t \<Rightarrow> bool" where
  "flat_field f \<longleftrightarrow>
    (let lt = PB_LTYPE (pb_type f); ds = data_size f in
     PB_ATYPE (pb_type f) = PB_ATYPE_STATIC \<and> PB_HTYPE (pb_type f) = PB_HTYPE_OPTIONAL \<and> size_offset f = 0 \<and> pb_ptr f = 0 \<and>
     (if lt = PB_LTYPE_BOOL then ds = 1
      else if lt = PB_LTYPE_VARINT \<or> lt = PB_LTYPE_UVARINT \<or> lt = PB_LTYPE_SVARINT then ds = 1 \<or> ds = 2 \<or> ds = 4 \<or> ds = 8
      else if lt = PB_LTYPE_FIXED32 then ds = 4
      else if lt = PB_LTYPE_FIXED64 then ds = 8
      else if lt = PB_LTYPE_BYTES then 4 \<le> ds
      else lt = PB_LTYPE_STRING \<and> 1 \<le> ds))"

lemma flat_field_cases:
  assumes "flat_field f"
  obtains (bool) "PB_LTYPE (pb_type f) = PB_LTYPE_BOOL" "data_size f = 1"
  | (varint) "PB_LTYPE (pb_type f) = PB_LTYPE_VARINT" "data_size f = 1 \<or> data_size f = 2 \<or> data_size f = 4 \<or> data_size f = 8"
  | (uvarint) "PB_LTYPE (pb_type f) = PB_LTYPE_UVARINT" "data_size f = 1 \<or> data_size f = 2 \<or> data_size f = 4 \<or> data_size f = 8"
  | (svarint) "PB_LTYPE (pb_type f) = PB_LTYPE_SVARINT" "data_size f = 1 \<or> data_size f = 2 \<or> data_size f = 4 \<or> data_size f = 8"
  | (fixed32) "PB_LTYPE (pb_type f) = PB_LTYPE_FIXED32" "data_size f = 4"
  | (fixed64) "PB_LTYPE (pb_type f) = PB_LTYPE_FIXED64" "data_size f = 8"
  | (bytes) "PB_LTYPE (pb_type f) = PB_LTYPE_BYTES" "4 \<le> data_size f"
  | (string) "PB_LTYPE (pb_type f) = PB_LTYPE_STRING" "1 \<le> data_size f"
  using assms unfolding flat_field_def Let_def if_bool_eq_disj by satx

lemma number_bytes_length: "number_bytes sg sz v = Some cs \<Longrightarrow> length cs = unat sz"
  by (auto simp: number_bytes_def split: if_splits)

lemma member_bytes_length:
  assumes "flat_field f" and "member_bytes f w = Some cs"
  shows "length cs \<le> unat (data_size f)"
  using assms(1)
  by (cases rule: flat_field_cases)
    (use assms(2) in \<open>auto simp: member_bytes_def Let_def word_le_nat_alt dest!: number_bytes_length split: wire_value.splits if_splits\<close>)

section \<open>Words from their bytes\<close>

lemma low_byte: "(ucast (w AND 0xFF) :: u8) = ucast w" for w :: "'a::len word"
proof (rule bit_word_eqI)
  fix n assume n: "n < LENGTH(8)"
  have "bit (0xFF :: 'a word) n = bit (mask 8 :: 'a word) n" by (simp add: mask_eq_exp_minus_1)
  then show "bit (ucast (w AND 0xFF) :: u8) n = bit (ucast w :: u8) n" using n by (auto simp: bit_simps dest: bit_imp_le_length)
qed

lemma byte_bits:
  fixes x :: "'a::len word"
  shows "bit (push_bit k (ucast (ucast (drop_bit k x) :: u8)) :: 'a word) n \<longleftrightarrow> k \<le> n \<and> n < k + 8 \<and> bit x n"
  by (cases "k \<le> n") (auto simp: bit_simps dest: bit_imp_le_length)

lemma byte_bits_0:
  fixes x :: "'a::len word"
  shows "bit (ucast (ucast x :: u8) :: 'a word) n \<longleftrightarrow> n < 8 \<and> bit x n"
  using byte_bits [of 0 x n] by simp

lemma join_bytes32:
  "ucast (ucast x :: u8) OR push_bit 8 (ucast (ucast (drop_bit 8 x) :: u8)) OR push_bit 16 (ucast (ucast (drop_bit 16 x) :: u8)) OR
    push_bit 24 (ucast (ucast (drop_bit 24 x) :: u8)) = x" (is "?joined = x") for x :: u32
proof (rule bit_word_eqI)
  fix n assume "n < LENGTH(32)"
  then have "n < 32" by simp
  then show "bit ?joined n = bit x n"
    unfolding bit_or_iff byte_bits byte_bits_0 by (cases "bit x n") (simp only: simp_thms, arith, simp)
qed

lemma join_bytes64:
  "ucast (ucast y :: u8) OR push_bit 8 (ucast (ucast (drop_bit 8 y) :: u8)) OR push_bit 16 (ucast (ucast (drop_bit 16 y) :: u8)) OR
    push_bit 24 (ucast (ucast (drop_bit 24 y) :: u8)) OR push_bit 32 (ucast (ucast (drop_bit 32 y) :: u8)) OR
    push_bit 40 (ucast (ucast (drop_bit 40 y) :: u8)) OR push_bit 48 (ucast (ucast (drop_bit 48 y) :: u8)) OR
    push_bit 56 (ucast (ucast (drop_bit 56 y) :: u8)) = y" (is "?joined = y") for y :: u64
proof (rule bit_word_eqI)
  fix n assume "n < LENGTH(64)"
  then have "n < 64" by simp
  then show "bit ?joined n = bit y n"
    unfolding bit_or_iff byte_bits byte_bits_0 by (cases "bit y n") (simp only: simp_thms, arith, simp)
qed

lemma byte_lists:
  "le_bytes 4 (unat (x :: u32)) = [ucast x, ucast (drop_bit 8 x), ucast (drop_bit 16 x), ucast (drop_bit 24 x)]"
  "le_bytes 8 (unat (y :: u64)) = [ucast y, ucast (drop_bit 8 y), ucast (drop_bit 16 y), ucast (drop_bit 24 y), ucast (drop_bit 32 y),
     ucast (drop_bit 40 y), ucast (drop_bit 48 y), ucast (drop_bit 56 y)]"
  using fixed_bytes(1) [of x] fixed_bytes(2) [of y] by (simp_all only: low_byte)
section \<open>Decoding a member\<close>

definition stores ::
  "('s pb_source \<Rightarrow> bool) \<Rightarrow> ('s pb_source \<Rightarrow> u8 list) \<Rightarrow> u8 list \<Rightarrow> u64 \<Rightarrow> u8 list \<Rightarrow> 's pb_decoder \<Rightarrow> bool" where
  "stores valid pending bs a cs f \<longleftrightarrow> (\<forall>s m. in_ok valid pending s \<and> take (length bs) (front pending s) = bs \<and>
     cells a (length cs) \<subseteq> dom m \<longrightarrow>
     (\<exists>s'. f s m = Returned (True, s', overwrite m a cs) \<and> moved valid pending (length bs) s s'))"

lemma overwrite_append:
  assumes "length cs + length ds \<le> 2 ^ 64" and "b = a + of_nat (length cs)"
  shows "overwrite (overwrite m a cs) b ds = overwrite m a (cs @ ds)"
proof
  fix x
  show "overwrite (overwrite m a cs) b ds x = overwrite m a (cs @ ds) x"
  proof (cases "length cs = 2 ^ 64")
    case True
    then have "ds = []" using assms(1) by simp
    then show ?thesis by (simp add: overwrite_def)
  next
    case False
    then have n: "unat (of_nat (length cs) :: u64) = length cs" using assms(1) by (simp add: unat_of_nat)
    show ?thesis
    proof (cases "unat (x - a) < length cs")
      case True
      have "x - b = (x - a) - of_nat (length cs)" by (simp add: assms(2))
      also have "unat \<dots> = 2 ^ 64 + unat (x - a) - length cs"
        using True n by (simp add: unat_sub_if_size size_word.rep_eq word_le_nat_alt)
      finally have "\<not> unat (x - b) < length ds" using assms(1) True by simp
      then show ?thesis using True by (simp add: overwrite_def nth_append)
    next
      case False
      have "x - b = (x - a) - of_nat (length cs)" by (simp add: assms(2))
      also have "unat \<dots> = unat (x - a) - length cs" using False n by (simp add: unat_sub word_le_nat_alt)
      finally have "unat (x - b) = unat (x - a) - length cs" .
      then show ?thesis using False by (auto simp: overwrite_def nth_append)
    qed
  qed
qed

lemma poke_returns: "cells a (length bs) \<subseteq> dom m \<Longrightarrow> length bs \<le> 2 ^ 64 \<Longrightarrow> from_option (poke m a bs) = Returned (overwrite m a bs)"
  by (simp add: poke_overwrite)

context byte_source
begin

lemma stores_value:
  assumes "reads valid pending r bs v"
    and "\<And>s m. cells a (length cs) \<subseteq> dom m \<Longrightarrow> f v s m = Returned (True, s, overwrite m a cs)"
  shows "stores valid pending bs a cs (\<lambda>s m. with_value (r s) m f)"
  unfolding stores_def
proof (intro allI impI, elim conjE)
  fix s and m :: memory
  assume "in_ok valid pending s" "take (length bs) (front pending s) = bs" and m: "cells a (length cs) \<subseteq> dom m"
  then obtain s' where "r s = Some (Some v, s')" "moved valid pending (length bs) s s'" using assms(1) unfolding reads_def by blast
  then show "\<exists>s'. with_value (r s) m f = Returned (True, s', overwrite m a cs) \<and> moved valid pending (length bs) s s'"
    using assms(2) [OF m] by (simp add: with_value_def)
qed

lemma number_stored:
  assumes "cells a (length cs) \<subseteq> dom m"
  shows "number_bytes True sz v = Some cs \<Longrightarrow> check_clamped (put_signed sz m a v) v s m = Returned (True, s, overwrite m a cs)"
    "number_bytes False sz v = Some cs \<Longrightarrow> check_clamped (put_unsigned sz m a v) v s m = Returned (True, s, overwrite m a cs)"
proof -
  show "number_bytes True sz v = Some cs \<Longrightarrow> check_clamped (put_signed sz m a v) v s m = Returned (True, s, overwrite m a cs)"
    using poke_returns [OF assms] by (auto simp: number_bytes_def check_clamped_def put_signed_def put_def simp del: poke.simps split: if_splits)
  show "number_bytes False sz v = Some cs \<Longrightarrow> check_clamped (put_unsigned sz m a v) v s m = Returned (True, s, overwrite m a cs)"
    using poke_returns [OF assms] by (auto simp: number_bytes_def check_clamped_def put_unsigned_def put_def simp del: poke.simps split: if_splits)
qed

lemma stores_then:
  assumes "reads valid pending r bs v" and "stores valid pending bs' a cs (f v)"
  shows "stores valid pending (bs @ bs') a cs (\<lambda>s m. with_value (r s) m f)"
  unfolding stores_def
proof (intro allI impI, elim conjE)
  fix s and m :: memory
  assume s: "in_ok valid pending s" and bytes: "take (length (bs @ bs')) (front pending s) = bs @ bs'" and m: "cells a (length cs) \<subseteq> dom m"
  have "take (length bs) (front pending s) = bs" using arg_cong [OF bytes, of "take (length bs)"] by (simp add: min_def)
  then obtain s1 where s1: "r s = Some (Some v, s1)" "moved valid pending (length bs) s s1" using assms(1) s unfolding reads_def by blast
  have "take (length bs') (front pending s1) = bs'"
    using arg_cong [OF bytes, of "drop (length bs)"] by (simp add: moved_front [OF s1(2)] drop_take)
  then obtain s2 where "f v s1 m = Returned (True, s2, overwrite m a cs)" "moved valid pending (length bs') s1 s2"
    using assms(2) moved_ok [OF s s1(2)] m unfolding stores_def by blast
  then show "\<exists>s'. with_value (r s) m f = Returned (True, s', overwrite m a cs) \<and> moved valid pending (length (bs @ bs')) s s'"
    using s1 moved_trans [OF s1(2)] by (auto simp: with_value_def)
qed

lemma stores_read_to:
  assumes "unat count = length bs"
  shows "stores valid pending bs a bs (read_to a count)"
  unfolding stores_def
proof (intro allI impI, elim conjE)
  fix s and m :: memory
  assume s: "in_ok valid pending s" and bytes: "take (length bs) (front pending s) = bs" and m: "cells a (length bs) \<subseteq> dom m"
  have "length bs \<le> unat (bytes_left s)" using arg_cong [OF bytes, of length] by (simp add: front_length [OF s])
  then obtain s' where "pb_read True count s = Some (True, bs, s')" "moved valid pending (length bs) s s'"
    using pb_read_moves [OF s, of count True] assms bytes by auto
  moreover have "length bs \<le> 2 ^ 64" using assms unsigned_less [of count, where 'a = nat] by simp
  ultimately show "\<exists>s'. read_to a count s m = Returned (True, s', overwrite m a bs) \<and> moved valid pending (length bs) s s'"
    using poke_overwrite [OF m] by (simp add: read_to_def)
qed

lemma cells_parts:
  assumes "cells a (n + k) \<subseteq> dom m" and "n + k \<le> 2 ^ 64" and "k = 0 \<or> b = a + of_nat n"
  shows "cells a n \<subseteq> dom m" "cells b k \<subseteq> dom m"
proof -
  show "cells a n \<subseteq> dom m" using assms(1) cells_mono [of n "n + k" a] by auto
  show "cells b k \<subseteq> dom m"
  proof (cases "k = 0")
    case False
    then have "unat (of_nat n :: u64) = n" using assms(2) by (simp add: unat_of_nat)
    then show ?thesis using assms(1,3) cells_within [of "of_nat n" k "n + k" a] False by auto
  qed simp
qed

lemma overwrite_dom: "X \<subseteq> dom m \<Longrightarrow> X \<subseteq> dom (overwrite m a bs)"
  by (auto simp: overwrite_def dom_def)

lemma stores_before:
  assumes "stores valid pending bs b cs' f" and "b = a + of_nat (length cs)" and "length cs + length cs' \<le> 2 ^ 64"
  shows "stores valid pending bs a (cs @ cs') (\<lambda>s m. bind_result (from_option (poke m a cs)) (f s))"
  unfolding stores_def
proof (intro allI impI, elim conjE)
  fix s and m :: memory
  assume s: "in_ok valid pending s" "take (length bs) (front pending s) = bs" and m: "cells a (length (cs @ cs')) \<subseteq> dom m"
  have parts: "cells a (length cs) \<subseteq> dom m" "cells b (length cs') \<subseteq> dom m"
    using cells_parts [of a "length cs" "length cs'" m b] m assms(2,3) by simp_all
  have "poke m a cs = Some (overwrite m a cs)" using poke_overwrite parts(1) assms(3) by simp
  moreover obtain s' where "f s (overwrite m a cs) = Returned (True, s', overwrite (overwrite m a cs) b cs')" "moved valid pending (length bs) s s'"
    using assms(1) s overwrite_dom [OF parts(2)] unfolding stores_def by blast
  ultimately show "\<exists>s'. bind_result (from_option (poke m a cs)) (f s) = Returned (True, s', overwrite m a (cs @ cs')) \<and>
      moved valid pending (length bs) s s'"
    using overwrite_append [OF assms(3,2)] by simp
qed

lemma stores_after:
  assumes "stores valid pending bs a cs f" and "b = a + of_nat (length cs)" and "length cs + length cs' \<le> 2 ^ 64"
  shows "stores valid pending bs a (cs @ cs')
    (\<lambda>s m. bind_result (f s m) (\<lambda>(ok, s, m). bind_result (from_option (poke m b cs')) (\<lambda>m. Returned (ok, s, m))))"
  unfolding stores_def
proof (intro allI impI, elim conjE)
  fix s and m :: memory
  assume s: "in_ok valid pending s" "take (length bs) (front pending s) = bs" and m: "cells a (length (cs @ cs')) \<subseteq> dom m"
  have parts: "cells a (length cs) \<subseteq> dom m" "cells b (length cs') \<subseteq> dom m"
    using cells_parts [of a "length cs" "length cs'" m b] m assms(2,3) by simp_all
  obtain s' where "f s m = Returned (True, s', overwrite m a cs)" "moved valid pending (length bs) s s'"
    using assms(1) s parts(1) unfolding stores_def by blast
  moreover have "poke (overwrite m a cs) b cs' = Some (overwrite (overwrite m a cs) b cs')"
    using overwrite_dom [OF parts(2)] assms(3) by (intro poke_overwrite) simp_all
  ultimately show "\<exists>s'. bind_result (f s m) (\<lambda>(ok, s, m). bind_result (from_option (poke m b cs')) (\<lambda>m. Returned (ok, s, m))) =
      Returned (True, s', overwrite m a (cs @ cs')) \<and> moved valid pending (length bs) s s'"
    using overwrite_append [OF assms(3,2)] by (simp del: poke.simps)
qed

lemma stores_fixed:
  "stores valid pending (le_bytes 4 (unat (x :: u32))) a (le_bytes 4 (unat x)) (pb_decode_fixed32 a)"
  "stores valid pending (le_bytes 8 (unat (y :: u64))) a (le_bytes 8 (unat y)) (pb_decode_fixed64 a)"
proof -
  have delivered: "\<exists>s'. pb_read True count s = Some (True, bs, s') \<and> moved valid pending (length bs) s s'"
    if s: "in_ok valid pending s" and bytes: "take (length bs) (front pending s) = bs" and count: "unat count = length bs" for s count bs
  proof -
    have "length bs \<le> unat (bytes_left s)" using arg_cong [OF bytes, of length] by (simp add: front_length [OF s])
    then show ?thesis using pb_read_moves [OF s, of count True] count bytes by auto
  qed
  have four: "unat (4 :: u64) = length (le_bytes 4 (unat x))" and eight: "unat (8 :: u64) = length (le_bytes 8 (unat y))" by simp_all
  show "stores valid pending (le_bytes 4 (unat x)) a (le_bytes 4 (unat x)) (pb_decode_fixed32 a)"
    unfolding stores_def
  proof (intro allI impI, elim conjE)
    fix s and m :: memory
    assume s: "in_ok valid pending s" "take (length (le_bytes 4 (unat x))) (front pending s) = le_bytes 4 (unat x)"
      and m: "cells a (length (le_bytes 4 (unat x))) \<subseteq> dom m"
    obtain s' where s': "pb_read True 4 s = Some (True, le_bytes 4 (unat x), s')" "moved valid pending (length (le_bytes 4 (unat x))) s s'"
      using delivered [OF s four] by blast
    then have "pb_decode_fixed32 a s m = written (put m a 4 x) s'"
      by (simp add: pb_decode_fixed32_def byte_lists(1) join_bytes32)
    then show "\<exists>s'. pb_decode_fixed32 a s m = Returned (True, s', overwrite m a (le_bytes 4 (unat x))) \<and>
        moved valid pending (length (le_bytes 4 (unat x))) s s'"
      using s'(2) poke_overwrite [OF m] by (simp add: written_def put_def)
  qed
  show "stores valid pending (le_bytes 8 (unat y)) a (le_bytes 8 (unat y)) (pb_decode_fixed64 a)"
    unfolding stores_def
  proof (intro allI impI, elim conjE)
    fix s and m :: memory
    assume s: "in_ok valid pending s" "take (length (le_bytes 8 (unat y))) (front pending s) = le_bytes 8 (unat y)"
      and m: "cells a (length (le_bytes 8 (unat y))) \<subseteq> dom m"
    obtain s' where s': "pb_read True 8 s = Some (True, le_bytes 8 (unat y), s')" "moved valid pending (length (le_bytes 8 (unat y))) s s'"
      using delivered [OF s eight] by blast
    then have "pb_decode_fixed64 a s m = written (put m a 8 y) s'"
      by (simp add: pb_decode_fixed64_def byte_lists(2) join_bytes64)
    then show "\<exists>s'. pb_decode_fixed64 a s m = Returned (True, s', overwrite m a (le_bytes 8 (unat y))) \<and>
        moved valid pending (length (le_bytes 8 (unat y))) s s'"
      using s'(2) poke_overwrite [OF m] by (simp add: written_def put_def)
  qed
qed

lemma narrow_32:
  assumes "number_bytes True sz v = Some cs"
  shows "(if sz = 8 then v else scast (ucast v :: u32)) = v"
proof -
  have "scast (ucast (scast (x :: u8) :: u64) :: u32) = (scast x :: u64)" "scast (ucast (scast (y :: u16) :: u64) :: u32) = (scast y :: u64)"
    for x y by (rule bit_word_eqI, simp add: bit_simps min_def)+
  moreover have "sz = 8 \<or> v = scast (ucast v :: u32) \<or> (\<exists>y :: u16. v = scast y) \<or> (\<exists>x :: u8. v = scast x)"
    using assms unfolding number_bytes_def by (simp only: if_True split: if_splits) blast+
  ultimately show ?thesis by (elim disjE exE) simp_all
qed

lemma member_stored:
  assumes flat: "flat_field f" and cs: "member_bytes f w = Some cs"
  shows "stores valid pending (wire_body w) a cs ((PB_DECODERS noinit n R ! unat (PB_LTYPE (pb_type f))) f a)"
  using flat
proof (cases rule: flat_field_cases)
  case bool
  then obtain v where w: "w = Varint v" "v = 0 \<and> cs = [0] \<or> v = 1 \<and> cs = [1]"
    using cs by (auto simp: member_bytes_def Let_def split: wire_value.splits if_splits)
  have "reads valid pending pb_decode_varint32 (uleb128_encode (unat v)) (of_nat (unat v))" using w(2) by (intro reads_varint32) auto
  moreover have "written (poke m a [if (of_nat (unat v) :: u32) \<noteq> 0 then 1 else 0]) s = Returned (True, s, overwrite m a cs)"
    if "cells a (length cs) \<subseteq> dom m" for s :: "'s pb_istream" and m
    using w(2) that by (auto simp: written_def poke_overwrite simp del: poke.simps)
  ultimately have "stores valid pending (uleb128_encode (unat v)) a cs (pb_dec_bool a)"
    unfolding pb_dec_bool_def [abs_def] by (rule stores_value)
  then show ?thesis using bool(1) w(1) by (simp add: PB_DECODERS_def)
next
  case varint
  then obtain v where w: "w = Varint v" "number_bytes True (data_size f) v = Some cs"
    using cs by (auto simp: member_bytes_def Let_def split: wire_value.splits if_splits)
  have "stores valid pending (uleb128_encode (unat v)) a cs (pb_dec_varint f a)"
    unfolding pb_dec_varint_def [abs_def] Let_def
    by (rule stores_value [OF reads_varint]) (simp only: narrow_32 [OF w(2)] number_stored(1) [OF _ w(2)])
  then show ?thesis using varint(1) w(1) by (simp add: PB_DECODERS_def)
next
  case uvarint
  then obtain v where w: "w = Varint v" "number_bytes False (data_size f) v = Some cs"
    using cs by (auto simp: member_bytes_def Let_def split: wire_value.splits if_splits)
  have "stores valid pending (uleb128_encode (unat v)) a cs (pb_dec_uvarint f a)"
    unfolding pb_dec_uvarint_def [abs_def] by (rule stores_value [OF reads_varint]) (rule number_stored(2) [OF _ w(2)])
  then show ?thesis using uvarint(1) w(1) by (simp add: PB_DECODERS_def)
next
  case svarint
  then obtain v where w: "w = Varint v" "number_bytes True (data_size f) (unzigzag v) = Some cs"
    using cs by (auto simp: member_bytes_def Let_def split: wire_value.splits if_splits)
  have "stores valid pending (uleb128_encode (unat v)) a cs (pb_dec_svarint f a)"
    unfolding pb_dec_svarint_def [abs_def] by (rule stores_value [OF reads_svarint [folded unzigzag_def]]) (rule number_stored(1) [OF _ w(2)])
  then show ?thesis using svarint(1) w(1) by (simp add: PB_DECODERS_def)
next
  case fixed32
  then obtain x where "w = Fixed32 x" "cs = le_bytes 4 (unat x)"
    using cs by (auto simp: member_bytes_def Let_def split: wire_value.splits if_splits)
  then show ?thesis using stores_fixed(1) fixed32(1) by (simp add: PB_DECODERS_def pb_dec_fixed32_def)
next
  case fixed64
  then obtain x where "w = Fixed64 x" "cs = le_bytes 8 (unat x)"
    using cs by (auto simp: member_bytes_def Let_def split: wire_value.splits if_splits)
  then show ?thesis using stores_fixed(2) fixed64(1) by (simp add: PB_DECODERS_def pb_dec_fixed64_def)
next
  case bytes
  then obtain bs where w: "w = Bytes bs" "cs = le_bytes 4 (length bs) @ bs" "length bs + 4 \<le> unat (data_size f)"
    using cs by (auto simp: member_bytes_def Let_def split: wire_value.splits if_splits)
  have len: "unat (of_nat (length bs) :: u32) = length bs" "length bs < 2 ^ 32"
    using w(3) unsigned_less [of "data_size f", where 'a = nat] by (simp_all add: unat_of_nat)
  have alloc: "unat (ucast (of_nat (length bs) :: u32) + 4 :: u64) = length bs + 4" using len by (subst unat_sum) simp_all
  have ok: "\<not> PB_SIZE_MAX < (of_nat (length bs) :: u32)" "\<not> ucast (of_nat (length bs) :: u32) + 4 < (ucast (of_nat (length bs) :: u32) :: u64)"
    "\<not> ucast (data_size f) < (ucast (of_nat (length bs) :: u32) + 4 :: u64)"
    using w(3) len(1) by (simp add: PB_SIZE_MAX_def, simp_all add: word_less_nat_alt alloc)
  have "stores valid pending bs (a + 4) bs (read_to (a + 4) (ucast (of_nat (length bs) :: u32)))" by (rule stores_read_to) (simp add: len)
  then have "stores valid pending bs a (le_bytes 4 (length bs) @ bs) (\<lambda>s m.
      bind_result (from_option (poke m a (le_bytes 4 (length bs)))) (read_to (a + 4) (ucast (of_nat (length bs) :: u32)) s))"
    by (rule stores_before) (use len(2) in simp_all)
  then have "stores valid pending (uleb128_encode (length bs) @ bs) a cs (pb_dec_bytes R f a)"
    unfolding pb_dec_bytes_def [abs_def] w(2) using ok flat
    by (intro stores_then [OF reads_varint32 [OF len(2)]]) (simp add: Let_def put_def len(1) flat_field_def)
  then show ?thesis using bytes(1) w(1) by (simp add: PB_DECODERS_def delimited_def)
next
  case string
  then obtain bs where w: "w = Bytes bs" "cs = bs @ [0]" "length bs < unat (data_size f)"
    using cs by (auto simp: member_bytes_def Let_def split: wire_value.splits if_splits)
  have len: "unat (of_nat (length bs) :: u32) = length bs" "length bs < 2 ^ 32" "unat (of_nat (length bs) + 1 :: u32) = length bs + 1"
    using w(3) unsigned_less [of "data_size f", where 'a = nat] by (simp_all add: unat_of_nat unat_word_ariths)
  have off: "(ucast (of_nat (length bs) :: u32) :: u64) = of_nat (length bs)"
    using len(1,2) by (simp add: word_unat_eq_iff unat_of_nat)
  have ok: "\<not> (ucast (of_nat (length bs) + 1 :: u32) :: u64) < ucast (of_nat (length bs) :: u32)"
    "\<not> ucast (data_size f) < (ucast (of_nat (length bs) + 1 :: u32) :: u64)"
    using w(3) by (simp_all add: word_less_nat_alt len(1,3))
  have "stores valid pending bs a bs (read_to a (ucast (of_nat (length bs) :: u32)))" by (rule stores_read_to) (simp add: len)
  then have "stores valid pending bs a (bs @ [0]) (\<lambda>s m. bind_result (read_to a (ucast (of_nat (length bs) :: u32)) s m) (\<lambda>(ok, s, m).
      bind_result (from_option (poke m (a + ucast (of_nat (length bs) :: u32)) [0])) (\<lambda>m. Returned (ok, s, m))))"
    by (rule stores_after) (use off len(2) in simp_all)
  then have "stores valid pending (uleb128_encode (length bs) @ bs) a cs (pb_dec_string R f a)"
    unfolding pb_dec_string_def [abs_def] w(2) using ok flat
    by (intro stores_then [OF reads_varint32 [OF len(2)]]) (simp add: Let_def flat_field_def del: poke.simps)
  then show ?thesis using string(1) w(1) by (simp add: PB_DECODERS_def delimited_def)
qed

end

section \<open>Reading a member\<close>

lemma zigzag_unzigzag: "of_int (zigzag (sint (unzigzag v))) = v"
proof -
  have "of_int (zigzag (sint x)) = (if x <s 0 then NOT (push_bit 1 x) else push_bit 1 x)" for x :: u64
  proof -
    have "of_int (- 2 * sint x - 1) = NOT (push_bit 1 x)" by (simp add: not_eq_complement push_bit_eq_mult)
    moreover have "of_int (2 * sint x) = push_bit 1 x" by (simp add: push_bit_eq_mult)
    ultimately show ?thesis by (simp add: zigzag_def word_sless_alt)
  qed
  moreover have "(if unzigzag v <s 0 then NOT (push_bit 1 (unzigzag v)) else push_bit 1 (unzigzag v)) = v"
  proof -
    have neg: "x <s 0 \<longleftrightarrow> bit x 63" for x :: u64
      by (simp add: word_sless_alt sint_uint signed_take_bit_negative_iff bit_uint_iff)
    have odd: "v AND 1 \<noteq> 0 \<longleftrightarrow> bit v 0" by (simp add: and_one_eq odd_iff_mod_2_eq_one bit_0 mod2_eq_if)
    show ?thesis
    proof (cases "bit v 0")
      case True
      then have "unzigzag v = NOT (drop_bit 1 v)" "unzigzag v <s 0"
        using bit_imp_le_length [of v 64] by (auto simp: unzigzag_def odd neg bit_simps)
      moreover have "NOT (push_bit 1 (NOT (drop_bit 1 v))) = v"
      proof (rule bit_word_eqI)
        fix n assume "n < LENGTH(64)"
        then have "bit (NOT (push_bit k (NOT (drop_bit k v)))) n \<longleftrightarrow> n < k \<or> bit v n" for k
          by (cases "k \<le> n") (auto simp: bit_simps)
        from this [of 1] show "bit (NOT (push_bit 1 (NOT (drop_bit 1 v)))) n = bit v n" using True by (cases n) auto
      qed
      ultimately show ?thesis by simp
    next
      case False
      then have "unzigzag v = drop_bit 1 v" "\<not> unzigzag v <s 0"
        using bit_imp_le_length [of v 64] by (auto simp: unzigzag_def odd neg bit_simps)
      moreover have "push_bit 1 (drop_bit 1 v) = v"
      proof (rule bit_word_eqI)
        fix n assume "n < LENGTH(64)"
        then have "bit (push_bit k (drop_bit k v)) n \<longleftrightarrow> k \<le> n \<and> bit v n" for k by (cases "k \<le> n") (auto simp: bit_simps)
        from this [of 1] show "bit (push_bit 1 (drop_bit 1 v)) n = bit v n" using False by (cases n) auto
      qed
      ultimately show ?thesis by simp
    qed
  qed
  ultimately show ?thesis by simp
qed

lemma read_bytes:
  fixes w :: "'z::len word"
  assumes "load env a n = Some (le_bytes n (unat w))" and "LENGTH('z) = 8 * n"
  shows "read_word env a n = Some w"
proof -
  have "unat w < 256 ^ n" using unsigned_less [of w, where 'a = nat] assms(2) by (simp add: power_mult)
  then show ?thesis using assms(1) by (simp add: read_word_def le_word_le_bytes)
qed

lemma number_read:
  assumes "number_bytes sg sz v = Some cs" and "load env a (length cs) = Some cs"
  shows "sg \<Longrightarrow> read_signed env sz a = Some (Some v)" "\<not> sg \<Longrightarrow> read_unsigned env sz a = Some (Some v)"
  using assms read_bytes [where w = v and n = 8 and a = a and env = env] read_bytes [where w = "ucast v :: u32" and n = 4 and a = a and env = env]
    read_bytes [where w = "ucast v :: u16" and n = 2 and a = a and env = env] read_bytes [where w = "ucast v :: u8" and n = 1 and a = a and env = env]
  by (auto simp: number_bytes_def read_signed_def read_unsigned_def simp del: load.simps split: if_splits)

lemma string_loop_finds:
  assumes "load env p (length bs + 1) = Some (bs @ [0])" and "list_all (\<lambda>b. b \<noteq> 0) bs" and "unat sz + length bs < unat limit"
  shows "string_loop env p sz limit = Some (sz + of_nat (length bs))"
  using assms
proof (induction bs arbitrary: p sz)
  case Nil
  then show ?case by (subst string_loop.simps) (auto simp: word_less_nat_alt bind_eq_Some_conv)
next
  case (Cons b bs)
  have sz1: "unat (sz + 1) = unat sz + 1"
    using Cons.prems(3) unsigned_less [of limit, where 'a = nat] by (simp add: unat_word_ariths)
  have b: "mem env p = Some b" "load env (p + 1) (length bs + 1) = Some (bs @ [0])" using Cons.prems(1) by (auto simp: bind_eq_Some_conv)
  have "string_loop env (p + 1) (sz + 1) limit = Some (sz + 1 + of_nat (length bs))"
    using b(2) Cons.prems(2,3) sz1 by (intro Cons.IH) simp_all
  then show ?case using b(1) Cons.prems(2,3) by (subst string_loop.simps) (simp add: word_less_nat_alt algebra_simps)
qed

lemma load_prefix:
  assumes "load env a (n + k) = Some (bs @ cs)" and "length bs = n"
  shows "load env a n = Some bs" "load env (a + of_nat n) k = Some cs"
  using assms load_length [of env a n] by (auto simp: load_append bind_eq_Some_conv)

text \<open>The bytes of the member are read as the value, by the encoder of its type.\<close>

lemma member_value:
  assumes flat: "flat_field f" and cs: "member_bytes f w = Some cs" and here: "load (pb_mem P) a (length cs) = Some cs" and "a \<noteq> 0"
  shows "value_at sub P f a = Some w"
  using flat
proof (cases rule: flat_field_cases)
  case bool
  then obtain v where v: "w = Varint v" "v = 0 \<and> cs = [0] \<or> v = 1 \<and> cs = [1]"
    using cs by (auto simp: member_bytes_def Let_def split: wire_value.splits if_splits)
  have "value_at sub P f a = map_option (\<lambda>b. Varint (if b then 1 else 0)) (safe_read_bool (pb_mem P) a)"
    by (simp only: value_at_def Let_def bool(1) simp_thms if_True)
  moreover have "load (pb_mem P) a 1 = Some cs" using here v(2) by auto
  ultimately have "value_at sub P f a = Some (Varint (if list_ex (\<lambda>b. b \<noteq> 0) cs then 1 else 0))"
    by (simp only: safe_read_bool_def option.map)
  then show ?thesis using v by auto
next
  case varint
  then obtain v where w: "w = Varint v" "number_bytes True (data_size f) v = Some cs"
    using cs by (auto simp: member_bytes_def Let_def split: wire_value.splits if_splits)
  then show ?thesis using varint(1) number_read(1) [OF w(2) here] by (simp add: value_at_def)
next
  case uvarint
  then obtain v where w: "w = Varint v" "number_bytes False (data_size f) v = Some cs"
    using cs by (auto simp: member_bytes_def Let_def split: wire_value.splits if_splits)
  then show ?thesis using uvarint(1) number_read(2) [OF w(2) here] by (simp add: value_at_def)
next
  case svarint
  then obtain v where w: "w = Varint v" "number_bytes True (data_size f) (unzigzag v) = Some cs"
    using cs by (auto simp: member_bytes_def Let_def split: wire_value.splits if_splits)
  then show ?thesis using svarint(1) number_read(1) [OF w(2) here] by (simp add: value_at_def zigzag_unzigzag)
next
  case fixed32
  then obtain x where w: "w = Fixed32 x" "cs = le_bytes 4 (unat x)"
    using cs by (auto simp: member_bytes_def Let_def split: wire_value.splits if_splits)
  then have "read_word (pb_mem P) a 4 = Some x" using here by (intro read_bytes) simp_all
  then show ?thesis using fixed32(1) w(1) by (simp add: value_at_def)
next
  case fixed64
  then obtain x where w: "w = Fixed64 x" "cs = le_bytes 8 (unat x)"
    using cs by (auto simp: member_bytes_def Let_def split: wire_value.splits if_splits)
  then have "read_word (pb_mem P) a 8 = Some x" using here by (intro read_bytes) simp_all
  then show ?thesis using fixed64(1) w(1) by (simp add: value_at_def)
next
  case bytes
  then obtain bs where w: "w = Bytes bs" "cs = le_bytes 4 (length bs) @ bs" "length bs + 4 \<le> unat (data_size f)"
    using cs by (auto simp: member_bytes_def Let_def split: wire_value.splits if_splits)
  have len: "unat (of_nat (length bs) :: u32) = length bs"
    using w(3) unsigned_less [of "data_size f", where 'a = nat] by (simp add: unat_of_nat)
  note parts = load_prefix [where n = 4 and k = "length bs", of "pb_mem P" a, OF here [unfolded w(2) length_append le_bytes_length] le_bytes_length]
  have "read_word (pb_mem P) a 4 = Some (of_nat (length bs) :: u32)" using parts(1) by (intro read_bytes) (simp_all only: len, simp)
  moreover have "\<not> ucast (data_size f) - 4 < (ucast (of_nat (length bs) :: u32) :: u64)"
  proof -
    have "unat (ucast (data_size f) - 4 :: u64) = unat (data_size f) - 4" using w(3) by (simp add: unat_sub word_le_nat_alt)
    then show ?thesis using w(3) by (simp add: word_less_nat_alt len)
  qed
  ultimately show ?thesis using bytes(1) w(1) parts(2) \<open>a \<noteq> 0\<close> by (simp add: value_at_def len)
next
  case string
  then obtain bs where w: "w = Bytes bs" "cs = bs @ [0]" "length bs < unat (data_size f)" "list_all (\<lambda>b. b \<noteq> 0) bs"
    using cs by (auto simp: member_bytes_def Let_def split: wire_value.splits if_splits)
  have len: "unat (of_nat (length bs) :: u64) = length bs"
    using w(3) unsigned_less [of "data_size f", where 'a = nat] by (simp add: unat_of_nat)
  have "string_loop (pb_mem P) a 0 (ucast (data_size f)) = Some (of_nat (length bs))"
    using string_loop_finds [of "pb_mem P" a bs 0 "ucast (data_size f)"] here w(2-4) by simp
  moreover have "load (pb_mem P) a (length bs) = Some bs" using load_prefix(1) [of "pb_mem P" a "length bs" 1 bs "[0]"] here w(2) by simp
  ultimately show ?thesis using string(1) w(1) flat \<open>a \<noteq> 0\<close> len by (simp add: value_at_def flat_field_def Let_def)
qed

lemma le_bytes_zero: "le_bytes n 0 = replicate n 0"
  by (induction n) simp_all

lemma zero_bytes:
  assumes "flat_field f"
  obtains k where "k \<le> unat (data_size f)" "member_bytes f (zero_value f) = Some (replicate k 0)"
proof -
  have number: "\<exists>k \<le> unat (data_size f). number_bytes sg (data_size f) 0 = Some (replicate k 0)"
    if "data_size f = 1 \<or> data_size f = 2 \<or> data_size f = 4 \<or> data_size f = 8" for sg
    using that by (auto simp: number_bytes_def le_bytes_zero simp del: le_bytes.simps)
  have unzigzag: "unzigzag 0 = 0" by (simp add: unzigzag_def)
  have "\<exists>k \<le> unat (data_size f). member_bytes f (zero_value f) = Some (replicate k 0)"
    using assms
    by (cases rule: flat_field_cases) (use number in \<open>auto simp: unzigzag member_bytes_def zero_value_def Let_def le_bytes_zero word_le_nat_alt simp del: le_bytes.simps\<close>)
  then show thesis using that by blast
qed

lemma bytes_of_zero:
  fixes x :: "'z::len word"
  assumes "LENGTH('z) = 8 * n"
  shows "list_all (\<lambda>b. b = 0) (le_bytes n (unat x)) \<longleftrightarrow> x = 0"
proof -
  have "unat x < 256 ^ n" using unsigned_less [of x, where 'a = nat] assms by (simp add: power_mult)
  then show ?thesis using le_nat_zero [of "le_bytes n (unat x)"] by (simp add: le_nat_le_bytes unat_eq_0)
qed

lemma number_zero: "number_bytes sg sz v = Some cs \<Longrightarrow> list_all (\<lambda>b. b = 0) cs \<longleftrightarrow> v = 0"
proof -
  assume "number_bytes sg sz v = Some cs"
  then consider "cs = le_bytes 8 (unat v)"
    | "v = scast (ucast v :: u32) \<or> v = ucast (ucast v :: u32)" "cs = le_bytes 4 (unat (ucast v :: u32))"
    | "v = scast (ucast v :: u16) \<or> v = ucast (ucast v :: u16)" "cs = le_bytes 2 (unat (ucast v :: u16))"
    | "v = scast (ucast v :: u8) \<or> v = ucast (ucast v :: u8)" "cs = le_bytes 1 (unat (ucast v :: u8))"
    unfolding number_bytes_def by (simp only: split: if_splits) blast+
  then show ?thesis
  proof cases
    case 1
    then show ?thesis using bytes_of_zero [of 8 v] by simp
  next
    case 2
    then have "v = 0 \<longleftrightarrow> (ucast v :: u32) = 0" by (metis signed_0 unsigned_0)
    then show ?thesis using 2(2) bytes_of_zero [of 4 "ucast v :: u32"] by simp
  next
    case 3
    then have "v = 0 \<longleftrightarrow> (ucast v :: u16) = 0" by (metis signed_0 unsigned_0)
    then show ?thesis using 3(2) bytes_of_zero [of 2 "ucast v :: u16"] by simp
  next
    case 4
    then have "v = 0 \<longleftrightarrow> (ucast v :: u8) = 0" by (metis signed_0 unsigned_0)
    then show ?thesis using 4(2) bytes_of_zero [of 1 "ucast v :: u8"] by simp
  qed
qed

lemma unzigzag_zero: "unzigzag v = 0 \<longleftrightarrow> v = 0"
proof
  assume "unzigzag v = 0"
  then show "v = 0" using zigzag_unzigzag [of v] by (simp add: zigzag_def)
qed (simp add: unzigzag_def)

text \<open>The check for a default value is whether the value is zero.\<close>

lemma member_default:
  assumes flat: "flat_field f" and cs: "member_bytes f w = Some cs" and here: "load (pb_mem P) a (length cs) = Some cs"
  shows "pb_check_proto3_default_value (Suc n) P f a = Returned (w = zero_value f)"
proof -
  have f: "PB_ATYPE (pb_type f) = PB_ATYPE_STATIC" "PB_HTYPE (pb_type f) = PB_HTYPE_OPTIONAL" "size_offset f = 0"
    using flat by (simp_all add: flat_field_def Let_def)
  have number: ?thesis
    if "PB_LTYPE (pb_type f) < PB_LTYPE_BYTES" "length cs = unat (data_size f)" "list_all (\<lambda>b. b = 0) cs \<longleftrightarrow> w = zero_value f"
  proof -
    have "zero_bytes_loop (pb_mem P) (unat (data_size f)) a = Returned (w = zero_value f)"
      using zero_bytes_load [OF here] that(2,3) by simp
    moreover have "PB_LTYPE (pb_type f) \<noteq> x" if "x \<in> {PB_LTYPE_BYTES, PB_LTYPE_STRING, PB_LTYPE_SUBMESSAGE, PB_LTYPE_FIXED_LENGTH_BYTES}" for x
      using that \<open>PB_LTYPE (pb_type f) < PB_LTYPE_BYTES\<close> by auto
    ultimately show ?thesis using f by (simp add: Let_def)
  qed
  show ?thesis
    using flat
  proof (cases rule: flat_field_cases)
    case bool
    then obtain v where "w = Varint v" "v = 0 \<and> cs = [0] \<or> v = 1 \<and> cs = [1]"
      using cs by (auto simp: member_bytes_def Let_def split: wire_value.splits if_splits)
    then show ?thesis using bool by (intro number) (auto simp: zero_value_def)
  next
    case varint
    then obtain v where w: "w = Varint v" "number_bytes True (data_size f) v = Some cs"
      using cs by (auto simp: member_bytes_def Let_def split: wire_value.splits if_splits)
    show ?thesis using varint(1) w(1) number_zero [OF w(2)] number_bytes_length [OF w(2)] by (intro number) (simp_all add: zero_value_def)
  next
    case uvarint
    then obtain v where w: "w = Varint v" "number_bytes False (data_size f) v = Some cs"
      using cs by (auto simp: member_bytes_def Let_def split: wire_value.splits if_splits)
    show ?thesis using uvarint(1) w(1) number_zero [OF w(2)] number_bytes_length [OF w(2)] by (intro number) (simp_all add: zero_value_def)
  next
    case svarint
    then obtain v where w: "w = Varint v" "number_bytes True (data_size f) (unzigzag v) = Some cs"
      using cs by (auto simp: member_bytes_def Let_def split: wire_value.splits if_splits)
    show ?thesis using svarint(1) w(1) number_zero [OF w(2)] number_bytes_length [OF w(2)]
      by (intro number) (simp_all add: zero_value_def unzigzag_zero)
  next
    case fixed32
    then obtain x where "w = Fixed32 x" "cs = le_bytes 4 (unat x)"
      using cs by (auto simp: member_bytes_def Let_def split: wire_value.splits if_splits)
    then show ?thesis using fixed32 bytes_of_zero [of 4 x] by (intro number) (simp_all add: zero_value_def)
  next
    case fixed64
    then obtain x where "w = Fixed64 x" "cs = le_bytes 8 (unat x)"
      using cs by (auto simp: member_bytes_def Let_def split: wire_value.splits if_splits)
    then show ?thesis using fixed64 bytes_of_zero [of 8 x] by (intro number) (simp_all add: zero_value_def)
  next
    case bytes
    then obtain bs where w: "w = Bytes bs" "cs = le_bytes 4 (length bs) @ bs" "length bs + 4 \<le> unat (data_size f)"
      using cs by (auto simp: member_bytes_def Let_def split: wire_value.splits if_splits)
    have len: "unat (of_nat (length bs) :: u32) = length bs"
      using w(3) unsigned_less [of "data_size f", where 'a = nat] by (simp add: unat_of_nat)
    note parts = load_prefix [where n = 4 and k = "length bs", of "pb_mem P" a, OF here [unfolded w(2) length_append le_bytes_length] le_bytes_length]
    have "read_word (pb_mem P) a 4 = Some (of_nat (length bs) :: u32)" using parts(1) by (intro read_bytes) (simp_all only: len, simp)
    moreover have empty: "(of_nat (length bs) :: u32) = 0 \<longleftrightarrow> bs = []" by (simp only: unat_eq_0 [symmetric] len length_0_conv)
    ultimately have "pb_check_proto3_default_value (Suc n) P f a = Returned ((of_nat (length bs) :: u32) = 0)"
      using bytes(1) f by (simp add: Let_def)
    then show ?thesis using bytes(1) by (simp only: empty) (simp add: w(1) zero_value_def)
  next
    case string
    then obtain bs where w: "w = Bytes bs" "cs = bs @ [0]" "list_all (\<lambda>b. b \<noteq> 0) bs"
      using cs by (auto simp: member_bytes_def Let_def split: wire_value.splits if_splits)
    have "mem (pb_mem P) a = Some (hd (bs @ [0]))" using here w(2) by (cases bs) (auto simp: bind_eq_Some_conv)
    moreover have "hd (bs @ [0]) = 0 \<longleftrightarrow> bs = []" using w(3) by (cases bs) auto
    ultimately show ?thesis using string(1) f w(1) by (simp add: Let_def zero_value_def)
  qed
qed

end
