(* ===== verification/Pb_Roundtrip.thy ===== *)
theory Pb_Roundtrip
  imports Pb_Flat
begin

text \<open>
  Flat messages as lists of values, one per field: which structures represent such a list, that the
  encoder writes the values that are not zero, and that the decoder stores the last value of each
  field and ignores every other field.
\<close>

section \<open>Abstract messages\<close>

definition flat_table :: "pb_field_t list \<Rightarrow> nat \<Rightarrow> bool" where
  "flat_table tbl sz \<longleftrightarrow> table_ok tbl \<and> tbl \<noteq> [] \<and> sz < 2 ^ 32 \<and> distinct (map pb_tag tbl) \<and> list_all flat_field tbl \<and>
     list_all (\<lambda>i. unat (member_offset tbl i) + unat (data_size (tbl ! i)) \<le> sz \<and>
       list_all (\<lambda>j. unat (member_offset tbl i) + unat (data_size (tbl ! i)) \<le> unat (member_offset tbl j)) [Suc i..<length tbl])
     [0..<length tbl]"

definition represents :: "pb_field_t list \<Rightarrow> u64 \<Rightarrow> cls_env \<Rightarrow> wire_value list \<Rightarrow> bool" where
  "represents tbl a env vs \<longleftrightarrow> length vs = length tbl \<and>
     list_all (\<lambda>i. case member_bytes (tbl ! i) (vs ! i) of None \<Rightarrow> False
       | Some cs \<Rightarrow> load env (a + member_offset tbl i) (length cs) = Some cs) [0..<length tbl]"

definition flat_entries :: "pb_field_t list \<Rightarrow> wire_value list \<Rightarrow> (u32 \<times> wire_value) list" where
  "flat_entries tbl vs = concat (map2 (\<lambda>f v. if v = zero_value f then [] else [(pb_tag f, v)]) tbl vs)"

definition field_of :: "pb_field_t list \<Rightarrow> u32 \<Rightarrow> nat option" where
  "field_of tbl t = List.find (\<lambda>i. pb_tag (tbl ! i) = t) [0..<length tbl]"

definition receive :: "pb_field_t list \<Rightarrow> wire_value list \<Rightarrow> u32 \<times> wire_value \<Rightarrow> wire_value list" where
  "receive tbl vs e = (case field_of tbl (fst e) of None \<Rightarrow> vs | Some i \<Rightarrow> vs[i := snd e])"

definition received :: "pb_field_t list \<Rightarrow> (u32 \<times> wire_value) list \<Rightarrow> wire_value list" where
  "received tbl es = foldl (receive tbl) (map zero_value tbl) es"

text \<open>A tag has 29 bits, the bytes of a field 32, and the value of a field of the table fits it.\<close>

definition entry_fits :: "pb_field_t list \<Rightarrow> u32 \<times> wire_value \<Rightarrow> bool" where
  "entry_fits tbl e \<longleftrightarrow> fst e \<noteq> 0 \<and> unat (fst e) < 2 ^ 29 \<and> length (wire_body (snd e)) < 2 ^ 32 \<and>
     (case field_of tbl (fst e) of None \<Rightarrow> True | Some i \<Rightarrow> member_bytes (tbl ! i) (snd e) \<noteq> None)"

section \<open>The layout\<close>

lemma flat_tableD:
  assumes "flat_table tbl sz"
  shows "table_ok tbl" "tbl \<noteq> []" "sz < 2 ^ 32" "distinct (map pb_tag tbl)"
    and "i < length tbl \<Longrightarrow> flat_field (tbl ! i)"
    and "i < length tbl \<Longrightarrow> unat (member_offset tbl i) + unat (data_size (tbl ! i)) \<le> sz"
    and "i < j \<Longrightarrow> j < length tbl \<Longrightarrow> unat (member_offset tbl i) + unat (data_size (tbl ! i)) \<le> unat (member_offset tbl j)"
  using assms by (auto simp: flat_table_def list_all_iff)

lemma flat_field_static:
  assumes "flat_field f"
  shows "PB_ATYPE (pb_type f) = PB_ATYPE_STATIC" "PB_HTYPE (pb_type f) = PB_HTYPE_OPTIONAL" "size_offset f = 0" "pb_ptr f = 0"
    "PB_LTYPE (pb_type f) < PB_LTYPE_SUBMESSAGE" "0 < unat (data_size f)"
proof -
  show "PB_ATYPE (pb_type f) = PB_ATYPE_STATIC" "PB_HTYPE (pb_type f) = PB_HTYPE_OPTIONAL" "size_offset f = 0" "pb_ptr f = 0"
    using assms by (simp_all add: flat_field_def Let_def)
  show "PB_LTYPE (pb_type f) < PB_LTYPE_SUBMESSAGE" using assms by (cases rule: flat_field_cases) simp_all
  show "0 < unat (data_size f)" using assms by (cases rule: flat_field_cases) (auto simp: word_le_nat_alt)
qed

lemma iter_pSize:
  assumes "table_ok tbl" and "\<And>i. i < length tbl \<Longrightarrow> PB_HTYPE (pb_type (tbl ! i)) \<noteq> PB_HTYPE_ONEOF" and "dest \<noteq> 0"
  shows "i < length tbl \<Longrightarrow> pSize (iter_at tbl dest i) = pData (iter_at tbl dest i) + scast (size_offset (tbl ! i))"
proof (induction i)
  case 0
  then show ?case using assms(3) by (simp add: pb_field_iter_begin_def it_field_def Let_def)
next
  case (Suc i)
  have "it_field (iter_at tbl dest i) = tbl ! i" using assms(1) Suc.prems by (simp add: iter_at_field del: iter_at.simps)
  moreover have "it_field ((iter_at tbl dest i)\<lparr>it_pos := it_pos (iter_at tbl dest i) + 1\<rparr>) = tbl ! (i + 1)"
    using assms(1) Suc.prems by (simp add: it_field_def iter_at_simps)
  ultimately show ?case
    using assms(2) [of i] Suc.prems table_ok_tag [OF assms(1), of i] table_ok_tag [OF assms(1) Suc.prems]
    by (simp add: pb_field_iter_next_def Let_def)
qed

lemma flat_address:
  assumes "flat_table tbl sz" and "dest \<noteq> 0" and "i < length tbl"
  shows "pData (iter_at tbl dest i) = dest + member_offset tbl i" "pSize (iter_at tbl dest i) = dest + member_offset tbl i"
proof -
  show "pData (iter_at tbl dest i) = dest + member_offset tbl i" by (rule iter_at_offsets(1) [OF assms(2)])
  moreover have "PB_HTYPE (pb_type (tbl ! j)) \<noteq> PB_HTYPE_ONEOF" if "j < length tbl" for j
    using flat_field_static(2) [OF flat_tableD(5) [OF assms(1) that]] by simp
  ultimately show "pSize (iter_at tbl dest i) = dest + member_offset tbl i"
    using iter_pSize [OF flat_tableD(1) [OF assms(1)] _ assms(2,3)] flat_field_static(3) [OF flat_tableD(5) [OF assms(1,3)]] by simp
qed

lemma flat_cells:
  assumes "flat_table tbl sz" and "i < length tbl" and "n \<le> unat (data_size (tbl ! i))"
  shows "cells (dest + member_offset tbl i) n \<subseteq> cells dest sz"
  using flat_tableD(6) [OF assms(1,2)] assms(3) by (intro cells_within) simp

lemma flat_apart:
  assumes "flat_table tbl sz" and "i < length tbl" and "j < length tbl" and "i \<noteq> j"
    and "n \<le> unat (data_size (tbl ! i))" and "n' \<le> unat (data_size (tbl ! j))"
  shows "cells (dest + member_offset tbl i) n \<inter> cells (dest + member_offset tbl j) n' = {}"
proof -
  have small: "sz \<le> 2 ^ 64" using flat_tableD(3) [OF assms(1)] by simp
  show ?thesis
  proof (cases "i < j")
    case True
    then show ?thesis using flat_tableD(6) [OF assms(1,3)] flat_tableD(7) [OF assms(1) True assms(3)] assms(5,6) small
      by (intro cells_apart) simp_all
  next
    case False
    then have "j < i" using assms(4) by simp
    then have "cells (dest + member_offset tbl j) n' \<inter> cells (dest + member_offset tbl i) n = {}"
      using flat_tableD(6) [OF assms(1,2)] flat_tableD(7) [OF assms(1) _ assms(2), of j] assms(5,6) small by (intro cells_apart) simp_all
    then show ?thesis by blast
  qed
qed

lemma representsE:
  assumes "represents tbl a env vs" and "i < length tbl"
  obtains cs where "member_bytes (tbl ! i) (vs ! i) = Some cs" "load env (a + member_offset tbl i) (length cs) = Some cs"
proof -
  have "case member_bytes (tbl ! i) (vs ! i) of None \<Rightarrow> False | Some cs \<Rightarrow> load env (a + member_offset tbl i) (length cs) = Some cs"
    using assms by (simp add: represents_def list_all_iff)
  then show thesis using that by (cases "member_bytes (tbl ! i) (vs ! i)") simp_all
qed

lemma representsI:
  assumes "length vs = length tbl"
    and "\<And>i. i < length tbl \<Longrightarrow> \<exists>cs. member_bytes (tbl ! i) (vs ! i) = Some cs \<and> load env (a + member_offset tbl i) (length cs) = Some cs"
  shows "represents tbl a env vs"
  using assms by (fastforce simp: represents_def list_all_iff split: option.splits)

lemma represents_other:
  assumes "represents tbl a (memory_env m) vs" and "flat_table tbl sz" and "cells a sz \<inter> cells b (length bs) = {}"
  shows "represents tbl a (memory_env (overwrite m b bs)) vs"
proof (rule representsI)
  show "length vs = length tbl" using assms(1) by (simp add: represents_def)
  fix i assume i: "i < length tbl"
  from assms(1) i obtain cs where cs: "member_bytes (tbl ! i) (vs ! i) = Some cs"
    "load (memory_env m) (a + member_offset tbl i) (length cs) = Some cs" by (rule representsE)
  have "cells (a + member_offset tbl i) (length cs) \<subseteq> cells a sz"
    using flat_cells [OF assms(2) i member_bytes_length [OF flat_tableD(5) [OF assms(2) i] cs(1)]] .
  then have "cells (a + member_offset tbl i) (length cs) \<inter> cells b (length bs) = {}" using assms(3) by blast
  then show "\<exists>cs. member_bytes (tbl ! i) (vs ! i) = Some cs \<and>
      load (memory_env (overwrite m b bs)) (a + member_offset tbl i) (length cs) = Some cs"
    using cs load_overwrite_apart by metis
qed

lemma represents_store:
  assumes "represents tbl a (memory_env m) vs" and "flat_table tbl sz" and "i < length tbl" and "member_bytes (tbl ! i) v = Some cs"
  shows "represents tbl a (memory_env (overwrite m (a + member_offset tbl i) cs)) (vs[i := v])"
proof (rule representsI)
  have len: "length vs = length tbl" using assms(1) by (simp add: represents_def)
  then show "length (vs[i := v]) = length tbl" by simp
  note bound = member_bytes_length [OF flat_tableD(5) [OF assms(2)]]
  fix j assume j: "j < length tbl"
  show "\<exists>cs'. member_bytes (tbl ! j) (vs[i := v] ! j) = Some cs' \<and>
      load (memory_env (overwrite m (a + member_offset tbl i) cs)) (a + member_offset tbl j) (length cs') = Some cs'"
  proof (cases "j = i")
    case True
    have "length cs \<le> 2 ^ 64" using bound [OF assms(3,4)] unsigned_less [of "data_size (tbl ! i)", where 'a = nat] by simp
    then show ?thesis using True assms(3,4) len load_overwrite by simp
  next
    case False
    from assms(1) j obtain cs' where cs': "member_bytes (tbl ! j) (vs ! j) = Some cs'"
      "load (memory_env m) (a + member_offset tbl j) (length cs') = Some cs'" by (rule representsE)
    have "cells (a + member_offset tbl j) (length cs') \<inter> cells (a + member_offset tbl i) (length cs) = {}"
      by (rule flat_apart [OF assms(2) j assms(3) False bound [OF j cs'(1)] bound [OF assms(3,4)]])
    then show ?thesis using cs' False load_overwrite_apart by (metis nth_list_update_neq)
  qed
qed

section \<open>Encoding\<close>

lemma those_map: "(\<And>x. x \<in> set xs \<Longrightarrow> f x = Some (g x)) \<Longrightarrow> those (map f xs) = Some (map g xs)"
  by (induction xs) simp_all

text \<open>A flat message in memory stands for the entries of its values that are not zero.\<close>

lemma flat_contents:
  assumes tbl: "flat_table tbl sz" and a: "a \<noteq> 0" "0 \<notin> cells a sz" and vs: "represents tbl a (pb_mem P) vs"
  shows "contents (Suc (Suc n)) P tbl a = Some (flat_entries tbl vs)"
proof -
  have one: "field_entries (Suc n) (contents (Suc n) P) P (tbl ! i) (pData (iter_at tbl a i)) =
      Some (if vs ! i = zero_value (tbl ! i) then [] else [(pb_tag (tbl ! i), vs ! i)])" if i: "i < length tbl" for i
  proof -
    let ?f = "tbl ! i" and ?p = "a + member_offset tbl i"
    note flat = flat_tableD(5) [OF tbl i]
    note f = flat_field_static [OF flat]
    from vs i obtain cs where cs: "member_bytes ?f (vs ! i) = Some cs" "load (pb_mem P) ?p (length cs) = Some cs" by (rule representsE)
    have "?p \<in> cells a sz" using flat_cells [OF tbl i order_refl, of a] cells_head [OF f(6), of ?p] by blast
    then have p: "?p \<noteq> 0" using a(2) by metis
    have "PB_LTYPE (pb_type ?f) \<noteq> PB_LTYPE_EXTENSION" "\<not> PB_LTYPES_COUNT \<le> PB_LTYPE (pb_type ?f)"
      using f(5) by (auto simp: word_less_nat_alt word_le_nat_alt)
    then show ?thesis
      using f(1-3) member_value [OF flat cs p] member_default [OF flat cs] flat_address(1) [OF tbl a(1) i]
      by (simp add: field_entries_def Let_def del: pb_check_proto3_default_value.simps contents.simps iter_at.simps)
  qed
  have "those (map (\<lambda>i. field_entries (Suc n) (contents (Suc n) P) P (tbl ! i) (pData (iter_at tbl a i))) [0..<length tbl]) =
      Some (map (\<lambda>i. if vs ! i = zero_value (tbl ! i) then [] else [(pb_tag (tbl ! i), vs ! i)]) [0..<length tbl])"
    by (rule those_map) (rule one, simp)
  moreover have "map2 (\<lambda>f v. if v = zero_value f then [] else [(pb_tag f, v)]) tbl vs =
      map (\<lambda>i. if vs ! i = zero_value (tbl ! i) then [] else [(pb_tag (tbl ! i), vs ! i)]) [0..<length tbl]"
    using vs by (intro nth_equalityI) (simp_all add: represents_def)
  ultimately show ?thesis by (simp add: flat_entries_def del: iter_at.simps)
qed

section \<open>Default values\<close>

lemma flat_static:
  assumes "flat_table tbl sz"
  shows "static_table 1 tables D tbl sz"
proof -
  have "static_field (static_table 0 tables D) tables D tbl sz i" if i: "i < length tbl" for i
  proof -
    note flat = flat_tableD(5) [OF assms i]
    note f = flat_field_static [OF flat]
    have "pSize (iter_at tbl 1 i) = pData (iter_at tbl 1 i)"
      using flat_address(1,2) [where dest = 1, OF assms _ i] by (simp del: iter_at.simps)
    then have "count_offset tbl i = member_offset tbl i" by (simp add: count_offset_def member_offset_def del: iter_at.simps)
    moreover have "type_fits (static_table 0 tables D) tables D (tbl ! i)"
      using flat f(4) by (cases rule: flat_field_cases) (auto simp: type_fits_def Let_def word_less_nat_alt)
    ultimately show ?thesis using f flat_tableD(6) [OF assms i] by (simp add: static_field_def Let_def entry_count_def)
  qed
  then show ?thesis using flat_tableD(1-3) [OF assms] by (simp add: list_all_iff)
qed

lemma flat_default:
  assumes tbl: "flat_table tbl sz" and dest: "dest \<noteq> 0" and i: "i < length tbl"
  shows "pb_field_set_to_default (Suc n) R (iter_at tbl dest i) m =
    from_option (memset_zero m (dest + member_offset tbl i) (unat (data_size (tbl ! i))))"
proof -
  note f = flat_field_static [OF flat_tableD(5) [OF tbl i]]
  have "PB_LTYPE (pb_type (tbl ! i)) \<noteq> PB_LTYPE_EXTENSION" "PB_LTYPE (pb_type (tbl ! i)) \<noteq> PB_LTYPE_SUBMESSAGE"
    using f(5) by (auto simp: word_less_nat_alt)
  then show ?thesis
    using f(1-4) flat_address [OF tbl dest i] by (simp add: Let_def iter_at_field [OF flat_tableD(1) [OF tbl] i] del: iter_at.simps)
qed

lemma flat_defaults_loop:
  assumes tbl: "flat_table tbl sz" and dest: "dest \<noteq> 0"
  shows "i < length tbl \<Longrightarrow> cells dest sz \<subseteq> dom m \<Longrightarrow>
    \<exists>m'. each_field (pb_field_set_to_default (Suc n) R) (iter_at tbl dest i) m = Returned m' \<and> changes (cells dest sz) m m' \<and>
      (\<forall>j < length tbl. load (memory_env m') (dest + member_offset tbl j) (unat (data_size (tbl ! j))) =
         (if i \<le> j then Some (replicate (unat (data_size (tbl ! j))) 0)
          else load (memory_env m) (dest + member_offset tbl j) (unat (data_size (tbl ! j)))))"
proof (induction "length tbl - i" arbitrary: i m rule: less_induct)
  case less
  let ?p = "\<lambda>i. dest + member_offset tbl i" and ?ds = "\<lambda>i. unat (data_size (tbl ! i))"
  let ?m = "overwrite m (?p i) (replicate (?ds i) 0)"
  have small: "?ds i \<le> 2 ^ 64" using unsigned_less [of "data_size (tbl ! i)", where 'a = nat] by simp
  have set_i: "pb_field_set_to_default (Suc n) R (iter_at tbl dest i) m = Returned ?m" "changes (cells dest sz) m ?m"
    using flat_default [where R = R and n = n and m = m, OF tbl dest less.prems(1)] poke_safe [of "?p i" "replicate (?ds i) 0" "cells dest sz" m]
      flat_cells [OF tbl less.prems(1) order_refl] less.prems(2) small by (simp_all add: memset_zero_def del: pb_field_set_to_default.simps)
  have here: "load (memory_env ?m) (?p i) (?ds i) = Some (replicate (?ds i) 0)" using small by (intro load_overwrite) simp_all
  have other: "load (memory_env ?m) (?p j) (?ds j) = load (memory_env m) (?p j) (?ds j)" if "j < length tbl" "j \<noteq> i" for j
    using flat_apart [OF tbl that(1) less.prems(1) that(2) order_refl order_refl] by (intro load_overwrite_apart) simp
  note next_step = next_iter_at [OF flat_tableD(1) [OF tbl] less.prems(1), of dest]
  show ?case
  proof (cases "i + 1 < length tbl")
    case True
    have dom: "cells dest sz \<subseteq> dom ?m" by (rule changes_dom [OF set_i(2) less.prems(2)])
    have "length tbl - (i + 1) < length tbl - i" using less.prems(1) by simp
    from less.hyps [OF this True dom] obtain m' where
      m': "each_field (pb_field_set_to_default (Suc n) R) (iter_at tbl dest (i + 1)) ?m = Returned m'" "changes (cells dest sz) ?m m'"
      "\<forall>j < length tbl. load (memory_env m') (?p j) (?ds j) =
         (if i + 1 \<le> j then Some (replicate (?ds j) 0) else load (memory_env ?m) (?p j) (?ds j))" by blast
    have "each_field (pb_field_set_to_default (Suc n) R) (iter_at tbl dest i) m = Returned m'"
      using True m'(1) by (subst each_field.simps) (simp only: set_i(1) bind_result.simps next_step if_True prod.case)
    moreover have "\<forall>j < length tbl. load (memory_env m') (?p j) (?ds j) =
         (if i \<le> j then Some (replicate (?ds j) 0) else load (memory_env m) (?p j) (?ds j))"
    proof (intro allI impI)
      fix j assume j: "j < length tbl"
      from m'(3) j have after: "load (memory_env m') (?p j) (?ds j) =
         (if i + 1 \<le> j then Some (replicate (?ds j) 0) else load (memory_env ?m) (?p j) (?ds j))" by (elim allE impE)
      show "load (memory_env m') (?p j) (?ds j) =
         (if i \<le> j then Some (replicate (?ds j) 0) else load (memory_env m) (?p j) (?ds j))"
      proof (cases "j = i")
        case True
        show ?thesis unfolding after unfolding True by (simp add: here)
      next
        case False
        then have "i + 1 \<le> j \<longleftrightarrow> i \<le> j" by auto
        then show ?thesis unfolding after by (simp only: other [OF j False])
      qed
    qed
    ultimately show ?thesis using changes_trans [OF set_i(2) m'(2)] by blast
  next
    case False
    then have "each_field (pb_field_set_to_default (Suc n) R) (iter_at tbl dest i) m = Returned ?m"
      by (subst each_field.simps) (simp only: set_i(1) bind_result.simps next_step if_False prod.case)
    moreover have "load (memory_env ?m) (?p j) (?ds j) =
         (if i \<le> j then Some (replicate (?ds j) 0) else load (memory_env m) (?p j) (?ds j))" if j: "j < length tbl" for j
    proof (cases "j = i")
      case True
      show ?thesis unfolding True by (simp add: here)
    next
      case other_field: False
      then have "\<not> i \<le> j" using j False by simp
      then show ?thesis by (simp only: if_False other [OF j other_field])
    qed
    ultimately show ?thesis using set_i(2) by (intro exI [of _ ?m] conjI allI impI)
  qed
qed

lemma flat_defaults:
  assumes tbl: "flat_table tbl sz" and dest: "dest \<noteq> 0" and m: "cells dest sz \<subseteq> dom m"
  obtains m' where "pb_message_set_to_defaults (Suc n) R tbl dest m = Returned m'" "changes (cells dest sz) m m'"
    "represents tbl dest (memory_env m') (map zero_value tbl)"
proof -
  have "0 < length tbl" using flat_tableD(2) [OF tbl] by simp
  from flat_defaults_loop [OF tbl dest this m, of n R] obtain m' where
    m': "each_field (pb_field_set_to_default (Suc n) R) (iter_at tbl dest 0) m = Returned m'" "changes (cells dest sz) m m'"
    "\<And>j. j < length tbl \<Longrightarrow> load (memory_env m') (dest + member_offset tbl j) (unat (data_size (tbl ! j))) = Some (replicate (unat (data_size (tbl ! j))) 0)"
    by auto
  have "pb_field_iter_begin tbl dest = (True, iter_at tbl dest 0)"
    using begin_more [OF flat_tableD(1) [OF tbl], of dest] flat_tableD(2) [OF tbl] by (simp add: prod_eq_iff)
  then have "pb_message_set_to_defaults (Suc n) R tbl dest m = Returned m'"
    using m'(1) by (simp add: pb_message_set_to_defaults_def message_defaults_def del: iter_at.simps)
  moreover have "represents tbl dest (memory_env m') (map zero_value tbl)"
  proof (rule representsI)
    fix i assume i: "i < length tbl"
    from flat_tableD(5) [OF tbl i] obtain k where k: "k \<le> unat (data_size (tbl ! i))" "member_bytes (tbl ! i) (zero_value (tbl ! i)) = Some (replicate k 0)"
      by (rule zero_bytes)
    have "load (memory_env m') (dest + member_offset tbl i) k = Some (replicate k 0)"
    proof (rule load_prefix(1))
      show "load (memory_env m') (dest + member_offset tbl i) (k + (unat (data_size (tbl ! i)) - k)) =
          Some (replicate k 0 @ replicate (unat (data_size (tbl ! i)) - k) 0)"
        using m'(3) [OF i] k(1) by (simp flip: replicate_add)
    qed simp
    then show "\<exists>cs. member_bytes (tbl ! i) (map zero_value tbl ! i) = Some cs \<and>
        load (memory_env m') (dest + member_offset tbl i) (length cs) = Some cs" using k(2) i by simp
  qed simp
  ultimately show thesis using that m'(2) by blast
qed

section \<open>Decoding\<close>

lemma find_unique:
  assumes "i \<in> set xs" and "p i" and "\<And>j. j \<in> set xs \<Longrightarrow> p j \<Longrightarrow> j = i"
  shows "List.find p xs = Some i"
proof (cases "List.find p xs")
  case None
  then show ?thesis using assms(1,2) by (auto simp: find_None_iff)
next
  case (Some j)
  then have "j \<in> set xs" "p j" by (auto simp: find_Some_iff)
  then show ?thesis using Some assms(3) by simp
qed

lemma field_of_Some: "field_of tbl t = Some i \<Longrightarrow> i < length tbl \<and> pb_tag (tbl ! i) = t"
  by (auto simp: field_of_def find_Some_iff)

lemma field_of_None: "field_of tbl t = None \<Longrightarrow> i < length tbl \<Longrightarrow> pb_tag (tbl ! i) \<noteq> t"
  by (auto simp: field_of_def find_None_iff)

lemma rotated: "k < n \<Longrightarrow> set (map (\<lambda>j. (k + j) mod n) [0..<n]) = {0..<n}" for n :: nat
proof
  assume k: "k < n"
  then show "set (map (\<lambda>j. (k + j) mod n) [0..<n]) \<subseteq> {0..<n}" by auto
  show "{0..<n} \<subseteq> set (map (\<lambda>j. (k + j) mod n) [0..<n])"
  proof
    fix i assume "i \<in> {0..<n}"
    then have i: "i < n" by simp
    define j where "j = (if k \<le> i then i - k else i + n - k)"
    have "j < n" "i = (k + j) mod n" using i k by (auto simp: j_def)
    then show "i \<in> set (map (\<lambda>j. (k + j) mod n) [0..<n])" by auto
  qed
qed

lemma find_field:
  assumes tbl: "flat_table tbl sz" and k: "k < length tbl"
  shows "pb_field_iter_find t (iter_at tbl dest k) =
    (case field_of tbl t of Some i \<Rightarrow> Returned (True, iter_at tbl dest i) | None \<Rightarrow> Returned (False, iter_at tbl dest k))"
proof -
  let ?xs = "map (\<lambda>j. (k + j) mod length tbl) [0..<length tbl]"
  note find = find_iter_at [OF flat_tableD(1) [OF tbl] k, of t dest]
  have ext: "PB_LTYPE (pb_type (tbl ! i)) \<noteq> PB_LTYPE_EXTENSION" if "i < length tbl" for i
    using flat_field_static(5) [OF flat_tableD(5) [OF tbl that]] by (auto simp: word_less_nat_alt)
  have "List.find (field_matches tbl t) ?xs = field_of tbl t"
  proof (cases "field_of tbl t")
    case None
    then have "\<not> field_matches tbl t j" if "j \<in> set ?xs" for j
      using that field_of_None [OF None] unfolding rotated [OF k] by (simp add: field_matches_def)
    then show ?thesis using None by (simp add: find_None_iff)
  next
    case (Some i)
    note i = field_of_Some [OF Some]
    have "List.find (field_matches tbl t) ?xs = Some i"
    proof (rule find_unique)
      show "i \<in> set ?xs" unfolding rotated [OF k] using i by simp
      show "field_matches tbl t i" using i ext by (simp add: field_matches_def)
      fix j assume "j \<in> set ?xs" "field_matches tbl t j"
      then have "j < length tbl" "pb_tag (tbl ! j) = pb_tag (tbl ! i)" unfolding rotated [OF k] using i by (auto simp: field_matches_def)
      then show "j = i" using flat_tableD(4) [OF tbl] i by (simp add: distinct_conv_nth) metis
    qed
    then show ?thesis using Some by simp
  qed
  then show ?thesis unfolding find by simp
qed

context byte_source
begin

lemma flat_known:
  assumes tbl: "flat_table tbl sz" and dest: "dest \<noteq> 0" "cells dest sz \<subseteq> dom m" and i: "i < length tbl"
    and cs: "member_bytes (tbl ! i) v = Some cs" and it: "dec_iter ds = iter_at tbl dest i"
    and s: "in_ok valid pending s" "take (length (wire_body v)) (front pending s) = wire_body v"
  shows "\<exists>s'. decode_known noinit n R wt ds s m = Returned (True, ds, s', overwrite m (dest + member_offset tbl i) cs) \<and>
    moved valid pending (length (wire_body v)) s s'"
proof -
  note flat = flat_tableD(5) [OF tbl i]
  note f = flat_field_static [OF flat]
  have field: "it_field (dec_iter ds) = tbl ! i" using iter_at_field [OF flat_tableD(1) [OF tbl] i] by (simp add: it del: iter_at.simps)
  have "cells (dest + member_offset tbl i) (length cs) \<subseteq> dom m"
    using flat_cells [OF tbl i member_bytes_length [OF flat cs]] dest(2) by blast
  then obtain s' where s': "(PB_DECODERS noinit n R ! unat (PB_LTYPE (pb_type (tbl ! i)))) (tbl ! i) (dest + member_offset tbl i) s m =
      Returned (True, s', overwrite m (dest + member_offset tbl i) cs)" "moved valid pending (length (wire_body v)) s s'"
    using member_stored [where noinit = noinit and n = n and R = R and a = "dest + member_offset tbl i", OF flat cs] s unfolding stores_def by blast
  have "\<not> PB_LTYPES_COUNT \<le> PB_LTYPE (pb_type (tbl ! i))" using f(5) by (simp add: word_less_nat_alt word_le_nat_alt)
  then have "decode_static_field noinit n R wt (dec_iter ds) s m = Returned (True, s', overwrite m (dest + member_offset tbl i) cs)"
    using s'(1) f(2) flat_address [OF tbl dest(1) i] by (simp add: decode_static_field_def Let_def field [unfolded it] it del: iter_at.simps)
  then show ?thesis using s'(2) f(1,2)
    by (simp add: decode_known_def decode_field_def Let_def field)
qed

lemma flat_unknown:
  assumes tbl: "flat_table tbl sz" and k: "k < length tbl" and it: "dec_iter ds = iter_at tbl dest k" and t: "t < - 1"
    and body: "length (wire_body v) < 2 ^ 32"
    and s: "in_ok valid pending s" "take (length (wire_body v)) (front pending s) = wire_body v"
  shows "\<exists>s' ds'. decode_unknown noinit n R t (of_nat (wire_type v)) ds s m = Returned (True, ds', s', m) \<and>
    dec_iter ds' = iter_at tbl dest k \<and> fixed_count_field ds' = fixed_count_field ds \<and> fields_seen ds' = fields_seen ds \<and>
    moved valid pending (length (wire_body v)) s s'"
proof -
  have ext: "PB_LTYPE (pb_type (tbl ! i)) \<noteq> PB_LTYPE_EXTENSION" if "i < length tbl" for i
    using flat_field_static(5) [OF flat_tableD(5) [OF tbl that]] by (auto simp: word_less_nat_alt)
  have "field_of tbl 0 = None" using field_of_Some [of tbl 0] table_ok_tag [OF flat_tableD(1) [OF tbl]] by (cases "field_of tbl 0") auto
  then have found: "find_extension_field (dec_iter ds) = Returned (False, iter_at tbl dest k)"
    using extension_loop_find [OF flat_tableD(1) [OF tbl] ext k] find_field [OF tbl k, of 0 dest]
    by (simp add: find_extension_field_def pb_field_iter_find_def it del: iter_at.simps)
  obtain s' where "pb_skip_field (of_nat (wire_type v)) s = Some (Some (), s')" "moved valid pending (length (wire_body v)) s s'"
    using reads_skip_field [OF body] s unfolding reads_def by blast
  then show ?thesis
    using found t it by (auto simp: decode_unknown_def Let_def with_value_def)
qed

text \<open>The loop stores the entries one after the other.\<close>

lemma flat_loop:
  assumes tbl: "flat_table tbl sz" and dest: "dest \<noteq> 0"
  shows "list_all (entry_fits tbl) es \<Longrightarrow> k < length tbl \<Longrightarrow> dec_iter ds = iter_at tbl dest k \<Longrightarrow> fixed_count_field ds = None \<Longrightarrow>
    fields_seen ds = [0, 0] \<Longrightarrow> in_ok valid pending s \<Longrightarrow> front pending s = wire es \<Longrightarrow> length es \<le> fuel \<Longrightarrow>
    cells dest sz \<subseteq> dom m \<Longrightarrow> represents tbl dest (memory_env m) vs \<Longrightarrow>
    \<exists>ds' s' m' k'. decode_loop fuel noinit n R ds s m = Returned (True, ds', s', m') \<and> k' < length tbl \<and>
      dec_iter ds' = iter_at tbl dest k' \<and> fixed_count_field ds' = None \<and> fields_seen ds' = [0, 0] \<and>
      moved valid pending (length (wire es)) s s' \<and> changes (cells dest sz) m m' \<and>
      represents tbl dest (memory_env m') (foldl (receive tbl) vs es)"
proof (induction es arbitrary: k ds s fuel m vs)
  case Nil
  then have "bytes_left s = 0" using front_length [of s] by (simp add: wire_def unat_eq_0)
  moreover have "moved valid pending 0 s s" using Nil.prems(6) by (auto simp: moved_def in_ok_def)
  ultimately show ?case using Nil.prems by (cases fuel) (auto simp: wire_def simp del: iter_at.simps)
next
  case (Cons e es)
  obtain t v where e: "e = (t, v)" by fastforce
  let ?tag = "uleb128_encode (8 * unat t + wire_type v)"
  have bytes: "front pending s = ?tag @ wire_body v @ wire es" using Cons.prems(7) by (simp add: wire_def e)
  have fits: "t \<noteq> 0" "unat t < 2 ^ 29" "length (wire_body v) < 2 ^ 32" "field_of tbl t = Some i \<Longrightarrow> member_bytes (tbl ! i) v \<noteq> None" for i
    using Cons.prems(1) by (auto simp: entry_fits_def e split: option.splits)
  have w: "wire_type v < 8" by (cases v) simp_all
  obtain fuel' where fuel: "fuel = Suc fuel'" "length es \<le> fuel'" using Cons.prems(8) by (cases fuel) auto
  have "?tag \<noteq> []" by (rule uleb_not_Nil)
  then have more: "bytes_left s \<noteq> 0" using front_length [OF Cons.prems(6)] bytes by auto
  obtain s1 where s1: "pb_decode_tag s = Some (Some (t, of_nat (wire_type v)), False, s1)" "moved valid pending (length ?tag) s s1"
    using tag_reads [OF Cons.prems(6) w fits(1,2)] bytes by auto
  have ok1: "in_ok valid pending s1" by (rule moved_ok [OF Cons.prems(6) s1(2)])
  have front1: "front pending s1 = wire_body v @ wire es" using moved_front [OF s1(2)] bytes by simp
  then have here: "take (length (wire_body v)) (front pending s1) = wire_body v" by simp
  note find = find_field [where t = t and dest = dest, OF tbl Cons.prems(2), folded Cons.prems(3)]
  have t: "t < - 1" using tag_small [OF s1(1)] .
  obtain ds1 s2 m1 k1 where step: "decode_loop fuel noinit n R ds s m = decode_loop fuel' noinit n R ds1 s2 m1" "k1 < length tbl"
    "dec_iter ds1 = iter_at tbl dest k1" "fixed_count_field ds1 = None" "fields_seen ds1 = [0, 0]"
    "moved valid pending (length (wire_body v)) s1 s2" "changes (cells dest sz) m m1"
    "represents tbl dest (memory_env m1) (receive tbl vs (t, v))"
  proof (cases "field_of tbl t")
    case None
    have "dec_iter (ds\<lparr>dec_iter := iter_at tbl dest k\<rparr>) = iter_at tbl dest k" by simp
    from flat_unknown [where noinit = noinit and n = n and R = R and m = m, OF tbl Cons.prems(2) this t fits(3) ok1 here] obtain s2 ds1 where
      u: "decode_unknown noinit n R t (of_nat (wire_type v)) (ds\<lparr>dec_iter := iter_at tbl dest k\<rparr>) s1 m = Returned (True, ds1, s2, m)"
      "dec_iter ds1 = iter_at tbl dest k" "fixed_count_field ds1 = None" "fields_seen ds1 = [0, 0]"
      "moved valid pending (length (wire_body v)) s1 s2" using Cons.prems(4,5) by auto
    have "decode_loop fuel noinit n R ds s m = decode_loop fuel' noinit n R ds1 s2 m"
      using more s1(1) find None u(1) by (simp add: fuel(1) Cons.prems(3) del: iter_at.simps)
    then show thesis using that [of ds1 s2 m k] u(2-5) Cons.prems(2,10) None by (simp add: receive_def del: iter_at.simps)
  next
    case (Some i)
    note i = field_of_Some [OF Some]
    obtain cs where cs: "member_bytes (tbl ! i) v = Some cs" using fits(4) [OF Some] by blast
    have "dec_iter (ds\<lparr>dec_iter := iter_at tbl dest i\<rparr>) = iter_at tbl dest i" by simp
    from flat_known [where noinit = noinit and n = n and R = R and wt = "of_nat (wire_type v)", OF tbl dest Cons.prems(9) conjunct1 [OF i] cs this ok1 here]
    obtain s2 where u: "decode_known noinit n R (of_nat (wire_type v)) (ds\<lparr>dec_iter := iter_at tbl dest i\<rparr>) s1 m =
        Returned (True, ds\<lparr>dec_iter := iter_at tbl dest i\<rparr>, s2, overwrite m (dest + member_offset tbl i) cs)"
      "moved valid pending (length (wire_body v)) s1 s2" by blast
    have bound: "length cs \<le> unat (data_size (tbl ! i))"
      using member_bytes_length [OF flat_tableD(5) [OF tbl conjunct1 [OF i]] cs] .
    then have "length cs \<le> 2 ^ 64" using unsigned_less [of "data_size (tbl ! i)", where 'a = nat] by simp
    then have "changes (cells dest sz) m (overwrite m (dest + member_offset tbl i) cs)"
      using poke_safe(2) [OF flat_cells [OF tbl conjunct1 [OF i] bound] Cons.prems(9)] by blast
    moreover have "decode_loop fuel noinit n R ds s m =
        decode_loop fuel' noinit n R (ds\<lparr>dec_iter := iter_at tbl dest i\<rparr>) s2 (overwrite m (dest + member_offset tbl i) cs)"
      using more s1(1) find Some u(1) by (simp add: fuel(1) Cons.prems(3) del: iter_at.simps)
    ultimately show thesis
      using that [of "ds\<lparr>dec_iter := iter_at tbl dest i\<rparr>" s2 "overwrite m (dest + member_offset tbl i) cs" i] u(2) i
        Cons.prems(4,5) represents_store [OF Cons.prems(10) tbl conjunct1 [OF i] cs] Some
      by (simp add: receive_def del: iter_at.simps)
  qed
  have "front pending s2 = wire es" using moved_front [OF step(6)] front1 by simp
  moreover have "list_all (entry_fits tbl) es" using Cons.prems(1) by simp
  ultimately obtain ds' s' m' k' where r: "decode_loop fuel' noinit n R ds1 s2 m1 = Returned (True, ds', s', m')" "k' < length tbl"
      "dec_iter ds' = iter_at tbl dest k'" "fixed_count_field ds' = None" "fields_seen ds' = [0, 0]"
      "moved valid pending (length (wire es)) s2 s'" "changes (cells dest sz) m1 m'"
      "represents tbl dest (memory_env m') (foldl (receive tbl) (receive tbl vs (t, v)) es)"
    using Cons.IH [OF _ step(2-5) moved_ok [OF ok1 step(6)] _ fuel(2) changes_dom [OF step(7) Cons.prems(9)] step(8)] by blast
  have "moved valid pending (length (wire (e # es))) s s'"
    using moved_trans [OF moved_trans [OF s1(2) step(6)] r(6)] by (simp add: wire_def e add.assoc)
  then show ?case
    using step(1) r(1-5,8) changes_trans [OF step(7) r(7)] by (simp add: e del: iter_at.simps) blast
qed

end

text \<open>There are no required fields to miss.\<close>

lemma flat_index:
  assumes tbl: "flat_table tbl sz"
  shows "i < length tbl \<Longrightarrow> required_field_index (iter_at tbl dest i) = 0"
proof (induction i)
  case 0
  then show ?case by (simp add: pb_field_iter_begin_def it_field_def Let_def)
next
  case (Suc i)
  have i: "i < length tbl" using Suc.prems by simp
  have "it_field (iter_at tbl dest i) = tbl ! i" using iter_at_field [OF flat_tableD(1) [OF tbl] i] .
  then show ?case
    using Suc.IH [OF i] flat_field_static(2) [OF flat_tableD(5) [OF tbl i]]
    by (simp add: pb_field_iter_next_def pb_field_iter_begin_def it_field_def Let_def)
qed

lemma flat_last:
  assumes tbl: "flat_table tbl sz"
  shows "k < length tbl \<Longrightarrow> \<exists>ty. last_field_loop (iter_at tbl dest k) = (0, ty, iter_at tbl dest 0) \<and> PB_HTYPE ty = PB_HTYPE_OPTIONAL"
proof (induction "length tbl - k" arbitrary: k rule: less_induct)
  case less
  note next_step = next_iter_at [OF flat_tableD(1) [OF tbl] less.prems, of dest]
  show ?case
  proof (cases "k + 1 < length tbl")
    case True
    then have "last_field_loop (iter_at tbl dest k) = last_field_loop (iter_at tbl dest (k + 1))"
      by (subst last_field_loop.simps) (simp only: next_step if_True prod.case)
    moreover have "length tbl - (k + 1) < length tbl - k" using less.prems by simp
    ultimately show ?thesis using less.hyps [OF _ True] by metis
  next
    case False
    then have "last_field_loop (iter_at tbl dest k) = (required_field_index (iter_at tbl dest k), pb_type (it_field (iter_at tbl dest k)), iter_at tbl dest 0)"
      by (subst last_field_loop.simps) (simp only: next_step if_False prod.case)
    then show ?thesis
      using flat_index [OF tbl less.prems] iter_at_field [OF flat_tableD(1) [OF tbl] less.prems, of dest]
        flat_field_static(2) [OF flat_tableD(5) [OF tbl less.prems]] by (simp del: iter_at.simps)
  qed
qed

lemma flat_required: "flat_table tbl sz \<Longrightarrow> k < length tbl \<Longrightarrow> required_seen (iter_at tbl dest k) seen"
  using flat_last [of tbl sz k dest] by (auto simp: required_seen_def Let_def PB_MAX_REQUIRED_FIELDS_def simp del: iter_at.simps)

context byte_source
begin

lemma wire_long: "length es \<le> length (wire es)"
proof -
  have "1 \<le> length (wire_entry e)" for e :: "u32 \<times> wire_value"
    using uleb_not_Nil [of "8 * unat (fst e) + wire_type (snd e)"] by (cases e) (simp add: Suc_le_eq)
  then have step: "length xs \<le> length (concat (map wire_entry xs)) \<Longrightarrow> Suc (length xs) \<le> length (wire_entry x) + length (concat (map wire_entry xs))" for x xs
    using add_mono [of 1] by (metis plus_1_eq_Suc)
  show ?thesis unfolding wire_def by (induction es) (simp, simp only: step list.map concat.simps length_append list.size add_Suc_right add_0_right)
qed

lemma flat_decode:
  assumes tbl: "flat_table tbl sz" and dest: "dest \<noteq> 0" "cells dest sz \<subseteq> dom m"
    and local: "cells (count_local R n) 4 \<subseteq> dom m" "cells dest sz \<inter> cells (count_local R n) 4 = {}"
    and s: "in_ok valid pending s" "front pending s = wire es" and es: "list_all (entry_fits tbl) es"
  obtains s' m' where "pb_decode (Suc n) R tbl dest s m = Returned (True, s', m')" "moved valid pending (length (wire es)) s s'"
    "changes (cells dest sz \<union> cells (count_local R n) 4) m m'" "represents tbl dest (memory_env m') (received tbl es)"
proof -
  let ?W = "cells dest sz \<union> cells (count_local R n) 4"
  from flat_defaults [where n = n and R = R, OF tbl dest] obtain m1 where m1: "pb_message_set_to_defaults (Suc n) R tbl dest m = Returned m1"
    "changes (cells dest sz) m m1" "represents tbl dest (memory_env m1) (map zero_value tbl)" .
  let ?zero = "le_bytes 4 (unat (0 :: u32))"
  let ?m2 = "overwrite m1 (count_local R n) ?zero"
  have "cells (count_local R n) (length ?zero) \<subseteq> dom m1" using changes_dom [OF m1(2) local(1)] by simp
  then have m2: "poke m1 (count_local R n) ?zero = Some ?m2" "changes (cells (count_local R n) 4) m1 ?m2"
    using poke_safe [of "count_local R n" ?zero "cells (count_local R n) 4" m1] by simp_all
  have rep: "represents tbl dest (memory_env ?m2) (map zero_value tbl)"
    using local(2) by (intro represents_other [OF m1(3) tbl]) simp
  let ?ds = "\<lparr>dec_iter = snd (pb_field_iter_begin tbl dest), extension_range_start = 0, fields_seen = [0, 0], fixed_count_field = None\<rparr>"
  have "length es \<le> unat (bytes_left s)" using wire_long [of es] front_length [OF s(1)] s(2) by simp
  moreover have "0 < length tbl" using flat_tableD(2) [OF tbl] by simp
  moreover have "cells dest sz \<subseteq> dom ?m2" by (rule changes_dom [OF m2(2) changes_dom [OF m1(2) dest(2)]])
  ultimately obtain ds' s' m3 k' where loop: "decode_loop (unat (bytes_left s)) (pb_decode_noinit n R) n R ?ds s ?m2 = Returned (True, ds', s', m3)"
    "k' < length tbl" "dec_iter ds' = iter_at tbl dest k'" "fixed_count_field ds' = None" "fields_seen ds' = [0, 0]"
    "moved valid pending (length (wire es)) s s'" "changes (cells dest sz) ?m2 m3"
    "represents tbl dest (memory_env m3) (received tbl es)"
    using flat_loop [where ds = ?ds and k = 0 and R = R and n = n and noinit = "pb_decode_noinit n R" and fuel = "unat (bytes_left s)",
      OF tbl dest(1) es _ _ _ _ s _ _ rep, folded received_def] by fastforce
  have "pb_decode_noinit (Suc n) R tbl dest s m1 = Returned (True, s', m3)"
    using loop(1,4) flat_required [OF tbl loop(2), of dest] m2(1)
    by (simp add: put_def loop(3) del: iter_at.simps le_bytes.simps poke.simps)
  then have "pb_decode (Suc n) R tbl dest s m = Returned (True, s', m3)"
    using m1(1) by (simp add: pb_decode_def decode_message_def del: pb_decode_noinit.simps)
  moreover have "changes ?W m m3"
    using changes_trans [OF changes_mono [OF m1(2), of ?W] changes_trans [OF changes_mono [OF m2(2), of ?W] changes_mono [OF loop(7), of ?W]]] by simp
  ultimately show thesis using that loop(6,8) by blast
qed

end

section \<open>Round trip\<close>

lemma field_of_tag: "flat_table tbl sz \<Longrightarrow> i < length tbl \<Longrightarrow> field_of tbl (pb_tag (tbl ! i)) = Some i"
  unfolding field_of_def by (rule find_unique) (use flat_tableD(4) in \<open>auto simp: distinct_conv_nth\<close>)

lemma receive_entries:
  assumes tbl: "flat_table tbl sz"
  shows "k \<le> length tbl \<Longrightarrow>
    received tbl (concat (map (\<lambda>i. if vs ! i = zero_value (tbl ! i) then [] else [(pb_tag (tbl ! i), vs ! i)]) [0..<k])) =
      map (\<lambda>i. if i < k then vs ! i else zero_value (tbl ! i)) [0..<length tbl]"
proof (induction k)
  case 0
  show ?case by (rule nth_equalityI) (simp_all add: received_def)
next
  case (Suc k)
  have k: "k < length tbl" using Suc.prems by simp
  note IH = Suc.IH [OF less_imp_le [OF k]]
  show ?case
  proof (cases "vs ! k = zero_value (tbl ! k)")
    case True
    then show ?thesis using IH by (auto simp: less_Suc_eq intro!: map_cong)
  next
    case False
    have "received tbl (xs @ [e]) = receive tbl (received tbl xs) e" for xs e by (simp add: received_def)
    then show ?thesis using False IH field_of_tag [OF tbl k] k
      by (auto simp: receive_def nth_list_update intro!: nth_equalityI)
  qed
qed

lemma flat_entries_map:
  assumes "length vs = length tbl"
  shows "flat_entries tbl vs = concat (map (\<lambda>i. if vs ! i = zero_value (tbl ! i) then [] else [(pb_tag (tbl ! i), vs ! i)]) [0..<length tbl])"
proof -
  have "map2 (\<lambda>f v. if v = zero_value f then [] else [(pb_tag f, v)]) tbl vs =
      map (\<lambda>i. if vs ! i = zero_value (tbl ! i) then [] else [(pb_tag (tbl ! i), vs ! i)]) [0..<length tbl]"
    using assms by (intro nth_equalityI) simp_all
  then show ?thesis by (simp add: flat_entries_def)
qed

lemma received_flat_entries:
  assumes "flat_table tbl sz" and "length vs = length tbl"
  shows "received tbl (flat_entries tbl vs) = vs"
  unfolding flat_entries_map [OF assms(2)] receive_entries [OF assms(1) order_refl]
  using assms(2) by (intro nth_equalityI) simp_all

lemma flat_entries_fit:
  assumes tbl: "flat_table tbl sz" and vs: "represents tbl a env vs" and tags: "list_all (\<lambda>f. unat (pb_tag f) < 2 ^ 29) tbl"
    and len: "length (wire (flat_entries tbl vs)) < 2 ^ 32"
  shows "list_all (entry_fits tbl) (flat_entries tbl vs)"
proof -
  have vs_len: "length vs = length tbl" using vs by (simp add: represents_def)
  have "entry_fits tbl e" if e: "e \<in> set (flat_entries tbl vs)" for e
  proof -
    from e obtain i where i: "i < length tbl" and e_eq: "e = (pb_tag (tbl ! i), vs ! i)"
      unfolding flat_entries_map [OF vs_len] by (auto split: if_splits)
    from vs i obtain cs where cs: "member_bytes (tbl ! i) (vs ! i) = Some cs" by (rule representsE)
    have "length (wire_entry e) \<le> length (wire (flat_entries tbl vs))"
      unfolding wire_def using e by (rule buffer.length_le_concat)
    then have "length (wire_body (vs ! i)) < 2 ^ 32" using len by (simp add: e_eq)
    then show ?thesis
      using i cs tags table_ok_tag [OF flat_tableD(1) [OF tbl] i] field_of_tag [OF tbl i] by (simp add: entry_fits_def e_eq list_all_length)
  qed
  then show ?thesis by (simp add: list_all_iff)
qed

end
