(* ===== verification/Pb_Typed.thy ===== *)
theory Pb_Typed
  imports Pb_Roundtrip
begin

text \<open>
  Whatever bytes are decoded, and whether decoding succeeds or not, the members of a flat message stay
  of their types: a bool is 0 or 1, the size of a byte array is within the array, a string ends within
  its array.
\<close>

section \<open>Typed members\<close>

definition typed :: "pb_field_t \<Rightarrow> u64 \<Rightarrow> memory \<Rightarrow> bool" where
  "typed f a m \<longleftrightarrow> (\<exists>w cs. member_bytes f w = Some cs \<and> load (memory_env m) a (length cs) = Some cs)"

lemma typedI: "member_bytes f w = Some cs \<Longrightarrow> load (memory_env m) a (length cs) = Some cs \<Longrightarrow> typed f a m"
  unfolding typed_def by blast

lemma typed_poke:
  assumes "flat_field f" and "member_bytes f w = Some cs"
  shows "typed f a (overwrite m a cs)"
proof (rule typedI [OF assms(2)])
  have "length cs \<le> 2 ^ 64" using member_bytes_length [OF assms] unsigned_less [of "data_size f", where 'a = nat] by simp
  then show "load (memory_env (overwrite m a cs)) a (length cs) = Some cs" by (intro load_overwrite) simp_all
qed

lemma typed_apart:
  assumes "typed f a m" and "flat_field f" and "changes W m m'" and "W \<inter> cells a (unat (data_size f)) = {}"
  shows "typed f a m'"
proof -
  obtain w cs where cs: "member_bytes f w = Some cs" "load (memory_env m) a (length cs) = Some cs" using assms(1) unfolding typed_def by blast
  have "cells a (length cs) \<subseteq> cells a (unat (data_size f))" by (rule cells_mono) (rule member_bytes_length [OF assms(2) cs(1)])
  then have "load (memory_env m') a (length cs) = load (memory_env m) a (length cs)"
    using assms(3,4) by (intro load_memory_cong) (auto simp: changes_def)
  then show ?thesis using cs typedI by metis
qed

lemma bind_result_ReturnedE:
  assumes "bind_result r f = Returned y"
  obtains x where "r = Returned x" "f x = Returned y"
  using assms by (cases r) auto

lemma with_value_cases:
  assumes "with_value r m f = Returned (ok, s', m')"
  obtains "m' = m" | x s1 where "r = Some (Some x, s1)" "f x s1 m = Returned (ok, s', m')"
  using assms by (auto simp: with_value_def from_option_def split: option.splits)

lemma poke_cases:
  assumes "poke m a bs = Some m'" and "cells a (length bs) \<subseteq> dom m" and "length bs \<le> 2 ^ 64"
  shows "m' = overwrite m a bs"
  using assms poke_overwrite by simp

text \<open>Any bytes of the size are a number.\<close>

lemma narrow:
  fixes x :: "'z::len word"
  assumes "LENGTH('z) \<le> 64"
  shows "ucast (scast x :: u64) = x"
proof (rule bit_word_eqI)
  fix n assume n: "n < LENGTH('z)"
  then have "min (LENGTH('z) - Suc 0) n = n" "min n (LENGTH('z) - Suc 0) = n" by simp_all
  then show "bit (ucast (scast x :: u64) :: 'z word) n = bit x n" using n assms by (simp add: bit_simps)
qed

lemma narrow_unsigned:
  fixes x :: "'z::len word"
  assumes "LENGTH('z) \<le> 64"
  shows "ucast (ucast x :: u64) = x"
  by (rule bit_word_eqI) (use assms in \<open>auto simp: bit_simps\<close>)

lemma any_number:
  "\<exists>v'. number_bytes sg 8 v' = Some (le_bytes 8 (unat v))"
  "\<exists>v'. number_bytes sg 4 v' = Some (le_bytes 4 (unat (ucast v :: u32)))"
  "\<exists>v'. number_bytes sg 2 v' = Some (le_bytes 2 (unat (ucast v :: u16)))"
  "\<exists>v'. number_bytes sg 1 v' = Some (le_bytes 1 (unat (ucast v :: u8)))" for v :: u64
proof -
  show "\<exists>v'. number_bytes sg 8 v' = Some (le_bytes 8 (unat v))" by (rule exI [of _ v]) (simp add: number_bytes_def)
  show "\<exists>v'. number_bytes sg 4 v' = Some (le_bytes 4 (unat (ucast v :: u32)))"
    by (rule exI [of _ "if sg then scast (ucast v :: u32) else ucast (ucast v :: u32)"]) (cases sg; simp add: number_bytes_def narrow narrow_unsigned)
  show "\<exists>v'. number_bytes sg 2 v' = Some (le_bytes 2 (unat (ucast v :: u16)))"
    by (rule exI [of _ "if sg then scast (ucast v :: u16) else ucast (ucast v :: u16)"]) (cases sg; simp add: number_bytes_def narrow narrow_unsigned)
  show "\<exists>v'. number_bytes sg 1 v' = Some (le_bytes 1 (unat (ucast v :: u8)))"
    by (rule exI [of _ "if sg then scast (ucast v :: u8) else ucast (ucast v :: u8)"]) (cases sg; simp add: number_bytes_def narrow narrow_unsigned)
qed

lemma number_kept:
  assumes "check_clamped (put_signed sz m a v) w s m = Returned (ok, s', m') \<or> check_clamped (put_unsigned sz m a v) w s m = Returned (ok, s', m')"
    and "sz = 1 \<or> sz = 2 \<or> sz = 4 \<or> sz = 8" and "cells a (unat sz) \<subseteq> dom m"
  shows "\<exists>cs v'. m' = overwrite m a cs \<and> number_bytes sg sz v' = Some cs"
proof -
  have "\<exists>cs v'. poke m a cs = Some m' \<and> number_bytes sg sz v' = Some cs"
    using assms(2)
  proof (elim disjE)
    assume sz: "sz = 1"
    then have "poke m a (le_bytes 1 (unat (ucast v :: u8))) = Some m'"
      using assms(1) by (auto simp: check_clamped_def put_signed_def put_unsigned_def put_def from_option_def dec_error_def split: option.splits if_splits)
    then show ?thesis using any_number(4) [of sg v] sz by metis
  next
    assume sz: "sz = 2"
    then have "poke m a (le_bytes 2 (unat (ucast v :: u16))) = Some m'"
      using assms(1) by (auto simp: check_clamped_def put_signed_def put_unsigned_def put_def from_option_def dec_error_def split: option.splits if_splits)
    then show ?thesis using any_number(3) [of sg v] sz by metis
  next
    assume sz: "sz = 4"
    then have "poke m a (le_bytes 4 (unat (ucast v :: u32))) = Some m'"
      using assms(1) by (auto simp: check_clamped_def put_signed_def put_unsigned_def put_def from_option_def dec_error_def split: option.splits if_splits)
    then show ?thesis using any_number(2) [of sg v] sz by metis
  next
    assume sz: "sz = 8"
    then have "poke m a (le_bytes 8 (unat v)) = Some m'"
      using assms(1) by (auto simp: check_clamped_def put_signed_def put_unsigned_def put_def from_option_def dec_error_def split: option.splits if_splits)
    then show ?thesis using any_number(1) [of sg v] sz by metis
  qed
  then obtain cs v' where cs: "poke m a cs = Some m'" "number_bytes sg sz v' = Some cs" by blast
  have "length cs = unat sz" by (rule number_bytes_length [OF cs(2)])
  moreover have "unat sz \<le> 2 ^ 64" using unsigned_less [of sz, where 'a = nat] by simp
  ultimately show ?thesis using cs assms(3) poke_cases [OF cs(1)] by auto
qed

lemma unzigzag_onto: "\<exists>u. unzigzag u = v"
proof -
  let ?u = "if bit v 63 then NOT (push_bit 1 v) else push_bit 1 v"
  have odd: "u AND 1 \<noteq> 0 \<longleftrightarrow> bit u 0" for u :: u64 by (simp add: and_one_eq odd_iff_mod_2_eq_one bit_0 mod2_eq_if)
  have up: "bit (drop_bit k (push_bit k v)) n \<longleftrightarrow> n + k < 64 \<and> bit v n"
    "bit (NOT (drop_bit k (NOT (push_bit k v)))) n \<longleftrightarrow> n < 64 \<and> (64 \<le> n + k \<or> bit v n)" for k n
    by (auto simp: bit_simps)
  have low: "\<not> bit (push_bit 1 v) 0" "bit (NOT (push_bit 1 v)) 0" by (simp_all add: bit_0)
  have "unzigzag ?u = v"
  proof (cases "bit v 63")
    case True
    then have u: "unzigzag ?u = NOT (drop_bit 1 (NOT (push_bit 1 v)))" by (simp only: unzigzag_def odd low if_True)
    show ?thesis unfolding u
    proof (rule bit_word_eqI)
      fix n assume "n < LENGTH(64)"
      then have "n < 64" by simp
      then show "bit (NOT (drop_bit 1 (NOT (push_bit 1 v)))) n = bit v n" unfolding up(2) using True by (cases "n = 63") auto
    qed
  next
    case False
    then have u: "unzigzag ?u = drop_bit 1 (push_bit 1 v)" by (simp only: unzigzag_def odd low if_False)
    show ?thesis unfolding u
    proof (rule bit_word_eqI)
      fix n assume "n < LENGTH(64)"
      then have "n < 64" by simp
      then show "bit (drop_bit 1 (push_bit 1 v)) n = bit v n" unfolding up(1) using False by (cases "n = 63") auto
    qed
  qed
  then show ?thesis by blast
qed

lemma typed_string:
  assumes "load (memory_env m) a n = Some bs" and "0 \<in> set bs" and "n \<le> unat (data_size f)" and "PB_LTYPE (pb_type f) = PB_LTYPE_STRING"
  shows "typed f a m"
proof -
  let ?cs = "takeWhile (\<lambda>b. b \<noteq> 0) bs"
  obtain rest where split: "bs = ?cs @ 0 # rest"
    using assms(2) by (metis (mono_tags, lifting) dropWhile_eq_Nil_conv hd_Cons_tl hd_dropWhile takeWhile_dropWhile_id)
  note n = load_length [OF assms(1)]
  have "length ?cs < length bs" using arg_cong [OF split, of length] by simp
  then have "member_bytes f (Bytes ?cs) = Some (?cs @ [0])"
    using assms(3,4) n by (auto simp: member_bytes_def list_all_iff dest: set_takeWhileD)
  moreover have "load (memory_env m) a (length (?cs @ [0])) = Some (?cs @ [0])"
  proof (rule load_prefix(1))
    show "load (memory_env m) a (length (?cs @ [0]) + length rest) = Some ((?cs @ [0]) @ rest)"
      using assms(1) n split by (metis append.assoc append_Cons append_Nil length_append)
  qed simp
  ultimately show ?thesis by (rule typedI)
qed

context byte_source
begin

lemma read_to_cases:
  assumes "in_ok valid pending s" and "read_to a count s m = Returned (ok, s', m')" and "cells a (unat count) \<subseteq> dom m"
  obtains "m' = m" | bs where "m' = overwrite m a bs" "length bs = unat count"
proof (cases "unat count \<le> unat (bytes_left s)")
  case True
  then obtain s1 where s1: "pb_read True count s = Some (True, take (unat count) (front pending s), s1)"
    using pb_read_moves [OF assms(1), of count True] by auto
  let ?bs = "take (unat count) (front pending s)"
  have len: "length ?bs = unat count" using True by (simp add: front_length [OF assms(1)])
  have "unat count \<le> 2 ^ 64" using unsigned_less [of count, where 'a = nat] by simp
  then have "poke m a ?bs = Some (overwrite m a ?bs)" using assms(3) len by (intro poke_overwrite) simp_all
  then have "m' = overwrite m a ?bs" using assms(2) s1 by (simp add: read_to_def)
  then show thesis using that(2) len by blast
next
  case False
  then obtain s1 where "pb_read True count s = Some (False, [], s1)" using pb_read_moves [OF assms(1), of count True] by auto
  then have "m' = m" using assms(2) by (simp add: read_to_def)
  then show thesis by (rule that(1))
qed

lemma member_kept:
  assumes flat: "flat_field f" and s: "in_ok valid pending s" and m: "cells a (unat (data_size f)) \<subseteq> dom m" and t: "typed f a m"
    and run: "(PB_DECODERS noinit n R ! unat (PB_LTYPE (pb_type f))) f a s m = Returned (ok, s', m')"
  shows "typed f a m'"
  using flat
proof (cases rule: flat_field_cases)
  case bool
  then have run: "with_value (pb_decode_varint32 s) m (\<lambda>value s m. written (poke m a [if value \<noteq> 0 then 1 else 0]) s) = Returned (ok, s', m')"
    using run by (simp add: PB_DECODERS_def pb_dec_bool_def del: poke.simps)
  then show ?thesis
  proof (cases rule: with_value_cases)
    case 1
    then show ?thesis using t by simp
  next
    case (2 x s1)
    let ?b = "if x \<noteq> 0 then 1 else 0 :: u8"
    have "cells a (length [?b]) \<subseteq> dom m" using m bool(2) by simp
    then have "m' = overwrite m a [?b]" using 2(2) poke_overwrite [of a "[?b]" m] by (simp add: written_def del: poke.simps)
    moreover have "member_bytes f (Varint (if x \<noteq> 0 then 1 else 0)) = Some [?b]" using bool(1) by (simp add: member_bytes_def)
    ultimately show ?thesis using typed_poke [OF flat] by simp
  qed
next
  case varint
  then have "with_value (pb_decode_varint s) m (\<lambda>value s m.
      let svalue = (if data_size f = 8 then value else scast (ucast value :: u32)) in
      check_clamped (put_signed (data_size f) m a svalue) svalue s m) = Returned (ok, s', m')"
    using run by (simp add: PB_DECODERS_def pb_dec_varint_def)
  then show ?thesis
  proof (cases rule: with_value_cases)
    case 1
    then show ?thesis using t by simp
  next
    case (2 x s1)
    obtain cs v where "m' = overwrite m a cs" "number_bytes True (data_size f) v = Some cs"
      using number_kept [OF disjI1 [OF 2(2) [unfolded Let_def]] varint(2) m] by blast
    then show ?thesis using varint(1) typed_poke [OF flat, of "Varint v" cs] by (simp add: member_bytes_def)
  qed
next
  case uvarint
  then have "with_value (pb_decode_varint s) m (\<lambda>value s m. check_clamped (put_unsigned (data_size f) m a value) value s m) = Returned (ok, s', m')"
    using run by (simp add: PB_DECODERS_def pb_dec_uvarint_def)
  then show ?thesis
  proof (cases rule: with_value_cases)
    case 1
    then show ?thesis using t by simp
  next
    case (2 x s1)
    obtain cs v where "m' = overwrite m a cs" "number_bytes False (data_size f) v = Some cs"
      using number_kept [OF disjI2 [OF 2(2)] uvarint(2) m] by blast
    then show ?thesis using uvarint(1) typed_poke [OF flat, of "Varint v" cs] by (simp add: member_bytes_def)
  qed
next
  case svarint
  then have "with_value (pb_decode_svarint s) m (\<lambda>value s m. check_clamped (put_signed (data_size f) m a value) value s m) = Returned (ok, s', m')"
    using run by (simp add: PB_DECODERS_def pb_dec_svarint_def)
  then show ?thesis
  proof (cases rule: with_value_cases)
    case 1
    then show ?thesis using t by simp
  next
    case (2 x s1)
    obtain cs v where v: "m' = overwrite m a cs" "number_bytes True (data_size f) v = Some cs"
      using number_kept [OF disjI1 [OF 2(2)] svarint(2) m] by blast
    obtain u where "unzigzag u = v" using unzigzag_onto by blast
    then show ?thesis using svarint(1) typed_poke [OF flat, of "Varint u" cs] v by (simp add: member_bytes_def)
  qed
next
  case fixed32
  then have run: "pb_decode_fixed32 a s m = Returned (ok, s', m')" using run by (simp add: PB_DECODERS_def pb_dec_fixed32_def)
  have "m' = m \<or> (\<exists>x. put m a 4 (x :: u32) = Some m')"
    using run by (auto simp: pb_decode_fixed32_def written_def from_option_def split: option.splits if_splits list.splits)
  then show ?thesis
  proof (elim disjE exE)
    fix x :: u32 assume "put m a 4 x = Some m'"
    then have "m' = overwrite m a (le_bytes 4 (unat x))" unfolding put_def by (rule poke_cases) (use m fixed32(2) in simp_all)
    then show ?thesis using fixed32(1) typed_poke [OF flat, of "Fixed32 x"] by (simp add: member_bytes_def)
  qed (use t in simp)
next
  case fixed64
  then have run: "pb_decode_fixed64 a s m = Returned (ok, s', m')" using run by (simp add: PB_DECODERS_def pb_dec_fixed64_def)
  have "m' = m \<or> (\<exists>x. put m a 8 (x :: u64) = Some m')"
    using run by (auto simp: pb_decode_fixed64_def written_def from_option_def split: option.splits if_splits list.splits)
  then show ?thesis
  proof (elim disjE exE)
    fix x :: u64 assume "put m a 8 x = Some m'"
    then have "m' = overwrite m a (le_bytes 8 (unat x))" unfolding put_def by (rule poke_cases) (use m fixed64(2) in simp_all)
    then show ?thesis using fixed64(1) typed_poke [OF flat, of "Fixed64 x"] by (simp add: member_bytes_def)
  qed (use t in simp)
next
  case bytes
  then have "with_value (pb_decode_varint32 s) m (\<lambda>sz s m.
     let alloc_size = ucast sz + 4 :: u64 in
     if PB_SIZE_MAX < sz then dec_error ''bytes overflow'' s m
     else if alloc_size < ucast sz then dec_error ''size too large'' s m
     else if ucast (data_size f) < alloc_size then dec_error ''bytes overflow'' s m
     else bind_result (from_option (put m a 4 sz)) (\<lambda>m. read_to (a + 4) (ucast sz) s m)) = Returned (ok, s', m')"
    using run flat_field_static(1) [OF flat] by (simp add: PB_DECODERS_def pb_dec_bytes_def Let_def cong: if_cong)
  then show ?thesis
  proof (cases rule: with_value_cases)
    case 1
    then show ?thesis using t by simp
  next
    case (2 sz s1)
    obtain v s1' where "pb_decode_varint32 s = Some (v, s1')" "in_ok valid pending s1'"
      using varint32_taking s by (rule taking_readerE) blast
    then have s1: "in_ok valid pending s1" using 2(1) by simp
    show ?thesis
    proof (cases "PB_SIZE_MAX < sz \<or> (ucast sz + 4 :: u64) < ucast sz \<or> ucast (data_size f) < (ucast sz + 4 :: u64)")
      case True
      then have "m' = m" using 2(2) by (auto simp: dec_error_def Let_def split: if_splits)
      then show ?thesis using t by simp
    next
      case False
      have "unat (ucast sz + 4 :: u64) = unat sz + 4" using unsigned_less [of sz, where 'a = nat] by (subst unat_sum) simp_all
      then have le: "unat sz + 4 \<le> unat (data_size f)" using False by (simp add: word_less_nat_alt)
      let ?size = "le_bytes 4 (unat sz)"
      have small: "4 + unat sz \<le> 2 ^ 64" using unsigned_less [of sz, where 'a = nat] by simp
      have "cells a (4 + unat sz) \<subseteq> dom m" using m cells_mono [of "4 + unat sz" "unat (data_size f)" a] le by auto
      from cells_parts [where b = "a + 4", OF this small] have parts: "cells a 4 \<subseteq> dom m" "cells (a + 4) (unat sz) \<subseteq> dom m" by simp_all
      let ?m1 = "overwrite m a ?size"
      have put: "put m a 4 sz = Some ?m1" unfolding put_def using parts(1) by (intro poke_overwrite) simp_all
      have typed: "typed f a m'" if "load (memory_env m') a 4 = Some ?size" "load (memory_env m') (a + 4) (unat sz) = Some xs" for xs
      proof (rule typedI [where w = "Bytes xs"])
        have len: "length xs = unat sz" by (rule load_length [OF that(2)])
        then show "member_bytes f (Bytes xs) = Some (?size @ xs)" using le bytes(1) by (simp add: member_bytes_def)
        show "load (memory_env m') a (length (?size @ xs)) = Some (?size @ xs)" using that by (simp add: load_append len)
      qed
      have "read_to (a + 4) (ucast sz) s1 ?m1 = Returned (ok, s', m')" using 2(2) False put by (simp add: Let_def)
      moreover have "cells (a + 4) (unat (ucast sz :: u64)) \<subseteq> dom ?m1" using overwrite_dom [OF parts(2)] by simp
      ultimately consider "m' = ?m1" | bs where "m' = overwrite ?m1 (a + 4) bs" "length bs = unat sz"
        using read_to_cases [OF s1] by (metis unat_ucast_u32)
      then show ?thesis
      proof cases
        case 1
        have "load (memory_env m') a 4 = Some ?size" unfolding 1 by (rule load_overwrite) simp_all
        moreover obtain xs where "load (memory_env m') (a + 4) (unat sz) = Some xs"
          unfolding 1 using load_mapped overwrite_dom [OF parts(2)] by blast
        ultimately show ?thesis by (rule typed)
      next
        case (2 bs)
        have "m' = overwrite m a (?size @ bs)" using 2 small by (simp add: overwrite_append)
        moreover have "member_bytes f (Bytes bs) = Some (?size @ bs)" using le bytes(1) 2(2) by (simp add: member_bytes_def)
        ultimately show ?thesis using typed_poke [OF flat] by simp
      qed
    qed
  qed
next
  case string
  then have "with_value (pb_decode_varint32 s) m (\<lambda>sz s m.
     let alloc_size = ucast (sz + 1) :: u64;
         finish = (\<lambda>dest s m. bind_result (read_to dest (ucast sz) s m) (\<lambda>(ok, s, m).
           bind_result (from_option (poke m (dest + ucast sz) [0])) (\<lambda>m. Returned (ok, s, m)))) in
     if alloc_size < ucast sz then dec_error ''size too large'' s m
     else if ucast (data_size f) < alloc_size then dec_error ''string overflow'' s m
     else finish a s m) = Returned (ok, s', m')"
    using run flat_field_static(1) [OF flat] by (simp add: PB_DECODERS_def pb_dec_string_def Let_def del: poke.simps cong: if_cong)
  then show ?thesis
  proof (cases rule: with_value_cases)
    case 1
    then show ?thesis using t by simp
  next
    case (2 sz s1)
    obtain v s1' where "pb_decode_varint32 s = Some (v, s1')" "in_ok valid pending s1'"
      using varint32_taking s by (rule taking_readerE) blast
    then have s1: "in_ok valid pending s1" using 2(1) by simp
    show ?thesis
    proof (cases "(ucast (sz + 1) :: u64) < ucast sz \<or> ucast (data_size f) < (ucast (sz + 1) :: u64)")
      case True
      then have "m' = m" using 2(2) by (auto simp: dec_error_def Let_def split: if_splits)
      then show ?thesis using t by simp
    next
      case False
      have "sz + 1 \<noteq> 0"
      proof
        assume "sz + 1 = 0"
        then have "sz = - 1" by (simp add: eq_neg_iff_add_eq_0)
        moreover have "(0 :: u64) < ucast (- 1 :: u32)" by code_simp
        ultimately show False using False by simp
      qed
      then have "unat (sz + 1) = unat sz + 1" by (simp add: unatSuc add.commute)
      then have le: "unat sz + 1 \<le> unat (data_size f)" using False by (simp add: word_less_nat_alt)
      have small: "unat sz + 1 \<le> 2 ^ 64" using unsigned_less [of sz, where 'a = nat] by simp
      have off: "of_nat (unat sz) = (ucast sz :: u64)" by (metis of_nat_unat)
      have "cells a (unat sz + 1) \<subseteq> dom m" using m cells_mono [of "unat sz + 1" "unat (data_size f)" a] le by auto
      from cells_parts [where b = "a + ucast sz", OF this small] have parts: "cells a (unat sz) \<subseteq> dom m" "cells (a + ucast sz) 1 \<subseteq> dom m"
        by (simp_all add: off)
      obtain ok1 s2 m1 where r: "read_to a (ucast sz) s1 m = Returned (ok1, s2, m1)"
        "from_option (poke m1 (a + ucast sz) [0]) = Returned m'"
        using 2(2) False by (auto simp: Let_def elim!: bind_result_ReturnedE)
      have inside: "cells a (unat (ucast sz :: u64)) \<subseteq> dom m" using parts(1) by simp
      have "dom m \<subseteq> dom m1" by (rule read_to_cases [OF s1 r(1) inside]) (simp_all add: overwrite_dom)
      then have m': "m' = overwrite m1 (a + ucast sz) [0]"
        using r(2) parts(2) poke_overwrite [of "a + ucast sz" "[0]" m1] by (auto simp del: poke.simps)
      have dom': "cells a (unat sz) \<subseteq> dom m'" unfolding m' by (rule overwrite_dom) (use parts(1) \<open>dom m \<subseteq> dom m1\<close> in blast)
      then obtain xs where xs: "load (memory_env m') a (unat sz) = Some xs" using load_mapped by blast
      have "load (memory_env m') (a + ucast sz) 1 = Some [0]" unfolding m' by (rule load_overwrite) simp_all
      then have "load (memory_env m') a (unat sz + 1) = Some (xs @ [0])" using xs by (simp only: load_append off) simp
      then show ?thesis by (rule typed_string) (use le string(1) in simp_all)
    qed
  qed
qed

section \<open>Typed messages\<close>

end

definition typed_message :: "pb_field_t list \<Rightarrow> u64 \<Rightarrow> memory \<Rightarrow> bool" where
  "typed_message tbl dest m \<longleftrightarrow> (\<forall>i < length tbl. typed (tbl ! i) (dest + member_offset tbl i) m)"

lemma represents_typed: "represents tbl dest (memory_env m) vs \<Longrightarrow> typed_message tbl dest m"
  unfolding typed_message_def by (auto elim: representsE intro: typedI)

lemma typed_represents:
  assumes "typed_message tbl dest m"
  shows "\<exists>vs. represents tbl dest (memory_env m) vs"
proof -
  have "\<forall>i \<in> {..<length tbl}. \<exists>w. \<exists>cs. member_bytes (tbl ! i) w = Some cs \<and>
      load (memory_env m) (dest + member_offset tbl i) (length cs) = Some cs"
    using assms by (simp add: typed_message_def typed_def)
  then obtain g where g: "\<And>i. i < length tbl \<Longrightarrow> \<exists>cs. member_bytes (tbl ! i) (g i) = Some cs \<and>
      load (memory_env m) (dest + member_offset tbl i) (length cs) = Some cs" unfolding bchoice_iff by blast
  show ?thesis by (rule exI [of _ "map g [0..<length tbl]"], rule representsI) (use g in simp_all)
qed

lemma typed_other:
  assumes "typed_message tbl dest m" and "flat_table tbl sz" and "changes W m m'" and "W \<inter> cells dest sz = {}"
  shows "typed_message tbl dest m'"
  unfolding typed_message_def
proof (intro allI impI)
  fix i assume i: "i < length tbl"
  then have t: "typed (tbl ! i) (dest + member_offset tbl i) m" using assms(1) by (simp add: typed_message_def)
  have "W \<inter> cells (dest + member_offset tbl i) (unat (data_size (tbl ! i))) = {}"
    using assms(4) flat_cells [OF assms(2) i order_refl, of dest] by blast
  then show "typed (tbl ! i) (dest + member_offset tbl i) m'" by (rule typed_apart [OF t flat_tableD(5) [OF assms(2) i] assms(3)])
qed

context byte_source
begin

text \<open>One field: its own member stays typed, the others are not touched.\<close>

lemma known_kept:
  assumes tbl: "flat_table tbl sz" and dest: "dest \<noteq> 0" "cells dest sz \<subseteq> dom m" and i: "i < length tbl"
    and it: "dec_iter ds = iter_at tbl dest i" and s: "in_ok valid pending s" and t: "typed_message tbl dest m"
  obtains ok s' m' where "decode_known noinit n R wt ds s m = Returned (ok, ds, s', m')" "typed_message tbl dest m'"
    "changes (cells dest sz) m m'" "weaker valid pending s s'"
proof -
  note flat = flat_tableD(5) [OF tbl i]
  note f = flat_field_static [OF flat]
  let ?a = "dest + member_offset tbl i" and ?ds = "unat (data_size (tbl ! i))"
  let ?func = "(PB_DECODERS noinit n R ! unat (PB_LTYPE (pb_type (tbl ! i)))) (tbl ! i) ?a"
  have field: "it_field (dec_iter ds) = tbl ! i" using iter_at_field [OF flat_tableD(1) [OF tbl] i] by (simp add: it del: iter_at.simps)
  have own: "cells ?a ?ds \<subseteq> dom m" using flat_cells [OF tbl i order_refl] dest(2) by blast
  have "static_field (static_table 0 (dec_tables R) {}) (dec_tables R) {} tbl sz i"
    using flat_static [OF tbl, of "dec_tables R" "{}"] i by (simp add: list_all_iff)
  then have fits: "type_fits (static_table 0 (dec_tables R) {}) (dec_tables R) {} (tbl ! i)" by (simp add: static_field_def Let_def)
  have "PB_LTYPE (pb_type (tbl ! i)) \<noteq> PB_LTYPE_SUBMESSAGE" using f(5) by (auto simp: word_less_nat_alt)
  then have "safe_decoder valid pending True (cells ?a ?ds) (cells ?a ?ds) ?func"
    using sd_type [where noinit = noinit and n = n, OF fits f(1) order_refl order_refl] by blast
  from this s own obtain ok s' m' where r: "?func s m = Returned (ok, s', m')" "changes (cells ?a ?ds) m m'" "weaker valid pending s s'"
    by (rule safe_decoderE) blast
  have "\<not> PB_LTYPES_COUNT \<le> PB_LTYPE (pb_type (tbl ! i))" using f(5) by (simp add: word_less_nat_alt word_le_nat_alt)
  then have "decode_static_field noinit n R wt (dec_iter ds) s m = Returned (ok, s', m')"
    using r(1) f(2) flat_address [OF tbl dest(1) i] by (simp add: decode_static_field_def Let_def field [unfolded it] it del: iter_at.simps)
  then have "decode_known noinit n R wt ds s m = Returned (ok, ds, s', m')"
    using f(1,2) by (simp add: decode_known_def decode_field_def Let_def field)
  moreover have "typed_message tbl dest m'"
    unfolding typed_message_def
  proof (intro allI impI)
    fix j assume j: "j < length tbl"
    then have tj: "typed (tbl ! j) (dest + member_offset tbl j) m" using t by (simp add: typed_message_def)
    show "typed (tbl ! j) (dest + member_offset tbl j) m'"
    proof (cases "j = i")
      case True
      show ?thesis unfolding True by (rule member_kept [OF flat s own tj [unfolded True] r(1)])
    next
      case False
      then show ?thesis using flat_apart [OF tbl i j _ order_refl order_refl] by (intro typed_apart [OF tj flat_tableD(5) [OF tbl j] r(2)]) simp
    qed
  qed
  moreover have "changes (cells dest sz) m m'" by (rule changes_mono [OF r(2) flat_cells [OF tbl i order_refl]])
  ultimately show thesis using that r(3) by blast
qed

lemma unknown_kept:
  assumes tbl: "flat_table tbl sz" and k: "k < length tbl" and it: "dec_iter ds = iter_at tbl dest k" and t: "t < - 1"
    and s: "in_ok valid pending s"
  obtains ok s' ds' where "decode_unknown noinit n R t wt ds s m = Returned (ok, ds', s', m)" "dec_iter ds' = iter_at tbl dest k"
    "fixed_count_field ds' = fixed_count_field ds" "weaker valid pending s s'"
proof -
  have ext: "PB_LTYPE (pb_type (tbl ! i)) \<noteq> PB_LTYPE_EXTENSION" if "i < length tbl" for i
    using flat_field_static(5) [OF flat_tableD(5) [OF tbl that]] by (auto simp: word_less_nat_alt)
  have "field_of tbl 0 = None" using field_of_Some [of tbl 0] table_ok_tag [OF flat_tableD(1) [OF tbl]] by (cases "field_of tbl 0") auto
  then have found: "find_extension_field (dec_iter ds) = Returned (False, iter_at tbl dest k)"
    using extension_loop_find [OF flat_tableD(1) [OF tbl] ext k] find_field [OF tbl k, of 0 dest]
    by (simp add: find_extension_field_def pb_field_iter_find_def it del: iter_at.simps)
  obtain v s1 where s1: "pb_skip_field wt s = Some (v, s1)" "later valid pending s s1" using skip_field_safe s by (rule safe_readerE) blast
  show thesis
    using that [of "v \<noteq> None" "if t < extension_range_start ds then ds else ds\<lparr>dec_iter := iter_at tbl dest k, extension_range_start := - 1\<rparr>" s1]
      found t it s1(1) later_weaker [OF s s1(2)]
    by (cases v) (simp_all add: decode_unknown_def Let_def with_value_def del: iter_at.simps)
qed

lemma typed_loop:
  assumes tbl: "flat_table tbl sz" and dest: "dest \<noteq> 0"
  shows "unat (bytes_left s) \<le> fuel \<Longrightarrow> k < length tbl \<Longrightarrow> dec_iter ds = iter_at tbl dest k \<Longrightarrow> fixed_count_field ds = None \<Longrightarrow>
    in_ok valid pending s \<Longrightarrow> cells dest sz \<subseteq> dom m \<Longrightarrow> typed_message tbl dest m \<Longrightarrow>
    \<exists>ok ds' s' m'. decode_loop fuel noinit n R ds s m = Returned (ok, ds', s', m') \<and> fixed_count_field ds' = None \<and>
      (\<exists>k' < length tbl. dec_iter ds' = iter_at tbl dest k') \<and> typed_message tbl dest m' \<and> changes (cells dest sz) m m'"
proof (induction fuel arbitrary: k ds s m)
  case 0
  then have "bytes_left s = 0" by (simp add: unat_eq_0)
  then show ?case using 0 by (auto simp del: iter_at.simps)
next
  case (Suc fuel)
  show ?case
  proof (cases "bytes_left s = 0")
    case True
    then show ?thesis using Suc.prems by (auto simp del: iter_at.simps)
  next
    case more: False
    obtain v eof s1 where v: "pb_decode_tag s = Some (v, eof, s1)" "later valid pending s s1"
      "v \<noteq> None \<longrightarrow> unat (bytes_left s1) < unat (bytes_left s)" using tag_taking [OF Suc.prems(5)] by blast
    show ?thesis
    proof (cases v)
      case None
      then show ?thesis using more v Suc.prems(2-4,7) by (auto simp del: iter_at.simps)
    next
      case (Some tw)
      obtain t wt where tw: "tw = (t, wt)" by fastforce
      have t: "t < - 1" using tag_small v(1) Some tw by blast
      have s1: "in_ok valid pending s1" using later_ok [OF Suc.prems(5) v(2)] .
      note find = find_field [where t = t and dest = dest, OF tbl Suc.prems(2), folded Suc.prems(3)]
      obtain ok ds1 s2 m1 k1 where step: "decode_loop (Suc fuel) noinit n R ds s m =
          (if ok then decode_loop fuel noinit n R ds1 s2 m1 else Returned (False, ds1, s2, m1))"
        "k1 < length tbl" "dec_iter ds1 = iter_at tbl dest k1" "fixed_count_field ds1 = None" "weaker valid pending s1 s2"
        "typed_message tbl dest m1" "changes (cells dest sz) m m1"
      proof (cases "field_of tbl t")
        case None
        have "dec_iter (ds\<lparr>dec_iter := iter_at tbl dest k\<rparr>) = iter_at tbl dest k" by simp
        from unknown_kept [where noinit = noinit and n = n and R = R and m = m and wt = wt, OF tbl Suc.prems(2) this t s1]
        obtain ok s2 ds1 where u: "decode_unknown noinit n R t wt (ds\<lparr>dec_iter := iter_at tbl dest k\<rparr>) s1 m = Returned (ok, ds1, s2, m)"
          "dec_iter ds1 = iter_at tbl dest k" "fixed_count_field ds1 = fixed_count_field (ds\<lparr>dec_iter := iter_at tbl dest k\<rparr>)"
          "weaker valid pending s1 s2" by blast
        have "decode_loop (Suc fuel) noinit n R ds s m = (if ok then decode_loop fuel noinit n R ds1 s2 m else Returned (False, ds1, s2, m))"
          using more v(1) Some tw find None u(1) by (simp add: Suc.prems(3) del: iter_at.simps)
        then show thesis using that [of ok ds1 s2 m k] u(2-4) Suc.prems(2,4,7) by simp
      next
        case (Some i)
        note i = conjunct1 [OF field_of_Some [OF Some]]
        have "dec_iter (ds\<lparr>dec_iter := iter_at tbl dest i\<rparr>) = iter_at tbl dest i" by simp
        from known_kept [where noinit = noinit and n = n and R = R and wt = wt, OF tbl dest Suc.prems(6) i this s1 Suc.prems(7)]
        obtain ok s2 m1 where u: "decode_known noinit n R wt (ds\<lparr>dec_iter := iter_at tbl dest i\<rparr>) s1 m =
            Returned (ok, ds\<lparr>dec_iter := iter_at tbl dest i\<rparr>, s2, m1)" "typed_message tbl dest m1" "changes (cells dest sz) m m1"
          "weaker valid pending s1 s2" by blast
        have "decode_loop (Suc fuel) noinit n R ds s m =
            (if ok then decode_loop fuel noinit n R (ds\<lparr>dec_iter := iter_at tbl dest i\<rparr>) s2 m1
             else Returned (False, ds\<lparr>dec_iter := iter_at tbl dest i\<rparr>, s2, m1))"
          using more v(1) \<open>v = Some tw\<close> tw find Some u(1) by (simp add: Suc.prems(3) del: iter_at.simps)
        then show thesis using that [of ok "ds\<lparr>dec_iter := iter_at tbl dest i\<rparr>" s2 m1 i] u(2-4) i Suc.prems(4) by simp
      qed
      show ?thesis
      proof (cases ok)
        case False
        then show ?thesis using step by auto
      next
        case True
        have "unat (bytes_left s2) \<le> fuel" using weaker_shrinks [OF step(5)] v(3) Some Suc.prems(1) by simp
        from Suc.IH [OF this step(2-4) weaker_ok [OF s1 step(5)] changes_dom [OF step(7) Suc.prems(6)] step(6)]
        obtain ok' ds' s' m' where "decode_loop fuel noinit n R ds1 s2 m1 = Returned (ok', ds', s', m')" "fixed_count_field ds' = None"
          "\<exists>k' < length tbl. dec_iter ds' = iter_at tbl dest k'" "typed_message tbl dest m'" "changes (cells dest sz) m1 m'" by blast
        then show ?thesis using step(1) True changes_trans [OF step(7)] by (auto simp del: iter_at.simps)
      qed
    qed
  qed
qed

lemma typed_decode:
  assumes tbl: "flat_table tbl sz" and dest: "dest \<noteq> 0" "cells dest sz \<subseteq> dom m" "0 \<notin> cells dest sz"
    and local: "cells (count_local R n) 4 \<subseteq> dom m" "cells dest sz \<inter> cells (count_local R n) 4 = {}"
    and s: "in_ok valid pending s"
  obtains ok s' m' where "pb_decode (Suc n) R tbl dest s m = Returned (ok, s', m')" "typed_message tbl dest m'"
    "changes (cells dest sz \<union> cells (count_local R n) 4) m m'"
proof -
  let ?W = "cells dest sz \<union> cells (count_local R n) 4"
  from flat_defaults [where n = n and R = R, OF tbl dest(1,2)] obtain m1 where
    m1: "pb_message_set_to_defaults (Suc n) R tbl dest m = Returned m1" "changes (cells dest sz) m m1"
    "represents tbl dest (memory_env m1) (map zero_value tbl)" .
  let ?zero = "le_bytes 4 (unat (0 :: u32))"
  let ?m2 = "overwrite m1 (count_local R n) ?zero"
  have "cells (count_local R n) (length ?zero) \<subseteq> dom m1" using changes_dom [OF m1(2) local(1)] by simp
  then have m2: "poke m1 (count_local R n) ?zero = Some ?m2" "changes (cells (count_local R n) 4) m1 ?m2"
    using poke_safe [of "count_local R n" ?zero "cells (count_local R n) 4" m1] by simp_all
  have typed2: "typed_message tbl dest ?m2" using local(2) by (intro typed_other [OF represents_typed [OF m1(3)] tbl m2(2)]) blast
  let ?ds = "\<lparr>dec_iter = snd (pb_field_iter_begin tbl dest), extension_range_start = 0, fields_seen = [0, 0], fixed_count_field = None\<rparr>"
  have "0 < length tbl" "dec_iter ?ds = iter_at tbl dest 0" "fixed_count_field ?ds = None" using flat_tableD(2) [OF tbl] by simp_all
  from typed_loop [where R = R and n = n and noinit = "pb_decode_noinit n R", OF tbl dest(1) order_refl this s
      changes_dom [OF m2(2) changes_dom [OF m1(2) dest(2)]] typed2]
  obtain ok ds' s' m3 k' where loop: "decode_loop (unat (bytes_left s)) (pb_decode_noinit n R) n R ?ds s ?m2 = Returned (ok, ds', s', m3)"
    "fixed_count_field ds' = None" "k' < length tbl" "dec_iter ds' = iter_at tbl dest k'" "typed_message tbl dest m3" "changes (cells dest sz) ?m2 m3"
    by blast
  have noinit: "pb_decode_noinit (Suc n) R tbl dest s m1 = Returned (ok, s', m3)"
    using loop(1,2) flat_required [OF tbl loop(3), of dest] m2(1)
    by (simp add: put_def loop(4) del: iter_at.simps le_bytes.simps poke.simps)
  have changed: "changes ?W m m3"
    using changes_trans [OF changes_mono [OF m1(2), of ?W] changes_trans [OF changes_mono [OF m2(2), of ?W] changes_mono [OF loop(6), of ?W]]] by simp
  have "safe_update (cells dest sz) {} (pb_release (Suc n) R tbl dest)"
    using release_safe [where R = R and n = "Suc n", OF flat_static [OF tbl] _ dest(3,1) order_refl] by simp
  moreover have "cells dest sz \<subseteq> dom m3" by (rule changes_dom [OF changed dest(2)])
  ultimately obtain m4 where m4: "pb_release (Suc n) R tbl dest m3 = Returned m4" "changes {} m3 m4" by (rule safe_updateE)
  have "m4 = m3" using m4(2) by (auto simp: changes_def)
  then have "pb_decode (Suc n) R tbl dest s m = Returned (ok, s', m3)"
    using m1(1) noinit m4(1) by (cases ok) (simp_all add: pb_decode_def decode_message_def del: pb_decode_noinit.simps)
  then show thesis using that loop(5) changed by blast
qed

end

end
