(* ===== verification/Pb_Decode_Properties.thy ===== *)
theory Pb_Decode_Properties
  imports Pb_Typed Pb_Properties
begin

text \<open>
  The properties of the decoder of nanopb: that it is safe on any input, what it stores, and that it
  undoes the encoder.
\<close>

section \<open>Safety\<close>

text \<open>
  C8. Decoding is safe on any input. For every descriptor table of static fields (singular, optional,
  repeated and of unions, of every type, with submessages to any depth), every structure with that
  layout and every buffer of bytes: \<open>pb_decode\<close> returns, without reading outside the buffer or
  unmapped memory; only the structure and the local counts of the activations change; and the stream
  never has more bytes left than before.
\<close>

theorem static_message_safe:
  assumes "static_table d (dec_tables R) D tbl sz" and "d < n" and "dest \<noteq> 0" and "0 \<notin> cells dest sz"
    and "cells dest sz \<union> (\<Union>k < n. cells (count_local R k) 4) \<union> D \<subseteq> dom m" and "unat len \<le> length buf"
  shows "\<exists>ok s' m'. pb_decode n R tbl dest (pb_istream_from_buffer buf len) m = Returned (ok, s', m') \<and> dom m' = dom m \<and>
    (\<forall>x. x \<notin> cells dest sz \<and> (\<forall>k < n. x \<notin> cells (count_local R k) 4) \<longrightarrow> m' x = m x) \<and>
    is_buffer (in_source s') \<and> unat (bytes_left s') \<le> unat len \<and> unat (bytes_left s') \<le> length (buffer_bytes (in_source s'))"
proof -
  let ?W = "cells dest sz \<union> (\<Union>k < n. cells (count_local R k) 4)"
  have "safe_decoder is_buffer buffer_bytes False (?W \<union> D) ?W (pb_decode n R tbl dest)"
    by (rule buffer_source.decode_safe [OF assms(1-4) refl]) auto
  moreover have ok: "in_ok is_buffer buffer_bytes (pb_istream_from_buffer buf len)" by (rule conjunct1 [OF from_buffer_ready [OF assms(6)]])
  ultimately obtain b s' m' where r: "pb_decode n R tbl dest (pb_istream_from_buffer buf len) m = Returned (b, s', m')" "changes ?W m m'"
    "weaker is_buffer buffer_bytes (pb_istream_from_buffer buf len) s'"
    using assms(5) by (rule buffer_source.safe_decoderE) blast
  have "in_ok is_buffer buffer_bytes s'" by (rule buffer_source.weaker_ok [OF ok r(3)])
  moreover have "unat (bytes_left s') \<le> unat len" using r(3) by (simp add: weaker_def pb_istream_from_buffer_def)
  ultimately show ?thesis using r(1,2) by (auto simp: changes_def in_ok_def)
qed

text \<open>A repeated number with its count, and a submessage with a bool; and its bytes, truncated.\<close>

definition demo_inner :: "pb_field_t list" where
  "demo_inner = [\<lparr>pb_tag = 1, pb_type = PB_LTYPE_BOOL OR PB_HTYPE_OPTIONAL, data_offset = 0, size_offset = 0, data_size = 1,
     array_size = 0, pb_ptr = 0\<rparr>]"

definition demo_outer :: "pb_field_t list" where
  "demo_outer =
    [\<lparr>pb_tag = 1, pb_type = PB_LTYPE_UVARINT OR PB_HTYPE_REPEATED, data_offset = 4, size_offset = - 4, data_size = 4,
       array_size = 3, pb_ptr = 0\<rparr>,
     \<lparr>pb_tag = 2, pb_type = PB_LTYPE_SUBMESSAGE OR PB_HTYPE_OPTIONAL, data_offset = 0, size_offset = 0, data_size = 1,
       array_size = 0, pb_ptr = 0x100\<rparr>]"

definition demo_receiver :: "unit pb_receiver" where
  "demo_receiver = \<lparr>dec_tables = (\<lambda>p. if p = 0x100 then demo_inner else []), field_decoder = (\<lambda>_ _ _ _ _. Faulted),
     extension_decoder = (\<lambda>_ _ _ _ _ _. Faulted), pb_realloc = (\<lambda>_ _ _. None), pb_free = (\<lambda>_ _. None),
     count_local = (\<lambda>k. 0x9000), callback_rounds = 0\<rparr>"

lemma demo_offsets:
  "map (member_offset demo_outer) [0, 1] = [4, 16]" "map (count_offset demo_outer) [0, 1] = [0, 16]"
  "map (member_offset demo_inner) [0] = [0]" "map (count_offset demo_inner) [0] = [0]"
  by code_simp+

lemma demo_types:
  "map (\<lambda>f. (PB_ATYPE (pb_type f), PB_HTYPE (pb_type f), PB_LTYPE (pb_type f))) demo_outer =
    [(PB_ATYPE_STATIC, PB_HTYPE_REPEATED, PB_LTYPE_UVARINT), (PB_ATYPE_STATIC, PB_HTYPE_OPTIONAL, PB_LTYPE_SUBMESSAGE)]"
  "map (\<lambda>f. (PB_ATYPE (pb_type f), PB_HTYPE (pb_type f), PB_LTYPE (pb_type f))) demo_inner =
    [(PB_ATYPE_STATIC, PB_HTYPE_OPTIONAL, PB_LTYPE_BOOL)]"
  by code_simp+

lemma demo_outer_static: "static_table 2 (dec_tables demo_receiver) {} demo_outer 17"
proof -
  have inner: "static_table 1 (dec_tables demo_receiver) {} demo_inner 1"
    using demo_offsets(3,4) demo_types(2)
    by (simp add: demo_inner_def table_ok_def static_field_def type_fits_def entry_count_def Let_def)
  have table: "dec_tables demo_receiver 0x100 = demo_inner" by (simp add: demo_receiver_def)
  let ?sub = "static_table 1 (dec_tables demo_receiver) {}"
  have two: "map (\<lambda>i. (data_size (demo_outer ! i), array_size (demo_outer ! i), pb_ptr (demo_outer ! i))) [0, 1] = [(4, 3, 0), (1, 0, 0x100)]"
    "length demo_outer = 2" "table_ok demo_outer" by code_simp+
  have types: "PB_ATYPE (pb_type (demo_outer ! 0)) = PB_ATYPE_STATIC" "PB_HTYPE (pb_type (demo_outer ! 0)) = PB_HTYPE_REPEATED"
    "PB_LTYPE (pb_type (demo_outer ! 0)) = PB_LTYPE_UVARINT" "PB_ATYPE (pb_type (demo_outer ! 1)) = PB_ATYPE_STATIC"
    "PB_HTYPE (pb_type (demo_outer ! 1)) = PB_HTYPE_OPTIONAL" "PB_LTYPE (pb_type (demo_outer ! 1)) = PB_LTYPE_SUBMESSAGE"
    by code_simp+
  have "static_field ?sub (dec_tables demo_receiver) {} demo_outer 17 0"
    using demo_offsets(1,2) two(1) types by (simp add: static_field_def type_fits_def entry_count_def Let_def)
  moreover have "static_field ?sub (dec_tables demo_receiver) {} demo_outer 17 1"
    using demo_offsets(1,2) two(1) types inner by (simp add: static_field_def type_fits_def entry_count_def Let_def table)
  moreover have "[0..<length demo_outer] = [0, 1]" unfolding two(2) by code_simp
  ultimately have "list_all (static_field ?sub (dec_tables demo_receiver) {} demo_outer 17) [0..<length demo_outer]"
    by (simp only: list.pred_inject simp_thms)
  moreover have "demo_outer \<noteq> []" using two(2) by auto
  moreover have "static_table 2 = static_table (Suc 1)" by (simp only: Suc_1)
  moreover have "(17 :: nat) < 2 ^ 32" by simp
  ultimately show ?thesis using two(3) by (simp only: static_table.simps(2) simp_thms)
qed

lemma static_message_safe_witness:
  "\<exists>ok s' m'. pb_decode 3 demo_receiver demo_outer 0x1000 (pb_istream_from_buffer [0x0A, 2, 1, 2, 0x12, 2, 0x08] 7) (\<lambda>_. Some 0xAA) =
      Returned (ok, s', m') \<and> m' 0x2000 = Some 0xAA"
proof -
  have away: "0x2000 \<notin> cells 0x1000 17" "0x2000 \<notin> cells (count_local demo_receiver k) 4" "0 \<notin> cells 0x1000 17" for k
    by (simp_all add: cells_def demo_receiver_def)
  have "cells 0x1000 17 \<union> (\<Union>k < 3. cells (count_local demo_receiver k) 4) \<union> {} \<subseteq> dom (\<lambda>_. Some 0xAA :: u8 option)" by auto
  from static_message_safe [OF demo_outer_static _ _ away(3) this, of 7 "[0x0A, 2, 1, 2, 0x12, 2, 0x08]"] away(1,2)
  show ?thesis by auto
qed

section \<open>What is stored\<close>

text \<open>
  C10. The decoder computes the abstract message. For every table of singular proto3 fields (bool, the
  integers of any width, fixed numbers, byte arrays and strings in place) and every sequence of fields
  in the wire format, in any order, repeated, or with tags the table does not have: if each value fits
  its field, \<open>pb_decode\<close> returns true, has read exactly these bytes, and the structure holds, for each
  field, the last of its values, or zero where there was none.
\<close>

theorem flat_message_decoding:
  assumes "flat_table tbl sz" and "list_all (entry_fits tbl) es" and "length (wire es) < 2 ^ 64"
    and "dest \<noteq> 0" and "cells dest sz \<union> cells (count_local R n) 4 \<subseteq> dom m" and "cells dest sz \<inter> cells (count_local R n) 4 = {}"
  shows "\<exists>s' m'. pb_decode (Suc n) R tbl dest (pb_istream_from_buffer (wire es @ rest) (of_nat (length (wire es)))) m = Returned (True, s', m') \<and>
    bytes_left s' = 0 \<and> buffer_bytes (in_source s') = rest \<and> represents tbl dest (memory_env m') (received tbl es)"
proof -
  let ?s = "pb_istream_from_buffer (wire es @ rest) (of_nat (length (wire es)))"
  have n: "unat (of_nat (length (wire es)) :: u64) = length (wire es)" using assms(3) by (simp add: unat_of_nat)
  have ready: "in_ok is_buffer buffer_bytes ?s" "front buffer_bytes ?s = wire es"
    using from_buffer_ready [of "of_nat (length (wire es))" "wire es @ rest"] n by auto
  obtain s' m' where r: "pb_decode (Suc n) R tbl dest ?s m = Returned (True, s', m')" "moved is_buffer buffer_bytes (length (wire es)) ?s s'"
    "represents tbl dest (memory_env m') (received tbl es)"
    using buffer_source.flat_decode [where R = R and n = n, OF assms(1,4) _ _ assms(6) ready assms(2)] assms(5) by blast
  have "unat (bytes_left s') = 0" "buffer_bytes (in_source s') = rest"
    using r(2) n by (simp_all add: moved_def pb_istream_from_buffer_def buffer_bytes_def)
  then show ?thesis using r(1,3) by (auto simp: unat_eq_0)
qed

text \<open>A bool, a number of 16 bits and a string of at most 7 bytes.\<close>

definition demo_flat :: "pb_field_t list" where
  "demo_flat =
    [\<lparr>pb_tag = 1, pb_type = PB_LTYPE_BOOL OR PB_HTYPE_OPTIONAL, data_offset = 0, size_offset = 0, data_size = 1, array_size = 0, pb_ptr = 0\<rparr>,
     \<lparr>pb_tag = 2, pb_type = PB_LTYPE_SVARINT OR PB_HTYPE_OPTIONAL, data_offset = 1, size_offset = 0, data_size = 2, array_size = 0, pb_ptr = 0\<rparr>,
     \<lparr>pb_tag = 5, pb_type = PB_LTYPE_STRING OR PB_HTYPE_OPTIONAL, data_offset = 0, size_offset = 0, data_size = 8, array_size = 0, pb_ptr = 0\<rparr>]"

lemma demo_flat_layout:
  "length demo_flat = 3" "table_ok demo_flat" "distinct (map pb_tag demo_flat)" "list_all flat_field demo_flat"
  "map (\<lambda>i. unat (member_offset demo_flat i)) [0, 1, 2] = [0, 2, 4]" "map (\<lambda>i. unat (data_size (demo_flat ! i))) [0, 1, 2] = [1, 2, 8]"
  by code_simp+

lemma demo_flat_ok: "flat_table demo_flat 12"
proof -
  have "[0..<3] = [0, 1, 2 :: nat]" "[Suc 0..<3] = [1, 2 :: nat]" "[Suc 1..<3] = [2 :: nat]" "[Suc 2..<3] = ([] :: nat list)" by code_simp+
  then show ?thesis using demo_flat_layout by (auto simp: flat_table_def)
qed

lemma demo_apart: "cells 0x1000 12 \<inter> cells (count_local demo_receiver k) 4 = {}"
  using cells_apart [of 0 12 "0x8000" 4 "0x1000"] by (simp add: demo_receiver_def)

text \<open>The bool, an unknown field, the string, and the bool again.\<close>

lemma flat_message_decoding_witness:
  "\<exists>s' m'. pb_decode 1 demo_receiver demo_flat 0x1000 (pb_istream_from_buffer [0x08, 1, 0x38, 7, 0x2A, 2, 0x68, 0x69, 0x08, 0, 0xFF] 10) (\<lambda>_. Some 0xAA) =
      Returned (True, s', m') \<and> buffer_bytes (in_source s') = [0xFF] \<and>
    represents demo_flat 0x1000 (memory_env m') [Varint 0, Varint 0, Bytes [0x68, 0x69]]"
proof -
  let ?es = "[(1, Varint 1), (7, Varint 7), (5, Bytes [0x68, 0x69]), (1, Varint 0)]"
  have es: "wire ?es = [0x08, 1, 0x38, 7, 0x2A, 2, 0x68, 0x69, 0x08, 0]" "list_all (entry_fits demo_flat) ?es"
    "received demo_flat ?es = [Varint 0, Varint 0, Bytes [0x68, 0x69]]"
  proof -
    show "wire ?es = [0x08, 1, 0x38, 7, 0x2A, 2, 0x68, 0x69, 0x08, 0]" "received demo_flat ?es = [Varint 0, Varint 0, Bytes [0x68, 0x69]]"
      by code_simp+
    have "map (field_of demo_flat) [1, 7, 5] = [Some 0, None, Some 2]" "member_bytes (demo_flat ! 0) (Varint 1) = Some [1]"
      "member_bytes (demo_flat ! 0) (Varint 0) = Some [0]" "member_bytes (demo_flat ! 2) (Bytes [0x68, 0x69]) = Some [0x68, 0x69, 0]"
      "map (length \<circ> wire_body \<circ> snd) ?es = [1, 1, 3, 1]" by code_simp+
    then show "list_all (entry_fits demo_flat) ?es" by (simp add: entry_fits_def)
  qed
  have "cells 0x1000 12 \<union> cells (count_local demo_receiver 0) 4 \<subseteq> dom (\<lambda>_. Some 0xAA :: u8 option)" by auto
  from flat_message_decoding [OF demo_flat_ok es(2) _ _ this demo_apart, of "[0xFF]"] show ?thesis by (simp add: es(1,3)) blast
qed

text \<open>
  C9. Encoding and decoding a message is the identity. For every table of singular proto3 fields and
  every structure that represents a list of values: \<open>pb_encode\<close> into a buffer with room returns true,
  and \<open>pb_decode\<close> of the bytes it put there, into a structure whatever it held before, returns true
  with a structure that represents the same values.
\<close>

theorem flat_message_roundtrip:
  assumes "flat_table tbl sz" and "list_all (\<lambda>f. unat (pb_tag f) < 2 ^ 29) tbl" and "\<forall>p. table_ok (pb_tables P p)"
    and "represents tbl src (pb_mem P) vs" and "src \<noteq> 0" and "0 \<notin> cells src sz"
    and "length (wire (flat_entries tbl vs)) < 2 ^ 32" and "length (wire (flat_entries tbl vs)) \<le> unat bufsize"
    and "dest \<noteq> 0" and "cells dest sz \<union> cells (count_local R n) 4 \<subseteq> dom m" and "cells dest sz \<inter> cells (count_local R n) 4 = {}"
  shows "\<exists>bs s s' m'. pb_encode (2 + k) P tbl src (pb_ostream_from_buffer buf bufsize out) = Returned (True, s) \<and>
    snd (out_state s) = store out buf bs \<and> bytes_written s = of_nat (length bs) \<and>
    pb_decode (Suc n) R tbl dest (pb_istream_from_buffer bs (bytes_written s)) m = Returned (True, s', m') \<and>
    represents tbl dest (memory_env m') vs"
proof -
  let ?bs = "wire (flat_entries tbl vs)"
  have len: "length ?bs < 2 ^ 64" using assms(7) by simp
  have contents: "contents (2 + k) P tbl src = Some (flat_entries tbl vs)" using flat_contents [OF assms(1,5,6,4)] by simp
  have "writes to_buffer (pb_encode (2 + k) P tbl src) ?bs"
    by (rule buffer.encode_writes [OF contents flat_tableD(1) [OF assms(1)] _ len]) (use assms(3) in blast)
  from writes_room [OF this from_buffer_ok, of buf bufsize out] obtain s where
    s: "pb_encode (2 + k) P tbl src (pb_ostream_from_buffer buf bufsize out) = Returned (True, s)"
    "snd (out_state s) = store out buf ?bs" "bytes_written s = of_nat (length ?bs)"
    using len assms(8) by (simp add: has_room_def advanced_def to_buffer_def buf_write_def pb_ostream_from_buffer_def)
  have "length vs = length tbl" using assms(4) by (simp add: represents_def)
  then have same: "received tbl (flat_entries tbl vs) = vs" by (rule received_flat_entries [OF assms(1)])
  have n: "unat (of_nat (length ?bs) :: u64) = length ?bs" using len by (simp add: unat_of_nat)
  have ready: "in_ok is_buffer buffer_bytes (pb_istream_from_buffer ?bs (of_nat (length ?bs)))"
    "front buffer_bytes (pb_istream_from_buffer ?bs (of_nat (length ?bs))) = ?bs"
    using from_buffer_ready [of "of_nat (length ?bs)" ?bs] n by auto
  have mapped: "cells dest sz \<subseteq> dom m" "cells (count_local R n) 4 \<subseteq> dom m" using assms(10) by auto
  obtain s' m' where "pb_decode (Suc n) R tbl dest (pb_istream_from_buffer ?bs (of_nat (length ?bs))) m = Returned (True, s', m')"
    "represents tbl dest (memory_env m') vs"
    by (rule buffer_source.flat_decode [where R = R and n = n, OF assms(1,9) mapped assms(11) ready flat_entries_fit [OF assms(1,4,2,7)],
      unfolded same])
  then show ?thesis using s by (intro exI [of _ ?bs] exI [of _ s] exI [of _ s'] exI [of _ m']) simp
qed

lemma flat_message_roundtrip_witness:
  "\<exists>bs s s' m'. pb_encode 2 (demo_program\<lparr>pb_mem := env_of [(0x1000, [1, 0, 1, 0, 0x68, 0x69, 0])]\<rparr>) demo_flat 0x1000
      (pb_ostream_from_buffer 0x8000 64 (\<lambda>_. None)) = Returned (True, s) \<and>
    pb_decode 1 demo_receiver demo_flat 0x1000 (pb_istream_from_buffer bs (bytes_written s)) (\<lambda>_. Some 0xAA) = Returned (True, s', m') \<and>
    represents demo_flat 0x1000 (memory_env m') [Varint 1, Varint 2, Bytes [0x68, 0x69]]"
proof -
  let ?vs = "[Varint 1, Varint 2, Bytes [0x68, 0x69]]" and ?env = "env_of [(0x1000, [1, 0, 1, 0, 0x68, 0x69, 0])]"
  let ?P = "demo_program\<lparr>pb_mem := ?env\<rparr>"
  have all: "load ?env 0x1000 (1 + 6) = Some ([1] @ [0, 1, 0, 0x68, 0x69, 0])" by (subst load_mapped_here) simp_all
  have rest: "load ?env 0x1002 (2 + 3) = Some ([1, 0] @ [0x68, 0x69, 0])"
    using load_prefix(2) [where n = 1 and k = 5 and bs = "[0]" and cs = "[1, 0, 0x68, 0x69, 0]" and a = "0x1001" and env = ?env]
      load_prefix(2) [OF all] by (simp del: load.simps)
  have cells: "load ?env 0x1000 1 = Some [1]" "load ?env 0x1002 2 = Some [1, 0]" "load ?env 0x1004 3 = Some [0x68, 0x69, 0]"
    using load_prefix(1) [OF all] load_prefix [OF rest] by (simp_all del: load.simps)
  have layout: "length demo_flat = 3" "map (member_offset demo_flat) [0, 1, 2] = [0, 2, 4]"
    by code_simp+
  have bytes: "member_bytes (demo_flat ! 0) (Varint 1) = Some [1]" "member_bytes (demo_flat ! 1) (Varint 2) = Some [1, 0]"
    "member_bytes (demo_flat ! 2) (Bytes [0x68, 0x69]) = Some [0x68, 0x69, 0]" by code_simp+
  have "pb_mem ?P = ?env" by simp
  moreover have "represents demo_flat 0x1000 ?env ?vs"
  proof (rule representsI)
    have off: "member_offset demo_flat 0 = 0" "member_offset demo_flat 1 = 2" "member_offset demo_flat 2 = 4" using layout(2) by simp_all
    fix i assume "i < length demo_flat"
    then consider "i = 0" | "i = 1" | "i = 2" unfolding demo_flat_layout(1) by linarith
    then show "\<exists>cs. member_bytes (demo_flat ! i) (?vs ! i) = Some cs \<and> load ?env (0x1000 + member_offset demo_flat i) (length cs) = Some cs"
    proof cases
      case 1
      show ?thesis unfolding 1 off by (rule exI [of _ "[1]"]) (use bytes(1) cells(1) in \<open>simp del: load.simps\<close>)
    next
      case 2
      show ?thesis unfolding 2 off by (rule exI [of _ "[1, 0]"]) (use bytes(2) cells(2) in \<open>simp add: numeral_2_eq_2 del: load.simps\<close>)
    next
      case 3
      show ?thesis unfolding 3 off by (rule exI [of _ "[0x68, 0x69, 0]"]) (use bytes(3) cells(3) in \<open>simp add: numeral_3_eq_3 del: load.simps\<close>)
    qed
  qed (simp add: demo_flat_layout(1))
  ultimately have represents: "represents demo_flat 0x1000 (pb_mem ?P) ?vs" by simp
  have tags: "list_all (\<lambda>f. unat (pb_tag f) < 2 ^ 29) demo_flat" by (simp add: demo_flat_def)
  have tables: "\<forall>p. table_ok (pb_tables ?P p)" using demo_tables(2) by simp
  have on_wire: "wire (flat_entries demo_flat ?vs) = [0x08, 1, 0x10, 2, 0x2A, 2, 0x68, 0x69]" by code_simp
  have zero: "0 \<notin> cells 0x1000 12" by (simp add: cells_def)
  have mapped: "cells 0x1000 12 \<union> cells (count_local demo_receiver 0) 4 \<subseteq> dom (\<lambda>_. Some 0xAA :: u8 option)" by auto
  from flat_message_roundtrip [where k = 0 and bufsize = 64 and buf = "0x8000" and out = "\<lambda>_. None",
      OF demo_flat_ok tags tables represents _ zero _ _ _ mapped demo_apart] show ?thesis
    by (simp add: on_wire del: pb_encode.simps pb_decode_noinit.simps) blast
qed

section \<open>Types\<close>

text \<open>
  C11. Decoding leaves a well-typed structure. For every table of singular proto3 fields and every
  buffer of bytes, well-formed or not, \<open>pb_decode\<close> returns, and whether it returns true or false the
  structure represents a list of values of the types of the fields: a bool is 0 or 1, the size of a
  byte array is within the array, and a string ends within its array.
\<close>

theorem decoded_structure_typed:
  assumes "flat_table tbl sz" and "dest \<noteq> 0" and "0 \<notin> cells dest sz" and "unat len \<le> length buf"
    and "cells dest sz \<union> cells (count_local R n) 4 \<subseteq> dom m" and "cells dest sz \<inter> cells (count_local R n) 4 = {}"
  shows "\<exists>ok s' m' vs. pb_decode (Suc n) R tbl dest (pb_istream_from_buffer buf len) m = Returned (ok, s', m') \<and>
    represents tbl dest (memory_env m') vs"
proof -
  have mapped: "cells dest sz \<subseteq> dom m" "cells (count_local R n) 4 \<subseteq> dom m" using assms(5) by auto
  obtain ok s' m' where "pb_decode (Suc n) R tbl dest (pb_istream_from_buffer buf len) m = Returned (ok, s', m')"
    "typed_message tbl dest m'"
    by (rule buffer_source.typed_decode [where R = R and n = n, OF assms(1,2) mapped(1) assms(3) mapped(2) assms(6)
      conjunct1 [OF from_buffer_ready [OF assms(4)]]])
  then show ?thesis using typed_represents by blast
qed

text \<open>A string of 9 bytes does not fit, and the input ends within it.\<close>

lemma decoded_structure_typed_witness:
  "\<exists>ok s' m' vs. pb_decode 1 demo_receiver demo_flat 0x1000 (pb_istream_from_buffer [0x08, 2, 0x2A, 5, 0x68] 5) (\<lambda>_. Some 0xAA) =
      Returned (ok, s', m') \<and> represents demo_flat 0x1000 (memory_env m') vs"
proof -
  have zero: "0 \<notin> cells 0x1000 12" by (simp add: cells_def)
  have mapped: "cells 0x1000 12 \<union> cells (count_local demo_receiver 0) 4 \<subseteq> dom (\<lambda>_. Some 0xAA :: u8 option)" by auto
  from decoded_structure_typed [OF demo_flat_ok _ zero _ mapped demo_apart, of 5 "[0x08, 2, 0x2A, 5, 0x68]"] show ?thesis by simp
qed

section \<open>Numbers of 32 bits\<close>

lemma front_head:
  assumes "front pending s = b # bs"
  shows "bytes_left s \<noteq> 0" "hd (pending (in_source s)) = b"
  using assms by (auto simp: front_def) (cases "pending (in_source s)"; cases "unat (bytes_left s)"; simp)

text \<open>The loop on \<open>j\<close> continuation bytes without bits and a last 1.\<close>

lemma varint32_zeros:
  "in_ok is_buffer buffer_bytes s \<Longrightarrow> front buffer_bytes s = replicate j 0x80 @ [1] \<Longrightarrow>
    \<exists>s'. varint32_loop p 0 s = Some (if 32 \<le> p + of_nat (7 * j) then None
      else Some (push_bit (unat (p + of_nat (7 * j))) 1, p + of_nat (7 * j) + 7, 1), s')"
proof (induction j arbitrary: p s)
  case 0
  have b: "bytes_left s \<noteq> 0" "hd (buffer_bytes (in_source s)) = 1" using front_head [where pending = buffer_bytes and s = s and b = 1 and bs = "[]"] 0(2) by simp_all
  obtain s' where "pb_readbyte s = Some (Some 1, s')" using buffer_source.readbyte_reads [OF 0(1) b(1)] b(2) by auto
  then show ?case by (subst varint32_loop.simps) (auto simp: Let_def)
next
  case (Suc j)
  have b: "bytes_left s \<noteq> 0" "hd (buffer_bytes (in_source s)) = 0x80"
    using front_head [where pending = buffer_bytes and s = s and b = "0x80" and bs = "replicate j 0x80 @ [1]"] Suc.prems(2) by simp_all
  obtain s1 where s1: "pb_readbyte s = Some (Some 0x80, s1)" "moved is_buffer buffer_bytes 1 s s1"
    using buffer_source.readbyte_reads [OF Suc.prems(1) b(1)] b(2) by auto
  have "in_ok is_buffer buffer_bytes s1" "front buffer_bytes s1 = replicate j 0x80 @ [1]"
    using buffer_source.moved_ok [OF Suc.prems(1) s1(2)] buffer_source.moved_front [OF s1(2)] Suc.prems(2) by simp_all
  note IH = Suc.IH [OF this, of "p + 7"]
  have byte: "(0x80 :: u8) AND 0x7F = 0" "(0x80 :: u8) AND 0x80 \<noteq> 0" by simp_all
  have step: "varint32_loop p 0 s = varint32_loop (p + 7) 0 s1"
    by (subst varint32_loop.simps, simp only: s1(1) option.case prod.case byte Let_def) simp
  have "p + 7 + of_nat (7 * j) = p + of_nat (7 * Suc j)" by simp
  then show ?case using IH unfolding step by (simp only:)
qed

lemma varint32_continued:
  assumes "pb_readbyte s = Some (Some 0x80, s1)" and "varint32_loop 7 0 s1 = Some (if \<not> c then None else Some (v, p, 1), s2)"
  shows "\<exists>s'. pb_decode_varint32 s = Some (if c then Some v else None, s')"
  using assms by (auto simp: pb_decode_varint32_def pb_decode_varint32_eof_def)

text \<open>
  C39. Where the bits of a 32-bit number go is kept in 8 bits, so the check for overflow can be passed
  by a longer number: after \<open>k\<close> continuation bytes 80 without bits of their own, a last byte 01 stands
  for the bit 7k modulo 256, and it is rejected only if that is not below 32. With 5 to 36 such bytes the
  number is rejected, and with 37 it is 8.
\<close>

theorem varint32_position_wraps:
  assumes "0 < k" and "k + 1 < 2 ^ 64"
  shows "\<exists>s :: 's pb_istream. pb_decode_varint32 (pb_istream_from_buffer (replicate k 0x80 @ [1]) (of_nat (k + 1))) =
    Some (if 7 * k mod 256 < 32 then Some (push_bit (7 * k mod 256) 1) else None, s)"
proof -
  let ?s = "pb_istream_from_buffer (replicate k 0x80 @ [1]) (of_nat (k + 1)) :: 's pb_istream"
  have n: "unat (of_nat (k + 1) :: u64) = k + 1" using assms(2) by (subst unat_of_nat) simp
  obtain j where k: "k = Suc j" using assms(1) by (cases k) auto
  have ok: "in_ok is_buffer buffer_bytes ?s" by (rule conjunct1 [OF from_buffer_ready]) (simp only: n, simp)
  have bytes: "front buffer_bytes ?s = 0x80 # replicate j 0x80 @ [1]"
    by (subst conjunct2 [OF from_buffer_ready]) (simp_all only: n, simp_all add: k)
  obtain s1 where s1: "pb_readbyte ?s = Some (Some 0x80, s1)" "moved is_buffer buffer_bytes 1 ?s s1"
    using buffer_source.readbyte_reads [OF ok front_head(1) [OF bytes]] unfolding front_head(2) [OF bytes] by blast
  have "in_ok is_buffer buffer_bytes s1" by (rule buffer_source.moved_ok [OF ok s1(2)])
  moreover have "front buffer_bytes s1 = replicate j 0x80 @ [1]" unfolding buffer_source.moved_front [OF s1(2)] bytes by simp
  ultimately have "\<exists>s'. varint32_loop 7 0 s1 = Some (if 32 \<le> 7 + (of_nat (7 * j) :: u8) then None
      else Some (push_bit (unat (7 + of_nat (7 * j) :: u8)) 1, 7 + of_nat (7 * j) + 7, 1), s')" by (rule varint32_zeros)
  then obtain s2 where s2: "varint32_loop 7 0 s1 = Some (if 32 \<le> 7 + (of_nat (7 * j) :: u8) then None
      else Some (push_bit (unat (7 + of_nat (7 * j) :: u8)) 1, 7 + of_nat (7 * j) + 7, 1), s2)" by blast
  have p: "7 + of_nat (7 * j) = (of_nat (7 * k) :: u8)" by (simp add: k)
  have q: "unat (of_nat (7 * k) :: u8) = 7 * k mod 256" by (simp only: unat_of_nat) simp
  have wrap: "32 \<le> (of_nat (7 * k) :: u8) \<longleftrightarrow> \<not> 7 * k mod 256 < 32"
    by (simp only: word_le_nat_alt q) (simp add: not_less)
  show ?thesis by (rule varint32_continued [OF s1(1) s2 [unfolded p wrap q]])
qed

lemma varint32_position_wraps_witness:
  "\<exists>s. pb_decode_varint32 (pb_istream_from_buffer (replicate 37 0x80 @ [1]) 38) = Some (Some 8, s)"
  using varint32_position_wraps [of 37] by simp

end
