(* ===== verification/Bssl_Constant_Time.thy ===== *)
theory Bssl_Constant_Time
  imports Bssl_Prelude
begin

text \<open>
  The constant-time selection of BoringSSL, src/ios/Pods/BoringSSL-GRPC/src/crypto/internal.h: masks
  of 64 bits, where all ones is true and zero is false, computed without branches. The value barriers
  return their argument.
\<close>

section \<open>The operations\<close>

type_synonym crypto_word_t = u64

definition constant_time_msb_w :: "crypto_word_t \<Rightarrow> crypto_word_t" where
  "constant_time_msb_w a = 0 - drop_bit 63 a"

definition constant_time_lt_w :: "crypto_word_t \<Rightarrow> crypto_word_t \<Rightarrow> crypto_word_t" where
  "constant_time_lt_w a b = constant_time_msb_w (a XOR ((a XOR b) OR ((a - b) XOR a)))"

definition constant_time_lt_8 :: "crypto_word_t \<Rightarrow> crypto_word_t \<Rightarrow> u8" where
  "constant_time_lt_8 a b = ucast (constant_time_lt_w a b)"

definition constant_time_ge_w :: "crypto_word_t \<Rightarrow> crypto_word_t \<Rightarrow> crypto_word_t" where
  "constant_time_ge_w a b = NOT (constant_time_lt_w a b)"

definition constant_time_ge_8 :: "crypto_word_t \<Rightarrow> crypto_word_t \<Rightarrow> u8" where
  "constant_time_ge_8 a b = ucast (constant_time_ge_w a b)"

definition constant_time_is_zero_w :: "crypto_word_t \<Rightarrow> crypto_word_t" where
  "constant_time_is_zero_w a = constant_time_msb_w (NOT a AND (a - 1))"

definition constant_time_is_zero_8 :: "crypto_word_t \<Rightarrow> u8" where
  "constant_time_is_zero_8 a = ucast (constant_time_is_zero_w a)"

definition constant_time_eq_w :: "crypto_word_t \<Rightarrow> crypto_word_t \<Rightarrow> crypto_word_t" where
  "constant_time_eq_w a b = constant_time_is_zero_w (a XOR b)"

definition constant_time_eq_8 :: "crypto_word_t \<Rightarrow> crypto_word_t \<Rightarrow> u8" where
  "constant_time_eq_8 a b = ucast (constant_time_eq_w a b)"

text \<open>\<open>int\<close> arguments are converted by sign extension.\<close>

definition constant_time_eq_int :: "32 word \<Rightarrow> 32 word \<Rightarrow> crypto_word_t" where
  "constant_time_eq_int a b = constant_time_eq_w (scast a) (scast b)"

definition constant_time_eq_int_8 :: "32 word \<Rightarrow> 32 word \<Rightarrow> u8" where
  "constant_time_eq_int_8 a b = constant_time_eq_8 (scast a) (scast b)"

definition constant_time_select_w :: "crypto_word_t \<Rightarrow> crypto_word_t \<Rightarrow> crypto_word_t \<Rightarrow> crypto_word_t" where
  "constant_time_select_w m a b = (m AND a) OR (NOT m AND b)"

definition constant_time_select_8 :: "crypto_word_t \<Rightarrow> u8 \<Rightarrow> u8 \<Rightarrow> u8" where
  "constant_time_select_8 m a b = (let m = ucast m in (m AND a) OR (NOT m AND b))"

definition constant_time_select_int :: "crypto_word_t \<Rightarrow> 32 word \<Rightarrow> 32 word \<Rightarrow> 32 word" where
  "constant_time_select_int m a b = ucast (constant_time_select_w m (scast a) (scast b))"

text \<open>Copying and adding into a destination of the same length under a mask.\<close>

definition constant_time_conditional_memcpy :: "u8 list \<Rightarrow> u8 list \<Rightarrow> crypto_word_t \<Rightarrow> u8 list" where
  "constant_time_conditional_memcpy dst src m = map2 (constant_time_select_8 m) src dst"

definition constant_time_conditional_memxor :: "u8 list \<Rightarrow> u8 list \<Rightarrow> crypto_word_t \<Rightarrow> u8 list" where
  "constant_time_conditional_memxor dst src m = map2 (\<lambda>s d. d XOR (ucast m AND s)) src dst"

section \<open>What they compute\<close>

abbreviation all_ones :: "bool \<Rightarrow> 'a::len word" where
  "all_ones c \<equiv> (if c then - 1 else 0)"

lemma top_bit: "bit (a :: u64) 63 \<longleftrightarrow> 2 ^ 63 \<le> unat a"
proof -
  have "unat a < 2 * 2 ^ 63" using unsigned_less [of a] by simp
  then have "unat a div 2 ^ 63 < 2" by (simp add: div_less_iff_less_mult)
  moreover have "bit a 63 \<longleftrightarrow> odd (unat a div 2 ^ 63)"
    using bit_unsigned_iff [of a 63, where 'a = nat] by (simp add: bit_iff_odd)
  ultimately show ?thesis by (cases "2 ^ 63 \<le> unat a") (auto simp: less_2_cases_iff div_eq_0_iff)
qed

lemma msb_mask: "constant_time_msb_w a = all_ones (bit a 63)"
proof -
  have "drop_bit 63 a = of_bool (bit a 63)"
    proof (rule bit_word_eqI)
    fix n show "bit (drop_bit 63 a) n \<longleftrightarrow> bit (of_bool (bit a 63) :: u64) n"
      using bit_imp_le_length [of a "63 + n"] by (cases n) (auto simp: bit_drop_bit_eq bit_of_bool_iff)
  qed
  then show ?thesis by (simp add: constant_time_msb_w_def)
qed

lemma minus_top_bit: "bit (a - b :: u64) 63 \<longleftrightarrow> a < b" if "bit a 63 \<longleftrightarrow> bit b 63"
proof -
  have bounds: "unat a < 2 ^ 64" "unat b < 2 ^ 64" using unsigned_less [of a] unsigned_less [of b] by simp_all
  have "unat (a - b) = (if b \<le> a then unat a - unat b else 2 ^ 64 + unat a - unat b)"
    using bounds by (auto simp: unat_sub_if' word_le_nat_alt)
  then show ?thesis using that bounds unfolding top_bit by (auto simp: word_le_nat_alt word_less_nat_alt)
qed

lemma less_top_bit: "bit a 63 \<noteq> bit b 63 \<Longrightarrow> a < b \<longleftrightarrow> bit b 63" for a b :: u64
  unfolding top_bit by (auto simp: word_less_nat_alt)

lemma lt_mask: "constant_time_lt_w a b = all_ones (a < b)"
proof -
  have "bit (a XOR ((a XOR b) OR ((a - b) XOR a))) 63 \<longleftrightarrow> a < b"
    using minus_top_bit [of a b] less_top_bit [of a b] by (auto simp: bit_simps)
  then show ?thesis by (simp add: constant_time_lt_w_def msb_mask)
qed

lemma is_zero_mask: "constant_time_is_zero_w a = all_ones (a = 0)"
proof -
  have "bit (NOT a AND (a - 1)) 63 \<longleftrightarrow> a = 0"
  proof (cases "a = 0")
    case False
    then have "unat (a - 1) = unat a - 1" by (metis unat_minus_one)
    then have "bit (a - 1) 63 \<Longrightarrow> bit a 63" unfolding top_bit by simp
    with False show ?thesis by (auto simp: bit_simps)
  qed (simp add: bit_simps)
  then show ?thesis by (simp add: constant_time_is_zero_w_def msb_mask)
qed

lemma eq_mask: "constant_time_eq_w a b = all_ones (a = b)"
  proof -
  have "(a XOR b) XOR b = a" by (simp add: xor.assoc)
  then have "a XOR b = 0 \<longleftrightarrow> a = b" by auto
  then show ?thesis by (simp add: constant_time_eq_w_def is_zero_mask)
qed

lemma ucast_ones [simp]: "ucast (- 1 :: u64) = (- 1 :: u8)"
  by (rule bit_word_eqI) (simp add: bit_ucast_iff)

lemma byte_masks:
  "constant_time_lt_8 a b = all_ones (a < b)" "constant_time_ge_8 a b = all_ones (b \<le> a)"
  "constant_time_is_zero_8 a = all_ones (a = 0)" "constant_time_eq_8 a b = all_ones (a = b)"
  by (auto simp: constant_time_lt_8_def constant_time_ge_8_def constant_time_ge_w_def constant_time_is_zero_8_def
      constant_time_eq_8_def lt_mask is_zero_mask eq_mask)

lemma select_mask:
  "constant_time_select_w (all_ones c) x y = (if c then x else y)"
  "constant_time_select_8 (all_ones c) v w = (if c then v else w)"
  by (simp_all add: constant_time_select_w_def constant_time_select_8_def)

end
