(* ===== verification/Bssl_Base64.thy ===== *)
theory Bssl_Base64
  imports Bssl_Constant_Time
begin

text \<open>
  src/ios/Pods/BoringSSL-GRPC/src/crypto/base64/base64.c: Base64 of whole buffers and of streams.

  A function that writes through a pointer returns the bytes it stores there in order, the
  terminating zero included. An input is the list of its bytes. \<open>None\<close> is an assertion that fails or a
  write outside an array.
\<close>

section \<open>Alphabet\<close>

definition constant_time_lt_args_8 :: "u8 \<Rightarrow> u8 \<Rightarrow> u8" where
  "constant_time_lt_args_8 a b = ucast (constant_time_msb_w (ucast a - ucast b))"

definition constant_time_in_range_8 :: "u8 \<Rightarrow> u8 \<Rightarrow> u8 \<Rightarrow> u8" where
  "constant_time_in_range_8 a lo hi = (let a = a - lo in constant_time_lt_args_8 a (hi - lo + 1))"

text \<open>The characters by their codes: A is 65, a is 97, 0 is 48, + is 43, / is 47, = is 61.\<close>

definition conv_bin2ascii :: "u8 \<Rightarrow> u8" where
  "conv_bin2ascii a =
    (let a = a AND 0x3F;
         ret = constant_time_select_8 (ucast (constant_time_eq_8 (ucast a) 62)) 43 47;
         ret = constant_time_select_8 (ucast (constant_time_lt_args_8 a 62)) (a - 52 + 48) ret;
         ret = constant_time_select_8 (ucast (constant_time_lt_args_8 a 52)) (a - 26 + 97) ret;
         ret = constant_time_select_8 (ucast (constant_time_lt_args_8 a 26)) (a + 65) ret
     in ret)"

definition base64_ascii_to_bin :: "u8 \<Rightarrow> u8" where
  "base64_ascii_to_bin a =
    (let is_upper = constant_time_in_range_8 a 65 90;
         is_lower = constant_time_in_range_8 a 97 122;
         is_digit = constant_time_in_range_8 a 48 57;
         is_plus = constant_time_eq_8 (ucast a) 43;
         is_slash = constant_time_eq_8 (ucast a) 47;
         is_equals = constant_time_eq_8 (ucast a) 61;
         ret = 0;
         ret = ret OR (is_upper AND (a - 65));
         ret = ret OR (is_lower AND (a - 97 + 26));
         ret = ret OR (is_digit AND (a - 48 + 52));
         ret = ret OR (is_plus AND 62);
         ret = ret OR (is_slash AND 63);
         is_valid = is_upper OR is_lower OR is_digit OR is_plus OR is_slash OR is_equals;
         ret = ret OR NOT is_valid
     in ret)"

section \<open>Encoding\<close>

text \<open>The length of the text with its terminating zero, \<open>None\<close> where it is not a \<open>size_t\<close>.\<close>

definition EVP_EncodedLength :: "u64 \<Rightarrow> u64 option" where
  "EVP_EncodedLength len =
    (if len + 2 < len then None
     else let len = (len + 2) div 3 in
       if drop_bit 2 (push_bit 2 len) \<noteq> len then None
       else let len = push_bit 2 len in
         if len + 1 < len then None else Some (len + 1))"

text \<open>The loop, with the number of bytes written.\<close>

fun encode_block_loop :: "u8 list \<Rightarrow> u64 \<Rightarrow> u8 list \<times> u64" where
  "encode_block_loop [] ret = ([], ret)"
| "encode_block_loop [b0] ret =
    (let l = push_bit 16 (ucast b0 :: u32) in
     ([conv_bin2ascii (ucast (drop_bit 18 l)), conv_bin2ascii (ucast (drop_bit 12 l)), 61, 61], ret + 4))"
| "encode_block_loop [b0, b1] ret =
    (let l = push_bit 16 (ucast b0 :: u32) OR push_bit 8 (ucast b1) in
     ([conv_bin2ascii (ucast (drop_bit 18 l)), conv_bin2ascii (ucast (drop_bit 12 l)), conv_bin2ascii (ucast (drop_bit 6 l)), 61],
      ret + 4))"
| "encode_block_loop (b0 # b1 # b2 # src) ret =
    (let l = push_bit 16 (ucast b0 :: u32) OR push_bit 8 (ucast b1) OR ucast b2 in
     (case encode_block_loop src (ret + 4) of (dst, ret) \<Rightarrow>
       ([conv_bin2ascii (ucast (drop_bit 18 l)), conv_bin2ascii (ucast (drop_bit 12 l)), conv_bin2ascii (ucast (drop_bit 6 l)),
         conv_bin2ascii (ucast l)] @ dst, ret)))"

definition EVP_EncodeBlock :: "u8 list \<Rightarrow> u8 list \<times> u64" where
  "EVP_EncodeBlock src = (case encode_block_loop src 0 of (dst, ret) \<Rightarrow> (dst @ [0], ret))"

section \<open>Encoding a stream\<close>

record EVP_ENCODE_CTX =
  data_used :: u32
  ctx_data :: "u8 list"
  eof_seen :: bool
  error_encountered :: bool

definition EVP_EncodeInit :: EVP_ENCODE_CTX where
  "EVP_EncodeInit = \<lparr>data_used = 0, ctx_data = replicate 48 0, eof_seen = False, error_encountered = False\<rparr>"

definition INT_MAX :: u64 where "INT_MAX = 0x7FFFFFFF"

text \<open>Copying \<open>bs\<close> into the array of the context from an index on.\<close>

definition ctx_copy :: "nat \<Rightarrow> u8 list \<Rightarrow> EVP_ENCODE_CTX \<Rightarrow> EVP_ENCODE_CTX option" where
  "ctx_copy i bs ctx =
    (if i + length bs \<le> length (ctx_data ctx)
     then Some (ctx\<lparr>ctx_data := take i (ctx_data ctx) @ bs @ drop (i + length bs) (ctx_data ctx)\<rparr>) else None)"

text \<open>
  What \<open>EVP_EncodeBlock\<close> writes at \<open>out\<close> is followed by a newline in place of its zero; the zero after
  the newline is overwritten by the next line, if there is one. The loop over whole lines returns the
  stored bytes without it, the rest of the input, and \<open>total\<close>, or the bytes alone where that
  overflows.
\<close>

function encode_lines_loop :: "u8 list \<Rightarrow> u64 \<Rightarrow> u8 list \<Rightarrow> u8 list \<times> (u64 \<times> u8 list) option" where
  "encode_lines_loop out tot src =
    (if 48 \<le> length src then
       (case EVP_EncodeBlock (take 48 src) of (bs, encoded) \<Rightarrow>
         let out = out @ take (unat encoded) bs @ [10] in
         if tot + encoded + 1 < tot then (out, None)
         else encode_lines_loop out (tot + encoded + 1) (drop 48 src))
     else (out, Some (tot, src)))"
  by auto

termination encode_lines_loop
  by (relation "measure (\<lambda>(out, tot, src). length src)") auto

declare encode_lines_loop.simps [simp del]

text \<open>\<open>*out_len\<close>, the stored bytes, and the context.\<close>

definition EVP_EncodeUpdate :: "EVP_ENCODE_CTX \<Rightarrow> u8 list \<Rightarrow> (u32 \<times> u8 list \<times> EVP_ENCODE_CTX) option" where
  "EVP_EncodeUpdate ctx src =
    (if src = [] then Some (0, [], ctx)
     else if \<not> data_used ctx < 48 then None
     else let used = unat (data_used ctx) in
       if length src < 48 - used then
         map_option (\<lambda>ctx. (0, [], ctx\<lparr>data_used := data_used ctx + of_nat (length src)\<rparr>)) (ctx_copy used src ctx)
       else do {
         (out, tot, src, ctx) \<leftarrow>
           (if used \<noteq> 0 then do {
              ctx \<leftarrow> ctx_copy used (take (48 - used) src) ctx;
              (case EVP_EncodeBlock (ctx_data ctx) of (bs, encoded) \<Rightarrow>
                Some (take (unat encoded) bs @ [10], encoded + 1, drop (48 - used) src, ctx\<lparr>data_used := 0\<rparr>)) }
            else Some ([], 0, src, ctx));
         (case encode_lines_loop out tot src of
            (out, None) \<Rightarrow> Some (0, out @ [0], ctx)
          | (out, Some (tot, src)) \<Rightarrow> do {
              ctx \<leftarrow> ctx_copy 0 src ctx;
              Some (if INT_MAX < tot then 0 else ucast tot, out @ [0], ctx\<lparr>data_used := of_nat (length src)\<rparr>) }) })"

definition EVP_EncodeFinal :: "EVP_ENCODE_CTX \<Rightarrow> (u32 \<times> u8 list \<times> EVP_ENCODE_CTX) option" where
  "EVP_EncodeFinal ctx =
    (if data_used ctx = 0 then Some (0, [], ctx)
     else if length (ctx_data ctx) < unat (data_used ctx) then None
     else (case EVP_EncodeBlock (take (unat (data_used ctx)) (ctx_data ctx)) of (bs, encoded) \<Rightarrow>
       if INT_MAX < encoded + 1 then None
       else Some (ucast (encoded + 1), take (unat encoded) bs @ [10, 0], ctx\<lparr>data_used := 0\<rparr>)))"

section \<open>Decoding\<close>

definition EVP_DecodedLength :: "u64 \<Rightarrow> u64 option" where
  "EVP_DecodedLength len = (if len mod 4 \<noteq> 0 then None else Some (len div 4 * 3))"

definition EVP_DecodeInit :: EVP_ENCODE_CTX where
  "EVP_DecodeInit = \<lparr>data_used = 0, ctx_data = replicate 48 0, eof_seen = False, error_encountered = False\<rparr>"

text \<open>The bytes of a quad, whose number is \<open>*out_num_bytes\<close>.\<close>

definition base64_decode_quad :: "u8 \<Rightarrow> u8 \<Rightarrow> u8 \<Rightarrow> u8 \<Rightarrow> u8 list option" where
  "base64_decode_quad in0 in1 in2 in3 =
    (let a = base64_ascii_to_bin in0; b = base64_ascii_to_bin in1;
         c = base64_ascii_to_bin in2; d = base64_ascii_to_bin in3 in
     if a = 0xFF \<or> b = 0xFF \<or> c = 0xFF \<or> d = 0xFF then None
     else
       let v = push_bit 18 (ucast a :: u32) OR push_bit 12 (ucast b) OR push_bit 6 (ucast c) OR ucast d;
           padding_pattern = push_bit 3 (of_bool (in0 = 61)) OR push_bit 2 (of_bool (in1 = 61)) OR
             push_bit 1 (of_bool (in2 = 61)) OR of_bool (in3 = 61) :: u32 in
       if padding_pattern = 0 then Some [ucast (drop_bit 16 v), ucast (drop_bit 8 v), ucast v]
       else if padding_pattern = 1 then Some [ucast (drop_bit 16 v), ucast (drop_bit 8 v)]
       else if padding_pattern = 3 then Some [ucast (drop_bit 16 v)]
       else None)"

text \<open>
  The loop over the characters: the stored bytes so far, the context, and whether the loop ran to its
  end.
\<close>

definition is_b64_space :: "u8 \<Rightarrow> bool" where
  "is_b64_space c \<longleftrightarrow> c = 32 \<or> c = 9 \<or> c = 13 \<or> c = 10"

primrec decode_update_loop :: "u8 list \<Rightarrow> u8 list \<Rightarrow> EVP_ENCODE_CTX \<Rightarrow> (bool \<times> u8 list \<times> EVP_ENCODE_CTX) option" where
  "decode_update_loop [] out ctx = Some (True, out, ctx)"
| "decode_update_loop (c # cs) out ctx =
    (if is_b64_space c then decode_update_loop cs out ctx
     else if eof_seen ctx then Some (False, out, ctx\<lparr>error_encountered := True\<rparr>)
     else do {
       ctx \<leftarrow> ctx_copy (unat (data_used ctx)) [c] ctx;
       let ctx = ctx\<lparr>data_used := data_used ctx + 1\<rparr>;
       if data_used ctx = 4 then
         (case base64_decode_quad (ctx_data ctx ! 0) (ctx_data ctx ! 1) (ctx_data ctx ! 2) (ctx_data ctx ! 3) of
            None \<Rightarrow> Some (False, out, ctx\<lparr>error_encountered := True\<rparr>)
          | Some bs \<Rightarrow>
              let ctx = ctx\<lparr>data_used := 0\<rparr> in
              decode_update_loop cs (out @ bs) (if length bs < 3 then ctx\<lparr>eof_seen := True\<rparr> else ctx))
       else decode_update_loop cs out ctx })"

text \<open>The status 1, 0 or -1, \<open>*out_len\<close>, the stored bytes, and the context.\<close>

definition EVP_DecodeUpdate :: "EVP_ENCODE_CTX \<Rightarrow> u8 list \<Rightarrow> (int \<times> u32 \<times> u8 list \<times> EVP_ENCODE_CTX) option" where
  "EVP_DecodeUpdate ctx src =
    (if error_encountered ctx then Some (-1, 0, [], ctx)
     else do {
       (ok, out, ctx) \<leftarrow> decode_update_loop src [] ctx;
       let bytes_out = (of_nat (length out) :: u64);
       if \<not> ok then Some (-1, 0, out, ctx)
       else if INT_MAX < bytes_out then Some (-1, 0, out, ctx\<lparr>error_encountered := True\<rparr>)
       else Some (if eof_seen ctx then 0 else 1, ucast bytes_out, out, ctx) })"

definition EVP_DecodeFinal :: "EVP_ENCODE_CTX \<Rightarrow> int" where
  "EVP_DecodeFinal ctx = (if error_encountered ctx \<or> data_used ctx \<noteq> 0 then -1 else 1)"

text \<open>The loop over the quads: the status and the stored bytes.\<close>

fun decode_quads_loop :: "u8 list \<Rightarrow> u8 list \<Rightarrow> bool \<times> u8 list" where
  "decode_quads_loop (in0 # in1 # in2 # in3 # rest) out =
    (case base64_decode_quad in0 in1 in2 in3 of
       None \<Rightarrow> (False, out)
     | Some bs \<Rightarrow>
         if length bs \<noteq> 3 \<and> rest \<noteq> [] then (False, out @ bs) else decode_quads_loop rest (out @ bs))"
| "decode_quads_loop _ out = (True, out)"

text \<open>The status, \<open>*out_len\<close> and the stored bytes.\<close>

definition EVP_DecodeBase64 :: "u64 \<Rightarrow> u8 list \<Rightarrow> bool \<times> u64 \<times> u8 list" where
  "EVP_DecodeBase64 max_out src =
    (let in_len = of_nat (length src) :: u64 in
     if in_len mod 4 \<noteq> 0 then (False, 0, [])
     else (case EVP_DecodedLength in_len of
       None \<Rightarrow> (False, 0, [])
     | Some max_len \<Rightarrow>
         if max_out < max_len then (False, 0, [])
         else (case decode_quads_loop src [] of (ok, out) \<Rightarrow> (ok, if ok then of_nat (length out) else 0, out))))"

definition trim_end :: "(u8 \<Rightarrow> bool) \<Rightarrow> u8 list \<Rightarrow> u8 list" where
  "trim_end P src = rev (dropWhile P (rev src))"

text \<open>The value returned, and the stored bytes with the zeros that stand for the padding.\<close>

definition EVP_DecodeBlock :: "u8 list \<Rightarrow> int \<times> u8 list" where
  "EVP_DecodeBlock src =
    (let src = dropWhile (\<lambda>c. c = 32 \<or> c = 9) src; src = trim_end is_b64_space src in
     case EVP_DecodedLength (of_nat (length src)) of
       None \<Rightarrow> (-1, [])
     | Some dst_len \<Rightarrow>
         if INT_MAX < dst_len then (-1, [])
         else (case EVP_DecodeBase64 dst_len src of (ok, dst_len, dst) \<Rightarrow>
           if \<not> ok then (-1, dst)
           else let dst = dst @ replicate ((3 - length dst mod 3) mod 3) 0 in (int (length dst), dst)))"

end
