(* ===== verification/Bssl_Base64_Facts.thy ===== *)
theory Bssl_Base64_Facts
  imports Bssl_Base64
begin

text \<open>
  Base64 as RFC 4648 defines it, on numbers: a group of three bytes is a number of 24 bits and its four
  digits in base 64, most significant first, are written with the characters of an alphabet. The
  lemmas show that the code's symbols, blocks, quads and streams compute it.
\<close>

section \<open>The reference encoding\<close>

definition b64_alphabet :: "u8 list" where
  "b64_alphabet = map of_char ''ABCDEFGHIJKLMNOPQRSTUVWXYZabcdefghijklmnopqrstuvwxyz0123456789+/''"

definition b64_symbol :: "nat \<Rightarrow> u8" where
  "b64_symbol n = b64_alphabet ! n"

definition b64_digits :: "nat \<Rightarrow> u8 list" where
  "b64_digits n = [b64_symbol (n div 262144), b64_symbol (n div 4096 mod 64), b64_symbol (n div 64 mod 64), b64_symbol (n mod 64)]"

text \<open>A last group of one or two bytes is filled with zero bits, and its missing digits with =.\<close>

fun b64 :: "u8 list \<Rightarrow> u8 list" where
  "b64 [] = []"
| "b64 [x] = take 2 (b64_digits (unat x * 65536)) @ [61, 61]"
| "b64 [x, y] = take 3 (b64_digits (unat x * 65536 + unat y * 256)) @ [61]"
| "b64 (x # y # z # bs) = b64_digits (unat x * 65536 + unat y * 256 + unat z) @ b64 bs"

section \<open>Symbols\<close>

lemma lt_args_mask: "constant_time_lt_args_8 a b = all_ones (a < b)"
proof -
  have top: "\<not> bit (ucast c :: u64) 63" for c :: u8 using bit_imp_le_length [of c 63] by (auto simp: bit_ucast_iff)
  have "bit (ucast a - ucast b :: u64) 63 \<longleftrightarrow> (ucast a :: u64) < ucast b"
    by (rule minus_top_bit) (simp add: top)
  moreover have "(ucast a :: u64) < ucast b \<longleftrightarrow> a < b" by (simp add: word_less_nat_alt unat_ucast_up)
  ultimately show ?thesis by (auto simp: constant_time_lt_args_8_def msb_mask)
qed

lemma range_mask:
  assumes "lo \<le> hi" and "hi < 255"
  shows "constant_time_in_range_8 a lo hi = all_ones (lo \<le> a \<and> a \<le> hi)"
proof -
  have "unat a < 256" "unat hi < 255" "unat lo \<le> unat hi"
    using unsigned_less [of a] assms by (simp_all add: word_less_nat_alt word_le_nat_alt)
  moreover from this have "Suc (unat hi - unat lo) < 256" by linarith
  ultimately have "a - lo < hi - lo + 1 \<longleftrightarrow> lo \<le> a \<and> a \<le> hi"
    by (auto simp: word_less_nat_alt word_le_nat_alt unat_sub_if' unat_word_ariths)
  then show ?thesis by (simp add: constant_time_in_range_8_def Let_def lt_args_mask)
qed

lemma word_mask_mod: "unat (a AND 0x3F :: u8) = unat a mod 64"
proof -
  have "(0x3F :: u8) = mask 6" by (simp add: mask_eq_exp_minus_1)
  then show ?thesis using unat_and_mask [of a 6] by simp
qed

lemma upt_64: "[0..<64] = [0, 1, 2, 3, 4, 5, 6, 7, 8, 9, 10, 11, 12, 13, 14, 15, 16, 17, 18, 19, 20, 21, 22, 23, 24, 25, 26, 27, 28, 29,
  30, 31, 32, 33, 34, 35, 36, 37, 38, 39, 40, 41, 42, 43, 44, 45, 46, 47, 48, 49, 50, 51, 52, 53, 54, 55, 56, 57, 58, 59, 60, 61, 62, 63 :: nat]"
  by code_simp

lemma ucast_byte [simp]: "ucast (ucast (x :: u8) :: u64) = x"
  by (rule bit_word_eqI) (simp add: bit_ucast_iff)

lemma select_byte:
  "constant_time_select_8 (ucast (- 1 :: u8)) v w = v" "constant_time_select_8 0 v w = w"
  by (simp_all only: constant_time_select_8_def ucast_byte Let_def) simp_all

lemma ucast_inj: "(ucast (a :: u8) :: u64) = ucast b \<longleftrightarrow> a = b"
  by (metis ucast_byte)

lemma ucast_chars:
  "ucast (a :: u8) = (62 :: u64) \<longleftrightarrow> a = 62" "ucast a = (43 :: u64) \<longleftrightarrow> a = 43" "ucast a = (47 :: u64) \<longleftrightarrow> a = 47"
  "ucast a = (61 :: u64) \<longleftrightarrow> a = 61"
  using ucast_inj [of a 62] ucast_inj [of a 43] ucast_inj [of a 47] ucast_inj [of a 61] by simp_all

lemma conv_cases: "conv_bin2ascii a =
  (let a = a AND 0x3F in if a < 26 then a + 65 else if a < 52 then a - 26 + 97 else if a < 62 then a - 52 + 48 else if a = 62 then 43 else 47)"
  by (simp add: conv_bin2ascii_def byte_masks lt_args_mask select_byte Let_def ucast_chars)

text \<open>Case by case over the 64 digits.\<close>

lemma conv_digit: "conv_bin2ascii a = b64_symbol (unat a mod 64)"
proof -
  have "list_all (\<lambda>n. (let a = of_nat n :: u8 in if a < 26 then a + 65 else if a < 52 then a - 26 + 97 else if a < 62 then a - 52 + 48
    else if a = 62 then 43 else 47) = b64_symbol n) [0..<64]"
    by code_simp
  then have "(let a = of_nat (unat a mod 64) :: u8 in if a < 26 then a + 65 else if a < 52 then a - 26 + 97 else if a < 62 then a - 52 + 48
    else if a = 62 then 43 else 47) = b64_symbol (unat a mod 64)" unfolding list_all_iff by (rule bspec) simp
  moreover have "(of_nat (unat a mod 64) :: u8) = a AND 0x3F" unfolding word_mask_mod [symmetric] by simp
  ultimately show ?thesis by (simp only: conv_cases)
qed

lemma ascii_cases: "base64_ascii_to_bin a =
  (if 65 \<le> a \<and> a \<le> 90 then a - 65 else if 97 \<le> a \<and> a \<le> 122 then a - 97 + 26 else if 48 \<le> a \<and> a \<le> 57 then a - 48 + 52
   else if a = 43 then 62 else if a = 47 then 63 else if a = 61 then 0 else - 1)"
proof -
  have "\<not> (97 \<le> a \<and> a \<le> 90)" "\<not> (65 \<le> a \<and> a \<le> 57)" "\<not> (97 \<le> a \<and> a \<le> 57)" by (auto simp: word_le_nat_alt)
  then show ?thesis by (auto simp: base64_ascii_to_bin_def byte_masks range_mask Let_def ucast_chars)
qed

lemma b64_alphabet_codes: "b64_alphabet =
  [65, 66, 67, 68, 69, 70, 71, 72, 73, 74, 75, 76, 77, 78, 79, 80, 81, 82, 83, 84, 85, 86, 87, 88, 89, 90, 97,
    98, 99, 100, 101, 102, 103, 104, 105, 106, 107, 108, 109, 110, 111, 112, 113, 114, 115, 116, 117, 118,
    119, 120, 121, 122, 48, 49, 50, 51, 52, 53, 54, 55, 56, 57, 43, 47]"
  by code_simp

lemma symbol_digit:
  assumes "n < 64"
  shows "base64_ascii_to_bin (b64_symbol n) = of_nat n \<and> b64_symbol n \<noteq> 61 \<and> \<not> is_b64_space (b64_symbol n)"
proof -
  have "list_all (\<lambda>(n, c). base64_ascii_to_bin c = of_nat n \<and> c \<noteq> 61 \<and> \<not> is_b64_space c) (zip [0..<64] b64_alphabet)"
    unfolding upt_64 b64_alphabet_codes ascii_cases by (simp add: is_b64_space_def)
  moreover have "(n, b64_symbol n) \<in> set (zip [0..<64] b64_alphabet)"
    using assms by (auto simp: set_zip b64_symbol_def b64_alphabet_codes intro!: exI [of _ n])
  ultimately show ?thesis by (auto simp: list_all_iff)
qed

section \<open>Blocks\<close>

text \<open>Six bits of a group.\<close>

lemma group_digit: "conv_bin2ascii (ucast (drop_bit k (l :: u32))) = b64_symbol (unat l div 2 ^ k mod 64)"
proof -
  have "unat (ucast (drop_bit k l) :: u8) = unat l div 2 ^ k mod 256"
    by (simp only: unsigned_ucast_eq unsigned_drop_bit_eq take_bit_nat_def drop_bit_nat_def)
      (use unsigned_less [of l, where 'a = nat] in simp)
  then show ?thesis by (simp add: conv_digit mod_mod_cancel)
qed

lemma group_value:
  "unat (push_bit 16 (ucast (x :: u8)) :: u32) = unat x * 65536"
  "unat (push_bit 16 (ucast x) OR push_bit 8 (ucast (y :: u8)) :: u32) = unat x * 65536 + unat y * 256"
  "unat (push_bit 16 (ucast x) OR push_bit 8 (ucast y) OR ucast (z :: u8) :: u32) = unat x * 65536 + unat y * 256 + unat z"
proof -
  have byte: "unat (ucast (b :: u8) :: u32) = unat b" "unat b < 256" for b
    using unsigned_less [of b] by (simp_all add: unat_ucast_up)
  have y: "unat (push_bit 8 (ucast y) :: u32) = unat y * 256" using byte [of y] by (simp add: unat_push_bit)
  have yz: "unat (push_bit 8 (ucast y) OR ucast z :: u32) = unat y * 256 + unat z"
    using byte [of y] byte [of z] by (subst or_push_bit) simp_all
  show "unat (push_bit 16 (ucast (x :: u8)) :: u32) = unat x * 65536" using byte [of x] by (simp add: unat_push_bit)
  show "unat (push_bit 16 (ucast x) OR push_bit 8 (ucast (y :: u8)) :: u32) = unat x * 65536 + unat y * 256"
    using byte [of x] byte [of y] by (subst or_push_bit) (simp_all add: y)
  show "unat (push_bit 16 (ucast x) OR push_bit 8 (ucast y) OR ucast (z :: u8) :: u32) = unat x * 65536 + unat y * 256 + unat z"
    using byte [of x] byte [of y] byte [of z] unfolding or.assoc by (subst or_push_bit) (simp_all add: yz)
qed

lemma group_digits:
  assumes "unat (l :: u32) = n" and "n < 16777216"
  shows "conv_bin2ascii (ucast (drop_bit 18 l)) = b64_symbol (n div 262144)"
    "conv_bin2ascii (ucast (drop_bit 12 l)) = b64_symbol (n div 4096 mod 64)"
    "conv_bin2ascii (ucast (drop_bit 6 l)) = b64_symbol (n div 64 mod 64)" "conv_bin2ascii (ucast l) = b64_symbol (n mod 64)"
proof -
  have "n div 262144 < 64" using assms(2) by (simp add: div_less_iff_less_mult)
  then show "conv_bin2ascii (ucast (drop_bit 18 l)) = b64_symbol (n div 262144)" using group_digit [of 18 l] assms(1) by simp
qed (use group_digit [of 12 l] group_digit [of 6 l] group_digit [of 0 l] assms(1) in simp_all)

lemma group_bounds: "unat (x :: u8) * 65536 + unat (y :: u8) * 256 + unat (z :: u8) < 16777216"
  using unsigned_less [of x, where 'a = nat] unsigned_less [of y, where 'a = nat] unsigned_less [of z, where 'a = nat] by simp

lemma encode_block_loop_b64: "encode_block_loop src ret = (b64 src, ret + of_nat (length (b64 src)))"
proof (induction src ret rule: encode_block_loop.induct)
  case (2 x ret)
  show ?case using group_digits [OF group_value(1) [of x]] group_bounds [of x 0 0] by (simp add: b64_digits_def Let_def)
next
  case (3 x y ret)
  show ?case using group_digits [OF group_value(2) [of x y]] group_bounds [of x y 0] by (simp add: b64_digits_def Let_def)
next
  case (4 x y z src ret)
  then show ?case using group_digits [OF group_value(3) [of x y z]] group_bounds [of x y z] by (simp add: b64_digits_def Let_def)
qed simp

lemma quad_value:
  assumes "d0 < 64" and "d1 < 64" and "d2 < 64" and "d3 < 64"
  shows "unat (push_bit 18 (ucast (of_nat d0 :: u8)) OR push_bit 12 (ucast (of_nat d1 :: u8)) OR push_bit 6 (ucast (of_nat d2 :: u8)) OR
    ucast (of_nat d3 :: u8) :: u32) = d0 * 262144 + d1 * 4096 + d2 * 64 + d3"
proof -
  have byte: "unat (ucast (of_nat d :: u8) :: u32) = d" if "d < 64" for d
    using that by (simp add: unat_ucast_up unat_of_nat)
  note b = byte [OF assms(1)] byte [OF assms(2)] byte [OF assms(3)] byte [OF assms(4)]
  have two: "unat (push_bit 6 (ucast (of_nat d2 :: u8)) OR ucast (of_nat d3 :: u8) :: u32) = d2 * 64 + d3"
    by (subst or_push_bit) (use b assms in simp_all)
  have three: "unat (push_bit 12 (ucast (of_nat d1 :: u8)) OR (push_bit 6 (ucast (of_nat d2 :: u8)) OR ucast (of_nat d3 :: u8)) :: u32) =
      d1 * 4096 + (d2 * 64 + d3)"
    by (subst or_push_bit) (use b assms two in simp_all)
  show ?thesis unfolding or.assoc by (subst or_push_bit) (use b assms three in simp_all)
qed

lemma quad_bytes:
  assumes "unat (v :: u32) = n" and "n < 16777216"
  shows "ucast (drop_bit 16 v) = (of_nat (n div 65536) :: u8)" "ucast (drop_bit 8 v) = (of_nat (n div 256) :: u8)" "ucast v = (of_nat n :: u8)"
  using assms by (simp_all add: word_unat_eq_iff unsigned_ucast_eq unsigned_drop_bit_eq take_bit_nat_def drop_bit_nat_def unat_of_nat)

lemma digit_not_invalid: "n < 64 \<Longrightarrow> (of_nat n :: u8) \<noteq> 0xFF"
  by (simp add: word_unat_eq_iff unat_of_nat)

lemma ascii_equals: "base64_ascii_to_bin 61 = 0"
  by (simp add: ascii_cases)

lemma digits_sum: "n div 262144 * 262144 + n div 4096 mod 64 * 4096 + n div 64 mod 64 * 64 + n mod 64 = n" for n :: nat
proof -
  have split: "m = m div 64 * 64 + m mod 64" for m :: nat by simp
  have "n div 64 div 64 = n div 4096" "n div 4096 div 64 = n div 262144" by (simp_all add: div_mult2_eq [symmetric])
  then show ?thesis using split [of n] split [of "n div 64"] split [of "n div 4096"] by linarith
qed

text \<open>Quads without padding, with one and with two padding characters.\<close>

lemma decode_quad_digits:
  assumes "d0 < 64" and "d1 < 64" and "d2 < 64" and "d3 < 64"
  shows "n = d0 * 262144 + d1 * 4096 + d2 * 64 + d3 \<Longrightarrow>
      base64_decode_quad (b64_symbol d0) (b64_symbol d1) (b64_symbol d2) (b64_symbol d3) =
      Some [of_nat (n div 65536), of_nat (n div 256), of_nat n]"
    and "n = d0 * 262144 + d1 * 4096 + d2 * 64 \<Longrightarrow>
      base64_decode_quad (b64_symbol d0) (b64_symbol d1) (b64_symbol d2) 61 = Some [of_nat (n div 65536), of_nat (n div 256)]"
    and "n = d0 * 262144 + d1 * 4096 \<Longrightarrow>
      base64_decode_quad (b64_symbol d0) (b64_symbol d1) 61 61 = Some [of_nat (n div 65536)]"
proof -
  have zero: "(0 :: nat) < 64" by simp
  have ascii: "base64_ascii_to_bin (b64_symbol d) = of_nat d" "(b64_symbol d = 61) = False" "((of_nat d :: u8) = 0xFF) = False"
    if "d < 64" for d using symbol_digit [OF that] digit_not_invalid [OF that] by simp_all
  note ascii = ascii [OF assms(1)] ascii [OF assms(2)] ascii [OF assms(3)] ascii [OF assms(4)]
  have equals: "base64_ascii_to_bin 61 = 0" "((0 :: u8) = 0xFF) = False" by (simp_all add: ascii_equals)
  have pattern: "push_bit 3 (of_bool False) OR push_bit 2 (of_bool False) OR push_bit 1 (of_bool False) OR of_bool False = (0 :: u32)"
    "push_bit 3 (of_bool False) OR push_bit 2 (of_bool False) OR push_bit 1 (of_bool False) OR of_bool True = (1 :: u32)"
    "push_bit 3 (of_bool False) OR push_bit 2 (of_bool False) OR push_bit 1 (of_bool True) OR of_bool True = (3 :: u32)"
    "((1 :: u32) = 0) = False" "((3 :: u32) = 0) = False" "((3 :: u32) = 1) = False" by simp_all
  note eval = base64_decode_quad_def Let_def ascii equals pattern simp_thms if_True if_False
  show "base64_decode_quad (b64_symbol d0) (b64_symbol d1) (b64_symbol d2) (b64_symbol d3) =
      Some [of_nat (n div 65536), of_nat (n div 256), of_nat n]" if "n = d0 * 262144 + d1 * 4096 + d2 * 64 + d3"
    using quad_bytes [OF quad_value [OF assms(1,2,3,4)], folded that] assms that by (simp only: eval)
  show "base64_decode_quad (b64_symbol d0) (b64_symbol d1) (b64_symbol d2) 61 = Some [of_nat (n div 65536), of_nat (n div 256)]"
    if "n = d0 * 262144 + d1 * 4096 + d2 * 64"
    using quad_bytes [OF quad_value [OF assms(1,2,3) zero]] assms that by (simp only: eval, simp)
  show "base64_decode_quad (b64_symbol d0) (b64_symbol d1) 61 61 = Some [of_nat (n div 65536)]" if "n = d0 * 262144 + d1 * 4096"
    using quad_bytes [OF quad_value [OF assms(1,2) zero zero]] assms that by (simp only: eval, simp)
qed

lemma decode_quad_b64:
  "base64_decode_quad (b64 [x] ! 0) (b64 [x] ! 1) (b64 [x] ! 2) (b64 [x] ! 3) = Some [x]"
  "base64_decode_quad (b64 [x, y] ! 0) (b64 [x, y] ! 1) (b64 [x, y] ! 2) (b64 [x, y] ! 3) = Some [x, y]"
  "base64_decode_quad (b64 [x, y, z] ! 0) (b64 [x, y, z] ! 1) (b64 [x, y, z] ! 2) (b64 [x, y, z] ! 3) = Some [x, y, z]"
proof -
  have top: "n div 262144 < 64" if "n < 16777216" for n :: nat using that by (simp add: div_less_iff_less_mult)
  have small: "n div 4096 mod 64 < 64" "n div 64 mod 64 < 64" "n mod 64 < 64" for n :: nat by simp_all
  have byte: "unat b < 256" for b :: u8 using unsigned_less [of b] by simp
  have wrap: "256 * w = 0" "65536 * w = 0" "w * 256 = 0" "w * 65536 = 0" for w :: u8
  proof -
    have "(256 :: u8) = 0" "(65536 :: u8) = 0" by simp_all
    then show "256 * w = 0" "65536 * w = 0" "w * 256 = 0" "w * 65536 = 0" by (metis mult_zero_left mult_zero_right)+
  qed
  have "unat x * 65536 = unat x * 65536 div 262144 * 262144 + unat x * 65536 div 4096 mod 64 * 4096"
    using digits_sum [of "unat x * 65536"] by simp
  from decode_quad_digits(3) [OF top small this] byte [of x]
  show "base64_decode_quad (b64 [x] ! 0) (b64 [x] ! 1) (b64 [x] ! 2) (b64 [x] ! 3) = Some [x]"
    by (simp add: b64_digits_def)
  let ?xy = "unat x * 65536 + unat y * 256"
  have "?xy = ?xy div 262144 * 262144 + ?xy div 4096 mod 64 * 4096 + ?xy div 64 mod 64 * 64"
    using digits_sum [of ?xy] by simp
  from decode_quad_digits(2) [OF top small this] byte [of x] byte [of y] wrap
  show "base64_decode_quad (b64 [x, y] ! 0) (b64 [x, y] ! 1) (b64 [x, y] ! 2) (b64 [x, y] ! 3) = Some [x, y]"
    by (simp add: b64_digits_def)
  let ?xyz = "unat x * 65536 + unat y * 256 + unat z"
  have "?xyz div 65536 = unat x" "?xyz div 256 = unat x * 256 + unat y"
    using byte [of x] byte [of y] byte [of z] by (intro div_nat_eqI; simp)+
  with decode_quad_digits(1) [OF top small digits_sum [of ?xyz, symmetric]] byte [of x] byte [of y] byte [of z] wrap
  show "base64_decode_quad (b64 [x, y, z] ! 0) (b64 [x, y, z] ! 1) (b64 [x, y, z] ! 2) (b64 [x, y, z] ! 3) = Some [x, y, z]"
    by (simp add: b64_digits_def)
qed

lemma b64_group: "\<exists>s0 s1 s2 s3. b64 [x] = [s0, s1, s2, s3]" "\<exists>s0 s1 s2 s3. b64 [x, y] = [s0, s1, s2, s3]"
  "\<exists>s0 s1 s2 s3. b64 [x, y, z] = [s0, s1, s2, s3]"
  by (simp_all add: b64_digits_def)

lemma b64_more: "b64 (x # y # z # bs) = b64 [x, y, z] @ b64 bs"
  by simp

lemma b64_length: "length (b64 bs) = (length bs + 2) div 3 * 4"
proof (induction bs rule: b64.induct)
  case (4 x y z bs)
  have "(length (x # y # z # bs) + 2) div 3 = Suc ((length bs + 2) div 3)"
    using div_add_self2 [of 3 "length bs + 2"] by simp
  with 4 show ?case by (simp add: b64_digits_def)
qed (simp_all add: b64_digits_def)

lemma decode_group:
  assumes "bs = [x] \<or> bs = [x, y] \<or> bs = [x, y, z]"
  obtains s0 s1 s2 s3 where "b64 bs = [s0, s1, s2, s3]" "base64_decode_quad s0 s1 s2 s3 = Some bs"
proof -
  from assms b64_group(1) [of x] b64_group(2) [of x y] b64_group(3) [of x y z] obtain s0 s1 s2 s3
    where s: "b64 bs = [s0, s1, s2, s3]" by metis
  have "base64_decode_quad (b64 bs ! 0) (b64 bs ! 1) (b64 bs ! 2) (b64 bs ! 3) = Some bs"
    using assms decode_quad_b64(1) [of x] decode_quad_b64(2) [of x y] decode_quad_b64(3) [of x y z] by blast
  with that s show thesis by (simp add: numeral_2_eq_2 numeral_3_eq_3)
qed

lemma decode_quads_b64: "decode_quads_loop (b64 bs) out = (True, out @ bs)"
proof (induction bs arbitrary: out rule: b64.induct)
  case (2 x)
  obtain s0 s1 s2 s3 where s: "b64 [x] = [s0, s1, s2, s3]" "base64_decode_quad s0 s1 s2 s3 = Some [x]" by (rule decode_group [of "[x]" x]) auto
  show ?case by (simp only: s) (simp add: s)
next
  case (3 x y)
  obtain s0 s1 s2 s3 where s: "b64 [x, y] = [s0, s1, s2, s3]" "base64_decode_quad s0 s1 s2 s3 = Some [x, y]"
    by (rule decode_group [of "[x, y]" x y]) auto
  show ?case by (simp only: s) (simp add: s)
next
  case (4 x y z bs)
  obtain s0 s1 s2 s3 where s: "b64 [x, y, z] = [s0, s1, s2, s3]" "base64_decode_quad s0 s1 s2 s3 = Some [x, y, z]"
    by (rule decode_group [of "[x, y, z]" x y z]) auto
  show ?case by (subst b64_more, simp only: s) (simp add: s 4)
qed (simp only: b64.simps, simp)

end
