(* ===== verification/Bssl_Base64_Stream.thy ===== *)
theory Bssl_Base64_Stream
  imports Bssl_Base64_Facts
begin

text \<open>
  The streaming interface of base64.c: a context holds the bytes that do not fill a line or a quad yet,
  and what is written does not depend on how the input is cut into pieces.
\<close>

section \<open>Lines\<close>

text \<open>Whole lines of 48 bytes, and the text with the last line.\<close>

function b64_lines :: "u8 list \<Rightarrow> u8 list" where
  "b64_lines bs = (if 48 \<le> length bs then b64 (take 48 bs) @ [10] @ b64_lines (drop 48 bs) else [])"
  by auto

termination b64_lines by (relation "measure length") auto

declare b64_lines.simps [simp del]

function b64_text :: "u8 list \<Rightarrow> u8 list" where
  "b64_text bs = (if bs = [] then [] else b64 (take 48 bs) @ [10] @ b64_text (drop 48 bs))"
  by auto

termination b64_text by (relation "measure length") auto

declare b64_text.simps [simp del]

definition unlined :: "u8 list \<Rightarrow> u8 list" where
  "unlined bs = drop (length bs div 48 * 48) bs"

lemma line_div: "(48 + n) div 48 = n div 48 + 1" for n :: nat
  by (rule div_add_self1) simp

lemma unlined_drop: "48 \<le> length bs \<Longrightarrow> unlined (drop 48 bs) = unlined bs"
proof -
  assume "48 \<le> length bs"
  then obtain n where n: "length bs = 48 + n" by (auto simp: le_iff_add)
  have "(48 + n) div 48 * 48 = n div 48 * 48 + 48" unfolding line_div by simp
  then show ?thesis by (simp add: unlined_def n)
qed

lemma unlined_short: "length bs < 48 \<Longrightarrow> unlined bs = bs"
  by (simp add: unlined_def)

lemma unlined_length: "length (unlined bs) < 48"
proof -
  have "length (unlined bs) = length bs mod 48" by (simp add: unlined_def minus_div_mult_eq_mod)
  then show ?thesis by simp
qed

lemma b64_lines_length: "length (b64_lines bs) = length bs div 48 * 65"
proof (induction bs rule: b64_lines.induct)
  case (1 bs)
  show ?case
  proof (cases "48 \<le> length bs")
    case True
    then obtain n where n: "length bs = 48 + n" by (auto simp: le_iff_add)
    have "(48 + n) div 48 * 65 = 65 + n div 48 * 65" unfolding line_div by simp
    with True 1 show ?thesis by (subst b64_lines.simps) (simp add: b64_length n)
  qed (simp add: b64_lines.simps)
qed

lemma b64_text_lines: "b64_text (bs @ cs) = b64_lines bs @ b64_text (unlined bs @ cs)"
proof (induction bs rule: b64_lines.induct)
  case (1 bs)
  show ?case
  proof (cases "48 \<le> length bs")
    case True
    then have "bs \<noteq> []" by auto
    with True 1 show ?thesis by (subst b64_text.simps, subst b64_lines.simps) (simp add: unlined_drop)
  qed (simp add: b64_lines.simps unlined_short)
qed

section \<open>Encoding\<close>

definition enc_holds :: "EVP_ENCODE_CTX \<Rightarrow> u8 list \<Rightarrow> bool" where
  "enc_holds ctx waiting \<longleftrightarrow> length (ctx_data ctx) = 48 \<and> unat (data_used ctx) = length waiting \<and> length waiting < 48 \<and>
     take (length waiting) (ctx_data ctx) = waiting"

lemma EncodeBlock_line:
  assumes "length bs \<le> 48"
  shows "EVP_EncodeBlock bs = (b64 bs @ [0], of_nat (length (b64 bs)))" "unat (of_nat (length (b64 bs)) :: u64) = length (b64 bs)"
    "length (b64 bs) \<le> 64"
proof -
  have "(length bs + 2) div 3 \<le> 50 div 3" by (rule div_le_mono) (use assms in simp)
  then show "length (b64 bs) \<le> 64" by (simp add: b64_length)
  then show "unat (of_nat (length (b64 bs)) :: u64) = length (b64 bs)" by (intro unat_of_nat_u64) simp
  show "EVP_EncodeBlock bs = (b64 bs @ [0], of_nat (length (b64 bs)))" by (simp add: EVP_EncodeBlock_def encode_block_loop_b64)
qed

lemma encode_lines_loop_lines:
  assumes "n + length (b64_lines src) < 2 ^ 64"
  shows "encode_lines_loop out (of_nat n) src = (out @ b64_lines src, Some (of_nat (n + length (b64_lines src)), unlined src))"
  using assms
proof (induction "length src" arbitrary: out n src rule: less_induct)
  case less
  show ?case
  proof (cases "48 \<le> length src")
    case True
    let ?line = "b64 (take 48 src)"
    have len: "length ?line = 64" using True by (simp add: b64_length)
    have lines: "b64_lines src = ?line @ [10] @ b64_lines (drop 48 src)" using True by (simp add: b64_lines.simps)
    have "unat (of_nat n :: u64) + 65 < 2 ^ 64" using less.prems lines len by (simp add: unat_of_nat_u64)
    then have no_wrap: "\<not> of_nat n + of_nat (length ?line) + 1 < (of_nat n :: u64)"
      by (simp add: word_less_nat_alt len unat_word_ariths add.assoc)
    have tot: "of_nat n + of_nat (length ?line) + 1 = (of_nat (n + 65) :: u64)" by (simp add: len)
    have "length (drop 48 src) < length src" "n + 65 + length (b64_lines (drop 48 src)) < 2 ^ 64"
      using True less.prems by (simp_all add: lines len)
    from less.hyps [OF this, of "out @ ?line @ [10]"] True no_wrap show ?thesis
      using EncodeBlock_line [of "take 48 src"]
      by (subst encode_lines_loop.simps) (simp add: Let_def len lines unlined_drop add.assoc)
  qed (simp add: encode_lines_loop.simps b64_lines.simps unlined_short)
qed

lemma ctx_copy_fits:
  assumes "i + length bs \<le> length (ctx_data ctx)"
  obtains ctx' where "ctx_copy i bs ctx = Some ctx'" "length (ctx_data ctx') = length (ctx_data ctx)"
    "take (i + length bs) (ctx_data ctx') = take i (ctx_data ctx) @ bs" "data_used ctx' = data_used ctx"
    "eof_seen ctx' = eof_seen ctx" "error_encountered ctx' = error_encountered ctx"
proof
  show "ctx_copy i bs ctx = Some (ctx\<lparr>ctx_data := take i (ctx_data ctx) @ bs @ drop (i + length bs) (ctx_data ctx)\<rparr>)"
    using assms by (simp add: ctx_copy_def)
qed (use assms in \<open>(cases bs; auto simp: min_def)+\<close>)

text \<open>The line that is completed first.\<close>

lemma encode_first:
  assumes "length (ctx_data ctx) = 48" and "take (length waiting) (ctx_data ctx) = waiting" and "\<not> length src < 48 - length waiting"
    and "length waiting < 48"
  obtains out n src' ctx' where "(if length waiting \<noteq> 0 then do {
          ctx \<leftarrow> ctx_copy (length waiting) (take (48 - length waiting) src) ctx;
          (case EVP_EncodeBlock (ctx_data ctx) of (bs, encoded) \<Rightarrow>
            Some (take (unat encoded) bs @ [10], encoded + 1, drop (48 - length waiting) src, ctx\<lparr>data_used := 0\<rparr>)) }
        else Some ([], 0, src, ctx)) = Some (out, of_nat n, src', ctx')"
      "n = length out" "out @ b64_lines src' = b64_lines (waiting @ src)" "unlined src' = unlined (waiting @ src)"
      "length (ctx_data ctx') = 48"
proof (cases "waiting = []")
  case True
  then show thesis by (intro that [of "[]" 0 src ctx]) (use assms in simp_all)
next
  case False
  let ?line = "waiting @ take (48 - length waiting) src"
  obtain ctx' where c: "ctx_copy (length waiting) (take (48 - length waiting) src) ctx = Some ctx'" "length (ctx_data ctx') = 48"
    "take (length waiting + length (take (48 - length waiting) src)) (ctx_data ctx') = ?line"
    by (rule ctx_copy_fits [of "length waiting" "take (48 - length waiting) src" ctx]) (use assms in simp_all)
  have line: "ctx_data ctx' = ?line" using c(2,3) assms(3,4) by (simp add: min_def)
  have len: "length ?line = 48" using assms(3,4) by (simp add: min_def)
  have b64: "length (b64 ?line) = 64" by (simp only: b64_length len) simp
  have whole: "take 48 (waiting @ src) = ?line" "drop 48 (waiting @ src) = drop (48 - length waiting) src" "48 \<le> length (waiting @ src)"
    using assms(3,4) by (simp_all add: min_def)
  have "b64_lines (waiting @ src) = b64 ?line @ [10] @ b64_lines (drop (48 - length waiting) src)"
    using whole by (subst b64_lines.simps) (simp only: if_True)
  moreover have "unlined (drop (48 - length waiting) src) = unlined (waiting @ src)" using unlined_drop [OF whole(3)] whole(2) by simp
  moreover have "EVP_EncodeBlock ?line = (b64 ?line @ [0], of_nat (length (b64 ?line)))" by (rule EncodeBlock_line(1)) (simp only: len)
  ultimately show thesis
    by (intro that [of "b64 ?line @ [10]" 65 "drop (48 - length waiting) src" "ctx'\<lparr>data_used := 0\<rparr>"])
      (use False c(1,2) b64 in \<open>simp_all add: line\<close>)
qed

text \<open>One call, as long as the text it writes is not longer than an \<open>int\<close> can count.\<close>

lemma EncodeUpdate_lines:
  assumes "enc_holds ctx waiting" and "length (b64_lines (waiting @ src)) < 2 ^ 31"
  obtains n out ctx' where "EVP_EncodeUpdate ctx src = Some (n, out, ctx')" "take (unat n) out = b64_lines (waiting @ src)"
    "enc_holds ctx' (unlined (waiting @ src))"
proof -
  have ctx: "length (ctx_data ctx) = 48" "unat (data_used ctx) = length waiting" "length waiting < 48"
    "take (length waiting) (ctx_data ctx) = waiting" using assms(1) by (simp_all add: enc_holds_def)
  have used: "data_used ctx < 48" using ctx(2,3) by (simp add: word_less_nat_alt)
  show thesis
  proof (cases "length src < 48 - length waiting")
    case True
    show ?thesis
    proof (cases "src = []")
      case True
      show ?thesis by (rule that [of 0 "[]" ctx]) (use True assms(1) ctx(3) in \<open>simp_all add: EVP_EncodeUpdate_def b64_lines.simps unlined_short\<close>)
    next
      case False
      obtain ctx' where c: "ctx_copy (length waiting) src ctx = Some ctx'" "length (ctx_data ctx') = 48"
        "take (length waiting + length src) (ctx_data ctx') = waiting @ src" "data_used ctx' = data_used ctx"
        by (rule ctx_copy_fits [of "length waiting" src ctx]) (use True ctx in simp_all)
      let ?ctx = "ctx'\<lparr>data_used := data_used ctx' + of_nat (length src)\<rparr>"
      have "unat (of_nat (length src) :: u32) = length src" using True by (simp add: unat_of_nat)
      then have "unat (data_used ?ctx) = length waiting + length src" using True ctx(2,3) c(4) by (simp add: unat_word_ariths)
      then have "enc_holds ?ctx (waiting @ src)" using True c(2,3) by (simp add: enc_holds_def)
      moreover have "EVP_EncodeUpdate ctx src = Some (0, [], ?ctx)" using False True used ctx(2) c(1) by (simp add: EVP_EncodeUpdate_def)
      ultimately show ?thesis
        by (intro that [of 0 "[]" ?ctx]) (use True in \<open>simp_all add: b64_lines.simps unlined_short\<close>)
    qed
  next
    case False
    let ?lines = "b64_lines (waiting @ src)"
    have src: "src \<noteq> []" using False ctx(3) by auto
    obtain out n src' ctx' where first:
      "(if length waiting \<noteq> 0 then do {
          ctx \<leftarrow> ctx_copy (length waiting) (take (48 - length waiting) src) ctx;
          (case EVP_EncodeBlock (ctx_data ctx) of (bs, encoded) \<Rightarrow>
            Some (take (unat encoded) bs @ [10], encoded + 1, drop (48 - length waiting) src, ctx\<lparr>data_used := 0\<rparr>)) }
        else Some ([], 0, src, ctx)) = Some (out, of_nat n, src', ctx')"
      "n = length out" "out @ b64_lines src' = ?lines" "unlined src' = unlined (waiting @ src)" "length (ctx_data ctx') = 48"
      by (rule encode_first [OF ctx(1,4) False ctx(3)])
    have n: "n + length (b64_lines src') = length ?lines" using first(2,3) by (metis length_append)
    obtain ctx'' where c: "ctx_copy 0 (unlined src') ctx' = Some ctx''" "length (ctx_data ctx'') = 48"
      "take (length (unlined src')) (ctx_data ctx'') = unlined src'"
      by (rule ctx_copy_fits [of 0 "unlined src'" ctx']) (use first(5) unlined_length [of src'] in simp_all)
    let ?ctx = "ctx''\<lparr>data_used := of_nat (length (unlined src'))\<rparr>"
    have "unat (of_nat (length (unlined src')) :: u32) = length (unlined src')" using unlined_length [of src'] by (simp add: unat_of_nat)
    then have "enc_holds ?ctx (unlined (waiting @ src))" using c unlined_length [of src'] first(4) by (simp add: enc_holds_def)
    moreover have "unat (of_nat (length ?lines) :: u64) = length ?lines" using assms(2) by (simp add: unat_of_nat_u64)
    then have "\<not> INT_MAX < of_nat (length ?lines)" using assms(2) by (simp add: INT_MAX_def word_less_nat_alt)
    moreover have "unat (ucast (of_nat (length ?lines) :: u64) :: u32) = length ?lines"
      using assms(2) by (simp add: unsigned_ucast_eq unat_of_nat take_bit_nat_eq_self_iff)
    ultimately show ?thesis
      by (intro that [of "ucast (of_nat (length ?lines) :: u64)" "?lines @ [0]" ?ctx])
        (use src False used first(1) c(1) assms(2) n first(3) in
          \<open>simp_all add: EVP_EncodeUpdate_def ctx(2) encode_lines_loop_lines\<close>)
  qed
qed

lemma EncodeFinal_line:
  assumes "enc_holds ctx waiting"
  obtains n out ctx' where "EVP_EncodeFinal ctx = Some (n, out, ctx')" "take (unat n) out = b64_text waiting" "enc_holds ctx' []"
proof -
  have ctx: "length (ctx_data ctx) = 48" "unat (data_used ctx) = length waiting" "length waiting < 48"
    "take (length waiting) (ctx_data ctx) = waiting" using assms by (simp_all add: enc_holds_def)
  show thesis
  proof (cases "waiting = []")
    case True
    then have "data_used ctx = 0" using ctx(2) by (simp add: unat_eq_0)
    then show ?thesis using True assms by (intro that [of 0 "[]" ctx]) (simp_all add: EVP_EncodeFinal_def b64_text.simps)
  next
    case False
    then have used: "data_used ctx \<noteq> 0" using ctx(2) by (auto simp: unat_eq_0 [symmetric])
    have single: "b64_text waiting = b64 waiting @ [10]" using False ctx(3) by (subst b64_text.simps) (simp add: b64_text.simps)
    note line = EncodeBlock_line [of waiting, OF less_imp_le [OF ctx(3)]]
    have small: "unat (of_nat (length (b64 waiting)) + 1 :: u64) = length (b64 waiting) + 1"
      using line(2,3) by (simp add: unat_word_ariths)
    then have "\<not> INT_MAX < of_nat (length (b64 waiting)) + 1" using line(3) by (simp add: INT_MAX_def word_less_nat_alt)
    moreover have "unat (ucast (of_nat (length (b64 waiting)) + 1 :: u64) :: u32) = length (b64 waiting) + 1"
      unfolding unsigned_ucast_eq small using line(3) by (simp add: take_bit_nat_eq_self_iff)
    ultimately show ?thesis using used ctx line(1,2)
      by (intro that [of "ucast (of_nat (length (b64 waiting)) + 1 :: u64)" "b64 waiting @ [10, 0]" "ctx\<lparr>data_used := 0\<rparr>"])
        (simp_all add: EVP_EncodeFinal_def single enc_holds_def)
  qed
qed

text \<open>A caller that encodes pieces and keeps the bytes each call counts.\<close>

primrec encode_pieces :: "EVP_ENCODE_CTX \<Rightarrow> u8 list list \<Rightarrow> u8 list option" where
  "encode_pieces ctx [] = map_option (\<lambda>(n, out, ctx). take (unat n) out) (EVP_EncodeFinal ctx)"
| "encode_pieces ctx (src # srcs) = do {
     (n, out, ctx) \<leftarrow> EVP_EncodeUpdate ctx src;
     map_option (\<lambda>outs. take (unat n) out @ outs) (encode_pieces ctx srcs) }"

lemma lines_bound:
  assumes "length waiting < 48" and "length src < 2 ^ 30"
  shows "length (b64_lines (waiting @ src)) < 2 ^ 31"
proof -
  have "length (waiting @ src) div 48 \<le> (2 ^ 30 + 48) div 48" by (rule div_le_mono) (use assms in simp)
  then show ?thesis by (simp add: b64_lines_length)
qed

lemma encode_pieces_text:
  assumes "enc_holds ctx waiting" and "\<forall>src\<in>set srcs. length src < 2 ^ 30"
  shows "encode_pieces ctx srcs = Some (b64_text (waiting @ concat srcs))"
  using assms
proof (induction srcs arbitrary: ctx waiting)
  case Nil
  obtain n out ctx' where "EVP_EncodeFinal ctx = Some (n, out, ctx')" "take (unat n) out = b64_text waiting" "enc_holds ctx' []"
    by (rule EncodeFinal_line [OF Nil(1)])
  then show ?case by simp
next
  case (Cons src srcs)
  have bound: "length (b64_lines (waiting @ src)) < 2 ^ 31"
    by (rule lines_bound) (use Cons.prems in \<open>auto simp: enc_holds_def\<close>)
  obtain n out ctx' where step: "EVP_EncodeUpdate ctx src = Some (n, out, ctx')" "take (unat n) out = b64_lines (waiting @ src)"
    "enc_holds ctx' (unlined (waiting @ src))" by (rule EncodeUpdate_lines [OF Cons.prems(1) bound])
  have "encode_pieces ctx' srcs = Some (b64_text (unlined (waiting @ src) @ concat srcs))"
    by (rule Cons.IH [OF step(3)]) (use Cons.prems(2) in simp)
  then show ?case using step(1,2) b64_text_lines [of "waiting @ src" "concat srcs"] by simp
qed

section \<open>Decoding\<close>

text \<open>
  What a decoder holds: the characters of an unfinished quad, and whether the padding was seen. On it,
  what a run over characters delivers, independent of where the calls are cut.
\<close>

fun quad_of :: "u8 list \<Rightarrow> u8 list option" where
  "quad_of [a, b, c, d] = base64_decode_quad a b c d"
| "quad_of _ = None"

primrec dec_run :: "u8 list \<Rightarrow> u8 list \<Rightarrow> bool \<Rightarrow> (u8 list \<times> u8 list \<times> bool) option" where
  "dec_run [] waiting eof = Some ([], waiting, eof)"
| "dec_run (c # cs) waiting eof =
    (if is_b64_space c then dec_run cs waiting eof
     else if eof then None
     else if length waiting = 3 then do {
       bs \<leftarrow> quad_of (waiting @ [c]);
       map_option (\<lambda>(out, rest). (bs @ out, rest)) (dec_run cs [] (length bs < 3)) }
     else dec_run cs (waiting @ [c]) eof)"

definition dec_holds :: "EVP_ENCODE_CTX \<Rightarrow> u8 list \<Rightarrow> bool \<Rightarrow> bool" where
  "dec_holds ctx waiting eof \<longleftrightarrow> length (ctx_data ctx) = 48 \<and> unat (data_used ctx) = length waiting \<and> length waiting < 4 \<and>
     take (length waiting) (ctx_data ctx) = waiting \<and> eof_seen ctx = eof \<and> \<not> error_encountered ctx"

lemma dec_run_append:
  "dec_run (cs @ ds) waiting eof = do {
     (out, waiting, eof) \<leftarrow> dec_run cs waiting eof;
     map_option (\<lambda>(out', rest). (out @ out', rest)) (dec_run ds waiting eof) }"
  by (induction cs arbitrary: waiting eof)
    (auto simp: option.map_comp map_option_case bind_eq_Some_conv split: option.splits Option.bind_splits)

lemma dec_run_text: "dec_run (filter (\<lambda>c. \<not> is_b64_space c) cs) waiting eof = dec_run cs waiting eof"
  by (induction cs arbitrary: waiting eof) auto

lemma decode_update_loop_run:
  "dec_holds ctx waiting eof \<Longrightarrow> dec_run cs waiting eof = Some (out', waiting', eof') \<Longrightarrow>
    \<exists>ctx'. decode_update_loop cs out ctx = Some (True, out @ out', ctx') \<and> dec_holds ctx' waiting' eof'"
proof (induction cs arbitrary: ctx waiting eof out out')
  case Nil
  then show ?case by (intro exI [of _ ctx]) simp
next
  case (Cons c cs)
  show ?case
  proof (cases "is_b64_space c")
    case True
    then show ?thesis using Cons.IH [OF Cons.prems(1)] Cons.prems(2) by simp
  next
    case False
    have ctx: "length (ctx_data ctx) = 48" "unat (data_used ctx) = length waiting" "length waiting < 4" "eof_seen ctx = eof"
      "take (length waiting) (ctx_data ctx) = waiting" "\<not> error_encountered ctx" using Cons.prems(1) by (simp_all add: dec_holds_def)
    have eof: "\<not> eof" using Cons.prems(2) False by auto
    obtain ctx' where c: "ctx_copy (length waiting) [c] ctx = Some ctx'" "length (ctx_data ctx') = 48"
      "take (length waiting + 1) (ctx_data ctx') = waiting @ [c]" "data_used ctx' = data_used ctx" "eof_seen ctx' = eof"
      "\<not> error_encountered ctx'"
      by (rule ctx_copy_fits [of "length waiting" "[c]" ctx]) (use ctx in simp_all)
    have used: "unat (data_used ctx + 1) = length waiting + 1" using ctx(2,3) by (simp add: unat_word_ariths)
    show ?thesis
    proof (cases "length waiting = 3")
      case True
      have four: "data_used ctx + 1 = 4" using used True by (simp add: word_unat_eq_iff)
      have "take 4 (ctx_data ctx') = waiting @ [c]" using c(3) True by simp
      then have nths: "ctx_data ctx' ! k = (waiting @ [c]) ! k" if "k < 4" for k using that by (metis nth_take)
      obtain bs out2 where bs: "quad_of (waiting @ [c]) = Some bs" "dec_run cs [] (length bs < 3) = Some (out2, waiting', eof')" "out' = bs @ out2"
        using Cons.prems(2) False eof True by (auto simp: bind_eq_Some_conv)
      obtain w0 w1 w2 where w: "waiting = [w0, w1, w2]" using True by (auto simp: length_Suc_conv numeral_3_eq_3)
      let ?ctx = "ctx'\<lparr>data_used := 0\<rparr>"
      have "dec_holds (if length bs < 3 then ?ctx\<lparr>eof_seen := True\<rparr> else ?ctx) [] (length bs < 3)"
        using c eof by (auto simp: dec_holds_def)
      from Cons.IH [OF this bs(2), of "out @ bs"] show ?thesis
        using False eof c(1,4) four bs(1,3) ctx(2,4) nths [of 0] nths [of 1] nths [of 2] nths [of 3] w
        by (simp add: Let_def numeral_2_eq_2 numeral_3_eq_3)
    next
      case False
      note short = this
      let ?ctx = "ctx'\<lparr>data_used := data_used ctx' + 1\<rparr>"
      have four: "data_used ctx + 1 \<noteq> 4"
      proof
        assume "data_used ctx + 1 = 4"
        with used False show False by simp
      qed
      have "dec_holds ?ctx (waiting @ [c]) eof" using c used ctx(3) False by (simp add: dec_holds_def)
      moreover have "dec_run cs (waiting @ [c]) eof = Some (out', waiting', eof')" using Cons.prems(2) \<open>\<not> is_b64_space c\<close> eof False by simp
      ultimately show ?thesis using Cons.IH [of ?ctx "waiting @ [c]" eof out' out] \<open>\<not> is_b64_space c\<close> eof c(1,4) four ctx(2,4) by (simp add: Let_def)
    qed
  qed
qed

lemma quad_of_length: "quad_of cs = Some bs \<Longrightarrow> length bs \<le> 3"
  by (cases cs rule: quad_of.cases) (auto simp: base64_decode_quad_def Let_def split: if_splits)

lemma dec_run_length: "dec_run cs waiting eof = Some (out, rest) \<Longrightarrow> length out \<le> length waiting + length cs"
proof (induction cs arbitrary: waiting eof out)
  case (Cons c cs)
  then show ?case
    by (fastforce simp: bind_eq_Some_conv split: if_splits dest: quad_of_length)
qed simp

lemma DecodeUpdate_run:
  assumes "dec_holds ctx waiting eof" and "dec_run src waiting eof = Some (out, waiting', eof')" and "length src < 2 ^ 30"
  obtains ctx' where "EVP_DecodeUpdate ctx src = Some (if eof' then 0 else 1, of_nat (length out), out, ctx')" "dec_holds ctx' waiting' eof'"
    "unat (of_nat (length out) :: u32) = length out"
proof -
  obtain ctx' where c: "decode_update_loop src [] ctx = Some (True, out, ctx')" "dec_holds ctx' waiting' eof'"
    using decode_update_loop_run [OF assms(1,2), of "[]"] by auto
  have "length out \<le> length waiting + length src" by (rule dec_run_length [OF assms(2)])
  moreover have "length waiting < 4" using assms(1) by (simp add: dec_holds_def)
  ultimately have bound: "length out < 2 ^ 31" using assms(3) by simp
  then have long: "unat (of_nat (length out) :: u64) = length out" by (simp add: unat_of_nat_u64)
  then have "\<not> INT_MAX < of_nat (length out)" using bound by (simp add: INT_MAX_def word_less_nat_alt)
  moreover have "(ucast (of_nat (length out) :: u64) :: u32) = of_nat (length out)"
    using bound long by (simp add: word_unat_eq_iff unsigned_ucast_eq unat_of_nat take_bit_nat_eq_self_iff)
  ultimately have "EVP_DecodeUpdate ctx src = Some (if eof' then 0 else 1, of_nat (length out), out, ctx')"
    using c assms(1) by (simp add: EVP_DecodeUpdate_def dec_holds_def Let_def)
  moreover have "unat (of_nat (length out) :: u32) = length out" using bound by (simp add: unat_of_nat)
  ultimately show thesis using that c(2) by blast
qed

text \<open>A caller that decodes pieces until one is rejected, and ends with \<open>EVP_DecodeFinal\<close>.\<close>

primrec decode_pieces :: "EVP_ENCODE_CTX \<Rightarrow> u8 list list \<Rightarrow> u8 list option" where
  "decode_pieces ctx [] = (if EVP_DecodeFinal ctx = 1 then Some [] else None)"
| "decode_pieces ctx (src # srcs) = do {
     (status, n, out, ctx) \<leftarrow> EVP_DecodeUpdate ctx src;
     if status = -1 then None
     else map_option (\<lambda>outs. take (unat n) out @ outs) (decode_pieces ctx srcs) }"

lemma decode_pieces_run:
  assumes "dec_holds ctx waiting eof" and "dec_run (concat srcs) waiting eof = Some (out, [], eof')"
    and "\<forall>src\<in>set srcs. length src < 2 ^ 30"
  shows "decode_pieces ctx srcs = Some out"
  using assms
proof (induction srcs arbitrary: ctx waiting eof out)
  case Nil
  then show ?case by (simp add: EVP_DecodeFinal_def dec_holds_def unat_eq_0)
next
  case (Cons src srcs)
  obtain out1 waiting1 eof1 out2 where run: "dec_run src waiting eof = Some (out1, waiting1, eof1)"
    "dec_run (concat srcs) waiting1 eof1 = Some (out2, [], eof')" "out = out1 @ out2"
    using Cons.prems(2) by (auto simp: dec_run_append bind_eq_Some_conv)
  obtain ctx' where step: "EVP_DecodeUpdate ctx src = Some (if eof1 then 0 else 1, of_nat (length out1), out1, ctx')"
    "dec_holds ctx' waiting1 eof1" "unat (of_nat (length out1) :: u32) = length out1"
    by (rule DecodeUpdate_run [OF Cons.prems(1) run(1)]) (use Cons.prems(3) in auto)
  have "decode_pieces ctx' srcs = Some out2" by (rule Cons.IH [OF step(2) run(2)]) (use Cons.prems(3) in simp)
  then show ?case using step(1,3) run(3) by simp
qed

section \<open>Text and back\<close>

lemma quad_symbols:
  assumes "bs = [x] \<or> bs = [x, y] \<or> bs = [x, y, z]"
  shows "\<forall>c\<in>set (b64 bs). \<not> is_b64_space c"
proof -
  have digits: "\<not> is_b64_space (b64_symbol n)" if "n < 64" for n using symbol_digit [OF that] by simp
  have top: "n div 262144 < 64" if "n < 16777216" for n :: nat using that by (simp add: div_less_iff_less_mult)
  have "\<forall>c\<in>set (b64_digits n). \<not> is_b64_space c" if "n < 16777216" for n
    using digits [OF top [OF that]] digits [of "n div 4096 mod 64"] digits [of "n div 64 mod 64"] digits [of "n mod 64"]
    by (simp add: b64_digits_def)
  note groups = this [OF group_bounds [of x y z]] this [OF group_bounds [of x y 0]] this [OF group_bounds [of x 0 0]]
  moreover have "\<not> is_b64_space 61" by (simp add: is_b64_space_def)
  ultimately show ?thesis using assms by (auto dest!: in_set_takeD)
qed

lemma b64_symbols: "\<forall>c\<in>set (b64 bs). \<not> is_b64_space c"
proof (induction bs rule: b64.induct)
  case (2 x)
  then show ?case using quad_symbols [of "[x]" x] by blast
next
  case (3 x y)
  then show ?case using quad_symbols [of "[x, y]" x y] by blast
next
  case (4 x y z bs)
  have "set (b64 (x # y # z # bs)) = set (b64 [x, y, z]) \<union> set (b64 bs)" by simp
  then show ?case using quad_symbols [of "[x, y, z]" x y z] 4 by blast
qed simp

lemma dec_run_b64: "dec_run (b64 bs) [] False = Some (bs, [], length bs mod 3 \<noteq> 0)"
proof (induction bs rule: b64.induct)
  case (2 x)
  obtain s0 s1 s2 s3 where s: "b64 [x] = [s0, s1, s2, s3]" "base64_decode_quad s0 s1 s2 s3 = Some [x]" by (rule decode_group [of "[x]" x]) auto
  show ?case using b64_symbols [of "[x]"] unfolding s by (simp add: s)
next
  case (3 x y)
  obtain s0 s1 s2 s3 where s: "b64 [x, y] = [s0, s1, s2, s3]" "base64_decode_quad s0 s1 s2 s3 = Some [x, y]"
    by (rule decode_group [of "[x, y]" x y]) auto
  show ?case using b64_symbols [of "[x, y]"] unfolding s by (simp add: s)
next
  case (4 x y z bs)
  obtain s0 s1 s2 s3 where s: "b64 [x, y, z] = [s0, s1, s2, s3]" "base64_decode_quad s0 s1 s2 s3 = Some [x, y, z]"
    by (rule decode_group [of "[x, y, z]" x y z]) auto
  have "length (x # y # z # bs) mod 3 = length bs mod 3" using mod_add_self2 [of "length bs" 3] by simp
  then show ?case using b64_symbols [of "[x, y, z]"] 4 by (subst b64_more, unfold s) (simp add: s)
qed simp

lemma b64_append: "3 dvd length xs \<Longrightarrow> b64 (xs @ ys) = b64 xs @ b64 ys"
proof (induction xs rule: b64.induct)
  case (4 x y z bs)
  have "length (x # y # z # bs) = length bs + 3" by simp
  then have "3 dvd length bs" using 4(2) by (metis dvd_add_triv_right_iff)
  with 4(1) show ?case by simp
qed (auto dest: dvd_imp_le)

lemma text_symbols: "filter (\<lambda>c. \<not> is_b64_space c) (b64_text bs) = b64 bs"
proof (induction bs rule: b64_text.induct)
  case (1 bs)
  have plain: "filter (\<lambda>c. \<not> is_b64_space c) (b64 xs) = b64 xs" for xs using b64_symbols [of xs] by (simp add: filter_id_conv)
  have "b64 bs = b64 (take 48 bs) @ b64 (drop 48 bs)"
  proof (cases "48 \<le> length bs")
    case True
    then show ?thesis using b64_append [of "take 48 bs" "drop 48 bs"] by (simp add: min_def)
  qed simp
  then show ?case using 1 plain by (subst b64_text.simps) (simp add: is_b64_space_def)
qed

end
