(* ===== verification/Bssl_Base64_Properties.thy ===== *)
theory Bssl_Base64_Properties
  imports Bssl_Base64_Stream
begin

text \<open>
  The properties of the constant-time selection and of Base64.
\<close>

section \<open>Constant-time comparisons\<close>

text \<open>
  C15. The branch-free comparisons are comparisons: on any two words of 64 bits the masks of
  \<open>constant_time_lt_w\<close>, \<open>constant_time_ge_w\<close>, \<open>constant_time_is_zero_w\<close> and \<open>constant_time_eq_w\<close>
  select the first of two values exactly if a is less than b, at least b, zero, or equal to b as
  unsigned numbers, whatever the values are.
\<close>

theorem constant_time_comparisons:
  "constant_time_select_w (constant_time_lt_w a b) x y = (if a < b then x else y) \<and>
   constant_time_select_w (constant_time_ge_w a b) x y = (if b \<le> a then x else y) \<and>
   constant_time_select_w (constant_time_is_zero_w a) x y = (if a = 0 then x else y) \<and>
   constant_time_select_8 (constant_time_eq_w a b) v w = (if a = b then v else w)"
proof -
  have "constant_time_ge_w a b = all_ones (b \<le> a)" by (auto simp: constant_time_ge_w_def lt_mask)
  then show ?thesis by (simp only: lt_mask is_zero_mask eq_mask select_mask simp_thms)
qed

section \<open>Base64\<close>

lemma EncodedLength_b64:
  assumes "length bs < 2 ^ 62"
  shows "EVP_EncodedLength (of_nat (length bs)) = Some (of_nat (length (b64 bs) + 1))"
proof -
  have len: "unat (of_nat (length bs) :: u64) = length bs" using assms by (simp add: unat_of_nat_u64)
  have sum: "unat (of_nat (length bs) + 2 :: u64) = length bs + 2" using assms len by (simp add: unat_word_ariths)
  define q where "q = (length bs + 2) div 3"
  have q: "(of_nat (length bs) + 2) div 3 = (of_nat q :: u64)" "q < 2 ^ 61"
  proof -
    show "q < 2 ^ 61" using assms unfolding q_def by (simp add: div_less_iff_less_mult)
    then show "(of_nat (length bs) + 2) div 3 = (of_nat q :: u64)" using sum by (simp add: word_unat_eq_iff unat_div q_def unat_of_nat_u64)
  qed
  have shift: "push_bit 2 (of_nat q) = (of_nat (q * 4) :: u64)" by (simp add: push_bit_eq_mult)
  have "unat (of_nat (q * 4) :: u64) = q * 4" using q(2) by (simp add: unat_of_nat_u64 del: of_nat_mult)
  then have shifted: "drop_bit 2 (of_nat (q * 4)) = (of_nat q :: u64)" "\<not> of_nat (q * 4) + 1 < (of_nat (q * 4) :: u64)"
    using q(2) by (simp_all add: word_unat_eq_iff unat_drop_bit_eq drop_bit_eq_div unat_of_nat_u64 word_less_nat_alt unat_word_ariths del: of_nat_mult)
  have "\<not> of_nat (length bs) + 2 < (of_nat (length bs) :: u64)" using sum len by (simp add: word_less_nat_alt)
  moreover have "length (b64 bs) = q * 4" by (simp add: b64_length q_def)
  ultimately show ?thesis using shifted by (simp add: EVP_EncodedLength_def q(1) Let_def shift del: of_nat_mult)
qed

text \<open>
  C14. Encoding is RFC 4648. For every input \<open>EVP_EncodeBlock\<close> stores the digits in base 64 of its
  groups of three bytes, written with the alphabet and padded with =, and a zero, and returns the number
  of characters; \<open>EVP_EncodedLength\<close> is exactly the number of bytes stored.
\<close>

theorem base64_encoding:
  assumes "length bs < 2 ^ 62"
  shows "EVP_EncodeBlock bs = (b64 bs @ [0], of_nat (length (b64 bs))) \<and>
    EVP_EncodedLength (of_nat (length bs)) = Some (of_nat (length (fst (EVP_EncodeBlock bs))))"
  using EncodedLength_b64 [OF assms] by (simp add: EVP_EncodeBlock_def encode_block_loop_b64)

lemma base64_encoding_witness:
  "EVP_EncodeBlock [0x4D, 0x61] = (b64 [0x4D, 0x61] @ [0], 4) \<and> EVP_EncodedLength 2 = Some 5 \<and> b64 [0x4D, 0x61] = [84, 87, 69, 61]"
proof -
  have "b64 [0x4D, 0x61] = [84, 87, 69, 61]" by (simp add: b64_digits_def b64_symbol_def b64_alphabet_codes)
  with base64_encoding [of "[0x4D, 0x61]"] show ?thesis by (simp del: b64.simps)
qed

text \<open>
  C13. Decoding inverts encoding. Given room for it, \<open>EVP_DecodeBase64\<close> of the characters that
  \<open>EVP_EncodeBlock\<close> stored, without their zero, returns 1 and the input.
\<close>

theorem base64_roundtrip:
  assumes "length bs < 2 ^ 62" and "length bs + 2 \<le> unat max_out"
  shows "EVP_DecodeBase64 max_out (butlast (fst (EVP_EncodeBlock bs))) = (True, of_nat (length bs), bs)"
proof -
  have len: "(length bs + 2) div 3 < 2 ^ 61" using assms(1) by (simp add: div_less_iff_less_mult)
  have n: "unat (of_nat (length (b64 bs)) :: u64) = length (b64 bs)" using len by (intro unat_of_nat_u64) (simp add: b64_length)
  have "of_nat (length (b64 bs)) mod 4 = (0 :: u64)" using n by (simp add: word_unat_eq_iff unat_mod b64_length)
  moreover have "unat (of_nat (length (b64 bs)) div 4 * 3 :: u64) = (length bs + 2) div 3 * 3"
    using n len by (simp add: unat_word_ariths unat_div b64_length)
  then have "\<not> max_out < of_nat (length (b64 bs)) div 4 * 3" using assms(2) by (simp add: word_less_nat_alt)
  moreover have "butlast (fst (EVP_EncodeBlock bs)) = b64 bs" by (simp add: EVP_EncodeBlock_def encode_block_loop_b64)
  ultimately show ?thesis by (simp add: EVP_DecodeBase64_def EVP_DecodedLength_def Let_def decode_quads_b64)
qed

lemma base64_roundtrip_witness:
  "EVP_DecodeBase64 6 (butlast (fst (EVP_EncodeBlock [1, 2, 3, 4]))) = (True, 4, [1, 2, 3, 4])"
  using base64_roundtrip [of "[1, 2, 3, 4]" 6] by simp

text \<open>
  C12. The streams are the same however they are cut. The pieces of any input, given to
  \<open>EVP_EncodeUpdate\<close> one after the other and ended by \<open>EVP_EncodeFinal\<close>, make the text of the whole
  input in lines of 64 characters; and that text, cut into any other pieces, is decoded by
  \<open>EVP_DecodeUpdate\<close> and \<open>EVP_DecodeFinal\<close> to the input. No call writes outside the context.
\<close>

theorem base64_stream_roundtrip:
  assumes "\<forall>src\<in>set srcs. length src < 2 ^ 30" and "\<forall>piece\<in>set pieces. length piece < 2 ^ 30"
    and "concat pieces = b64_text (concat srcs)"
  shows "encode_pieces EVP_EncodeInit srcs = Some (concat pieces) \<and> decode_pieces EVP_DecodeInit pieces = Some (concat srcs)"
proof
  have "enc_holds EVP_EncodeInit []" by (simp add: enc_holds_def EVP_EncodeInit_def)
  from encode_pieces_text [OF this assms(1)] assms(3) show "encode_pieces EVP_EncodeInit srcs = Some (concat pieces)" by simp
  have "dec_holds EVP_DecodeInit [] False" by (simp add: dec_holds_def EVP_DecodeInit_def)
  moreover have "dec_run (concat pieces) [] False = Some (concat srcs, [], length (concat srcs) mod 3 \<noteq> 0)"
    using dec_run_text [of "concat pieces"] dec_run_b64 [of "concat srcs"] by (simp add: assms(3) text_symbols)
  ultimately show "decode_pieces EVP_DecodeInit pieces = Some (concat srcs)" by (rule decode_pieces_run [OF _ _ assms(2)])
qed

lemma base64_stream_roundtrip_witness:
  "encode_pieces EVP_EncodeInit [[0x4D], [], [0x61]] = Some [84, 87, 69, 61, 10] \<and>
   decode_pieces EVP_DecodeInit [[84, 87], [69], [61, 10]] = Some [0x4D, 0x61]"
proof -
  have "b64_text [0x4D, 0x61] = [84, 87, 69, 61, 10]"
    by (subst b64_text.simps, simp add: b64_digits_def b64_symbol_def b64_alphabet_codes) (simp add: b64_text.simps)
  with base64_stream_roundtrip [of "[[0x4D], [], [0x61]]" "[[84, 87], [69], [61, 10]]"] show ?thesis by simp
qed

end
