(* ===== verification/Spec2Isabelle.thy ===== *)
theory Spec2Isabelle
  imports Cls_Dwarf_Properties Cls_Unwind_Properties Cls_Report_Properties Cls_Allocate_Properties
    Cls_Mach_Properties Pb_Properties Pb_Decode_Properties
    Bssl_Base64_Properties
begin

text \<open>
  A model of the crash reporting core of Firebase Crashlytics, the C program of this repository that
  runs inside the application and, when it crashes, inside a dying process, of the protocol
  buffers encoder and decoder its reports are sent with, and of the encoding layer of BoringSSL under
  the connections of gRPC. The sources are under
  src/ios/Pods/FirebaseCrashlytics/Crashlytics; file names below are relative to its directory
  Crashlytics, to src/ios/Pods/nanopb for the protocol buffers (pb.h,
  pb_common.c, pb_encode.c, pb_decode.c), or to src/ios/Pods/BoringSSL-GRPC/src/crypto.

  The parts and how they interact. A fatal signal (Handlers/FIRCLSSignal.c) or a Mach exception
  message (Handlers/FIRCLSMachException.c) makes its handler give the signals and exception ports back
  to whoever had them, mark the context as crashed (Components/FIRCLSContext.m) and call
  \<open>FIRCLSHandler\<close> (Handlers/FIRCLSHandler.m). That suspends the other threads and records the process
  (Components/FIRCLSProcess.c): for each thread its registers and the stack trace the unwinder
  delivers (Unwind/FIRCLSUnwind.c), then names, queues and statistics, written as lines of JSON by the
  report writer (Helpers/FIRCLSFile.m). The unwinder tries, per frame, the compact encoding of the
  image (Unwind/Compact/FIRCLSCompactUnwind.c), DWARF call frame information (Unwind/Dwarf), the frame
  pointer, and a scan of the stack (Unwind/FIRCLSUnwind_x86.c, FIRCLSUnwind_arm.c). The context all of
  them read was allocated at start-up from protected pages (Helpers/FIRCLSAllocate.c). At the next
  start the report files are put into the message google_crashlytics_Report
  (../Protogen/nanopb/crashlytics.nanopb.c) and encoded by pb_encode.c, which walks the message's
  descriptor table with the iterator of pb_common.c, twice for every submessage: once to learn its
  size, once to write it. pb_decode.c is the way back: it reads tags from an input stream, finds their
  fields with the same iterator, and stores the values in the structure, through substreams for what
  is nested, with the allocator for what the structure points to.

  Conventions. Machine integers are words of their width. A function that can fault or reach
  behaviour the C standard leaves undefined returns \<open>None\<close> for it; a loop returns a
  \<open>loop_result\<close>, whose \<open>Out_of_fuel\<close> the properties exclude; \<open>exit\<close> is the value \<open>Exited\<close>
  with the state the process ends in, and a write outside an array marks the state (\<open>overrun\<close>).
  Pointer parameters written through are returned. The kernel, the C library, the SDK's header
  constants and the memory of the process are arguments: the records \<open>cls_env\<close>, \<open>process_os\<close>,
  \<open>alloc_os\<close>, \<open>file_os\<close>, \<open>signal_os\<close> and \<open>mach_os\<close>, the compact encoding records, and the
  device a report is written to. Logging to the internal log is left out.

  The theories.
  \<^item> Cls_Prelude: words, outcomes, C arithmetic. Cls_Memory: the address space and the readers of
    Helpers/FIRCLSUtility.m.
  \<^item> Cls_Data_Parsing with Cls_Leb128: Unwind/Dwarf/FIRCLSDataParsing.c and the LEB128 numbers of the
    standard.
  \<^item> Cls_Thread_State: Helpers/FIRCLSThreadState.c and the register tables of the two architectures,
    behind the locale the architecture-independent unwinder uses.
  \<^item> Cls_Dwarf_Expr with Cls_Dwarf_Expr_Spec: FIRCLSDwarfExpressionMachine.c; what an expression means
    on a list, and that the machine computes it.
  \<^item> Cls_Dwarf_Records, Cls_Dwarf_Cfi, Cls_Dwarf_Unwind with Cls_Dwarf_Cfi_Spec: FIRCLSDwarfUnwind.c;
    what the instruction loop does on an assembled call frame program. Cls_Dwarf_Rows: the table rows
    the standard gives such a program, and when the loop leaves the rules of that row.
  \<^item> Cls_Dwarf_Properties: the properties of the DWARF half, up to the unwinding of a frame.
  \<^item> Cls_Compact_Unwind, Cls_Unwind_Arch, Cls_Unwind with Cls_Unwind_Facts and
    Cls_Unwind_Properties: the compact tables, the architecture files, the walk over the frames.
  \<^item> Cls_File with Cls_File_Facts and Cls_Json: Helpers/FIRCLSFile.m; what reaches the file, and that
    the collection writers print JSON.
  \<^item> Cls_Process with Cls_Process_Facts and Cls_Report_Properties: Components/FIRCLSProcess.c and the
    text of each section of the report.
  \<^item> Cls_Allocate with Cls_Allocate_Properties: Helpers/FIRCLSAllocate.c, with concurrent allocation
    as a step relation.
  \<^item> Cls_Handler: the crash flag, opening files, \<open>FIRCLSHandler\<close>, and the lines of a whole report.
  \<^item> Cls_Signal with Cls_Signal_Facts and Cls_Signal_Properties: Handlers/FIRCLSSignal.c.
  \<^item> Cls_Mach with Cls_Mach_Properties: Handlers/FIRCLSMachException.c.
  \<^item> Pb_Common: the descriptor of pb.h and the iterator of pb_common.c. Pb_Encode: pb_encode.c.
    Pb_Encode_Spec and Pb_Encode_Facts: the wire format, the message a structure in memory stands for,
    and that the encoder writes the one for the other, over the locale of a sink that accepts
    everything in order. Pb_Report: the tables and structures of crashlytics.nanopb.c.
    Pb_Properties: the two theorems about them.
  \<^item> Pb_Istream: the input streams of pb_decode.c and the readers of numbers, tags, skipped fields and
    substreams. Pb_Defaults: default values and releasing. Pb_Decode: everything else of pb_decode.c.
  \<^item> Pb_Istream_Facts: what each reader takes from a stream, over the locale of a source that delivers
    what it has in order, interpreted on buffers. Pb_Memory_Facts: writing to memory. Pb_Static and
    Pb_Decode_Facts, Pb_Decode_Safe, Pb_Decode_Message: tables whose fields are in place, and that
    decoding them never leaves the structure. Pb_Flat, Pb_Roundtrip and Pb_Typed: tables of single
    proto3 fields, what a structure represents, and what decoding any list of fields stores.
    Pb_Decode_Properties: the theorems about the decoder.
  \<^item> Bssl_Prelude: words and big-endian bytes. Bssl_Constant_Time: the constant-time selection of
    internal.h. Bssl_Base64: base64/base64.c. Bssl_Base64_Facts: Base64 as RFC 4648 defines it, and that
    blocks are encoded and decoded so. Bssl_Base64_Stream: what the context stands for between calls.
    Bssl_Base64_Properties: the theorems about them.

  What the lemmas show. The end-to-end theorems (signal and Mach exception) say what is in the report
  file, who owns the signals and ports afterwards, and what a second crash does. Beneath them: the
  decoders invert the standard's encodings inside the range where the C code has no undefined
  shift; expressions mean what the standard says, and so do call frame programs
  as long as the code's reading of packed advances makes no difference; one frame of x86_64 and a
  chain of ARM64 frames are unwound correctly and failures leave the registers alone; table searches
  stay in bounds and are sound; the writer loses and reorders nothing; the allocator hands out disjoint
  blocks under any interleaving; the encoder writes the wire format of the message in memory into any
  buffer with room and stays inside any other; the decoder returns on every input and writes only to the
  structure it was given, leaves values of the right types there, and stores the last value of each
  field, so that decoding inverts encoding; Base64 is that of RFC 4648 however its input is cut. Several theorems record what the code does where that is not what it
  means to do; the manifest lists them as findings.

  Fuel. Loops over bytes or table entries recurse on the count the code keeps, and the expression loop
  is a function proved to end, since every opcode advances. The call frame loop takes the length of
  the program as fuel, for the same reason; the stack scan the number of words between its bounds and
  two more; a stack trace the frame limit plus one; string reads \<open>CLS_STRING_FUEL\<close>, 65536, the
  longest string considered. The fuel of the encoder is the nesting depth of messages; four is enough
  for a report. The callback functions of fields and extensions are parameters of the encoder. The
  fuel of the decoder is the nesting depth too, and its loops over a stream take the bytes left as fuel,
  since a tag and an entry each take one; \<open>callback_rounds\<close> bounds the calls of one field's callback.
  Its callback functions, the allocator, and where the C compiler puts the local count of an activation
  (\<open>count_local\<close>) are parameters. The buffer a message is decoded from is a list of bytes, not part of
  the memory that is written.

  Not modelled: the i386 and armv7 branches; Objective-C set-up, settings, uploads and user logging,
  which only call Foundation; the recording of loaded images by dyld callbacks; the DEBUG printing
  functions; port rights and thread attributes beyond the success of the calls; of nanopb, the
  configurations without 64-bit integers or with buffer-only streams. Proved for static tables
  only is that the decoder stays inside the structure; fields with pointers and callbacks are modelled,
  without theorems of their own; of BoringSSL, the ciphers, big numbers, X.509 and TLS. The rest of the
  repository is the Dart application and other vendored pods.
\<close>

end
